(* ===== verification/Prelude.thy ===== *)
theory Prelude
  imports Main "HOL-Library.Word"
begin

text \<open>
  What every component shares: the errors a JavaScript routine can throw and the result type
  that carries them, the integer-valued operators of JavaScript's \<open>Number\<close> and \<open>BigInt\<close>,
  and the arithmetic that the proofs use to replace a bit operation by \<open>div\<close> and \<open>mod\<close>.

  An integer-valued \<open>Number\<close> and a \<open>BigInt\<close> are both an \<^typ>\<open>int\<close>. The operators
  of \<open>Number\<close> that work on 32 bits (\<open>&\<close>, \<open>|\<close>, \<open>^\<close>, \<open>~\<close>, \<open><<\<close>, \<open>>>\<close>, \<open>>>>\<close>) first
  reduce their operands to 32 bits, which is written out with \<open>mod\<close>; those of \<open>BigInt\<close>
  work on the unbounded two's complement, which is what \<open>AND\<close>, \<open>OR\<close>, \<open>push_bit\<close> and
  \<open>drop_bit\<close> are on \<^typ>\<open>int\<close>.
\<close>

unbundle bit_operations_syntax

section \<open>Errors and results\<close>

datatype js_error =
    TypeError string
  | RangeError string
  | GenericError string
  | SyntaxError string
  | ArgumentError string
  | ReferenceError string
  | DriverInternalError string

type_synonym 'a result = "js_error + 'a"

abbreviation throw :: "js_error \<Rightarrow> 'a result" where
  "throw e \<equiv> Inl e"

abbreviation return :: "'a \<Rightarrow> 'a result" where
  "return x \<equiv> Inr x"

fun rbind :: "'a result \<Rightarrow> ('a \<Rightarrow> 'b result) \<Rightarrow> 'b result" where
  "rbind (Inl e) f = Inl e"
| "rbind (Inr x) f = f x"

fun rmap :: "('a \<Rightarrow> 'b result) \<Rightarrow> 'a list \<Rightarrow> 'b list result" where
  "rmap f [] = Inr []"
| "rmap f (x # xs) = rbind (f x) (\<lambda>y. rbind (rmap f xs) (\<lambda>ys. Inr (y # ys)))"

fun is_return :: "'a result \<Rightarrow> bool" where
  "is_return (Inl e) = False"
| "is_return (Inr x) = True"

fun is_TypeError :: "'a result \<Rightarrow> bool" where
  "is_TypeError (Inl (TypeError m)) = True"
| "is_TypeError _ = False"

section \<open>Operators of the integer-valued Number\<close>

definition to_int32 :: "int \<Rightarrow> int" where
  "to_int32 x = (x + 2147483648) mod 4294967296 - 2147483648"

definition to_uint32 :: "int \<Rightarrow> int" where
  "to_uint32 x = x mod 4294967296"

definition js_and :: "int \<Rightarrow> int \<Rightarrow> int" where
  "js_and x y = to_int32 x AND to_int32 y"

definition js_or :: "int \<Rightarrow> int \<Rightarrow> int" where
  "js_or x y = to_int32 x OR to_int32 y"

definition js_xor :: "int \<Rightarrow> int \<Rightarrow> int" where
  "js_xor x y = to_int32 x XOR to_int32 y"

definition js_not :: "int \<Rightarrow> int" where
  "js_not x = NOT (to_int32 x)"

text \<open>A shift uses the low five bits of its right operand; every shift of the driver is by
  a count from 0 to 31, given here as a natural number.\<close>

definition js_shl :: "int \<Rightarrow> nat \<Rightarrow> int" where
  "js_shl x k = to_int32 (to_int32 x * 2 ^ (k mod 32))"

definition js_shr :: "int \<Rightarrow> nat \<Rightarrow> int" where
  "js_shr x k = to_int32 x div 2 ^ (k mod 32)"

definition js_shru :: "int \<Rightarrow> nat \<Rightarrow> int" where
  "js_shru x k = to_uint32 x div 2 ^ (k mod 32)"

definition is_int32 :: "int \<Rightarrow> bool" where
  "is_int32 x \<longleftrightarrow> - 2147483648 \<le> x \<and> x \<le> 2147483647"

definition is_int64 :: "int \<Rightarrow> bool" where
  "is_int64 x \<longleftrightarrow> - 9223372036854775808 \<le> x \<and> x \<le> 9223372036854775807"

text \<open>Named collections: the reductions of the 32-bit operators to arithmetic, and the
  facts that keep a value inside its range.\<close>

named_theorems js_arith "the 32-bit operators as div and mod"
named_theorems js_range "ranges of the 32-bit operators"

section \<open>Lemmas on results\<close>

lemma rbind_eq_Inr [simp]: "rbind m f = Inr y \<longleftrightarrow> (\<exists>x. m = Inr x \<and> f x = Inr y)"
  by (cases m) auto

lemma rbind_eq_Inl [simp]:
  "rbind m f = Inl e \<longleftrightarrow> m = Inl e \<or> (\<exists>x. m = Inr x \<and> f x = Inl e)"
  by (cases m) auto

lemma rbind_return [simp]: "rbind m Inr = m"
  by (cases m) auto

lemma rbind_assoc: "rbind (rbind m f) g = rbind m (\<lambda>x. rbind (f x) g)"
  by (cases m) auto

lemma rbind_cong [fundef_cong]:
  "m = m' \<Longrightarrow> (\<And>x. m' = Inr x \<Longrightarrow> f x = g x) \<Longrightarrow> rbind m f = rbind m' g"
  by (cases m') auto

lemma rmap_cong [fundef_cong]:
  "xs = ys \<Longrightarrow> (\<And>x. x \<in> set ys \<Longrightarrow> f x = g x) \<Longrightarrow> rmap f xs = rmap g ys"
  by (induction xs arbitrary: ys) auto

lemma rmap_length: "rmap f xs = Inr ys \<Longrightarrow> length ys = length xs"
  by (induction xs arbitrary: ys) auto

lemma rmap_all: "(\<And>x. x \<in> set xs \<Longrightarrow> f x = Inr (g x)) \<Longrightarrow> rmap f xs = Inr (map g xs)"
  by (induction xs) auto

lemma rmap_result: "rmap f xs = Inr ys \<Longrightarrow> y \<in> set ys \<Longrightarrow> \<exists>x \<in> set xs. f x = Inr y"
  by (induction xs arbitrary: ys) auto

lemma rmap_Inr_iff:
  "rmap f xs = Inr ys \<longleftrightarrow> list_all2 (\<lambda>x y. f x = Inr y) xs ys"
proof (induction xs arbitrary: ys)
  case Nil
  then show ?case by (cases ys) auto
next
  case (Cons x xs)
  then show ?case by (cases ys) auto
qed

lemma is_return_iff: "is_return m \<longleftrightarrow> (\<exists>x. m = Inr x)"
  by (cases m) auto

lemma is_TypeError_iff: "is_TypeError m \<longleftrightarrow> (\<exists>s. m = Inl (TypeError s))"
  by (cases m rule: is_TypeError.cases) auto

section \<open>Lemmas on the 32-bit operators\<close>

lemma to_int32_range [js_range]: "is_int32 (to_int32 x)"
  by (simp add: is_int32_def to_int32_def)

lemma to_int32_id [simp]: "is_int32 x \<Longrightarrow> to_int32 x = x"
  by (simp add: is_int32_def to_int32_def)

lemma to_int32_idem [simp]: "to_int32 (to_int32 x) = to_int32 x"
  by (simp add: to_int32_range)

lemma to_int32_mod [simp]: "to_int32 x mod 4294967296 = x mod 4294967296"
  by (simp add: to_int32_def mod_diff_left_eq)

lemma to_int32_cong: "x mod 4294967296 = y mod 4294967296 \<Longrightarrow> to_int32 x = to_int32 y"
  by (metis mod_add_left_eq to_int32_def)

lemma to_int32_of_mod [simp]: "to_int32 (x mod 4294967296) = to_int32 x"
  by (rule to_int32_cong) simp

lemma to_int32_take_bit: "to_int32 x = signed_take_bit 31 x"
  by (simp add: to_int32_def signed_take_bit_eq_take_bit_shift take_bit_eq_mod)

lemma to_uint32_range [js_range]: "0 \<le> to_uint32 x \<and> to_uint32 x < 4294967296"
  by (simp add: to_uint32_def)

lemma to_uint32_to_int32 [simp]: "to_uint32 (to_int32 x) = to_uint32 x"
  by (simp add: to_uint32_def)

lemma to_int32_to_uint32 [simp]: "to_int32 (to_uint32 x) = to_int32 x"
  by (simp add: to_uint32_def)

lemma to_uint32_id [simp]: "0 \<le> x \<Longrightarrow> x < 4294967296 \<Longrightarrow> to_uint32 x = x"
  by (simp add: to_uint32_def)

lemma js_and_eq: "js_and x y = to_int32 (x AND y)"
  by (simp add: js_and_def to_int32_take_bit bit_eq_iff bit_simps)

lemma js_or_eq: "js_or x y = to_int32 (x OR y)"
  by (simp add: js_or_def to_int32_take_bit bit_eq_iff bit_simps)

lemma js_xor_eq: "js_xor x y = to_int32 (x XOR y)"
  by (simp add: js_xor_def to_int32_take_bit bit_eq_iff bit_simps)

lemma js_not_eq: "js_not x = to_int32 (NOT x)"
  by (simp add: js_not_def to_int32_take_bit bit_eq_iff bit_simps)

lemma js_not_arith [js_arith]: "js_not x = - to_int32 x - 1"
  by (simp add: js_not_def not_int_def)

lemma js_shl_eq [js_arith]: "k < 32 \<Longrightarrow> js_shl x k = to_int32 (x * 2 ^ k)"
  unfolding js_shl_def by (rule to_int32_cong) (metis mod_less mod_mult_left_eq to_int32_mod)

lemma js_shr_eq [js_arith]: "k < 32 \<Longrightarrow> js_shr x k = to_int32 x div 2 ^ k"
  by (simp add: js_shr_def)

lemma js_shru_eq [js_arith]: "k < 32 \<Longrightarrow> js_shru x k = x mod 4294967296 div 2 ^ k"
  by (simp add: js_shru_def to_uint32_def)

lemma js_ops_range [js_range]:
  "is_int32 (js_and x y)" "is_int32 (js_or x y)" "is_int32 (js_xor x y)" "is_int32 (js_not x)"
  "is_int32 (js_shl x k)"
  by (simp_all add: js_and_eq js_or_eq js_xor_eq js_not_eq js_shl_def to_int32_range)

lemma int32_mod [js_range]: "0 < m \<Longrightarrow> m \<le> 2147483648 \<Longrightarrow> is_int32 (x mod m)"
  unfolding is_int32_def by (smt (verit) pos_mod_bound pos_mod_sign)

text \<open>Masking with the low bits is a remainder; joining disjoint bit fields is a sum.\<close>

lemma and_mask_mod: "x AND (2 ^ n - 1) = x mod 2 ^ n" for x :: int
  by (simp add: take_bit_eq_mod flip: take_bit_eq_mask mask_eq_exp_minus_1)

lemma js_and_mask: "n \<le> 31 \<Longrightarrow> js_and x (2 ^ n - 1) = x mod 2 ^ n"
  using power_increasing[of n 31 "2::int"] by (simp add: js_and_eq and_mask_mod int32_mod)

lemma js_and_ffff [js_arith]: "js_and x 65535 = x mod 65536"
  using js_and_mask[of 16] by simp

lemma js_and_ff [js_arith]: "js_and x 255 = x mod 256"
  using js_and_mask[of 8] by simp

lemma and_ff: "x AND 255 = x mod 256" for x :: int
  using and_mask_mod[of x 8] by simp

lemma or_shifted_add:
  fixes a b :: int
  assumes "0 \<le> b" "b < 2 ^ n"
  shows "a * 2 ^ n OR b = a * 2 ^ n + b"
proof -
  have "take_bit n b = b"
    using assms by (simp add: take_bit_int_eq_self)
  then have "bit b i \<Longrightarrow> i < n" for i
    by (metis bit_take_bit_iff)
  then have "push_bit n a AND b = 0"
    by (auto intro!: bit_eqI simp: bit_and_iff bit_push_bit_iff) (meson not_le)
  then show ?thesis by (simp add: disjunctive_add_eq_or push_bit_eq_mult)
qed

lemma js_or_shl:
  assumes "0 \<le> b" "b < 2 ^ k" "k < 32"
  shows "js_or (js_shl a k) b = to_int32 (a * 2 ^ k + b)"
proof -
  have "js_or (js_shl a k) b = js_or (a * 2 ^ k) b"
    using assms(3) by (simp add: js_or_def js_shl_eq)
  then show ?thesis
    using assms by (simp add: js_or_eq or_shifted_add)
qed

section \<open>Lemmas on division\<close>

lemma zdiv_less: "0 < b \<Longrightarrow> v < c * b \<Longrightarrow> v div b < c" for v :: int
  by (smt (verit) div_mult_mod_eq mult_right_mono pos_mod_sign)

lemma zdiv_ge: "0 < b \<Longrightarrow> c * b \<le> v \<Longrightarrow> c \<le> v div b" for v :: int
  using zdiv_mono1[of "c * b" v b] by simp

lemma zdiv_range:
  fixes x :: int
  assumes "- (k * m) \<le> x" "x < k * m" "0 < m"
  shows "- k \<le> x div m \<and> x div m < k"
  using assms zdiv_less[of m x k] zdiv_ge[of m "- k" x] by simp

lemma div_add3:
  fixes x y c m :: int
  assumes "m \<noteq> 0"
  shows "(x + y + c) div m = x div m + y div m + (x mod m + y mod m + c) div m"
proof -
  have "x + y + c = (x mod m + y mod m + c) + (x div m + y div m) * m"
    using div_mult_mod_eq[of x m] div_mult_mod_eq[of y m] by (simp only: distrib_right)
  then show ?thesis using assms by (metis add.commute div_mult_self1)
qed

lemma mod_add3: "(c + x mod m + y mod m) mod m = (x + y + c) mod m" for x y c m :: int
proof -
  have "(c + x mod m + y mod m) mod m = (c + x + y) mod m"
    by (intro mod_add_cong refl) simp_all
  then show ?thesis by (simp add: ac_simps)
qed

lemma int32_div: "is_int32 h \<Longrightarrow> h div 4294967296 = (if h < 0 then - 1 else 0)"
  by (auto simp: is_int32_def)

text \<open>Clearing the low bits is rounding down to a multiple.\<close>

lemma and_high_mask: "x AND - (2 ^ n) = x div 2 ^ n * 2 ^ n" for x :: int
proof -
  have "- (2 ^ n) = NOT (mask n :: int)" by (simp add: mask_eq_exp_minus_1 not_int_def)
  moreover have "x AND NOT (mask n) = push_bit n (drop_bit n x)"
    by (auto simp: bit_eq_iff bit_simps)
  ultimately show ?thesis by (simp add: push_bit_eq_mult drop_bit_eq_div)
qed

end
