(* ===== verification/JS_Buffer.thy ===== *)
theory JS_Buffer
  imports Prelude
begin

text \<open>
  The part of Node's \<open>Buffer\<close> that the driver uses: a buffer is a list of bytes. Reading a
  fixed-width integer past the end throws a \<open>RangeError\<close>, as does writing a value that does
  not fit; an indexed read past the end is \<open>undefined\<close>, here \<^const>\<open>None\<close>; an indexed write
  stores its value modulo 256 and past the end does nothing, which is what list update does.
\<close>

type_synonym byte = "8 word"
type_synonym buffer = "byte list"

section \<open>Operations\<close>

definition to_byte :: "int \<Rightarrow> byte" where
  "to_byte x = word_of_int x"

definition buf_get :: "buffer \<Rightarrow> nat \<Rightarrow> int option" where
  "buf_get b i = (if i < length b then Some (uint (b ! i)) else None)"

definition buf_set :: "buffer \<Rightarrow> nat \<Rightarrow> int \<Rightarrow> buffer" where
  "buf_set b i x = b[i := to_byte x]"

text \<open>\<open>be_bytes n x\<close>: the \<open>n\<close> low-order bytes of \<open>x\<close>, most significant first.\<close>

fun be_bytes :: "nat \<Rightarrow> int \<Rightarrow> buffer" where
  "be_bytes 0 x = []"
| "be_bytes (Suc n) x = be_bytes n (x div 256) @ [to_byte x]"

text \<open>The unsigned value of a big-endian run of bytes.\<close>

definition be_val :: "buffer \<Rightarrow> int" where
  "be_val b = foldl (\<lambda>acc w. acc * 256 + uint w) 0 b"

definition buf_slice :: "buffer \<Rightarrow> int \<Rightarrow> int \<Rightarrow> buffer" where
  "buf_slice b s e =
     (let n = int (length b);
          clamp = (\<lambda>x. if x < 0 then max 0 (n + x) else min x n);
          s' = nat (clamp s); e' = nat (clamp e)
      in take (e' - s') (drop s' b))"

definition read_run :: "buffer \<Rightarrow> nat \<Rightarrow> nat \<Rightarrow> buffer result" where
  "read_run b off n =
     (if off + n \<le> length b then Inr (take n (drop off b))
      else Inl (RangeError ''The value of offset is out of range''))"

definition readUInt8 :: "buffer \<Rightarrow> nat \<Rightarrow> int result" where
  "readUInt8 b off = rbind (read_run b off 1) (\<lambda>r. Inr (be_val r))"

definition readInt8 :: "buffer \<Rightarrow> nat \<Rightarrow> int result" where
  "readInt8 b off =
     rbind (read_run b off 1) (\<lambda>r. Inr (if be_val r < 128 then be_val r else be_val r - 256))"

definition readUInt16BE :: "buffer \<Rightarrow> nat \<Rightarrow> int result" where
  "readUInt16BE b off = rbind (read_run b off 2) (\<lambda>r. Inr (be_val r))"

definition readInt16BE :: "buffer \<Rightarrow> nat \<Rightarrow> int result" where
  "readInt16BE b off =
     rbind (read_run b off 2) (\<lambda>r. Inr (if be_val r < 32768 then be_val r else be_val r - 65536))"

definition readUInt32BE :: "buffer \<Rightarrow> nat \<Rightarrow> int result" where
  "readUInt32BE b off = rbind (read_run b off 4) (\<lambda>r. Inr (be_val r))"

definition readInt32BE :: "buffer \<Rightarrow> nat \<Rightarrow> int result" where
  "readInt32BE b off = rbind (read_run b off 4) (\<lambda>r. Inr (to_int32 (be_val r)))"

text \<open>Every fixed-width write of the driver fills a freshly allocated buffer of that width or
  the next field of one, so a write is given by the bytes it produces.\<close>

definition write_be :: "nat \<Rightarrow> int \<Rightarrow> int \<Rightarrow> int \<Rightarrow> buffer result" where
  "write_be n lo hi x =
     (if lo \<le> x \<and> x \<le> hi then Inr (be_bytes n x)
      else Inl (RangeError ''The value of value is out of range''))"

definition writeInt8 :: "int \<Rightarrow> buffer result" where
  "writeInt8 = write_be 1 (- 128) 127"

definition writeInt16BE :: "int \<Rightarrow> buffer result" where
  "writeInt16BE = write_be 2 (- 32768) 32767"

definition writeUInt16BE :: "int \<Rightarrow> buffer result" where
  "writeUInt16BE = write_be 2 0 65535"

definition writeInt32BE :: "int \<Rightarrow> buffer result" where
  "writeInt32BE = write_be 4 (- 2147483648) 2147483647"

definition writeUInt32BE :: "int \<Rightarrow> buffer result" where
  "writeUInt32BE = write_be 4 0 4294967295"

section \<open>Lemmas\<close>

lemma uint_to_byte [simp]: "uint (to_byte x) = x mod 256"
  by (simp add: to_byte_def uint_word_of_int)

lemma to_byte_mod [simp]: "to_byte (x mod 256) = to_byte x"
  by (rule word_uint_eq_iff[THEN iffD2]) simp

lemma to_byte_uint [simp]: "to_byte (uint w) = w"
  by (simp add: to_byte_def)

lemma to_byte_cong: "x mod 256 = y mod 256 \<Longrightarrow> to_byte x = to_byte y"
  by (metis to_byte_mod)

lemma uint_byte_lt [simp]: "uint (w :: byte) < 256"
  using uint_lt2p[of w] by simp

lemma length_be_bytes [simp]: "length (be_bytes n x) = n"
  by (induction n arbitrary: x) auto

lemma be_val_Nil [simp]: "be_val [] = 0"
  by (simp add: be_val_def)

lemma be_val_snoc [simp]: "be_val (b @ [w]) = be_val b * 256 + uint w"
  by (simp add: be_val_def)

lemma be_val_append: "be_val (a @ b) = be_val a * 256 ^ length b + be_val b"
proof (induction b rule: rev_induct)
  case Nil
  then show ?case by simp
next
  case (snoc w b)
  then show ?case
    by (simp add: algebra_simps flip: append_assoc)
qed

lemma be_val_Cons: "be_val (w # b) = uint w * 256 ^ length b + be_val b"
  using be_val_append[of "[w]" b] by (simp add: be_val_def)

lemma be_val_range: "0 \<le> be_val b \<and> be_val b < 256 ^ length b"
proof (induction b rule: rev_induct)
  case Nil
  then show ?case by simp
next
  case (snoc w b)
  then have "be_val b * 256 + uint w < 256 * 256 ^ length b"
    using uint_byte_lt[of w] by linarith
  then show ?case using snoc by simp
qed

lemma be_val_be_bytes: "be_val (be_bytes n x) = x mod 256 ^ n"
proof (induction n arbitrary: x)
  case 0
  then show ?case by simp
next
  case (Suc n)
  have "x mod (256 * 256 ^ n) = 256 * (x div 256 mod 256 ^ n) + x mod 256"
    by (rule zmod_zmult2_eq) simp
  then show ?case by (simp add: Suc)
qed

lemma be_bytes_be_val: "be_bytes (length b) (be_val b) = b"
proof (induction b rule: rev_induct)
  case Nil
  then show ?case by simp
next
  case (snoc w b)
  have "(be_val b * 256 + uint w) div 256 = be_val b"
    by simp
  moreover have "to_byte (be_val b * 256 + uint w) = w"
    using to_byte_cong[of "be_val b * 256 + uint w" "uint w"] by simp
  ultimately show ?case using snoc by simp
qed

lemma be_bytes_cong: "x mod 256 ^ n = y mod 256 ^ n \<Longrightarrow> be_bytes n x = be_bytes n y"
  by (metis be_bytes_be_val be_val_be_bytes length_be_bytes)

lemma be_bytes_mod: "be_bytes n (x mod 256 ^ n) = be_bytes n x"
  by (rule be_bytes_cong) simp

lemma be_bytes_add: "be_bytes (m + n) x = be_bytes m (x div 256 ^ n) @ be_bytes n x"
proof (induction n arbitrary: x)
  case 0
  then show ?case by simp
next
  case (Suc n)
  then show ?case by (simp add: zdiv_zmult2_eq)
qed

lemma be_bytes_Suc: "be_bytes (Suc n) x = to_byte (x div 256 ^ n) # be_bytes n x"
  using be_bytes_add[of 1 n x] by simp

lemma read_run_append [simp]: "length r = n \<Longrightarrow> read_run (r @ b) 0 n = Inr r"
  by (simp add: read_run_def)

lemma read_run_skip: "off = length a \<Longrightarrow> read_run (a @ b) (off + k) n = read_run b k n"
  by (simp add: read_run_def)

lemma readInt32BE_be_bytes: "is_int32 x \<Longrightarrow> readInt32BE (be_bytes 4 x @ b) 0 = Inr x"
  by (simp add: readInt32BE_def be_val_be_bytes del: be_bytes.simps)

lemma readUInt16BE_be_bytes: "0 \<le> x \<Longrightarrow> x < 65536 \<Longrightarrow> readUInt16BE (be_bytes 2 x @ b) 0 = Inr x"
  by (simp add: readUInt16BE_def be_val_be_bytes del: be_bytes.simps)

lemma buf_slice_nat: "buf_slice b (int s) (int e) = take (e - s) (drop s b)"
  by (auto simp: buf_slice_def Let_def min_def nat_diff_distrib)

section \<open>Self-delimiting codecs\<close>

text \<open>
  The contract of an encoding whose reader knows where a value ends: reading at the position of
  an encoded value returns that value and the position after it, whatever stands around it.
  The variable-length integers promise it; \<open>Duration\<close> relies on it to read three in a row.
\<close>

fun read_seq ::
    "(buffer \<Rightarrow> nat \<Rightarrow> ('a \<times> nat) result) \<Rightarrow> nat \<Rightarrow> buffer \<Rightarrow> nat \<Rightarrow> ('a list \<times> nat) result" where
  "read_seq dec 0 b off = Inr ([], off)"
| "read_seq dec (Suc n) b off =
     rbind (dec b off) (\<lambda>(x, off'). rbind (read_seq dec n b off') (\<lambda>(xs, off''). Inr (x # xs, off'')))"

locale prefix_codec =
  fixes ok :: "'a \<Rightarrow> bool"
    and enc :: "'a \<Rightarrow> buffer"
    and dec :: "buffer \<Rightarrow> nat \<Rightarrow> ('a \<times> nat) result"
  assumes dec_enc: "ok x \<Longrightarrow> dec (a @ enc x @ r) (length a) = Inr (x, length a + length (enc x))"
begin

lemma read_seq_enc:
  "\<forall>x \<in> set xs. ok x \<Longrightarrow>
   read_seq dec (length xs) (a @ concat (map enc xs) @ r) (length a)
     = Inr (xs, length a + length (concat (map enc xs)))"
proof (induction xs arbitrary: a)
  case Nil
  then show ?case by simp
next
  case (Cons x xs)
  have "dec (a @ enc x @ concat (map enc xs) @ r) (length a) = Inr (x, length a + length (enc x))"
    using Cons.prems by (intro dec_enc) simp
  moreover have "read_seq dec (length xs) ((a @ enc x) @ concat (map enc xs) @ r) (length (a @ enc x))
      = Inr (xs, length (a @ enc x) + length (concat (map enc xs)))"
    using Cons.prems by (intro Cons.IH) simp
  ultimately show ?case by simp
qed

lemma enc_inj: "ok x \<Longrightarrow> ok y \<Longrightarrow> enc x @ r = enc y @ s \<Longrightarrow> x = y"
  using dec_enc[of x "[]" r] dec_enc[of y "[]" s] by simp

end

end
