(* ===== verification/VInt_Coding.thy ===== *)
theory VInt_Coding
  imports JS_Buffer
begin

text \<open>
  \<open>VIntCoding\<close> of \<open>lib/utils.js\<close>: the variable-length integers of the native protocol. A
  \<open>BigInt\<close> is an \<^typ>\<open>int\<close> and its operators are those of \<^typ>\<open>int\<close>; the \<open>Number\<close>
  arithmetic uses the 32-bit operators of the prelude. A write goes into a caller's buffer and
  returns the number of bytes used; a read returns the value with the advanced offset.
\<close>

unbundle bit_operations_syntax

section \<open>Signed values: zig-zag\<close>

definition encodeZigZag64 :: "int \<Rightarrow> int" where
  "encodeZigZag64 n = take_bit 64 (push_bit 1 n XOR drop_bit 63 n)"

definition decodeZigZag64 :: "int \<Rightarrow> int" where
  "decodeZigZag64 n = signed_take_bit 63 (drop_bit 1 n XOR - (n AND 1))"

section \<open>Counting leading zeros\<close>

text \<open>One step of the binary search: if the top \<open>k\<close> bits are clear, count them and shift
  them out.\<close>

fun nlz_step :: "nat \<Rightarrow> int \<times> int \<Rightarrow> int \<times> int" where
  "nlz_step k (n, x) = (if js_shru x (32 - k) = 0 then (n + int k, js_shl x k) else (n, x))"

fun nlz_finish :: "int \<times> int \<Rightarrow> int" where
  "nlz_finish (n, x) = n - js_shru x 31"

definition numberOfLeadingZeros :: "int \<Rightarrow> int" where
  "numberOfLeadingZeros value =
     (if value = 0 then 64
      else let x = drop_bit 32 value;
               (n, x) = (if x = 0 then (1 + 32, value AND 0xffffffff) else (1, x))
           in nlz_finish (nlz_step 2 (nlz_step 4 (nlz_step 8 (nlz_step 16 (n, x))))))"

definition numberOfLeadingZerosInt32 :: "int \<Rightarrow> int" where
  "numberOfLeadingZerosInt32 i =
     (if i = 0 then 32
      else nlz_finish (nlz_step 2 (nlz_step 4 (nlz_step 8 (nlz_step 16 (1, i))))))"

section \<open>Writing\<close>

definition computeUnsignedVIntSize :: "int \<Rightarrow> int" where
  "computeUnsignedVIntSize value =
     (let magnitude = numberOfLeadingZeros (value OR 1) in js_shr (639 - magnitude * 9) 6)"

definition encodeExtraBytesToRead :: "nat \<Rightarrow> int" where
  "encodeExtraBytesToRead extraBytesToRead = js_not (js_shr 0xff extraBytesToRead)"

text \<open>The loop \<open>for (i = extraBytes; i >= 0; i--)\<close>.\<close>

fun encodeVInt_loop :: "nat \<Rightarrow> int \<Rightarrow> buffer \<Rightarrow> buffer" where
  "encodeVInt_loop 0 v b = buf_set b 0 (v AND 0xff)"
| "encodeVInt_loop (Suc i) v b = encodeVInt_loop i (drop_bit 8 v) (buf_set b (Suc i) (v AND 0xff))"

definition encodeVInt :: "int \<Rightarrow> nat \<Rightarrow> buffer \<Rightarrow> buffer" where
  "encodeVInt value sz b =
     (let extraBytes = sz - 1;
          b' = encodeVInt_loop extraBytes value b
      in case buf_get b' 0 of
           None \<Rightarrow> b'
         | Some b0 \<Rightarrow> buf_set b' 0 (js_or b0 (encodeExtraBytesToRead extraBytes)))"

definition writeUnsignedVInt :: "int \<Rightarrow> buffer \<Rightarrow> nat \<times> buffer" where
  "writeUnsignedVInt value b =
     (let sz = nat (computeUnsignedVIntSize value)
      in if sz = 1 then (1, buf_set b 0 value) else (sz, encodeVInt value sz b))"

definition writeVInt :: "int \<Rightarrow> buffer \<Rightarrow> nat \<times> buffer" where
  "writeVInt value b = writeUnsignedVInt (encodeZigZag64 value) b"

section \<open>Reading\<close>

definition fromSignedByteToInt :: "int \<Rightarrow> int" where
  "fromSignedByteToInt value = (if value > 0x7f then value - 0x0100 else value)"

definition numberOfExtraBytesToRead :: "int \<Rightarrow> int" where
  "numberOfExtraBytesToRead firstByte = numberOfLeadingZerosInt32 (js_not firstByte) - 24"

definition firstByteValueMask :: "nat \<Rightarrow> int" where
  "firstByteValueMask extraBytesToRead = js_shr 0xff extraBytesToRead"

text \<open>The loop that shifts in \<open>size\<close> more bytes; \<open>BigInt(undefined)\<close> throws.\<close>

fun readUnsignedVInt_loop :: "nat \<Rightarrow> buffer \<Rightarrow> nat \<Rightarrow> int \<Rightarrow> (int \<times> nat) result" where
  "readUnsignedVInt_loop 0 input off acc = Inr (acc, off)"
| "readUnsignedVInt_loop (Suc k) input off acc =
     (case buf_get input off of
        None \<Rightarrow> Inl (TypeError ''Cannot convert undefined to a BigInt'')
      | Some b \<Rightarrow> readUnsignedVInt_loop k input (Suc off) (push_bit 8 acc OR b))"

definition readUnsignedVInt :: "buffer \<Rightarrow> nat \<Rightarrow> (int \<times> nat) result" where
  "readUnsignedVInt input off =
     (case buf_get input off of
        None \<Rightarrow> Inl (TypeError ''Cannot convert undefined to a BigInt'')
      | Some firstByte \<Rightarrow>
          if js_and firstByte 0x80 = 0 then Inr (firstByte, Suc off)
          else let sByteInt = fromSignedByteToInt firstByte;
                   sz = nat (numberOfExtraBytesToRead sByteInt)
               in readUnsignedVInt_loop sz input (Suc off)
                    (js_and sByteInt (firstByteValueMask sz)))"

definition readVInt :: "buffer \<Rightarrow> nat \<Rightarrow> (int \<times> nat) result" where
  "readVInt b off =
     rbind (readUnsignedVInt b off) (\<lambda>(v, off'). Inr (decodeZigZag64 v, off'))"

section \<open>Unsigned vints of vector elements\<close>

text \<open>\<open>toString(2).length\<close> of a non-negative number.\<close>

function binary_digits :: "int \<Rightarrow> nat" where
  "binary_digits n = (if n < 2 then 1 else Suc (binary_digits (n div 2)))"
  by pat_completeness auto
termination
  by (relation "measure nat") auto

declare binary_digits.simps [simp del]

fun uvintUnpack_loop :: "nat \<Rightarrow> buffer \<Rightarrow> nat \<Rightarrow> int \<Rightarrow> int" where
  "uvintUnpack_loop 0 bytes idx rv = rv"
| "uvintUnpack_loop (Suc k) bytes idx rv =
     uvintUnpack_loop k bytes (Suc idx)
       (js_or (js_shl rv 8)
         (case buf_get bytes idx of None \<Rightarrow> 0 | Some newByte \<Rightarrow> js_and newByte 0xff))"

text \<open>On an empty input \<open>bytes[0]\<close> is \<open>undefined\<close>, every operation on it counts as zero
  and the pair returned is \<open>[undefined, 1]\<close>; the size is then not a number.\<close>

definition uvintUnpack :: "buffer \<Rightarrow> int option \<times> nat" where
  "uvintUnpack bytes =
     (case buf_get bytes 0 of
        None \<Rightarrow> (None, 1)
      | Some firstByte \<Rightarrow>
          if js_and firstByte 128 = 0 then (Some firstByte, 1)
          else let numExtraBytes = 8 - binary_digits (js_and (js_not firstByte) 0xff);
                   rv = js_and firstByte (js_shr 0xff numExtraBytes)
               in (Some (uvintUnpack_loop numExtraBytes bytes 1 rv), numExtraBytes + 1))"

text \<open>The loop of \<open>uvintPack\<close>: \<open>rv\<close> is the array built so far, lowest byte first. At every
  test of the guard \<open>reservedBits\<close> is \<open>min (numExtraBytes + 1) 8\<close>.\<close>

function uvintPack_loop :: "int \<Rightarrow> nat \<Rightarrow> int \<Rightarrow> int list \<Rightarrow> int \<times> nat \<times> int list" where
  "uvintPack_loop v numExtraBytes numBits rv =
     (let reservedBits = min (int numExtraBytes + 1) 8
      in if numBits > 8 - reservedBits
         then uvintPack_loop (js_shr v 8) (numExtraBytes + 1) (numBits - 8) (rv @ [js_and v 0xff])
         else (v, numExtraBytes, rv))"
  by pat_completeness auto
termination
  by (relation "measure (\<lambda>(v, e, numBits, rv). nat numBits)") auto

declare uvintPack_loop.simps [simp del]

definition uvintPack :: "int \<Rightarrow> buffer result" where
  "uvintPack val =
     (if val < 128 then Inr (map to_byte (rev [val]))
      else let numBits = int (binary_digits val);
               (v, numExtraBytes, rv) = uvintPack_loop val 0 numBits []
           in if numExtraBytes > 8
              then Inl (GenericError ''Value is too big and cannot be encoded as vint'')
              else let n = 8 - numExtraBytes;
                       v' = js_or v (js_shl (js_shr 0xff n) n)
                   in Inr (map to_byte (rev (rv @ [\<bar>v'\<bar>]))))"

definition nlz_inv :: "int \<Rightarrow> nat \<Rightarrow> int \<Rightarrow> int \<times> int \<Rightarrow> bool" where
  "nlz_inv c k i p \<longleftrightarrow> (\<exists>m. fst p = c + int m + 1 \<and> to_uint32 (snd p) = i * 2 ^ m \<and> 2 ^ (32 - k) \<le> to_uint32 (snd p))"

lemma nlz_step_inv:
  assumes "nlz_inv c (2 * k) i p" "0 < k" "k \<le> 16"
  shows "nlz_inv c k i (nlz_step k p)"
proof (cases p)
  case (Pair n x)
  obtain m where m: "n = c + int m + 1" "to_uint32 x = i * 2 ^ m" "2 ^ (32 - 2 * k) \<le> to_uint32 x"
    using assms(1) Pair by (auto simp: nlz_inv_def)
  show ?thesis
  proof (cases "to_uint32 x < 2 ^ (32 - k)")
    case True
    have pw: "(2::int) ^ (32 - k) * 2 ^ k = 4294967296" "(2::int) ^ (32 - 2 * k) * 2 ^ k = 2 ^ (32 - k)"
      using assms(2,3) by (simp_all flip: power_add)
    have "to_uint32 x * 2 ^ k < 4294967296"
      using mult_strict_right_mono[OF True, of "2 ^ k"] pw by simp
    moreover have "0 \<le> to_uint32 x" by (simp add: to_uint32_def)
    ultimately have "to_uint32 (js_shl x k) = to_uint32 x * 2 ^ k"
      using assms(3) by (simp add: js_shl_eq to_uint32_def mod_mult_left_eq[symmetric, of x])
    moreover have "2 ^ (32 - k) \<le> to_uint32 x * 2 ^ k"
      using mult_right_mono[OF m(3), of "2 ^ k"] pw by simp
    moreover have "js_shru x (32 - k) = 0"
      using True assms(2,3) by (simp add: js_shru_eq to_uint32_def)
    ultimately show ?thesis
      using m Pair by (auto simp: nlz_inv_def power_add intro!: exI[of _ "m + k"])
  next
    case False
    then have "js_shru x (32 - k) \<noteq> 0"
      using assms(2,3) pos_imp_zdiv_pos_iff[of "2 ^ (32 - k)" "to_uint32 x"]
      by (simp add: js_shru_eq to_uint32_def)
    then show ?thesis using m Pair False by (auto simp: nlz_inv_def)
  qed
qed

lemma nlz_finish_inv:
  assumes "nlz_inv c 2 i p" 
  shows "\<exists>m. nlz_finish p = c + int m \<and> 2147483648 \<le> i * 2 ^ m \<and> i * 2 ^ m < 4294967296"
proof (cases p)
  case (Pair n x)
  obtain m where m: "n = c + int m + 1" "to_uint32 x = i * 2 ^ m" "1073741824 \<le> to_uint32 x"
    using assms(1) Pair by (auto simp: nlz_inv_def)
  have r: "to_uint32 x < 4294967296" by (simp add: to_uint32_def)
  show ?thesis
  proof (cases "to_uint32 x < 2147483648")
    case True
    then have "js_shru x 31 = 0" using m by (simp add: js_shru_eq to_uint32_def)
    then show ?thesis using m Pair True by (auto intro!: exI[of _ "Suc m"])
  next
    case False
    then have "js_shru x 31 = 1" using r by (simp add: js_shru_eq to_uint32_def)
    then show ?thesis using m Pair r False by (auto intro!: exI[of _ "m"])
  qed
qed

lemma nlz_chain:
  assumes "nlz_inv c 32 i p"
  shows "\<exists>m. nlz_finish (nlz_step 2 (nlz_step 4 (nlz_step 8 (nlz_step 16 p)))) = c + int m
     \<and> 2147483648 \<le> i * 2 ^ m \<and> i * 2 ^ m < 4294967296"
proof -
  have "nlz_inv c 16 i (nlz_step 16 p)" using nlz_step_inv[of c 16] assms by simp
  then have "nlz_inv c 8 i (nlz_step 8 (nlz_step 16 p))" using nlz_step_inv[of c 8] by simp
  then have "nlz_inv c 4 i (nlz_step 4 (nlz_step 8 (nlz_step 16 p)))" using nlz_step_inv[of c 4] by simp
  then have "nlz_inv c 2 i (nlz_step 2 (nlz_step 4 (nlz_step 8 (nlz_step 16 p))))" using nlz_step_inv[of c 2] by simp
  then show ?thesis by (rule nlz_finish_inv)
qed

lemma numberOfLeadingZerosInt32_spec:
  assumes "0 < i" "i < 4294967296"
  shows "\<exists>m. numberOfLeadingZerosInt32 i = int m \<and> 2 ^ 31 \<le> i * 2 ^ m \<and> i * 2 ^ m < 2 ^ 32"
  using assms nlz_chain[of 0 i "(1, i)"] by (simp add: numberOfLeadingZerosInt32_def nlz_inv_def to_uint32_def)

lemma numberOfLeadingZeros_spec:
  assumes "0 < v" "v < 2 ^ 64"
  shows "\<exists>m. numberOfLeadingZeros v = int m \<and> 2 ^ 63 \<le> v * 2 ^ m \<and> v * 2 ^ m < 2 ^ 64"
proof (cases "v < 2 ^ 32")
  case True
  then have low: "drop_bit 32 v = 0" "v AND 0xffffffff = v"
    using assms and_mask_mod[of v 32] by (simp_all add: drop_bit_eq_div)
  have "nlz_inv 32 32 v (33, v)"
    using assms True by (simp add: nlz_inv_def to_uint32_def)
  then obtain m where "numberOfLeadingZeros v = 32 + int m"
      "2147483648 \<le> v * 2 ^ m" "v * 2 ^ m < 4294967296"
    using nlz_chain[of 32 v "(33, v)"] assms(1) low by (auto simp: numberOfLeadingZeros_def simp del: nlz_step.simps)
  then show ?thesis by (intro exI[of _ "32 + m"]) (simp add: power_add)
next
  case False
  let ?x = "v div 4294967296"
  have x: "0 < ?x" "?x < 4294967296"
    using assms False by (auto simp: pos_imp_zdiv_pos_iff) 
  then have "nlz_inv 0 32 ?x (1, ?x)"
    by (simp add: nlz_inv_def to_uint32_def)
  then obtain m where m: "numberOfLeadingZeros v = int m"
      "2147483648 \<le> ?x * 2 ^ m" "?x * 2 ^ m < 4294967296"
    using nlz_chain[of 0 ?x "(1, ?x)"] assms(1) x
    by (auto simp: numberOfLeadingZeros_def drop_bit_eq_div simp del: nlz_step.simps)
  have "m < 32"
  proof (rule ccontr)
    assume "\<not> m < 32"
    then have "(2::int) ^ 32 \<le> 2 ^ m" by (intro power_increasing) auto
    then show False using m(3) x(1) mult_mono[of 1 ?x "2 ^ 32" "2 ^ m"] by simp
  qed
  then have k: "(4294967296::int) = 2 ^ (32 - m) * 2 ^ m"
    by (simp flip: power_add)
  have "?x + 1 \<le> 2 ^ (32 - m)"
    using m(3) unfolding k by simp
  then have "(?x + 1) * 2 ^ m \<le> 4294967296"
    unfolding k by (rule mult_right_mono) simp
  moreover have "v < (?x + 1) * 4294967296" "?x * 4294967296 \<le> v"
    using div_mult_mod_eq[of v 4294967296] pos_mod_bound[of 4294967296 v] pos_mod_sign[of 4294967296 v]
    unfolding distrib_right by linarith+
  then have "v * 2 ^ m < (?x + 1) * 4294967296 * 2 ^ m" "?x * 4294967296 * 2 ^ m \<le> v * 2 ^ m"
    by simp_all
  ultimately have "v * 2 ^ m < 4294967296 * 4294967296" "2147483648 * 4294967296 \<le> v * 2 ^ m"
    using m(2) unfolding mult.assoc mult.commute[of 4294967296 "2 ^ m"]
    unfolding mult.assoc[symmetric] by linarith+
  then have "v * 2 ^ m < 2 ^ 64" "2 ^ 63 \<le> v * 2 ^ m" by simp_all
  then show ?thesis using m(1) by blast
qed

lemma computeUnsignedVIntSize_spec:
  assumes "0 \<le> v" "v < 2 ^ 64"
  obtains s where "computeUnsignedVIntSize v = int s" "1 \<le> s" "s \<le> 9"
    "s \<le> 8 \<Longrightarrow> v < 2 ^ (7 * s)" "2 \<le> s \<Longrightarrow> 2 ^ (7 * (s - 1)) \<le> v"
proof -
  let ?w = "v OR 1"
  have w: "?w = v + of_bool (even v)" by (simp add: or_one_eq)
  then have "0 < ?w" using assms(1) by (cases "v = 0") auto
  have "?w < 2 ^ 64" using w assms(2) by (auto elim!: evenE)
  then obtain m where m: "numberOfLeadingZeros ?w = int m" "2 ^ 63 \<le> ?w * 2 ^ m" "?w * 2 ^ m < 2 ^ 64"
    using numberOfLeadingZeros_spec[OF \<open>0 < ?w\<close>] by blast
  have m63: "m \<le> 63"
  proof (rule ccontr)
    assume "\<not> m \<le> 63"
    then have "(2::int) ^ 64 \<le> 2 ^ m" by (intro power_increasing) auto
    moreover have "1 * 2 ^ m \<le> ?w * 2 ^ m" using \<open>0 < ?w\<close> by (intro mult_right_mono) (linarith, simp)
    ultimately show False using m(3) by linarith
  qed
  define s where "s = (639 - 9 * m) div 64"
  have "int (639 - 9 * m) = 639 - int m * 9" using m63 by simp
  then have "computeUnsignedVIntSize v = int s"
    using m63 m(1) by (simp add: computeUnsignedVIntSize_def s_def js_shr_eq is_int32_def zdiv_int)
  moreover have "1 \<le> s" "s \<le> 9" using m63 by (simp_all add: s_def)
  moreover have "v < 2 ^ (7 * s)" if "s \<le> 8"
  proof -
    have "64 \<le> 7 * s + m" using that m63 unfolding s_def by linarith
    then have "(2::int) ^ 64 \<le> 2 ^ (7 * s) * 2 ^ m" 
      using power_increasing[of 64 "7 * s + m" "2::int"] by (simp add: power_add)
    then have "?w * 2 ^ m < 2 ^ (7 * s) * 2 ^ m" using m(3) by linarith
    then have "?w < 2 ^ (7 * s)" by simp
    then show ?thesis using w by (cases "even v") simp_all
  qed
  moreover have "2 ^ (7 * (s - 1)) \<le> v" if "2 \<le> s"
  proof -
    have "7 * (s - 1) + m \<le> 63" using that m63 unfolding s_def by linarith
    then have "2 ^ (7 * (s - 1)) * 2 ^ m \<le> (2::int) ^ 63"
      using power_increasing[of "7 * (s - 1) + m" 63 "2::int"] by (simp add: power_add)
    then have "2 ^ (7 * (s - 1)) * 2 ^ m \<le> ?w * 2 ^ m" using m(2) by linarith
    then have "2 ^ (7 * (s - 1)) \<le> ?w" by simp
    moreover have "even ((2::int) ^ (7 * (s - 1)))" using that by simp
    then have "2 ^ (7 * (s - 1)) \<noteq> v + 1" if "even v"
      using that by (metis even_plus_one_iff)
    ultimately show ?thesis using w by (cases "even v") force+
  qed
  ultimately show ?thesis using that by blast
qed

definition vint_bytes :: "int \<Rightarrow> nat \<Rightarrow> buffer" where
  "vint_bytes v e = be_bytes (Suc e) (v + (256 - 2 ^ (8 - e)) * 256 ^ e)"

lemma drop_bit_8: "drop_bit 8 v = v div 256" for v :: int
  by (simp add: drop_bit_eq_div)

lemma encodeVInt_loop_eq:
  "e < length b \<Longrightarrow> encodeVInt_loop e v b = be_bytes (Suc e) v @ drop (Suc e) b"
proof (induction e arbitrary: v b)
  case 0
  then show ?case by (cases b) (auto simp: buf_set_def and_ff)
next
  case (Suc e)
  then have "drop (Suc e) (buf_set b (Suc e) (v AND 255)) = to_byte v # drop (Suc (Suc e)) b"
    by (simp add: buf_set_def and_ff drop_update_swap Cons_nth_drop_Suc[symmetric])
  then show ?case using Suc by (simp add: buf_set_def drop_bit_8 del: be_bytes.simps(2)) 
     (simp add: and_ff)
qed

lemma shifted_ff: "e \<le> 8 \<Longrightarrow> (255::int) div 2 ^ e = 2 ^ (8 - e) - 1"
proof -
  assume "e \<le> 8"
  then have "e = 0 \<or> e = 1 \<or> e = 2 \<or> e = 3 \<or> e = 4 \<or> e = 5 \<or> e = 6 \<or> e = 7 \<or> e = 8" by arith
  then show ?thesis by (elim disjE) simp_all
qed

lemma js_shr_ff: "e \<le> 8 \<Longrightarrow> js_shr 255 e = 2 ^ (8 - e) - 1"
  by (simp add: js_shr_eq shifted_ff is_int32_def)

lemma pow_le_256: "e \<le> 8 \<Longrightarrow> (2::int) ^ (8 - e) \<le> 256"
  using power_increasing[of "8 - e" 8 "2::int"] by simp

lemma encodeExtraBytesToRead_eq:
  assumes "e \<le> 8" shows "encodeExtraBytesToRead e = - (2 ^ (8 - e))"
proof -
  have "1 \<le> (2::int) ^ (8 - e)" by simp
  then have "is_int32 (2 ^ (8 - e) - 1)"
    using pow_le_256[OF assms] unfolding is_int32_def by linarith
  then show ?thesis
    using assms by (simp add: encodeExtraBytesToRead_def js_not_arith js_shr_ff)
qed

lemma encodeVInt_eq:
  assumes "e < length b" "e \<le> 8" "0 \<le> v" "v < 2 ^ (8 - e) * 256 ^ e"
  shows "encodeVInt v (Suc e) b = vint_bytes v e @ drop (Suc e) b"
proof -
  let ?t = "v div 256 ^ e"
  have t: "0 \<le> ?t" "?t < 2 ^ (8 - e)"
    using assms(3,4) by (simp_all add: pos_imp_zdiv_nonneg_iff zdiv_less)
  have "?t < 256" using t pow_le_256[OF assms(2)] by linarith
  have "js_or ?t (encodeExtraBytesToRead e) = to_int32 ((-1) * 2 ^ (8 - e) OR ?t)"
    using assms(2) by (simp add: js_or_eq encodeExtraBytesToRead_eq or.commute)
  also have "\<dots> = to_int32 (?t - 2 ^ (8 - e))" using or_shifted_add[OF t, of "-1"] by simp
  finally have "js_or ?t (encodeExtraBytesToRead e) = ?t - 2 ^ (8 - e)"
    using t pow_le_256[OF assms(2)] by (simp add: is_int32_def)
  then have "to_byte (js_or ?t (encodeExtraBytesToRead e)) = to_byte (?t + (256 - 2 ^ (8 - e)))"
    by (intro to_byte_cong) (metis add_diff_eq diff_add_eq mod_add_self2)
  moreover have "(v + (256 - 2 ^ (8 - e)) * 256 ^ e) div 256 ^ e = ?t + (256 - 2 ^ (8 - e))" by simp
  moreover have "be_bytes e (v + (256 - 2 ^ (8 - e)) * 256 ^ e) = be_bytes e v"
    by (rule be_bytes_cong) simp
  ultimately have vb: "vint_bytes v e = to_byte (js_or ?t (encodeExtraBytesToRead e)) # be_bytes e v"
    unfolding vint_bytes_def be_bytes_Suc by (simp add: add.commute)
  have "buf_get (be_bytes (Suc e) v @ drop (Suc e) b) 0 = Some ?t"
    using t \<open>?t < 256\<close> by (simp add: buf_get_def be_bytes_Suc del: be_bytes.simps)
  then show ?thesis
    using assms(1) by (simp add: encodeVInt_def encodeVInt_loop_eq buf_set_def be_bytes_Suc vb del: be_bytes.simps)
qed

lemma writeUnsignedVInt_eq:
  assumes "0 \<le> v" "v < 2 ^ 64" "9 \<le> length b"
  obtains e where "writeUnsignedVInt v b = (Suc e, vint_bytes v e @ drop (Suc e) b)"
    "e \<le> 8" "e \<le> 7 \<Longrightarrow> v < 2 ^ (7 - e) * 256 ^ e" "0 < e \<Longrightarrow> 2 ^ (7 * e) \<le> v"
proof -
  obtain s where s: "computeUnsignedVIntSize v = int s" "1 \<le> s" "s \<le> 9"
    "s \<le> 8 \<Longrightarrow> v < 2 ^ (7 * s)" "2 \<le> s \<Longrightarrow> 2 ^ (7 * (s - 1)) \<le> v"
    using computeUnsignedVIntSize_spec[OF assms(1,2)] by blast
  define e where "e = s - 1"
  have se: "s = Suc e" using s(2) by (simp add: e_def)
  have p: "(2::int) ^ (7 * Suc e) = 2 ^ (7 - e) * 256 ^ e" if "e \<le> 7"
  proof -
    have "7 * Suc e = (7 - e) + 8 * e" using that by simp
    then show ?thesis by (simp only: power_add power_mult) simp
  qed
  have b1: "v < 2 ^ (7 - e) * 256 ^ e" if "e \<le> 7"
    using s(4) that by (simp add: se p del: mult_Suc_right)
  have b2: "v < 2 ^ (8 - e) * 256 ^ e"
  proof (cases "e \<le> 7")
    case True
    then have "(2::int) ^ (7 - e) * 256 ^ e \<le> 2 ^ (8 - e) * 256 ^ e"
      by (intro mult_right_mono power_increasing) auto
    then show ?thesis using b1[OF True] by linarith
  next
    case False
    then have "e = 8" using s(3) se by simp
    then show ?thesis using assms(2) by simp
  qed
  have "writeUnsignedVInt v b = (Suc e, vint_bytes v e @ drop (Suc e) b)"
  proof (cases "e = 0")
    case True
    then have "buf_set b 0 v = vint_bytes v 0 @ drop 1 b"
      using assms(3) by (cases b) (auto simp: buf_set_def vint_bytes_def)
    then show ?thesis using True s(1) se by (simp add: writeUnsignedVInt_def)
  next
    case False
    then show ?thesis
      unfolding writeUnsignedVInt_def s(1) nat_int se
      using se assms s(3) b2 by (simp add: encodeVInt_eq)
  qed
  then show ?thesis using that s(3,5) b1 se by auto
qed

lemma readUnsignedVInt_loop_eq:
  "readUnsignedVInt_loop k (a @ be_bytes k y @ r) (length a) acc
     = Inr (acc * 256 ^ k + y mod 256 ^ k, length a + k)"
proof (induction k arbitrary: a acc)
  case 0
  then show ?case by simp
next
  case (Suc k)
  let ?t = "y div 256 ^ k mod 256"
  have "readUnsignedVInt_loop (Suc k) (a @ be_bytes (Suc k) y @ r) (length a) acc
      = readUnsignedVInt_loop k ((a @ [to_byte (y div 256 ^ k)]) @ be_bytes k y @ r)
          (length (a @ [to_byte (y div 256 ^ k)])) (push_bit 8 acc OR ?t)"
    by (simp add: be_bytes_Suc buf_get_def del: be_bytes.simps)
  also have "push_bit 8 acc OR ?t = acc * 256 + ?t"
    using or_shifted_add[of ?t 8 acc] by (simp add: push_bit_eq_mult)
  also note Suc.IH
  finally show ?case
    using zmod_zmult2_eq[of "256" y "256 ^ k"]
    by (simp add: algebra_simps del: be_bytes.simps readUnsignedVInt_loop.simps)
qed

lemma mod_eq_of_add: "0 \<le> t \<Longrightarrow> t < m \<Longrightarrow> (t + m * k) mod m = t" for t :: int
  by simp

lemma vint_bytes_Cons:
  "vint_bytes v e = to_byte (v div 256 ^ e + (256 - 2 ^ (8 - e))) # be_bytes e v"
proof -
  have "be_bytes e (v + (256 - 2 ^ (8 - e)) * 256 ^ e) = be_bytes e v"
    by (rule be_bytes_cong) simp
  then show ?thesis unfolding vint_bytes_def be_bytes_Suc by (simp add: add.commute)
qed

lemma js_and_top_bit: "0 \<le> f \<Longrightarrow> f < 256 \<Longrightarrow> js_and f 128 = 0 \<longleftrightarrow> f < 128"
proof -
  assume f: "0 \<le> f" "f < 256"
  have "f AND 128 = 0 \<longleftrightarrow> even (f div 128)"
    using and_exp_eq_0_iff_not_bit[of f 7] by (simp add: bit_iff_odd)
  moreover have "f div 128 = (if f < 128 then 0 else 1)" using f by auto
  ultimately show ?thesis using f by (simp add: js_and_def is_int32_def)
qed

lemma pow2_unique:
  fixes i :: int
  assumes "2 ^ a \<le> i" "i < 2 ^ Suc a" "2 ^ 31 \<le> i * 2 ^ m" "i * 2 ^ m < 2 ^ 32"
  shows "a + m = 31"
proof -
  have "2 ^ a * 2 ^ m \<le> i * 2 ^ m" "i * 2 ^ m < 2 ^ Suc a * 2 ^ m"
    using assms(1,2) by simp_all
  then have "(2::int) ^ (a + m) < 2 ^ 32" "(2::int) ^ 31 < 2 ^ (Suc a + m)"
    using assms(3,4) unfolding power_add by linarith+
  then have "a + m < 32" "31 < Suc a + m"
    using power_strict_increasing_iff[of "2::int"] by (simp_all only: power_strict_increasing_iff)
  then show ?thesis by simp
qed

lemma numberOfExtraBytes_eq:
  assumes "0 \<le> t" "e \<le> 7 \<Longrightarrow> t < 2 ^ (7 - e)" "e = 8 \<Longrightarrow> t = 0" "e \<le> 8"
  shows "numberOfExtraBytesToRead (t - 2 ^ (8 - e)) = int e"
proof (cases "e = 8")
  case True
  then show ?thesis using assms by (simp add: numberOfExtraBytesToRead_def numberOfLeadingZerosInt32_def js_not_arith is_int32_def)
next
  case False
  then have e: "e \<le> 7" using assms by simp
  have "8 - e = Suc (7 - e)" using e by simp
  let ?i = "2 ^ (8 - e) - t - 1"
  have r: "2 ^ (7 - e) \<le> ?i" "?i < 2 ^ Suc (7 - e)" "?i < 256"
    using assms(1,2) e pow_le_256[of e] \<open>8 - e = _\<close> by auto
  then have "js_not (t - 2 ^ (8 - e)) = ?i"
    using assms(1) by (simp add: js_not_arith is_int32_def)
  moreover have "0 < ?i" using r(1) zero_less_power[of "2::int" "7 - e"] by linarith
  moreover obtain m where "numberOfLeadingZerosInt32 ?i = int m" "2 ^ 31 \<le> ?i * 2 ^ m" "?i * 2 ^ m < 2 ^ 32"
    using numberOfLeadingZerosInt32_spec[of ?i] \<open>0 < ?i\<close> r(3) by auto
  moreover have "7 - e + m = 31" using pow2_unique[OF r(1,2)] calculation by blast
  ultimately show ?thesis using e by (simp add: numberOfExtraBytesToRead_def)
qed

lemma readUnsignedVInt_vint_bytes:
  assumes "0 \<le> v" "v < 2 ^ 64" "e \<le> 8" "e \<le> 7 \<Longrightarrow> v < 2 ^ (7 - e) * 256 ^ e"
  shows "readUnsignedVInt (a @ vint_bytes v e @ r) (length a) = Inr (v, length a + Suc e)"
proof -
  let ?t = "v div 256 ^ e"
  let ?f = "?t + (256 - 2 ^ (8 - e))"
  have t0: "0 \<le> ?t" using assms(1) by (simp add: pos_imp_zdiv_nonneg_iff)
  have t7: "?t < 2 ^ (7 - e)" if "e \<le> 7" using assms(4)[OF that] by (simp add: zdiv_less)
  have t8: "?t = 0" if "e = 8" using assms(1,2) that by simp
  have t: "?t < 2 ^ (8 - e)" 
  proof (cases "e = 8")
    case True
    then show ?thesis using t8 by simp
  next
    case False
    moreover have "(2::int) ^ (7 - e) \<le> 2 ^ (8 - e)" by (intro power_increasing) auto
    ultimately show ?thesis using t7 assms(3) by linarith
  qed
  have f: "0 \<le> ?f" "?f < 256" using t0 t pow_le_256[OF assms(3)] by linarith+
  have get: "buf_get (a @ vint_bytes v e @ r) (length a) = Some ?f"
    using f by (simp add: buf_get_def vint_bytes_Cons)
  show ?thesis
  proof (cases "e = 0")
    case True
    then have "?f = v" "v < 128" using t7 by simp_all
    then show ?thesis using get True assms(1) by (simp add: readUnsignedVInt_def js_and_top_bit)
  next
    case False
    then have "(2::int) ^ (8 - e) \<le> 2 ^ 7" by (intro power_increasing) auto
    then have "128 \<le> ?f" using t0 by simp
    then have nz: "js_and ?f 128 \<noteq> 0" "fromSignedByteToInt ?f = ?t - 2 ^ (8 - e)"
      using f by (simp_all add: js_and_top_bit fromSignedByteToInt_def)
    moreover have "nat (numberOfExtraBytesToRead (?t - 2 ^ (8 - e))) = e"
      using numberOfExtraBytes_eq[of ?t e] t0 t7 t8 assms(3) by simp
    moreover have "js_and (?t - 2 ^ (8 - e)) (firstByteValueMask e) = ?t"
      using js_and_mask[of "8 - e"] t0 t assms(3) mod_eq_of_add[OF t0 t, of "-1"]
      by (simp add: firstByteValueMask_def js_shr_ff)
    moreover have "readUnsignedVInt_loop e (a @ vint_bytes v e @ r) (Suc (length a)) ?t = Inr (v, length a + Suc e)"
      using readUnsignedVInt_loop_eq[of e "a @ [to_byte ?f]" v r ?t] by (simp add: vint_bytes_Cons div_mult_mod_eq del: be_bytes.simps)
    ultimately show ?thesis using get by (simp add: readUnsignedVInt_def Let_def)
  qed
qed

lemma encodeZigZag64_eq:
  assumes "is_int64 n"
  shows "encodeZigZag64 n = (if 0 \<le> n then 2 * n else - 2 * n - 1)"
proof (cases "0 \<le> n")
  case True
  then show ?thesis using assms
    by (simp add: encodeZigZag64_def push_bit_eq_mult drop_bit_eq_div is_int64_def take_bit_int_eq_self)
next
  case False
  then have "drop_bit 63 n = - 1"
    using assms by (simp add: drop_bit_eq_div is_int64_def)
  then show ?thesis using assms False
    by (simp add: encodeZigZag64_def push_bit_eq_mult is_int64_def take_bit_int_eq_self not_int_def)
qed

lemma decodeZigZag64_eq:
  assumes "0 \<le> m" "m < 2 ^ 64"
  shows "decodeZigZag64 m = (if even m then m div 2 else - (m div 2) - 1)"
proof (cases "even m")
  case True
  then show ?thesis using assms
    by (simp add: decodeZigZag64_def drop_bit_eq_div and_one_eq signed_take_bit_int_eq_self)
next
  case False
  then show ?thesis using assms
    by (simp add: decodeZigZag64_def drop_bit_eq_div and_one_eq odd_iff_mod_2_eq_one
      signed_take_bit_int_eq_self not_int_def)
qed

lemma zigzag_roundtrip: "is_int64 n \<Longrightarrow> decodeZigZag64 (encodeZigZag64 n) = n"
  by (auto simp: encodeZigZag64_eq decodeZigZag64_eq is_int64_def)

lemma encodeZigZag64_range: "0 \<le> encodeZigZag64 n" "encodeZigZag64 n < 2 ^ 64"
  by (simp_all add: encodeZigZag64_def take_bit_eq_mod)

lemma writeVInt_readVInt:
  assumes "is_int64 n" "9 \<le> length b"
  obtains s b' where "writeVInt n b = (s, b')" "1 \<le> s" "s \<le> 9" "length b' = length b"
    "\<And>a r. readVInt (a @ take s b' @ r) (length a) = Inr (n, length a + s)"
proof -
  let ?v = "encodeZigZag64 n"
  obtain e where e: "writeUnsignedVInt ?v b = (Suc e, vint_bytes ?v e @ drop (Suc e) b)"
    "e \<le> 8" "e \<le> 7 \<Longrightarrow> ?v < 2 ^ (7 - e) * 256 ^ e"
    using writeUnsignedVInt_eq[OF encodeZigZag64_range[of n] assms(2)] by blast
  have "take (Suc e) (vint_bytes ?v e @ drop (Suc e) b) = vint_bytes ?v e"
    by (simp add: vint_bytes_def del: be_bytes.simps)
  then have "readVInt (a @ take (Suc e) (vint_bytes ?v e @ drop (Suc e) b) @ r) (length a)
      = Inr (n, length a + Suc e)" for a r
    using readUnsignedVInt_vint_bytes[OF encodeZigZag64_range[of n] e(2,3)] zigzag_roundtrip[OF assms(1)]
    by (simp add: readVInt_def)
  moreover have "length (vint_bytes ?v e @ drop (Suc e) b) = length b"
    using e(2) assms(2) by (simp add: vint_bytes_def del: be_bytes.simps)
  ultimately show ?thesis using that e(1,2) by (simp add: writeVInt_def)
qed

lemma binary_digits_spec:
  "1 \<le> n \<Longrightarrow> 1 \<le> binary_digits n \<and> 2 ^ (binary_digits n - 1) \<le> n \<and> n < 2 ^ binary_digits n"
proof (induction n rule: binary_digits.induct)
  case (1 n)
  show ?case
  proof (cases "n < 2")
    case True
    then show ?thesis using 1 by (simp add: binary_digits.simps[of n])
  next
    case False
    then have IH: "1 \<le> binary_digits (n div 2)" "2 ^ (binary_digits (n div 2) - 1) \<le> n div 2"
        "n div 2 < 2 ^ binary_digits (n div 2)" using 1 by auto
    obtain d where d: "binary_digits (n div 2) = Suc d" using IH(1) by (metis Suc_le_D One_nat_def)
    then show ?thesis using IH False by (simp add: binary_digits.simps[of n]) linarith
  qed
qed

lemma binary_digits_unique:
  assumes "2 ^ a \<le> n" "n < 2 ^ Suc a" shows "binary_digits n = Suc a"
proof -
  have "1 \<le> n" using assms(1) by (meson one_le_power one_le_numeral order_trans)
  note s = binary_digits_spec[OF this]
  have "(2::int) ^ a < 2 ^ binary_digits n" "(2::int) ^ (binary_digits n - 1) < 2 ^ Suc a"
    using s assms by linarith+
  then have "a < binary_digits n" "binary_digits n - 1 < Suc a"
    by (simp_all only: power_strict_increasing_iff)
  then show ?thesis by simp
qed

lemma map_to_byte_le: "map to_byte (rev (map (\<lambda>i. x div 256 ^ i mod 256) [0..<k])) = be_bytes k x"
proof (induction k arbitrary: x)
  case 0
  then show ?case by simp
next
  case (Suc k)
  show ?case by (simp add: Suc be_bytes_Suc del: be_bytes.simps)
qed

lemma uvintPack_loop_eq:
  assumes "0 \<le> v" "v < 2 ^ 31"
  obtains k where "uvintPack_loop v e nb rv
      = (v div 256 ^ k, e + k, rv @ map (\<lambda>i. v div 256 ^ i mod 256) [0..<k])"
    "nb - 8 * int k \<le> 8 - min (int (e + k) + 1) 8"
    "0 < k \<Longrightarrow> nb - 8 * (int k - 1) > 8 - min (int (e + k)) 8"
proof -
  have "\<exists>k. uvintPack_loop v e nb rv
      = (v div 256 ^ k, e + k, rv @ map (\<lambda>i. v div 256 ^ i mod 256) [0..<k])
      \<and> nb - 8 * int k \<le> 8 - min (int (e + k) + 1) 8
      \<and> (0 < k \<longrightarrow> nb - 8 * (int k - 1) > 8 - min (int (e + k)) 8)"
    using assms
  proof (induction v e nb rv rule: uvintPack_loop.induct)
    case (1 v e nb rv)
    show ?case
    proof (cases "nb > 8 - min (int e + 1) 8")
      case True
      have sh: "js_shr v 8 = v div 256" using "1.prems" by (simp add: js_shr_eq is_int32_def)
      have "0 \<le> v div 256" "v div 256 < 2 ^ 31" using "1.prems" by (simp_all add: pos_imp_zdiv_nonneg_iff)
      then obtain k where k: "uvintPack_loop (v div 256) (e + 1) (nb - 8) (rv @ [v mod 256])
         = (v div 256 div 256 ^ k, e + 1 + k, (rv @ [v mod 256]) @ map (\<lambda>i. v div 256 div 256 ^ i mod 256) [0..<k])"
        "nb - 8 - 8 * int k \<le> 8 - min (int (e + 1 + k) + 1) 8"
        "0 < k \<longrightarrow> nb - 8 - 8 * (int k - 1) > 8 - min (int (e + 1 + k)) 8"
        using "1.IH"[OF refl True] sh by (auto simp: js_and_ff)
      have "map (\<lambda>i. v div 256 ^ i mod 256) [0..<Suc k] = (v mod 256) # map (\<lambda>i. v div 256 div 256 ^ i mod 256) [0..<k]"
        by (simp only: upt_conv_Cons[of 0] zero_less_Suc map_Suc_upt[symmetric] list.map map_map)
          (simp add: comp_def zdiv_zmult2_eq)
      then show ?thesis using True k sh
        by (intro exI[of _ "Suc k"]) (auto simp: uvintPack_loop.simps[of v] js_and_ff zdiv_zmult2_eq)
    next
      case False
      then show ?thesis by (intro exI[of _ 0]) (simp add: uvintPack_loop.simps[of v])
    qed
  qed
  then show ?thesis using that by blast
qed

lemma uvintPack_eq:
  assumes "0 \<le> v" "v < 2 ^ 31"
  obtains e where "uvintPack v = Inr (vint_bytes v e)" "e \<le> 4" "v < 2 ^ (7 - e) * 256 ^ e" "0 < e \<Longrightarrow> 2 ^ (7 * e) \<le> v"
proof (cases "v < 128")
  case True
  then show ?thesis using that[of 0] assms by (simp add: uvintPack_def vint_bytes_def)
next
  case False
  define d where "d = binary_digits v"
  have d: "2 ^ (d - 1) \<le> v" "v < 2 ^ d" "1 \<le> d" using binary_digits_spec[of v] False unfolding d_def by auto
  have "d \<le> 31"
  proof -
    have "(2::int) ^ (d - 1) < 2 ^ 31" using d(1) assms(2) by linarith
    then have "d - 1 < 31" by (simp only: power_strict_increasing_iff)
    then show ?thesis by simp
  qed
  obtain k where k: "uvintPack_loop v 0 (int d) []
      = (v div 256 ^ k, 0 + k, [] @ map (\<lambda>i. v div 256 ^ i mod 256) [0..<k])"
    "int d - 8 * int k \<le> 8 - min (int (0 + k) + 1) 8"
    "0 < k \<Longrightarrow> int d - 8 * (int k - 1) > 8 - min (int (0 + k)) 8"
    using uvintPack_loop_eq[OF assms, of 0 "int d" "[]"] by blast
  have k4: "k \<le> 4" using k(3) \<open>d \<le> 31\<close> by (cases "0 < k") auto
  then have dk: "d \<le> 7 * Suc k" "0 < k \<Longrightarrow> 7 * k \<le> d - 1" using k(2,3) by auto
  have "7 * Suc k = (7 - k) + 8 * k" using k4 by simp
  then have p: "(2::int) ^ (7 * Suc k) = 2 ^ (7 - k) * 256 ^ k" by (simp only: power_add power_mult) simp
  have up: "v < 2 ^ (7 - k) * 256 ^ k"
    using d(2) power_increasing[OF dk(1), of "2::int"] unfolding p by linarith
  have lo: "2 ^ (7 * k) \<le> v" if "0 < k"
    using d(1) power_increasing[OF dk(2)[OF that], of "2::int"] by linarith
  let ?t = "v div 256 ^ k"
  have t: "0 \<le> ?t" "?t < 2 ^ (7 - k)" using assms(1) up by (simp_all add: pos_imp_zdiv_nonneg_iff zdiv_less)
  have "(2::int) ^ (7 - k) \<le> 2 ^ (8 - k)" by (intro power_increasing) auto
  then have t8: "?t < 2 ^ (8 - k)" using t(2) by linarith
  have "js_or ?t (js_shl (js_shr 255 (8 - k)) (8 - k)) = js_or (js_shl (2 ^ k - 1) (8 - k)) ?t"
    using k4 by (simp add: js_shr_ff js_or_def or.commute)
  also have "\<dots> = to_int32 ((2 ^ k - 1) * 2 ^ (8 - k) + ?t)"
    using js_or_shl[OF t(1) t8, of "2 ^ k - 1"] k4 by simp
  also have "(2 ^ k - 1) * 2 ^ (8 - k) = (256 - 2 ^ (8 - k) :: int)"
  proof -
    have "(2::int) ^ k * 2 ^ (8 - k) = 256" using k4 by (simp flip: power_add)
    then show ?thesis by (simp add: algebra_simps)
  qed
  finally have "\<bar>js_or ?t (js_shl (js_shr 255 (8 - k)) (8 - k))\<bar> = 256 - 2 ^ (8 - k) + ?t"
    using t t8 pow_le_256[of k] k4 by (simp add: is_int32_def)
  then have "uvintPack v = Inr (vint_bytes v k)"
    using False k(1) k4 unfolding vint_bytes_Cons uvintPack_def
    by (simp add: d_def map_to_byte_le add.commute del: be_bytes.simps)
  then show ?thesis using that k4 up lo by blast
qed

lemma shifted_int32:
  fixes x z :: int
  assumes "0 \<le> x" "x * 256 ^ k + z < 2147483648" "0 \<le> z"
  shows "is_int32 x"
proof -
  have "x * 1 \<le> x * 256 ^ k" using assms(1) by (intro mult_left_mono) simp_all
  then show ?thesis using assms by (simp add: is_int32_def)
qed

lemma uvintUnpack_loop_eq:
  assumes "0 \<le> acc" "acc * 256 ^ k + y mod 256 ^ k < 2147483648"
  shows "uvintUnpack_loop k (a @ be_bytes k y @ r) (length a) acc = acc * 256 ^ k + y mod 256 ^ k"
  using assms
proof (induction k arbitrary: a acc)
  case 0
  then show ?case by simp
next
  case (Suc k)
  let ?t = "y div 256 ^ k mod 256"
  have tot: "(acc * 256 + ?t) * 256 ^ k + y mod 256 ^ k = acc * 256 ^ Suc k + y mod 256 ^ Suc k"
    using zmod_zmult2_eq[of "256" y "256 ^ k"] by (simp add: algebra_simps)
  have n: "0 \<le> acc * 256 + ?t" using Suc.prems(1) by simp
  then have i: "is_int32 (acc * 256 + ?t)"
    using Suc.prems(2) tot by (intro shifted_int32[of _ k "y mod 256 ^ k"]) simp_all
  have "uvintUnpack_loop (Suc k) (a @ be_bytes (Suc k) y @ r) (length a) acc
      = uvintUnpack_loop k ((a @ [to_byte (y div 256 ^ k)]) @ be_bytes k y @ r)
          (length (a @ [to_byte (y div 256 ^ k)])) (js_or (js_shl acc 8) ?t)"
    by (simp add: be_bytes_Suc buf_get_def js_and_ff del: be_bytes.simps)
  also have "js_or (js_shl acc 8) ?t = acc * 256 + ?t"
    using js_or_shl[of ?t 8 acc] i by simp
  also have "uvintUnpack_loop k ((a @ [to_byte (y div 256 ^ k)]) @ be_bytes k y @ r)
          (length (a @ [to_byte (y div 256 ^ k)])) (acc * 256 + ?t) = (acc * 256 + ?t) * 256 ^ k + y mod 256 ^ k"
    using Suc.prems tot by (intro Suc.IH) simp_all
  finally show ?case unfolding tot .
qed

lemma complement_byte: "0 \<le> f \<Longrightarrow> f < 256 \<Longrightarrow> (- f - 1) mod 256 = 255 - f" for f :: int
  using mod_add_self2[of "- f - 1" 256] by simp

lemma uvintUnpack_vint_bytes:
  assumes "0 \<le> v" "v < 2 ^ 31" "e \<le> 4" "v < 2 ^ (7 - e) * 256 ^ e"
  shows "uvintUnpack (vint_bytes v e @ r) = (Some v, Suc e)"
proof -
  let ?t = "v div 256 ^ e"
  let ?f = "?t + (256 - 2 ^ (8 - e))"
  have t: "0 \<le> ?t" "?t < 2 ^ (7 - e)" using assms by (simp_all add: pos_imp_zdiv_nonneg_iff zdiv_less)
  have e8: "8 - e = Suc (7 - e)" using assms(3) by simp
  have t8: "?t < 2 ^ (8 - e)" using t unfolding e8 by simp
  have f: "0 \<le> ?f" "?f < 256" using t t8 pow_le_256[of e] assms(3) by linarith+
  have get: "buf_get (vint_bytes v e @ r) 0 = Some ?f"
    using f by (simp add: buf_get_def vint_bytes_Cons)
  show ?thesis
  proof (cases "e = 0")
    case True
    then have "?f = v" "v < 128" using t by simp_all
    then show ?thesis using get True assms(1) by (simp add: uvintUnpack_def js_and_top_bit)
  next
    case False
    then have "(2::int) ^ (8 - e) \<le> 2 ^ 7" by (intro power_increasing) auto
    then have nz: "js_and ?f 128 \<noteq> 0" using t(1) f by (simp add: js_and_top_bit)
    have "js_and (js_not ?f) 255 = 2 ^ (8 - e) - 1 - ?t"
      using f complement_byte[OF f] by (simp add: js_and_ff js_not_arith is_int32_def)
    moreover have "binary_digits (2 ^ (8 - e) - 1 - ?t) = 8 - e"
      using t t8 unfolding e8 by (intro binary_digits_unique) simp_all
    moreover have "js_and ?f (js_shr 255 e) = ?t"
    proof -
      have "(2::int) ^ (8 - e) * 2 ^ e = 256" using assms(3) by (simp flip: power_add)
      then have "?f = ?t + 2 ^ (8 - e) * (2 ^ e - 1)" by (simp add: right_diff_distrib)
      then have "?f mod 2 ^ (8 - e) = ?t" using mod_eq_of_add[OF t(1) t8, of "2 ^ e - 1"] by simp
      then show ?thesis using js_and_mask[of "8 - e" ?f] assms(3) by (simp add: js_shr_ff)
    qed
    moreover have "uvintUnpack_loop e (vint_bytes v e @ r) 1 ?t = v"
      using uvintUnpack_loop_eq[of ?t e v "[to_byte ?f]" r] t(1) assms(2)
      by (simp add: vint_bytes_Cons div_mult_mod_eq del: be_bytes.simps)
    ultimately show ?thesis using get nz assms(3) by (simp add: uvintUnpack_def Let_def)
  qed
qed

lemma vint_extra_unique:
  fixes v :: int
  assumes "v < 2 ^ (7 * Suc a)" "0 < a \<Longrightarrow> 2 ^ (7 * a) \<le> v"
    and "v < 2 ^ (7 * Suc b)" "0 < b \<Longrightarrow> 2 ^ (7 * b) \<le> v"
  shows "a = b"
proof -
  have "c \<le> d" if "v < 2 ^ (7 * Suc d)" "0 < c \<Longrightarrow> 2 ^ (7 * c) \<le> v" for c d
  proof (cases "0 < c")
    case True
    have "(2::int) ^ (7 * c) < 2 ^ (7 * Suc d)" by (rule le_less_trans[OF that(2)[OF True] that(1)])
    then have "7 * c < 7 * Suc d" by (simp only: power_strict_increasing_iff)
    then show ?thesis by simp
  qed simp
  then show ?thesis using assms by (meson le_antisym)
qed

lemma vint_bound: "e \<le> 7 \<Longrightarrow> 2 ^ (7 - e) * 256 ^ e = (2::int) ^ (7 * Suc e)"
proof -
  assume "e \<le> 7"
  then have "7 * Suc e = (7 - e) + 8 * e" by simp
  then show ?thesis by (simp only: power_add power_mult) simp
qed

section \<open>The codec interface\<close>

definition vint_enc :: "int \<Rightarrow> buffer" where
  "vint_enc n = (case writeVInt n (replicate 9 0) of (s, b) \<Rightarrow> take s b)"

interpretation vint: prefix_codec is_int64 vint_enc readVInt
proof unfold_locales
  fix n :: int and a r :: buffer
  assume "is_int64 n"
  then obtain s b' where "writeVInt n (replicate 9 0) = (s, b')" "s \<le> 9" "length b' = 9"
      "\<And>a r. readVInt (a @ take s b' @ r) (length a) = Inr (n, length a + s)"
    by (rule writeVInt_readVInt[of n "replicate 9 0"]) auto
  then show "readVInt (a @ vint_enc n @ r) (length a) = Inr (n, length a + length (vint_enc n))"
    by (simp add: vint_enc_def)
qed

section \<open>Properties\<close>

text \<open>every signed 64-bit value written by \<open>writeVInt\<close> into a buffer of at least nine bytes
  uses one to nine of them, and \<open>readVInt\<close> at the position of those bytes, whatever stands
  before and after, returns the value and the position just behind them.\<close>

theorem vint_write_read:
  assumes "is_int64 n" "9 \<le> length b"
  shows "case writeVInt n b of (s, b') \<Rightarrow> 1 \<le> s \<and> s \<le> 9 \<and> length b' = length b \<and>
      readVInt (a @ take s b' @ r) (length a) = Inr (n, length a + s)"
  by (rule writeVInt_readVInt[OF assms]) simp

theorem vint_write_read_witness:
  "case writeVInt (- 300) (replicate 9 0) of (s, b') \<Rightarrow> 1 \<le> s \<and> s \<le> 9 \<and>
     length b' = length (replicate 9 (0 :: byte)) \<and>
     readVInt ([7] @ take s b' @ [1, 2]) (length [7 :: byte]) = Inr (- 300, length [7 :: byte] + s)"
  using vint_write_read[of "- 300" "replicate 9 0" "[7]" "[1, 2]"] by (simp add: is_int64_def)

text \<open>\<open>uvintPack\<close>, which the vector codec uses for the length of an element, and
  \<open>writeUnsignedVInt\<close> are written independently but produce the same bytes for every length
  below \<open>2 ^ 31\<close>.\<close>

theorem uvintPack_eq_writeUnsignedVInt:
  assumes "0 \<le> v" "v < 2 ^ 31" "9 \<le> length b"
  shows "uvintPack v = Inr (case writeUnsignedVInt v b of (s, b') \<Rightarrow> take s b')"
proof -
  obtain e where e: "uvintPack v = Inr (vint_bytes v e)" "e \<le> 4" "v < 2 ^ (7 - e) * 256 ^ e"
      "0 < e \<Longrightarrow> 2 ^ (7 * e) \<le> v"
    using uvintPack_eq[OF assms(1,2)] by blast
  have "v < 2 ^ 64" using assms(2) by simp
  then obtain d where d: "writeUnsignedVInt v b = (Suc d, vint_bytes v d @ drop (Suc d) b)"
      "d \<le> 8" "d \<le> 7 \<Longrightarrow> v < 2 ^ (7 - d) * 256 ^ d" "0 < d \<Longrightarrow> 2 ^ (7 * d) \<le> v"
    using writeUnsignedVInt_eq[OF assms(1) _ assms(3)] by blast
  have "d \<noteq> 8" using d(4) assms(2) by auto
  then have "d = e"
    using d e by (intro vint_extra_unique[of v]) (auto simp: vint_bound)
  then show ?thesis using e(1) d(1) by (simp add: vint_bytes_def del: be_bytes.simps)
qed

theorem uvintPack_eq_writeUnsignedVInt_witness:
  "uvintPack 16384 = Inr (case writeUnsignedVInt 16384 (replicate 9 0) of (s, b') \<Rightarrow> take s b')"
  using uvintPack_eq_writeUnsignedVInt[of 16384 "replicate 9 0"] by simp

text \<open>a length below \<open>2 ^ 31\<close> packed by \<open>uvintPack\<close> is returned by \<open>uvintUnpack\<close> together
  with the number of bytes it occupies, whatever follows it.\<close>

theorem uvint_pack_unpack:
  assumes "0 \<le> v" "v < 2 ^ 31"
  shows "\<exists>b. uvintPack v = Inr b \<and> uvintUnpack (b @ r) = (Some v, length b)"
proof -
  obtain e where "uvintPack v = Inr (vint_bytes v e)" "e \<le> 4" "v < 2 ^ (7 - e) * 256 ^ e"
    using uvintPack_eq[OF assms] by blast
  then show ?thesis
    using uvintUnpack_vint_bytes[OF assms, of e r] by (simp add: vint_bytes_def del: be_bytes.simps)
qed

theorem uvint_pack_unpack_witness:
  "\<exists>b. uvintPack 200000 = Inr b \<and> uvintUnpack (b @ [1, 2]) = (Some 200000, length b)"
  using uvint_pack_unpack[of 200000 "[1, 2]"] by simp

end
