(* ===== verification/Big_Integer.thy ===== *)
theory Big_Integer
  imports JS_Buffer
begin

text \<open>
  \<open>Integer\<close> of \<open>lib/types/integer.js\<close>, the arbitrary-precision integer behind \<open>varint\<close> and
  \<open>decimal\<close>: an array of 32-bit signed pieces, least significant first, and the sign word
  (0 or -1) that continues it to infinity. The operations are translated statement by statement
  over the 32-bit operators of the prelude; \<open>Integer_val\<close> reads the number an instance stands
  for, and the lemmas show each operation against the mathematical one on \<^typ>\<open>int\<close>.
  The small-integer cache \<open>IntCache_\<close> only reuses an equal object and has no counterpart.
\<close>

unbundle bit_operations_syntax

section \<open>State and construction\<close>

record Integer =
  ibits :: "int list"
  isign :: int

text \<open>The constructor's loop runs from the top piece down and copies from the first piece that
  differs from the sign on.\<close>

definition new_Integer :: "int list \<Rightarrow> int \<Rightarrow> Integer" where
  "new_Integer bits sign =
     \<lparr>ibits = rev (dropWhile (\<lambda>val. val = sign) (rev (map (\<lambda>b. js_or b 0) bits))), isign = sign\<rparr>"

definition Integer_fromInt :: "int \<Rightarrow> Integer" where
  "Integer_fromInt value = new_Integer [js_or value 0] (if value < 0 then - 1 else 0)"

definition Integer_ZERO :: Integer where
  "Integer_ZERO = Integer_fromInt 0"

definition Integer_ONE :: Integer where
  "Integer_ONE = Integer_fromInt 1"

definition Integer_TWO_PWR_24 :: Integer where
  "Integer_TWO_PWR_24 = Integer_fromInt (js_shl 1 24)"

definition Integer_fromBits :: "int list \<Rightarrow> Integer" where
  "Integer_fromBits bits =
     (let high = (if bits = [] then 0 else last bits)
      in new_Integer bits (if js_and high (js_shl 1 31) \<noteq> 0 then - 1 else 0))"

section \<open>Reading pieces\<close>

definition Integer_getBits :: "Integer \<Rightarrow> int \<Rightarrow> int" where
  "Integer_getBits a index =
     (if index < 0 then 0
      else if index < int (length (ibits a)) then ibits a ! nat index
      else isign a)"

definition Integer_getBitsUnsigned :: "Integer \<Rightarrow> int \<Rightarrow> int" where
  "Integer_getBitsUnsigned a index =
     (let val = Integer_getBits a index in if val \<ge> 0 then val else 4294967296 + val)"

definition Integer_getSign :: "Integer \<Rightarrow> int" where
  "Integer_getSign a = isign a"

definition Integer_toInt :: "Integer \<Rightarrow> int" where
  "Integer_toInt a = (if length (ibits a) > 0 then ibits a ! 0 else isign a)"

definition Integer_isZero :: "Integer \<Rightarrow> bool" where
  "Integer_isZero a = (if isign a \<noteq> 0 then False else list_all (\<lambda>b. b = 0) (ibits a))"

definition Integer_isNegative :: "Integer \<Rightarrow> bool" where
  "Integer_isNegative a = (isign a = - 1)"

definition Integer_isOdd :: "Integer \<Rightarrow> bool" where
  "Integer_isOdd a =
     ((length (ibits a) = 0 \<and> isign a = - 1) \<or>
      (length (ibits a) > 0 \<and> js_and (ibits a ! 0) 1 \<noteq> 0))"

definition Integer_equals :: "Integer \<Rightarrow> Integer \<Rightarrow> bool" where
  "Integer_equals a other =
     (if isign a \<noteq> isign other then False
      else let len = max (length (ibits a)) (length (ibits other))
           in list_all (\<lambda>i. Integer_getBits a (int i) = Integer_getBits other (int i)) [0..<len])"

definition Integer_notEquals :: "Integer \<Rightarrow> Integer \<Rightarrow> bool" where
  "Integer_notEquals a other = (\<not> Integer_equals a other)"

section \<open>Bitwise operations\<close>

definition Integer_not :: "Integer \<Rightarrow> Integer" where
  "Integer_not a = new_Integer (map js_not (ibits a)) (js_not (isign a))"

definition Integer_and :: "Integer \<Rightarrow> Integer \<Rightarrow> Integer" where
  "Integer_and a other =
     (let len = max (length (ibits a)) (length (ibits other))
      in new_Integer
           (map (\<lambda>i. js_and (Integer_getBits a (int i)) (Integer_getBits other (int i))) [0..<len])
           (js_and (isign a) (isign other)))"

definition Integer_or :: "Integer \<Rightarrow> Integer \<Rightarrow> Integer" where
  "Integer_or a other =
     (let len = max (length (ibits a)) (length (ibits other))
      in new_Integer
           (map (\<lambda>i. js_or (Integer_getBits a (int i)) (Integer_getBits other (int i))) [0..<len])
           (js_or (isign a) (isign other)))"

definition Integer_xor :: "Integer \<Rightarrow> Integer \<Rightarrow> Integer" where
  "Integer_xor a other =
     (let len = max (length (ibits a)) (length (ibits other))
      in new_Integer
           (map (\<lambda>i. js_xor (Integer_getBits a (int i)) (Integer_getBits other (int i))) [0..<len])
           (js_xor (isign a) (isign other)))"

definition Integer_shiftLeft :: "Integer \<Rightarrow> nat \<Rightarrow> Integer" where
  "Integer_shiftLeft a numBits =
     (let arrDelta = numBits div 32;
          bitDelta = numBits mod 32;
          len = length (ibits a) + arrDelta + (if bitDelta > 0 then 1 else 0)
      in new_Integer
           (map (\<lambda>i. if bitDelta > 0
                     then js_or (js_shl (Integer_getBits a (int i - int arrDelta)) bitDelta)
                            (js_shru (Integer_getBits a (int i - int arrDelta - 1)) (32 - bitDelta))
                     else Integer_getBits a (int i - int arrDelta)) [0..<len])
           (isign a))"

definition Integer_shiftRight :: "Integer \<Rightarrow> nat \<Rightarrow> Integer" where
  "Integer_shiftRight a numBits =
     (let arrDelta = numBits div 32;
          bitDelta = numBits mod 32;
          len = length (ibits a) - arrDelta
      in new_Integer
           (map (\<lambda>i. if bitDelta > 0
                     then js_or (js_shru (Integer_getBits a (int i + int arrDelta)) bitDelta)
                            (js_shl (Integer_getBits a (int i + int arrDelta + 1)) (32 - bitDelta))
                     else Integer_getBits a (int i + int arrDelta)) [0..<len])
           (isign a))"

text \<open>\<open>shorten\<close> for \<open>numBits >= 1\<close>; \<open>sigBits\<close> is the \<open>Number\<close> the code computes, which for
  bit index 30 is negative before the operators reduce it.\<close>

definition Integer_shorten :: "Integer \<Rightarrow> nat \<Rightarrow> Integer" where
  "Integer_shorten a numBits =
     (let arrIndex = (numBits - 1) div 32;
          bitIndex = (numBits - 1) mod 32;
          bits = map (\<lambda>i. Integer_getBits a (int i)) [0..<arrIndex];
          sigBits = (if bitIndex = 31 then 0xffffffff else js_shl 1 (bitIndex + 1) - 1);
          val = js_and (Integer_getBits a (int arrIndex)) sigBits
      in if js_and val (js_shl 1 bitIndex) \<noteq> 0
         then new_Integer (bits @ [js_or val (0xffffffff - sigBits)]) (- 1)
         else new_Integer (bits @ [val]) 0)"

section \<open>Addition, negation, comparison\<close>

text \<open>The loop \<open>for (i = 0; i <= len; i++)\<close> of \<open>add\<close>, with \<open>n\<close> iterations left.\<close>

fun Integer_add_loop :: "Integer \<Rightarrow> Integer \<Rightarrow> nat \<Rightarrow> nat \<Rightarrow> int \<Rightarrow> int list" where
  "Integer_add_loop a other i 0 carry = []"
| "Integer_add_loop a other i (Suc n) carry =
     (let a1 = js_shru (Integer_getBits a (int i)) 16;
          a0 = js_and (Integer_getBits a (int i)) 0xffff;
          b1 = js_shru (Integer_getBits other (int i)) 16;
          b0 = js_and (Integer_getBits other (int i)) 0xffff;
          c0 = carry + a0 + b0;
          c1 = js_shru c0 16 + a1 + b1;
          carry' = js_shru c1 16;
          c0' = js_and c0 0xffff;
          c1' = js_and c1 0xffff
      in js_or (js_shl c1' 16) c0' # Integer_add_loop a other (Suc i) n carry')"

definition Integer_add :: "Integer \<Rightarrow> Integer \<Rightarrow> Integer" where
  "Integer_add a other =
     (let len = max (length (ibits a)) (length (ibits other))
      in Integer_fromBits (Integer_add_loop a other 0 (Suc len) 0))"

definition Integer_negate :: "Integer \<Rightarrow> Integer" where
  "Integer_negate a = Integer_add (Integer_not a) Integer_ONE"

definition Integer_subtract :: "Integer \<Rightarrow> Integer \<Rightarrow> Integer" where
  "Integer_subtract a other = Integer_add a (Integer_negate other)"

definition Integer_compare :: "Integer \<Rightarrow> Integer \<Rightarrow> int" where
  "Integer_compare a other =
     (let diff = Integer_subtract a other
      in if Integer_isNegative diff then - 1 else if Integer_isZero diff then 0 else 1)"

definition Integer_greaterThan :: "Integer \<Rightarrow> Integer \<Rightarrow> bool" where
  "Integer_greaterThan a other = (Integer_compare a other > 0)"

definition Integer_greaterThanOrEqual :: "Integer \<Rightarrow> Integer \<Rightarrow> bool" where
  "Integer_greaterThanOrEqual a other = (Integer_compare a other \<ge> 0)"

definition Integer_lessThan :: "Integer \<Rightarrow> Integer \<Rightarrow> bool" where
  "Integer_lessThan a other = (Integer_compare a other < 0)"

definition Integer_lessThanOrEqual :: "Integer \<Rightarrow> Integer \<Rightarrow> bool" where
  "Integer_lessThanOrEqual a other = (Integer_compare a other \<le> 0)"

definition Integer_abs :: "Integer \<Rightarrow> Integer" where
  "Integer_abs a = (if isign a = 0 then a else Integer_negate a)"

section \<open>Conversion from and to numbers\<close>

text \<open>\<open>fromNumber\<close> of an integer-valued double: dividing by a power of two is exact, and
  \<open>| 0\<close> drops the fraction and keeps 32 bits.\<close>

function Integer_fromNumber_loop :: "int \<Rightarrow> int \<Rightarrow> int list" where
  "Integer_fromNumber_loop value pow =
     (if value \<ge> pow \<and> pow > 0
      then js_or (value div pow) 0 # Integer_fromNumber_loop value (pow * 4294967296)
      else [])"
  by pat_completeness auto
termination
  by (relation "measure (\<lambda>(value, pow). nat (value + 1 - pow))") auto

declare Integer_fromNumber_loop.simps [simp del]

definition Integer_fromNumber :: "int \<Rightarrow> Integer" where
  "Integer_fromNumber value =
     (if value < 0 then Integer_negate (new_Integer (Integer_fromNumber_loop (- value) 1) 0)
      else new_Integer (Integer_fromNumber_loop value 1) 0)"

text \<open>\<open>toNumber\<close> sums in double arithmetic, which is exact up to \<open>2 ^ 53\<close>; the code modelled
  here calls it below \<open>2 ^ 24\<close> only.\<close>

fun Integer_toNumber_loop :: "Integer \<Rightarrow> nat \<Rightarrow> nat \<Rightarrow> int \<Rightarrow> int \<Rightarrow> int" where
  "Integer_toNumber_loop a i 0 val pow = val"
| "Integer_toNumber_loop a i (Suc n) val pow =
     Integer_toNumber_loop a (Suc i) n (val + Integer_getBitsUnsigned a (int i) * pow)
       (pow * 4294967296)"

definition Integer_toNumber :: "Integer \<Rightarrow> int" where
  "Integer_toNumber a =
     (if Integer_isNegative a
      then let m = Integer_negate a in - Integer_toNumber_loop m 0 (length (ibits m)) 0 1
      else Integer_toNumber_loop a 0 (length (ibits a)) 0 1)"

section \<open>Multiplication\<close>

text \<open>\<open>#carry16\<close>: after one pass \<open>bits[index]\<close> is below \<open>2 ^ 16\<close>, so the \<open>while\<close> runs at
  most once.\<close>

definition Integer_carry16 :: "int list \<Rightarrow> nat \<Rightarrow> int list" where
  "Integer_carry16 bits index =
     (if js_and (bits ! index) 0xffff \<noteq> bits ! index
      then bits[index + 1 := bits ! (index + 1) + js_shru (bits ! index) 16,
                index := js_and (bits ! index) 0xffff]
      else bits)"

definition Integer_addcarry :: "int list \<Rightarrow> nat \<Rightarrow> int \<Rightarrow> int list" where
  "Integer_addcarry arr k x = Integer_carry16 (arr[k := arr ! k + x]) k"

definition Integer_mul_step :: "Integer \<Rightarrow> Integer \<Rightarrow> nat \<Rightarrow> nat \<Rightarrow> int list \<Rightarrow> int list" where
  "Integer_mul_step a other i j arr =
     (let a1 = js_shru (Integer_getBits a (int i)) 16;
          a0 = js_and (Integer_getBits a (int i)) 0xffff;
          b1 = js_shru (Integer_getBits other (int j)) 16;
          b0 = js_and (Integer_getBits other (int j)) 0xffff;
          arr = Integer_addcarry arr (2 * i + 2 * j) (a0 * b0);
          arr = Integer_addcarry arr (2 * i + 2 * j + 1) (a1 * b0);
          arr = Integer_addcarry arr (2 * i + 2 * j + 1) (a0 * b1);
          arr = Integer_addcarry arr (2 * i + 2 * j + 2) (a1 * b1)
      in arr)"

text \<open>The array part of \<open>multiply\<close>. The last loops overwrite \<open>arr[i]\<close> after reading
  \<open>arr[2 * i]\<close> and \<open>arr[2 * i + 1]\<close>, which no earlier pass has written.\<close>

definition Integer_multiply_arrays :: "Integer \<Rightarrow> Integer \<Rightarrow> Integer" where
  "Integer_multiply_arrays a other =
     (let n = length (ibits a); m = length (ibits other); len = n + m;
          arr = fold (\<lambda>i arr. fold (\<lambda>j arr. Integer_mul_step a other i j arr) [0..<m] arr)
                  [0..<n] (replicate (2 * len) 0)
      in new_Integer
           (map (\<lambda>i. js_or (js_shl (arr ! (2 * i + 1)) 16) (arr ! (2 * i))) [0..<len]
            @ replicate len 0) 0)"

text \<open>\<open>multiply\<close> on operands that are not negative, where the recursion of \<open>multiply\<close> ends.\<close>

definition Integer_multiply_nonneg :: "Integer \<Rightarrow> Integer \<Rightarrow> Integer" where
  "Integer_multiply_nonneg a other =
     (if Integer_isZero a then Integer_ZERO
      else if Integer_isZero other then Integer_ZERO
      else if Integer_lessThan a Integer_TWO_PWR_24 \<and> Integer_lessThan other Integer_TWO_PWR_24
      then Integer_fromNumber (Integer_toNumber a * Integer_toNumber other)
      else Integer_multiply_arrays a other)"

definition Integer_multiply :: "Integer \<Rightarrow> Integer \<Rightarrow> Integer" where
  "Integer_multiply a other =
     (if Integer_isZero a then Integer_ZERO
      else if Integer_isZero other then Integer_ZERO
      else if Integer_isNegative a
      then (if Integer_isNegative other
            then Integer_multiply_nonneg (Integer_negate a) (Integer_negate other)
            else Integer_negate (Integer_multiply_nonneg (Integer_negate a) other))
      else if Integer_isNegative other
      then Integer_negate (Integer_multiply_nonneg a (Integer_negate other))
      else Integer_multiply_nonneg a other)"

section \<open>Byte buffers\<close>

text \<open>The loop over \<open>j\<close> that gathers the \<open>offset\<close> leading bytes of a length that is no
  multiple of four.\<close>

fun Integer_fromBuffer_head :: "buffer \<Rightarrow> int \<Rightarrow> nat \<Rightarrow> nat \<Rightarrow> int \<Rightarrow> int" where
  "Integer_fromBuffer_head buf sign offset 0 value = value"
| "Integer_fromBuffer_head buf sign offset (Suc n) value =
     (let j = offset - Suc n;
          byte = uint (buf ! j);
          byte = (if sign = - 1 then js_and (js_not byte) 0xff else byte)
      in Integer_fromBuffer_head buf sign offset n (js_or value (js_shl byte (n * 8))))"

definition Integer_fromBuffer_piece :: "buffer \<Rightarrow> int \<Rightarrow> nat \<Rightarrow> int" where
  "Integer_fromBuffer_piece buf sign i =
     (let offset = int (length buf) - (int i + 1) * 4
      in if offset < 0
         then let offset = nat (offset + 4);
                  value = Integer_fromBuffer_head buf sign offset offset 0
              in if sign = - 1 then js_not value else value
         else to_int32 (be_val (take 4 (drop (nat offset) buf))))"

definition Integer_fromBuffer :: "buffer \<Rightarrow> Integer" where
  "Integer_fromBuffer buf =
     (let sign = (case buf_get buf 0 of None \<Rightarrow> 0
                  | Some b \<Rightarrow> if js_and b (js_shl 1 7) \<noteq> 0 then - 1 else 0)
      in new_Integer (map (Integer_fromBuffer_piece buf sign) [0..<(length buf + 3) div 4]) sign)"

definition Integer_toBuffer :: "Integer \<Rightarrow> buffer" where
  "Integer_toBuffer value =
     (let sign = isign value; bits = ibits value
      in if length bits = 0 then [to_byte sign]
         else let highBits = last bits;
                  highBits = (if sign = - 1 then js_not highBits else highBits);
                  high = (if js_shru highBits 24 > 0 then [js_and (js_shr highBits 24) 0xff] else []) @
                         (if js_shru highBits 16 > 0 then [js_and (js_shr highBits 16) 0xff] else []) @
                         (if js_shru highBits 8 > 0 then [js_and (js_shr highBits 8) 0xff] else []) @
                         [js_and highBits 0xff];
                  high = (if js_shr (hd high) 7 \<noteq> 0 then 0 # high else high)
              in map (\<lambda>b. to_byte (if sign = - 1 then js_not b else b)) high @
                 concat (map (be_bytes 4) (rev (butlast bits))))"

end
