(* ===== verification/Big_Integer_Correct.thy ===== *)
theory Big_Integer_Correct
  imports Big_Integer
begin

text \<open>
  What the operations of \<open>Integer\<close> compute. \<open>Integer_val\<close> is the number an instance stands for,
  \<open>Integer_wf\<close> the invariant its constructor sets up (32-bit pieces, a sign word of 0 or -1, no
  redundant top piece). Under the invariant a number has one representation, and every operation
  is shown to keep it and to compute the operation of the same name on \<^typ>\<open>int\<close>. Subtraction and
  the comparisons follow from the contract \<open>signed_number\<close> alone.
\<close>

unbundle bit_operations_syntax

section \<open>The number an instance stands for\<close>

fun tc :: "int \<Rightarrow> int list \<Rightarrow> int" where
  "tc s [] = s"
| "tc s (b # bs) = b mod 4294967296 + 4294967296 * tc s bs"

definition Integer_val :: "Integer \<Rightarrow> int" where
  "Integer_val a = tc (isign a) (ibits a)"

definition is_sign :: "int \<Rightarrow> bool" where
  "is_sign s \<longleftrightarrow> s = 0 \<or> s = - 1"

definition Integer_wf :: "Integer \<Rightarrow> bool" where
  "Integer_wf a \<longleftrightarrow> is_sign (isign a) \<and> list_all is_int32 (ibits a) \<and>
     (ibits a \<noteq> [] \<longrightarrow> last (ibits a) \<noteq> isign a)"

definition pieces :: "nat \<Rightarrow> int \<Rightarrow> int list" where
  "pieces n x = map (\<lambda>i. to_int32 (x div 4294967296 ^ i)) [0..<n]"

lemma pieces_0 [simp]: "pieces 0 x = []"
  by (simp add: pieces_def)

lemma pieces_Suc [simp]: "pieces (Suc n) x = to_int32 x # pieces n (x div 4294967296)"
  unfolding pieces_def
  by (simp only: upt_conv_Cons[of 0] zero_less_Suc map_Suc_upt[symmetric] list.map map_map)
    (simp add: comp_def zdiv_zmult2_eq)

lemma length_pieces [simp]: "length (pieces n x) = n"
  by (simp add: pieces_def)

lemma tc_pieces: "tc s (pieces n x) = x mod 4294967296 ^ n + 4294967296 ^ n * s"
proof (induction n arbitrary: x)
  case 0
  then show ?case by simp
next
  case (Suc n)
  have "x mod (4294967296 * 4294967296 ^ n) = 4294967296 * (x div 4294967296 mod 4294967296 ^ n) + x mod 4294967296"
    by (rule zmod_zmult2_eq) simp
  then show ?case by (simp add: Suc algebra_simps)
qed

lemma tc_pieces_exact: "x div 4294967296 ^ n = s \<Longrightarrow> tc s (pieces n x) = x"
  by (auto simp: tc_pieces)

lemma sign_word: "is_sign s \<Longrightarrow> s mod 4294967296 + 4294967296 * s = s"
  by (auto simp: is_sign_def)

lemma tc_sign_extend: "is_sign s \<Longrightarrow> tc s (bs @ replicate k s) = tc s bs"
proof (induction bs)
  case Nil
  then show ?case by (induction k) (auto simp: sign_word)
qed simp

lemma tc_to_int32: "tc s (map to_int32 bs) = tc s bs"
  by (induction bs) auto

lemma js_or_0 [simp]: "js_or b 0 = to_int32 b"
  by (simp add: js_or_eq)

lemma trim_split:
  "xs = rev (dropWhile (\<lambda>v. v = s) (rev xs)) @ replicate (length (takeWhile (\<lambda>v. v = s) (rev xs))) s"
proof -
  have "rev (takeWhile (\<lambda>v. v = s) (rev xs)) = replicate (length (takeWhile (\<lambda>v. v = s) (rev xs))) s"
    by (intro replicate_eqI) (auto dest: set_takeWhileD)
  moreover have "rev (dropWhile (\<lambda>v. v = s) (rev xs)) @ rev (takeWhile (\<lambda>v. v = s) (rev xs)) = xs"
    by (simp flip: rev_append)
  ultimately show ?thesis by simp
qed

lemma new_Integer_val: "is_sign s \<Longrightarrow> Integer_val (new_Integer bs s) = tc s bs"
  using tc_sign_extend trim_split[of "map to_int32 bs" s]
  by (simp add: Integer_val_def new_Integer_def) (metis tc_to_int32)

lemma new_Integer_wf: "is_sign s \<Longrightarrow> Integer_wf (new_Integer bs s)"
proof -
  assume "is_sign s"
  moreover have "list_all is_int32 (ibits (new_Integer bs s))"
    by (auto simp: new_Integer_def list_all_iff to_int32_range dest!: set_dropWhileD)
  moreover have "ibits (new_Integer bs s) \<noteq> [] \<Longrightarrow> last (ibits (new_Integer bs s)) \<noteq> s"
    using hd_dropWhile[of "\<lambda>v. v = s" "rev (map to_int32 bs)"] by (simp add: new_Integer_def last_rev)
  ultimately show ?thesis by (simp add: Integer_wf_def new_Integer_def)
qed

lemma new_Integer_sign [simp]: "isign (new_Integer bs s) = s"
  by (simp add: new_Integer_def)

lemma tc_div: "is_sign s \<Longrightarrow> tc s bs div 4294967296 = tc s (tl bs)"
  by (cases bs) (auto simp: is_sign_def)

lemma tc_drop: "is_sign s \<Longrightarrow> tc s (drop i bs) = tc s bs div 4294967296 ^ i"
proof (induction i arbitrary: bs)
  case (Suc i)
  then show ?case by (simp add: drop_Suc tc_div[symmetric] zdiv_zmult2_eq)
qed simp

lemma getBits_eq: "Integer_wf a \<Longrightarrow> Integer_getBits a (int i) = to_int32 (Integer_val a div 4294967296 ^ i)"
proof -
  assume wf: "Integer_wf a"
  then have s: "is_sign (isign a)" by (simp add: Integer_wf_def)
  have "to_int32 (tc (isign a) (drop i (ibits a))) = Integer_getBits a (int i)"
  proof (cases "i < length (ibits a)")
    case True
    then have "drop i (ibits a) = ibits a ! i # drop (Suc i) (ibits a)" by (simp add: Cons_nth_drop_Suc)
    then have "to_int32 (tc (isign a) (drop i (ibits a))) = to_int32 (ibits a ! i)"
      by (intro to_int32_cong) simp
    then show ?thesis using True wf by (simp add: Integer_getBits_def Integer_wf_def list_all_length)
  next
    case False
    then show ?thesis using s by (auto simp: Integer_getBits_def is_sign_def is_int32_def)
  qed
  then show ?thesis using tc_drop[OF s] by (simp add: Integer_val_def)
qed

lemma getBits_neg [simp]: "i < 0 \<Longrightarrow> Integer_getBits a i = 0"
  by (simp add: Integer_getBits_def)

lemma val_top: "Integer_wf a \<Longrightarrow> length (ibits a) \<le> n \<Longrightarrow> Integer_val a div 4294967296 ^ n = isign a"
  using tc_drop[of "isign a" n "ibits a"] by (simp add: Integer_wf_def Integer_val_def)

lemma sign_val: "Integer_wf a \<Longrightarrow> isign a = (if Integer_val a < 0 then - 1 else 0)"
proof -
  assume wf: "Integer_wf a"
  have "Integer_val a div 4294967296 ^ length (ibits a) = isign a" by (rule val_top[OF wf]) simp
  moreover have "is_sign (isign a)" using wf by (simp add: Integer_wf_def)
  moreover have "Integer_val a div 4294967296 ^ length (ibits a) < 0 \<longleftrightarrow> Integer_val a < 0"
    by (rule pos_imp_zdiv_neg_iff) simp
  ultimately show ?thesis by (auto simp: is_sign_def)
qed

lemma js_not_word: "js_not (to_int32 x) = to_int32 (NOT x)"
  using js_not_eq[of "to_int32 x"] js_not_eq[of x] by (simp add: js_not_def)

lemma div_bitop:
  "(x AND y) div 4294967296 ^ i = (x div 4294967296 ^ i) AND (y div 4294967296 ^ i)"
  "(x OR y) div 4294967296 ^ i = (x div 4294967296 ^ i) OR (y div 4294967296 ^ i)"
  "(x XOR y) div 4294967296 ^ i = (x div 4294967296 ^ i) XOR (y div 4294967296 ^ i)"
  "(NOT x) div 4294967296 ^ i = NOT (x div 4294967296 ^ i)" for x y :: int
proof -
  have e: "z div 4294967296 ^ i = drop_bit (32 * i) z" for z :: int
    by (simp add: drop_bit_eq_div power_mult)
  show "(x AND y) div 4294967296 ^ i = (x div 4294967296 ^ i) AND (y div 4294967296 ^ i)"
    "(x OR y) div 4294967296 ^ i = (x div 4294967296 ^ i) OR (y div 4294967296 ^ i)"
    "(x XOR y) div 4294967296 ^ i = (x div 4294967296 ^ i) XOR (y div 4294967296 ^ i)"
    "(NOT x) div 4294967296 ^ i = NOT (x div 4294967296 ^ i)"
    unfolding e by (simp_all add: bit_eq_iff bit_simps)
qed

lemma js_bitops_word:
  "js_and (to_int32 x) (to_int32 y) = to_int32 (x AND y)"
  "js_or (to_int32 x) (to_int32 y) = to_int32 (x OR y)"
  "js_xor (to_int32 x) (to_int32 y) = to_int32 (x XOR y)"
  by (simp_all add: js_and_def js_or_def js_xor_def flip: js_and_eq js_or_eq js_xor_eq)

lemma js_sign_ops:
  "is_sign s \<Longrightarrow> is_sign t \<Longrightarrow> js_and s t = s AND t \<and> is_sign (s AND t)"
  "is_sign s \<Longrightarrow> is_sign t \<Longrightarrow> js_or s t = s OR t \<and> is_sign (s OR t)"
  "is_sign s \<Longrightarrow> is_sign t \<Longrightarrow> js_xor s t = s XOR t \<and> is_sign (s XOR t)"
  "is_sign s \<Longrightarrow> js_not s = NOT s \<and> is_sign (NOT s)"
  by (auto simp: is_sign_def js_and_def js_or_def js_xor_def js_not_def is_int32_def)

text \<open>An array of pieces of \<open>x\<close> under the right sign is \<open>x\<close>.\<close>

lemma new_pieces:
  assumes "is_sign s" "x div 4294967296 ^ n = s" "bs = pieces n x"
  shows "Integer_wf (new_Integer bs s) \<and> Integer_val (new_Integer bs s) = x"
  using assms by (simp add: new_Integer_wf new_Integer_val tc_pieces_exact)

lemma map_pieces: "(\<And>i. i < n \<Longrightarrow> f i = to_int32 (x div 4294967296 ^ i)) \<Longrightarrow> map f [0..<n] = pieces n x"
  by (simp add: pieces_def)

lemma Integer_wf_sign: "Integer_wf a \<Longrightarrow> is_sign (isign a)"
  by (simp add: Integer_wf_def)

lemma Integer_not_correct:
  assumes "Integer_wf a"
  shows "Integer_wf (Integer_not a) \<and> Integer_val (Integer_not a) = - Integer_val a - 1"
proof -
  let ?n = "length (ibits a)"
  have "map js_not (ibits a) = map (\<lambda>i. js_not (Integer_getBits a (int i))) [0..<?n]"
    by (rule nth_equalityI) (auto simp: Integer_getBits_def)
  also have "\<dots> = pieces ?n (NOT (Integer_val a))"
    by (rule map_pieces) (simp add: getBits_eq[OF assms] js_not_word div_bitop)
  finally show ?thesis
    using new_pieces[of "NOT (isign a)" "NOT (Integer_val a)" ?n] js_sign_ops(4)[of "isign a"]
      Integer_wf_sign[OF assms] val_top[OF assms, of ?n]
    by (simp add: Integer_not_def div_bitop) (simp add: not_int_def)
qed

lemma Integer_bitop_correct:
  assumes "Integer_wf a" "Integer_wf b"
  shows "Integer_wf (Integer_and a b) \<and> Integer_val (Integer_and a b) = (Integer_val a AND Integer_val b)"
    and "Integer_wf (Integer_or a b) \<and> Integer_val (Integer_or a b) = (Integer_val a OR Integer_val b)"
    and "Integer_wf (Integer_xor a b) \<and> Integer_val (Integer_xor a b) = (Integer_val a XOR Integer_val b)"
proof -
  let ?n = "max (length (ibits a)) (length (ibits b))"
  note top = val_top[OF assms(1), of ?n] val_top[OF assms(2), of ?n]
  note ops = js_sign_ops(1-3)[OF Integer_wf_sign[OF assms(1)] Integer_wf_sign[OF assms(2)]]
  note word = getBits_eq[OF assms(1)] getBits_eq[OF assms(2)] js_bitops_word div_bitop
  show "Integer_wf (Integer_and a b) \<and> Integer_val (Integer_and a b) = (Integer_val a AND Integer_val b)"
    unfolding Integer_and_def Let_def using ops top
    by (intro new_pieces[where n = ?n] map_pieces) (simp_all add: word)
  show "Integer_wf (Integer_or a b) \<and> Integer_val (Integer_or a b) = (Integer_val a OR Integer_val b)"
    unfolding Integer_or_def Let_def using ops top
    by (intro new_pieces[where n = ?n] map_pieces) (simp_all add: word)
  show "Integer_wf (Integer_xor a b) \<and> Integer_val (Integer_xor a b) = (Integer_val a XOR Integer_val b)"
    unfolding Integer_xor_def Let_def using ops top
    by (intro new_pieces[where n = ?n] map_pieces) (simp_all add: word)
qed

lemma div_small: "0 \<le> S \<Longrightarrow> S < 8589934593 \<Longrightarrow> 0 \<le> S div 65536 \<and> S div 65536 < 4294967296" for S :: int
  by auto

lemma to_int32_add3: "to_int32 (to_int32 u + to_int32 v + c) = to_int32 (u + v + c)"
  by (intro to_int32_cong mod_add_cong) simp_all

lemma add_word:
  fixes c u v :: int
  assumes "0 \<le> c" "c \<le> 1"
  defines "c0 \<equiv> c + js_and u 65535 + js_and v 65535"
  defines "c1 \<equiv> js_shru c0 16 + js_shru u 16 + js_shru v 16"
  shows "js_shru c1 16 = (u mod 4294967296 + v mod 4294967296 + c) div 4294967296"
    and "js_or (js_shl (js_and c1 65535) 16) (js_and c0 65535) = to_int32 (u + v + c)"
proof -
  let ?U = "u mod 4294967296" and ?V = "v mod 4294967296"
  let ?S = "?U + ?V + c"
  have low: "js_and u 65535 = ?U mod 65536" "js_and v 65535 = ?V mod 65536"
    by (simp_all add: js_and_ffff mod_mod_cancel)
  have hi: "js_shru u 16 = ?U div 65536" "js_shru v 16 = ?V div 65536"
    by (simp_all add: js_shru_eq)
  have "0 \<le> c0" "c0 < 131073"
    using assms(1,2) pos_mod_bound[of 65536 ?U] pos_mod_bound[of 65536 ?V] pos_mod_sign[of 65536 ?U]
      pos_mod_sign[of 65536 ?V] unfolding c0_def low by linarith+
  then have sh0: "js_shru c0 16 = c0 div 65536" by (simp add: js_shru_eq)
  have c1: "c1 = ?S div 65536" and c0: "c0 mod 65536 = ?S mod 65536"
    unfolding c1_def hi sh0 unfolding c0_def low using div_add3[of 65536 ?U ?V c] mod_add3[of c ?U 65536 ?V]
    by (simp_all only: add.commute add.left_commute add.assoc zero_neq_numeral not_False_eq_True)
  have "0 \<le> ?S" "?S < 8589934593"
    using assms(1,2) pos_mod_bound[of 4294967296 u] pos_mod_bound[of 4294967296 v]
      pos_mod_sign[of 4294967296 u] pos_mod_sign[of 4294967296 v] by linarith+
  then have "0 \<le> c1" "c1 < 4294967296" unfolding c1 using div_small by blast+
  then show "js_shru c1 16 = ?S div 4294967296"
    unfolding c1 by (simp add: js_shru_eq zdiv_zmult2_eq[symmetric])
  have "(c1 mod 65536) * 65536 + c0 mod 65536 = ?S mod 4294967296"
    using zmod_zmult2_eq[of 65536 ?S 65536] unfolding c1 c0 by simp
  then have "js_or (js_shl (js_and c1 65535) 16) (js_and c0 65535) = to_int32 (?S mod 4294967296)"
    by (simp add: js_or_shl js_and_ffff)
  also have "\<dots> = to_int32 (u + v + c)"
    unfolding to_int32_of_mod by (intro to_int32_cong mod_add_cong refl) simp_all
  finally show "js_or (js_shl (js_and c1 65535) 16) (js_and c0 65535) = to_int32 (u + v + c)" .
qed

lemma Integer_add_loop_eq:
  assumes "Integer_wf a" "Integer_wf b" "0 \<le> carry" "carry \<le> 1"
  shows "Integer_add_loop a b i n carry
    = pieces n (Integer_val a div 4294967296 ^ i + Integer_val b div 4294967296 ^ i + carry)"
  using assms(3,4)
proof (induction n arbitrary: i carry)
  case 0
  then show ?case by simp
next
  case (Suc n)
  let ?u = "Integer_val a div 4294967296 ^ i" and ?v = "Integer_val b div 4294967296 ^ i"
  let ?c = "(?u mod 4294967296 + ?v mod 4294967296 + carry) div 4294967296"
  have "0 \<le> ?c" "?c \<le> 1"
    using Suc.prems pos_mod_bound[of 4294967296 ?u] pos_mod_bound[of 4294967296 ?v] by auto
  then have "Integer_add_loop a b (Suc i) n ?c
      = pieces n (?u div 4294967296 + ?v div 4294967296 + ?c)"
    using Suc.IH[of ?c "Suc i"] by (simp add: zdiv_zmult2_eq[symmetric] mult.commute)
  also have "?u div 4294967296 + ?v div 4294967296 + ?c = (?u + ?v + carry) div 4294967296"
    by (rule div_add3[symmetric]) simp
  finally show ?case
    using add_word[OF Suc.prems, of "to_int32 ?u" "to_int32 ?v"]
    by (simp add: Let_def getBits_eq[OF assms(1)] getBits_eq[OF assms(2)] to_int32_add3)
qed

lemma sign_bit_test: "is_int32 h \<Longrightarrow> js_and h (js_shl 1 31) \<noteq> 0 \<longleftrightarrow> h < 0"
proof -
  assume h: "is_int32 h"
  have "js_shl 1 31 = - 2147483648" by (simp add: js_shl_def to_int32_def)
  then have "js_and h (js_shl 1 31) = h div 2147483648 * 2147483648"
    using h and_high_mask[of h 31] by (simp add: js_and_def is_int32_def)
  then show ?thesis using h by (auto simp: is_int32_def)
qed

lemma Integer_fromBits_correct:
  assumes "- (2147483648 * 4294967296 ^ n) \<le> x" "x < 2147483648 * 4294967296 ^ n"
  shows "Integer_wf (Integer_fromBits (pieces (Suc n) x)) \<and> Integer_val (Integer_fromBits (pieces (Suc n) x)) = x"
proof -
  let ?h = "x div 4294967296 ^ n"
  have h: "- 2147483648 \<le> ?h \<and> ?h < 2147483648"
    using assms by (intro zdiv_range) auto
  then have i: "is_int32 ?h" by (simp add: is_int32_def)
  have neg: "?h < 0 \<longleftrightarrow> x < 0" by (rule pos_imp_zdiv_neg_iff) simp
  have "last (pieces (Suc n) x) = ?h" using i by (simp add: pieces_def)
  then have "Integer_fromBits (pieces (Suc n) x) = new_Integer (pieces (Suc n) x) (if x < 0 then - 1 else 0)"
    using sign_bit_test[OF i] neg by (simp add: Integer_fromBits_def Let_def)
  moreover have "x div 4294967296 ^ Suc n = (if x < 0 then - 1 else 0)"
    using int32_div[OF i] neg by (simp add: zdiv_zmult2_eq mult.commute[of 4294967296])
  ultimately show ?thesis using new_pieces[of "if x < 0 then - 1 else 0" x "Suc n"] by (simp add: is_sign_def)
qed

lemma sign_div_range:
  fixes x :: int
  assumes "0 < M" "x div M = 0 \<or> x div M = - 1"
  shows "- M \<le> x \<and> x < M"
proof -
  have "x = x mod M \<or> x = x mod M - M"
    using assms(2) div_mult_mod_eq[of x M] by (elim disjE) simp_all
  then show ?thesis
    using pos_mod_bound[OF assms(1), of x] pos_mod_sign[OF assms(1), of x] assms(1)
    by (elim disjE) (intro conjI; linarith)+
qed

lemma val_range:
  assumes "Integer_wf a" "length (ibits a) \<le> n"
  shows "- (4294967296 ^ n) \<le> Integer_val a \<and> Integer_val a < 4294967296 ^ n"
  using val_top[OF assms] assms(1)
  by (intro sign_div_range) (auto simp: Integer_wf_def is_sign_def)

lemma Integer_add_correct:
  assumes "Integer_wf a" "Integer_wf b"
  shows "Integer_wf (Integer_add a b) \<and> Integer_val (Integer_add a b) = Integer_val a + Integer_val b"
proof -
  let ?n = "max (length (ibits a)) (length (ibits b))"
  have "- (2147483648 * 4294967296 ^ ?n) \<le> Integer_val a + Integer_val b"
    "Integer_val a + Integer_val b < 2147483648 * 4294967296 ^ ?n"
    using val_range[OF assms(1), of ?n] val_range[OF assms(2), of ?n] by auto
  then show ?thesis
    using Integer_add_loop_eq[OF assms, of 0 0 "Suc ?n"]
      Integer_fromBits_correct[of ?n "Integer_val a + Integer_val b"]
    by (simp add: Integer_add_def Let_def)
qed

lemma Integer_ZERO_eq: "Integer_ZERO = \<lparr>ibits = [], isign = 0\<rparr>"
  by (simp add: Integer_ZERO_def Integer_fromInt_def new_Integer_def is_int32_def)

lemma Integer_ONE_eq: "Integer_ONE = \<lparr>ibits = [1], isign = 0\<rparr>"
  by (simp add: Integer_ONE_def Integer_fromInt_def new_Integer_def is_int32_def)

lemma Integer_consts:
  "Integer_wf Integer_ZERO" "Integer_val Integer_ZERO = 0"
  "Integer_wf Integer_ONE" "Integer_val Integer_ONE = 1"
  by (simp_all add: Integer_ZERO_eq Integer_ONE_eq Integer_wf_def Integer_val_def is_sign_def is_int32_def)

lemma Integer_fromInt_correct:
  "is_int32 x \<Longrightarrow> Integer_wf (Integer_fromInt x) \<and> Integer_val (Integer_fromInt x) = x"
  using new_pieces[of "if x < 0 then - 1 else 0" x 1 "[to_int32 x]"] int32_div[of x]
  by (simp add: Integer_fromInt_def is_sign_def)

lemma Integer_negate_correct:
  assumes "Integer_wf a"
  shows "Integer_wf (Integer_negate a) \<and> Integer_val (Integer_negate a) = - Integer_val a"
  using Integer_not_correct[OF assms] Integer_add_correct[of "Integer_not a" Integer_ONE]
  by (simp add: Integer_negate_def Integer_consts)

lemma Integer_isNegative_iff: "Integer_wf a \<Longrightarrow> Integer_isNegative a \<longleftrightarrow> Integer_val a < 0"
  using sign_val[of a] by (simp add: Integer_isNegative_def)

lemma tc_zero: "list_all (\<lambda>b. b = 0) bs \<Longrightarrow> tc 0 bs = 0"
  by (induction bs) auto

lemma Integer_repr_unique:
  assumes "Integer_wf a" "Integer_wf b" "Integer_val a = Integer_val b"
  shows "a = b"
proof -
  have s: "isign a = isign b" using assms by (simp add: sign_val)
  have g: "Integer_getBits a (int i) = Integer_getBits b (int i)" for i
    using assms by (simp add: getBits_eq)
  have "length (ibits x) \<le> length (ibits y)"
    if "Integer_wf x" "isign x = isign y" "\<And>i. Integer_getBits x (int i) = Integer_getBits y (int i)" for x y
  proof (rule ccontr)
    assume n: "\<not> length (ibits x) \<le> length (ibits y)"
    then obtain k where k: "length (ibits x) = Suc k" by (cases "length (ibits x)") auto
    then have ne: "ibits x \<noteq> []" by auto
    have "Integer_getBits x (int k) = last (ibits x)" "Integer_getBits y (int k) = isign y"
      using n k ne by (simp_all add: Integer_getBits_def last_conv_nth)
    then show False using that ne by (auto simp: Integer_wf_def)
  qed
  then have "length (ibits a) = length (ibits b)" using assms(1,2) s g by (metis le_antisym)
  moreover have "ibits a ! i = ibits b ! i" if "i < length (ibits a)" for i
    using g[of i] that calculation by (simp add: Integer_getBits_def)
  ultimately show ?thesis using s by (simp add: list_eq_iff_nth_eq)
qed

lemma Integer_isZero_iff:
  assumes "Integer_wf a" shows "Integer_isZero a \<longleftrightarrow> Integer_val a = 0"
proof
  assume "Integer_isZero a"
  then show "Integer_val a = 0" by (simp add: Integer_isZero_def Integer_val_def tc_zero split: if_splits)
next
  assume "Integer_val a = 0"
  then have "a = Integer_ZERO" using Integer_repr_unique[OF assms, of Integer_ZERO] by (simp add: Integer_consts)
  then show "Integer_isZero a" by (simp add: Integer_ZERO_eq Integer_isZero_def)
qed

lemma Integer_equals_iff:
  assumes "Integer_wf a" "Integer_wf b" shows "Integer_equals a b \<longleftrightarrow> Integer_val a = Integer_val b"
proof
  assume e: "Integer_equals a b"
  let ?n = "max (length (ibits a)) (length (ibits b))"
  have "pieces ?n (Integer_val a) = pieces ?n (Integer_val b)" "isign a = isign b"
    using e assms by (auto simp: Integer_equals_def pieces_def getBits_eq list_all_iff Let_def split: if_splits)
  then show "Integer_val a = Integer_val b"
    using val_top[OF assms(1), of ?n] val_top[OF assms(2), of ?n] by (metis max.cobounded1 max.cobounded2 tc_pieces_exact)
next
  assume "Integer_val a = Integer_val b"
  then have "a = b" using Integer_repr_unique assms by blast
  then show "Integer_equals a b" by (simp add: Integer_equals_def list_all_iff)
qed

lemma even_word: "even (b mod 4294967296) \<longleftrightarrow> even b" for b :: int
  by (simp add: dvd_mod_iff)

lemma Integer_isOdd_iff:
  assumes "Integer_wf a" shows "Integer_isOdd a \<longleftrightarrow> odd (Integer_val a)"
proof -
  have "js_and b 1 \<noteq> 0 \<longleftrightarrow> odd b" for b using js_and_mask[of 1 b] by (simp add: odd_iff_mod_2_eq_one)
  note odd = this
  show ?thesis
  proof (cases "ibits a")
    case Nil
    then show ?thesis using Integer_wf_sign[OF assms] by (auto simp: Integer_isOdd_def Integer_val_def is_sign_def)
  next
    case (Cons b bs)
    then show ?thesis by (simp add: Integer_isOdd_def Integer_val_def odd even_word)
  qed
qed

text \<open>The contract a signed number type gives its derived operations.\<close>

locale signed_number =
  fixes wf :: "'n \<Rightarrow> bool" and val :: "'n \<Rightarrow> int"
    and add :: "'n \<Rightarrow> 'n \<Rightarrow> 'n" and negate :: "'n \<Rightarrow> 'n"
    and isNegative :: "'n \<Rightarrow> bool" and isZero :: "'n \<Rightarrow> bool"
  assumes add_val: "wf a \<Longrightarrow> wf b \<Longrightarrow> wf (add a b) \<and> val (add a b) = val a + val b"
    and negate_val: "wf a \<Longrightarrow> wf (negate a) \<and> val (negate a) = - val a"
    and isNegative_val: "wf a \<Longrightarrow> isNegative a \<longleftrightarrow> val a < 0"
    and isZero_val: "wf a \<Longrightarrow> isZero a \<longleftrightarrow> val a = 0"
begin

lemma subtract_val:
  "wf a \<Longrightarrow> wf b \<Longrightarrow> wf (add a (negate b)) \<and> val (add a (negate b)) = val a - val b"
  using add_val[of a "negate b"] negate_val[of b] by simp

lemma compare_val:
  "wf a \<Longrightarrow> wf b \<Longrightarrow>
   (if isNegative (add a (negate b)) then - 1 else if isZero (add a (negate b)) then 0 else 1)
     = sgn (val a - val b)"
  using subtract_val[of a b] isNegative_val isZero_val by (auto simp: sgn_if)

end

interpretation varint: signed_number Integer_wf Integer_val Integer_add Integer_negate
  Integer_isNegative Integer_isZero
  by unfold_locales
    (simp_all add: Integer_add_correct Integer_negate_correct Integer_isNegative_iff Integer_isZero_iff)

lemma Integer_subtract_correct:
  "Integer_wf a \<Longrightarrow> Integer_wf b \<Longrightarrow>
   Integer_wf (Integer_subtract a b) \<and> Integer_val (Integer_subtract a b) = Integer_val a - Integer_val b"
  unfolding Integer_subtract_def by (rule varint.subtract_val)

lemma Integer_compare_correct:
  "Integer_wf a \<Longrightarrow> Integer_wf b \<Longrightarrow> Integer_compare a b = sgn (Integer_val a - Integer_val b)"
  unfolding Integer_compare_def Integer_subtract_def Let_def by (rule varint.compare_val)

lemma Integer_order_correct:
  assumes "Integer_wf a" "Integer_wf b"
  shows "Integer_greaterThan a b \<longleftrightarrow> Integer_val b < Integer_val a"
    "Integer_greaterThanOrEqual a b \<longleftrightarrow> Integer_val b \<le> Integer_val a"
    "Integer_lessThan a b \<longleftrightarrow> Integer_val a < Integer_val b"
    "Integer_lessThanOrEqual a b \<longleftrightarrow> Integer_val a \<le> Integer_val b"
  by (simp_all add: Integer_greaterThan_def Integer_greaterThanOrEqual_def Integer_lessThan_def
      Integer_lessThanOrEqual_def Integer_compare_correct[OF assms] sgn_if)


section \<open>Shifts\<close>

lemma shl_to_int32 [simp]: "js_shl (to_int32 x) k = js_shl x k"
  by (simp add: js_shl_def)

lemma shru_to_int32 [simp]: "js_shru (to_int32 x) k = js_shru x k"
  by (simp add: js_shru_def)

text \<open>A shift by \<open>k\<close> inside two adjacent words.\<close>

lemma word_split: "k \<le> 32 \<Longrightarrow> (4294967296 :: int) = 2 ^ (32 - k) * 2 ^ k"
  by (simp flip: power_add)

lemma div_two_words:
  fixes w :: int
  assumes "k \<le> 32"
  shows "w div 2 ^ (32 - k) = w div 4294967296 * 2 ^ k + w mod 4294967296 div 2 ^ (32 - k)"
proof -
  have "w = w mod 4294967296 + w div 4294967296 * 2 ^ k * 2 ^ (32 - k)"
    using word_split[OF assms] div_mult_mod_eq[of w 4294967296] by (simp only: ac_simps)
  then have "w div 2 ^ (32 - k) = (w mod 4294967296 + w div 4294967296 * 2 ^ k * 2 ^ (32 - k)) div 2 ^ (32 - k)"
    by simp
  then show ?thesis by simp
qed

lemma shift_words:
  fixes w :: int
  assumes "0 < k" "k < 32"
  shows "js_or (js_shl (w div 4294967296) k) (js_shru w (32 - k)) = to_int32 (w div 2 ^ (32 - k))"
    and "js_or (js_shru w k) (js_shl (w div 4294967296) (32 - k)) = to_int32 (w div 2 ^ k)"
proof -
  have nn: "0 \<le> w mod 4294967296 div 2 ^ j" for j by (simp add: pos_imp_zdiv_nonneg_iff)
  have W: "(2 :: int) ^ k * 2 ^ (32 - k) = 4294967296" "(2 :: int) ^ (32 - k) * 2 ^ k = 4294967296"
    using assms word_split[of k] by (simp_all add: mult.commute)
  have "w mod 4294967296 < 4294967296" by (rule pos_mod_bound) simp
  then have b: "w mod 4294967296 div 2 ^ (32 - k) < 2 ^ k" "w mod 4294967296 div 2 ^ k < 2 ^ (32 - k)"
    using W by (auto intro!: zdiv_less simp only: zero_less_power zero_less_numeral)
  show "js_or (js_shl (w div 4294967296) k) (js_shru w (32 - k)) = to_int32 (w div 2 ^ (32 - k))"
    unfolding div_two_words[OF less_imp_le[OF assms(2)], of w]
    using assms b nn by (simp add: js_shru_eq js_or_shl)
  have "js_or (js_shru w k) (js_shl (w div 4294967296) (32 - k))
      = js_or (js_shl (w div 4294967296) (32 - k)) (js_shru w k)" by (simp add: js_or_def or.commute)
  then show "js_or (js_shru w k) (js_shl (w div 4294967296) (32 - k)) = to_int32 (w div 2 ^ k)"
    using assms b nn div_two_words[of "32 - k" w] by (simp add: js_shru_eq js_or_shl)
qed

lemma js_or_zero [simp]: "js_or 0 y = to_int32 y"
  by (simp add: js_or_eq)

lemma sign_div: "is_sign s \<Longrightarrow> s div 2 ^ k = s"
  by (auto simp: is_sign_def div_eq_minus1)

lemma div_words: "x div 4294967296 ^ (i + j) = x div 4294967296 ^ i div 4294967296 ^ j" for x :: int
  by (simp add: power_add zdiv_zmult2_eq)

lemma mult_div_words: "0 < k \<Longrightarrow> k < 32 \<Longrightarrow> x * 2 ^ k div (4294967296 ^ j * 4294967296) = x div 4294967296 ^ j div 2 ^ (32 - k)"
  for x :: int
proof -
  assume "0 < k" "k < 32"
  then have "(4294967296 :: int) ^ j * 4294967296 = (4294967296 ^ j * 2 ^ (32 - k)) * 2 ^ k"
    using word_split[of k] by simp
  then have "x * 2 ^ k div (4294967296 ^ j * 4294967296) = x div (4294967296 ^ j * 2 ^ (32 - k))"
    by (simp only: div_mult_mult2 power_not_zero zero_neq_numeral[symmetric] not_False_eq_True)
  then show ?thesis by (simp add: zdiv_zmult2_eq)
qed

lemma shiftLeft_piece:
  assumes wf: "Integer_wf a" and k: "k < 32"
  shows "(if k > 0 then js_or (js_shl (Integer_getBits a (int i - int d)) k)
             (js_shru (Integer_getBits a (int i - int d - 1)) (32 - k))
          else Integer_getBits a (int i - int d))
    = to_int32 (Integer_val a * 2 ^ (32 * d + k) div 4294967296 ^ i)"
proof (cases "i < d")
  case True
  then obtain e where d: "d = i + Suc e" using less_imp_Suc_add by auto
  have "Integer_val a * 2 ^ (32 * d + k) = (Integer_val a * 2 ^ k * 4294967296 ^ e * 4294967296) * 4294967296 ^ i"
    by (simp add: d power_add power_mult)
  then have "Integer_val a * 2 ^ (32 * d + k) div 4294967296 ^ i = Integer_val a * 2 ^ k * 4294967296 ^ e * 4294967296"
    by (simp only: nonzero_mult_div_cancel_right power_not_zero zero_neq_numeral[symmetric] not_False_eq_True)
  then have "to_int32 (Integer_val a * 2 ^ (32 * d + k) div 4294967296 ^ i) = to_int32 0"
    by (intro to_int32_cong) simp
  moreover have "js_shl 0 k = 0" "js_shru 0 (32 - k) = 0" by (simp_all add: js_shl_def js_shru_def to_uint32_def is_int32_def)
  ultimately show ?thesis using True by (simp add: is_int32_def)
next
  case False
  then obtain j where i: "i = d + j" using le_Suc_ex not_less by blast
  have e: "Integer_val a * 2 ^ (32 * d + k) div 4294967296 ^ i = Integer_val a * 2 ^ k div 4294967296 ^ j"
    by (simp add: i power_add power_mult)
  show ?thesis
  proof (cases j)
    case 0
    have "js_shru 0 (32 - k) = 0" by (simp add: js_shru_def to_uint32_def)
    then show ?thesis unfolding e using k getBits_eq[OF wf, of 0] by (simp add: 0 i js_shl_eq)
  next
    case (Suc m)
    have "Integer_getBits a (int i - int d - 1) = to_int32 (Integer_val a div 4294967296 ^ m)"
      using getBits_eq[OF wf, of m] by (simp add: i Suc)
    moreover have "Integer_getBits a (int i - int d) = to_int32 (Integer_val a div 4294967296 ^ m div 4294967296)"
      using getBits_eq[OF wf, of j] by (simp add: i Suc zdiv_zmult2_eq[symmetric] mult.commute)
    ultimately show ?thesis unfolding e using k shift_words(1)[of k] mult_div_words[of k _ m]
      by (cases "k = 0") (simp_all add: Suc mult.commute[of 4294967296] zdiv_zmult2_eq)
  qed
qed

lemma Integer_shiftLeft_correct:
  assumes wf: "Integer_wf a"
  shows "Integer_wf (Integer_shiftLeft a n) \<and> Integer_val (Integer_shiftLeft a n) = Integer_val a * 2 ^ n"
proof -
  let ?d = "n div 32" and ?k = "n mod 32"
  let ?L = "length (ibits a)"
  have n: "n = 32 * ?d + ?k" by simp
  have s: "is_sign (isign a)" by (rule Integer_wf_sign[OF wf])
  have "Integer_val a * 2 ^ (32 * ?d + ?k) div 4294967296 ^ (?L + ?d + (if ?k > 0 then 1 else 0)) = isign a"
  proof (cases "?k = 0")
    case True
    then show ?thesis using val_top[OF wf, of ?L] by (simp add: power_add power_mult)
  next
    case False
    have "(2 :: int) ^ (32 * ?d + ?k) = 2 ^ ?k * 4294967296 ^ ?d"
      unfolding power_add power_mult by simp
    then have "Integer_val a * 2 ^ (32 * ?d + ?k) div 4294967296 ^ (?L + ?d + (if ?k > 0 then 1 else 0))
        = Integer_val a * 2 ^ ?k * 4294967296 ^ ?d div (4294967296 ^ ?L * 4294967296 * 4294967296 ^ ?d)"
      using False by (simp only: power_add if_True power_one_right mult.assoc mult.left_commute) (simp add: ac_simps)
    also have "\<dots> = Integer_val a * 2 ^ ?k div (4294967296 ^ ?L * 4294967296)" by simp
    also have "\<dots> = isign a"
      using False mult_div_words[of ?k "Integer_val a" ?L] val_top[OF wf, of ?L] sign_div[OF s] by simp
    finally show ?thesis .
  qed
  then show ?thesis
    using new_pieces[OF s _ map_pieces] shiftLeft_piece[OF wf, of ?k _ ?d]
    unfolding Integer_shiftLeft_def Let_def by (simp only: mod_less_divisor zero_less_numeral n[symmetric])
qed

lemma Integer_shiftRight_correct:
  assumes wf: "Integer_wf a"
  shows "Integer_wf (Integer_shiftRight a n) \<and> Integer_val (Integer_shiftRight a n) = Integer_val a div 2 ^ n"
proof -
  let ?d = "n div 32" and ?k = "n mod 32"
  let ?L = "length (ibits a)"
  have s: "is_sign (isign a)" by (rule Integer_wf_sign[OF wf])
  have "(2 :: int) ^ n = 4294967296 ^ ?d * 2 ^ ?k"
    using power_add[of "2 :: int" "32 * ?d" ?k] power_mult[of "2 :: int" 32 ?d] by simp
  then have n: "Integer_val a div 2 ^ n div 4294967296 ^ i = Integer_val a div 4294967296 ^ (i + ?d) div 2 ^ ?k" for i
    by (simp add: zdiv_zmult2_eq[symmetric] power_add ac_simps)
  have g: "Integer_getBits a (int i + int ?d) = to_int32 (Integer_val a div 4294967296 ^ (i + ?d))"
    "Integer_getBits a (int i + int ?d + 1) = to_int32 (Integer_val a div 4294967296 ^ (i + ?d) div 4294967296)" for i
    using getBits_eq[OF wf, of "i + ?d"] getBits_eq[OF wf, of "i + ?d + 1"]
    by (simp_all add: zdiv_zmult2_eq[symmetric] mult.commute add.commute)
  have "Integer_val a div 2 ^ n div 4294967296 ^ (?L - ?d) = isign a"
    unfolding n using val_top[OF wf, of "?L - ?d + ?d"] sign_div[OF s] by simp
  then show ?thesis unfolding Integer_shiftRight_def Let_def
    by (intro new_pieces[where n = "?L - ?d"] s map_pieces) (simp_all add: g n shift_words)
qed

lemma Integer_abs_correct:
  "Integer_wf a \<Longrightarrow> Integer_wf (Integer_abs a) \<and> Integer_val (Integer_abs a) = \<bar>Integer_val a\<bar>"
  using Integer_negate_correct[of a] sign_val[of a] by (auto simp: Integer_abs_def)

section \<open>The operations as operations on numbers\<close>

text \<open>C32: Addition, subtraction, negation and absolute value of \<open>Integer\<close> keep the representation
  invariant and compute the exact result, of any size: no piece of the carry chain is lost.\<close>

theorem Integer_arith_exact:
  assumes "Integer_wf a" "Integer_wf b"
  shows "(Integer_wf (Integer_add a b) \<and> Integer_val (Integer_add a b) = Integer_val a + Integer_val b)
    \<and> (Integer_wf (Integer_subtract a b) \<and> Integer_val (Integer_subtract a b) = Integer_val a - Integer_val b)
    \<and> (Integer_wf (Integer_negate a) \<and> Integer_val (Integer_negate a) = - Integer_val a)
    \<and> (Integer_wf (Integer_abs a) \<and> Integer_val (Integer_abs a) = \<bar>Integer_val a\<bar>)"
  using assms by (simp_all add: Integer_add_correct Integer_subtract_correct Integer_negate_correct Integer_abs_correct)

lemma sample_Integers:
  "Integer_wf \<lparr>ibits = [- 1], isign = 0\<rparr>" "Integer_val \<lparr>ibits = [- 1], isign = 0\<rparr> = 4294967295"
  "Integer_wf \<lparr>ibits = [- 2], isign = - 1\<rparr>" "Integer_val \<lparr>ibits = [- 2], isign = - 1\<rparr> = - 2"
  by (simp_all add: Integer_wf_def Integer_val_def is_sign_def is_int32_def)

theorem Integer_arith_exact_witness:
  "Integer_val (Integer_add \<lparr>ibits = [- 1], isign = 0\<rparr> \<lparr>ibits = [- 2], isign = - 1\<rparr>) = 4294967293"
  using Integer_arith_exact[OF sample_Integers(1,3)] by (simp add: sample_Integers)

text \<open>The bitwise operations and the shifts of \<open>Integer\<close> are those of the infinite two's complement:
  \<open>shiftLeft\<close> multiplies by a power of two and \<open>shiftRight\<close> divides by it rounding down, for every
  shift count and operand of either sign.\<close>

theorem Integer_bits_exact:
  assumes "Integer_wf a" "Integer_wf b"
  shows "(Integer_val (Integer_not a) = NOT (Integer_val a))
    \<and> (Integer_val (Integer_and a b) = (Integer_val a AND Integer_val b))
    \<and> (Integer_val (Integer_or a b) = (Integer_val a OR Integer_val b))
    \<and> (Integer_val (Integer_xor a b) = (Integer_val a XOR Integer_val b))
    \<and> (Integer_val (Integer_shiftLeft a n) = Integer_val a * 2 ^ n)
    \<and> (Integer_val (Integer_shiftRight a n) = Integer_val a div 2 ^ n)"
  using assms
  by (simp_all add: Integer_not_correct Integer_bitop_correct Integer_shiftLeft_correct
      Integer_shiftRight_correct not_int_def)

theorem Integer_bits_exact_witness:
  "Integer_val (Integer_shiftRight \<lparr>ibits = [- 2], isign = - 1\<rparr> 40) = - 1"
  using Integer_bits_exact[OF sample_Integers(3,1), of 40] by (simp add: sample_Integers)

text \<open>\<open>equals\<close>, \<open>compare\<close> and the four order tests of \<open>Integer\<close> are equality and order of the
  numbers; equal numbers have the identical representation.\<close>

theorem Integer_order_exact:
  assumes "Integer_wf a" "Integer_wf b"
  shows "(Integer_equals a b \<longleftrightarrow> Integer_val a = Integer_val b)
    \<and> (Integer_equals a b \<longleftrightarrow> a = b)
    \<and> (Integer_compare a b = sgn (Integer_val a - Integer_val b))
    \<and> (Integer_lessThan a b \<longleftrightarrow> Integer_val a < Integer_val b)
    \<and> (Integer_lessThanOrEqual a b \<longleftrightarrow> Integer_val a \<le> Integer_val b)
    \<and> (Integer_greaterThan a b \<longleftrightarrow> Integer_val b < Integer_val a)
    \<and> (Integer_greaterThanOrEqual a b \<longleftrightarrow> Integer_val b \<le> Integer_val a)"
  using assms Integer_repr_unique[OF assms]
  by (auto simp: Integer_equals_iff Integer_compare_correct Integer_order_correct)

theorem Integer_order_exact_witness:
  "Integer_lessThan \<lparr>ibits = [- 2], isign = - 1\<rparr> \<lparr>ibits = [- 1], isign = 0\<rparr>"
  using Integer_order_exact[OF sample_Integers(3,1)] by (simp add: sample_Integers)

end
