(* ===== verification/Big_Integer_Bytes.thy ===== *)
theory Big_Integer_Bytes
  imports Big_Integer_Correct
begin

text \<open>
  \<open>Integer.fromBuffer\<close> and \<open>Integer.toBuffer\<close>, the wire form of \<open>varint\<close>: the signed value of a
  big-endian run of bytes (\<open>be_sval\<close>), that reading any run gives an integer of that value, that
  writing an integer gives its two's complement in the fewest bytes, and the round trip.
\<close>

unbundle bit_operations_syntax

section \<open>The signed value of a run of bytes\<close>

definition be_sval :: "buffer \<Rightarrow> int" where
  "be_sval b = be_val b - (if b \<noteq> [] \<and> 128 \<le> uint (hd b) then 256 ^ length b else 0)"

lemma uint_byte_le [simp]: "uint (w :: byte) \<le> 255"
  using uint_byte_lt[of w] by linarith

lemma byte_int32 [simp]: "is_int32 (uint (w :: byte))"
  unfolding is_int32_def using uint_byte_le[of w] uint_ge_0[of w] by linarith

lemma compl_div_mod:
  fixes x m :: int
  assumes "0 < m"
  shows "(- x - 1) div m = - (x div m) - 1" "(- x - 1) mod m = m - 1 - x mod m"
proof -
  have e: "- x - 1 = m * (- (x div m) - 1) + (m - 1 - x mod m)"
    using mult_div_mod_eq[of m x] by (simp add: algebra_simps)
  have r: "0 \<le> m - 1 - x mod m" "m - 1 - x mod m < m"
    using pos_mod_bound[OF assms, of x] pos_mod_sign[OF assms, of x] by linarith+
  show "(- x - 1) div m = - (x div m) - 1" by (rule int_div_pos_eq[OF e r])
  show "(- x - 1) mod m = m - 1 - x mod m" by (rule int_mod_pos_eq[OF e r])
qed

lemma byte_mod [simp]: "uint (w :: byte) mod 256 = uint w"
  by (simp add: mod_pos_pos_trivial)

lemma uint_compl: "uint (NOT w) = 255 - uint w" for w :: byte
  using compl_div_mod(2)[of 256 "uint w"] by (simp add: unsigned_not_eq take_bit_eq_mod not_int_def)

lemma be_val_compl: "be_val (map NOT b) = 256 ^ length b - 1 - be_val b"
proof (induction b rule: rev_induct)
  case Nil
  then show ?case by simp
next
  case (snoc w b)
  then show ?case using uint_compl[of w] by (simp add: algebra_simps)
qed

lemma js_or_field:
  assumes "0 \<le> X" "X < 256 ^ m" "0 \<le> y" "y < 256" "m + n \<le> 2"
  shows "js_or (X * 256 ^ Suc n) (js_shl y (n * 8)) = (X * 256 + y) * 256 ^ n"
proof -
  have p: "(256 :: int) ^ n = 2 ^ (n * 8)" using power_mult[of "2 :: int" 8 n] by (simp add: mult.commute)
  have y: "y * 2 ^ (n * 8) < 2 ^ (Suc n * 8)" using assms(4) by (simp add: power_add)
  have "X * 256 + y < 256 ^ Suc m" using assms(2,4) by simp
  then have "(X * 256 + y) * 256 ^ n < 256 ^ Suc m * 256 ^ n" by simp
  also have "\<dots> \<le> 256 ^ 3" using assms(5) by (simp only: power_add[symmetric]) (rule power_increasing, auto)
  finally have u: "(X * 256 + y) * 256 ^ n < 256 ^ 3" .
  have "0 \<le> (X * 256 + y) * 256 ^ n" using assms(1,3) by simp
  then have r: "is_int32 ((X * 256 + y) * 256 ^ n)" using u by (simp add: is_int32_def)
  have "js_or (X * 256 ^ Suc n) (js_shl y (n * 8)) = to_int32 (X * 2 ^ (Suc n * 8) OR y * 2 ^ (n * 8))"
    using assms(5) by (simp add: js_or_def js_shl_eq p power_add flip: js_or_eq) 
  also have "\<dots> = to_int32 (X * 2 ^ (Suc n * 8) + y * 2 ^ (n * 8))"
    using y assms(3) by (simp only: or_shifted_add mult_nonneg_nonneg zero_le_power zero_le_numeral)
  also have "X * 2 ^ (Suc n * 8) + y * 2 ^ (n * 8) = (X * 256 + y) * 256 ^ n"
    by (simp add: p power_add algebra_simps)
  finally show ?thesis using r by simp
qed

lemma not_byte: "js_and (js_not (uint w)) 255 = uint (NOT w)" for w :: byte
  using compl_div_mod(2)[of 256 "uint w"] by (simp add: uint_compl js_arith)

lemma fromBuffer_head_eq:
  "n \<le> offset \<Longrightarrow> offset \<le> 3 \<Longrightarrow> offset \<le> length buf \<Longrightarrow> 0 \<le> X \<Longrightarrow> X < 256 ^ (offset - n) \<Longrightarrow>
   Integer_fromBuffer_head buf sign offset n (X * 256 ^ n)
     = X * 256 ^ n + be_val (map (if sign = - 1 then NOT else id) (take n (drop (offset - n) buf)))"
proof (induction n arbitrary: X)
  case 0
  then show ?case by simp
next
  case (Suc n)
  let ?j = "offset - Suc n"
  let ?w = "(if sign = - 1 then NOT else id) (buf ! ?j)"
  have "js_or (X * 256 ^ Suc n) (js_shl (uint ?w) (n * 8)) = (X * 256 + uint ?w) * 256 ^ n"
    using Suc.prems by (intro js_or_field[where m = ?j]) auto
  then have "Integer_fromBuffer_head buf sign offset (Suc n) (X * 256 ^ Suc n)
    = Integer_fromBuffer_head buf sign offset n ((X * 256 + uint ?w) * 256 ^ n)"
    by (cases "sign = - 1") (simp_all add: Let_def not_byte)
  also have "\<dots> = (X * 256 + uint ?w) * 256 ^ n + be_val (map (if sign = - 1 then NOT else id) (take n (drop (offset - n) buf)))"
  proof (rule Suc.IH)
    have "offset - n = Suc ?j" using Suc.prems by simp
    moreover have "x < N \<Longrightarrow> x * 256 + uint w < 256 * N" for x N and w :: byte using uint_byte_lt[of w] by linarith
    ultimately show "X * 256 + uint ?w < 256 ^ (offset - n)" using Suc.prems(5) by simp
  qed (use Suc.prems in auto)
  finally have h: "Integer_fromBuffer_head buf sign offset (Suc n) (X * 256 ^ Suc n) = \<dots>" .
  have t: "take (Suc n) (drop ?j buf) = buf ! ?j # take n (drop (offset - n) buf)"
    using Suc.prems by (simp add: Cons_nth_drop_Suc[symmetric] Suc_diff_Suc)
  have "length (take n (drop (offset - n) buf)) = n" using Suc.prems by auto
  then show ?case unfolding h t by (simp add: be_val_Cons algebra_simps)
qed

lemma js_sign_bit: "js_and (uint (w :: byte)) (js_shl 1 7) \<noteq> 0 \<longleftrightarrow> 128 \<le> uint w"
proof -
  have "js_shl 1 7 = 128" "to_int32 128 = 128" by (simp_all add: js_shl_def is_int32_def)
  then have "js_and (uint w) (js_shl 1 7) = uint w AND 2 ^ 7"
    by (simp add: js_and_def)
  then have "js_and (uint w) (js_shl 1 7) \<noteq> 0 \<longleftrightarrow> odd (uint w div 128)"
    using and_exp_eq_0_iff_not_bit[of "uint w" 7] bit_iff_odd[of "uint w" 7] by simp
  moreover have "uint w div 128 = (if 128 \<le> uint w then 1 else 0)"
    using uint_byte_lt[of w] zdiv_less[of 128 "uint w" 2] zdiv_ge[of 128 1 "uint w"] by auto
  ultimately show ?thesis by simp
qed

text \<open>The signed value splits at any piece boundary.\<close>

lemma be_sval_range: "b \<noteq> [] \<Longrightarrow> - (128 * 256 ^ (length b - 1)) \<le> be_sval b \<and> be_sval b < 128 * 256 ^ (length b - 1)"
proof (cases b)
  case (Cons w r)
  let ?M = "256 ^ length r :: int"
  have "uint w * ?M \<le> 255 * ?M" by (intro mult_right_mono) auto
  moreover have "128 * ?M \<le> uint w * ?M" if "128 \<le> uint w" using that by (intro mult_right_mono) auto
  moreover have "uint w * ?M \<le> 127 * ?M" if "\<not> 128 \<le> uint w" using that by (intro mult_right_mono) auto
  moreover have "0 \<le> uint w * ?M" by simp
  moreover have "0 \<le> be_val r" "be_val r < ?M" using be_val_range[of r] by auto
  moreover have "be_sval b = uint w * ?M + be_val r - (if 128 \<le> uint w then 256 * ?M else 0)"
    by (simp add: be_sval_def be_val_Cons Cons)
  ultimately have "- (128 * ?M) \<le> be_sval b \<and> be_sval b < 128 * ?M"
    by (smt (verit, best))
  then show ?thesis by (simp add: Cons)
qed simp

lemma be_sval_append: "p \<noteq> [] \<Longrightarrow> be_sval (p @ r) = be_sval p * 256 ^ length r + be_val r"
  by (simp add: be_sval_def be_val_append power_add algebra_simps)

lemma be_sval_div: "p \<noteq> [] \<Longrightarrow> be_sval (p @ r) div 256 ^ length r = be_sval p"
  using be_sval_append[of p r] be_val_range[of r] by simp

lemma be_sval_neg: "b \<noteq> [] \<Longrightarrow> be_sval b < 0 \<longleftrightarrow> 128 \<le> uint (hd b)"
  using be_val_range[of b] by (auto simp: be_sval_def)

lemma div_sign: "- M \<le> x \<Longrightarrow> x < M \<Longrightarrow> x div M = (if x < 0 then - 1 else 0)" for x :: int
  using zdiv_range[of 1 M x] pos_imp_zdiv_neg_iff[of M x] by (auto simp: int_one_le_iff_zero_less)

lemma word256: "(256 :: int) ^ (4 * i) = 4294967296 ^ i"
  by (simp add: power_mult)

lemma be_sval_mod: "be_sval b mod 256 ^ length b = be_val b"
  using be_val_range[of b] by (auto simp: be_sval_def)

lemma fromBuffer_piece_eq:
  assumes "i < (length b + 3) div 4" and s: "s = (if 128 \<le> uint (hd b) then - 1 else 0)"
  shows "Integer_fromBuffer_piece b s i = to_int32 (be_sval b div 4294967296 ^ i)"
proof (cases "4 * Suc i \<le> length b")
  case True
  define k where "k = length b - 4 * Suc i"
  define p q r where "p = take k b" and "q = take 4 (drop k b)" and "r = drop (k + 4) b"
  have b: "b = (p @ q) @ r" unfolding p_def q_def r_def
    by (metis append_take_drop_id drop_drop add.commute append.assoc)
  have l: "length r = 4 * i" "length q = 4" using True by (simp_all add: r_def q_def k_def)
  then have ne: "p @ q \<noteq> []" by auto
  have "be_sval b div 4294967296 ^ i = be_sval (p @ q)"
    using be_sval_div[OF ne, of r] l b word256[of i] by simp
  moreover have "be_sval (p @ q) mod 4294967296 = be_val q mod 4294967296"
  proof (cases "p = []")
    case True
    then show ?thesis using be_sval_mod[of q] l by simp
  next
    case False
    then show ?thesis using be_sval_append[of p q] l by simp
  qed
  moreover have "Integer_fromBuffer_piece b s i = to_int32 (be_val q)"
  proof -
    have "nat (int (length b) - (int i + 1) * 4) = k" "\<not> int (length b) - (int i + 1) * 4 < 0"
      using True by (simp_all add: k_def)
    then show ?thesis unfolding Integer_fromBuffer_piece_def Let_def q_def by simp
  qed
  ultimately show ?thesis by (metis to_int32_cong)
next
  case False
  define k where "k = length b - 4 * i"
  define p r where "p = take k b" and "r = drop k b"
  have l: "length r = 4 * i" "length p = k" "0 < k" "k \<le> 3" using assms False by (auto simp: p_def r_def k_def)
  have b: "b = p @ r" by (simp add: p_def r_def)
  have k: "nat (int (length b) - (int i + 1) * 4 + 4) = k" "int (length b) - (int i + 1) * 4 < 0"
    using l(3,4) by (auto simp: k_def)
  have ne: "p \<noteq> []" using l by auto
  have "be_sval b div 4294967296 ^ i = be_sval p"
    using be_sval_div[OF ne, of r] l b word256[of i] by simp
  moreover have "is_int32 (be_sval p)"
  proof -
    have "(256 :: int) ^ (k - 1) \<le> 256 ^ 2" using l by (intro power_increasing) auto
    then show ?thesis using be_sval_range[OF ne] l by (simp add: is_int32_def)
  qed
  moreover have "Integer_fromBuffer_piece b s i = be_sval p"
  proof -
    have "Integer_fromBuffer_head b s k k 0 = be_val (map (if s = - 1 then NOT else id) p)"
      using fromBuffer_head_eq[of k k b 0 s] l(3,4) by (simp add: p_def k_def)
    then have "Integer_fromBuffer_piece b s i = (let v = be_val (map (if s = - 1 then NOT else id) p) in if s = - 1 then js_not v else v)"
      unfolding Integer_fromBuffer_piece_def Let_def k(1) using k(2) by (simp only: if_True)
    also have "\<dots> = be_sval p"
    proof (cases "s = - 1")
      case True
      then have "128 \<le> uint (hd p)" using s ne unfolding b by (auto split: if_splits)
      moreover have "js_not (256 ^ k - 1 - be_val p) = be_val p - 256 ^ k"
      proof -
        have "(256 :: int) ^ k \<le> 256 ^ 3" using l by (intro power_increasing) auto
        then have "is_int32 (256 ^ k - 1 - be_val p)" using be_val_range[of p] l(2) by (auto simp: is_int32_def)
        then show ?thesis by (simp add: js_not_arith)
      qed
      ultimately show ?thesis using True ne l(2) by (simp add: be_sval_def be_val_compl)
    next
      case False
      then show ?thesis using s ne unfolding b by (auto simp: be_sval_def split: if_splits)
    qed
    finally show ?thesis .
  qed
  ultimately show ?thesis by simp
qed

lemma Integer_fromBuffer_correct:
  "Integer_wf (Integer_fromBuffer b) \<and> Integer_val (Integer_fromBuffer b) = be_sval b"
proof (cases b)
  case Nil
  then show ?thesis 
    by (simp add: Integer_fromBuffer_def buf_get_def be_sval_def new_Integer_val new_Integer_wf is_sign_def)
next
  case (Cons w r)
  define s :: int where "s = (if 128 \<le> uint (hd b) then - 1 else 0)"
  have f: "Integer_fromBuffer b = new_Integer (map (Integer_fromBuffer_piece b s) [0..<(length b + 3) div 4]) s"
    using js_sign_bit[of w] by (simp add: Integer_fromBuffer_def s_def buf_get_def Cons Let_def)
  have ne: "b \<noteq> []" using Cons by simp
  have "length b - 1 \<le> 4 * ((length b + 3) div 4) - 1" "0 < (length b + 3) div 4"
    unfolding Cons by (simp_all add: Suc_leI div_greater_zero_iff)
  then have "128 * (256 :: int) ^ (length b - 1) \<le> 128 * 256 ^ (4 * ((length b + 3) div 4) - 1)"
    by (intro mult_left_mono power_increasing) auto
  also have "\<dots> \<le> 256 ^ (4 * ((length b + 3) div 4))"
  proof -
    have "0 < 4 * ((length b + 3) div 4)" using Cons by simp
    then show ?thesis by (subst (2) power_eq_if) auto
  qed
  finally have "be_sval b div 4294967296 ^ ((length b + 3) div 4) = s"
    using be_sval_range[OF ne] be_sval_neg[OF ne] unfolding word256[symmetric] s_def
    by (subst div_sign) auto
  then show ?thesis using new_pieces[of s "be_sval b" "(length b + 3) div 4"] fromBuffer_piece_eq[of _ b s]
    unfolding f by (simp add: map_pieces s_def is_sign_def)
qed

text \<open>A signed number in \<open>n\<close> bytes.\<close>

lemma mod_sign: "- M \<le> x \<Longrightarrow> x < M \<Longrightarrow> x mod M = (if x < 0 then x + M else x)" for x :: int
  using mod_add_self2[of x M] mod_pos_pos_trivial[of "x + M" M] by auto

lemma be_sval_be_bytes:
  assumes "- (128 * 256 ^ n) \<le> x" "x < 128 * 256 ^ n"
  shows "be_sval (be_bytes (Suc n) x) = x"
proof -
  let ?t = "x div 256 ^ n"
  have t: "- 128 \<le> ?t" "?t < 128" using zdiv_range[of 128 "256 ^ n" x] assms by auto
  have neg: "?t < 0 \<longleftrightarrow> x < 0" by (rule pos_imp_zdiv_neg_iff) simp
  have "?t mod 256 = (if ?t < 0 then ?t + 256 else ?t)"
    using t by (intro mod_sign) auto
  then have "128 \<le> uint (hd (be_bytes (Suc n) x)) \<longleftrightarrow> x < 0"
    using t neg by (simp add: be_bytes_Suc del: be_bytes.simps)
  moreover have "x mod 256 ^ Suc n = (if x < 0 then x + 256 ^ Suc n else x)"
    using assms by (intro mod_sign) auto
  ultimately show ?thesis by (simp add: be_sval_def be_val_be_bytes del: be_bytes.simps) (simp add: be_bytes_Suc)
qed

lemma tc_append: "tc s (bs @ cs) = tc (tc s cs) bs"
  by (induction bs) auto

lemma tc_mod: "tc s bs mod 4294967296 ^ length bs = tc t bs mod 4294967296 ^ length bs"
proof -
  have "tc u bs = tc 0 bs + 4294967296 ^ length bs * u" for u
    by (induction bs) (simp_all add: algebra_simps)
  from this[of s] this[of t] show ?thesis by (metis mod_mult_self2)
qed

lemma concat_words: "concat (map (be_bytes 4) (rev bs)) = be_bytes (4 * length bs) (tc s bs)"
proof (induction bs)
  case Nil
  then show ?case by simp
next
  case (Cons b bs)
  have "be_bytes 4 b = be_bytes 4 (b mod 4294967296 + 4294967296 * tc s bs)"
    by (rule be_bytes_cong) simp
  then show ?case using Cons be_bytes_add[of "4 * length bs" 4 "b mod 4294967296 + 4294967296 * tc s bs"]
    by (simp add: add.commute del: be_bytes.simps)
qed

text \<open>The bytes of the top word, stripped of leading zeros and kept below the sign bit.\<close>

definition word_bytes :: "int \<Rightarrow> int list" where
  "word_bytes h =
     (let high = (if js_shru h 24 > 0 then [js_and (js_shr h 24) 0xff] else []) @
                 (if js_shru h 16 > 0 then [js_and (js_shr h 16) 0xff] else []) @
                 (if js_shru h 8 > 0 then [js_and (js_shr h 8) 0xff] else []) @
                 [js_and h 0xff]
      in if js_shr (hd high) 7 \<noteq> 0 then 0 # high else high)"

definition word_size :: "int \<Rightarrow> nat" where
  "word_size h = (if h < 128 then 0 else if h < 32768 then 1 else if h < 8388608 then 2
     else if h < 2147483648 then 3 else 4)"

lemma js_shr_byte: "k \<le> 24 \<Longrightarrow> js_and (js_shr h k) 255 = h mod 4294967296 div 2 ^ k mod 256"
proof -
  assume k: "k \<le> 24"
  define c where "c = to_int32 h div 4294967296"
  have "(4294967296 :: int) = 2 ^ k * (256 * 2 ^ (24 - k))"
    using k by (simp add: power_add[symmetric] mult.left_commute[of _ 256])
  moreover have "to_int32 h = h mod 4294967296 + 4294967296 * c"
    using div_mult_mod_eq[of "to_int32 h" 4294967296] by (simp add: c_def)
  ultimately have "to_int32 h = h mod 4294967296 + 2 ^ k * (256 * (2 ^ (24 - k) * c))"
    by (metis mult.assoc)
  then have "to_int32 h div 2 ^ k = h mod 4294967296 div 2 ^ k + 256 * (2 ^ (24 - k) * c)"
    by simp
  then show ?thesis using k by (simp add: js_and_ff js_shr_eq)
qed

lemma le_zdiv_iff: "0 < m \<Longrightarrow> c \<le> x div m \<longleftrightarrow> c * m \<le> x" for x :: int
  using zdiv_ge[of m c x] zdiv_less[of m x c] by force

lemma js_shr_7: "0 \<le> x \<Longrightarrow> x < 256 \<Longrightarrow> js_shr x 7 \<noteq> 0 \<longleftrightarrow> 128 \<le> x"
  using zdiv_ge[of 128 1 x] by (auto simp: js_shr_eq is_int32_def not_le)

lemma word_bytes_eq:
  assumes H: "H = h mod 4294967296"
  shows "word_bytes h = map uint (be_bytes (Suc (word_size H)) H)"
proof -
  have r: "0 \<le> H" "H < 4294967296" using H by auto
  have p: "0 < js_shru h 24 \<longleftrightarrow> 16777216 \<le> H" "0 < js_shru h 16 \<longleftrightarrow> 65536 \<le> H" "0 < js_shru h 8 \<longleftrightarrow> 256 \<le> H"
    using H by (simp_all add: js_shru_eq pos_imp_zdiv_pos_iff)
  have m: "js_and (js_shr h 24) 255 = H div 16777216 mod 256" "js_and (js_shr h 16) 255 = H div 65536 mod 256"
    "js_and (js_shr h 8) 255 = H div 256 mod 256" "js_and h 255 = H mod 256"
  proof -
    have e: "(16777216 :: int) = 2 ^ 24" "(65536 :: int) = 2 ^ 16" "(256 :: int) = 2 ^ 8" by simp_all
    have k: "(24 :: nat) \<le> 24" "(16 :: nat) \<le> 24" "(8 :: nat) \<le> 24" by simp_all
    show "js_and (js_shr h 24) 255 = H div 16777216 mod 256" "js_and (js_shr h 16) 255 = H div 65536 mod 256"
      "js_and (js_shr h 8) 255 = H div 256 mod 256"
      using js_shr_byte[OF k(1), of h] js_shr_byte[OF k(2), of h] js_shr_byte[OF k(3), of h] unfolding H e by blast+
    show "js_and h 255 = H mod 256" by (simp add: H js_and_ff mod_mod_cancel)
  qed
  have t: "js_shr (x mod 256) 7 \<noteq> 0 \<longleftrightarrow> 128 \<le> x mod 256" for x by (rule js_shr_7) auto
  have d: "H div 256 div 256 = H div 65536" "H div 65536 div 256 = H div 16777216" "H div 16777216 div 256 = 0"
    using r by (simp_all add: zdiv_zmult2_eq[symmetric])
  have b: "be_bytes 1 H = [to_byte H]" "be_bytes 2 H = [to_byte (H div 256), to_byte H]"
    "be_bytes 3 H = [to_byte (H div 65536), to_byte (H div 256), to_byte H]"
    "be_bytes 4 H = [to_byte (H div 16777216), to_byte (H div 65536), to_byte (H div 256), to_byte H]"
    "be_bytes 5 H = [0, to_byte (H div 16777216), to_byte (H div 65536), to_byte (H div 256), to_byte H]"
    by (simp_all add: eval_nat_numeral d) (simp add: to_byte_def)
  have small: "x < 256 * m \<Longrightarrow> 0 < m \<Longrightarrow> 0 \<le> x \<Longrightarrow> 128 \<le> x div m mod 256 \<longleftrightarrow> 128 * m \<le> x" for x m :: int
    using zdiv_less[of m x 256] le_zdiv_iff[of m 128 x] by (simp add: mod_pos_pos_trivial pos_imp_zdiv_nonneg_iff)
  consider "H < 256" | "256 \<le> H" "H < 65536" | "65536 \<le> H" "H < 16777216" | "16777216 \<le> H" by linarith
  then show ?thesis
  proof cases
    case 1
    then show ?thesis using r t[of H] b(1,2) unfolding word_bytes_def p m word_size_def
      by (simp add: d numeral_2_eq_2 del: be_bytes.simps)
  next
    case 2
    then show ?thesis using r small[of H 256] t[of "H div 256"] b(2,3) unfolding word_bytes_def p m word_size_def
      by (simp add: numeral_2_eq_2 numeral_3_eq_3 del: be_bytes.simps)
  next
    case 3
    then show ?thesis using r small[of H 65536] t[of "H div 65536"] b(3,4) unfolding word_bytes_def p m word_size_def
      by (simp del: be_bytes.simps)
  next
    case 4
    then show ?thesis using r small[of H 16777216] t[of "H div 16777216"] b(4,5) unfolding word_bytes_def p m word_size_def
      by (simp del: be_bytes.simps)
  qed
qed


lemma word_size_range:
  assumes "0 \<le> H" "H < 4294967296"
  shows "H < 128 * 256 ^ word_size H" "word_size H \<noteq> 0 \<Longrightarrow> 128 * 256 ^ (word_size H - 1) \<le> H"
  using assms by (auto simp: word_size_def split: if_splits)

lemma to_byte_js_not: "to_byte (js_not (uint w)) = NOT w"
  using to_byte_uint[of "NOT w"] compl_div_mod(2)[of 256 "uint w"]
  by (intro word_uint_eq_iff[THEN iffD2]) (simp add: js_not_arith uint_compl)

lemma map_not_be_bytes: "map NOT (be_bytes n x) = be_bytes n (- x - 1)"
proof (induction n arbitrary: x)
  case (Suc n)
  have "(- x - 1) div 256 = - (x div 256) - 1"
    by (rule compl_div_mod) simp
  moreover have "to_byte (- x - 1) = NOT (to_byte x)"
    by (simp add: to_byte_def not_eq_complement)
  ultimately show ?case using Suc by simp
qed simp

text \<open>\<open>toBuffer\<close> writes the two's complement of the value in the fewest bytes that keep its sign.\<close>

definition byte_size :: "Integer \<Rightarrow> nat" where
  "byte_size a =
     (if ibits a = [] then 0
      else word_size ((if isign a = - 1 then js_not (last (ibits a)) else last (ibits a)) mod 4294967296)
        + 4 * (length (ibits a) - 1))"

lemma toBuffer_top:
  assumes wf: "Integer_wf a" and ne: "ibits a \<noteq> []"
  obtains H where "0 < H" "H < 4294967296" "byte_size a = word_size H + 4 * (length (ibits a) - 1)"
    "Integer_val a div 256 ^ (4 * (length (ibits a) - 1)) = (if isign a = - 1 then - H - 1 else H)"
    "Integer_toBuffer a = be_bytes (Suc (word_size H)) (if isign a = - 1 then - H - 1 else H)
       @ be_bytes (4 * (length (ibits a) - 1)) (Integer_val a)"
proof -
  define s where "s = isign a"
  define l where "l = last (ibits a)"
  define h where "h = (if s = - 1 then js_not l else l)"
  define H where "H = h mod 4294967296"
  define T where "T = (if s = - 1 then - H - 1 else H)"
  have s: "s = 0 \<or> s = - 1" using Integer_wf_sign[OF wf] by (auto simp: s_def is_sign_def)
  have l: "is_int32 l" "l \<noteq> s" using wf ne by (simp_all add: Integer_wf_def l_def list_all_iff s_def)
  have v: "Integer_val a = tc (tc s [l]) (butlast (ibits a))"
    using ne tc_append[of s "butlast (ibits a)" "[l]"] by (simp only: Integer_val_def s_def l_def append_butlast_last_id[OF ne])
  have T: "tc s [l] = T"
    using s compl_div_mod(2)[of 4294967296 l] l by (auto simp: T_def H_def h_def js_not_arith)
  have top: "Integer_val a div 256 ^ (4 * (length (ibits a) - 1)) = T"
    using tc_drop[of s "length (butlast (ibits a))" "butlast (ibits a) @ [l]"] s
    unfolding v word256 T[symmetric] by (simp add: is_sign_def tc_append)
  have "Integer_toBuffer a = map (\<lambda>b. to_byte (if s = - 1 then js_not b else b)) (word_bytes h) @
     concat (map (be_bytes 4) (rev (butlast (ibits a))))"
    using ne by (simp add: Integer_toBuffer_def Let_def word_bytes_def h_def s_def l_def)
  also have "map (\<lambda>b. to_byte (if s = - 1 then js_not b else b)) (word_bytes h) = be_bytes (Suc (word_size H)) T"
    using s word_bytes_eq[OF H_def] unfolding T_def
    by (auto simp: to_byte_js_not map_not_be_bytes[symmetric] comp_def simp del: be_bytes.simps)
  also have "concat (map (be_bytes 4) (rev (butlast (ibits a)))) = be_bytes (4 * (length (ibits a) - 1)) (Integer_val a)"
    using concat_words[of "butlast (ibits a)" "tc s [l]"] unfolding v by simp
  finally have b: "Integer_toBuffer a = be_bytes (Suc (word_size H)) T @ be_bytes (4 * (length (ibits a) - 1)) (Integer_val a)" .
  have "0 < T \<or> T < - 1"
    using s l unfolding T[symmetric] is_int32_def tc.simps
    by (elim disjE) (auto simp: zmod_eq_0_iff mod_sign[of 4294967296 l])
  moreover have "0 \<le> H" by (simp add: H_def)
  ultimately have "0 < H" by (auto simp: T_def split: if_splits)
  moreover have "H < 4294967296" by (simp add: H_def)
  moreover have "byte_size a = word_size H + 4 * (length (ibits a) - 1)"
    using ne by (simp add: byte_size_def H_def h_def s_def l_def)
  ultimately show ?thesis using that top b unfolding T_def s_def by blast
qed

lemma toBuffer_eq:
  assumes wf: "Integer_wf a"
  shows "Integer_toBuffer a = be_bytes (Suc (byte_size a)) (Integer_val a)"
proof (cases "ibits a = []")
  case True
  then show ?thesis by (simp add: Integer_toBuffer_def byte_size_def Integer_val_def)
next
  case False
  show ?thesis
  proof (rule toBuffer_top[OF wf False])
    fix H
    assume H: "byte_size a = word_size H + 4 * (length (ibits a) - 1)"
      "Integer_val a div 256 ^ (4 * (length (ibits a) - 1)) = (if isign a = - 1 then - H - 1 else H)"
      "Integer_toBuffer a = be_bytes (Suc (word_size H)) (if isign a = - 1 then - H - 1 else H)
         @ be_bytes (4 * (length (ibits a) - 1)) (Integer_val a)"
    show ?thesis unfolding H(1,3) H(2)[symmetric] add_Suc[symmetric] by (rule be_bytes_add[symmetric])
  qed
qed

lemma scaled_range:
  fixes x M N :: int
  assumes "0 < M" "- N \<le> x div M" "x div M < N"
  shows "- (N * M) \<le> x" "x < N * M"
  using assms zdiv_less[of M x "- N"] zdiv_ge[of M N x] by force+

lemma scaled_outside:
  fixes x M N :: int
  assumes "0 < M" "N \<le> x div M \<or> x div M < - N"
  shows "N * M \<le> x \<or> x < - (N * M)"
  using assms zdiv_less[of M x N] zdiv_ge[of M "- N" x] by force

lemma byte_size_range:
  assumes wf: "Integer_wf a"
  shows "- (128 * 256 ^ byte_size a) \<le> Integer_val a \<and> Integer_val a < 128 * 256 ^ byte_size a"
    and "byte_size a \<noteq> 0 \<Longrightarrow>
      128 * 256 ^ (byte_size a - 1) \<le> Integer_val a \<or> Integer_val a < - (128 * 256 ^ (byte_size a - 1))"
proof -
  have "(- (128 * 256 ^ byte_size a) \<le> Integer_val a \<and> Integer_val a < 128 * 256 ^ byte_size a) \<and>
      (byte_size a \<noteq> 0 \<longrightarrow>
       128 * 256 ^ (byte_size a - 1) \<le> Integer_val a \<or> Integer_val a < - (128 * 256 ^ (byte_size a - 1)))"
  proof (cases "ibits a = []")
    case True
    then show ?thesis using Integer_wf_sign[OF wf] by (auto simp: byte_size_def Integer_val_def is_sign_def)
  next
    case False
    show ?thesis
    proof (rule toBuffer_top[OF wf False])
      fix H
      let ?k = "4 * (length (ibits a) - 1)"
      assume H: "0 < H" "H < 4294967296" "byte_size a = word_size H + ?k"
        "Integer_val a div 256 ^ ?k = (if isign a = - 1 then - H - 1 else H)"
      have "H < 128 * 256 ^ word_size H" using word_size_range(1)[of H] H by simp
      then have "- (128 * 256 ^ word_size H) \<le> Integer_val a div 256 ^ ?k" "Integer_val a div 256 ^ ?k < 128 * 256 ^ word_size H"
        using H(1,4) by (auto split: if_splits)
      from scaled_range[OF _ this] have 1: "- (128 * 256 ^ byte_size a) \<le> Integer_val a \<and> Integer_val a < 128 * 256 ^ byte_size a"
        by (simp add: H(3) power_add)
      have 2: "128 * 256 ^ (byte_size a - 1) \<le> Integer_val a \<or> Integer_val a < - (128 * 256 ^ (byte_size a - 1))"
        if "byte_size a \<noteq> 0"
      proof (cases "word_size H = 0")
        case True
        have o: "1 \<le> Integer_val a div 256 ^ ?k \<or> Integer_val a div 256 ^ ?k < - 1" using H(1,4) by auto
        from scaled_outside[OF _ o] have o: "256 ^ ?k \<le> Integer_val a \<or> Integer_val a < - (256 ^ ?k)" by simp
        have "128 * 256 ^ (byte_size a - 1) \<le> (256 :: int) ^ ?k"
          using that True H(3) by (subst (2) power_eq_if) simp_all
        then show ?thesis using o by linarith
      next
        case False
        then have "128 * 256 ^ (word_size H - 1) \<le> H" using word_size_range(2)[of H] H by simp
        then have o: "128 * 256 ^ (word_size H - 1) \<le> Integer_val a div 256 ^ ?k \<or>
            Integer_val a div 256 ^ ?k < - (128 * 256 ^ (word_size H - 1))"
          using H(1,4) by auto
        from scaled_outside[OF _ o] show ?thesis using False by (simp add: H(3) mult.assoc power_add[symmetric])
      qed
      from 1 2 show ?thesis by blast
    qed
  qed
  then show "- (128 * 256 ^ byte_size a) \<le> Integer_val a \<and> Integer_val a < 128 * 256 ^ byte_size a"
    "byte_size a \<noteq> 0 \<Longrightarrow>
      128 * 256 ^ (byte_size a - 1) \<le> Integer_val a \<or> Integer_val a < - (128 * 256 ^ (byte_size a - 1))"
    by blast+
qed

lemma toBuffer_val: "Integer_wf a \<Longrightarrow> be_sval (Integer_toBuffer a) = Integer_val a"
  using byte_size_range(1)[of a] be_sval_be_bytes[of "byte_size a" "Integer_val a"] by (simp only: toBuffer_eq)

lemma toBuffer_minimal:
  assumes wf: "Integer_wf a" and b: "b \<noteq> []" "be_sval b = Integer_val a"
  shows "length (Integer_toBuffer a) \<le> length b"
proof (rule ccontr)
  assume "\<not> length (Integer_toBuffer a) \<le> length b"
  then have l: "length b - 1 \<le> byte_size a - 1" "byte_size a \<noteq> 0"
    using b(1) unfolding toBuffer_eq[OF wf] length_be_bytes by (cases b; simp)+
  then have "128 * (256 :: int) ^ (length b - 1) \<le> 128 * 256 ^ (byte_size a - 1)"
    by (intro mult_left_mono power_increasing) auto
  then show False using be_sval_range[OF b(1)] byte_size_range(2)[OF wf l(2)] b(2) by linarith
qed


section \<open>The round trip\<close>

lemma fromBuffer_toBuffer: "Integer_wf a \<Longrightarrow> Integer_fromBuffer (Integer_toBuffer a) = a"
  using Integer_fromBuffer_correct[of "Integer_toBuffer a"] by (auto intro: Integer_repr_unique simp: toBuffer_val)

text \<open>An integer written with \<open>toBuffer\<close> is read back by \<open>fromBuffer\<close> as the identical
  object, the bytes written are its two's complement, and no non-empty buffer with that value is
  shorter.\<close>

theorem Integer_toBuffer_fromBuffer:
  assumes "Integer_wf a"
  shows "Integer_fromBuffer (Integer_toBuffer a) = a
    \<and> be_sval (Integer_toBuffer a) = Integer_val a
    \<and> (\<forall>b. b \<noteq> [] \<longrightarrow> be_sval b = Integer_val a \<longrightarrow> length (Integer_toBuffer a) \<le> length b)"
  using assms by (simp add: fromBuffer_toBuffer toBuffer_val toBuffer_minimal)

theorem Integer_toBuffer_fromBuffer_witness:
  "Integer_wf \<lparr>ibits = [- 1], isign = 0\<rparr>
   \<and> Integer_fromBuffer (Integer_toBuffer \<lparr>ibits = [- 1], isign = 0\<rparr>) = \<lparr>ibits = [- 1], isign = 0\<rparr>"
proof -
  have "Integer_wf \<lparr>ibits = [- 1], isign = 0\<rparr>" by (simp add: Integer_wf_def is_sign_def is_int32_def)
  then show ?thesis using Integer_toBuffer_fromBuffer by blast
qed

text \<open>C33: Every buffer, whatever its length, is read as a well-formed integer whose value is the
  buffer's two's complement value, and writing that integer again never needs more bytes.\<close>

theorem Integer_fromBuffer_total:
  "Integer_wf (Integer_fromBuffer b) \<and> Integer_val (Integer_fromBuffer b) = be_sval b
   \<and> length (Integer_toBuffer (Integer_fromBuffer b)) \<le> max 1 (length b)"
proof (cases "b = []")
  case True
  then show ?thesis using Integer_fromBuffer_correct[of b]
    by (simp add: Integer_fromBuffer_def buf_get_def new_Integer_def Integer_toBuffer_def)
next
  case False
  then show ?thesis
    using Integer_fromBuffer_correct[of b] toBuffer_minimal[of "Integer_fromBuffer b" b] by (cases b) auto
qed

end
