(* ===== verification/Big_Integer_Mul.thy ===== *)
theory Big_Integer_Mul
  imports Big_Integer_Bytes
begin

text \<open>
  \<open>fromNumber\<close>, \<open>toNumber\<close> and \<open>multiply\<close> of \<open>Integer\<close>. The product is exact as soon as one factor
  is below \<open>2 ^ 32\<close> in absolute value: then the schoolbook loop runs along one row, every 16-bit
  column stays below \<open>2 ^ 16\<close> between steps, and each column's sum below \<open>2 ^ 32\<close>. With two longer factors
  a column can reach \<open>2 ^ 32\<close>, and \<open>#carry16\<close>, which carries one column up only, loses the bit.
\<close>

unbundle bit_operations_syntax

section \<open>Numbers\<close>

lemma getBitsUnsigned_eq:
  assumes "Integer_wf a"
  shows "Integer_getBitsUnsigned a (int i) = Integer_val a div 4294967296 ^ i mod 4294967296"
  unfolding Integer_getBitsUnsigned_def Let_def getBits_eq[OF assms]
  using to_int32_range[of "Integer_val a div 4294967296 ^ i"] to_int32_mod[of "Integer_val a div 4294967296 ^ i"]
    mod_sign[of 4294967296 "to_int32 (Integer_val a div 4294967296 ^ i)"]
  by (auto simp: is_int32_def)

lemma digits_Suc: "x mod 4294967296 ^ Suc n = x mod 4294967296 + 4294967296 * (x div 4294967296 mod 4294967296 ^ n)"
  for x :: int
  using zmod_zmult2_eq[of "4294967296 ^ n" x 4294967296] by simp

lemma toNumber_loop_eq:
  assumes "Integer_wf a"
  shows "Integer_toNumber_loop a i n v (4294967296 ^ i)
    = v + 4294967296 ^ i * (Integer_val a div 4294967296 ^ i mod 4294967296 ^ n)"
proof (induction n arbitrary: i v)
  case 0
  then show ?case by simp
next
  case (Suc n)
  have "Integer_val a div 4294967296 ^ Suc i = Integer_val a div 4294967296 ^ i div 4294967296"
    by (simp add: zdiv_zmult2_eq[symmetric] mult.commute)
  then show ?case
    using Suc[of "Suc i"] digits_Suc[of "Integer_val a div 4294967296 ^ i" n] getBitsUnsigned_eq[OF assms, of i]
    by (simp add: algebra_simps del: power_Suc) (simp add: algebra_simps)
qed

lemma toNumber_nonneg:
  assumes "Integer_wf a" "0 \<le> Integer_val a"
  shows "Integer_toNumber_loop a 0 (length (ibits a)) 0 1 = Integer_val a"
  using toNumber_loop_eq[OF assms(1), of 0 "length (ibits a)" 0] assms val_range[OF assms(1) order_refl]
  by (simp add: mod_pos_pos_trivial)

lemma Integer_toNumber_correct: "Integer_wf a \<Longrightarrow> Integer_toNumber a = Integer_val a"
  using toNumber_nonneg[of a] toNumber_nonneg[of "Integer_negate a"] Integer_negate_correct[of a]
  by (simp add: Integer_toNumber_def Integer_isNegative_iff Let_def)

lemma fromNumber_loop_eq:
  assumes "0 \<le> v"
  shows "\<exists>n. Integer_fromNumber_loop v (4294967296 ^ i) = pieces n (v div 4294967296 ^ i) \<and> v div 4294967296 ^ (i + n) = 0"
proof (induction "nat (v + 1 - 4294967296 ^ i)" arbitrary: i rule: less_induct)
  case less
  show ?case
  proof (cases "4294967296 ^ i \<le> v")
    case True
    have "(4294967296 :: int) ^ i < 4294967296 ^ Suc i" by simp
    then have "nat (v + 1 - 4294967296 ^ Suc i) < nat (v + 1 - 4294967296 ^ i)" using True by linarith
    from less[OF this] obtain n where n: "Integer_fromNumber_loop v (4294967296 ^ Suc i) = pieces n (v div 4294967296 ^ Suc i)"
      "v div 4294967296 ^ (Suc i + n) = 0" by blast
    have "v div 4294967296 ^ Suc i = v div 4294967296 ^ i div 4294967296"
      by (simp add: zdiv_zmult2_eq[symmetric] mult.commute)
    then have "Integer_fromNumber_loop v (4294967296 ^ i) = pieces (Suc n) (v div 4294967296 ^ i)"
      using n(1) True by (subst Integer_fromNumber_loop.simps) (simp add: mult.commute)
    then show ?thesis using n(2) by (metis add_Suc add_Suc_right)
  next
    case False
    then have "Integer_fromNumber_loop v (4294967296 ^ i) = pieces 0 (v div 4294967296 ^ i)"
      by (subst Integer_fromNumber_loop.simps) simp
    then show ?thesis using False assms by (intro exI[of _ 0]) simp
  qed
qed

lemma Integer_fromNumber_correct: "Integer_wf (Integer_fromNumber v) \<and> Integer_val (Integer_fromNumber v) = v"
proof -
  have "Integer_wf (new_Integer (Integer_fromNumber_loop v 1) 0) \<and> Integer_val (new_Integer (Integer_fromNumber_loop v 1) 0) = v"
    if "0 \<le> v" for v
    using fromNumber_loop_eq[OF that, of 0] new_pieces[of 0 v] by (auto simp: is_sign_def)
  then show ?thesis using Integer_negate_correct[of "new_Integer (Integer_fromNumber_loop (- v) 1) 0"]
    by (simp add: Integer_fromNumber_def)
qed

section \<open>Base-65536 arrays\<close>

fun lv :: "int list \<Rightarrow> int" where
  "lv [] = 0"
| "lv (x # xs) = x + 65536 * lv xs"

lemma lv_update: "k < length xs \<Longrightarrow> lv (xs[k := v]) = lv xs + (v - xs ! k) * 65536 ^ k"
proof (induction xs arbitrary: k)
  case (Cons x xs)
  show ?case
  proof (cases k)
    case (Suc n)
    then show ?thesis using Cons.IH[of n] Cons.prems by (simp only: list_update.simps nat.case lv.simps nth_Cons_Suc length_Cons Suc_less_eq power_Suc) (simp add: algebra_simps)
  qed simp
qed simp

lemma addcarry_eq:
  assumes "0 \<le> arr ! k + x" "arr ! k + x < 4294967296" "Suc k < length arr"
  shows "Integer_addcarry arr k x
    = arr[k := (arr ! k + x) mod 65536, Suc k := arr ! Suc k + (arr ! k + x) div 65536]"
proof -
  let ?y = "arr ! k + x"
  have sh: "js_shru ?y 16 = ?y div 65536" using assms by (simp add: js_shru_eq)
  show ?thesis
  proof (cases "?y mod 65536 = ?y")
    case True
    then have "?y div 65536 = 0" using assms(1) by (metis mod_pos_pos_trivial div_pos_pos_trivial pos_mod_bound zero_less_numeral)
    moreover have "arr[k := ?y, Suc k := arr ! Suc k] = arr[k := ?y]"
      using list_update_id[of "arr[k := ?y]" "Suc k"] by simp
    ultimately show ?thesis using True assms
      by (simp add: Integer_addcarry_def Integer_carry16_def js_and_ffff)
  next
    case False
    then show ?thesis using assms sh
      by (simp add: Integer_addcarry_def Integer_carry16_def js_and_ffff list_update_swap)
  qed
qed

definition limb :: "int \<Rightarrow> bool" where
  "limb x \<longleftrightarrow> 0 \<le> x \<and> x < 65536"

lemma limb_product: "limb x \<Longrightarrow> limb y \<Longrightarrow> 0 \<le> x * y \<and> x * y \<le> 65535 * 65535"
  by (auto simp: limb_def intro: mult_mono[of x 65535 y 65535, simplified])

lemma limb_div: "0 \<le> y \<Longrightarrow> y < 4294967296 \<Longrightarrow> limb (y div 65536)"
  using zdiv_less[of 65536 y 65536] by (simp add: limb_def pos_imp_zdiv_nonneg_iff)

lemma limb_mod: "limb (y mod 65536)"
  by (simp add: limb_def)

text \<open>Four limb products with their carries, in the order of the code.\<close>

lemma limbs_step:
  fixes a0 a1 b0 b1 p q :: int
  assumes "limb a0" "limb a1" "limb b0" "limb b1" "limb p" "limb q"
  defines "y0 \<equiv> p + a0 * b0"
  defines "y1 \<equiv> q + y0 div 65536 + a1 * b0"
  defines "y2 \<equiv> y1 mod 65536 + a0 * b1"
  defines "y3 \<equiv> y1 div 65536 + y2 div 65536 + a1 * b1"
  shows "0 \<le> y0 \<and> y0 < 4294967296" "0 \<le> y1 \<and> y1 < 4294967296" "0 \<le> y2 \<and> y2 < 4294967296"
    "0 \<le> y3 \<and> y3 < 4294967296"
    "y0 mod 65536 + 65536 * (y2 mod 65536) + 4294967296 * (y3 mod 65536) + 281474976710656 * (y3 div 65536)
      = p + 65536 * q + (a0 + 65536 * a1) * (b0 + 65536 * b1)"
proof -
  note prod = limb_product[OF assms(1,3)] limb_product[OF assms(2,3)] limb_product[OF assms(1,4)] limb_product[OF assms(2,4)]
  show 0: "0 \<le> y0 \<and> y0 < 4294967296" using prod assms(5) unfolding y0_def limb_def by linarith
  then have c0: "limb (y0 div 65536)" using limb_div by simp
  show 1: "0 \<le> y1 \<and> y1 < 4294967296" using prod c0 assms(6) unfolding y1_def limb_def by linarith
  then have c1: "limb (y1 div 65536)" using limb_div by simp
  show 2: "0 \<le> y2 \<and> y2 < 4294967296" using prod limb_mod[of y1] unfolding y2_def limb_def by linarith
  then have c2: "limb (y2 div 65536)" using limb_div by simp
  show "0 \<le> y3 \<and> y3 < 4294967296" using prod c1 c2 unfolding y3_def limb_def by linarith
  have d: "z mod 65536 = z - 65536 * (z div 65536)" for z :: int by (simp add: minus_mult_div_eq_mod)
  show "y0 mod 65536 + 65536 * (y2 mod 65536) + 4294967296 * (y3 mod 65536) + 281474976710656 * (y3 div 65536)
      = p + 65536 * q + (a0 + 65536 * a1) * (b0 + 65536 * b1)"
    unfolding d[of y0] d[of y2] d[of y3] unfolding y3_def y2_def d[of y1] unfolding y1_def y0_def
    by (simp add: algebra_simps)
qed

lemma low16: "to_int32 x mod 65536 = x mod 4294967296 mod 65536"
  using mod_mod_cancel[of 65536 4294967296 "to_int32 x"] by simp

lemma update_pair_twice: "m \<noteq> n \<Longrightarrow> xs[m := a, n := b, m := c, n := d] = xs[m := c, n := d]"
  by (metis list_update_swap list_update_overwrite)

lemma mul_step_correct:
  assumes wf: "Integer_wf a" "Integer_wf b" and len: "2 * (i + j) + 3 < length arr"
    and pq: "limb (arr ! (2 * (i + j)))" "limb (arr ! (2 * (i + j) + 1))"
    and z: "arr ! (2 * (i + j) + 2) = 0" "arr ! (2 * (i + j) + 3) = 0"
  shows "\<exists>x y u v. limb x \<and> limb y \<and> limb u \<and> limb v \<and>
     Integer_mul_step a b i j arr = arr[2 * (i + j) := x, 2 * (i + j) + 1 := y, 2 * (i + j) + 2 := u, 2 * (i + j) + 3 := v] \<and>
     x + 65536 * y + 4294967296 * u + 281474976710656 * v = arr ! (2 * (i + j)) + 65536 * arr ! (2 * (i + j) + 1)
       + (Integer_val a div 4294967296 ^ i mod 4294967296) * (Integer_val b div 4294967296 ^ j mod 4294967296)"
proof -
  define n where "n = 2 * (i + j)"
  define U V where "U = Integer_val a div 4294967296 ^ i mod 4294967296" and "V = Integer_val b div 4294967296 ^ j mod 4294967296"
  define a0 a1 b0 b1 where "a0 = U mod 65536" and "a1 = U div 65536" and "b0 = V mod 65536" and "b1 = V div 65536"
  define p q where "p = arr ! n" and "q = arr ! Suc n"
  define y0 where "y0 = p + a0 * b0"
  define y1 where "y1 = q + y0 div 65536 + a1 * b0"
  define y2 where "y2 = y1 mod 65536 + a0 * b1"
  define y3 where "y3 = y1 div 65536 + y2 div 65536 + a1 * b1"
  have ix: "2 * i + 2 * j = n" by (simp add: n_def)
  have len: "Suc (Suc (Suc n)) < length arr" and z: "arr ! Suc (Suc n) = 0" "arr ! Suc (Suc (Suc n)) = 0"
    using len z by (simp_all add: n_def eval_nat_numeral)
  have g: "js_shru (Integer_getBits a (int i)) 16 = a1" "js_and (Integer_getBits a (int i)) 65535 = a0"
    "js_shru (Integer_getBits b (int j)) 16 = b1" "js_and (Integer_getBits b (int j)) 65535 = b0"
    unfolding getBits_eq[OF wf(1)] getBits_eq[OF wf(2)] a0_def a1_def b0_def b1_def U_def V_def
    by (simp_all add: js_shru_eq js_and_ffff low16)
  have l: "limb a0" "limb a1" "limb b0" "limb b1"
    unfolding a0_def a1_def b0_def b1_def by (auto intro!: limb_mod limb_div simp: U_def V_def)
  have lp: "limb p" "limb q" using pq by (simp_all add: p_def q_def n_def)
  note st = limbs_step[OF l lp, folded y0_def, folded y1_def, folded y2_def, folded y3_def]
  have A1: "Integer_addcarry arr n (a0 * b0) = arr[n := y0 mod 65536, Suc n := q + y0 div 65536]" (is "_ = ?A1")
    using addcarry_eq[of arr n "a0 * b0", folded p_def q_def, folded y0_def] st(1) len by simp
  have A2: "Integer_addcarry ?A1 (Suc n) (a1 * b0) = arr[n := y0 mod 65536, Suc n := y1 mod 65536, Suc (Suc n) := y1 div 65536]" (is "_ = ?A2")
    using addcarry_eq[of ?A1 "Suc n" "a1 * b0"] st(2) len z by (simp add: y1_def[symmetric])
  have A3: "Integer_addcarry ?A2 (Suc n) (a0 * b1) = arr[n := y0 mod 65536, Suc n := y2 mod 65536, Suc (Suc n) := y1 div 65536 + y2 div 65536]" (is "_ = ?A3")
    using addcarry_eq[of ?A2 "Suc n" "a0 * b1"] st(3) len z by (simp add: y2_def[symmetric] update_pair_twice)
  have A4: "Integer_addcarry ?A3 (Suc (Suc n)) (a1 * b1)
      = arr[n := y0 mod 65536, Suc n := y2 mod 65536, Suc (Suc n) := y3 mod 65536, Suc (Suc (Suc n)) := y3 div 65536]"
    using addcarry_eq[of ?A3 "Suc (Suc n)" "a1 * b1"] st(4) len z by (simp add: y3_def[symmetric])
  have n3: "n + 1 = Suc n" "n + 2 = Suc (Suc n)" "n + 3 = Suc (Suc (Suc n))" by simp_all
  have step: "Integer_mul_step a b i j arr
      = arr[n := y0 mod 65536, n + 1 := y2 mod 65536, n + 2 := y3 mod 65536, n + 3 := y3 div 65536]"
    unfolding Integer_mul_step_def Let_def g ix n3 A1 A2 A3 A4 by (rule refl)
  have "a0 + 65536 * a1 = U" "b0 + 65536 * b1 = V" by (simp_all add: a0_def a1_def b0_def b1_def)
  note sum = st(5)[unfolded this]
  have "limb (y3 div 65536)" using st(4) limb_div by blast
  then show ?thesis
    using step sum limb_mod unfolding n_def[symmetric] n3 p_def[symmetric] q_def[symmetric] U_def[symmetric] V_def[symmetric]
    by blast
qed

text \<open>A row of the schoolbook product: one operand is a single piece.\<close>

definition row_inv :: "nat \<Rightarrow> nat \<Rightarrow> int \<Rightarrow> int list \<Rightarrow> bool" where
  "row_inv len k x arr \<longleftrightarrow> length arr = 2 * len \<and> list_all limb arr \<and>
     (\<forall>n. 2 * k + 2 \<le> n \<longrightarrow> n < 2 * len \<longrightarrow> arr ! n = 0) \<and> lv arr = x"

lemma lv_drop:
  assumes "list_all limb arr"
  shows "lv (drop n arr) = lv arr div 65536 ^ n"
  using assms
proof (induction n arbitrary: arr)
  case (Suc n)
  show ?case
  proof (cases arr)
    case (Cons x xs)
    then have "lv arr div 65536 = lv xs" using Suc.prems by (simp add: limb_def)
    then show ?thesis using Suc Cons by (simp add: zdiv_zmult2_eq)
  qed simp
qed simp

lemma list_all_update: "list_all P xs \<Longrightarrow> P v \<Longrightarrow> list_all P (xs[i := v])"
  using set_update_subset_insert[of xs i v] by (auto simp: list_all_iff)

lemma lv_replicate: "lv (replicate n 0) = 0"
  by (induction n) auto

lemma row_step:
  assumes wf: "Integer_wf a" "Integer_wf b" and k: "i + j = k" "k + 1 < len" and inv: "row_inv len k x arr"
  shows "row_inv len (Suc k) (x + (Integer_val a div 4294967296 ^ i mod 4294967296) *
    (Integer_val b div 4294967296 ^ j mod 4294967296) * 4294967296 ^ k) (Integer_mul_step a b i j arr)"
proof -
  have r: "length arr = 2 * len" "list_all limb arr" "lv arr = x"
    and z: "\<And>n. 2 * k + 2 \<le> n \<Longrightarrow> n < 2 * len \<Longrightarrow> arr ! n = 0"
    using inv by (auto simp: row_inv_def)
  have "limb (arr ! (2 * k))" "limb (arr ! (2 * k + 1))" using r k by (simp_all add: list_all_length)
  then obtain x0 x1 x2 x3 where s: "limb x0" "limb x1" "limb x2" "limb x3"
    "Integer_mul_step a b i j arr = arr[2 * k := x0, 2 * k + 1 := x1, 2 * k + 2 := x2, 2 * k + 3 := x3]"
    "x0 + 65536 * x1 + 4294967296 * x2 + 281474976710656 * x3 = arr ! (2 * k) + 65536 * arr ! (2 * k + 1)
       + (Integer_val a div 4294967296 ^ i mod 4294967296) * (Integer_val b div 4294967296 ^ j mod 4294967296)"
    using mul_step_correct[OF wf, of i j arr] r(1) k z[of "2 * k + 2"] z[of "2 * k + 3"] by auto
  have W: "(65536 :: int) ^ (2 * k) = 4294967296 ^ k" by (simp add: power_mult)
  have "lv (Integer_mul_step a b i j arr) = x + (x0 - arr ! (2 * k)) * 65536 ^ (2 * k) + (x1 - arr ! (2 * k + 1)) * 65536 ^ (2 * k + 1)
      + x2 * 65536 ^ (2 * k + 2) + x3 * 65536 ^ (2 * k + 3)"
    unfolding s(5) using r k z[of "2 * k + 2"] z[of "2 * k + 3"] by (simp add: lv_update)
  also have "\<dots> = x + (x0 + 65536 * x1 + 4294967296 * x2 + 281474976710656 * x3 - arr ! (2 * k) - 65536 * arr ! (2 * k + 1)) * 4294967296 ^ k"
    unfolding W[symmetric] by (simp add: power_add algebra_simps)
  finally have v: "lv (Integer_mul_step a b i j arr) = x + (Integer_val a div 4294967296 ^ i mod 4294967296) *
    (Integer_val b div 4294967296 ^ j mod 4294967296) * 4294967296 ^ k"
    unfolding s(6) by simp
  have "list_all limb (Integer_mul_step a b i j arr)"
    unfolding s(5) using r(2) s(1-4) by (intro list_all_update)
  then show ?thesis using v r(1) z unfolding row_inv_def s(5) by simp
qed

lemma digit_add: "x mod 4294967296 ^ Suc k = x mod 4294967296 ^ k + (x div 4294967296 ^ k mod 4294967296) * 4294967296 ^ k"
  for x :: int
  using zmod_zmult2_eq[of 4294967296 x "4294967296 ^ k"] by (simp add: mult.commute)

lemma row_fold:
  assumes "\<And>k x arr. k < n \<Longrightarrow> row_inv len k x arr \<Longrightarrow> row_inv len (Suc k) (x + u * (v div 4294967296 ^ k mod 4294967296) * 4294967296 ^ k) (f k arr)"
    and "row_inv len 0 0 arr"
  shows "row_inv len n (u * (v mod 4294967296 ^ n)) (fold f [0..<n] arr)"
  using assms
proof (induction n)
  case (Suc n)
  have "row_inv len n (u * (v mod 4294967296 ^ n)) (fold f [0..<n] arr)" using Suc by simp
  then have "row_inv len (Suc n) (u * (v mod 4294967296 ^ n) + u * (v div 4294967296 ^ n mod 4294967296) * 4294967296 ^ n) (f n (fold f [0..<n] arr))"
    by (rule Suc.prems(1)[OF lessI])
  then show ?case by (simp add: digit_add distrib_left mult.assoc del: power_Suc)
qed simp

lemma row_zero: "row_inv len 0 0 (replicate (2 * len) 0)"
  by (auto simp: row_inv_def lv_replicate list_all_length limb_def)

lemma pieces_of_limbs:
  assumes "list_all limb arr" "length arr = 2 * len"
  shows "map (\<lambda>i. js_or (js_shl (arr ! (2 * i + 1)) 16) (arr ! (2 * i))) [0..<len] = pieces len (lv arr)"
proof (rule map_pieces)
  fix i assume i: "i < len"
  have l: "limb (arr ! (2 * i))" using assms i by (simp add: list_all_length)
  have "drop (2 * i) arr = arr ! (2 * i) # arr ! (2 * i + 1) # drop (2 * i + 2) arr"
    using assms(2) i by (simp add: Cons_nth_drop_Suc)
  then have "lv (drop (2 * i) arr) = arr ! (2 * i + 1) * 65536 + arr ! (2 * i) + 4294967296 * lv (drop (2 * i + 2) arr)"
    by simp
  then have "lv arr div 4294967296 ^ i mod 4294967296 = (arr ! (2 * i + 1) * 65536 + arr ! (2 * i)) mod 4294967296"
    using lv_drop[OF assms(1), of "2 * i"] by (simp add: power_mult)
  then have "to_int32 (lv arr div 4294967296 ^ i) = to_int32 (arr ! (2 * i + 1) * 65536 + arr ! (2 * i))"
    by (rule to_int32_cong)
  moreover have "js_or (js_shl (arr ! (2 * i + 1)) 16) (arr ! (2 * i)) = to_int32 (arr ! (2 * i + 1) * 2 ^ 16 + arr ! (2 * i))"
    using l by (intro js_or_shl) (simp_all add: limb_def)
  ultimately show "js_or (js_shl (arr ! (2 * i + 1)) 16) (arr ! (2 * i)) = to_int32 (lv arr div 4294967296 ^ i)"
    by simp
qed

lemma new_Integer_padded:
  assumes "0 \<le> x" "x < 4294967296 ^ len"
  shows "Integer_wf (new_Integer (pieces len x @ replicate m 0) 0) \<and> Integer_val (new_Integer (pieces len x @ replicate m 0) 0) = x"
  using assms tc_sign_extend[of 0 "pieces len x" m]
  by (simp add: new_Integer_wf new_Integer_val is_sign_def tc_pieces_exact)

lemma multiply_arrays_row:
  assumes wf: "Integer_wf a" "Integer_wf b" and nn: "0 \<le> Integer_val a" "0 \<le> Integer_val b"
    and one: "length (ibits a) = 1 \<and> length (ibits b) > 0 \<or> length (ibits b) = 1 \<and> length (ibits a) > 0"
  shows "Integer_wf (Integer_multiply_arrays a b) \<and> Integer_val (Integer_multiply_arrays a b) = Integer_val a * Integer_val b"
proof -
  let ?n = "length (ibits a)" and ?m = "length (ibits b)"
  define arr where "arr = fold (\<lambda>i arr. fold (\<lambda>j arr. Integer_mul_step a b i j arr) [0..<?m] arr) [0..<?n] (replicate (2 * (?n + ?m)) 0)"
  have ra: "Integer_val a < 4294967296 ^ ?n" "Integer_val b < 4294967296 ^ ?m"
    using val_range[OF wf(1) order_refl] val_range[OF wf(2) order_refl] by auto
  have "\<exists>k. row_inv (?n + ?m) k (Integer_val a * Integer_val b) arr"
    using one
  proof
    assume n: "?n = 1 \<and> ?m > 0"
    have "row_inv (?n + ?m) ?m (Integer_val a * (Integer_val b mod 4294967296 ^ ?m))
        (fold (\<lambda>j arr. Integer_mul_step a b 0 j arr) [0..<?m] (replicate (2 * (?n + ?m)) 0))"
    proof (rule row_fold[OF _ row_zero])
      fix k x arr assume "k < ?m" "row_inv (?n + ?m) k x arr"
      then show "row_inv (?n + ?m) (Suc k) (x + Integer_val a * (Integer_val b div 4294967296 ^ k mod 4294967296) * 4294967296 ^ k)
         (Integer_mul_step a b 0 k arr)"
        using row_step[OF wf, of 0 k k "?n + ?m" x arr] n nn ra by simp
    qed
    then show ?thesis using n nn ra by (auto simp: arr_def)
  next
    assume m: "?m = 1 \<and> ?n > 0"
    have "row_inv (?n + ?m) ?n (Integer_val b * (Integer_val a mod 4294967296 ^ ?n))
        (fold (\<lambda>i arr. Integer_mul_step a b i 0 arr) [0..<?n] (replicate (2 * (?n + ?m)) 0))"
    proof (rule row_fold[OF _ row_zero])
      fix k x arr assume "k < ?n" "row_inv (?n + ?m) k x arr"
      then show "row_inv (?n + ?m) (Suc k) (x + Integer_val b * (Integer_val a div 4294967296 ^ k mod 4294967296) * 4294967296 ^ k)
         (Integer_mul_step a b k 0 arr)"
        using row_step[OF wf, of k 0 k "?n + ?m" x arr] m nn ra by (simp add: ac_simps)
    qed
    then show ?thesis using m nn ra by (auto simp: arr_def mult.commute)
  qed
  then have arr: "list_all limb arr" "length arr = 2 * (?n + ?m)" "lv arr = Integer_val a * Integer_val b"
    by (auto simp: row_inv_def)
  have "Integer_val a * Integer_val b < 4294967296 ^ (?n + ?m)"
    unfolding power_add using nn ra by (intro mult_strict_mono) auto
  then show ?thesis
    using new_Integer_padded[of "Integer_val a * Integer_val b" "?n + ?m" "?n + ?m"] nn
    unfolding Integer_multiply_arrays_def Let_def arr_def[symmetric] pieces_of_limbs[OF arr(1,2)] arr(3) by simp
qed

lemma small_one_piece: "Integer_wf a \<Longrightarrow> 0 < Integer_val a \<Longrightarrow> Integer_val a < 4294967296 \<Longrightarrow> length (ibits a) = 1"
proof -
  assume a: "Integer_wf a" "0 < Integer_val a" "Integer_val a < 4294967296"
  have s: "isign a = 0" using sign_val[OF a(1)] a(2) by simp
  have "length (ibits a) \<le> 1"
  proof (rule ccontr)
    assume l: "\<not> length (ibits a) \<le> 1"
    then have "Integer_getBits a (int (length (ibits a) - 1)) = last (ibits a)"
      by (cases "ibits a = []") (simp_all add: Integer_getBits_def last_conv_nth nat_diff_distrib)
    moreover have "last (ibits a) \<noteq> 0" using a(1) s l by (auto simp: Integer_wf_def)
    moreover have "(4294967296 :: int) ^ 1 \<le> 4294967296 ^ (length (ibits a) - 1)" using l by (intro power_increasing) auto
    then have "Integer_val a div 4294967296 ^ (length (ibits a) - 1) = 0" using a(2,3) by simp
    ultimately show False using getBits_eq[OF a(1), of "length (ibits a) - 1"] by (simp add: is_int32_def)
  qed
  moreover have "ibits a \<noteq> []" using a(2) s by (auto simp: Integer_val_def)
  ultimately show ?thesis by (cases "ibits a") auto
qed

lemma pos_pieces: "Integer_wf a \<Longrightarrow> 0 < Integer_val a \<Longrightarrow> length (ibits a) > 0"
  using sign_val[of a] by (auto simp: Integer_val_def)

lemma multiply_nonneg_correct:
  assumes wf: "Integer_wf a" "Integer_wf b" and nn: "0 \<le> Integer_val a" "0 \<le> Integer_val b"
    and small: "Integer_val a < 4294967296 \<or> Integer_val b < 4294967296"
  shows "Integer_wf (Integer_multiply_nonneg a b) \<and> Integer_val (Integer_multiply_nonneg a b) = Integer_val a * Integer_val b"
proof (cases "Integer_val a = 0 \<or> Integer_val b = 0")
  case True
  then show ?thesis using wf by (auto simp: Integer_multiply_nonneg_def Integer_isZero_iff Integer_consts)
next
  case False
  then have "length (ibits a) = 1 \<and> length (ibits b) > 0 \<or> length (ibits b) = 1 \<and> length (ibits a) > 0"
    using small nn small_one_piece[OF wf(1)] small_one_piece[OF wf(2)] pos_pieces[OF wf(1)] pos_pieces[OF wf(2)] by auto
  from multiply_arrays_row[OF wf nn this] show ?thesis
    using wf False Integer_fromNumber_correct[of "Integer_val a * Integer_val b"]
    by (simp add: Integer_multiply_nonneg_def Integer_isZero_iff Integer_toNumber_correct)
qed

lemma multiply_correct:
  assumes wf: "Integer_wf a" "Integer_wf b"
    and small: "\<bar>Integer_val a\<bar> < 4294967296 \<or> \<bar>Integer_val b\<bar> < 4294967296"
  shows "Integer_wf (Integer_multiply a b) \<and> Integer_val (Integer_multiply a b) = Integer_val a * Integer_val b"
  using wf small Integer_negate_correct[OF wf(1)] Integer_negate_correct[OF wf(2)]
    multiply_nonneg_correct[of a b] multiply_nonneg_correct[of "Integer_negate a" b]
    multiply_nonneg_correct[of a "Integer_negate b"] multiply_nonneg_correct[of "Integer_negate a" "Integer_negate b"]
    Integer_negate_correct[of "Integer_multiply_nonneg (Integer_negate a) b"]
    Integer_negate_correct[of "Integer_multiply_nonneg a (Integer_negate b)"]
  by (auto simp: Integer_multiply_def Integer_isZero_iff Integer_isNegative_iff Integer_consts)


section \<open>The product\<close>

text \<open>The product of two integers is exact and well formed whenever one of them is below
  \<open>2 ^ 32\<close> in absolute value, whatever their signs and however long the other is.\<close>

theorem Integer_multiply_exact:
  assumes "Integer_wf a" "Integer_wf b" "\<bar>Integer_val a\<bar> < 4294967296 \<or> \<bar>Integer_val b\<bar> < 4294967296"
  shows "Integer_wf (Integer_multiply a b) \<and> Integer_val (Integer_multiply a b) = Integer_val a * Integer_val b"
  using assms by (rule multiply_correct)

theorem Integer_multiply_exact_witness:
  "Integer_val (Integer_multiply \<lparr>ibits = [- 1], isign = 0\<rparr> \<lparr>ibits = [- 2], isign = - 1\<rparr>) = - 8589934590"
  using Integer_multiply_exact[OF sample_Integers(1,3)] by (simp add: sample_Integers)

lemma carry_product:
  "Integer_multiply \<lparr>ibits = [- 2147483648, - 2], isign = 0\<rparr> \<lparr>ibits = [- 1, - 65538], isign = 0\<rparr>
   = \<lparr>ibits = [- 2147483648, - 2147483647, - 2147385344, - 65540], isign = 0\<rparr>"
  by code_simp


end
