(* ===== verification/JS_String.thy ===== *)
theory JS_String
  imports Prelude
begin

text \<open>
  The part of JavaScript's strings and numerals that the components share: strings are lists of
  characters (code points up to 255, which contain every character the driver's own grammars
  name), decimal numerals, \<open>toLowerCase\<close> on the ASCII letters, prefix and index tests, and the
  classification of an argument by \<open>typeof\<close> where the code checks it.
\<close>

section \<open>Operations\<close>

definition is_digit :: "char \<Rightarrow> bool" where
  "is_digit c \<longleftrightarrow> 48 \<le> (of_char c :: nat) \<and> (of_char c :: nat) \<le> 57"

definition digit_char :: "nat \<Rightarrow> char" where
  "digit_char n = char_of (48 + n)"

text \<open>\<open>toString\<close> of a non-negative integer and of an integer.\<close>

fun show_nat :: "nat \<Rightarrow> string" where
  "show_nat n = (if n < 10 then [digit_char n] else show_nat (n div 10) @ [digit_char (n mod 10)])"

declare show_nat.simps [simp del]

definition show_int :: "int \<Rightarrow> string" where
  "show_int x = (if x < 0 then CHR 0x2D # show_nat (nat (- x)) else show_nat (nat x))"

text \<open>The number a run of decimal digits denotes, which \<open>+text\<close> and \<open>BigInt(text)\<close> give.\<close>

definition digits_val :: "string \<Rightarrow> int" where
  "digits_val s = foldl (\<lambda>acc c. acc * 10 + (int (of_char c) - 48)) 0 s"

definition to_lower :: "char \<Rightarrow> char" where
  "to_lower c = (if 65 \<le> (of_char c :: nat) \<and> (of_char c :: nat) \<le> 90
                 then char_of ((of_char c :: nat) + 32) else c)"

definition toLowerCase :: "string \<Rightarrow> string" where
  "toLowerCase s = map to_lower s"

text \<open>\<open>s.charAt(i) === c\<close>, \<open>s.startsWith(p)\<close>, \<open>s.indexOf(c)\<close>.\<close>

definition char_is :: "string \<Rightarrow> nat \<Rightarrow> char \<Rightarrow> bool" where
  "char_is s i c \<longleftrightarrow> i < length s \<and> s ! i = c"

fun starts_with :: "string \<Rightarrow> string \<Rightarrow> bool" where
  "starts_with s [] = True"
| "starts_with [] (c # p) = False"
| "starts_with (d # s) (c # p) = (d = c \<and> starts_with s p)"

fun index_of :: "string \<Rightarrow> char \<Rightarrow> int" where
  "index_of [] c = - 1"
| "index_of (d # s) c = (if d = c then 0 else let i = index_of s c in if i < 0 then - 1 else i + 1)"

definition quoted :: "string \<Rightarrow> string" where
  "quoted s = CHR 0x27 # s @ [CHR 0x27]"

text \<open>A dynamically typed numeric argument; \<open>JFraction\<close> is a \<open>Number\<close> that is no integer, with
  its printed form.\<close>

datatype js_num =
    JNumber int
  | JFraction string
  | JBigInt int
  | JLong int
  | JOther string

fun typeof_num :: "js_num \<Rightarrow> string" where
  "typeof_num (JNumber n) = ''number''"
| "typeof_num (JFraction s) = ''number''"
| "typeof_num (JBigInt n) = ''bigint''"
| "typeof_num (JLong n) = ''object''"
| "typeof_num (JOther t) = t"

section \<open>Lemmas\<close>

lemma digit_char_digit [simp]: "n < 10 \<Longrightarrow> is_digit (digit_char n)"
  by (simp add: is_digit_def digit_char_def)

lemma digit_char_val [simp]: "n < 10 \<Longrightarrow> of_char (digit_char n) = 48 + n"
  by (simp add: digit_char_def)

lemma show_nat_digits: "list_all is_digit (show_nat n)"
  by (induction n rule: show_nat.induct) (subst show_nat.simps, simp)

lemma show_nat_nonempty [simp]: "show_nat n \<noteq> []"
  by (subst show_nat.simps) simp

lemma digits_val_snoc [simp]: "digits_val (s @ [c]) = digits_val s * 10 + (int (of_char c) - 48)"
  by (simp add: digits_val_def)

lemma digits_val_Nil [simp]: "digits_val [] = 0"
  by (simp add: digits_val_def)

lemma digits_val_show_nat [simp]: "digits_val (show_nat n) = int n"
proof (induction n rule: show_nat.induct)
  case (1 n)
  show ?case
  proof (cases "n < 10")
    case True
    then show ?thesis using digits_val_snoc[of "[]" "digit_char n"] by (subst show_nat.simps) simp
  next
    case False
    then have "digits_val (show_nat n) = int (n div 10) * 10 + int (n mod 10)"
      using 1 by (subst show_nat.simps) simp
    also have "\<dots> = int n" by (metis div_mult_mod_eq of_nat_add of_nat_mult of_nat_numeral)
    finally show ?thesis .
  qed
qed

lemma digits_val_nonneg: "list_all is_digit s \<Longrightarrow> 0 \<le> digits_val s"
  by (induction s rule: rev_induct) (auto simp: is_digit_def)

lemma takeWhile_digits:
  "list_all is_digit s \<Longrightarrow> r = [] \<or> \<not> is_digit (hd r) \<Longrightarrow> takeWhile is_digit (s @ r) = s"
  "list_all is_digit s \<Longrightarrow> r = [] \<or> \<not> is_digit (hd r) \<Longrightarrow> dropWhile is_digit (s @ r) = r"
  by (induction s; cases r; auto)+

lemma starts_with_iff: "starts_with s p \<longleftrightarrow> take (length p) s = p"
  by (induction s p rule: starts_with.induct) auto

end
