(* ===== verification/Duration.thy ===== *)
theory Duration
  imports JS_String VInt_Coding "HOL-Library.Signed_Division"
begin

text \<open>
  \<open>lib/types/duration.js\<close> and the range checks of \<open>lib/new-utils.ts\<close> it calls: the \<open>Duration\<close>
  value and its constructor, its wire form (three variable-length integers), its text form, the
  four text formats of \<open>fromString\<close>, and the \<open>Builder\<close> that orders and bounds the units. Where the
  code compares a \<open>Number\<close> with a quotient of two others the model multiplies out, which for these
  ranges (below \<open>2 ^ 31\<close>) is the same test.
\<close>

section \<open>Range checks\<close>

definition ensure32SignedInteger :: "js_num \<Rightarrow> string \<Rightarrow> int result" where
  "ensure32SignedInteger number name =
     (case number of
        JNumber n \<Rightarrow>
          (if n < - 0x80000000 then throw (TypeError (name @ '' was expected to be 32bit integer, but it's smaller than allowed ('' @ show_int n @ '' < '' @ show_int (- 0x80000000) @ '')''))
           else if n > 0x7fffffff then throw (TypeError (name @ '' was expected to be 32bit integer, but it's larger than allowed ('' @ show_int n @ '' > '' @ show_int 0x7fffffff @ '')''))
           else return n)
      | JFraction s \<Rightarrow> throw (TypeError (name @ '' was expected to be 32bit integer, but it's not a full integer ('' @ s @ '')''))
      | _ \<Rightarrow> throw (TypeError (name @ '' was expected to be 32bit integer, but it's not a full integer ('' @ typeof_num number @ '')'')))"

definition ensure64SignedInteger :: "int \<Rightarrow> string \<Rightarrow> int result" where
  "ensure64SignedInteger n name =
     (if n < - 0x8000000000000000 then throw (TypeError (name @ '' was expected to be 64bit integer, but it's smaller than allowed ('' @ show_int n @ '' < '' @ show_int (- 0x8000000000000000) @ '')''))
      else if n > 0x7fffffffffffffff then throw (TypeError (name @ '' was expected to be 64bit integer, but it's larger than allowed ('' @ show_int n @ '' > '' @ show_int 0x7fffffffffffffff @ '')''))
      else return n)"

text \<open>\<open>bigintToLong\<close>: the low and high words handed to \<open>Long.fromValue\<close>. \<open>%\<close> and \<open>/\<close> of \<open>BigInt\<close>
  round towards zero.\<close>

definition bigintToLong :: "int \<Rightarrow> int \<times> int" where
  "bigintToLong from =
     (let lo = from smod 4294967296; hi = from sdiv 4294967296
      in (lo, if lo < 0 then hi - 1 else hi))"

section \<open>The value\<close>

record Duration =
  dmonths :: int
  ddays :: int
  dnanos :: int

definition new_Duration :: "js_num \<Rightarrow> js_num \<Rightarrow> js_num \<Rightarrow> Duration result" where
  "new_Duration months days nanoseconds =
     (if typeof_num months \<noteq> ''number''
      then throw (TypeError (''Expected months to be a number, got '' @ typeof_num months))
      else if typeof_num days \<noteq> ''number''
      then throw (TypeError (''Expected days to be a number, got '' @ typeof_num days))
      else rbind (ensure32SignedInteger months ''months'') (\<lambda>m.
        rbind (ensure32SignedInteger days ''days'') (\<lambda>d.
        rbind (case nanoseconds of
                 JBigInt n \<Rightarrow> return n
               | JLong n \<Rightarrow> return n
               | JNumber n \<Rightarrow> return n
               | JFraction s \<Rightarrow> throw (RangeError (''The number '' @ s @ '' cannot be converted to a BigInt because it is not an integer''))
               | JOther t \<Rightarrow> throw (TypeError (''Invalid nanosecond argument type: '' @ t))) (\<lambda>n.
        rbind (ensure64SignedInteger n ''nanoseconds'') (\<lambda>n.
          return \<lparr>dmonths = m, ddays = d, dnanos = n\<rparr>)))))"

definition Duration_equals :: "Duration \<Rightarrow> Duration \<Rightarrow> bool" where
  "Duration_equals a other =
     (dmonths a = dmonths other \<and> ddays a = ddays other \<and> dnanos a = dnanos other)"

section \<open>Wire form\<close>

text \<open>\<open>reusableBuffers\<close> is state of the module: every call writes into the same three buffers.\<close>

record reusableBuffers =
  rmonths :: buffer
  rdays :: buffer
  rnanos :: buffer

definition Duration_toBuffer :: "Duration \<Rightarrow> reusableBuffers \<Rightarrow> buffer \<times> reusableBuffers" where
  "Duration_toBuffer d rb =
     (let (lengthMonths, bm) = writeVInt (dmonths d) (rmonths rb);
          (lengthDays, bd) = writeVInt (ddays d) (rdays rb);
          (lengthNanoseconds, bn) = writeVInt (dnanos d) (rnanos rb)
      in (take lengthMonths bm @ take lengthDays bd @ take lengthNanoseconds bn,
          \<lparr>rmonths = bm, rdays = bd, rnanos = bn\<rparr>))"

definition Duration_fromBuffer :: "buffer \<Rightarrow> Duration result" where
  "Duration_fromBuffer b =
     rbind (readVInt b 0) (\<lambda>(months, off).
     rbind (readVInt b off) (\<lambda>(days, off).
     rbind (readVInt b off) (\<lambda>(nanoseconds, off).
       new_Duration (JNumber months) (JNumber days) (JBigInt nanoseconds))))"

section \<open>Text form\<close>

definition nanosPerMicro :: int where "nanosPerMicro = 1000"
definition nanosPerMilli :: int where "nanosPerMilli = 1000 * nanosPerMicro"
definition nanosPerSecond :: int where "nanosPerSecond = 1000 * nanosPerMilli"
definition nanosPerMinute :: int where "nanosPerMinute = 60 * nanosPerSecond"
definition nanosPerHour :: int where "nanosPerHour = 60 * nanosPerMinute"

text \<open>The local functions \<open>append\<close> and \<open>append64\<close> of \<open>toString\<close>: the text grown so far and the
  remainder. Their dividends are not negative.\<close>

definition Duration_append :: "string \<Rightarrow> int \<Rightarrow> int \<Rightarrow> string \<Rightarrow> string \<times> int" where
  "Duration_append value dividend divisor u =
     (if dividend = 0 \<or> dividend < divisor then (value, dividend)
      else (value @ show_int (dividend div divisor) @ u, dividend mod divisor))"

definition Duration_toString :: "Duration \<Rightarrow> string" where
  "Duration_toString d =
     (let value = (if dmonths d < 0 \<or> ddays d < 0 \<or> dnanos d < 0 then ''-'' else '''');
          (value, remainder) = Duration_append value (abs (dmonths d)) 12 ''y'';
          (value, _) = Duration_append value remainder 1 ''mo'';
          (value, _) = Duration_append value (abs (ddays d)) 1 ''d''
      in if dnanos d \<noteq> 0
         then let nanos = (if dnanos d < 0 then - dnanos d else dnanos d);
                  (value, remainder) = Duration_append value nanos nanosPerHour ''h'';
                  (value, remainder) = Duration_append value remainder nanosPerMinute ''m'';
                  (value, remainder) = Duration_append value remainder nanosPerSecond ''s'';
                  (value, remainder) = Duration_append value remainder nanosPerMilli ''ms'';
                  (value, remainder) = Duration_append value remainder nanosPerMicro ''us'';
                  (value, _) = Duration_append value remainder 1 ''ns''
              in value
         else value)"

section \<open>Builder\<close>

record Builder =
  bneg :: bool
  bunit :: nat
  bmonths :: int
  bdays :: int
  bnanos :: int

definition new_Builder :: "bool \<Rightarrow> Builder" where
  "new_Builder isNegative = \<lparr>bneg = isNegative, bunit = 0, bmonths = 0, bdays = 0, bnanos = 0\<rparr>"

definition Builder_getUnitName :: "nat \<Rightarrow> string result" where
  "Builder_getUnitName unitIndex =
     (if unitIndex = 0 \<or> unitIndex > 10 then throw (GenericError (''unknown unit index: '' @ show_nat unitIndex))
      else return ([''years'', ''months'', ''weeks'', ''days'', ''hours'', ''minutes'', ''seconds'',
        ''milliseconds'', ''microseconds'', ''nanoseconds''] ! (unitIndex - 1)))"

definition Builder_validateOrder :: "Builder \<Rightarrow> nat \<Rightarrow> Builder result" where
  "Builder_validateOrder b unitIndex =
     (if unitIndex = bunit b
      then rbind (Builder_getUnitName unitIndex) (\<lambda>u.
        throw (TypeError (''Invalid duration. The '' @ u @ '' are specified multiple times'')))
      else if unitIndex \<le> bunit b
      then rbind (Builder_getUnitName (bunit b)) (\<lambda>u. rbind (Builder_getUnitName unitIndex) (\<lambda>v.
        throw (TypeError (''Invalid duration. The '' @ u @ '' should be after '' @ v))))
      else return (b\<lparr>bunit := unitIndex\<rparr>))"

definition Builder_validateMonths :: "Builder \<Rightarrow> int \<Rightarrow> int \<Rightarrow> unit result" where
  "Builder_validateMonths b units monthsPerUnit =
     (let maxMonths = 0x7fffffff + (if bneg b then 1 else 0)
      in if units * monthsPerUnit > maxMonths - bmonths b
         then throw (TypeError ''Invalid duration. The total number of months must fit in a 32 bit signed integer.'')
         else return ())"

definition Builder_validateDays :: "Builder \<Rightarrow> int \<Rightarrow> int \<Rightarrow> unit result" where
  "Builder_validateDays b units daysPerUnit =
     (let maxDays = 0x7fffffff + (if bneg b then 1 else 0)
      in if units * daysPerUnit > maxDays - bdays b
         then throw (TypeError ''Invalid duration. The total number of days must fit in a 32 bit signed integer.'')
         else return ())"

definition Builder_validateNanos :: "Builder \<Rightarrow> int \<Rightarrow> int \<Rightarrow> unit result" where
  "Builder_validateNanos b units nanosPerUnit =
     (let maxNanos = 0x7fffffffffffffff + (if bneg b then 1 else 0)
      in if units > (maxNanos - bnanos b) sdiv nanosPerUnit
         then throw (TypeError ''Invalid duration. The total number of nanoseconds must fit in a 64 bit signed integer.'')
         else return ())"

text \<open>The ten \<open>add\<close> methods. The text is a run of digits.\<close>

definition Builder_addYears :: "Builder \<Rightarrow> string \<Rightarrow> Builder result" where
  "Builder_addYears b years =
     (let value = digits_val years in
      rbind (Builder_validateOrder b 1) (\<lambda>b. rbind (Builder_validateMonths b value 12) (\<lambda>_.
        return (b\<lparr>bmonths := bmonths b + value * 12\<rparr>))))"

definition Builder_addMonths :: "Builder \<Rightarrow> string \<Rightarrow> Builder result" where
  "Builder_addMonths b months =
     (let value = digits_val months in
      rbind (Builder_validateOrder b 2) (\<lambda>b. rbind (Builder_validateMonths b value 1) (\<lambda>_.
        return (b\<lparr>bmonths := bmonths b + value\<rparr>))))"

definition Builder_addWeeks :: "Builder \<Rightarrow> string \<Rightarrow> Builder result" where
  "Builder_addWeeks b weeks =
     (let value = digits_val weeks in
      rbind (Builder_validateOrder b 3) (\<lambda>b. rbind (Builder_validateDays b value 7) (\<lambda>_.
        return (b\<lparr>bdays := bdays b + value * 7\<rparr>))))"

definition Builder_addDays :: "Builder \<Rightarrow> string \<Rightarrow> Builder result" where
  "Builder_addDays b days =
     (let value = digits_val days in
      rbind (Builder_validateOrder b 4) (\<lambda>b. rbind (Builder_validateDays b value 1) (\<lambda>_.
        return (b\<lparr>bdays := bdays b + value\<rparr>))))"

definition Builder_addHours :: "Builder \<Rightarrow> string \<Rightarrow> Builder result" where
  "Builder_addHours b hours =
     (let value = digits_val hours in
      rbind (Builder_validateOrder b 5) (\<lambda>b. rbind (Builder_validateNanos b value nanosPerHour) (\<lambda>_.
        return (b\<lparr>bnanos := bnanos b + value * nanosPerHour\<rparr>))))"

definition Builder_addMinutes :: "Builder \<Rightarrow> string \<Rightarrow> Builder result" where
  "Builder_addMinutes b minutes =
     (let value = digits_val minutes in
      rbind (Builder_validateOrder b 6) (\<lambda>b. rbind (Builder_validateNanos b value nanosPerMinute) (\<lambda>_.
        return (b\<lparr>bnanos := bnanos b + value * nanosPerMinute\<rparr>))))"

definition Builder_addSeconds :: "Builder \<Rightarrow> string \<Rightarrow> Builder result" where
  "Builder_addSeconds b seconds =
     (let value = digits_val seconds in
      rbind (Builder_validateOrder b 7) (\<lambda>b. rbind (Builder_validateNanos b value nanosPerSecond) (\<lambda>_.
        return (b\<lparr>bnanos := bnanos b + value * nanosPerSecond\<rparr>))))"

definition Builder_addMillis :: "Builder \<Rightarrow> string \<Rightarrow> Builder result" where
  "Builder_addMillis b millis =
     (let value = digits_val millis in
      rbind (Builder_validateOrder b 8) (\<lambda>b. rbind (Builder_validateNanos b value nanosPerMilli) (\<lambda>_.
        return (b\<lparr>bnanos := bnanos b + value * nanosPerMilli\<rparr>))))"

definition Builder_addMicros :: "Builder \<Rightarrow> string \<Rightarrow> Builder result" where
  "Builder_addMicros b micros =
     (let value = digits_val micros in
      rbind (Builder_validateOrder b 9) (\<lambda>b. rbind (Builder_validateNanos b value nanosPerMicro) (\<lambda>_.
        return (b\<lparr>bnanos := bnanos b + value * nanosPerMicro\<rparr>))))"

definition Builder_addNanos :: "Builder \<Rightarrow> string \<Rightarrow> Builder result" where
  "Builder_addNanos b nanos =
     (let value = digits_val nanos in
      rbind (Builder_validateOrder b 10) (\<lambda>b. rbind (Builder_validateNanos b value 1) (\<lambda>_.
        return (b\<lparr>bnanos := bnanos b + value\<rparr>))))"

text \<open>The micro sign of \<open>\<mu>s\<close> is code point B5.\<close>

definition Builder_add :: "Builder \<Rightarrow> string \<Rightarrow> string \<Rightarrow> Builder result" where
  "Builder_add b textValue symb =
     (let s = toLowerCase symb in
      if s = ''y'' then Builder_addYears b textValue
      else if s = ''mo'' then Builder_addMonths b textValue
      else if s = ''w'' then Builder_addWeeks b textValue
      else if s = ''d'' then Builder_addDays b textValue
      else if s = ''h'' then Builder_addHours b textValue
      else if s = ''m'' then Builder_addMinutes b textValue
      else if s = ''s'' then Builder_addSeconds b textValue
      else if s = ''ms'' then Builder_addMillis b textValue
      else if s = [CHR 0xB5, CHR 0x73] then Builder_addMicros b textValue
      else if s = ''us'' then Builder_addMicros b textValue
      else if s = ''ns'' then Builder_addNanos b textValue
      else throw (TypeError (''Unknown duration symbol '' @ quoted symb)))"

definition Builder_build :: "Builder \<Rightarrow> Duration result" where
  "Builder_build b =
     (if bneg b then new_Duration (JNumber (- bmonths b)) (JNumber (- bdays b)) (JBigInt (- bnanos b))
      else new_Duration (JNumber (bmonths b)) (JNumber (bdays b)) (JBigInt (bnanos b)))"

section \<open>Text formats\<close>

text \<open>The alternatives of \<open>standardRegex\<close> in its order, matched without regard to case.\<close>

definition standard_units :: "string list" where
  "standard_units = [''y'', ''mo'', ''w'', ''d'', ''h'', ''s'', ''ms'', ''us'', [CHR 0xB5, CHR 0x73], ''ns'', ''m'']"

definition match_unit :: "string \<Rightarrow> string option" where
  "match_unit s = map_option (\<lambda>u. take (length u) s)
     (List.find (\<lambda>u. starts_with (toLowerCase s) u) standard_units)"

text \<open>\<open>standardRegex.exec\<close>: the leftmost run of digits that a unit follows; digits, unit and the
  text after the match. A shorter run of digits at the same place is followed by a digit, so
  backtracking finds nothing else.\<close>

fun standard_exec :: "string \<Rightarrow> (string \<times> string \<times> string) option" where
  "standard_exec [] = None"
| "standard_exec (c # s) =
     (let ds = takeWhile is_digit (c # s); r = dropWhile is_digit (c # s)
      in case (if ds = [] then None else match_unit r) of
           Some u \<Rightarrow> Some (ds, u, drop (length u) r)
         | None \<Rightarrow> standard_exec s)"

lemma standard_exec_shorter: "standard_exec s = Some (ds, u, r) \<Longrightarrow> length r < length s"
proof (induction s rule: standard_exec.induct)
  case (2 c s)
  show ?case
  proof (cases "if takeWhile is_digit (c # s) = [] then None else match_unit (dropWhile is_digit (c # s))")
    case None
    then show ?thesis using 2 by (auto simp: Let_def intro: less_SucI split: if_splits)
  next
    case (Some v)
    have "length (dropWhile is_digit (c # s)) < length (c # s)"
      using Some by (simp add: length_dropWhile_le le_imp_less_Suc split: if_splits)
    then show ?thesis using 2(2) Some
      by (simp add: Let_def split: if_splits) (metis diff_le_self le_trans length_drop less_Suc_eq_le)
  qed
qed simp

function parseStandard_loop :: "Builder \<Rightarrow> string \<Rightarrow> Builder result" where
  "parseStandard_loop b source =
     (case standard_exec source of
        None \<Rightarrow> return b
      | Some (ds, u, rest) \<Rightarrow> rbind (Builder_add b ds u) (\<lambda>b. parseStandard_loop b rest))"
  by pat_completeness auto
termination
  by (relation "measure (\<lambda>(b, s). length s)") (auto dest: standard_exec_shorter)

declare parseStandard_loop.simps [simp del]

definition parseStandardFormat :: "bool \<Rightarrow> string \<Rightarrow> Duration result" where
  "parseStandardFormat isNegative source =
     rbind (parseStandard_loop (new_Builder isNegative) source) Builder_build"

definition unable :: "string \<Rightarrow> 'a result" where
  "unable source = throw (TypeError (''Unable to convert '' @ quoted source @ '' to a duration''))"

text \<open>An optional group \<open>((\d+)X)?\<close>: the digits and the text after it.\<close>

definition opt_field :: "char \<Rightarrow> string \<Rightarrow> string option \<times> string" where
  "opt_field c s =
     (let ds = takeWhile is_digit s; r = dropWhile is_digit s
      in if ds \<noteq> [] \<and> char_is r 0 c then (Some ds, tl r) else (None, s))"

definition add_field :: "(Builder \<Rightarrow> string \<Rightarrow> Builder result) \<Rightarrow> string option \<Rightarrow> Builder \<Rightarrow> Builder result" where
  "add_field f v b = (case v of None \<Rightarrow> return b | Some ds \<Rightarrow> f b ds)"

text \<open>The source starts with \<open>P\<close>, so \<open>iso8601Regex\<close> matches at its start; \<open>rest\<close> is what the match
  leaves.\<close>

definition parseIso8601Format :: "bool \<Rightarrow> string \<Rightarrow> Duration result" where
  "parseIso8601Format isNegative source =
     (let (y, rest) = opt_field CHR ''Y'' (tl source);
          (mo, rest) = opt_field CHR ''M'' rest;
          (d, rest) = opt_field CHR ''D'' rest;
          t = char_is rest 0 CHR ''T'';
          rest = (if t then tl rest else rest);
          (h, rest) = (if t then opt_field CHR ''H'' rest else (None, rest));
          (mi, rest) = (if t then opt_field CHR ''M'' rest else (None, rest));
          (s, rest) = (if t then opt_field CHR ''S'' rest else (None, rest))
      in if rest \<noteq> [] then unable source
         else rbind (add_field Builder_addYears y (new_Builder isNegative)) (\<lambda>b.
              rbind (add_field Builder_addMonths mo b) (\<lambda>b.
              rbind (add_field Builder_addDays d b) (\<lambda>b.
              rbind (add_field Builder_addHours h b) (\<lambda>b.
              rbind (add_field Builder_addMinutes mi b) (\<lambda>b.
              rbind (add_field Builder_addSeconds s b) Builder_build))))))"

definition parseIso8601WeekFormat :: "bool \<Rightarrow> string \<Rightarrow> Duration result" where
  "parseIso8601WeekFormat isNegative source =
     (case opt_field CHR ''W'' (tl source) of
        (Some ds, rest) \<Rightarrow> if rest \<noteq> [] then unable source
          else rbind (Builder_addWeeks (new_Builder isNegative) ds) Builder_build
      | (None, _) \<Rightarrow> unable source)"

text \<open>\<open>iso8601AlternateRegex\<close> has fixed positions: \<open>PYYYY-MM-DDThh:mm:ss\<close>.\<close>

definition all_digits_at :: "string \<Rightarrow> nat list \<Rightarrow> bool" where
  "all_digits_at s is = list_all (\<lambda>i. i < length s \<and> is_digit (s ! i)) is"

definition parseIso8601AlternativeFormat :: "bool \<Rightarrow> string \<Rightarrow> Duration result" where
  "parseIso8601AlternativeFormat isNegative source =
     (let at = (\<lambda>i n. take n (drop i source))
      in if length source \<noteq> 20 \<or>
            \<not> all_digits_at source [1, 2, 3, 4, 6, 7, 9, 10, 12, 13, 15, 16, 18, 19] \<or>
            \<not> char_is source 5 CHR ''-'' \<or> \<not> char_is source 8 CHR ''-'' \<or> \<not> char_is source 11 CHR ''T'' \<or>
            \<not> char_is source 14 CHR '':'' \<or> \<not> char_is source 17 CHR '':''
         then unable source
         else rbind (Builder_addYears (new_Builder isNegative) (at 1 4)) (\<lambda>b.
              rbind (Builder_addMonths b (at 6 2)) (\<lambda>b.
              rbind (Builder_addDays b (at 9 2)) (\<lambda>b.
              rbind (Builder_addHours b (at 12 2)) (\<lambda>b.
              rbind (Builder_addMinutes b (at 15 2)) (\<lambda>b.
              rbind (Builder_addSeconds b (at 18 2)) Builder_build))))))"

definition Duration_fromString :: "string \<Rightarrow> Duration result" where
  "Duration_fromString input =
     (let isNegative = char_is input 0 CHR ''-'';
          source = (if isNegative then tl input else input)
      in if char_is source 0 CHR ''P''
         then if char_is source (length source - 1) CHR ''W'' then parseIso8601WeekFormat isNegative source
              else if index_of source CHR ''-'' > 0 then parseIso8601AlternativeFormat isNegative source
              else parseIso8601Format isNegative source
         else parseStandardFormat isNegative source)"

end
