(* ===== verification/Duration_Correct.thy ===== *)
theory Duration_Correct
  imports Duration
begin

text \<open>
  What \<open>Duration\<close> and its \<open>Builder\<close> guarantee. \<open>Duration_valid\<close> is what the constructor checks.
  The ten \<open>add\<close> methods of \<open>Builder\<close> share one contract, the locale \<open>builder_unit\<close>: a unit is
  accepted when it stands after every unit seen and the total stays in range, and is refused with
  a \<open>TypeError\<close> otherwise. The round trips through bytes and text follow from it and from the
  contract of the variable-length integers.
\<close>

section \<open>The value\<close>

definition Duration_valid :: "Duration \<Rightarrow> bool" where
  "Duration_valid d \<longleftrightarrow> is_int32 (dmonths d) \<and> is_int32 (ddays d) \<and> is_int64 (dnanos d)"

lemma ensure32_JNumber: "is_return (ensure32SignedInteger (JNumber n) s) \<longleftrightarrow> is_int32 n"
  by (auto simp: ensure32SignedInteger_def is_int32_def)

lemma ensure32_ok [simp]: "is_int32 n \<Longrightarrow> ensure32SignedInteger (JNumber n) s = Inr n"
  by (simp add: ensure32SignedInteger_def is_int32_def)

lemma ensure64_ok [simp]: "is_int64 n \<Longrightarrow> ensure64SignedInteger n s = Inr n"
  by (simp add: ensure64SignedInteger_def is_int64_def)

lemma ensure32_Inr: "ensure32SignedInteger x s = Inr n \<Longrightarrow> is_int32 n"
  by (auto simp: ensure32SignedInteger_def is_int32_def split: js_num.splits if_splits)

lemma ensure64_Inr: "ensure64SignedInteger x s = Inr n \<Longrightarrow> n = x \<and> is_int64 n"
  by (auto simp: ensure64SignedInteger_def is_int64_def split: if_splits)

lemma new_Duration_ok:
  "Duration_valid d \<Longrightarrow> new_Duration (JNumber (dmonths d)) (JNumber (ddays d)) (JBigInt (dnanos d)) = Inr d"
  by (simp add: new_Duration_def Duration_valid_def)

lemma new_Duration_valid: "new_Duration m d n = Inr r \<Longrightarrow> Duration_valid r"
  by (auto simp: new_Duration_def Duration_valid_def split: if_splits dest: ensure32_Inr ensure64_Inr)

section \<open>Wire form\<close>

definition reusable_ok :: "reusableBuffers \<Rightarrow> bool" where
  "reusable_ok rb \<longleftrightarrow> length (rmonths rb) = 9 \<and> length (rdays rb) = 9 \<and> length (rnanos rb) = 9"

text \<open>What a buffer held before does not reach the bytes taken from it.\<close>

lemma writeVInt_reuse:
  assumes "is_int64 n" "length b = 9"
  shows "take (fst (writeVInt n b)) (snd (writeVInt n b)) = vint_enc n \<and> length (snd (writeVInt n b)) = 9"
proof -
  let ?v = "encodeZigZag64 n"
  have z: "0 \<le> ?v" "?v < 2 ^ 64" by (rule encodeZigZag64_range)+
  have same: "fst (writeUnsignedVInt ?v b) = fst (writeUnsignedVInt ?v (replicate 9 0))"
    by (simp add: writeUnsignedVInt_def Let_def)
  obtain d where d: "writeUnsignedVInt ?v b = (Suc d, vint_bytes ?v d @ drop (Suc d) b)" "d \<le> 8"
    using writeUnsignedVInt_eq[OF z, of b] assms(2) by (metis order_refl)
  obtain e where e: "writeUnsignedVInt ?v (replicate 9 0) = (Suc e, vint_bytes ?v e @ drop (Suc e) (replicate 9 0))"
    using writeUnsignedVInt_eq[OF z, of "replicate 9 0"] by (metis length_replicate order_refl)
  have "length (vint_bytes ?v d) = Suc d" by (simp add: vint_bytes_def del: be_bytes.simps)
  then show ?thesis using same d e assms(2) by (simp add: writeVInt_def vint_enc_def)
qed

lemma int32_int64: "is_int32 n \<Longrightarrow> is_int64 n"
  by (simp add: is_int32_def is_int64_def)

lemma toBuffer_vint:
  assumes "Duration_valid d" "reusable_ok rb"
  shows "fst (Duration_toBuffer d rb) = vint_enc (dmonths d) @ vint_enc (ddays d) @ vint_enc (dnanos d)"
    and "reusable_ok (snd (Duration_toBuffer d rb))"
  using assms writeVInt_reuse[of "dmonths d" "rmonths rb"] writeVInt_reuse[of "ddays d" "rdays rb"]
    writeVInt_reuse[of "dnanos d" "rnanos rb"]
  by (simp_all add: Duration_toBuffer_def Duration_valid_def reusable_ok_def int32_int64 split_def)

lemma fromBuffer_vint:
  assumes "Duration_valid d"
  shows "Duration_fromBuffer (vint_enc (dmonths d) @ vint_enc (ddays d) @ vint_enc (dnanos d) @ r) = Inr d"
proof -
  note i = assms[unfolded Duration_valid_def]
  have "readVInt (vint_enc (dmonths d) @ vint_enc (ddays d) @ vint_enc (dnanos d) @ r) 0 = Inr (dmonths d, length (vint_enc (dmonths d)))"
    using vint.dec_enc[of "dmonths d" "[]"] i by (simp add: int32_int64)
  moreover have "readVInt (vint_enc (dmonths d) @ vint_enc (ddays d) @ vint_enc (dnanos d) @ r) (length (vint_enc (dmonths d)))
      = Inr (ddays d, length (vint_enc (dmonths d)) + length (vint_enc (ddays d)))"
    using vint.dec_enc[of "ddays d" "vint_enc (dmonths d)"] i by (simp add: int32_int64)
  moreover have "readVInt (vint_enc (dmonths d) @ vint_enc (ddays d) @ vint_enc (dnanos d) @ r) (length (vint_enc (dmonths d)) + length (vint_enc (ddays d)))
      = Inr (dnanos d, length (vint_enc (dmonths d)) + length (vint_enc (ddays d)) + length (vint_enc (dnanos d)))"
    using vint.dec_enc[of "dnanos d" "vint_enc (dmonths d) @ vint_enc (ddays d)" r] i by simp
  ultimately show ?thesis using new_Duration_ok[OF assms] by (simp add: Duration_fromBuffer_def)
qed

section \<open>The contract of the units\<close>

definition max32 :: "Builder \<Rightarrow> int" where
  "max32 b = 2147483647 + (if bneg b then 1 else 0)"

definition max64 :: "Builder \<Rightarrow> int" where
  "max64 b = 9223372036854775807 + (if bneg b then 1 else 0)"

definition Builder_inv :: "Builder \<Rightarrow> bool" where
  "Builder_inv b \<longleftrightarrow> 0 \<le> bmonths b \<and> bmonths b \<le> max32 b \<and> 0 \<le> bdays b \<and> bdays b \<le> max32 b
     \<and> 0 \<le> bnanos b \<and> bnanos b \<le> max64 b"

definition bump :: "nat \<Rightarrow> int \<Rightarrow> int \<Rightarrow> int \<Rightarrow> Builder \<Rightarrow> Builder" where
  "bump k m d n b = b\<lparr>bunit := k, bmonths := bmonths b + m, bdays := bdays b + d, bnanos := bnanos b + n\<rparr>"

definition add_outcome :: "Builder \<Rightarrow> Builder result \<Rightarrow> bool" where
  "add_outcome b m \<longleftrightarrow> is_TypeError m \<or>
     (\<exists>b'. m = Inr b' \<and> Builder_inv b' \<and> bunit b < bunit b' \<and> bunit b' \<le> 10 \<and> bneg b' = bneg b)"

locale builder_unit =
  fixes add :: "Builder \<Rightarrow> string \<Rightarrow> Builder result"
    and k :: nat and pm pd pn :: int
  assumes index: "k \<le> 10"
    and per_unit: "0 \<le> pm" "0 \<le> pd" "0 \<le> pn"
    and add_ok: "\<lbrakk>Builder_inv b; list_all is_digit t; bunit b < k;
        Builder_inv (bump k (digits_val t * pm) (digits_val t * pd) (digits_val t * pn) b)\<rbrakk>
      \<Longrightarrow> add b t = Inr (bump k (digits_val t * pm) (digits_val t * pd) (digits_val t * pn) b)"
    and add_refused: "\<lbrakk>Builder_inv b; list_all is_digit t; bunit b \<le> 10; k \<le> bunit b \<or>
        \<not> Builder_inv (bump k (digits_val t * pm) (digits_val t * pd) (digits_val t * pn) b)\<rbrakk>
      \<Longrightarrow> is_TypeError (add b t)"
begin

lemma outcome:
  assumes "Builder_inv b" "list_all is_digit t" "bunit b \<le> 10"
  shows "add_outcome b (add b t)"
proof (cases "bunit b < k \<and> Builder_inv (bump k (digits_val t * pm) (digits_val t * pd) (digits_val t * pn) b)")
  case True
  then show ?thesis using add_ok[OF assms(1,2)] index by (auto simp: bump_def add_outcome_def)
next
  case False
  then show ?thesis using add_refused[OF assms] by (auto simp: add_outcome_def)
qed

end

lemma digits_nonneg_mult: "list_all is_digit t \<Longrightarrow> 0 \<le> p \<Longrightarrow> 0 \<le> digits_val t * p"
  using digits_val_nonneg by simp

lemma validateOrder_ok: "bunit b < i \<Longrightarrow> Builder_validateOrder b i = Inr (b\<lparr>bunit := i\<rparr>)"
  by (simp add: Builder_validateOrder_def)

lemma validateOrder_bad: "0 < i \<Longrightarrow> i \<le> 10 \<Longrightarrow> bunit b \<le> 10 \<Longrightarrow> i \<le> bunit b \<Longrightarrow> is_TypeError (Builder_validateOrder b i)"
  by (auto simp: Builder_validateOrder_def Builder_getUnitName_def)

lemma is_TypeError_rbind: "is_TypeError m \<Longrightarrow> is_TypeError (rbind m f)"
  by (cases m) (auto simp: is_TypeError_iff)

lemma quot_bound: "0 < p \<Longrightarrow> 0 \<le> x \<Longrightarrow> v > x sdiv p \<longleftrightarrow> v * p > x" for v :: int
proof -
  assume "0 < p" "0 \<le> x"
  moreover from this have "x sdiv p = x div p"
    by (cases "x = 0") (simp_all add: signed_divide_int_def)
  ultimately show ?thesis using zdiv_less[of p x v] zdiv_ge[of p v x] by force
qed

lemma validate_eqs:
  "is_TypeError (Builder_validateMonths b v p) \<longleftrightarrow> bmonths b + v * p > max32 b"
  "Builder_validateMonths b v p = Inr () \<longleftrightarrow> bmonths b + v * p \<le> max32 b"
  "is_TypeError (Builder_validateDays b v p) \<longleftrightarrow> bdays b + v * p > max32 b"
  "Builder_validateDays b v p = Inr () \<longleftrightarrow> bdays b + v * p \<le> max32 b"
  "0 < p \<Longrightarrow> bnanos b \<le> max64 b \<Longrightarrow> is_TypeError (Builder_validateNanos b v p) \<longleftrightarrow> bnanos b + v * p > max64 b"
  "0 < p \<Longrightarrow> bnanos b \<le> max64 b \<Longrightarrow> Builder_validateNanos b v p = Inr () \<longleftrightarrow> bnanos b + v * p \<le> max64 b"
  using quot_bound[of p "max64 b - bnanos b" v]
  by (auto simp: Builder_validateMonths_def Builder_validateDays_def Builder_validateNanos_def max32_def max64_def Let_def)

lemma unit_of_checks:
  assumes k: "0 < k" "k \<le> 10" and per: "0 \<le> pm" "0 \<le> pd" "0 \<le> pn"
    and add: "\<And>b t. add b t = rbind (Builder_validateOrder b k) (\<lambda>b. rbind (check b (digits_val t)) (\<lambda>_.
        Inr (upd b (digits_val t))))"
    and upd: "\<And>b v. bunit b = k \<Longrightarrow> upd b v = bump k (v * pm) (v * pd) (v * pn) b"
    and check: "\<And>b v. Builder_inv b \<Longrightarrow> 0 \<le> v \<Longrightarrow>
        if Builder_inv (bump k (v * pm) (v * pd) (v * pn) b) then check b v = Inr () else is_TypeError (check b v)"
  shows "builder_unit add k pm pd pn"
proof
  have idx: "Builder_inv (b\<lparr>bunit := k\<rparr>) = Builder_inv b" "bump k m d n (b\<lparr>bunit := k\<rparr>) = bump k m d n b" for b m d n
    by (simp_all add: Builder_inv_def max32_def max64_def bump_def)
  fix b t
  assume b: "Builder_inv b" and t: "list_all is_digit t"
  let ?b' = "bump k (digits_val t * pm) (digits_val t * pd) (digits_val t * pn) b"
  have c: "if Builder_inv ?b' then check (b\<lparr>bunit := k\<rparr>) (digits_val t) = Inr () else is_TypeError (check (b\<lparr>bunit := k\<rparr>) (digits_val t))"
    using check[of "b\<lparr>bunit := k\<rparr>" "digits_val t"] b digits_val_nonneg[OF t] by (simp add: idx)
  show "bunit b < k \<Longrightarrow> Builder_inv ?b' \<Longrightarrow> add b t = Inr ?b'"
    using c by (simp add: add validateOrder_ok upd idx)
  assume "bunit b \<le> 10" "k \<le> bunit b \<or> \<not> Builder_inv ?b'"
  then show "is_TypeError (add b t)"
    using c k validateOrder_bad[of k b] by (cases "bunit b < k") (auto simp: add validateOrder_ok intro!: is_TypeError_rbind)
qed (use per k in auto)

lemma bump_inv:
  assumes "Builder_inv b" "0 \<le> v"
  shows "0 \<le> p \<Longrightarrow> Builder_inv (bump k (v * p) 0 0 b) \<longleftrightarrow> bmonths b + v * p \<le> max32 b"
    and "0 \<le> p \<Longrightarrow> Builder_inv (bump k 0 (v * p) 0 b) \<longleftrightarrow> bdays b + v * p \<le> max32 b"
    and "0 \<le> p \<Longrightarrow> Builder_inv (bump k 0 0 (v * p) b) \<longleftrightarrow> bnanos b + v * p \<le> max64 b"
  using assms by (auto simp: Builder_inv_def bump_def max32_def max64_def)

lemma bump_field:
  "bunit b = k \<Longrightarrow> b\<lparr>bmonths := bmonths b + x\<rparr> = bump k x 0 0 b"
  "bunit b = k \<Longrightarrow> b\<lparr>bdays := bdays b + x\<rparr> = bump k 0 x 0 b"
  "bunit b = k \<Longrightarrow> b\<lparr>bnanos := bnanos b + x\<rparr> = bump k 0 0 x b"
  by (simp_all add: bump_def)

lemma months_unit:
  assumes "\<And>b t. add b t = rbind (Builder_validateOrder b k) (\<lambda>b. rbind (Builder_validateMonths b (digits_val t) p)
      (\<lambda>_. Inr (b\<lparr>bmonths := bmonths b + digits_val t * p\<rparr>)))" "0 < k" "k \<le> 10" "0 < p"
  shows "builder_unit add k p 0 0"
  using assms(2-4)
  by (intro unit_of_checks[where check = "\<lambda>b v. Builder_validateMonths b v p" and upd = "\<lambda>b v. b\<lparr>bmonths := bmonths b + v * p\<rparr>"] assms(1)) (auto simp: bump_field bump_inv validate_eqs not_le)

lemma days_unit:
  assumes "\<And>b t. add b t = rbind (Builder_validateOrder b k) (\<lambda>b. rbind (Builder_validateDays b (digits_val t) p)
      (\<lambda>_. Inr (b\<lparr>bdays := bdays b + digits_val t * p\<rparr>)))" "0 < k" "k \<le> 10" "0 < p"
  shows "builder_unit add k 0 p 0"
  using assms(2-4)
  by (intro unit_of_checks[where check = "\<lambda>b v. Builder_validateDays b v p" and upd = "\<lambda>b v. b\<lparr>bdays := bdays b + v * p\<rparr>"] assms(1)) (auto simp: bump_field bump_inv validate_eqs not_le)

lemma nanos_unit:
  assumes "\<And>b t. add b t = rbind (Builder_validateOrder b k) (\<lambda>b. rbind (Builder_validateNanos b (digits_val t) p)
      (\<lambda>_. Inr (b\<lparr>bnanos := bnanos b + digits_val t * p\<rparr>)))" "0 < k" "k \<le> 10" "0 < p"
  shows "builder_unit add k 0 0 p"
proof -
  have n: "Builder_inv b \<Longrightarrow> bnanos b \<le> max64 b" for b by (simp add: Builder_inv_def)
  show ?thesis using assms(2-4)
    by (intro unit_of_checks[where check = "\<lambda>b v. Builder_validateNanos b v p" and upd = "\<lambda>b v. b\<lparr>bnanos := bnanos b + v * p\<rparr>"] assms(1)) (auto simp: bump_field bump_inv validate_eqs n not_le)
qed

lemmas nanos_per = nanosPerMicro_def nanosPerMilli_def nanosPerSecond_def nanosPerMinute_def nanosPerHour_def

interpretation years: builder_unit Builder_addYears 1 12 0 0
  by (rule months_unit) (simp_all add: Builder_addYears_def Let_def)

interpretation months: builder_unit Builder_addMonths 2 1 0 0
  by (rule months_unit) (simp_all add: Builder_addMonths_def Let_def)

interpretation weeks: builder_unit Builder_addWeeks 3 0 7 0
  by (rule days_unit) (simp_all add: Builder_addWeeks_def Let_def)

interpretation days: builder_unit Builder_addDays 4 0 1 0
  by (rule days_unit) (simp_all add: Builder_addDays_def Let_def)

interpretation hours: builder_unit Builder_addHours 5 0 0 nanosPerHour
  by (rule nanos_unit) (simp_all add: Builder_addHours_def Let_def nanos_per)

interpretation minutes: builder_unit Builder_addMinutes 6 0 0 nanosPerMinute
  by (rule nanos_unit) (simp_all add: Builder_addMinutes_def Let_def nanos_per)

interpretation seconds: builder_unit Builder_addSeconds 7 0 0 nanosPerSecond
  by (rule nanos_unit) (simp_all add: Builder_addSeconds_def Let_def nanos_per)

interpretation millis: builder_unit Builder_addMillis 8 0 0 nanosPerMilli
  by (rule nanos_unit) (simp_all add: Builder_addMillis_def Let_def nanos_per)

interpretation micros: builder_unit Builder_addMicros 9 0 0 nanosPerMicro
  by (rule nanos_unit) (simp_all add: Builder_addMicros_def Let_def nanos_per)

interpretation nanos: builder_unit Builder_addNanos 10 0 0 1
  by (rule nanos_unit) (simp_all add: Builder_addNanos_def Let_def)

section \<open>Every format builds a duration in range\<close>

lemmas unit_outcomes = years.outcome months.outcome weeks.outcome days.outcome hours.outcome
  minutes.outcome seconds.outcome millis.outcome micros.outcome nanos.outcome

lemma add_outcome_add:
  assumes "Builder_inv b" "list_all is_digit t" "bunit b \<le> 10"
  shows "add_outcome b (Builder_add b t u)"
proof -
  have "add_outcome b (throw (TypeError m))" for m by (simp add: add_outcome_def)
  then show ?thesis using unit_outcomes[OF assms] by (simp add: Builder_add_def Let_def)
qed

definition builder_ok :: "bool \<Rightarrow> Builder \<Rightarrow> bool" where
  "builder_ok neg b \<longleftrightarrow> Builder_inv b \<and> bunit b \<le> 10 \<and> bneg b = neg"

definition signed_as :: "bool \<Rightarrow> Duration \<Rightarrow> bool" where
  "signed_as neg d \<longleftrightarrow> (if neg then dmonths d \<le> 0 \<and> ddays d \<le> 0 \<and> dnanos d \<le> 0
     else 0 \<le> dmonths d \<and> 0 \<le> ddays d \<and> 0 \<le> dnanos d)"

definition parse_outcome :: "bool \<Rightarrow> Duration result \<Rightarrow> bool" where
  "parse_outcome neg m \<longleftrightarrow> is_TypeError m \<or> (\<exists>d. m = Inr d \<and> Duration_valid d \<and> signed_as neg d)"

lemma Builder_build_eq:
  assumes "Builder_inv b"
  shows "Builder_build b = Inr (if bneg b then \<lparr>dmonths = - bmonths b, ddays = - bdays b, dnanos = - bnanos b\<rparr>
    else \<lparr>dmonths = bmonths b, ddays = bdays b, dnanos = bnanos b\<rparr>)"
proof -
  have "is_int32 (bmonths b)" "is_int32 (bdays b)" "is_int64 (bnanos b)" if "\<not> bneg b"
    using assms that by (simp_all add: Builder_inv_def max32_def max64_def is_int32_def is_int64_def)
  moreover have "is_int32 (- bmonths b)" "is_int32 (- bdays b)" "is_int64 (- bnanos b)" if "bneg b"
    using assms that by (simp_all add: Builder_inv_def max32_def max64_def is_int32_def is_int64_def)
  ultimately show ?thesis by (simp add: Builder_build_def new_Duration_def)
qed

lemma build_outcome: "builder_ok neg b \<Longrightarrow> parse_outcome neg (Builder_build b)"
  by (auto simp: parse_outcome_def builder_ok_def Builder_build_eq signed_as_def Duration_valid_def
      Builder_inv_def max32_def max64_def is_int32_def is_int64_def)

lemma new_Builder_ok: "builder_ok neg (new_Builder neg)"
  by (simp add: builder_ok_def new_Builder_def Builder_inv_def max32_def max64_def)

lemma bind_outcome:
  assumes "builder_ok neg b" "add_outcome b m" "\<And>b'. m = Inr b' \<Longrightarrow> builder_ok neg b' \<Longrightarrow> parse_outcome neg (f b')"
  shows "parse_outcome neg (rbind m f)"
  using assms(2) unfolding add_outcome_def
proof
  assume "is_TypeError m"
  then show ?thesis by (simp add: parse_outcome_def is_TypeError_rbind)
next
  assume "\<exists>b'. m = Inr b' \<and> Builder_inv b' \<and> bunit b < bunit b' \<and> bunit b' \<le> 10 \<and> bneg b' = bneg b"
  then obtain b' where "m = Inr b'" "builder_ok neg b'" using assms(1) by (auto simp: builder_ok_def)
  then show ?thesis using assms(3) by simp
qed

lemma bind_unit:
  assumes "builder_ok neg b" "list_all is_digit t"
    "\<And>b. Builder_inv b \<Longrightarrow> list_all is_digit t \<Longrightarrow> bunit b \<le> 10 \<Longrightarrow> add_outcome b (add b t)"
    "\<And>b'. builder_ok neg b' \<Longrightarrow> parse_outcome neg (f b')"
  shows "parse_outcome neg (rbind (add b t) f)"
  using assms by (intro bind_outcome[OF assms(1)]) (auto simp: builder_ok_def)

lemma bind_field:
  assumes "builder_ok neg b" "\<And>t. v = Some t \<Longrightarrow> list_all is_digit t"
    "\<And>b t. Builder_inv b \<Longrightarrow> list_all is_digit t \<Longrightarrow> bunit b \<le> 10 \<Longrightarrow> add_outcome b (add b t)"
    "\<And>b'. builder_ok neg b' \<Longrightarrow> parse_outcome neg (f b')"
  shows "parse_outcome neg (rbind (add_field add v b) f)"
  using assms by (cases v) (auto simp: add_field_def intro: bind_unit)

lemma takeWhile_all: "list_all P (takeWhile P s)"
  by (auto simp: list_all_iff dest: set_takeWhileD)

lemma opt_field_digits: "opt_field c s = (Some t, r) \<Longrightarrow> list_all is_digit t"
  by (auto simp: opt_field_def Let_def takeWhile_all split: if_splits)

lemma opt_field_fst: "fst (opt_field c s) = Some t \<Longrightarrow> list_all is_digit t"
  using opt_field_digits[of c s t "snd (opt_field c s)"] by (metis prod.collapse)

lemma outcome_if:
  "(c \<Longrightarrow> parse_outcome neg x) \<Longrightarrow> (\<not> c \<Longrightarrow> parse_outcome neg y) \<Longrightarrow> parse_outcome neg (if c then x else y)"
  by simp

lemma unable_outcome: "parse_outcome neg (unable s)"
  by (simp add: unable_def parse_outcome_def)

lemma standard_exec_digits: "standard_exec s = Some (t, u, r) \<Longrightarrow> list_all is_digit t"
proof (induction s rule: standard_exec.induct)
  case (2 c s)
  then show ?case using takeWhile_all[of is_digit "c # s"]
    by (auto simp: Let_def split: if_splits option.splits)
qed simp

lemma parseStandard_outcome:
  "builder_ok neg b \<Longrightarrow> parse_outcome neg (rbind (parseStandard_loop b s) Builder_build)"
proof (induction b s rule: parseStandard_loop.induct)
  case (1 b s)
  show ?case
  proof (cases "standard_exec s")
    case None
    then show ?thesis using 1(2) by (subst parseStandard_loop.simps) (simp add: build_outcome)
  next
    case (Some x)
    then obtain t u r where x: "standard_exec s = Some (t, u, r)" by (cases x) auto
    have "parse_outcome neg (rbind (Builder_add b t u) (\<lambda>b. rbind (parseStandard_loop b r) Builder_build))"
    proof (rule bind_outcome[OF 1(2)])
      show "add_outcome b (Builder_add b t u)"
        using 1(2) standard_exec_digits[OF x] by (intro add_outcome_add) (auto simp: builder_ok_def)
    qed (use 1(1) x in auto)
    then show ?thesis using x by (subst parseStandard_loop.simps) (simp add: rbind_assoc)
  qed
qed

lemma parseIso_outcome: "parse_outcome neg (parseIso8601Format neg s)"
  unfolding parseIso8601Format_def Let_def split_def
  by (intro outcome_if unable_outcome bind_field new_Builder_ok unit_outcomes build_outcome)
    (auto split: if_splits dest: opt_field_fst)

lemma parseIsoWeek_outcome: "parse_outcome neg (parseIso8601WeekFormat neg s)"
  unfolding parseIso8601WeekFormat_def
  by (auto split: prod.split option.split
      intro!: unable_outcome bind_unit[OF new_Builder_ok] unit_outcomes build_outcome dest: opt_field_digits)

lemma all_digits_slice:
  "all_digits_at s is \<Longrightarrow> list_all (\<lambda>j. j \<in> set is) [i..<i + n] \<Longrightarrow> list_all is_digit (take n (drop i s))"
  by (auto simp: all_digits_at_def list_all_iff in_set_conv_nth)

lemma parseIsoAlternative_outcome: "parse_outcome neg (parseIso8601AlternativeFormat neg s)"
proof -
  let ?is = "[1, 2, 3, 4, 6, 7, 9, 10, 12, 13, 15, 16, 18, 19]"
  have d: "list_all is_digit (take 4 (drop 1 s))" "list_all is_digit (take 2 (drop 6 s))"
      "list_all is_digit (take 2 (drop 9 s))" "list_all is_digit (take 2 (drop 12 s))"
      "list_all is_digit (take 2 (drop 15 s))" "list_all is_digit (take 2 (drop 18 s))"
    if "all_digits_at s ?is"
    by (rule all_digits_slice[OF that], code_simp)+
  show ?thesis
    unfolding parseIso8601AlternativeFormat_def Let_def
    by (intro outcome_if unable_outcome new_Builder_ok unit_outcomes build_outcome
        bind_unit[where add = Builder_addYears] bind_unit[where add = Builder_addMonths]
        bind_unit[where add = Builder_addDays] bind_unit[where add = Builder_addHours]
        bind_unit[where add = Builder_addMinutes] bind_unit[where add = Builder_addSeconds])
      (use d in auto)
qed

lemma fromString_outcome: "parse_outcome (char_is s 0 CHR ''-'') (Duration_fromString s)"
  unfolding Duration_fromString_def Let_def
  using parseStandard_outcome[OF new_Builder_ok]
  by (auto simp: parseStandardFormat_def intro: parseIso_outcome parseIsoWeek_outcome parseIsoAlternative_outcome)

section \<open>Text round trip\<close>

definition seg :: "int \<Rightarrow> string \<Rightarrow> string" where
  "seg q u = (if q = 0 then [] else show_nat (nat q) @ u)"

definition starts_digit :: "string \<Rightarrow> bool" where
  "starts_digit r \<longleftrightarrow> r = [] \<or> is_digit (hd r)"

lemma seg_starts_digit: "starts_digit r \<Longrightarrow> starts_digit (seg q u @ r)"
  using show_nat_digits[of "nat q"] by (cases "show_nat (nat q)") (auto simp: seg_def starts_digit_def)

lemma append_seg:
  "0 \<le> x \<Longrightarrow> 0 < p \<Longrightarrow> Duration_append v x p u = (v @ seg (x div p) u, x mod p)"
  using pos_imp_zdiv_nonneg_iff[of p x] pos_imp_zdiv_pos_iff[of p x]
  by (auto simp: Duration_append_def seg_def show_int_def not_less div_pos_pos_trivial mod_pos_pos_trivial)

lemma digit_lower: "is_digit c \<Longrightarrow> to_lower c = c"
  by (simp add: is_digit_def to_lower_def)

lemma digit_not_letter: "is_digit c \<Longrightarrow> c \<noteq> CHR ''o'' \<and> c \<noteq> CHR ''s''"
  by (auto simp: is_digit_def)

definition printed_units :: "string list" where
  "printed_units = [''y'', ''mo'', ''d'', ''h'', ''m'', ''s'', ''ms'', ''us'', ''ns'']"

lemma match_printed:
  assumes "u \<in> set printed_units" "starts_digit r"
  shows "match_unit (u @ r) = Some u" "u \<noteq> [] \<and> \<not> is_digit (hd u)"
proof -
  have l: "to_lower CHR ''y'' = CHR ''y''" "to_lower CHR ''m'' = CHR ''m''" "to_lower CHR ''o'' = CHR ''o''"
    "to_lower CHR ''d'' = CHR ''d''" "to_lower CHR ''h'' = CHR ''h''" "to_lower CHR ''s'' = CHR ''s''"
    "to_lower CHR ''u'' = CHR ''u''" "to_lower CHR ''n'' = CHR ''n''" by (simp_all add: to_lower_def)
  have u: "u = ''y'' \<or> u = ''mo'' \<or> u = ''d'' \<or> u = ''h'' \<or> u = ''m'' \<or> u = ''s'' \<or> u = ''ms'' \<or> u = ''us'' \<or> u = ''ns''"
    using assms(1) by (simp add: printed_units_def)
  show "match_unit (u @ r) = Some u"
  proof (cases r)
    case Nil
    from u show ?thesis by (elim disjE) (simp_all add: Nil match_unit_def standard_units_def toLowerCase_def l)
  next
    case (Cons c r')
    then have "is_digit c" using assms(2) by (simp add: starts_digit_def)
    then have c: "to_lower c = c" "c \<noteq> CHR ''o''" "c \<noteq> CHR ''s''" using digit_lower digit_not_letter by blast+
    from u show ?thesis by (elim disjE) (simp_all add: Cons c match_unit_def standard_units_def toLowerCase_def l)
  qed
  show "u \<noteq> [] \<and> \<not> is_digit (hd u)" using assms(1) by (auto simp: printed_units_def is_digit_def)
qed

lemma standard_exec_seg:
  assumes "u \<in> set printed_units" "starts_digit r"
  shows "standard_exec (show_nat q @ u @ r) = Some (show_nat q, u, r)"
proof -
  obtain c cs where c: "show_nat q = c # cs" by (cases "show_nat q") auto
  have "u @ r = [] \<or> \<not> is_digit (hd (u @ r))" using match_printed(2)[OF assms] by auto
  note w = takeWhile_digits[OF show_nat_digits[of q] this]
  show ?thesis using w match_printed(1)[OF assms] unfolding c by (simp add: Let_def)
qed

context builder_unit
begin

lemma parse_seg:
  assumes u: "u \<in> set printed_units" "\<And>b t. Builder_add b t u = add b t" and r: "starts_digit r"
    and b: "Builder_inv b" "bunit b < k" and q: "0 \<le> q"
    and fits: "bmonths b + q * pm \<le> max32 b" "bdays b + q * pd \<le> max32 b" "bnanos b + q * pn \<le> max64 b"
  shows "\<exists>b'. parseStandard_loop b (seg q u @ r) = parseStandard_loop b' r \<and> Builder_inv b' \<and> bunit b' \<le> k
    \<and> bneg b' = bneg b \<and> bmonths b' = bmonths b + q * pm \<and> bdays b' = bdays b + q * pd \<and> bnanos b' = bnanos b + q * pn"
proof (cases "q = 0")
  case True
  then show ?thesis using b by (intro exI[of _ b]) (simp add: seg_def)
next
  case False
  let ?b' = "bump k (q * pm) (q * pd) (q * pn) b"
  have inv: "Builder_inv ?b'"
    using b(1) q fits per_unit by (auto simp: Builder_inv_def bump_def max32_def max64_def)
  have "add b (show_nat (nat q)) = Inr ?b'"
    using add_ok[OF b(1) show_nat_digits b(2), of "nat q"] inv q by simp
  then have "parseStandard_loop b (seg q u @ r) = parseStandard_loop ?b' r"
    using False standard_exec_seg[OF u(1) r] by (subst parseStandard_loop.simps) (simp add: seg_def u(2))
  then show ?thesis using inv by (intro exI[of _ ?b']) (simp add: bump_def)
qed

end

lemma Builder_add_units:
  "Builder_add b t ''y'' = Builder_addYears b t" "Builder_add b t ''mo'' = Builder_addMonths b t"
  "Builder_add b t ''d'' = Builder_addDays b t" "Builder_add b t ''h'' = Builder_addHours b t"
  "Builder_add b t ''m'' = Builder_addMinutes b t" "Builder_add b t ''s'' = Builder_addSeconds b t"
  "Builder_add b t ''ms'' = Builder_addMillis b t" "Builder_add b t ''us'' = Builder_addMicros b t"
  "Builder_add b t ''ns'' = Builder_addNanos b t"
  by (simp_all add: Builder_add_def toLowerCase_def to_lower_def)

lemma units_printed:
  "''y'' \<in> set printed_units" "''mo'' \<in> set printed_units" "''d'' \<in> set printed_units"
  "''h'' \<in> set printed_units" "''m'' \<in> set printed_units" "''s'' \<in> set printed_units"
  "''ms'' \<in> set printed_units" "''us'' \<in> set printed_units" "''ns'' \<in> set printed_units"
  by (simp_all add: printed_units_def)

definition months_text :: "int \<Rightarrow> string" where
  "months_text m = seg (m div 12) ''y'' @ seg (m mod 12) ''mo''"

fun units_text :: "int \<Rightarrow> (int \<times> string) list \<Rightarrow> string" where
  "units_text n [] = []"
| "units_text n ((p, u) # us) = seg (n div p) u @ units_text (n mod p) us"

definition nano_units :: "(int \<times> string) list" where
  "nano_units = [(nanosPerHour, ''h''), (nanosPerMinute, ''m''), (nanosPerSecond, ''s''), (nanosPerMilli, ''ms''),
     (nanosPerMicro, ''us''), (1, ''ns'')]"

lemma append_units:
  "0 \<le> n \<Longrightarrow> 0 < p \<Longrightarrow> (case Duration_append v n p u of (v', n') \<Rightarrow> f v' n') = f (v @ seg (n div p) u) (n mod p)"
  by (simp add: append_seg)

lemma nanos_append:
  assumes "0 \<le> n"
  shows "(let (value, remainder) = Duration_append value n nanosPerHour ''h'';
              (value, remainder) = Duration_append value remainder nanosPerMinute ''m'';
              (value, remainder) = Duration_append value remainder nanosPerSecond ''s'';
              (value, remainder) = Duration_append value remainder nanosPerMilli ''ms'';
              (value, remainder) = Duration_append value remainder nanosPerMicro ''us'';
              (value, _) = Duration_append value remainder 1 ''ns''
          in value) = value @ units_text n nano_units"
proof -
  have p: "0 < nanosPerHour" "0 < nanosPerMinute" "0 < nanosPerSecond" "0 < nanosPerMilli" "0 < nanosPerMicro"
    by (simp_all add: nanos_per)
  show ?thesis using assms
    by (simp only: Let_def append_units p pos_mod_sign nano_units_def units_text.simps zero_less_one append_assoc append_Nil2)
qed

lemma units_text_0: "units_text 0 us = []"
  by (induction us) (auto simp: seg_def)

lemma toString_eq:
  "Duration_toString d = (if dmonths d < 0 \<or> ddays d < 0 \<or> dnanos d < 0 then ''-'' else [])
     @ months_text \<bar>dmonths d\<bar> @ seg \<bar>ddays d\<bar> ''d'' @ units_text \<bar>dnanos d\<bar> nano_units"
proof -
  have a: "(if x < 0 then - x else x) = \<bar>x\<bar>" for x :: int by simp
  show ?thesis
    unfolding Duration_toString_def a Let_def nanos_append[unfolded Let_def, OF abs_ge_zero]
    by (cases "dnanos d = 0") (simp_all add: append_seg months_text_def units_text_0)
qed

lemma parse_months_text:
  assumes "Builder_inv b" "bunit b = 0" "starts_digit r" "0 \<le> m" "bmonths b + m \<le> max32 b"
  shows "\<exists>b'. parseStandard_loop b (months_text m @ r) = parseStandard_loop b' r \<and> Builder_inv b' \<and> bunit b' \<le> 2
    \<and> bneg b' = bneg b \<and> bmonths b' = bmonths b + m \<and> bdays b' = bdays b \<and> bnanos b' = bnanos b"
proof -
  have m: "m div 12 * 12 + m mod 12 = m" "0 \<le> m div 12" "0 \<le> m mod 12" using assms(4) by (simp_all add: pos_imp_zdiv_nonneg_iff)
  have i: "bdays b \<le> max32 b" "bnanos b \<le> max64 b" using assms(1) by (simp_all add: Builder_inv_def)
  obtain c where c: "parseStandard_loop b (seg (m div 12) ''y'' @ seg (m mod 12) ''mo'' @ r) = parseStandard_loop c (seg (m mod 12) ''mo'' @ r)"
    "Builder_inv c" "bunit c \<le> 1" "bneg c = bneg b" "bmonths c = bmonths b + m div 12 * 12" "bdays c = bdays b" "bnanos c = bnanos b"
    using years.parse_seg[OF units_printed(1) Builder_add_units(1) seg_starts_digit[OF assms(3)] assms(1), of "m div 12"] assms(2,5) m i
    by auto
  have x: "max32 c = max32 b" "max64 c = max64 b" using c(4) by (simp_all add: max32_def max64_def)
  obtain e where "parseStandard_loop c (seg (m mod 12) ''mo'' @ r) = parseStandard_loop e r" "Builder_inv e" "bunit e \<le> 2"
    "bneg e = bneg b" "bmonths e = bmonths b + m" "bdays e = bdays b" "bnanos e = bnanos b"
    using months.parse_seg[OF units_printed(2) Builder_add_units(2) assms(3) c(2), of "m mod 12"] c(3-7) assms(5) m i x
    by auto
  then show ?thesis using c(1) by (auto simp: months_text_def)
qed

text \<open>The state while the nanosecond units are read: what is read so far and the bound that stays.\<close>

lemma parse_nanos_seg:
  assumes U: "builder_unit add k 0 0 p" "u \<in> set printed_units" "\<And>b t. Builder_add b t u = add b t"
    and b: "Builder_inv b" "bunit b < k" and r: "starts_digit r" and x: "0 \<le> x" "0 < p" "bnanos b + x \<le> max64 b"
  shows "\<exists>b'. parseStandard_loop b (seg (x div p) u @ r) = parseStandard_loop b' r \<and> Builder_inv b' \<and> bunit b' \<le> k
    \<and> bneg b' = bneg b \<and> bmonths b' = bmonths b \<and> bdays b' = bdays b \<and> bnanos b' + x mod p = bnanos b + x
    \<and> bnanos b' + x mod p \<le> max64 b'"
proof -
  have d: "x div p * p + x mod p = x" "0 \<le> x div p" "0 \<le> x mod p" using x by (simp_all add: pos_imp_zdiv_nonneg_iff)
  have i: "bdays b \<le> max32 b" "bmonths b \<le> max32 b" using b(1) by (simp_all add: Builder_inv_def)
  obtain b' where b': "parseStandard_loop b (seg (x div p) u @ r) = parseStandard_loop b' r" "Builder_inv b'" "bunit b' \<le> k"
    "bneg b' = bneg b" "bmonths b' = bmonths b" "bdays b' = bdays b" "bnanos b' = bnanos b + x div p * p"
    using builder_unit.parse_seg[OF U(1,2,3) r b, of "x div p"] d i x by auto
  then have "max64 b' = max64 b" by (simp add: max64_def)
  then show ?thesis using b' d x by (intro exI[of _ b']) auto
qed

definition nano_unit :: "nat \<times> int \<times> string \<Rightarrow> bool" where
  "nano_unit x \<longleftrightarrow> (case x of (k, p, u) \<Rightarrow> 0 < p \<and> u \<in> set printed_units \<and>
     (\<exists>add. builder_unit add k 0 0 p \<and> (\<forall>b t. Builder_add b t u = add b t)))"

lemma units_starts_digit: "starts_digit (units_text x us)"
  by (induction x us rule: units_text.induct) (auto simp: seg_starts_digit, simp add: starts_digit_def)

lemma parse_units_text:
  assumes "list_all nano_unit us" "sorted_wrt (<) (map fst us)" "\<forall>k \<in> set (map fst us). bunit b < k"
    "Builder_inv b" "0 \<le> x" "bnanos b + x \<le> max64 b"
  shows "\<exists>b'. parseStandard_loop b (units_text x (map snd us)) = Inr b' \<and> Builder_inv b' \<and> bneg b' = bneg b
    \<and> bmonths b' = bmonths b \<and> bdays b' = bdays b \<and> bnanos b' + foldl (mod) x (map (\<lambda>y. fst (snd y)) us) = bnanos b + x"
  using assms
proof (induction us arbitrary: b x)
  case Nil
  then show ?case by (subst parseStandard_loop.simps) simp
next
  case (Cons y us)
  obtain k p u where y: "y = (k, p, u)" by (cases y) auto
  obtain add where a: "builder_unit add k 0 0 p" "u \<in> set printed_units" "\<And>b t. Builder_add b t u = add b t" "0 < p"
    using Cons.prems(1) by (auto simp: y nano_unit_def)
  have bk: "bunit b < k" using Cons.prems(3) by (simp add: y)
  obtain c where c: "parseStandard_loop b (seg (x div p) u @ units_text (x mod p) (map snd us)) = parseStandard_loop c (units_text (x mod p) (map snd us))"
    "Builder_inv c" "bunit c \<le> k" "bneg c = bneg b" "bmonths c = bmonths b" "bdays c = bdays b"
    "bnanos c + x mod p = bnanos b + x" "bnanos c + x mod p \<le> max64 c"
    using parse_nanos_seg[OF a(1-3) Cons.prems(4) bk units_starts_digit[of "x mod p" "map snd us"] Cons.prems(5) a(4) Cons.prems(6)]
    by auto
  have "\<forall>k \<in> set (map fst us). bunit c < k" using Cons.prems(2) c(3) by (auto simp: y)
  then obtain b' where b': "parseStandard_loop c (units_text (x mod p) (map snd us)) = Inr b' \<and> Builder_inv b' \<and> bneg b' = bneg c
      \<and> bmonths b' = bmonths c \<and> bdays b' = bdays c \<and> bnanos b' + foldl (mod) (x mod p) (map (\<lambda>y. fst (snd y)) us) = bnanos c + x mod p"
    using Cons.IH[of c "x mod p"] Cons.prems(1,2) c a(4) by auto
  then show ?case using c by (intro exI[of _ b']) (simp add: y)
qed

lemma parse_nanos_text:
  assumes "Builder_inv b" "bunit b < 5" "0 \<le> n" "bnanos b + n \<le> max64 b"
  shows "\<exists>b'. parseStandard_loop b (units_text n nano_units) = Inr b' \<and> Builder_inv b'
    \<and> bneg b' = bneg b \<and> bmonths b' = bmonths b \<and> bdays b' = bdays b \<and> bnanos b' = bnanos b + n"
proof -
  let ?us = "[(5 :: nat, nanosPerHour, ''h''), (6, nanosPerMinute, ''m''), (7, nanosPerSecond, ''s''), (8, nanosPerMilli, ''ms''),
     (9, nanosPerMicro, ''us''), (10, 1, ''ns'')]"
  have p: "0 < nanosPerHour" "0 < nanosPerMinute" "0 < nanosPerSecond" "0 < nanosPerMilli" "0 < nanosPerMicro"
    by (simp_all add: nanos_per)
  have "nano_unit (5, nanosPerHour, ''h'')" "nano_unit (6, nanosPerMinute, ''m'')" "nano_unit (7, nanosPerSecond, ''s'')"
    "nano_unit (8, nanosPerMilli, ''ms'')" "nano_unit (9, nanosPerMicro, ''us'')" "nano_unit (10, 1, ''ns'')"
    using p units_printed Builder_add_units hours.builder_unit_axioms minutes.builder_unit_axioms seconds.builder_unit_axioms
      millis.builder_unit_axioms micros.builder_unit_axioms nanos.builder_unit_axioms
    by (auto simp: nano_unit_def)
  then have l: "list_all nano_unit ?us" by simp
  have o: "sorted_wrt (<) (map fst ?us)" "\<forall>k \<in> set (map fst ?us). bunit b < k" "map snd ?us = nano_units"
    using assms(2) by (simp_all add: nano_units_def)
  have "foldl (mod) n (map (\<lambda>y. fst (snd y)) ?us) = 0" by simp
  then show ?thesis using parse_units_text[OF l o(1,2) assms(1,3,4)] unfolding o(3) by simp
qed

lemma parse_text:
  assumes "0 \<le> m" "m \<le> 2147483647 + (if neg then 1 else 0)" "0 \<le> d" "d \<le> 2147483647 + (if neg then 1 else 0)"
    "0 \<le> n" "n \<le> 9223372036854775807 + (if neg then 1 else 0)"
  shows "parseStandardFormat neg (months_text m @ seg d ''d'' @ units_text n nano_units)
    = Inr (if neg then \<lparr>dmonths = - m, ddays = - d, dnanos = - n\<rparr> else \<lparr>dmonths = m, ddays = d, dnanos = n\<rparr>)"
proof -
  let ?N = "units_text n nano_units"
  let ?b = "new_Builder neg"
  have b: "Builder_inv ?b" "bunit ?b = 0" "bneg ?b = neg" "bmonths ?b = 0" "bdays ?b = 0" "bnanos ?b = 0"
    by (simp_all add: new_Builder_def Builder_inv_def max32_def max64_def)
  have mx: "max32 c = 2147483647 + (if neg then 1 else 0)" "max64 c = 9223372036854775807 + (if neg then 1 else 0)" if "bneg c = neg" for c
    using that by (simp_all add: max32_def max64_def)
  obtain b1 where b1: "parseStandard_loop ?b (months_text m @ seg d ''d'' @ ?N) = parseStandard_loop b1 (seg d ''d'' @ ?N)"
    "Builder_inv b1" "bunit b1 \<le> 2" "bneg b1 = neg" "bmonths b1 = m" "bdays b1 = 0" "bnanos b1 = 0"
    using parse_months_text[OF b(1,2) seg_starts_digit[OF units_starts_digit] assms(1), of d "''d''" n nano_units] assms(2) b mx[OF b(3)] by auto
  obtain b2 where b2: "parseStandard_loop b1 (seg d ''d'' @ ?N) = parseStandard_loop b2 ?N"
    "Builder_inv b2" "bunit b2 \<le> 4" "bneg b2 = neg" "bmonths b2 = m" "bdays b2 = d" "bnanos b2 = 0"
    using days.parse_seg[OF units_printed(3) Builder_add_units(3) units_starts_digit b1(2) _ assms(3), of n nano_units]
      b1(3-7) assms mx[OF b1(4)] by auto
  obtain b3 where b3: "parseStandard_loop b2 ?N = Inr b3" "Builder_inv b3" "bneg b3 = neg" "bmonths b3 = m" "bdays b3 = d" "bnanos b3 = n"
    using parse_nanos_text[OF b2(2) _ assms(5)] b2(3-7) assms(6) mx[OF b2(4)] by auto
  show ?thesis using b1(1) b2(1) b3 by (simp add: parseStandardFormat_def Builder_build_eq)
qed

definition uniform_sign :: "Duration \<Rightarrow> bool" where
  "uniform_sign d \<longleftrightarrow> signed_as False d \<or> signed_as True d"

lemma text_starts_digit: "starts_digit (months_text m @ seg d u @ units_text n us)"
  unfolding months_text_def append_assoc by (intro seg_starts_digit units_starts_digit)

lemma starts_digit_not: "starts_digit s \<Longrightarrow> \<not> is_digit c \<Longrightarrow> \<not> char_is s 0 c"
  by (auto simp: starts_digit_def char_is_def hd_conv_nth)

lemma char_is_hd: "char_is (c # s) 0 c"
  by (simp add: char_is_def)

lemma fromString_toString:
  assumes "Duration_valid d" "uniform_sign d"
  shows "Duration_fromString (Duration_toString d) = Inr d"
proof -
  define neg where "neg \<longleftrightarrow> dmonths d < 0 \<or> ddays d < 0 \<or> dnanos d < 0"
  define t where "t = months_text \<bar>dmonths d\<bar> @ seg \<bar>ddays d\<bar> ''d'' @ units_text \<bar>dnanos d\<bar> nano_units"
  have s: "signed_as neg d" using assms(2) by (auto simp: uniform_sign_def signed_as_def neg_def)
  have "starts_digit t" unfolding t_def by (rule text_starts_digit)
  then have n: "\<not> char_is t 0 CHR ''-''" "\<not> char_is t 0 CHR ''P''" by (simp_all add: starts_digit_not is_digit_def)
  have "Duration_toString d = (if neg then ''-'' else []) @ t" unfolding toString_eq neg_def t_def by simp
  then have "Duration_fromString (Duration_toString d) = parseStandardFormat neg t"
    using n char_is_hd[of "CHR ''-''" t] by (cases neg) (simp_all add: Duration_fromString_def Let_def)
  also have "\<dots> = Inr (if neg then \<lparr>dmonths = - \<bar>dmonths d\<bar>, ddays = - \<bar>ddays d\<bar>, dnanos = - \<bar>dnanos d\<bar>\<rparr>
      else \<lparr>dmonths = \<bar>dmonths d\<bar>, ddays = \<bar>ddays d\<bar>, dnanos = \<bar>dnanos d\<bar>\<rparr>)"
    unfolding t_def using assms(1) s
    by (intro parse_text) (auto simp: Duration_valid_def is_int32_def is_int64_def signed_as_def split: if_splits)
  also have "\<dots> = Inr d" using s by (cases d) (auto simp: signed_as_def split: if_splits)
  finally show ?thesis .
qed

section \<open>Properties\<close>

text \<open>C31: A duration written with \<open>toBuffer\<close> is read back by \<open>fromBuffer\<close> unchanged, whatever the shared
  buffers held from earlier calls and whatever bytes follow, and the call leaves the shared buffers usable.\<close>

theorem Duration_buffer_round_trip:
  assumes "Duration_valid d" "reusable_ok rb"
  shows "Duration_fromBuffer (fst (Duration_toBuffer d rb) @ r) = Inr d
    \<and> reusable_ok (snd (Duration_toBuffer d rb))
    \<and> (\<forall>rb'. reusable_ok rb' \<longrightarrow> fst (Duration_toBuffer d rb') = fst (Duration_toBuffer d rb))"
  using assms fromBuffer_vint[OF assms(1), of r] toBuffer_vint[OF assms] by (simp add: toBuffer_vint(1))

theorem Duration_buffer_round_trip_witness:
  "Duration_fromBuffer (fst (Duration_toBuffer \<lparr>dmonths = 1, ddays = - 2, dnanos = 3000000000\<rparr>
     \<lparr>rmonths = replicate 9 7, rdays = replicate 9 0, rnanos = replicate 9 255\<rparr>) @ [9])
   = Inr \<lparr>dmonths = 1, ddays = - 2, dnanos = 3000000000\<rparr>"
  by (rule Duration_buffer_round_trip[THEN conjunct1])
    (simp_all add: Duration_valid_def reusable_ok_def is_int32_def is_int64_def)

text \<open>Every duration whose parts have one sign, the extreme values of the three fields included, is
  read back unchanged from the text \<open>toString\<close> gives for it.\<close>

theorem Duration_text_round_trip:
  assumes "Duration_valid d" "uniform_sign d"
  shows "Duration_fromString (Duration_toString d) = Inr d"
  using assms by (rule fromString_toString)

theorem Duration_text_round_trip_witness:
  "Duration_fromString (Duration_toString \<lparr>dmonths = - 2147483648, ddays = - 3, dnanos = - 9223372036854775808\<rparr>)
   = Inr \<lparr>dmonths = - 2147483648, ddays = - 3, dnanos = - 9223372036854775808\<rparr>"
  by (rule Duration_text_round_trip)
    (simp_all add: Duration_valid_def uniform_sign_def signed_as_def is_int32_def is_int64_def)

text \<open>\<open>fromString\<close> of any text either throws a \<open>TypeError\<close> or returns a duration whose three fields
  are in range and carry the sign the text begins with: no accumulation of units in any of the four
  formats overflows, and the constructor's own checks never fire.\<close>

theorem Duration_fromString_outcome:
  "is_TypeError (Duration_fromString s) \<or>
   (\<exists>d. Duration_fromString s = Inr d \<and> Duration_valid d \<and> signed_as (char_is s 0 CHR ''-'') d)"
  using fromString_outcome[of s] by (simp add: parse_outcome_def)

text \<open>\<open>Builder.add\<close> on a builder in range either throws a \<open>TypeError\<close> or returns one in range whose
  unit index is strictly larger, so a text in which a unit is repeated or out of order is always refused.\<close>

theorem Builder_add_ordered:
  assumes "Builder_inv b" "list_all is_digit t" "bunit b \<le> 10"
  shows "is_TypeError (Builder_add b t u) \<or>
    (\<exists>b'. Builder_add b t u = Inr b' \<and> Builder_inv b' \<and> bunit b < bunit b' \<and> bunit b' \<le> 10 \<and> bneg b' = bneg b)"
  using add_outcome_add[OF assms] by (simp add: add_outcome_def)

theorem Builder_add_ordered_witness:
  "is_TypeError (Builder_add (new_Builder True) ''3'' ''Mo'') \<or>
   (\<exists>b'. Builder_add (new_Builder True) ''3'' ''Mo'' = Inr b' \<and> Builder_inv b' \<and> bunit (new_Builder True) < bunit b'
      \<and> bunit b' \<le> 10 \<and> bneg b' = bneg (new_Builder True))"
  by (rule Builder_add_ordered) (simp_all add: new_Builder_def Builder_inv_def max32_def max64_def is_digit_def)

text \<open>the two words \<open>bigintToLong\<close> hands to \<open>Long.fromValue\<close>, kept to 32 bits as \<open>Long\<close> keeps
  them, are the number: its high word fits 32 bits and high and low word together give it back.\<close>

theorem bigintToLong_exact:
  assumes "is_int64 x"
  shows "case bigintToLong x of (lo, hi) \<Rightarrow> is_int32 hi \<and> hi * 4294967296 + to_uint32 lo = x"
proof -
  define q lo where "q = x sdiv 4294967296" and "lo = x smod 4294967296"
  have x: "x = q * 4294967296 + lo" unfolding q_def lo_def by (rule sdiv_mult_smod_eq[symmetric])
  have lo: "- 4294967296 < lo" "lo < 4294967296"
    using smod_int_range[where a = x and b = 4294967296] by (simp_all add: lo_def)
  let ?hi = "if lo < 0 then q - 1 else q"
  have hi: "?hi = x div 4294967296" "to_uint32 lo = x mod 4294967296"
    using x lo by (auto simp: to_uint32_def intro!: int_div_pos_eq[symmetric, where r = "if lo < 0 then lo + 4294967296 else lo"])
  have "is_int32 (x div 4294967296)"
    using assms zdiv_range[of 2147483648 4294967296 x] by (simp add: is_int32_def is_int64_def)
  then show ?thesis using hi by (simp add: bigintToLong_def Let_def flip: q_def lo_def)
qed

theorem bigintToLong_exact_witness:
  "case bigintToLong (- 1) of (lo, hi) \<Rightarrow> is_int32 hi \<and> hi * 4294967296 + to_uint32 lo = - 1"
  by (rule bigintToLong_exact) (simp add: is_int64_def)

end
