(* ===== verification/Ordering.thy ===== *)
theory Ordering
  imports Big_Integer_Correct
begin

text \<open>
  The contract of a \<open>compare\<close> method, as the sorted containers and the token ring rely on it, and
  the two compare functions of the driver that promise it: \<open>Integer.compare\<close> on well-formed
  integers and Node's \<open>Buffer.compare\<close>, which is the lexicographic order of the bytes. Long values
  are external; their \<open>compare\<close> is the sign of the difference.
\<close>

locale total_compare =
  fixes ok :: "'a \<Rightarrow> bool" and cmp :: "'a \<Rightarrow> 'a \<Rightarrow> int"
  assumes sym: "ok a \<Longrightarrow> ok b \<Longrightarrow> sgn (cmp a b) = - sgn (cmp b a)"
    and trans: "ok a \<Longrightarrow> ok b \<Longrightarrow> ok c \<Longrightarrow> cmp a b \<le> 0 \<Longrightarrow> cmp b c \<le> 0 \<Longrightarrow> cmp a c \<le> 0"
begin

lemma refl: "ok a \<Longrightarrow> cmp a a = 0"
  using sym[of a a] by (simp add: sgn_0_0)

lemma flip:
  assumes "ok a" "ok b"
  shows "cmp a b < 0 \<longleftrightarrow> cmp b a > 0" "cmp a b > 0 \<longleftrightarrow> cmp b a < 0" "cmp a b = 0 \<longleftrightarrow> cmp b a = 0"
    "cmp a b \<le> 0 \<longleftrightarrow> cmp b a \<ge> 0" "cmp a b \<ge> 0 \<longleftrightarrow> cmp b a \<le> 0"
  using sym[OF assms] by (auto simp: sgn_if split: if_splits)

lemma trans_less:
  assumes "ok a" "ok b" "ok c"
  shows "cmp a b < 0 \<Longrightarrow> cmp b c \<le> 0 \<Longrightarrow> cmp a c < 0" "cmp a b \<le> 0 \<Longrightarrow> cmp b c < 0 \<Longrightarrow> cmp a c < 0"
proof -
  have 1: "cmp c a \<le> 0" if "\<not> cmp a c < 0" using flip(5)[OF assms(1,3)] that by simp
  show "cmp a c < 0" if "cmp a b < 0" "cmp b c \<le> 0"
    using trans[OF assms(2,3,1) that(2)] 1 that(1) flip(1)[OF assms(1,2)] by force
  show "cmp a c < 0" if "cmp a b \<le> 0" "cmp b c < 0"
    using trans[OF assms(3,1,2)] 1 that flip(1)[OF assms(2,3)] by force
qed

lemma trans_eq:
  assumes "ok a" "ok b" "ok c" "cmp a b = 0"
  shows "sgn (cmp a c) = sgn (cmp b c)"
proof -
  have "cmp b a = 0" using flip(3)[of a b] assms by simp
  then have "cmp a c \<le> 0 \<longleftrightarrow> cmp b c \<le> 0" "cmp c a \<le> 0 \<longleftrightarrow> cmp c b \<le> 0"
    using trans[of a b c] trans[of b a c] trans[of c a b] trans[of c b a] assms by auto
  moreover from this have "0 \<le> cmp a c \<longleftrightarrow> 0 \<le> cmp b c"
    using flip(5)[OF assms(1,3)] flip(5)[OF assms(2,3)] by simp
  ultimately show ?thesis by (auto simp: sgn_if)
qed

end

section \<open>Compare functions\<close>

fun buffer_compare :: "buffer \<Rightarrow> buffer \<Rightarrow> int" where
  "buffer_compare [] [] = 0"
| "buffer_compare [] (y # ys) = - 1"
| "buffer_compare (x # xs) [] = 1"
| "buffer_compare (x # xs) (y # ys) =
     (if x < y then - 1 else if x > y then 1 else buffer_compare xs ys)"

definition long_compare :: "int \<Rightarrow> int \<Rightarrow> int" where
  "long_compare a b = sgn (a - b)"

lemma buffer_compare_sym: "buffer_compare a b = - buffer_compare b a"
  by (induction a b rule: buffer_compare.induct) auto

lemma buffer_compare_trans:
  "buffer_compare a b \<le> 0 \<Longrightarrow> buffer_compare b c \<le> 0 \<Longrightarrow> buffer_compare a c \<le> 0"
proof (induction a b arbitrary: c rule: buffer_compare.induct)
  case (4 x xs y ys)
  then show ?case by (cases c) (auto split: if_splits)
next
  case (2 y ys)
  then show ?case by (cases c) auto
qed auto

lemma buffer_compare_0: "buffer_compare a b = 0 \<longleftrightarrow> a = b"
  by (induction a b rule: buffer_compare.induct) auto

interpretation varint_order: total_compare Integer_wf Integer_compare
  by unfold_locales (simp_all add: Integer_compare_correct sgn_if split: if_splits)

interpretation buffer_order: total_compare "\<lambda>_. True" buffer_compare
proof unfold_locales
  show "sgn (buffer_compare a b) = - sgn (buffer_compare b a)" for a b
    using buffer_compare_sym[of a b] by simp
qed (blast intro: buffer_compare_trans)

interpretation long_order: total_compare "\<lambda>_. True" long_compare
  by unfold_locales (auto simp: long_compare_def sgn_if split: if_splits)

end
