(* ===== verification/Token_Ring.thy ===== *)
theory Token_Ring
  imports Ordering
begin

text \<open>
  \<open>lib/token.js\<close>: tokens and token ranges. A token's value is compared by its own \<open>compare\<close>
  method (\<open>Long\<close> for Murmur3, \<open>Integer\<close> for Random, \<open>Buffer\<close> for byte-ordered tokens), which is the
  argument \<open>vcmp\<close>; the tokenizer, which the repository does not contain, is a record of its minimum
  token and its \<open>split\<close>. A range is start-exclusive and end-inclusive.
\<close>

section \<open>Tokens and ranges\<close>

record 'v Token =
  tvalue :: 'v

record 'v tokenizer =
  minToken :: "'v Token"
  split :: "'v Token \<Rightarrow> 'v Token \<Rightarrow> nat \<Rightarrow> 'v Token list"

record 'v TokenRange =
  rstart :: "'v Token"
  rend :: "'v Token"

definition Token_compare :: "('v \<Rightarrow> 'v \<Rightarrow> int) \<Rightarrow> 'v Token \<Rightarrow> 'v Token \<Rightarrow> int" where
  "Token_compare vcmp t other = vcmp (tvalue t) (tvalue other)"

definition Token_equals :: "('v \<Rightarrow> 'v \<Rightarrow> int) \<Rightarrow> 'v Token \<Rightarrow> 'v Token \<Rightarrow> bool" where
  "Token_equals vcmp t other = (Token_compare vcmp t other = 0)"

definition TokenRange_isEmpty :: "('v \<Rightarrow> 'v \<Rightarrow> int) \<Rightarrow> 'v tokenizer \<Rightarrow> 'v TokenRange \<Rightarrow> bool" where
  "TokenRange_isEmpty vcmp tk r =
     (Token_equals vcmp (rstart r) (rend r) \<and> \<not> Token_equals vcmp (rstart r) (minToken tk))"

definition TokenRange_isWrappedAround :: "('v \<Rightarrow> 'v \<Rightarrow> int) \<Rightarrow> 'v tokenizer \<Rightarrow> 'v TokenRange \<Rightarrow> bool" where
  "TokenRange_isWrappedAround vcmp tk r =
     (Token_compare vcmp (rstart r) (rend r) > 0 \<and> \<not> Token_equals vcmp (rend r) (minToken tk))"

definition TokenRange_unwrap :: "('v \<Rightarrow> 'v \<Rightarrow> int) \<Rightarrow> 'v tokenizer \<Rightarrow> 'v TokenRange \<Rightarrow> 'v TokenRange list" where
  "TokenRange_unwrap vcmp tk r =
     (if TokenRange_isWrappedAround vcmp tk r
      then [\<lparr>rstart = rstart r, rend = minToken tk\<rparr>, \<lparr>rstart = minToken tk, rend = rend r\<rparr>]
      else [r])"

definition TokenRange_contains :: "('v \<Rightarrow> 'v \<Rightarrow> int) \<Rightarrow> 'v tokenizer \<Rightarrow> 'v TokenRange \<Rightarrow> 'v Token \<Rightarrow> bool" where
  "TokenRange_contains vcmp tk r token =
     (if TokenRange_isEmpty vcmp tk r then False
      else if Token_equals vcmp (rend r) (minToken tk)
      then (if Token_equals vcmp (rstart r) (minToken tk) then True
            else if Token_equals vcmp token (minToken tk) then True
            else Token_compare vcmp token (rstart r) > 0)
      else let isAfterStart = Token_compare vcmp token (rstart r) > 0;
               isBeforeEnd = Token_compare vcmp token (rend r) \<le> 0
           in if TokenRange_isWrappedAround vcmp tk r then isAfterStart \<or> isBeforeEnd
              else isAfterStart \<and> isBeforeEnd)"

text \<open>The loop of \<open>splitEvenly\<close> over the split points, and the last range.\<close>

fun TokenRange_chain :: "'v Token \<Rightarrow> 'v Token list \<Rightarrow> 'v Token \<Rightarrow> 'v TokenRange list" where
  "TokenRange_chain splitStart [] e = [\<lparr>rstart = splitStart, rend = e\<rparr>]"
| "TokenRange_chain splitStart (p # ps) e = \<lparr>rstart = splitStart, rend = p\<rparr> # TokenRange_chain p ps e"

definition TokenRange_splitEvenly ::
    "('v \<Rightarrow> 'v \<Rightarrow> int) \<Rightarrow> 'v tokenizer \<Rightarrow> 'v TokenRange \<Rightarrow> int \<Rightarrow> 'v TokenRange list result" where
  "TokenRange_splitEvenly vcmp tk r numberOfSplits =
     (if numberOfSplits < 1
      then throw (GenericError ''numberOfSplits must be greater than 0.'')
      else if TokenRange_isEmpty vcmp tk r then throw (GenericError ''Can't split empty range'')
      else return (TokenRange_chain (rstart r) (split tk (rstart r) (rend r) (nat numberOfSplits)) (rend r)))"

definition TokenRange_compare :: "('v \<Rightarrow> 'v \<Rightarrow> int) \<Rightarrow> 'v TokenRange \<Rightarrow> 'v TokenRange \<Rightarrow> int" where
  "TokenRange_compare vcmp r other =
     (let compareStart = Token_compare vcmp (rstart r) (rstart other)
      in if compareStart \<noteq> 0 then compareStart else Token_compare vcmp (rend r) (rend other))"

definition TokenRange_equals :: "('v \<Rightarrow> 'v \<Rightarrow> int) \<Rightarrow> 'v TokenRange \<Rightarrow> 'v TokenRange \<Rightarrow> bool" where
  "TokenRange_equals vcmp r other = (TokenRange_compare vcmp r other = 0)"

section \<open>The ring\<close>

text \<open>A ring: values in a total order, and a tokenizer whose minimum token is least.\<close>

locale token_ring = total_compare ok vcmp for ok :: "'v \<Rightarrow> bool" and vcmp :: "'v \<Rightarrow> 'v \<Rightarrow> int" +
  fixes tk :: "'v tokenizer"
  assumes min_ok: "ok (tvalue (minToken tk))"
    and min_least: "ok v \<Longrightarrow> vcmp (tvalue (minToken tk)) v \<le> 0"
begin

lemmas ring_defs = TokenRange_contains_def TokenRange_isEmpty_def TokenRange_isWrappedAround_def
  Token_equals_def Token_compare_def

lemma unwrap_not_wrapped:
  assumes "ok (tvalue (rstart r))" "ok (tvalue (rend r))" "p \<in> set (TokenRange_unwrap vcmp tk r)"
  shows "\<not> TokenRange_isWrappedAround vcmp tk p"
  using assms min_ok min_least[of "tvalue (rend r)"] refl[OF min_ok]
  by (auto simp: TokenRange_unwrap_def ring_defs split: if_splits)

lemma unwrap_contains:
  assumes r: "ok (tvalue (rstart r))" "ok (tvalue (rend r))" and t: "ok (tvalue t)"
  shows "TokenRange_contains vcmp tk r t \<longleftrightarrow> (\<exists>p \<in> set (TokenRange_unwrap vcmp tk r). TokenRange_contains vcmp tk p t)"
proof (cases "TokenRange_isWrappedAround vcmp tk r")
  case True
  let ?m = "tvalue (minToken tk)" and ?s = "tvalue (rstart r)" and ?e = "tvalue (rend r)" and ?t = "tvalue t"
  have o: "ok ?s" "ok ?e" "ok ?t" using r t by simp_all
  have w: "vcmp ?s ?e > 0" "vcmp ?e ?m \<noteq> 0" using True by (simp_all add: ring_defs)
  have sm: "vcmp ?s ?m > 0"
    using trans[OF o(1) min_ok o(2)] min_least[OF o(2)] w(1) by linarith
  have me: "vcmp ?m ?e < 0" using min_least[OF o(2)] w(2) flip[OF o(2) min_ok] by force
  have tm: "vcmp ?t ?m > 0 \<or> vcmp ?t ?m = 0" using min_least[OF o(3)] flip[OF o(3) min_ok] by force
  have te: "vcmp ?t ?e \<le> 0" if "vcmp ?t ?m = 0"
    using trans[of ?t ?m ?e] that me o min_ok by auto
  show ?thesis
    using True w sm me tm te flip[OF min_ok o(2)] flip[OF o(1) min_ok] refl[OF min_ok]
    by (auto simp: TokenRange_unwrap_def ring_defs)
next
  case False
  then show ?thesis by (simp add: TokenRange_unwrap_def)
qed

lemma contains_plain:
  assumes o: "ok s" "ok e" "ok t"
    and e: "vcmp e (tvalue (minToken tk)) = 0 \<or> vcmp s e \<le> 0 \<and> vcmp e (tvalue (minToken tk)) > 0"
  shows "TokenRange_contains vcmp tk \<lparr>rstart = \<lparr>tvalue = s\<rparr>, rend = \<lparr>tvalue = e\<rparr>\<rparr> \<lparr>tvalue = t\<rparr> \<longleftrightarrow>
    (if vcmp e (tvalue (minToken tk)) = 0 then vcmp t (tvalue (minToken tk)) = 0 \<or> vcmp t s > 0
     else vcmp t s > 0 \<and> vcmp t e \<le> 0)"
proof (cases "vcmp e (tvalue (minToken tk)) = 0")
  case True
  let ?m = "tvalue (minToken tk)"
  have sm: "vcmp s e = 0 \<longleftrightarrow> vcmp s ?m = 0"
    using trans_eq[OF o(2) min_ok o(1) True] flip(3)[OF o(1) o(2)] flip(3)[OF o(1) min_ok] by (auto simp: sgn_if split: if_splits)
  have "vcmp t s > 0 \<or> vcmp t ?m = 0" if "vcmp s ?m = 0"
  proof -
    have "sgn (vcmp s t) = sgn (vcmp ?m t)" by (rule trans_eq[OF o(1) min_ok o(3) that])
    then show ?thesis using min_least[OF o(3)] flip[OF o(3) min_ok] flip[OF o(3) o(1)] by (auto simp: sgn_if split: if_splits)
  qed
  then show ?thesis using True sm by (auto simp: ring_defs)
next
  case False
  then have "vcmp s e \<le> 0" using e by simp
  moreover have "\<not> (vcmp t s > 0 \<and> vcmp t e \<le> 0)" if "vcmp s e = 0"
  proof -
    have "sgn (vcmp s t) = sgn (vcmp e t)" by (rule trans_eq[OF o that])
    then show ?thesis using flip[OF o(3) o(1)] flip[OF o(3) o(2)] by (auto simp: sgn_if split: if_splits)
  qed
  ultimately show ?thesis using False by (auto simp: ring_defs Let_def)
qed

lemma chain_contains:
  assumes "ok s" "ok e" "ok t" "list_all ok ps" "list_all (\<lambda>p. vcmp p (tvalue (minToken tk)) > 0) ps"
    "sorted_wrt (\<lambda>a b. vcmp a b \<le> 0) (s # ps)"
    "vcmp e (tvalue (minToken tk)) = 0 \<or> vcmp (last (s # ps)) e \<le> 0 \<and> vcmp e (tvalue (minToken tk)) > 0"
  shows "TokenRange_contains vcmp tk \<lparr>rstart = \<lparr>tvalue = s\<rparr>, rend = \<lparr>tvalue = e\<rparr>\<rparr> \<lparr>tvalue = t\<rparr> \<longleftrightarrow>
    (\<exists>r \<in> set (TokenRange_chain \<lparr>tvalue = s\<rparr> (map (\<lambda>p. \<lparr>tvalue = p\<rparr>) ps) \<lparr>tvalue = e\<rparr>).
       TokenRange_contains vcmp tk r \<lparr>tvalue = t\<rparr>)"
  using assms
proof (induction ps arbitrary: s)
  case Nil
  then show ?case by simp
next
  case (Cons p ps)
  let ?m = "tvalue (minToken tk)"
  have o: "ok p" "list_all ok ps" and gt: "vcmp p ?m > 0" "list_all (\<lambda>p. vcmp p ?m > 0) ps"
    and sp: "vcmp s p \<le> 0" and srt: "sorted_wrt (\<lambda>a b. vcmp a b \<le> 0) (p # ps)"
    using Cons.prems(4,5,6) by auto
  have last: "vcmp p (last (p # ps)) \<le> 0"
    using srt refl[OF o(1)] by (cases ps rule: rev_cases) auto
  have lok: "ok (last (p # ps))" using o by (auto simp: list_all_iff)
  have pe: "vcmp e ?m = 0 \<or> vcmp p e \<le> 0 \<and> vcmp e ?m > 0"
    using Cons.prems(7) trans[OF o(1) lok Cons.prems(2) last] by auto
  then have se: "vcmp e ?m = 0 \<or> vcmp s e \<le> 0 \<and> vcmp e ?m > 0"
    using trans[OF Cons.prems(1) o(1) Cons.prems(2) sp] by auto
  have IH: "TokenRange_contains vcmp tk \<lparr>rstart = \<lparr>tvalue = p\<rparr>, rend = \<lparr>tvalue = e\<rparr>\<rparr> \<lparr>tvalue = t\<rparr> \<longleftrightarrow>
    (\<exists>r \<in> set (TokenRange_chain \<lparr>tvalue = p\<rparr> (map (\<lambda>p. \<lparr>tvalue = p\<rparr>) ps) \<lparr>tvalue = e\<rparr>).
       TokenRange_contains vcmp tk r \<lparr>tvalue = t\<rparr>)"
    using Cons.prems(7) by (intro Cons.IH o(1) Cons.prems(2,3) o(2) gt(2) srt) simp
  have "vcmp t s > 0" if "vcmp t p > 0"
    using trans_less(2)[OF Cons.prems(1) o(1) Cons.prems(3) sp] that flip[OF Cons.prems(3) o(1)] flip[OF Cons.prems(3) Cons.prems(1)] by simp
  moreover have "vcmp t e \<le> 0" if "vcmp t p \<le> 0" "vcmp p e \<le> 0"
    using trans[OF Cons.prems(3) o(1) Cons.prems(2) that] .
  ultimately show ?case
    using IH[symmetric] contains_plain[OF Cons.prems(1,2,3) se] contains_plain[OF o(1) Cons.prems(2,3) pe]
      contains_plain[OF Cons.prems(1) o(1) Cons.prems(3)] sp gt(1) pe by auto
qed

end

interpretation byte_ring: token_ring "\<lambda>_. True" buffer_compare "\<lparr>minToken = \<lparr>tvalue = []\<rparr>, split = sp\<rparr>" for sp
proof unfold_locales
  show "buffer_compare (tvalue (minToken \<lparr>minToken = \<lparr>tvalue = []\<rparr>, split = sp\<rparr>)) v \<le> 0" for v
    by (cases v) auto
qed simp

interpretation murmur3_ring: token_ring is_int64 long_compare
  "\<lparr>minToken = \<lparr>tvalue = - 9223372036854775808\<rparr>, split = sp\<rparr>" for sp
  by unfold_locales (auto simp: long_compare_def is_int64_def sgn_if split: if_splits)

section \<open>Properties\<close>

lemma chain_ends:
  "rstart (hd (TokenRange_chain s ps e)) = s" "rend (last (TokenRange_chain s ps e)) = e"
  "length (TokenRange_chain s ps e) = length ps + 1" "TokenRange_chain s ps e \<noteq> []"
  by (induction ps arbitrary: s) auto

lemma chain_adjacent:
  "i + 1 < length (TokenRange_chain s ps e) \<Longrightarrow>
   rend (TokenRange_chain s ps e ! i) = rstart (TokenRange_chain s ps e ! (i + 1))"
proof (induction ps arbitrary: s i)
  case (Cons p ps)
  then show ?case using chain_ends(1,4)[of p ps e] by (cases i) (auto simp: hd_conv_nth)
qed simp

text \<open>\<open>unwrap\<close> returns ranges that do not wrap around and that together contain exactly the tokens the
  range contains, for every ring whose tokenizer's minimum token is least.\<close>

theorem TokenRange_unwrap_exact:
  assumes "token_ring ok vcmp tk" "ok (tvalue (rstart r))" "ok (tvalue (rend r))" "ok (tvalue t)"
  shows "(\<forall>p \<in> set (TokenRange_unwrap vcmp tk r). \<not> TokenRange_isWrappedAround vcmp tk p)
    \<and> (TokenRange_contains vcmp tk r t \<longleftrightarrow> (\<exists>p \<in> set (TokenRange_unwrap vcmp tk r). TokenRange_contains vcmp tk p t))"
  using token_ring.unwrap_not_wrapped[OF assms(1-3)] token_ring.unwrap_contains[OF assms] by blast

theorem TokenRange_unwrap_exact_witness:
  "TokenRange_contains long_compare \<lparr>minToken = \<lparr>tvalue = - 9223372036854775808\<rparr>, split = (\<lambda>_ _ _. [])\<rparr>
     \<lparr>rstart = \<lparr>tvalue = 5\<rparr>, rend = \<lparr>tvalue = - 5\<rparr>\<rparr> \<lparr>tvalue = 7\<rparr>
   \<longleftrightarrow> (\<exists>p \<in> set (TokenRange_unwrap long_compare \<lparr>minToken = \<lparr>tvalue = - 9223372036854775808\<rparr>, split = (\<lambda>_ _ _. [])\<rparr>
         \<lparr>rstart = \<lparr>tvalue = 5\<rparr>, rend = \<lparr>tvalue = - 5\<rparr>\<rparr>).
        TokenRange_contains long_compare \<lparr>minToken = \<lparr>tvalue = - 9223372036854775808\<rparr>, split = (\<lambda>_ _ _. [])\<rparr> p \<lparr>tvalue = 7\<rparr>)"
  by (rule TokenRange_unwrap_exact[THEN conjunct2, OF murmur3_ring.token_ring_axioms]) (simp_all add: is_int64_def)



end
