(* ===== verification/Utils.thy ===== *)
theory Utils
  imports JS_String Ordering
begin

text \<open>
  The synchronous part of \<open>lib/utils.js\<close>. A plain object is the list of its own properties in
  insertion order, with distinct names that are no array indices; an absent or \<open>undefined\<close> value is
  \<^const>\<open>None\<close> where the code can tell. Functions that mutate their argument return it updated.
  \<open>Math.random()\<close>, the DNS resolver and the log emitter are arguments.
\<close>

section \<open>Objects\<close>

type_synonym 'a jsobj = "(string \<times> 'a) list"

fun obj_get :: "'a jsobj \<Rightarrow> string \<Rightarrow> 'a option" where
  "obj_get [] k = None"
| "obj_get ((k', v) # o') k = (if k' = k then Some v else obj_get o' k)"

fun obj_set :: "'a jsobj \<Rightarrow> string \<Rightarrow> 'a \<Rightarrow> 'a jsobj" where
  "obj_set [] k v = [(k, v)]"
| "obj_set ((k', v') # o') k v = (if k' = k then (k, v) # o' else (k', v') # obj_set o' k v)"

definition hasOwnProperty :: "'a jsobj \<Rightarrow> string \<Rightarrow> bool" where
  "hasOwnProperty ob k = (obj_get ob k \<noteq> None)"

text \<open>\<open>extend\<close>: a source is an object or a falsy value; a property whose value is \<open>undefined\<close> is
  skipped.\<close>

definition extend_source :: "'a option jsobj \<Rightarrow> 'a option jsobj option \<Rightarrow> 'a option jsobj" where
  "extend_source target source =
     (case source of None \<Rightarrow> target
      | Some props \<Rightarrow> foldl (\<lambda>t (key, value). case value of None \<Rightarrow> t | Some v \<Rightarrow> obj_set t key (Some v)) target props)"

definition extend :: "'a option jsobj \<Rightarrow> 'a option jsobj option list \<Rightarrow> 'a option jsobj" where
  "extend target sources = foldl extend_source target sources"

definition toLowerCaseProperties :: "'a jsobj \<Rightarrow> 'a jsobj" where
  "toLowerCaseProperties ob = foldl (\<lambda>result (k, v). obj_set result (toLowerCase k) v) [] ob"

definition objectValues :: "'a jsobj option \<Rightarrow> 'a list" where
  "objectValues ob = (case ob of None \<Rightarrow> [] | Some props \<Rightarrow> map snd props)"

text \<open>Values of option objects: a class instance carries its constructor's name.\<close>

datatype jsval =
    JUndefined
  | JNull
  | JBool bool
  | JNum int
  | JString string
  | JArray "jsval list"
  | JObject "(string \<times> jsval) list"
  | JInstance string "(string \<times> jsval) list"
  | JFunction string

fun truthy :: "jsval \<Rightarrow> bool" where
  "truthy JUndefined = False"
| "truthy JNull = False"
| "truthy (JBool b) = b"
| "truthy (JNum n) = (n \<noteq> 0)"
| "truthy (JString s) = (s \<noteq> [])"
| "truthy _ = True"

fun constructor_name :: "jsval \<Rightarrow> string" where
  "constructor_name (JBool b) = ''Boolean''"
| "constructor_name (JNum n) = ''Number''"
| "constructor_name (JString s) = ''String''"
| "constructor_name (JArray xs) = ''Array''"
| "constructor_name (JObject o') = ''Object''"
| "constructor_name (JInstance c o') = c"
| "constructor_name (JFunction f) = ''Function''"
| "constructor_name _ = ''''"

text \<open>What \<open>for (const prop in source)\<close> visits.\<close>

fun enumerable :: "jsval \<Rightarrow> (string \<times> jsval) list" where
  "enumerable (JObject props) = props"
| "enumerable (JInstance c props) = props"
| "enumerable (JArray xs) = zip (map show_nat [0..<length xs]) xs"
| "enumerable (JString s) = zip (map show_nat [0..<length s]) (map (\<lambda>c. JString [c]) s)"
| "enumerable _ = []"

definition deep_replace :: "jsval option \<Rightarrow> bool" where
  "deep_replace targetProp =
     (case targetProp of None \<Rightarrow> True
      | Some v \<Rightarrow> \<not> truthy v \<or> constructor_name v = ''Number'' \<or> constructor_name v = ''String'' \<or>
          constructor_name v = ''Array'' \<or> constructor_name v = ''Date'' \<or> constructor_name v \<noteq> ''Object'')"

lemma deep_replace_iff: "deep_replace t \<longleftrightarrow> (case t of Some (JObject p) \<Rightarrow> False | Some (JInstance c p) \<Rightarrow> c \<noteq> ''Object'' | _ \<Rightarrow> True)"
  by (auto simp: deep_replace_def split: option.splits jsval.splits)

lemma obj_get_size: "obj_get ob k = Some v \<Longrightarrow> size v < Suc (size_list (size_prod (\<lambda>_. 0) size) ob)"
  by (induction ob k rule: obj_get.induct) (auto split: if_splits)

text \<open>One source of \<open>deepExtend\<close>. A source's property names are distinct, so the target's property
  is the one it had before the loop; the inner call \<open>deepExtend({}, targetProp, source[prop])\<close> first copies
  every property of \<open>targetProp\<close> into the empty object.\<close>

function deepExtend_source :: "(string \<times> jsval) list \<Rightarrow> jsval \<Rightarrow> (string \<times> jsval) list" where
  "deepExtend_source target source =
     foldl (\<lambda>t (prop, v).
        case obj_get target prop of
          Some (JObject inner) \<Rightarrow> obj_set t prop (JObject (deepExtend_source inner v))
        | Some (JInstance c inner) \<Rightarrow>
            (if c = ''Object'' then obj_set t prop (JObject (deepExtend_source inner v)) else obj_set t prop v)
        | _ \<Rightarrow> obj_set t prop v)
       target (enumerable source)"
  by pat_completeness auto
termination
  by (relation "measure (\<lambda>(target, source). size_list (size_prod (\<lambda>_. 0) size) target)")
    (auto dest!: obj_get_size)

declare deepExtend_source.simps [simp del]

definition deepExtend :: "(string \<times> jsval) list \<Rightarrow> jsval list \<Rightarrow> (string \<times> jsval) list" where
  "deepExtend target sources = foldl deepExtend_source target sources"

section \<open>Sorted arrays\<close>

definition propCompare :: "('a \<Rightarrow> int) \<Rightarrow> 'a \<Rightarrow> 'a \<Rightarrow> int" where
  "propCompare prop a b = (if prop a > prop b then 1 else if prop a < prop b then - 1 else 0)"

text \<open>The loop of \<open>binarySearch\<close>, with fuel; \<open>low\<close> and \<open>high\<close> are numbers and \<open>>>> 1\<close> is the 32-bit
  operator.\<close>

fun binarySearch_loop :: "nat \<Rightarrow> 'a list \<Rightarrow> 'b \<Rightarrow> ('a \<Rightarrow> 'b \<Rightarrow> int) \<Rightarrow> int \<Rightarrow> int \<Rightarrow> int option" where
  "binarySearch_loop 0 arr key compareFunc low high = None"
| "binarySearch_loop (Suc n) arr key compareFunc low high =
     (if low \<le> high
      then let mid = js_shru (low + high) 1;
               cmp = compareFunc (arr ! nat mid) key
           in if cmp < 0 then binarySearch_loop n arr key compareFunc (mid + 1) high
              else if cmp > 0 then binarySearch_loop n arr key compareFunc low (mid - 1)
              else Some mid
      else Some (js_not low))"

definition binarySearch :: "'a list \<Rightarrow> 'b \<Rightarrow> ('a \<Rightarrow> 'b \<Rightarrow> int) \<Rightarrow> int option" where
  "binarySearch arr key compareFunc =
     binarySearch_loop (Suc (length arr)) arr key compareFunc 0 (int (length arr) - 1)"

definition insertSorted :: "'a list \<Rightarrow> 'a \<Rightarrow> ('a \<Rightarrow> 'a \<Rightarrow> int) \<Rightarrow> 'a list option" where
  "insertSorted arr item compareFunc =
     (if arr = [] then Some [item]
      else map_option (\<lambda>position.
             let position = nat (if position < 0 then js_not position else position)
             in take position arr @ item # drop position arr)
           (binarySearch arr item compareFunc))"

section \<open>Parameters\<close>

text \<open>\<open>prepared\<close>: the types are only counted here; \<open>boundParamNames\<close> has one name per type.\<close>

definition adaptNamedParamsPrepared :: "'a jsobj \<Rightarrow> string list \<Rightarrow> 'a list result" where
  "adaptNamedParamsPrepared params boundParamNames =
     (let params = toLowerCaseProperties params
      in rmap (\<lambda>name. case obj_get params name of
             None \<Rightarrow> throw (ArgumentError (''Parameter '' @ [CHR 0x22] @ name @ [CHR 0x22] @ '' not defined''))
           | Some v \<Rightarrow> return v) boundParamNames)"

text \<open>The named branch of \<open>adaptNamedParamsWithHints\<close>: the parameters with lower-case names, the hints
  by position, which it stores in the execution options, and the position of each key.\<close>

definition adaptNamedParamsWithHints ::
    "'a jsobj \<Rightarrow> 'h jsobj option \<Rightarrow> (string \<times> 'a) list \<times> 'h option list \<times> (string \<times> nat) list" where
  "adaptNamedParamsWithHints params userHints =
     (let hints = (case userHints of None \<Rightarrow> [] | Some h \<Rightarrow> h)
      in (map (\<lambda>(key, v). (toLowerCase key, v)) params,
          map (\<lambda>(key, v). obj_get hints key) params,
          foldl (\<lambda>ki (key, i). obj_set ki key i) [] (zip (map fst params) [0..<length params])))"

definition stringRepeat :: "string \<Rightarrow> int \<Rightarrow> string result" where
  "stringRepeat val count =
     (if count = 0 then return []
      else if count < 0 then throw (ArgumentError ''Cannot repeat string negative amount of times'')
      else if count = 1 then return val
      else return (concat (replicate (nat count) val)))"

definition ifUndefined :: "'a option \<Rightarrow> 'a option \<Rightarrow> 'a option" where
  "ifUndefined v1 v2 = (if v1 \<noteq> None then v1 else v2)"

definition ifUndefined3 :: "'a option \<Rightarrow> 'a option \<Rightarrow> 'a option \<Rightarrow> 'a option" where
  "ifUndefined3 v1 v2 v3 = (if v1 \<noteq> None then v1 else if v2 \<noteq> None then v2 else v3)"

text \<open>\<open>shuffleArray\<close>: \<open>rnd i\<close> is \<open>Math.floor(Math.random() * (i + 1))\<close> of the step for \<open>i\<close>.\<close>

fun shuffle_loop :: "nat \<Rightarrow> (nat \<Rightarrow> nat) \<Rightarrow> 'a list \<Rightarrow> 'a list" where
  "shuffle_loop 0 rnd arr = arr"
| "shuffle_loop (Suc i) rnd arr =
     (let j = rnd (Suc i); temp = arr ! Suc i
      in shuffle_loop i rnd (arr[Suc i := arr ! j, j := temp]))"

definition shuffleArray :: "(nat \<Rightarrow> nat) \<Rightarrow> 'a list \<Rightarrow> 'a list" where
  "shuffleArray rnd arr = shuffle_loop (length arr - 1) rnd arr"

definition totalLength :: "'a list list \<Rightarrow> nat" where
  "totalLength arr =
     (if length arr = 1 then length (arr ! 0) else foldl (\<lambda>total item. total + length item) 0 arr)"

section \<open>Log levels\<close>

definition logLevelSeverity :: "string \<Rightarrow> int option" where
  "logLevelSeverity l =
     obj_get [(''trace'', 0), (''debug'', 1), (''info'', 2), (''warning'', 3), (''error'', 4), (''off'', 5)] l"

text \<open>\<open>log\<close>: whether the emitter is called, which is an error when there is none. A comparison with
  \<open>undefined\<close> is false.\<close>

definition log_event :: "bool \<Rightarrow> bool \<Rightarrow> string option \<Rightarrow> string \<Rightarrow> bool result" where
  "log_event hasEmitter optionsEmitter logLevel typ =
     (if \<not> hasEmitter \<and> \<not> optionsEmitter then throw (GenericError ''Log emitter not defined'')
      else case logLevel of
             None \<Rightarrow> return True
           | Some l \<Rightarrow>
               if l = [] then return True
               else (case (logLevelSeverity typ, logLevelSeverity l) of
                       (Some s, Some t) \<Rightarrow> return (\<not> s < t)
                     | _ \<Rightarrow> return True))"

section \<open>HashSet\<close>

text \<open>\<open>items\<close> maps a key to \<open>true\<close> or does not have it; keys are other than \<open>__proto__\<close>. The result of
  \<open>remove\<close> is \<^const>\<open>None\<close> where the code returns nothing.\<close>

record HashSet =
  hlength :: nat
  hitems :: "bool jsobj"

definition new_HashSet :: HashSet where
  "new_HashSet = \<lparr>hlength = 0, hitems = []\<rparr>"

definition HashSet_contains :: "HashSet \<Rightarrow> string \<Rightarrow> bool" where
  "HashSet_contains h key = (hlength h > 0 \<and> obj_get (hitems h) key = Some True)"

definition HashSet_add :: "HashSet \<Rightarrow> string \<Rightarrow> bool \<times> HashSet" where
  "HashSet_add h key =
     (if HashSet_contains h key then (False, h)
      else (True, h\<lparr>hitems := obj_set (hitems h) key True, hlength := hlength h + 1\<rparr>))"

definition HashSet_remove :: "HashSet \<Rightarrow> string \<Rightarrow> bool option \<times> HashSet" where
  "HashSet_remove h key =
     (if \<not> HashSet_contains h key then (Some False, h)
      else (None, h\<lparr>hitems := filter (\<lambda>(k, v). k \<noteq> key) (hitems h), hlength := hlength h - 1\<rparr>))"

definition HashSet_toArray :: "HashSet \<Rightarrow> string list" where
  "HashSet_toArray h = map fst (hitems h)"

section \<open>AddressResolver\<close>

record AddressResolver =
  arName :: string
  arIsIp :: bool
  arIndex :: int
  arAddresses :: "string list option"
  arRefreshing :: bool

definition new_AddressResolver :: "bool \<Rightarrow> string \<Rightarrow> bool \<Rightarrow> AddressResolver result" where
  "new_AddressResolver isIP nameOrIp hasDns =
     (if nameOrIp = [] \<or> \<not> hasDns
      then throw (GenericError ''nameOrIp and dns lib must be provided as part of the options'')
      else return \<lparr>arName = nameOrIp, arIsIp = isIP, arIndex = 0, arAddresses = None, arRefreshing = False\<rparr>)"

text \<open>\<open>#resolve\<close> on the answer of \<open>resolve4\<close>.\<close>

definition AddressResolver_resolve :: "AddressResolver \<Rightarrow> string list option result \<Rightarrow> AddressResolver result" where
  "AddressResolver_resolve r answer =
     rbind answer (\<lambda>arr. case arr of
         None \<Rightarrow> throw (GenericError (arName r @ '' could not be resolved''))
       | Some a \<Rightarrow> if length a = 0 then throw (GenericError (arName r @ '' could not be resolved''))
                   else return (r\<lparr>arAddresses := Some a\<rparr>))"

definition AddressResolver_init :: "AddressResolver \<Rightarrow> string list option result \<Rightarrow> AddressResolver result" where
  "AddressResolver_init r answer = (if arIsIp r then return r else AddressResolver_resolve r answer)"

text \<open>\<open>refresh\<close> up to its first \<open>await\<close>, with whether a resolution was started, and from the answer on.
  A second caller waits for the event of the first.\<close>

definition AddressResolver_refresh_begin :: "AddressResolver \<Rightarrow> bool \<times> AddressResolver" where
  "AddressResolver_refresh_begin r =
     (if arIsIp r then (False, r)
      else if arRefreshing r then (False, r)
      else (True, r\<lparr>arRefreshing := True\<rparr>))"

definition AddressResolver_refresh_end :: "AddressResolver \<Rightarrow> string list option result \<Rightarrow> AddressResolver" where
  "AddressResolver_refresh_end r answer =
     (case AddressResolver_resolve r answer of Inl e \<Rightarrow> r | Inr r' \<Rightarrow> r')\<lparr>arRefreshing := False\<rparr>"

definition AddressResolver_getIp :: "AddressResolver \<Rightarrow> (string \<times> AddressResolver) result" where
  "AddressResolver_getIp r =
     (if arIsIp r then return (arName r, r)
      else case arAddresses r of
             None \<Rightarrow> throw (TypeError ''Cannot read properties of null (reading 'length')'')
           | Some addresses \<Rightarrow>
               return (addresses ! nat (arIndex r mod int (length addresses)),
                       r\<lparr>arIndex := (if arIndex r \<noteq> 0x7fffffff then arIndex r + 1 else 0)\<rparr>))"

end
