(* ===== verification/Utils_Correct.thy ===== *)
theory Utils_Correct
  imports Utils "HOL-Library.Multiset"
begin

text \<open>
  What the helpers of \<open>lib/utils.js\<close> guarantee: lookup laws of \<open>extend\<close> and \<open>deepExtend\<close>, the binary
  search over the contract \<open>total_compare\<close>, the permutation \<open>shuffleArray\<close> computes, \<open>HashSet\<close> as a set
  (the locale \<open>set_spec\<close>) and the rotation of \<open>AddressResolver\<close>.
\<close>

section \<open>Objects\<close>

lemma obj_get_set: "obj_get (obj_set ob k v) k' = (if k = k' then Some v else obj_get ob k')"
  by (induction ob k v rule: obj_set.induct) auto

lemma obj_set_keys: "fst ` set (obj_set ob k v) = insert k (fst ` set ob)"
  by (induction ob k v rule: obj_set.induct) auto

lemma obj_set_distinct: "distinct (map fst ob) \<Longrightarrow> distinct (map fst (obj_set ob k v))"
proof (induction ob k v rule: obj_set.induct)
  case (2 k' v' ob k v)
  then show ?case using obj_set_keys[of ob k v] by (auto simp: image_iff)
qed simp

lemma obj_get_None: "obj_get ob k = None \<longleftrightarrow> k \<notin> fst ` set ob"
  by (induction ob k rule: obj_get.induct) (auto simp: image_iff)

lemma obj_get_Some: "distinct (map fst ob) \<Longrightarrow> obj_get ob k = Some v \<longleftrightarrow> (k, v) \<in> set ob"
  by (induction ob k rule: obj_get.induct) (auto simp: image_iff)

lemma obj_get_append: "obj_get (a @ b) k = (case obj_get a k of None \<Rightarrow> obj_get b k | Some v \<Rightarrow> Some v)"
  by (induction a k rule: obj_get.induct) auto

text \<open>A loop that sets, for each property of a source, the value computed from it.\<close>

lemma foldl_obj_set:
  assumes "distinct (map fst props)"
  shows "obj_get (foldl (\<lambda>t (k, v). case g k v of None \<Rightarrow> t | Some w \<Rightarrow> obj_set t k w) target props) x
    = (case Option.bind (obj_get props x) (g x) of None \<Rightarrow> obj_get target x | Some w \<Rightarrow> Some w)"
  using assms
proof (induction props arbitrary: target)
  case (Cons p props)
  obtain k v where p: "p = (k, v)" by (cases p)
  have "k \<notin> fst ` set props" "distinct (map fst props)" using Cons.prems p by auto
  then show ?case using Cons.IH p obj_get_None[of props k] by (auto simp: obj_get_set split: option.splits)
qed simp

lemma extend_source_get:
  assumes "distinct (map fst props)"
  shows "obj_get (extend_source target (Some props)) x
    = (case obj_get props x of Some (Some v) \<Rightarrow> Some (Some v) | _ \<Rightarrow> obj_get target x)"
proof -
  have "extend_source target (Some props) = foldl (\<lambda>t (k, v). case map_option Some v of None \<Rightarrow> t | Some w \<Rightarrow> obj_set t k w) target props"
    unfolding extend_source_def option.case by (rule foldl_cong) (auto split: option.splits)
  then show ?thesis using foldl_obj_set[OF assms, of "\<lambda>_. map_option Some" target x] by (auto split: option.splits)
qed

definition deep_merge :: "jsval option \<Rightarrow> jsval \<Rightarrow> jsval" where
  "deep_merge t v =
     (case t of Some (JObject inner) \<Rightarrow> JObject (deepExtend_source inner v)
      | Some (JInstance c inner) \<Rightarrow> (if c = ''Object'' then JObject (deepExtend_source inner v) else v)
      | _ \<Rightarrow> v)"

lemma deepExtend_source_get:
  assumes "distinct (map fst (enumerable source))"
  shows "obj_get (deepExtend_source target source) x
    = (case obj_get (enumerable source) x of None \<Rightarrow> obj_get target x
       | Some v \<Rightarrow> Some (deep_merge (obj_get target x) v))"
proof -
  have "deepExtend_source target source
      = foldl (\<lambda>t (k, v). case Some (deep_merge (obj_get target k) v) of None \<Rightarrow> t | Some w \<Rightarrow> obj_set t k w) target (enumerable source)"
    by (subst deepExtend_source.simps, rule foldl_cong)
      (auto simp: deep_merge_def split: option.splits jsval.splits)
  then show ?thesis
    using foldl_obj_set[OF assms, of "\<lambda>k v. Some (deep_merge (obj_get target k) v)" target x]
    by (auto split: option.splits)
qed

lemma deepExtend_replaces: "deep_replace t \<Longrightarrow> deep_merge t v = v"
  by (auto simp: deep_merge_def deep_replace_iff split: option.splits jsval.splits)

section \<open>Binary search\<close>

text \<open>The array is ordered as seen from the key.\<close>

definition key_sorted :: "('a \<Rightarrow> 'b \<Rightarrow> int) \<Rightarrow> 'b \<Rightarrow> 'a list \<Rightarrow> bool" where
  "key_sorted cmp key arr \<longleftrightarrow> (\<forall>i j. i < j \<longrightarrow> j < length arr \<longrightarrow>
     (cmp (arr ! j) key < 0 \<longrightarrow> cmp (arr ! i) key < 0) \<and> (cmp (arr ! i) key > 0 \<longrightarrow> cmp (arr ! j) key > 0))"

definition search_result :: "('a \<Rightarrow> 'b \<Rightarrow> int) \<Rightarrow> 'b \<Rightarrow> 'a list \<Rightarrow> int \<Rightarrow> bool" where
  "search_result cmp key arr r \<longleftrightarrow>
     (if 0 \<le> r then r < int (length arr) \<and> cmp (arr ! nat r) key = 0
      else (let p = - r - 1 in p \<le> int (length arr)
        \<and> (\<forall>i < nat p. cmp (arr ! i) key < 0) \<and> (\<forall>i. nat p \<le> i \<longrightarrow> i < length arr \<longrightarrow> cmp (arr ! i) key > 0)))"

lemma binarySearch_loop_correct:
  assumes "key_sorted cmp key arr" "int (length arr) < 2147483648"
    "0 \<le> low" "low \<le> high + 1" "high < int (length arr)" "high - low + 1 < int n"
    "\<forall>i < nat low. cmp (arr ! i) key < 0" "\<forall>i. high < int i \<longrightarrow> i < length arr \<longrightarrow> cmp (arr ! i) key > 0"
  shows "\<exists>r. binarySearch_loop n arr key cmp low high = Some r \<and> search_result cmp key arr r"
  using assms
proof (induction n arbitrary: low high)
  case 0
  then show ?case by simp
next
  case (Suc n)
  show ?case
  proof (cases "low \<le> high")
    case True
    let ?m = "(low + high) div 2"
    have m: "low \<le> ?m" "?m \<le> high" using True by auto
    have sh: "js_shru (low + high) (Suc 0) = ?m" using Suc.prems True by (simp add: js_shru_eq)
    note srt = Suc.prems(1)[unfolded key_sorted_def, rule_format]
    have lt: "nat ?m < length arr" using m Suc.prems by auto
    consider "cmp (arr ! nat ?m) key < 0" | "cmp (arr ! nat ?m) key > 0" | "cmp (arr ! nat ?m) key = 0" by linarith
    then show ?thesis
    proof cases
      case 1
      have "\<forall>i < nat (?m + 1). cmp (arr ! i) key < 0"
      proof (intro allI impI)
        fix i assume "i < nat (?m + 1)"
        then have "i = nat ?m \<or> i < nat ?m" using m Suc.prems(3) by linarith
        then show "cmp (arr ! i) key < 0" using 1 srt[of i "nat ?m"] lt by auto
      qed
      then show ?thesis using Suc.IH[of "?m + 1" high] Suc.prems 1 True m by (simp add: Let_def sh)
    next
      case 2
      have "\<forall>i. ?m - 1 < int i \<longrightarrow> i < length arr \<longrightarrow> cmp (arr ! i) key > 0"
      proof (intro allI impI)
        fix i assume "?m - 1 < int i" "i < length arr"
        then have "i = nat ?m \<or> nat ?m < i" using m Suc.prems(3) by linarith
        then show "cmp (arr ! i) key > 0" using 2 srt[of "nat ?m" i] \<open>i < length arr\<close> by auto
      qed
      moreover have "binarySearch_loop (Suc n) arr key cmp low high = binarySearch_loop n arr key cmp low (?m - 1)"
        using 2 True by (simp add: Let_def sh)
      ultimately show ?thesis using Suc.IH[of low "?m - 1"] Suc.prems m by simp
    next
      case 3
      then show ?thesis using True m Suc.prems by (simp add: Let_def sh search_result_def)
    qed
  next
    case False
    then have "js_not low = - low - 1" using Suc.prems by (simp add: js_not_arith is_int32_def)
    then show ?thesis using False Suc.prems by (simp add: search_result_def)
  qed
qed

lemma binarySearch_correct:
  assumes "key_sorted cmp key arr" "int (length arr) < 2147483648"
  shows "\<exists>r. binarySearch arr key cmp = Some r \<and> search_result cmp key arr r"
  unfolding binarySearch_def by (rule binarySearch_loop_correct) (use assms in auto)

context total_compare
begin

lemma sorted_key_sorted:
  assumes "sorted_wrt (\<lambda>a b. cmp a b \<le> 0) arr" "list_all ok arr" "ok key"
  shows "key_sorted cmp key arr"
  unfolding key_sorted_def
proof (intro allI impI conjI)
  fix i j assume ij: "i < j" "j < length arr"
  then have o: "ok (arr ! i)" "ok (arr ! j)" and le: "cmp (arr ! i) (arr ! j) \<le> 0"
    using assms by (auto simp: list_all_length sorted_wrt_iff_nth_less)
  show "cmp (arr ! i) key < 0" if "cmp (arr ! j) key < 0"
    using trans_less(2)[OF o(1,2) assms(3) le that] .
  show "cmp (arr ! j) key > 0" if "cmp (arr ! i) key > 0"
    using trans[OF o(1,2) assms(3) le] that by linarith
qed

lemma insert_sorted:
  assumes "sorted_wrt (\<lambda>a b. cmp a b \<le> 0) arr" "list_all ok arr" "ok item" "int (length arr) < 2147483648"
  shows "\<exists>arr'. insertSorted arr item cmp = Some arr' \<and> sorted_wrt (\<lambda>a b. cmp a b \<le> 0) arr'
    \<and> mset arr' = add_mset item (mset arr) \<and> list_all ok arr'"
proof (cases "arr = []")
  case True
  then show ?thesis using assms(3) by (simp add: insertSorted_def)
next
  case False
  obtain r where r: "binarySearch arr item cmp = Some r" "search_result cmp item arr r"
    using binarySearch_correct[OF sorted_key_sorted[OF assms(1-3)] assms(4)] by blast
  define p where "p = nat (if r < 0 then js_not r else r)"
  have ok: "i < length arr \<Longrightarrow> ok (arr ! i)" for i using assms(2) by (simp add: list_all_length)
  have p: "p \<le> length arr" "\<And>i. i < p \<Longrightarrow> cmp (arr ! i) item \<le> 0" "\<And>i. p \<le> i \<Longrightarrow> i < length arr \<Longrightarrow> cmp item (arr ! i) \<le> 0"
  proof -
    have le: "cmp (arr ! i) (arr ! j) \<le> 0" if "i < j" "j < length arr" for i j
      using assms(1) that by (simp add: sorted_wrt_iff_nth_less)
    have *: "p \<le> length arr \<and> (\<forall>i < p. cmp (arr ! i) item \<le> 0) \<and> (\<forall>i. p \<le> i \<longrightarrow> i < length arr \<longrightarrow> cmp item (arr ! i) \<le> 0)"
    proof (cases "0 \<le> r")
      case True
      then have p: "p = nat r" "p < length arr" "cmp (arr ! p) item = 0" using r(2) by (simp_all add: search_result_def p_def nat_less_iff)
      then have q: "cmp item (arr ! p) = 0" using flip(3)[OF ok assms(3)] by simp
      have "cmp (arr ! i) item \<le> 0" if "i < p" for i
        using trans[OF ok ok assms(3) le[OF that p(2)]] p that by simp
      moreover have "cmp item (arr ! i) \<le> 0" if "p \<le> i" "i < length arr" for i
        using trans[OF assms(3) ok ok _ le[OF _ that(2)], of p] q p(2) that by (cases "i = p") auto
      ultimately show ?thesis using p(2) by simp
    next
      case False
      then have "js_not r = - r - 1" using r(2) assms(4) by (simp add: search_result_def js_not_arith is_int32_def Let_def)
      then have "p = nat (- r - 1)" using False by (simp add: p_def)
      then show ?thesis using False r(2) flip(4)[OF assms(3) ok]
        by (auto simp: search_result_def Let_def nat_le_iff intro!: less_imp_le)
    qed
    then show "p \<le> length arr" "\<And>i. i < p \<Longrightarrow> cmp (arr ! i) item \<le> 0" "\<And>i. p \<le> i \<Longrightarrow> i < length arr \<Longrightarrow> cmp item (arr ! i) \<le> 0"
      by blast+
  qed
  have e: "insertSorted arr item cmp = Some (take p arr @ item # drop p arr)"
    using False r(1) by (simp add: insertSorted_def p_def Let_def)
  have "sorted_wrt (\<lambda>a b. cmp a b \<le> 0) (take p arr @ item # drop p arr)"
  proof -
    have "sorted_wrt (\<lambda>a b. cmp a b \<le> 0) (take p arr @ drop p arr)" using assms(1) by simp
    then have "sorted_wrt (\<lambda>a b. cmp a b \<le> 0) (take p arr)" "sorted_wrt (\<lambda>a b. cmp a b \<le> 0) (drop p arr)"
      "\<forall>x \<in> set (take p arr). \<forall>y \<in> set (drop p arr). cmp x y \<le> 0"
      unfolding sorted_wrt_append by blast+
    moreover have "cmp x item \<le> 0" if "x \<in> set (take p arr)" for x
      using that p(2) by (auto simp: in_set_conv_nth)
    moreover have "cmp item y \<le> 0" if "y \<in> set (drop p arr)" for y
      using that p(1,3) by (auto simp: in_set_conv_nth)
    ultimately show ?thesis by (simp add: sorted_wrt_append)
  qed
  moreover have "mset (take p arr @ item # drop p arr) = add_mset item (mset arr)"
    by (metis append_take_drop_id mset.simps(2) mset_append union_mset_add_mset_right)
  ultimately show ?thesis using e assms(2,3) by (auto simp: list_all_iff dest: in_set_takeD in_set_dropD)
qed

end

section \<open>Shuffling\<close>

lemma mset_swap: "i < length xs \<Longrightarrow> j < length xs \<Longrightarrow> mset (xs[i := xs ! j, j := xs ! i]) = mset xs"
  by (cases "i = j") (simp_all add: mset_update nth_list_update multiset_eq_iff)

lemma shuffle_loop_perm:
  "n < length arr \<Longrightarrow> (\<And>i. i \<le> n \<Longrightarrow> rnd i \<le> i) \<Longrightarrow> mset (shuffle_loop n rnd arr) = mset arr"
proof (induction n arbitrary: arr)
  case (Suc n)
  have "rnd (Suc n) < length arr" using Suc.prems(1) Suc.prems(2)[of "Suc n"] by simp
  then show ?case using Suc mset_swap[of "Suc n" arr "rnd (Suc n)"] by (simp add: Let_def)
qed simp

section \<open>HashSet as a set\<close>

text \<open>The contract of a set of keys with its size and the answers of its operations.\<close>

locale set_spec =
  fixes inv :: "'s \<Rightarrow> bool" and elems :: "'s \<Rightarrow> 'k set" and size_of :: "'s \<Rightarrow> nat"
    and empty :: 's and add :: "'s \<Rightarrow> 'k \<Rightarrow> bool \<times> 's" and remove :: "'s \<Rightarrow> 'k \<Rightarrow> 's" and contains :: "'s \<Rightarrow> 'k \<Rightarrow> bool"
  assumes empty: "inv empty" "elems empty = {}"
    and add: "inv s \<Longrightarrow> inv (snd (add s k)) \<and> elems (snd (add s k)) = insert k (elems s) \<and> fst (add s k) = (k \<notin> elems s)"
    and remove: "inv s \<Longrightarrow> inv (remove s k) \<and> elems (remove s k) = elems s - {k}"
    and contains: "inv s \<Longrightarrow> contains s k \<longleftrightarrow> k \<in> elems s"
    and size_of: "inv s \<Longrightarrow> size_of s = card (elems s) \<and> finite (elems s)"
begin

lemma add_all:
  "inv s \<Longrightarrow> inv (fold (\<lambda>k s. snd (add s k)) ks s) \<and> elems (fold (\<lambda>k s. snd (add s k)) ks s) = elems s \<union> set ks"
proof (induction ks arbitrary: s)
  case (Cons k ks)
  then show ?case using add[of s k] by auto
qed simp

lemma size_of_adds: "size_of (fold (\<lambda>k s. snd (add s k)) ks empty) = card (set ks)"
  using add_all[OF empty(1), of ks] size_of empty(2) by simp

end

definition HashSet_inv :: "HashSet \<Rightarrow> bool" where
  "HashSet_inv h \<longleftrightarrow> distinct (map fst (hitems h)) \<and> hlength h = length (hitems h) \<and> (\<forall>(k, v) \<in> set (hitems h). v)"

definition HashSet_elems :: "HashSet \<Rightarrow> string set" where
  "HashSet_elems h = fst ` set (hitems h)"

lemma obj_set_new: "k \<notin> fst ` set ob \<Longrightarrow> obj_set ob k v = ob @ [(k, v)]"
  by (induction ob k v rule: obj_set.induct) auto

lemma HashSet_contains_iff: "HashSet_inv h \<Longrightarrow> HashSet_contains h k \<longleftrightarrow> k \<in> HashSet_elems h"
  by (force simp: HashSet_inv_def HashSet_contains_def HashSet_elems_def obj_get_Some intro: length_pos_if_in_set)

lemma HashSet_add_spec:
  assumes "HashSet_inv h"
  shows "HashSet_inv (snd (HashSet_add h k)) \<and> HashSet_elems (snd (HashSet_add h k)) = insert k (HashSet_elems h)
    \<and> fst (HashSet_add h k) = (k \<notin> HashSet_elems h)"
  using assms HashSet_contains_iff[OF assms, of k] obj_set_new[of k "hitems h" True]
  by (auto simp: HashSet_add_def HashSet_inv_def HashSet_elems_def image_iff)

lemma distinct_filter_key:
  "distinct (map fst ob) \<Longrightarrow> k \<in> fst ` set ob \<Longrightarrow> Suc (length (filter (\<lambda>(k', v). k' \<noteq> k) ob)) = length ob"
proof (induction ob)
  case (Cons p ob)
  have "filter (\<lambda>(k', v). k' \<noteq> k) ob = ob" if "k \<notin> fst ` set ob"
    using that by (force simp: filter_id_conv)
  then show ?case using Cons by (cases p) auto
qed simp

lemma HashSet_remove_spec:
  assumes "HashSet_inv h"
  shows "HashSet_inv (snd (HashSet_remove h k)) \<and> HashSet_elems (snd (HashSet_remove h k)) = HashSet_elems h - {k}"
proof (cases "k \<in> HashSet_elems h")
  case True
  then show ?thesis
    using assms HashSet_contains_iff[OF assms, of k] distinct_filter_key[of "hitems h" k]
    by (auto simp: HashSet_remove_def HashSet_inv_def HashSet_elems_def distinct_map_filter)
next
  case False
  then show ?thesis using assms HashSet_contains_iff[OF assms, of k] by (simp add: HashSet_remove_def)
qed

interpretation hash_set: set_spec HashSet_inv HashSet_elems hlength new_HashSet HashSet_add
  "\<lambda>h k. snd (HashSet_remove h k)" HashSet_contains
proof unfold_locales
  show "HashSet_inv new_HashSet" "HashSet_elems new_HashSet = {}"
    by (simp_all add: new_HashSet_def HashSet_inv_def HashSet_elems_def)
  show "hlength h = card (HashSet_elems h) \<and> finite (HashSet_elems h)" if "HashSet_inv h" for h
    using that distinct_card[of "map fst (hitems h)"] by (simp add: HashSet_inv_def HashSet_elems_def)
qed (use HashSet_add_spec HashSet_remove_spec HashSet_contains_iff in auto)

section \<open>AddressResolver\<close>

definition resolver_ok :: "AddressResolver \<Rightarrow> bool" where
  "resolver_ok r \<longleftrightarrow> 0 \<le> arIndex r \<and> arIndex r \<le> 2147483647 \<and> (case arAddresses r of None \<Rightarrow> arIsIp r | Some a \<Rightarrow> a \<noteq> [])"

fun getIps :: "nat \<Rightarrow> AddressResolver \<Rightarrow> (string list \<times> AddressResolver) result" where
  "getIps 0 r = Inr ([], r)"
| "getIps (Suc n) r = rbind (AddressResolver_getIp r) (\<lambda>(ip, r'). rbind (getIps n r') (\<lambda>(ips, r''). Inr (ip # ips, r'')))"

lemma getIp_ok:
  "resolver_ok r \<Longrightarrow> \<exists>ip r'. AddressResolver_getIp r = Inr (ip, r') \<and> resolver_ok r' \<and> arAddresses r' = arAddresses r \<and> arIsIp r' = arIsIp r"
  by (auto simp: resolver_ok_def AddressResolver_getIp_def split: option.splits)

lemma getIps_rotation:
  assumes "resolver_ok r" "\<not> arIsIp r" "arAddresses r = Some a" "arIndex r + int n \<le> 2147483648"
  shows "\<exists>r'. getIps n r = Inr (map (\<lambda>i. a ! nat ((arIndex r + int i) mod int (length a))) [0..<n], r') \<and> resolver_ok r'"
  using assms
proof (induction n arbitrary: r)
  case (Suc n)
  define r1 where "r1 = r\<lparr>arIndex := (if arIndex r \<noteq> 0x7fffffff then arIndex r + 1 else 0)\<rparr>"
  have g: "AddressResolver_getIp r = Inr (a ! nat (arIndex r mod int (length a)), r1)"
    using Suc.prems by (simp add: AddressResolver_getIp_def r1_def)
  have r1: "resolver_ok r1" "\<not> arIsIp r1" "arAddresses r1 = Some a"
    using Suc.prems by (auto simp: resolver_ok_def r1_def)
  have e: "map (\<lambda>i. a ! nat ((arIndex r + int i) mod int (length a))) [0..<Suc n]
      = a ! nat (arIndex r mod int (length a)) # map (\<lambda>i. a ! nat ((arIndex r + 1 + int i) mod int (length a))) [0..<n]"
    by (simp only: upt_conv_Cons[of 0] zero_less_Suc map_Suc_upt[symmetric] list.map map_map) (simp add: comp_def algebra_simps)
  show ?case
  proof (cases "n = 0")
    case True
    then show ?thesis using g r1 by simp
  next
    case False
    then have i: "arIndex r1 = arIndex r + 1" using Suc.prems(4) by (auto simp: r1_def)
    obtain r' where "getIps n r1 = Inr (map (\<lambda>i. a ! nat ((arIndex r1 + int i) mod int (length a))) [0..<n], r')" "resolver_ok r'"
      using Suc.IH[OF r1] Suc.prems(4) i by auto
    then show ?thesis unfolding e using g i by simp
  qed
qed simp

lemma resolver_ok_refreshing: "resolver_ok (r\<lparr>arRefreshing := b\<rparr>) = resolver_ok r"
  by (cases r) (simp add: resolver_ok_def split: option.split)

lemma refresh_keeps:
  "resolver_ok r \<Longrightarrow> resolver_ok (AddressResolver_refresh_end r answer) \<and> \<not> arRefreshing (AddressResolver_refresh_end r answer)"
proof -
  assume "resolver_ok r"
  then have "resolver_ok (case AddressResolver_resolve r answer of Inl e \<Rightarrow> r | Inr r' \<Rightarrow> r')"
    by (cases answer) (auto simp: AddressResolver_resolve_def resolver_ok_def split: option.split)
  then show ?thesis by (simp add: AddressResolver_refresh_end_def resolver_ok_refreshing)
qed

section \<open>Properties\<close>

lemma varint_samples:
  "Integer_wf \<lparr>ibits = [], isign = 0\<rparr>" "Integer_val \<lparr>ibits = [], isign = 0\<rparr> = 0"
  "Integer_wf \<lparr>ibits = [5], isign = 0\<rparr>" "Integer_val \<lparr>ibits = [5], isign = 0\<rparr> = 5"
  by (simp_all add: Integer_wf_def Integer_val_def is_sign_def is_int32_def)

text \<open>On an array sorted by a total compare function and shorter than \<open>2 ^ 31\<close>, \<open>binarySearch\<close>
  returns: either the index of an element equal to the key, or the complement of a position such that
  everything before it is smaller and everything from it on is larger.\<close>

theorem binarySearch_finds:
  assumes "total_compare ok cmp" "sorted_wrt (\<lambda>a b. cmp a b \<le> 0) arr" "list_all ok arr" "ok key"
    "int (length arr) < 2147483648"
  shows "\<exists>r. binarySearch arr key cmp = Some r \<and>
    (if 0 \<le> r then r < int (length arr) \<and> cmp (arr ! nat r) key = 0
     else (let p = - r - 1 in p \<le> int (length arr)
       \<and> (\<forall>i < nat p. cmp (arr ! i) key < 0) \<and> (\<forall>i. nat p \<le> i \<longrightarrow> i < length arr \<longrightarrow> cmp (arr ! i) key > 0)))"
  using binarySearch_correct[OF total_compare.sorted_key_sorted[OF assms(1-4)] assms(5)]
  by (simp add: search_result_def)

theorem binarySearch_finds_witness:
  "\<exists>r. binarySearch [\<lparr>ibits = [], isign = 0\<rparr>, \<lparr>ibits = [5], isign = 0\<rparr>] \<lparr>ibits = [5], isign = 0\<rparr> Integer_compare = Some r"
  using binarySearch_finds[OF varint_order.total_compare_axioms, of "[\<lparr>ibits = [], isign = 0\<rparr>, \<lparr>ibits = [5], isign = 0\<rparr>]" "\<lparr>ibits = [5], isign = 0\<rparr>"]
  by (auto simp: varint_samples Integer_compare_correct)

text \<open>\<open>insertSorted\<close> keeps the array sorted and adds exactly the new element.\<close>

theorem insertSorted_keeps:
  assumes "total_compare ok cmp" "sorted_wrt (\<lambda>a b. cmp a b \<le> 0) arr" "list_all ok arr" "ok item"
    "int (length arr) < 2147483648"
  shows "\<exists>arr'. insertSorted arr item cmp = Some arr' \<and> sorted_wrt (\<lambda>a b. cmp a b \<le> 0) arr'
    \<and> mset arr' = add_mset item (mset arr)"
  using total_compare.insert_sorted[OF assms] by blast

theorem insertSorted_keeps_witness:
  "\<exists>arr'. insertSorted [[1], [3]] [2] buffer_compare = Some arr' \<and> sorted_wrt (\<lambda>a b. buffer_compare a b \<le> 0) arr'
    \<and> mset arr' = add_mset [2] (mset [[1], [3]])"
  by (rule insertSorted_keeps[OF buffer_order.total_compare_axioms]) simp_all

text \<open>After \<open>deepExtend\<close> with one source a property the source does not have is untouched; a property
  it has replaces the target's unless that is a plain object, which is extended in turn with the
  source's value.\<close>

theorem deepExtend_merges:
  assumes "distinct (map fst props)"
  shows "obj_get (deepExtend target [JObject props]) x =
    (case obj_get props x of None \<Rightarrow> obj_get target x
     | Some v \<Rightarrow> (case obj_get target x of Some (JObject inner) \<Rightarrow> Some (JObject (deepExtend inner [v]))
                  | t \<Rightarrow> if deep_replace t then Some v else obj_get (deepExtend target [JObject props]) x))"
  using deepExtend_source_get[of "JObject props" target x] assms
  by (auto simp: deepExtend_def deep_merge_def deep_replace_iff split: option.splits jsval.splits)

theorem deepExtend_merges_witness:
  "obj_get (deepExtend [(''pooling'', JObject [(''a'', JNum 1), (''b'', JNum 2)])] [JObject [(''pooling'', JObject [(''b'', JNum 3)])]]) ''pooling''
   = Some (JObject (deepExtend [(''a'', JNum 1), (''b'', JNum 2)] [JObject [(''b'', JNum 3)]]))"
  using deepExtend_merges[of "[(''pooling'', JObject [(''b'', JNum 3)])]" "[(''pooling'', JObject [(''a'', JNum 1), (''b'', JNum 2)])]" "''pooling''"]
  by simp

text \<open>\<open>adaptNamedParamsPrepared\<close> returns one value per bound name, each the value the lower-cased
  parameters have for that name, and throws an \<open>ArgumentError\<close> exactly when a name is missing.\<close>

theorem adaptNamedParamsPrepared_outcome:
  "adaptNamedParamsPrepared params names =
    (if \<forall>n \<in> set names. obj_get (toLowerCaseProperties params) n \<noteq> None
     then Inr (map (\<lambda>n. the (obj_get (toLowerCaseProperties params) n)) names)
     else Inl (ArgumentError (''Parameter '' @ [CHR 0x22] @
            hd (filter (\<lambda>n. obj_get (toLowerCaseProperties params) n = None) names) @ [CHR 0x22] @ '' not defined'')))"
  unfolding adaptNamedParamsPrepared_def Let_def
  by (induction names) (auto split: option.splits)

theorem adaptNamedParamsPrepared_outcome_witness:
  "adaptNamedParamsPrepared [(''Id'', 1 :: int), (''NAME'', 2)] [''name'', ''id''] = Inr [2, 1]"
proof -
  have "toLowerCaseProperties [(''Id'', 1 :: int), (''NAME'', 2)] = [(''id'', 1), (''name'', 2)]" by code_simp
  then show ?thesis using adaptNamedParamsPrepared_outcome[of "[(''Id'', 1 :: int), (''NAME'', 2)]" "[''name'', ''id'']"]
    by simp
qed

text \<open>whatever random numbers in range it draws, \<open>shuffleArray\<close> returns a permutation of its array.\<close>

theorem shuffleArray_permutes:
  assumes "\<And>i. i < length arr \<Longrightarrow> rnd i \<le> i"
  shows "mset (shuffleArray rnd arr) = mset arr"
proof (cases arr)
  case (Cons a as)
  then show ?thesis unfolding shuffleArray_def using assms by (intro shuffle_loop_perm) auto
qed (simp add: shuffleArray_def)

theorem shuffleArray_permutes_witness: "mset (shuffleArray (\<lambda>i. i div 2) [1, 2, 3, 4 :: int]) = mset [1, 2, 3, 4]"
  by (rule shuffleArray_permutes) simp

text \<open>\<open>HashSet\<close> behaves as a set of keys: under its invariant, which \<open>add\<close> and \<open>remove\<close> keep,
  \<open>contains\<close> is membership, \<open>length\<close> the number of elements, \<open>add\<close> answers whether the key is new,
  \<open>toArray\<close> lists every element once, and adding any keys to a new set leaves as many as are distinct.\<close>

theorem HashSet_refines_set:
  assumes "HashSet_inv h"
  shows "(HashSet_inv (snd (HashSet_add h k)) \<and> HashSet_elems (snd (HashSet_add h k)) = insert k (HashSet_elems h)
      \<and> fst (HashSet_add h k) = (k \<notin> HashSet_elems h))
    \<and> (HashSet_inv (snd (HashSet_remove h k)) \<and> HashSet_elems (snd (HashSet_remove h k)) = HashSet_elems h - {k})
    \<and> (HashSet_contains h k \<longleftrightarrow> k \<in> HashSet_elems h) \<and> hlength h = card (HashSet_elems h)
    \<and> distinct (HashSet_toArray h) \<and> set (HashSet_toArray h) = HashSet_elems h
    \<and> hlength (fold (\<lambda>k s. snd (HashSet_add s k)) ks new_HashSet) = card (set ks)"
  using hash_set.add[OF assms, of k] hash_set.remove[OF assms, of k] hash_set.contains[OF assms, of k]
    hash_set.size_of[OF assms] hash_set.size_of_adds[of ks] assms
  by (simp add: HashSet_toArray_def HashSet_elems_def HashSet_inv_def)

theorem HashSet_refines_set_witness:
  "HashSet_contains \<lparr>hlength = 1, hitems = [(''a'', True)]\<rparr> ''a'' \<longleftrightarrow> ''a'' \<in> HashSet_elems \<lparr>hlength = 1, hitems = [(''a'', True)]\<rparr>"
  using HashSet_refines_set[of "\<lparr>hlength = 1, hitems = [(''a'', True)]\<rparr>" "''a''"] by (simp add: HashSet_inv_def)

text \<open>A resolver that has addresses hands them out in rotation from its index on, without an error,
  up to the largest index, and a refresh, whether it succeeds or fails, leaves it with addresses.\<close>

theorem AddressResolver_rotates:
  assumes "resolver_ok r" "\<not> arIsIp r" "arAddresses r = Some a" "arIndex r + int n \<le> 2147483648"
  shows "(\<exists>r'. getIps n r = Inr (map (\<lambda>i. a ! nat ((arIndex r + int i) mod int (length a))) [0..<n], r') \<and> resolver_ok r')
    \<and> resolver_ok (AddressResolver_refresh_end r answer)"
  using getIps_rotation[OF assms] refresh_keeps[OF assms(1)] by blast

theorem AddressResolver_rotates_witness:
  "\<exists>r'. getIps 3 \<lparr>arName = ''h'', arIsIp = False, arIndex = 5, arAddresses = Some [''10.0.0.1'', ''10.0.0.2''], arRefreshing = False\<rparr>
     = Inr ([''10.0.0.2'', ''10.0.0.1'', ''10.0.0.2''], r')"
  using AddressResolver_rotates[of "\<lparr>arName = ''h'', arIsIp = False, arIndex = 5, arAddresses = Some [''10.0.0.1'', ''10.0.0.2''], arRefreshing = False\<rparr>"
      "[''10.0.0.1'', ''10.0.0.2'']" 3 "Inr None"]
  by (auto simp: resolver_ok_def upt_rec)

end
