(* ===== verification/Async_Flow.thy ===== *)
theory Async_Flow
  imports Prelude
begin

text \<open>
  The callback-style control flow of \<open>lib/utils.js\<close>. Each combinator keeps a few counters in a
  closure; its items call \<open>next\<close> (or an item callback that calls it) when they finish, at a time and in
  an order nobody controls. A combinator is modelled by the state of its closure, one function per
  callback, and the log of the calls it makes: the items it starts and the invocations of the
  caller's callback. An event is one call of an item's callback, one deferred function run by
  \<open>process.nextTick\<close>, or the return of the first item's function, so a list of events is one
  interleaving.
\<close>

section \<open>Counting combinators\<close>

datatype 'r outcome = Cb_ok "'r option list" | Cb_err js_error

text \<open>The closure of \<open>each\<close>, \<open>mapEach\<close>, \<open>parallel\<close> and \<open>times\<close>: \<open>completed\<close>, whether \<open>callback\<close> is still
  the caller's, the array \<open>result\<close> and the calls made so far.\<close>

record 'r countdown =
  completed :: nat
  armed :: bool
  results :: "'r option list"
  calls :: "'r outcome list"

definition invoke_callback :: "'r countdown \<Rightarrow> 'r outcome \<Rightarrow> 'r countdown" where
  "invoke_callback s r = (if armed s then s\<lparr>calls := calls s @ [r]\<rparr> else s)"

text \<open>\<open>each(arr, fn, callback)\<close> up to the loop, for an array of that length.\<close>

definition each_start :: "nat \<Rightarrow> 'r countdown" where
  "each_start len =
     (let s = \<lparr>completed = 0, armed = True, results = [], calls = []\<rparr>
      in if len = 0 then invoke_callback s (Cb_ok []) else s)"

definition each_next :: "nat \<Rightarrow> js_error option \<Rightarrow> 'r countdown \<Rightarrow> 'r countdown" where
  "each_next len err s =
     (case err of
        Some e \<Rightarrow> (invoke_callback s (Cb_err e))\<lparr>armed := False\<rparr>
      | None \<Rightarrow>
          let s = s\<lparr>completed := completed s + 1\<rparr>
          in if completed s \<noteq> len then s else invoke_callback s (Cb_ok []))"

definition parallel_start :: "nat \<Rightarrow> 'r countdown" where
  "parallel_start len = \<lparr>completed = 0, armed = True, results = [], calls = []\<rparr>"

definition parallel_next :: "nat \<Rightarrow> js_error option \<Rightarrow> 'r countdown \<Rightarrow> 'r countdown" where
  "parallel_next len err s =
     (case err of
        Some e \<Rightarrow> (invoke_callback s (Cb_err e))\<lparr>armed := False\<rparr>
      | None \<Rightarrow>
          let s = s\<lparr>completed := completed s + 1\<rparr>
          in if completed s \<noteq> len then s else invoke_callback s (Cb_ok []))"

definition times_start :: "nat \<Rightarrow> 'r countdown" where
  "times_start count =
     (let s = \<lparr>completed = 0, armed = True, results = [], calls = []\<rparr>
      in if count = 0 then invoke_callback s (Cb_ok []) else s)"

definition times_next :: "nat \<Rightarrow> js_error option \<Rightarrow> 'r countdown \<Rightarrow> 'r countdown" where
  "times_next count err s =
     (case err of
        Some e \<Rightarrow> (invoke_callback s (Cb_err e))\<lparr>armed := False\<rparr>
      | None \<Rightarrow>
          let s = s\<lparr>completed := completed s + 1\<rparr>
          in if completed s \<noteq> count then s else invoke_callback s (Cb_ok []))"

definition mapEach_start :: "nat \<Rightarrow> 'r countdown" where
  "mapEach_start len =
     (let s = \<lparr>completed = 0, armed = True, results = replicate len None, calls = []\<rparr>
      in if len = 0 then invoke_callback s (Cb_ok []) else s)"

text \<open>\<open>mapItemCallback\<close> of item \<open>i\<close>, then \<open>next\<close>.\<close>

definition mapEach_item :: "nat \<Rightarrow> nat \<times> js_error option \<times> 'r option \<Rightarrow> 'r countdown \<Rightarrow> 'r countdown" where
  "mapEach_item len ev s =
     (case ev of (i, err, transformed) \<Rightarrow>
        let s = s\<lparr>results := (results s)[i := transformed]\<rparr>
        in case err of
             Some e \<Rightarrow> (invoke_callback s (Cb_err e))\<lparr>armed := False\<rparr>
           | None \<Rightarrow>
               let s = s\<lparr>completed := completed s + 1\<rparr>
               in if completed s \<noteq> len then s else invoke_callback s (Cb_ok (results s)))"

section \<open>One item at a time\<close>

text \<open>The closure of \<open>eachSeries\<close>, \<open>mapSeries\<close> and \<open>timesSeries\<close>, with the item that runs, the start of
  an item that waits for the next tick, and what was started. \<open>sync\<close> is \<open>undefined\<close> at first.\<close>

record 'r flow =
  findex :: nat
  fsync :: "bool option"
  frunning :: "nat option"
  ftick :: "nat option"
  fstarted :: "nat list"
  fresults :: "'r option list"
  fcalls :: "'r outcome list"

definition start_item :: "nat \<Rightarrow> 'r flow \<Rightarrow> 'r flow" where
  "start_item i s = s\<lparr>frunning := Some i, fstarted := fstarted s @ [i]\<rparr>"

definition call_back :: "'r outcome \<Rightarrow> 'r flow \<Rightarrow> 'r flow" where
  "call_back r s = s\<lparr>fcalls := fcalls s @ [r]\<rparr>"

text \<open>The item's callback ends the item before it runs \<open>next\<close>.\<close>

definition end_item :: "'r flow \<Rightarrow> 'r flow" where
  "end_item s = s\<lparr>frunning := None\<rparr>"

definition first_sync :: "'r flow \<Rightarrow> 'r flow" where
  "first_sync s = (if fsync s = None then s\<lparr>fsync := Some True\<rparr> else s)"

definition empty_flow :: "nat \<Rightarrow> nat \<Rightarrow> 'r flow" where
  "empty_flow idx len = \<lparr>findex = idx, fsync = None, frunning = None, ftick = None, fstarted = [],
     fresults = replicate len None, fcalls = []\<rparr>"

definition eachSeries_start :: "nat \<Rightarrow> 'r flow" where
  "eachSeries_start len =
     (if len = 0 then call_back (Cb_ok []) (empty_flow 1 0) else start_item 0 (empty_flow 1 0))"

definition eachSeries_next :: "nat \<Rightarrow> js_error option \<Rightarrow> 'r option \<Rightarrow> 'r flow \<Rightarrow> 'r flow" where
  "eachSeries_next len err transformed s =
     (let s = end_item s in
      case err of Some e \<Rightarrow> call_back (Cb_err e) s
      | None \<Rightarrow>
          if findex s \<ge> len then call_back (Cb_ok []) s
          else let s = first_sync s
               in if fsync s = Some True then s\<lparr>ftick := Some (findex s)\<rparr>
                  else start_item (findex s) (s\<lparr>findex := findex s + 1\<rparr>))"

text \<open>The deferred function reads \<open>index\<close> when it runs.\<close>

definition eachSeries_tick :: "'r flow \<Rightarrow> 'r flow" where
  "eachSeries_tick s = start_item (findex s) (s\<lparr>ftick := None, findex := findex s + 1\<rparr>)"

definition mapSeries_start :: "nat \<Rightarrow> 'r flow" where
  "mapSeries_start len =
     (if len = 0 then call_back (Cb_ok []) (empty_flow 0 0) else start_item 0 (empty_flow 0 len))"

definition mapSeries_next :: "nat \<Rightarrow> js_error option \<Rightarrow> 'r option \<Rightarrow> 'r flow \<Rightarrow> 'r flow" where
  "mapSeries_next len err transformed s =
     (let s = (case frunning s of None \<Rightarrow> s | Some i \<Rightarrow> s\<lparr>fresults := (fresults s)[i := transformed]\<rparr>);
          s = end_item s in
      case err of Some e \<Rightarrow> call_back (Cb_err e) s
      | None \<Rightarrow>
          let s = s\<lparr>findex := findex s + 1\<rparr>
          in if findex s = len then call_back (Cb_ok (fresults s)) s
             else let s = first_sync s
                  in if fsync s = Some True then s\<lparr>ftick := Some (findex s)\<rparr>
                     else start_item (findex s) s)"

text \<open>The deferred function has captured the item.\<close>

definition mapSeries_tick :: "'r flow \<Rightarrow> 'r flow" where
  "mapSeries_tick s = (case ftick s of None \<Rightarrow> s | Some i \<Rightarrow> start_item i (s\<lparr>ftick := None\<rparr>))"

definition timesSeries_start :: "nat \<Rightarrow> 'r flow" where
  "timesSeries_start count =
     (if count < 1 then call_back (Cb_ok []) (empty_flow 1 0) else start_item 0 (empty_flow 1 0))"

definition timesSeries_next :: "nat \<Rightarrow> js_error option \<Rightarrow> 'r option \<Rightarrow> 'r flow \<Rightarrow> 'r flow" where
  "timesSeries_next count err transformed s =
     (let s = end_item s in
      case err of Some e \<Rightarrow> call_back (Cb_err e) s
      | None \<Rightarrow>
          if findex s = count then call_back (Cb_ok []) s
          else let s = first_sync s; i = findex s; s = s\<lparr>findex := findex s + 1\<rparr>
               in if fsync s = Some True then s\<lparr>ftick := Some i\<rparr> else start_item i s)"

definition timesSeries_tick :: "'r flow \<Rightarrow> 'r flow" where
  "timesSeries_tick s = (case ftick s of None \<Rightarrow> s | Some i \<Rightarrow> start_item i (s\<lparr>ftick := None\<rparr>))"

text \<open>What can happen next: the running item calls back, the first item's function returns (after
  which \<open>sync\<close> is false unless it called back already), or the queued tick runs.\<close>

datatype 'r event = Item "js_error option" "'r option" | First_return | Tick

fun flow_step :: "(js_error option \<Rightarrow> 'r option \<Rightarrow> 'r flow \<Rightarrow> 'r flow) \<Rightarrow> ('r flow \<Rightarrow> 'r flow) \<Rightarrow> 'r event \<Rightarrow> 'r flow \<Rightarrow> 'r flow option" where
  "flow_step nxt tick (Item err v) s = (if frunning s = None then None else Some (nxt err v s))"
| "flow_step nxt tick First_return s = (if fsync s = None then Some (s\<lparr>fsync := Some False\<rparr>) else None)"
| "flow_step nxt tick Tick s = (if ftick s = None then None else Some (tick s))"

inductive reaches :: "(js_error option \<Rightarrow> 'r option \<Rightarrow> 'r flow \<Rightarrow> 'r flow) \<Rightarrow> ('r flow \<Rightarrow> 'r flow) \<Rightarrow> 'r flow \<Rightarrow> 'r flow \<Rightarrow> bool"
  for nxt tick s0 where
  here: "reaches nxt tick s0 s0"
| step: "reaches nxt tick s0 s \<Longrightarrow> flow_step nxt tick ev s = Some s' \<Longrightarrow> reaches nxt tick s0 s'"

section \<open>A bounded number of items at a time\<close>

text \<open>\<open>timesLimit\<close>: \<open>loopi\<close> is the loop variable, -1 after the loop; \<open>running\<close> the items started and not
  finished, \<open>ticks\<close> the starts that wait for a tick.\<close>

record limiter =
  lsync :: "bool option"
  lindex :: int
  loopi :: int
  lcompleted :: nat
  larmed :: bool
  running :: "nat list"
  ticks :: "nat list"
  lstarted :: "nat list"
  lcalls :: "unit outcome list"

definition timesLimit_start :: "nat \<Rightarrow> nat \<Rightarrow> limiter" where
  "timesLimit_start count lim =
     \<lparr>lsync = None, lindex = int (min lim count) - 1, loopi = 0, lcompleted = 0, larmed = True,
      running = [], ticks = [], lstarted = [], lcalls = []\<rparr>"

text \<open>One pass of the loop, and leaving it.\<close>

definition timesLimit_loop :: "nat \<Rightarrow> nat \<Rightarrow> limiter \<Rightarrow> limiter" where
  "timesLimit_loop count lim s =
     (if loopi s < int (min lim count)
      then s\<lparr>running := running s @ [nat (loopi s)], lstarted := lstarted s @ [nat (loopi s)], loopi := loopi s + 1\<rparr>
      else s\<lparr>loopi := - 1\<rparr>)"

definition timesLimit_next :: "nat \<Rightarrow> nat \<Rightarrow> js_error option \<Rightarrow> limiter \<Rightarrow> limiter" where
  "timesLimit_next count item err s =
     (let s = s\<lparr>running := remove1 item (running s)\<rparr> in
      case err of
        Some e \<Rightarrow> s\<lparr>larmed := False, lcalls := (if larmed s then lcalls s @ [Cb_err e] else lcalls s)\<rparr>
      | None \<Rightarrow>
          let s = s\<lparr>lcompleted := lcompleted s + 1\<rparr>
          in if lcompleted s = count then s\<lparr>lcalls := (if larmed s then lcalls s @ [Cb_ok []] else lcalls s)\<rparr>
             else let s = s\<lparr>lindex := lindex s + 1\<rparr>
                  in if lindex s \<ge> int count then s
                     else let s = (if lsync s = None then s\<lparr>lsync := Some (loopi s \<ge> 0)\<rparr> else s)
                          in if lsync s = Some True then s\<lparr>ticks := ticks s @ [nat (lindex s)]\<rparr>
                             else s\<lparr>running := running s @ [nat (lindex s)], lstarted := lstarted s @ [nat (lindex s)]\<rparr>)"

definition timesLimit_tick :: "nat \<Rightarrow> limiter \<Rightarrow> limiter" where
  "timesLimit_tick item s =
     s\<lparr>ticks := remove1 item (ticks s), running := running s @ [item], lstarted := lstarted s @ [item]\<rparr>"

inductive limited :: "nat \<Rightarrow> nat \<Rightarrow> limiter \<Rightarrow> bool" for count lim where
  start: "limited count lim (timesLimit_start count lim)"
| loop: "limited count lim s \<Longrightarrow> loopi s \<ge> 0 \<Longrightarrow> limited count lim (timesLimit_loop count lim s)"
| item: "limited count lim s \<Longrightarrow> i \<in> set (running s) \<Longrightarrow> limited count lim (timesLimit_next count i err s)"
| tick: "limited count lim s \<Longrightarrow> i \<in> set (ticks s) \<Longrightarrow> limited count lim (timesLimit_tick i s)"

end
