(* ===== verification/Async_Flow_Correct.thy ===== *)
theory Async_Flow_Correct
  imports Async_Flow
begin

text \<open>
  What the control flow of \<open>lib/utils.js\<close> guarantees for every interleaving: the caller's callback is
  called once and with the right answer, items run in order one at a time, or no more than the limit
  at a time and each once. The three counting combinators share the contract \<open>counting\<close>, the three
  sequential ones the contract \<open>sequential\<close>.
\<close>

section \<open>Counting combinators\<close>

lemma find_snoc:
  "List.find P (xs @ [x]) = (case List.find P xs of None \<Rightarrow> if P x then Some x else None | Some y \<Rightarrow> Some y)"
  by (induction xs) auto

locale counting =
  fixes len :: nat and start :: "'r countdown" and nxt :: "js_error option \<Rightarrow> 'r countdown \<Rightarrow> 'r countdown"
  assumes some: "0 < len"
    and start: "completed start = 0" "armed start" "calls start = []"
    and fails: "completed (nxt (Some e) s) = completed s" "\<not> armed (nxt (Some e) s)"
      "calls (nxt (Some e) s) = (if armed s then calls s @ [Cb_err e] else calls s)"
    and succeeds: "completed (nxt None s) = completed s + 1" "armed (nxt None s) = armed s"
      "calls (nxt None s) = (if armed s \<and> completed s + 1 = len then calls s @ [Cb_ok []] else calls s)"
begin

lemma run:
  "length evs \<le> len \<Longrightarrow>
   (case List.find (\<lambda>e. e \<noteq> None) evs of
      Some (Some e) \<Rightarrow> \<not> armed (fold nxt evs start) \<and> calls (fold nxt evs start) = [Cb_err e]
    | _ \<Rightarrow> armed (fold nxt evs start) \<and> completed (fold nxt evs start) = length evs
        \<and> calls (fold nxt evs start) = (if length evs = len then [Cb_ok []] else []))"
proof (induction evs rule: rev_induct)
  case Nil
  then show ?case using start some by simp
next
  case (snoc ev evs)
  let ?s = "fold nxt evs start"
  have find: "List.find (\<lambda>e. e \<noteq> None) evs \<noteq> Some None"
    by (auto simp: find_Some_iff)
  have IH: "case List.find (\<lambda>e. e \<noteq> None) evs of
      Some (Some e) \<Rightarrow> \<not> armed ?s \<and> calls ?s = [Cb_err e]
    | _ \<Rightarrow> armed ?s \<and> completed ?s = length evs \<and> calls ?s = []"
    using snoc by (auto split: option.splits)
  show ?case using IH find snoc.prems
    by (cases ev) (auto simp: find_snoc fails succeeds split: option.splits)
qed

end

lemma counting_each: "0 < n \<Longrightarrow> counting n (each_start n) (each_next n)"
  by unfold_locales (auto simp: each_start_def each_next_def invoke_callback_def Let_def)

lemma counting_parallel: "0 < n \<Longrightarrow> counting n (parallel_start n) (parallel_next n)"
  by unfold_locales (auto simp: parallel_start_def parallel_next_def invoke_callback_def Let_def)

lemma counting_times: "0 < n \<Longrightarrow> counting n (times_start n) (times_next n)"
  by unfold_locales (auto simp: times_start_def times_next_def invoke_callback_def Let_def)

interpretation each: counting "Suc n" "each_start (Suc n)" "each_next (Suc n)" for n
  by (rule counting_each) simp

interpretation parallel: counting "Suc n" "parallel_start (Suc n)" "parallel_next (Suc n)" for n
  by (rule counting_parallel) simp

interpretation n_times: counting "Suc n" "times_start (Suc n)" "times_next (Suc n)" for n
  by (rule counting_times) simp

section \<open>mapEach\<close>

definition all_ok :: "(nat \<times> js_error option \<times> 'r option) list \<Rightarrow> bool" where
  "all_ok evs \<longleftrightarrow> list_all (\<lambda>(i, err, v). err = None) evs"

lemma mapEach_item_ok:
  "completed (mapEach_item n (i, None, v) s) = completed s + 1"
  "armed (mapEach_item n (i, None, v) s) = armed s"
  "results (mapEach_item n (i, None, v) s) = (results s)[i := v]"
  "calls (mapEach_item n (i, None, v) s)
     = (if armed s \<and> completed s + 1 = n then calls s @ [Cb_ok ((results s)[i := v])] else calls s)"
  by (auto simp: mapEach_item_def invoke_callback_def Let_def)

lemma mapEach_run:
  assumes "all_ok evs" "distinct (map fst evs)" "\<forall>ev \<in> set evs. fst ev < n" "0 < n"
  defines "s \<equiv> fold (mapEach_item n) evs (mapEach_start n)"
  shows "armed s \<and> completed s = length evs \<and> length (results s) = n
    \<and> (\<forall>i < n. results s ! i = (case map_of (map (\<lambda>(i, err, v). (i, v)) evs) i of None \<Rightarrow> None | Some v \<Rightarrow> v))
    \<and> calls s = (if length evs = n then [Cb_ok (results s)] else [])"
  using assms(1-4) unfolding s_def
proof (induction evs rule: rev_induct)
  case Nil
  then show ?case by (simp add: mapEach_start_def)
next
  case (snoc ev evs)
  obtain i v where ev: "ev = (i, None, v)" using snoc.prems(1) by (cases ev) (auto simp: all_ok_def)
  have new: "i \<notin> fst ` set evs" and i: "i < n" using snoc.prems(2,3) by (auto simp: ev)
  have "length (map fst evs) \<le> card {..<n} - 1"
  proof -
    have "set (map fst evs) \<subseteq> {..<n} - {i}" using snoc.prems(3) new by auto
    then have "card (set (map fst evs)) \<le> card ({..<n} - {i})" by (intro card_mono) auto
    then show ?thesis using snoc.prems(2) i distinct_card[of "map fst evs"] by (simp add: card_Diff_singleton)
  qed
  then have lt: "length evs < n" using i by simp
  have IH: "armed (fold (mapEach_item n) evs (mapEach_start n))" "completed (fold (mapEach_item n) evs (mapEach_start n)) = length evs"
    "length (results (fold (mapEach_item n) evs (mapEach_start n))) = n"
    "\<And>j. j < n \<Longrightarrow> results (fold (mapEach_item n) evs (mapEach_start n)) ! j
       = (case map_of (map (\<lambda>(i, err, v). (i, v)) evs) j of None \<Rightarrow> None | Some v \<Rightarrow> v)"
    "calls (fold (mapEach_item n) evs (mapEach_start n)) = []"
    using snoc lt by (auto simp: all_ok_def)
  have "map_of (map (\<lambda>(i, err, v). (i, v)) evs) i = None"
    using new by (auto simp: map_of_eq_None_iff image_iff split_def)
  then show ?case using IH i
    by (auto simp: ev mapEach_item_ok nth_list_update map_add_def split: option.split)
qed

section \<open>One item at a time\<close>

text \<open>The contract: \<open>rep i s\<close> says the closure is consistent while item \<open>i\<close> runs or waits to start.\<close>

locale sequential =
  fixes len :: nat and rep :: "nat \<Rightarrow> 'r flow \<Rightarrow> bool"
    and start :: "'r flow" and nxt :: "js_error option \<Rightarrow> 'r option \<Rightarrow> 'r flow \<Rightarrow> 'r flow" and tick :: "'r flow \<Rightarrow> 'r flow"
  assumes some: "0 < len"
    and start: "rep 0 start" "frunning start = Some 0" "ftick start = None" "fstarted start = [0]" "fcalls start = []"
    and rep_sync: "rep i s \<Longrightarrow> rep i (s\<lparr>fsync := b\<rparr>)"
    and fails: "rep i s \<Longrightarrow> frunning s = Some i \<Longrightarrow> ftick s = None \<Longrightarrow>
      frunning (nxt (Some e) v s) = None \<and> ftick (nxt (Some e) v s) = None \<and> fstarted (nxt (Some e) v s) = fstarted s
      \<and> fcalls (nxt (Some e) v s) = fcalls s @ [Cb_err e]"
    and ends: "rep i s \<Longrightarrow> frunning s = Some i \<Longrightarrow> ftick s = None \<Longrightarrow> Suc i = len \<Longrightarrow>
      frunning (nxt None v s) = None \<and> ftick (nxt None v s) = None \<and> fstarted (nxt None v s) = fstarted s
      \<and> (\<exists>r. fcalls (nxt None v s) = fcalls s @ [Cb_ok r])"
    and goes_on: "rep i s \<Longrightarrow> frunning s = Some i \<Longrightarrow> ftick s = None \<Longrightarrow> Suc i < len \<Longrightarrow>
      rep (Suc i) (nxt None v s) \<and> fcalls (nxt None v s) = fcalls s \<and>
      (frunning (nxt None v s) = Some (Suc i) \<and> ftick (nxt None v s) = None \<and> fstarted (nxt None v s) = fstarted s @ [Suc i]
       \<or> frunning (nxt None v s) = None \<and> ftick (nxt None v s) = Some (Suc i) \<and> fstarted (nxt None v s) = fstarted s)"
    and ticks: "rep i s \<Longrightarrow> frunning s = None \<Longrightarrow> ftick s = Some i \<Longrightarrow>
      rep i (tick s) \<and> frunning (tick s) = Some i \<and> ftick (tick s) = None \<and> fstarted (tick s) = fstarted s @ [i]
      \<and> fcalls (tick s) = fcalls s"
begin

text \<open>Item \<open>i\<close> runs, waits for its tick, or all is over.\<close>

lemma phases:
  assumes "reaches nxt tick start s"
  shows "(\<exists>i < len. rep i s \<and> fcalls s = [] \<and>
        (frunning s = Some i \<and> ftick s = None \<and> fstarted s = [0..<Suc i]
         \<or> frunning s = None \<and> ftick s = Some i \<and> fstarted s = [0..<i]))
    \<or> (frunning s = None \<and> ftick s = None \<and> (\<exists>i < len. fstarted s = [0..<Suc i] \<and>
        ((\<exists>e. fcalls s = [Cb_err e]) \<or> Suc i = len \<and> (\<exists>r. fcalls s = [Cb_ok r]))))"
  using assms
proof (induction rule: reaches.induct)
  case here
  then show ?case using start some by (intro disjI1 exI[of _ 0]) simp
next
  case (step s ev s')
  from step.IH show ?case
  proof
    assume "\<exists>i < len. rep i s \<and> fcalls s = [] \<and>
        (frunning s = Some i \<and> ftick s = None \<and> fstarted s = [0..<Suc i]
         \<or> frunning s = None \<and> ftick s = Some i \<and> fstarted s = [0..<i])"
    then obtain i where i: "i < len" "rep i s" "fcalls s = []"
      and ph: "frunning s = Some i \<and> ftick s = None \<and> fstarted s = [0..<Suc i] \<or> frunning s = None \<and> ftick s = Some i \<and> fstarted s = [0..<i]"
      by blast
    show ?thesis
    proof (cases ev)
      case (Item err v)
      then have r: "frunning s = Some i" "ftick s = None" "fstarted s = [0..<Suc i]" and s': "s' = nxt err v s"
        using step.hyps(2) ph by (auto split: if_splits)
      show ?thesis
      proof (cases err)
        case (Some e)
        then show ?thesis using fails[OF i(2) r(1,2), of e v] i r(3) s' by (intro disjI2) auto
      next
        case None
        show ?thesis
        proof (cases "Suc i = len")
          case True
          then show ?thesis using ends[OF i(2) r(1,2) True, of v] i r(3) s' None by (intro disjI2) auto
        next
          case False
          then have l: "Suc i < len" using i(1) by simp
          show ?thesis using goes_on[OF i(2) r(1,2) l, of v] i(3) r(3) s' None l
            by (intro disjI1 exI[of _ "Suc i"]) auto
        qed
      qed
    next
      case First_return
      then have "s' = s\<lparr>fsync := Some False\<rparr>" using step.hyps(2) by (auto split: if_splits)
      then show ?thesis using i ph rep_sync[OF i(2)] by (intro disjI1 exI[of _ i]) auto
    next
      case Tick
      then have t: "frunning s = None" "ftick s = Some i" "fstarted s = [0..<i]" "s' = tick s"
        using step.hyps(2) ph by (auto split: if_splits)
      then show ?thesis using ticks[OF i(2) t(1,2)] i by (intro disjI1 exI[of _ i]) auto
    qed
  next
    assume fin: "frunning s = None \<and> ftick s = None \<and> (\<exists>i < len. fstarted s = [0..<Suc i] \<and>
        ((\<exists>e. fcalls s = [Cb_err e]) \<or> Suc i = len \<and> (\<exists>r. fcalls s = [Cb_ok r])))"
    then have "s' = s\<lparr>fsync := Some False\<rparr>" using step.hyps(2) by (cases ev) (auto split: if_splits)
    then show ?thesis using fin by (intro disjI2) simp
  qed
qed

lemma in_order: "reaches nxt tick start s \<Longrightarrow> \<exists>k \<le> len. fstarted s = [0..<k]"
  using phases[of s] by (auto simp del: upt_Suc intro: Suc_leI less_imp_le)

lemma once: "reaches nxt tick start s \<Longrightarrow> length (fcalls s) \<le> 1"
  using phases[of s] by auto

lemma ok_means_all: "reaches nxt tick start s \<Longrightarrow> Cb_ok r \<in> set (fcalls s) \<Longrightarrow> fstarted s = [0..<len]"
  using phases[of s] by auto

lemma all_in_order:
  assumes "reaches nxt tick start s"
  shows "(\<exists>k \<le> len. fstarted s = [0..<k]) \<and> length (fcalls s) \<le> 1
    \<and> ((\<exists>r. Cb_ok r \<in> set (fcalls s)) \<longrightarrow> fstarted s = [0..<len])
    \<and> (fcalls s = [] \<longrightarrow> frunning s \<noteq> None \<or> ftick s \<noteq> None)"
proof (intro conjI impI)
  show "frunning s \<noteq> None \<or> ftick s \<noteq> None" if "fcalls s = []" using phases[OF assms] that by auto
qed (use in_order[OF assms] once[OF assms] ok_means_all[OF assms] in auto)

end

lemmas flow_defs = start_item_def call_back_def end_item_def first_sync_def empty_flow_def Let_def

lemma sequential_each:
  "0 < n \<Longrightarrow> sequential n (\<lambda>i s. findex s = (if frunning s = None then i else Suc i))
     (eachSeries_start n) (eachSeries_next n) eachSeries_tick"
  by unfold_locales (auto simp: eachSeries_start_def eachSeries_next_def eachSeries_tick_def flow_defs)

lemma sequential_map:
  "0 < n \<Longrightarrow> sequential n (\<lambda>i s. findex s = i) (mapSeries_start n) (mapSeries_next n) mapSeries_tick"
  by unfold_locales (auto simp: mapSeries_start_def mapSeries_next_def mapSeries_tick_def flow_defs)

lemma sequential_times:
  "0 < n \<Longrightarrow> sequential n (\<lambda>i s. findex s = Suc i) (timesSeries_start n) (timesSeries_next n) timesSeries_tick"
  by unfold_locales (auto simp: timesSeries_start_def timesSeries_next_def timesSeries_tick_def flow_defs)

interpretation each_series: sequential "Suc n" "\<lambda>i s. findex s = (if frunning s = None then i else Suc i)"
    "eachSeries_start (Suc n)" "eachSeries_next (Suc n)" eachSeries_tick for n
  by (rule sequential_each) simp

interpretation map_series: sequential "Suc n" "\<lambda>i s. findex s = i"
    "mapSeries_start (Suc n)" "mapSeries_next (Suc n)" mapSeries_tick for n
  by (rule sequential_map) simp

interpretation times_series: sequential "Suc n" "\<lambda>i s. findex s = Suc i"
    "timesSeries_start (Suc n)" "timesSeries_next (Suc n)" timesSeries_tick for n
  by (rule sequential_times) simp

section \<open>A bounded number of items at a time\<close>

text \<open>Items the loop has started, and items a finished one has started or queued.\<close>

definition by_loop :: "nat \<Rightarrow> nat \<Rightarrow> limiter \<Rightarrow> nat" where
  "by_loop count lim s = (if loopi s \<ge> 0 then nat (loopi s) else min lim count)"

definition by_next :: "nat \<Rightarrow> limiter \<Rightarrow> nat" where
  "by_next count s = min (nat (lindex s + 1)) count"

definition limiter_inv :: "nat \<Rightarrow> nat \<Rightarrow> limiter \<Rightarrow> bool" where
  "limiter_inv count lim s \<longleftrightarrow>
     loopi s \<le> int (min lim count) \<and> - 1 \<le> loopi s
     \<and> int (min lim count) \<le> lindex s + 1
     \<and> lindex s + 1 \<le> int (min lim count) + int (lcompleted s)
     \<and> (lcompleted s < count \<longrightarrow> lindex s + 1 = int (min lim count) + int (lcompleted s))
     \<and> distinct (lstarted s @ ticks s)
     \<and> set (lstarted s @ ticks s) = {0..<by_loop count lim s} \<union> {min lim count..<by_next count s}
     \<and> distinct (running s) \<and> set (running s) \<subseteq> set (lstarted s)
     \<and> length (running s) + length (ticks s) + lcompleted s + min lim count \<le> by_loop count lim s + by_next count s
     \<and> (larmed s \<longrightarrow>
          length (running s) + length (ticks s) + lcompleted s + min lim count = by_loop count lim s + by_next count s
          \<and> lcalls s = (if lcompleted s = count \<and> 0 < count then [Cb_ok []] else []))
     \<and> (\<not> larmed s \<longrightarrow> (\<exists>e. lcalls s = [Cb_err e]))"

lemma by_next_le: "by_next count s \<le> count"
  by (simp add: by_next_def)

lemma by_loop_le: "loopi s \<le> int (min lim count) \<Longrightarrow> by_loop count lim s \<le> min lim count"
  by (auto simp: by_loop_def)

lemma limiter_start: "limiter_inv count lim (timesLimit_start count lim)"
  by (auto simp: limiter_inv_def timesLimit_start_def by_loop_def by_next_def)

lemma limiter_loop:
  assumes "limiter_inv count lim s" "loopi s \<ge> 0"
  shows "limiter_inv count lim (timesLimit_loop count lim s)"
proof (cases "loopi s < int (min lim count)")
  case False
  then have "loopi s = int (min lim count)" using assms(1) by (simp add: limiter_inv_def)
  then show ?thesis using assms(1)
    by (simp add: limiter_inv_def timesLimit_loop_def by_loop_def by_next_def)
next
  case True
  obtain k where k: "loopi s = int k" using assms(2) nonneg_int_cases by blast
  have bl: "by_loop count lim s = k" by (simp add: by_loop_def k)
  let ?s = "timesLimit_loop count lim s"
  have upd: "?s = s\<lparr>running := running s @ [k], lstarted := lstarted s @ [k], loopi := int (Suc k)\<rparr>"
    using True by (simp add: timesLimit_loop_def k)
  have all: "set (lstarted s @ ticks s) = {0..<k} \<union> {min lim count..<by_next count s}"
    using assms(1) unfolding limiter_inv_def bl by (elim conjE)
  have "k \<notin> set (lstarted s @ ticks s)" unfolding all using True k by auto
  then have new: "k \<notin> set (lstarted s)" "k \<notin> set (ticks s)" by simp_all
  have bl': "by_loop count lim ?s = Suc k" "by_next count ?s = by_next count s" by (simp_all add: upd by_loop_def by_next_def)
  have "set (lstarted ?s @ ticks ?s) = {0..<Suc k} \<union> {min lim count..<by_next count s}"
    using all by (auto simp: upd atLeast0_lessThan_Suc)
  then show ?thesis using assms(1) new True unfolding limiter_inv_def bl' bl
    by (auto simp: upd k)
qed

lemma limiter_tick:
  assumes "limiter_inv count lim s" "i \<in> set (ticks s)"
  shows "limiter_inv count lim (timesLimit_tick i s)"
proof -
  let ?s = "timesLimit_tick i s"
  have same: "by_loop count lim ?s = by_loop count lim s" "by_next count ?s = by_next count s"
    by (simp_all add: timesLimit_tick_def by_loop_def by_next_def)
  have "length (ticks ?s) + 1 = length (ticks s)" using assms(2)
    by (simp add: timesLimit_tick_def length_remove1) (metis Suc_pred length_pos_if_in_set)
  moreover have "set (lstarted ?s @ ticks ?s) = set (lstarted s @ ticks s)" "distinct (lstarted ?s @ ticks ?s)"
    using assms by (auto simp: timesLimit_tick_def limiter_inv_def)
  ultimately show ?thesis using assms unfolding limiter_inv_def same
    by (auto simp: timesLimit_tick_def)
qed

lemma length_remove1_mem: "x \<in> set xs \<Longrightarrow> Suc (length (remove1 x xs)) = length xs"
  using length_pos_if_in_set[of x xs] by (simp add: length_remove1)

text \<open>A failed item, a finished item that starts no other, and one that starts or queues the next.\<close>

lemma limiter_fail:
  assumes inv: "limiter_inv count lim s" and i: "i \<in> set (running s)"
  shows "limiter_inv count lim (timesLimit_next count i (Some e) s)"
proof -
  let ?s = "timesLimit_next count i (Some e) s"
  have same: "by_loop count lim ?s = by_loop count lim s" "by_next count ?s = by_next count s"
    by (simp_all add: timesLimit_next_def by_loop_def by_next_def Let_def)
  have "lcalls s = []" if "larmed s"
  proof -
    have "0 < length (running s)" using i by (rule length_pos_if_in_set)
    then have "lcompleted s < count"
      using inv that by_next_le[of count s] by_loop_le[of s lim count] unfolding limiter_inv_def by linarith
    then show ?thesis using inv that by (simp add: limiter_inv_def)
  qed
  then have "\<exists>e. lcalls ?s = [Cb_err e]" "\<not> larmed ?s"
    using inv by (auto simp: timesLimit_next_def Let_def limiter_inv_def)
  moreover have "set (running ?s) \<subseteq> set (running s)" "length (running ?s) + 1 = length (running s)"
    using i by (simp_all add: timesLimit_next_def Let_def length_remove1_mem set_remove1_subset del: set_remove1_eq)
  ultimately show ?thesis using inv unfolding limiter_inv_def same
    by (auto simp: timesLimit_next_def Let_def)
qed

lemma limiter_unfinished:
  assumes "limiter_inv count lim s" "i \<in> set (running s)"
  shows "lcompleted s < count" "lindex s + 1 = int (min lim count) + int (lcompleted s)" "larmed s \<Longrightarrow> lcalls s = []"
proof -
  have "0 < length (running s)" using assms(2) by (rule length_pos_if_in_set)
  then show c: "lcompleted s < count"
    using assms(1) by_next_le[of count s] by_loop_le[of s lim count] unfolding limiter_inv_def by linarith
  show "lindex s + 1 = int (min lim count) + int (lcompleted s)" "larmed s \<Longrightarrow> lcalls s = []"
    using assms(1) c by (simp_all add: limiter_inv_def)
qed

lemma limiter_last:
  assumes inv: "limiter_inv count lim s" and i: "i \<in> set (running s)"
    and last: "lcompleted s + 1 = count \<or> lindex s + 1 \<ge> int count"
  shows "limiter_inv count lim (timesLimit_next count i None s)"
proof -
  let ?s = "timesLimit_next count i None s"
  note u = limiter_unfinished[OF inv i]
  have upd: "lindex ?s = (if lcompleted s + 1 = count then lindex s else lindex s + 1)"
    "running ?s = remove1 i (running s)" "ticks ?s = ticks s" "lstarted ?s = lstarted s" "loopi ?s = loopi s"
    "lcompleted ?s = lcompleted s + 1" "larmed ?s = larmed s"
    "lcalls ?s = (if lcompleted s + 1 = count \<and> larmed s then lcalls s @ [Cb_ok []] else lcalls s)"
    using last by (auto simp: timesLimit_next_def Let_def)
  have bl: "by_loop count lim ?s = by_loop count lim s" by (simp add: by_loop_def upd)
  have bn: "by_next count ?s = by_next count s" using last by (auto simp: by_next_def upd)
  have "set (running ?s) \<subseteq> set (running s)" "Suc (length (running ?s)) = length (running s)" "distinct (running ?s)"
    using i inv by (simp_all add: upd length_remove1_mem set_remove1_subset limiter_inv_def del: set_remove1_eq)
  then show ?thesis using inv u unfolding limiter_inv_def bl bn by (auto simp: upd)
qed

lemma limiter_more:
  assumes inv: "limiter_inv count lim s" and i: "i \<in> set (running s)"
    and more: "lcompleted s + 1 < count" "lindex s + 1 < int count"
  shows "limiter_inv count lim (timesLimit_next count i None s)"
proof -
  let ?s = "timesLimit_next count i None s"
  note u = limiter_unfinished[OF inv i]
  define m where "m = min lim count + lcompleted s"
  have m: "lindex s + 1 = int m" "m < count" using u(2) more(2) by (simp_all add: m_def)
  have bnm: "by_next count s = m" using m by (simp add: by_next_def)
  have all: "set (lstarted s @ ticks s) = {0..<by_loop count lim s} \<union> {min lim count..<m}"
    using inv unfolding limiter_inv_def bnm by (elim conjE)
  have bl_le: "by_loop count lim s \<le> min lim count" using inv by (intro by_loop_le) (simp add: limiter_inv_def)
  have "m \<notin> set (lstarted s @ ticks s)" unfolding all using bl_le by (auto simp: m_def)
  then have new: "m \<notin> set (lstarted s)" "m \<notin> set (ticks s)" by simp_all
  have upd: "lindex ?s = int m" "loopi ?s = loopi s" "lcompleted ?s = lcompleted s + 1" "larmed ?s = larmed s" "lcalls ?s = lcalls s"
    and where_to: "running ?s = remove1 i (running s) \<and> ticks ?s = ticks s @ [m] \<and> lstarted ?s = lstarted s
      \<or> running ?s = remove1 i (running s) @ [m] \<and> ticks ?s = ticks s \<and> lstarted ?s = lstarted s @ [m]"
    using more m by (auto simp: timesLimit_next_def Let_def)
  have bl: "by_loop count lim ?s = by_loop count lim s" by (simp add: by_loop_def upd)
  have bn: "by_next count ?s = Suc m" using m by (simp add: by_next_def upd nat_add_distrib)
  have start: "set (lstarted ?s @ ticks ?s) = {0..<by_loop count lim s} \<union> {min lim count..<Suc m}"
    using where_to all atLeastLessThanSuc[of "min lim count" m] by (auto simp: m_def)
  have dist: "distinct (lstarted ?s @ ticks ?s)" using where_to new inv by (auto simp: limiter_inv_def)
  have sub: "set (running s) \<subseteq> set (lstarted s)" "distinct (running s)" using inv by (simp_all add: limiter_inv_def)
  have run: "distinct (running ?s) \<and> set (running ?s) \<subseteq> set (lstarted ?s)
    \<and> length (running ?s) + length (ticks ?s) = length (running s) + length (ticks s)"
    using where_to sub new length_remove1_mem[OF i] by (auto dest: notin_set_remove1)
  show ?thesis using inv u run dist start more unfolding limiter_inv_def bl bn bnm
    by (simp add: upd m_def)
qed

lemma limited_inv: "limited count lim s \<Longrightarrow> limiter_inv count lim s"
proof (induction rule: limited.induct)
  case (item s i err)
  show ?case
  proof (cases err)
    case None
    then show ?thesis
      using limiter_last[OF item.IH item.hyps(2)] limiter_more[OF item.IH item.hyps(2)] limiter_unfinished(1)[OF item.IH item.hyps(2)]
      by (cases "lcompleted s + 1 = count \<or> lindex s + 1 \<ge> int count") auto
  next
    case (Some e)
    then show ?thesis using limiter_fail[OF item.IH item.hyps(2)] by simp
  qed
qed (simp_all add: limiter_start limiter_loop limiter_tick)

lemma limiter_bound:
  assumes inv: "limiter_inv count lim s"
  shows "length (running s) + length (ticks s) \<le> min lim count"
    "distinct (lstarted s)" "set (lstarted s) \<subseteq> {..<count}"
proof -
  have bl: "by_loop count lim s \<le> min lim count" using inv by (intro by_loop_le) (simp add: limiter_inv_def)
  have "by_next count s \<le> min lim count + lcompleted s" using inv by (auto simp: limiter_inv_def by_next_def)
  then show "length (running s) + length (ticks s) \<le> min lim count"
    using inv bl unfolding limiter_inv_def by linarith
  show "distinct (lstarted s)" using inv by (simp add: limiter_inv_def)
  have "set (lstarted s @ ticks s) = {0..<by_loop count lim s} \<union> {min lim count..<by_next count s}"
    using inv unfolding limiter_inv_def by (elim conjE)
  then have "set (lstarted s) \<subseteq> {0..<by_loop count lim s} \<union> {min lim count..<by_next count s}" by auto
  also have "\<dots> \<subseteq> {..<count}" using bl by_next_le[of count s] by auto
  finally show "set (lstarted s) \<subseteq> {..<count}" .
qed

lemma limiter_once: "limiter_inv count lim s \<Longrightarrow> length (lcalls s) \<le> 1"
  by (cases "larmed s") (auto simp: limiter_inv_def)

lemma limiter_all:
  assumes inv: "limiter_inv count lim s"
  shows "lcalls s = [Cb_ok []] \<longrightarrow> set (lstarted s) = {..<count} \<and> running s = []"
proof
  assume "lcalls s = [Cb_ok []]"
  then have c: "larmed s" "lcompleted s = count" "0 < count"
    using inv by (cases "larmed s"; force simp: limiter_inv_def split: if_splits)+
  have bl: "by_loop count lim s \<le> min lim count" using inv by (intro by_loop_le) (simp add: limiter_inv_def)
  have eq: "length (running s) + length (ticks s) + count + min lim count = by_loop count lim s + by_next count s"
    using inv c by (simp add: limiter_inv_def)
  then have e: "running s = []" "ticks s = []" "by_loop count lim s = min lim count" "by_next count s = count"
    using bl by_next_le[of count s] unfolding length_0_conv[symmetric] by linarith+
  have "set (lstarted s @ ticks s) = {0..<by_loop count lim s} \<union> {min lim count..<by_next count s}"
    using inv unfolding limiter_inv_def by (elim conjE)
  then show "set (lstarted s) = {..<count} \<and> running s = []" by (auto simp: e)
qed

lemma limiter_alive:
  assumes inv: "limiter_inv count lim s"
  shows "0 < lim \<and> 0 < count \<and> lcalls s = [] \<longrightarrow> loopi s \<ge> 0 \<or> running s \<noteq> [] \<or> ticks s \<noteq> []"
proof (rule impI, rule ccontr)
  assume a: "0 < lim \<and> 0 < count \<and> lcalls s = []" and "\<not> (loopi s \<ge> 0 \<or> running s \<noteq> [] \<or> ticks s \<noteq> [])"
  then have b: "loopi s < 0" "running s = []" "ticks s = []" by auto
  have arm: "larmed s" using inv a by (auto simp: limiter_inv_def)
  then have eq: "lcompleted s + min lim count = by_loop count lim s + by_next count s" "lcompleted s \<noteq> count"
    using inv a b by (auto simp: limiter_inv_def)
  have "by_loop count lim s = min lim count" using b by (simp add: by_loop_def)
  then have c: "lcompleted s = by_next count s" using eq by simp
  then have "lcompleted s < count" using eq(2) by_next_le[of count s] by simp
  then have "lindex s + 1 = int (min lim count) + int (lcompleted s)" using inv by (simp add: limiter_inv_def)
  then show False using c a eq(2) by (simp add: by_next_def min_def nat_add_distrib split: if_splits)
qed

section \<open>Properties\<close>

definition first_failure :: "js_error option list \<Rightarrow> js_error option" where
  "first_failure evs = (case List.find (\<lambda>e. e \<noteq> None) evs of None \<Rightarrow> None | Some e \<Rightarrow> e)"

context counting
begin

lemma calls_after:
  assumes "length evs \<le> len"
  shows "calls (fold nxt evs start)
    = (case first_failure evs of Some e \<Rightarrow> [Cb_err e] | None \<Rightarrow> if length evs = len then [Cb_ok []] else [])"
proof -
  have "List.find (\<lambda>e. e \<noteq> None) evs \<noteq> Some None" by (auto simp: find_Some_iff)
  then show ?thesis using run[OF assms] by (auto simp: first_failure_def split: option.splits)
qed

end

text \<open>C36: \<open>each\<close>, \<open>parallel\<close> and \<open>times\<close> with at least one item, in whatever order the items call back and
  however many have done so yet: the caller's callback has been called at most once, with the first
  error as soon as there is one, without error exactly when the last of the items succeeds.
  With no item, \<open>each\<close> and \<open>times\<close> call back at once and \<open>parallel\<close> never does.\<close>
theorem counting_calls_once:
  assumes "0 < n" "length evs \<le> n"
  defines "(expected :: 'r outcome list) \<equiv> (case first_failure evs of Some e \<Rightarrow> [Cb_err e] | None \<Rightarrow> if length evs = n then [Cb_ok []] else [])"
  shows "calls (fold (each_next n) evs (each_start n)) = expected
    \<and> calls (fold (parallel_next n) evs (parallel_start n)) = expected
    \<and> calls (fold (times_next n) evs (times_start n)) = expected
    \<and> calls (each_start 0 :: 'r countdown) = [Cb_ok []] \<and> calls (times_start 0 :: 'r countdown) = [Cb_ok []]
    \<and> calls (parallel_start 0 :: 'r countdown) = []"
proof -
  obtain m where n: "n = Suc m" using assms(1) gr0_implies_Suc by blast
  have le: "length evs \<le> Suc m" using assms(2) n by simp
  show ?thesis unfolding expected_def n
    by (intro conjI each.calls_after[OF le] parallel.calls_after[OF le] n_times.calls_after[OF le])
      (simp_all add: each_start_def times_start_def parallel_start_def invoke_callback_def)
qed

theorem counting_calls_once_witness:
  "calls (fold (each_next 3) [None, None] (each_start 3)) = ([] :: unit outcome list)
   \<and> calls (fold (each_next 3) [None, Some (TypeError ''x''), None] (each_start 3)) = ([Cb_err (TypeError ''x'')] :: unit outcome list)
   \<and> calls (fold (times_next 3) [None, None, None] (times_start 3)) = ([Cb_ok []] :: unit outcome list)"
  using counting_calls_once[of 3 "[None, None]", where 'r = unit] counting_calls_once[of 3 "[None, Some (TypeError ''x''), None]", where 'r = unit]
    counting_calls_once[of 3 "[None, None, None]", where 'r = unit]
  by (simp add: first_failure_def)

text \<open>When every item of \<open>map\<close> or \<open>forEachOf\<close> has called back without error, in whatever order, the
  caller's callback has been called exactly once, with the array that holds each item's value at the
  item's own index.\<close>
theorem mapEach_collects:
  assumes "0 < n" "distinct (map fst evs)" "set (map fst evs) = {..<n}" "\<forall>ev \<in> set evs. fst (snd ev) = None"
  shows "\<exists>rs. calls (fold (mapEach_item n) evs (mapEach_start n)) = [Cb_ok rs] \<and> length rs = n
    \<and> (\<forall>ev \<in> set evs. rs ! fst ev = snd (snd ev))"
proof -
  let ?s = "fold (mapEach_item n) evs (mapEach_start n)" and ?kv = "map (\<lambda>(i, err, v). (i, v)) evs"
  have len: "length evs = n" using distinct_card[OF assms(2)] assms(3) by simp
  have ok: "all_ok evs" using assms(4) by (simp add: all_ok_def list_all_iff case_prod_unfold)
  have lt: "\<forall>ev \<in> set evs. fst ev < n" using assms(3) by auto
  have keys: "map fst ?kv = map fst evs" by (simp add: case_prod_unfold comp_def)
  have run: "calls ?s = [Cb_ok (results ?s)]" "length (results ?s) = n"
    and at: "\<And>i. i < n \<Longrightarrow> results ?s ! i = (case map_of ?kv i of None \<Rightarrow> None | Some v \<Rightarrow> v)"
    using mapEach_run[OF ok assms(2) lt assms(1)] by (simp_all add: len)
  have "results ?s ! fst ev = snd (snd ev)" if "ev \<in> set evs" for ev
  proof -
    have "(fst ev, snd (snd ev)) \<in> set ?kv" using that by (force simp: case_prod_unfold)
    then have "map_of ?kv (fst ev) = Some (snd (snd ev))" by (intro map_of_is_SomeI) (simp_all only: keys assms(2))
    moreover have "fst ev < n" using that assms(3) by auto
    ultimately show ?thesis by (simp add: at)
  qed
  then show ?thesis using run by blast
qed

theorem mapEach_collects_witness:
  "\<exists>rs. calls (fold (mapEach_item 2) [(1, None, Some ''b''), (0, None, Some ''a'')] (mapEach_start 2)) = [Cb_ok rs] \<and> length rs = 2
    \<and> (\<forall>ev \<in> set [(1, None, Some ''b''), (0, None :: js_error option, Some ''a'')]. rs ! fst ev = snd (snd ev))"
  by (rule mapEach_collects) auto

text \<open>\<open>eachSeries\<close>, \<open>mapSeries\<close> and \<open>timesSeries\<close> with at least one item, in every reachable state,
  whether items call back at once or later: the items started so far are the first ones in order, at
  most one of them runs, the caller's callback has been called at most once, without error only when
  every item was started, and as long as it has not been called an item runs or is about to start.\<close>
theorem series_in_order:
  assumes "0 < n"
    and "reaches (eachSeries_next n) eachSeries_tick (eachSeries_start n) s
      \<or> reaches (mapSeries_next n) mapSeries_tick (mapSeries_start n) s
      \<or> reaches (timesSeries_next n) timesSeries_tick (timesSeries_start n) s"
  shows "(\<exists>k \<le> n. fstarted s = [0..<k]) \<and> length (fcalls s) \<le> 1
    \<and> ((\<exists>r. Cb_ok r \<in> set (fcalls s)) \<longrightarrow> fstarted s = [0..<n])
    \<and> (fcalls s = [] \<longrightarrow> frunning s \<noteq> None \<or> ftick s \<noteq> None)"
proof -
  obtain m where n: "n = Suc m" using assms(1) gr0_implies_Suc by blast
  from assms(2)[unfolded n] show ?thesis
  proof (elim disjE)
    assume "reaches (eachSeries_next (Suc m)) eachSeries_tick (eachSeries_start (Suc m)) s"
    then show ?thesis unfolding n by (rule each_series.all_in_order)
  next
    assume "reaches (mapSeries_next (Suc m)) mapSeries_tick (mapSeries_start (Suc m)) s"
    then show ?thesis unfolding n by (rule map_series.all_in_order)
  next
    assume "reaches (timesSeries_next (Suc m)) timesSeries_tick (timesSeries_start (Suc m)) s"
    then show ?thesis unfolding n by (rule times_series.all_in_order)
  qed
qed

theorem series_in_order_witness:
  "\<exists>s :: unit flow. (\<exists>k \<le> 3. fstarted s = [0..<k]) \<and> length (fcalls s) \<le> 1
    \<and> ((\<exists>r. Cb_ok r \<in> set (fcalls s)) \<longrightarrow> fstarted s = [0..<3])
    \<and> (fcalls s = [] \<longrightarrow> frunning s \<noteq> None \<or> ftick s \<noteq> None) \<and> ftick s = Some 1"
proof -
  let ?s = "eachSeries_next 3 None None (eachSeries_start 3) :: unit flow"
  have "reaches (eachSeries_next 3) eachSeries_tick (eachSeries_start 3) ?s"
    by (rule reaches.step[OF reaches.here, where ev = "Item None None"]) (simp add: eachSeries_start_def flow_defs)
  moreover have "ftick ?s = Some 1" by (simp add: eachSeries_start_def eachSeries_next_def flow_defs)
  ultimately show ?thesis using series_in_order[of 3 ?s] by (intro exI[of _ ?s]) simp
qed

text \<open>C37: \<open>timesLimit\<close> in every reachable state: at most the limit of items run or wait to start, no
  item is started twice or beyond the count, the caller's callback has been called at most once,
  without error only after every item was started, and with a positive limit and no error it is called or something is
  still to happen: the loop goes on, an item runs or one waits for a tick.\<close>
theorem timesLimit_bounded:
  assumes "limited count lim s"
  shows "length (running s) + length (ticks s) \<le> min lim count
    \<and> distinct (lstarted s) \<and> set (lstarted s) \<subseteq> {..<count} \<and> length (lcalls s) \<le> 1
    \<and> (lcalls s = [Cb_ok []] \<longrightarrow> set (lstarted s) = {..<count} \<and> running s = [])
    \<and> (0 < lim \<and> 0 < count \<and> lcalls s = [] \<longrightarrow> loopi s \<ge> 0 \<or> running s \<noteq> [] \<or> ticks s \<noteq> [])"
  by (intro conjI limiter_bound[OF limited_inv[OF assms]] limiter_once[OF limited_inv[OF assms]]
      limiter_all[OF limited_inv[OF assms]] limiter_alive[OF limited_inv[OF assms]])

theorem timesLimit_bounded_witness:
  "length (running (timesLimit_loop 3 2 (timesLimit_start 3 2))) + length (ticks (timesLimit_loop 3 2 (timesLimit_start 3 2))) \<le> min 2 3
    \<and> running (timesLimit_loop 3 2 (timesLimit_start 3 2)) = [0]"
proof -
  have "limited 3 2 (timesLimit_loop 3 2 (timesLimit_start 3 2))"
    by (intro limited.loop limited.start) (simp add: timesLimit_start_def)
  then show ?thesis using timesLimit_bounded[of 3 2 "timesLimit_loop 3 2 (timesLimit_start 3 2)"]
    by (simp add: timesLimit_loop_def timesLimit_start_def)
qed

end
