(* ===== verification/Type_Names.thy ===== *)
theory Type_Names
  imports JS_String
begin

text \<open>
  CQL type information: the column types the encoder dispatches on (\<open>ColumnInfo\<close> of
  \<open>lib/types/cql-utils.ts\<close>, the codes of \<open>lib/types/index.js\<close>), the three parsers that produce them
  and the printer: \<open>parseFqTypeName\<close>, \<open>parseTypeName\<close> and \<open>parseKeyTypes\<close> of \<open>lib/encoder.js\<close>,
  \<open>dataTypes.getByName\<close> and \<open>getDataTypeNameByCode\<close> of \<open>lib/types/index.js\<close>. Type names are ASCII,
  so the bytes of a hexadecimal name are its characters.
\<close>

section \<open>Column types\<close>

text \<open>\<open>options\<close> is absent, \<open>{frozen}\<close> (CQL names) or \<open>{frozen, reversed}\<close> (class names). \<open>Vector_info\<close>
  is \<open>info: [subtype, dimension]\<close> with \<open>customTypeName: "vector"\<close>; a dimension that is no number is
  \<open>None\<close>. \<open>No_info\<close> is a missing or null \<open>info\<close>.\<close>

datatype column_options = No_options | Frozen bool | Frozen_reversed bool bool

datatype column_info = Column_Info (code: nat) (info: type_info) (options: column_options)
and type_info =
    No_info
  | Sub_type column_info
  | Sub_types "column_info list"
  | Udt_info string string "(string \<times> column_info) list"
  | Vector_info column_info "int option"
  | Type_name string

definition dataTypes :: "(string \<times> nat) list" where
  "dataTypes =
     [(''custom'', 0x00), (''ascii'', 0x01), (''bigint'', 0x02), (''blob'', 0x03), (''boolean'', 0x04),
      (''counter'', 0x05), (''decimal'', 0x06), (''double'', 0x07), (''float'', 0x08), (''int'', 0x09),
      (''text'', 0x0a), (''timestamp'', 0x0b), (''uuid'', 0x0c), (''varchar'', 0x0d), (''varint'', 0x0e),
      (''timeuuid'', 0x0f), (''inet'', 0x10), (''date'', 0x11), (''time'', 0x12), (''smallint'', 0x13),
      (''tinyint'', 0x14), (''duration'', 0x15), (''list'', 0x20), (''map'', 0x21), (''set'', 0x22),
      (''udt'', 0x30), (''tuple'', 0x31)]"

abbreviation (input) dt_custom :: nat where "dt_custom \<equiv> 0x00"
abbreviation (input) dt_duration :: nat where "dt_duration \<equiv> 0x15"
abbreviation (input) dt_list :: nat where "dt_list \<equiv> 0x20"
abbreviation (input) dt_map :: nat where "dt_map \<equiv> 0x21"
abbreviation (input) dt_set :: nat where "dt_set \<equiv> 0x22"
abbreviation (input) dt_udt :: nat where "dt_udt \<equiv> 0x30"
abbreviation (input) dt_tuple :: nat where "dt_tuple \<equiv> 0x31"

section \<open>Strings\<close>

text \<open>\<open>s.indexOf(p, i) === i\<close>, \<open>s.indexOf(p) === i\<close>, \<open>s.substr(i, n)\<close> and \<open>s.substring(i, j)\<close>.\<close>

definition matches_at :: "string \<Rightarrow> string \<Rightarrow> nat \<Rightarrow> bool" where
  "matches_at s p i \<longleftrightarrow> i \<le> length s \<and> starts_with (drop i s) p"

definition first_match_at :: "string \<Rightarrow> string \<Rightarrow> nat \<Rightarrow> bool" where
  "first_match_at s p i \<longleftrightarrow> matches_at s p i \<and> list_all (\<lambda>j. \<not> matches_at s p j) [0..<i]"

definition substr :: "string \<Rightarrow> nat \<Rightarrow> int \<Rightarrow> string" where
  "substr s i n = take (nat n) (drop i s)"

definition substring :: "string \<Rightarrow> nat \<Rightarrow> nat \<Rightarrow> string" where
  "substring s i j = take (max i j - min i j) (drop (min i j) s)"

text \<open>The blank characters of \<open>trim()\<close> and \<open>parseInt\<close>.\<close>

definition is_space :: "char \<Rightarrow> bool" where
  "is_space c \<longleftrightarrow> (of_char c :: nat) \<in> {9, 10, 11, 12, 13, 32, 160}"

definition trim :: "string \<Rightarrow> string" where
  "trim s = rev (dropWhile is_space (rev (dropWhile is_space s)))"

text \<open>\<open>parseInt(s, 10)\<close>; \<open>None\<close> is \<open>NaN\<close>.\<close>

definition parseInt10 :: "string \<Rightarrow> int option" where
  "parseInt10 s =
     (let s = dropWhile is_space s;
          neg = starts_with s ''-'';
          s = (if neg \<or> starts_with s ''+'' then drop 1 s else s);
          ds = takeWhile is_digit s
      in if ds = [] then None else Some (if neg then - digits_val ds else digits_val ds))"

text \<open>\<open>s.replace(p, r)\<close> of a string pattern: the first occurrence.\<close>

fun replace_first :: "string \<Rightarrow> string \<Rightarrow> string \<Rightarrow> string" where
  "replace_first [] p r = (if p = [] then r else [])"
| "replace_first (c # s) p r = (if starts_with (c # s) p then r @ drop (length p) (c # s) else c # replace_first s p r)"

text \<open>\<open>Buffer.from(s, "hex").toString()\<close>: the pairs of digits up to the first that is none.\<close>

definition hex_digit :: "char \<Rightarrow> nat option" where
  "hex_digit c =
     (let n = of_char c :: nat
      in if 48 \<le> n \<and> n \<le> 57 then Some (n - 48) else if 97 \<le> n \<and> n \<le> 102 then Some (n - 87)
         else if 65 \<le> n \<and> n \<le> 70 then Some (n - 55) else None)"

definition hex_char :: "nat \<Rightarrow> char" where
  "hex_char n = (if n < 10 then char_of (48 + n) else char_of (87 + n))"

fun hex_to_text :: "string \<Rightarrow> string" where
  "hex_to_text (a # b # s) =
     (case (hex_digit a, hex_digit b) of
        (Some x, Some y) \<Rightarrow> char_of (16 * x + y) # hex_to_text s
      | _ \<Rightarrow> [])"
| "hex_to_text _ = []"

section \<open>Parameters between brackets\<close>

text \<open>\<open>parseParams\<close>: one pass over the characters from \<open>startIndex\<close>, with the nesting level and the
  start of the current parameter.\<close>

fun parseParams_loop :: "string \<Rightarrow> char \<Rightarrow> char \<Rightarrow> nat \<Rightarrow> nat \<Rightarrow> int \<Rightarrow> nat \<Rightarrow> string list \<Rightarrow> string list \<times> nat" where
  "parseParams_loop value opn cls i 0 level paramStart types = (types, paramStart)"
| "parseParams_loop value opn cls i (Suc n) level paramStart types =
     (let c = (if i < length value then Some (value ! i) else None);
          level = (if c = Some opn then level + 1 else level);
          level = (if c = Some cls then level - 1 else level)
      in if level = 0 \<and> c = Some (CHR '','')
         then parseParams_loop value opn cls (Suc i) n level (Suc i)
                (types @ [substr value paramStart (int i - int paramStart)])
         else parseParams_loop value opn cls (Suc i) n level paramStart types)"

definition parseParams :: "string \<Rightarrow> nat \<Rightarrow> int \<Rightarrow> char \<Rightarrow> char \<Rightarrow> string list" where
  "parseParams value startIndex len opn cls =
     (let (types, paramStart) = parseParams_loop value opn cls startIndex (nat len) 0 startIndex []
      in types @ [substr value paramStart (len - (int paramStart - int startIndex))])"

text \<open>\<open>splitTypeArgs\<close> of \<open>lib/types/index.js\<close>.\<close>

fun splitTypeArgs_loop :: "string \<Rightarrow> nat \<Rightarrow> string \<Rightarrow> int \<Rightarrow> nat \<Rightarrow> string list \<Rightarrow> string list" where
  "splitTypeArgs_loop args i [] depth start result = result @ [trim (substring args start (length args))]"
| "splitTypeArgs_loop args i (c # cs) depth start result =
     (if c = CHR ''<'' then splitTypeArgs_loop args (Suc i) cs (depth + 1) start result
      else if c = CHR ''>'' then splitTypeArgs_loop args (Suc i) cs (depth - 1) start result
      else if c = CHR '','' \<and> depth = 0
           then splitTypeArgs_loop args (Suc i) cs depth (Suc i) (result @ [trim (substring args start i)])
      else splitTypeArgs_loop args (Suc i) cs depth start result)"

definition splitTypeArgs :: "string \<Rightarrow> string list" where
  "splitTypeArgs args = splitTypeArgs_loop args 0 args 0 0 []"

section \<open>Class names\<close>

definition marshal :: string where
  "marshal = ''org.apache.cassandra.db.marshal.''"

definition cn_list :: string where "cn_list = marshal @ ''ListType''"
definition cn_set :: string where "cn_set = marshal @ ''SetType''"
definition cn_map :: string where "cn_map = marshal @ ''MapType''"
definition cn_udt :: string where "cn_udt = marshal @ ''UserType''"
definition cn_tuple :: string where "cn_tuple = marshal @ ''TupleType''"
definition cn_frozen :: string where "cn_frozen = marshal @ ''FrozenType''"
definition cn_reversed :: string where "cn_reversed = marshal @ ''ReversedType''"
definition cn_composite :: string where "cn_composite = marshal @ ''CompositeType''"
definition cn_empty :: string where "cn_empty = marshal @ ''EmptyType''"
definition cn_collection :: string where "cn_collection = marshal @ ''ColumnToCollectionType''"
definition cn_duration :: string where "cn_duration = marshal @ ''DurationType''"
definition cn_vector :: string where "cn_vector = marshal @ ''VectorType''"

definition singleTypeNames :: "(string \<times> nat) list" where
  "singleTypeNames = map (\<lambda>(n, c). (marshal @ n, c))
     [(''UTF8Type'', 0x0d), (''AsciiType'', 0x01), (''UUIDType'', 0x0c), (''TimeUUIDType'', 0x0f),
      (''Int32Type'', 0x09), (''BytesType'', 0x03), (''FloatType'', 0x08), (''DoubleType'', 0x07),
      (''BooleanType'', 0x04), (''InetAddressType'', 0x10), (''SimpleDateType'', 0x11), (''TimeType'', 0x12),
      (''ShortType'', 0x13), (''ByteType'', 0x14), (''DateType'', 0x0b), (''TimestampType'', 0x0b),
      (''LongType'', 0x02), (''DecimalType'', 0x06), (''IntegerType'', 0x0e), (''CounterColumnType'', 0x05)]"

definition singleFqTypeNamesLength :: nat where
  "singleFqTypeNamesLength = foldl (\<lambda>previous current. if length current > previous then length current else previous) 0 (map fst singleTypeNames)"

definition dquoted :: "string \<Rightarrow> string" where
  "dquoted s = [CHR 0x22] @ s @ [CHR 0x22]"

definition not_valid :: "string \<Rightarrow> 'a result" where
  "not_valid typeName = throw (TypeError (''Not a valid type '' @ typeName))"

text \<open>\<open>parseVectorTypeArgs\<close>, up to resolving the subtype, which the caller does on the text it gets.\<close>

definition parseVectorTypeArgs :: "string \<Rightarrow> string \<Rightarrow> (string \<times> int option) result" where
  "parseVectorTypeArgs typeName stringToExclude =
     (let params = parseParams typeName (length stringToExclude + 1) (int (length typeName) - int (length stringToExclude + 2)) (CHR ''('') (CHR '')'')
      in if length params = 2 then return (trim (params ! 0), parseInt10 (trim (params ! 1))) else not_valid typeName)"

text \<open>Every parameter starts after the opening bracket, so it is shorter than the name: the parsers
  recur on shorter names.\<close>

lemma parseParams_loop_short:
  assumes "parseParams_loop v a b i n l ps ts = (ts', ps')" "0 < ps" "0 < i" "v \<noteq> []" "\<forall>t \<in> set ts. length t < length v"
  shows "0 < ps' \<and> (\<forall>t \<in> set ts'. length t < length v)"
  using assms
proof (induction n arbitrary: i l ps ts)
  case (Suc n)
  define c where "c = (if i < length v then Some (v ! i) else None)"
  define l1 where "l1 = (if c = Some a then l + 1 else l)"
  define l' where "l' = (if c = Some b then l1 - 1 else l1)"
  have "length (substr v ps k) < length v" for k using Suc.prems(2,4) by (cases v) (auto simp: substr_def)
  moreover have "parseParams_loop v a b i (Suc n) l ps ts
      = (if l' = 0 \<and> c = Some (CHR '','') then parseParams_loop v a b (Suc i) n l' (Suc i) (ts @ [substr v ps (int i - int ps)])
         else parseParams_loop v a b (Suc i) n l' ps ts)"
    by (simp add: Let_def c_def l1_def l'_def)
  ultimately show ?case
    using Suc.IH[of "Suc i" l' "Suc i" "ts @ [substr v ps (int i - int ps)]"] Suc.IH[of "Suc i" l' ps ts] Suc.prems
    by (auto simp del: parseParams_loop.simps split: if_splits)
qed simp

lemma parseParams_short:
  assumes "t \<in> set (parseParams v i n a b)" "0 < i" "v \<noteq> []"
  shows "length t < length v"
proof -
  obtain ts ps where p: "parseParams_loop v a b i (nat n) 0 i [] = (ts, ps)" by (cases "parseParams_loop v a b i (nat n) 0 i []")
  have "0 < ps \<and> (\<forall>t \<in> set ts. length t < length v)" using parseParams_loop_short[OF p] assms by simp
  moreover have "length (substr v ps k) < length v" if "0 < ps" for k using that assms(3) by (cases v) (auto simp: substr_def)
  ultimately show ?thesis using assms(1) by (auto simp: parseParams_def p)
qed

lemma matches_at_nonempty: "matches_at s p i \<Longrightarrow> p \<noteq> [] \<Longrightarrow> s \<noteq> []"
  by (cases p) (auto simp: matches_at_def)

lemma trim_length: "length (trim s) \<le> length s"
  unfolding trim_def by (metis dual_order.trans length_dropWhile_le length_rev)

lemma parseVectorTypeArgs_short:
  assumes "parseVectorTypeArgs s p = Inr (t, d)" "s \<noteq> []"
  shows "length t < length s"
proof -
  let ?ps = "parseParams s (length p + 1) (int (length s) - int (length p + 2)) (CHR ''('') (CHR '')'')"
  have t: "length ?ps = 2" "t = trim (?ps ! 0)" using assms(1) by (auto simp: parseVectorTypeArgs_def not_valid_def Let_def split: if_splits)
  then have "length (?ps ! 0) < length s" by (intro parseParams_short[OF nth_mem]) (use assms in auto)
  then show ?thesis using trim_length[of "?ps ! 0"] t by simp
qed

lemma marshal_names_nonempty [simp]:
  "cn_list \<noteq> []" "cn_set \<noteq> []" "cn_map \<noteq> []" "cn_udt \<noteq> []" "cn_tuple \<noteq> []" "cn_vector \<noteq> []"
  by (simp_all add: cn_list_def cn_set_def cn_map_def cn_udt_def cn_tuple_def cn_vector_def)

text \<open>The \<open>ReversedType\<close> and \<open>FrozenType\<close> wrappers: where the name proper starts, its length and the
  options.\<close>

definition fq_header :: "string \<Rightarrow> nat \<Rightarrow> int \<Rightarrow> nat \<times> int \<times> column_options" where
  "fq_header typeName startIndex len =
     (let len = (if len = 0 then int (length typeName) else len);
          reversed = (len > int (length cn_reversed) \<and> first_match_at typeName cn_reversed startIndex);
          startIndex = (if reversed then startIndex + length cn_reversed + 1 else startIndex);
          len = (if reversed then len - int (length cn_reversed + 2) else len);
          frozen = (len > int (length cn_frozen) \<and> matches_at typeName cn_frozen startIndex);
          startIndex = (if frozen then startIndex + length cn_frozen + 1 else startIndex);
          len = (if frozen then len - int (length cn_frozen + 2) else len)
      in (startIndex, len, Frozen_reversed frozen reversed))"

text \<open>\<open>#parseUdtName\<close>, given the parser of the field types. \<open>p.indexOf(":")\<close> may be -1.\<close>

definition udt_field_start :: "string \<Rightarrow> nat" where
  "udt_field_start p = nat (index_of p (CHR '':'') + 1)"

definition parseUdtName :: "(string \<Rightarrow> nat \<Rightarrow> int \<Rightarrow> column_info result) \<Rightarrow> string \<Rightarrow> nat \<Rightarrow> int \<Rightarrow> column_options \<Rightarrow> column_info result" where
  "parseUdtName parse typeName startIndex len opts =
     (let udtParams = parseParams typeName startIndex len (CHR ''('') (CHR '')'')
      in if length udtParams < 2 then not_valid typeName
         else
           rbind (rmap (\<lambda>p. parse p (udt_field_start p) (int (length p) - int (udt_field_start p))) (drop 2 udtParams))
             (\<lambda>types. return (Column_Info dt_udt
                (Udt_info (udtParams ! 0) (hex_to_text (udtParams ! 1))
                   (zip (map (\<lambda>p. hex_to_text (substr p 0 (index_of p (CHR '':'')))) (drop 2 udtParams)) types))
                opts)))"

lemma parseUdtName_cong [fundef_cong]:
  assumes "typeName = typeName'" "startIndex = startIndex'" "len = len'" "opts = opts'"
    and "\<And>p i n. p \<in> set (parseParams typeName' startIndex' len' (CHR ''('') (CHR '')'')) \<Longrightarrow> parse p i n = parse' p i n"
  shows "parseUdtName parse typeName startIndex len opts = parseUdtName parse' typeName' startIndex' len' opts'"
  unfolding parseUdtName_def assms(1-4) Let_def
  by (intro if_cong refl rbind_cong rmap_cong assms(5)) (auto dest: in_set_dropD)

text \<open>\<open>parseFqTypeName\<close>; a length of 0 is a missing one, as in the source.\<close>

function parseFqTypeName :: "string \<Rightarrow> nat \<Rightarrow> int \<Rightarrow> column_info result" where
  "parseFqTypeName typeName startIndex len =
     (case fq_header typeName startIndex len of (startIndex, len, opts) \<Rightarrow>
      if typeName = cn_empty then return (Column_Info dt_custom (Type_name ''empty'') opts)
      else if len \<le> int singleFqTypeNamesLength then
        (let name = (if startIndex > 0 then substr typeName startIndex len else typeName)
         in case map_of singleTypeNames name of
              Some typeCode \<Rightarrow> return (Column_Info typeCode No_info opts)
            | None \<Rightarrow>
                if name = cn_duration then return (Column_Info dt_duration No_info opts)
                else not_valid (dquoted name))
      else if matches_at typeName cn_list startIndex then
        (let params = parseParams typeName (startIndex + length cn_list + 1) (len - int (length cn_list + 2)) (CHR ''('') (CHR '')'')
         in if length params \<noteq> 1 then not_valid typeName
            else rbind (parseFqTypeName (params ! 0) 0 0) (\<lambda>i. return (Column_Info dt_list (Sub_type i) opts)))
      else if matches_at typeName cn_set startIndex then
        (let params = parseParams typeName (startIndex + length cn_set + 1) (len - int (length cn_set + 2)) (CHR ''('') (CHR '')'')
         in if length params \<noteq> 1 then not_valid typeName
            else rbind (parseFqTypeName (params ! 0) 0 0) (\<lambda>i. return (Column_Info dt_set (Sub_type i) opts)))
      else if matches_at typeName cn_map startIndex then
        (let params = parseParams typeName (startIndex + length cn_map + 1) (len - int (length cn_map + 2)) (CHR ''('') (CHR '')'')
         in if length params \<noteq> 2 then not_valid typeName
            else rbind (parseFqTypeName (params ! 0) 0 0) (\<lambda>info1.
                 rbind (parseFqTypeName (params ! 1) 0 0) (\<lambda>info2.
                 return (Column_Info dt_map (Sub_types [info1, info2]) opts))))
      else if matches_at typeName cn_udt startIndex then
        parseUdtName parseFqTypeName typeName (startIndex + length cn_udt + 1) (len - int (length cn_udt + 2)) opts
      else if matches_at typeName cn_tuple startIndex then
        (let params = parseParams typeName (startIndex + length cn_tuple + 1) (len - int (length cn_tuple + 2)) (CHR ''('') (CHR '')'')
         in if length params < 1 then not_valid typeName
            else rbind (rmap (\<lambda>x. parseFqTypeName x 0 0) params) (\<lambda>is. return (Column_Info dt_tuple (Sub_types is) opts)))
      else if matches_at typeName cn_vector startIndex then
        (case parseVectorTypeArgs typeName cn_vector of
           Inl e \<Rightarrow> Inl e
         | Inr (subtype, dimension) \<Rightarrow>
             rbind (parseFqTypeName subtype 0 0) (\<lambda>i. return (Column_Info dt_custom (Vector_info i dimension) opts)))
      else return (Column_Info dt_custom (Type_name (substr typeName startIndex len)) opts))"
  by pat_completeness auto

termination
  by (relation "measure (\<lambda>(s, i, n). length s)")
    (auto simp: parseParams_short[OF nth_mem] dest: matches_at_nonempty parseVectorTypeArgs_short intro: parseParams_short)

declare parseFqTypeName.simps [simp del]

text \<open>\<open>parseKeyTypes\<close>: the loop \<open>while (++i < length)\<close> with its six variables.\<close>

definition index_from :: "string \<Rightarrow> char \<Rightarrow> nat \<Rightarrow> int" where
  "index_from s c i = (let r = index_of (drop i s) c in if r < 0 then - 1 else r + int i)"

record key_scan =
  ks_start :: nat
  ks_nested :: int
  ks_in_collection :: bool
  ks_has_collections :: bool
  ks_types :: "string list"

function parseKeyTypes_loop :: "string \<Rightarrow> nat \<Rightarrow> nat \<Rightarrow> key_scan \<Rightarrow> key_scan" where
  "parseKeyTypes_loop typesString len i s =
     (let i = Suc i in
      if i < len then
        (let c = typesString ! i in
         if c = CHR '','' then
           if ks_nested s > 0 then parseKeyTypes_loop typesString len i s
           else
             (let start = (if ks_in_collection s then nat (index_from typesString (CHR '':'') (ks_start s) + 1) else ks_start s)
              in parseKeyTypes_loop typesString len i (s\<lparr>ks_types := ks_types s @ [substring typesString start i], ks_start := i + 1\<rparr>))
         else if c = CHR ''('' then
           if ks_nested s = 0 \<and> matches_at typesString cn_collection (ks_start s)
           then parseKeyTypes_loop typesString len (i + 1) (s\<lparr>ks_in_collection := True, ks_has_collections := True, ks_start := i + 1\<rparr>)
           else parseKeyTypes_loop typesString len i (s\<lparr>ks_nested := ks_nested s + 1\<rparr>)
         else if c = CHR '')'' then
           if ks_in_collection s \<and> ks_nested s = 0
           then parseKeyTypes_loop typesString len i
                  (s\<lparr>ks_types := ks_types s @ [substring typesString (nat (index_from typesString (CHR '':'') (ks_start s) + 1)) i], ks_start := i + 1\<rparr>)
           else parseKeyTypes_loop typesString len i (s\<lparr>ks_nested := ks_nested s - 1\<rparr>)
         else parseKeyTypes_loop typesString len i s)
      else s)"
  by pat_completeness auto

termination
  by (relation "measure (\<lambda>(t, len, i, s). len - i)") (auto simp: diff_less_mono2)

declare parseKeyTypes_loop.simps [simp del]

record key_types =
  kt_types :: "column_info list"
  kt_hasCollections :: bool
  kt_isComposite :: bool

definition parseKeyTypes :: "string \<Rightarrow> key_types result" where
  "parseKeyTypes typesString =
     (let isComposite = matches_at typesString cn_composite 0;
          i = (if isComposite then length cn_composite + 1 else 0);
          len = (if isComposite then length typesString - 1 else length typesString);
          s = parseKeyTypes_loop typesString len i
                \<lparr>ks_start = i, ks_nested = 0, ks_in_collection = False, ks_has_collections = False, ks_types = []\<rparr>;
          types = (if ks_start s < len then ks_types s @ [substring typesString (ks_start s) len] else ks_types s)
      in rbind (rmap (\<lambda>name. parseFqTypeName name 0 0) types) (\<lambda>ts.
         return \<lparr>kt_types = ts, kt_hasCollections = ks_has_collections s, kt_isComposite = isComposite\<rparr>))"

section \<open>CQL names\<close>

text \<open>The \<open>udtResolver\<close> argument: a missing one is \<open>undefined\<close>, and calling it is a \<open>TypeError\<close>.\<close>

type_synonym udt_resolver = "(string \<Rightarrow> string \<Rightarrow> type_info option result) option"

definition resolve_udt :: "udt_resolver \<Rightarrow> string \<Rightarrow> string \<Rightarrow> type_info option result" where
  "resolve_udt udtResolver keyspace typeName =
     (case udtResolver of None \<Rightarrow> throw (TypeError ''udtResolver is not a function'') | Some f \<Rightarrow> f keyspace typeName)"

definition cql_params :: "string \<Rightarrow> string \<Rightarrow> nat \<Rightarrow> int \<Rightarrow> string list" where
  "cql_params name typeName startIndex len =
     parseParams typeName (startIndex + length name + 1) (len - int (length name + 2)) (CHR ''<'') (CHR ''>'')"

lemma cql_params_short: "t \<in> set (cql_params name s i n) \<Longrightarrow> s \<noteq> [] \<Longrightarrow> length t < length s"
  unfolding cql_params_def by (erule parseParams_short) simp_all

text \<open>The end of \<open>parseTypeName\<close>, for a name that is no collection.\<close>

definition parseSimpleName :: "udt_resolver \<Rightarrow> string \<Rightarrow> string \<Rightarrow> nat \<Rightarrow> int \<Rightarrow> bool \<Rightarrow> column_info result" where
  "parseSimpleName udtResolver keyspace typeName startIndex len frozen =
     (let quoted = matches_at typeName [CHR 0x22] startIndex;
          startIndex = (if quoted then startIndex + 1 else startIndex);
          len = (if quoted then len - 2 else len);
          typeName = (if startIndex > 0 then substr typeName startIndex len else typeName);
          typeName = (if quoted then replace_first typeName [CHR 0x22, CHR 0x22] [CHR 0x22] else typeName)
      in case map_of dataTypes typeName of
           Some typeCode \<Rightarrow> return (Column_Info typeCode No_info No_options)
         | None \<Rightarrow>
             if typeName = ''duration'' then return (Column_Info dt_custom (Type_name cn_duration) No_options)
             else if typeName = ''empty'' then return (Column_Info dt_custom (Type_name ''empty'') No_options)
             else rbind (resolve_udt udtResolver keyspace typeName) (\<lambda>udtInfo.
               case udtInfo of Some u \<Rightarrow> return (Column_Info dt_udt u (Frozen frozen))
               | None \<Rightarrow> not_valid (dquoted typeName)))"

text \<open>\<open>parseTypeName\<close> and \<open>#parseChildTypes\<close>. A rejected promise is an error; of several rejected
  children the first one in order is reported.\<close>

function parseTypeName :: "udt_resolver \<Rightarrow> string \<Rightarrow> string \<Rightarrow> nat \<Rightarrow> int \<Rightarrow> column_info result" where
  "parseTypeName udtResolver keyspace typeName startIndex len =
     (let len = (if len = 0 then int (length typeName) else len) in
      if matches_at typeName [CHR 0x27] startIndex
      then return (Column_Info dt_custom (Type_name (substr typeName (startIndex + 1) (len - 2))) No_options)
      else
        let frozen = matches_at typeName ''frozen'' startIndex;
            startIndex = (if frozen then startIndex + length ''frozen'' + 1 else startIndex);
            len = (if frozen then len - int (length ''frozen'' + 2) else len)
        in if matches_at typeName ''list'' startIndex then
             (let innerTypes = cql_params ''list'' typeName startIndex len
              in if length innerTypes \<noteq> 1 then not_valid typeName
                 else rbind (parseTypeName udtResolver keyspace (innerTypes ! 0) 0 0) (\<lambda>i.
                      return (Column_Info dt_list (Sub_type i) (Frozen frozen))))
           else if matches_at typeName ''set'' startIndex then
             (let innerTypes = cql_params ''set'' typeName startIndex len
              in if length innerTypes \<noteq> 1 then not_valid typeName
                 else rbind (parseTypeName udtResolver keyspace (innerTypes ! 0) 0 0) (\<lambda>i.
                      return (Column_Info dt_set (Sub_type i) (Frozen frozen))))
           else if matches_at typeName ''map'' startIndex then
             (let innerTypes = cql_params ''map'' typeName startIndex len
              in if length innerTypes \<noteq> 2 then not_valid typeName
                 else rbind (rmap (\<lambda>name. parseTypeName udtResolver keyspace (trim name) 0 0) innerTypes) (\<lambda>is.
                      return (Column_Info dt_map (Sub_types is) (Frozen frozen))))
           else if matches_at typeName ''tuple'' startIndex then
             (let innerTypes = cql_params ''tuple'' typeName startIndex len
              in if length innerTypes < 1 then not_valid typeName
                 else rbind (rmap (\<lambda>name. parseTypeName udtResolver keyspace (trim name) 0 0) innerTypes) (\<lambda>is.
                      return (Column_Info dt_tuple (Sub_types is) (Frozen frozen))))
           else if matches_at typeName ''vector'' startIndex then
             (case parseVectorTypeArgs typeName ''vector'' of
                Inl e \<Rightarrow> Inl e
              | Inr (subtype, dimension) \<Rightarrow>
                  rbind (parseTypeName None keyspace subtype 0 0) (\<lambda>i.
                  return (Column_Info dt_custom (Vector_info i dimension) No_options)))
           else parseSimpleName udtResolver keyspace typeName startIndex len frozen)"
  by pat_completeness auto

termination
  by (relation "measure (\<lambda>(u, k, s, i, n). length s)")
    (auto simp: cql_params_short[OF nth_mem] dest: matches_at_nonempty parseVectorTypeArgs_short
      intro: cql_params_short le_less_trans[OF trim_length])

declare parseTypeName.simps [simp del]

section \<open>Names of the driver's own hints\<close>

text \<open>A match of \<open>/^name<(.+)>$/\<close>: the text between the brackets, with no line break.\<close>

definition generic_args :: "string \<Rightarrow> string \<Rightarrow> string option" where
  "generic_args name s =
     (let inner = butlast (drop (length name + 1) s)
      in if starts_with s (name @ ''<'') \<and> length s > length name + 2 \<and> last s = CHR ''>''
            \<and> list_all (\<lambda>c. (of_char c :: nat) \<notin> {10, 13}) inner
         then Some inner else None)"

lemma generic_args_short: "generic_args name s = Some t \<Longrightarrow> length t < length s"
  by (auto simp: generic_args_def Let_def split: if_splits)

lemma substring_length: "length (substring s i j) \<le> length s"
  by (simp add: substring_def)

lemma splitTypeArgs_loop_length:
  "\<forall>t \<in> set ts. length t \<le> length a \<Longrightarrow> t \<in> set (splitTypeArgs_loop a i cs d st ts) \<Longrightarrow> length t \<le> length a"
  by (induction a i cs d st ts rule: splitTypeArgs_loop.induct)
    (auto split: if_splits intro: order_trans[OF trim_length substring_length])

lemma splitTypeArgs_length: "t \<in> set (splitTypeArgs a) \<Longrightarrow> length t \<le> length a"
  unfolding splitTypeArgs_def by (rule splitTypeArgs_loop_length) auto

lemma generic_split_short: "generic_args name s = Some a \<Longrightarrow> t \<in> set (splitTypeArgs a) \<Longrightarrow> length t < length s"
  using generic_args_short splitTypeArgs_length by (metis le_less_trans)

lemma toLowerCase_length [simp]: "length (toLowerCase s) = length s"
  by (simp add: toLowerCase_def)

lemma generic_first_short:
  "generic_args name (toLowerCase s) = Some a \<Longrightarrow> length (splitTypeArgs a) = 2 \<Longrightarrow> length (splitTypeArgs a ! 0) < length s"
  using generic_split_short[of name "toLowerCase s" a "splitTypeArgs a ! 0"] by simp

function getByName :: "string \<Rightarrow> column_info result" where
  "getByName name0 =
     (let name = toLowerCase name0;
          plain = (case map_of dataTypes name of
                     Some c \<Rightarrow> return (Column_Info c No_info No_options)
                   | None \<Rightarrow> throw (TypeError (''Data type with name '' @ name @ '' not valid'')))
      in if index_of name (CHR ''<'') > 0 then
           (case generic_args ''list'' name of
              Some a \<Rightarrow> rbind (getByName a) (\<lambda>i. return (Column_Info dt_list (Sub_type i) No_options))
            | None \<Rightarrow>
           (case generic_args ''set'' name of
              Some a \<Rightarrow> rbind (getByName a) (\<lambda>i. return (Column_Info dt_set (Sub_type i) No_options))
            | None \<Rightarrow>
           (case generic_args ''map'' name of
              Some a \<Rightarrow>
                if length (splitTypeArgs a) = 2
                then rbind (rmap getByName (splitTypeArgs a)) (\<lambda>is. return (Column_Info dt_map (Sub_types is) No_options))
                else plain
            | None \<Rightarrow>
           (case generic_args ''udt'' name of
              Some a \<Rightarrow> return (Column_Info dt_udt (Type_name a) No_options)
            | None \<Rightarrow>
           (case generic_args ''tuple'' name of
              Some a \<Rightarrow> rbind (rmap getByName (splitTypeArgs a)) (\<lambda>is. return (Column_Info dt_tuple (Sub_types is) No_options))
            | None \<Rightarrow>
           (case generic_args ''vector'' name of
              Some a \<Rightarrow>
                if length (splitTypeArgs a) = 2 \<and> splitTypeArgs a ! 1 \<noteq> [] \<and> list_all is_digit (splitTypeArgs a ! 1)
                then rbind (getByName (splitTypeArgs a ! 0)) (\<lambda>i.
                     return (Column_Info dt_custom (Vector_info i (parseInt10 (splitTypeArgs a ! 1))) No_options))
                else plain
            | None \<Rightarrow> plain))))))
         else plain)"
  by pat_completeness auto

termination
  by (relation "measure length")
    (auto dest: generic_args_short generic_split_short generic_first_short)

declare getByName.simps [simp del]

text \<open>\<open>getDataTypeNameByCode\<close>. A UDT hint whose \<open>info\<close> is text has no \<open>info.name\<close>: the result is
  \<open>undefined\<close>, which \<open>join\<close> prints as nothing and \<open>+\<close> as its name.\<close>

definition dataTypesByCode :: "nat \<Rightarrow> string option" where
  "dataTypesByCode c = map_of (map (\<lambda>(n, c). (c, n)) dataTypes) c"

definition join :: "string \<Rightarrow> string list \<Rightarrow> string" where
  "join sep xs = concat (case xs of [] \<Rightarrow> [] | x # xs \<Rightarrow> x # map (\<lambda>y. sep @ y) xs)"

definition shown :: "string option \<Rightarrow> string" where
  "shown x = (case x of None \<Rightarrow> ''undefined'' | Some s \<Rightarrow> s)"

definition joined :: "string option \<Rightarrow> string" where
  "joined x = (case x of None \<Rightarrow> [] | Some s \<Rightarrow> s)"

definition show_dimension :: "int option \<Rightarrow> string" where
  "show_dimension d = (case d of None \<Rightarrow> ''NaN'' | Some n \<Rightarrow> show_int n)"

fun getDataTypeNameByCode :: "column_info \<Rightarrow> string option result" where
  "getDataTypeNameByCode (Column_Info c i opts) =
     (case dataTypesByCode c of
        None \<Rightarrow> throw (ArgumentError (''Type with code '' @ show_nat c @ '' not found''))
      | Some typeName \<Rightarrow>
          (case i of
             No_info \<Rightarrow> return (Some typeName)
           | Vector_info t d \<Rightarrow>
               if c = dt_custom
               then rbind (getDataTypeNameByCode t) (\<lambda>n. return (Some (''vector<'' @ shown n @ '', '' @ show_dimension d @ ''>'')))
               else rbind (getDataTypeNameByCode t) (\<lambda>n. throw (ArgumentError ''Invalid signature type definition''))
           | Sub_types ts \<Rightarrow>
               rbind (rmap getDataTypeNameByCode ts) (\<lambda>ns. return (Some (typeName @ ''<'' @ join '', '' (map joined ns) @ ''>'')))
           | Sub_type t \<Rightarrow> rbind (getDataTypeNameByCode t) (\<lambda>n. return (Some (typeName @ ''<'' @ shown n @ ''>'')))
           | Udt_info keyspace n fs \<Rightarrow> return (if c = dt_udt then Some n else Some typeName)
           | Type_name n \<Rightarrow> return (if n \<noteq> [] \<and> c = dt_udt then None else Some typeName)))"

end
