(* ===== verification/Type_Names_Correct.thy ===== *)
theory Type_Names_Correct
  imports Type_Names
begin

text \<open>
  The parsers of type names against printers. Splitting at the commas of bracketed text recovers
  the parameters (\<open>closed\<close> text has balanced brackets and no comma outside them). A column type
  printed as a class name is parsed back by \<open>parseFqTypeName\<close>, one printed by
  \<open>getDataTypeNameByCode\<close> by \<open>getByName\<close>, and the names \<open>parseTypeName\<close> gets wrong are shown.
\<close>

section \<open>Splitting\<close>

definition next_level :: "char \<Rightarrow> char \<Rightarrow> int \<Rightarrow> char \<Rightarrow> int" where
  "next_level a b l c = (let l = (if c = a then l + 1 else l) in if c = b then l - 1 else l)"

text \<open>The level after some text, unless a comma at level 0 would split it.\<close>

fun scan :: "char \<Rightarrow> char \<Rightarrow> int \<Rightarrow> string \<Rightarrow> int option" where
  "scan a b l [] = Some l"
| "scan a b l (c # s) =
     (if next_level a b l c = 0 \<and> c = CHR '','' then None else scan a b (next_level a b l c) s)"

definition closed :: "char \<Rightarrow> char \<Rightarrow> string \<Rightarrow> bool" where
  "closed a b s \<longleftrightarrow> (\<forall>l \<ge> 0. scan a b l s = Some l)"

lemma scan_append: "scan a b l (s @ t) = (case scan a b l s of None \<Rightarrow> None | Some l' \<Rightarrow> scan a b l' t)"
  by (induction s arbitrary: l) auto

lemma closed_Nil [simp]: "closed a b []"
  by (simp add: closed_def)

lemma closed_append [intro]: "closed a b s \<Longrightarrow> closed a b t \<Longrightarrow> closed a b (s @ t)"
  by (simp add: closed_def scan_append)

lemma closed_plain: "list_all (\<lambda>c. c \<noteq> a \<and> c \<noteq> b \<and> c \<noteq> CHR '','') s \<Longrightarrow> closed a b s"
proof -
  have "scan a b l s = Some l" if "list_all (\<lambda>c. c \<noteq> a \<and> c \<noteq> b \<and> c \<noteq> CHR '','') s" for l
    using that by (induction s arbitrary: l) (auto simp: next_level_def)
  then show "list_all (\<lambda>c. c \<noteq> a \<and> c \<noteq> b \<and> c \<noteq> CHR '','') s \<Longrightarrow> closed a b s" by (simp add: closed_def)
qed

lemma join_simps [simp]: "join sep [] = []" "join sep [x] = x" "join sep (x # y # xs) = x @ sep @ join sep (y # xs)"
  by (simp_all add: join_def)

lemma join_member_length: "x \<in> set xs \<Longrightarrow> length x \<le> length (join sep xs)"
  by (induction xs rule: induct_list012) auto

lemma closed_brackets:
  assumes "closed a b p" "\<forall>x \<in> set xs. closed a b x" "sep = CHR '','' # sp" "closed a b sp"
    and "a \<noteq> CHR '',''" "b \<noteq> CHR '',''" "a \<noteq> b"
  shows "closed a b (p @ [a] @ join sep xs @ [b])"
proof -
  have inner: "scan a b l (join sep xs) = Some l" if "l > 0" for l
    using assms(2) that
  proof (induction xs rule: induct_list012)
    case (3 x y zs)
    then show ?case using assms(3-6) by (simp add: closed_def scan_append next_level_def)
  qed (simp_all add: closed_def)
  show ?thesis unfolding closed_def
  proof (intro allI impI)
    fix l :: int assume "0 \<le> l"
    then show "scan a b l (p @ [a] @ join sep xs @ [b]) = Some l"
      using assms inner[of "l + 1"] by (simp add: closed_def scan_append next_level_def)
  qed
qed

lemma parseParams_loop_scan:
  assumes "scan a b l s = Some l'"
  shows "parseParams_loop (pre @ s @ post) a b (length pre) (length s + n) l ps ts
    = parseParams_loop (pre @ s @ post) a b (length pre + length s) n l' ps ts"
  using assms
proof (induction s arbitrary: pre l)
  case (Cons c s)
  have "parseParams_loop ((pre @ [c]) @ s @ post) a b (length (pre @ [c])) (length s + n) (next_level a b l c) ps ts
    = parseParams_loop ((pre @ [c]) @ s @ post) a b (length (pre @ [c]) + length s) n l' ps ts"
    by (rule Cons.IH) (use Cons.prems in \<open>auto split: if_splits\<close>)
  then show ?case using Cons.prems by (auto simp: next_level_def Let_def nth_append split: if_splits)
qed simp

lemma parseParams_loop_join:
  assumes "\<forall>x \<in> set (x # xs). closed a b x" "a \<noteq> CHR '',''" "b \<noteq> CHR '',''"
  shows "parseParams_loop (pre @ join '','' (x # xs) @ post) a b (length pre) (length (join '','' (x # xs))) 0 (length pre) ts
    = (ts @ butlast (x # xs), length pre + length (join '','' (x # xs)) - length (last (x # xs)))"
  using assms(1)
proof (induction xs arbitrary: x pre ts)
  case Nil
  then show ?case using parseParams_loop_scan[of a b 0 x 0 pre post 0 "length pre" ts] by (simp add: closed_def)
next
  case (Cons y xs)
  let ?r = "join '','' (y # xs)"
  let ?v = "pre @ x @ '','' @ ?r @ post"
  have "parseParams_loop ?v a b (length pre) (length x + Suc (length ?r)) 0 (length pre) ts
      = parseParams_loop ?v a b (length pre + length x) (Suc (length ?r)) 0 (length pre) ts"
    using Cons.prems parseParams_loop_scan[of a b 0 x 0 pre "'','' @ ?r @ post" "Suc (length ?r)"] by (simp add: closed_def)
  also have "\<dots> = parseParams_loop ?v a b (length (pre @ x @ '','')) (length ?r) 0 (length (pre @ x @ '','')) (ts @ [x])"
    using assms(2,3) by (simp add: nth_append substr_def)
  also have "\<dots> = (ts @ [x] @ butlast (y # xs), length (pre @ x @ '','') + length ?r - length (last (y # xs)))"
    using Cons.IH[of y "pre @ x @ '',''" "ts @ [x]"] Cons.prems by simp
  finally show ?case by simp
qed

lemma last_join_length: "length (last (x # xs)) \<le> length (join sep (x # xs))"
  by (induction xs arbitrary: x) (auto simp: le_add2 trans_le_add2)

lemma drop_join_last:
  "drop (length (join sep (x # xs)) - length (last (x # xs))) (join sep (x # xs)) = last (x # xs)"
proof (induction xs arbitrary: x)
  case (Cons y xs)
  let ?r = "join sep (y # xs)"
  have le: "length (last (y # xs)) \<le> length ?r" by (rule last_join_length)
  have "drop (length x + length sep + length ?r - length (last (y # xs))) (x @ sep @ ?r) = drop (length ?r - length (last (y # xs))) ?r"
    using le by (simp add: drop_append)
  then show ?case using Cons.IH[of y] by (simp add: add.assoc)
qed simp

text \<open>\<open>parseParams\<close> on the text between the brackets gives the parameters.\<close>

lemma parseParams_join:
  assumes "\<forall>x \<in> set xs. closed a b x" "a \<noteq> CHR '',''" "b \<noteq> CHR '',''" "xs \<noteq> []"
    and "i = length pre" "n = int (length (join '','' xs))"
  shows "parseParams (pre @ join '','' xs @ post) i n a b = xs"
proof -
  obtain x r where xs: "xs = x # r" using assms(4) by (cases xs) auto
  let ?j = "join '','' (x # r)" and ?l = "last (x # r)"
  have loop: "parseParams_loop (pre @ ?j @ post) a b (length pre) (length ?j) 0 (length pre) []
      = (butlast (x # r), length pre + length ?j - length ?l)"
    using parseParams_loop_join[of x r a b pre post "[]"] assms(1-3) xs by simp
  have le: "length ?l \<le> length ?j" by (rule last_join_length)
  have "substr (pre @ ?j @ post) (length pre + length ?j - length ?l) (int (length ?l)) = ?l"
    using le drop_join_last[of "'',''" x r] by (simp add: substr_def drop_append)
  moreover have "int (length ?j) - (int (length pre + length ?j - length ?l) - int (length pre)) = int (length ?l)"
    using le by simp
  ultimately show ?thesis unfolding parseParams_def using loop assms(5,6) xs
    by (simp add: append_butlast_last_id del: parseParams_loop.simps join_simps)
qed

section \<open>Class names\<close>

text \<open>The reference printer: how Cassandra writes a column type as a class name.\<close>

definition text_to_hex :: "string \<Rightarrow> string" where
  "text_to_hex s = concat (map (\<lambda>c. [hex_char (of_char c div 16), hex_char (of_char c mod 16)]) s)"

definition bracketed :: "string \<Rightarrow> string list \<Rightarrow> string" where
  "bracketed name args = name @ ''('' @ join '','' args @ '')''"

definition wrapped :: "column_options \<Rightarrow> string \<Rightarrow> string" where
  "wrapped opts s =
     (case opts of
        Frozen_reversed frozen reversed \<Rightarrow>
          (let s = (if frozen then bracketed cn_frozen [s] else s)
           in if reversed then bracketed cn_reversed [s] else s)
      | _ \<Rightarrow> s)"

definition single_name :: "nat \<Rightarrow> string" where
  "single_name c =
     (if c = dt_duration then cn_duration
      else case map_of (map (\<lambda>(n, c). (c, n)) singleTypeNames) c of None \<Rightarrow> [] | Some n \<Rightarrow> n)"

fun fq_name :: "column_info \<Rightarrow> string" where
  "fq_name (Column_Info c i opts) =
     wrapped opts
       (case i of
          No_info \<Rightarrow> single_name c
        | Sub_type t \<Rightarrow> bracketed (if c = dt_list then cn_list else cn_set) [fq_name t]
        | Sub_types ts \<Rightarrow> bracketed (if c = dt_map then cn_map else cn_tuple) (map fq_name ts)
        | Udt_info keyspace name fs \<Rightarrow>
            bracketed cn_udt (keyspace # text_to_hex name # map (\<lambda>(n, t). text_to_hex n @ '':'' @ fq_name t) fs)
        | Vector_info t d \<Rightarrow> bracketed cn_vector [fq_name t, '' '' @ show_dimension d]
        | Type_name n \<Rightarrow> n)"

text \<open>The types it prints: every class with its own code, a UDT with at least one field, and a vector
  that is neither frozen nor reversed nor the type of a UDT field.\<close>

definition is_vector :: "column_info \<Rightarrow> bool" where
  "is_vector t = (case info t of Vector_info _ _ \<Rightarrow> True | _ \<Rightarrow> False)"

fun wf_fq :: "column_info \<Rightarrow> bool" where
  "wf_fq (Column_Info c i opts) =
     ((case opts of Frozen_reversed f r \<Rightarrow> True | _ \<Rightarrow> False) \<and>
      (case i of
         No_info \<Rightarrow> c = dt_duration \<or> c \<in> set (map snd singleTypeNames)
       | Sub_type t \<Rightarrow> c \<in> {dt_list, dt_set} \<and> wf_fq t
       | Sub_types ts \<Rightarrow> (c = dt_map \<and> length ts = 2 \<or> c = dt_tuple \<and> ts \<noteq> []) \<and> list_all wf_fq ts
       | Udt_info keyspace name fs \<Rightarrow>
           c = dt_udt \<and> fs \<noteq> [] \<and> closed (CHR ''('') (CHR '')'') keyspace
           \<and> list_all (\<lambda>(n, t). wf_fq t \<and> \<not> is_vector t) fs
       | Vector_info t d \<Rightarrow> c = dt_custom \<and> wf_fq t \<and> (\<exists>n \<ge> 0. d = Some n) \<and> opts = Frozen_reversed False False
       | Type_name n \<Rightarrow> False))"

subsection \<open>Matching the names\<close>

lemmas cn_defs = cn_list_def cn_set_def cn_map_def cn_udt_def cn_tuple_def cn_frozen_def cn_reversed_def
  cn_empty_def cn_duration_def cn_vector_def

lemma marshal_length [simp]: "length marshal = 32"
  by (simp add: marshal_def)

lemma starts_with_append [simp]: "starts_with (p @ s) (p @ q) = starts_with s q"
  by (induction p) auto

lemma starts_with_self [simp]: "starts_with (p @ s) p"
  by (induction p) auto

lemma matches_at_append [simp]: "matches_at (pre @ s) q (length pre) = starts_with s q"
  by (simp add: matches_at_def)

lemma starts_with_short: "starts_with (x @ y) q \<Longrightarrow> length q \<le> length x \<Longrightarrow> starts_with x q"
  by (simp add: starts_with_iff)

lemma singleFqTypeNamesLength_eq [simp]: "singleFqTypeNamesLength = 49"
  by code_simp

text \<open>The text after the marker \<open>marshal\<close> that neither wrapper's name begins.\<close>

definition unwrapped :: "string \<Rightarrow> bool" where
  "unwrapped x \<longleftrightarrow> (length x > 10 \<longrightarrow> \<not> starts_with x ''FrozenType'') \<and> (length x > 12 \<longrightarrow> \<not> starts_with x ''ReversedType'')"

definition single_ok :: "string \<Rightarrow> nat \<Rightarrow> bool" where
  "single_ok x c \<longleftrightarrow> unwrapped x \<and> 8 \<le> length x \<and> length x \<le> 17 \<and> x \<noteq> ''EmptyType''
     \<and> (map_of singleTypeNames (marshal @ x) = Some c
        \<or> map_of singleTypeNames (marshal @ x) = None \<and> c = dt_duration \<and> marshal @ x = cn_duration)
     \<and> list_all (\<lambda>c. c \<noteq> CHR ''('' \<and> c \<noteq> CHR '')'' \<and> c \<noteq> CHR '','' \<and> \<not> is_space c) x"

lemma single_names_ok:
  "list_all (\<lambda>c. single_name c = marshal @ drop 32 (single_name c) \<and> single_ok (drop 32 (single_name c)) c)
     (dt_duration # map snd singleTypeNames)"
  by code_simp

lemma single_name_cases:
  assumes "c = dt_duration \<or> c \<in> set (map snd singleTypeNames)"
  obtains x where "single_name c = marshal @ x" "single_ok x c"
  using single_names_ok assms by (auto simp: list_all_iff)

lemma marshal_Cons: "marshal = CHR ''o'' # tl marshal"
  by (simp add: marshal_def)

lemma first_match_reversed:
  assumes "CHR ''o'' \<notin> set pre"
  shows "first_match_at (pre @ s) cn_reversed (length pre) = starts_with s cn_reversed"
proof -
  have "\<not> matches_at (pre @ s) cn_reversed j" if "j < length pre" for j
  proof -
    have "drop j (pre @ s) = pre ! j # drop (Suc j) (pre @ s)" using that by (simp add: Cons_nth_drop_Suc[symmetric] nth_append)
    moreover have "pre ! j \<noteq> CHR ''o''" using assms that by (metis nth_mem)
    ultimately show ?thesis unfolding matches_at_def cn_reversed_def by (subst marshal_Cons) simp
  qed
  then show ?thesis by (simp add: first_match_at_def list_all_iff)
qed

lemma not_frozen:
  assumes "unwrapped x" shows "\<not> (10 < length x \<and> starts_with (marshal @ x @ post) cn_frozen)"
  using assms starts_with_short[of x post "''FrozenType''"] by (auto simp: unwrapped_def cn_frozen_def)

lemma not_reversed:
  assumes "unwrapped x" shows "\<not> (12 < length x \<and> starts_with (marshal @ x @ post) cn_reversed)"
  using assms starts_with_short[of x post "''ReversedType''"] by (auto simp: unwrapped_def cn_reversed_def)

lemma cn_lengths [simp]:
  "length cn_list = 40" "length cn_set = 39" "length cn_map = 39" "length cn_udt = 40" "length cn_tuple = 41"
  "length cn_frozen = 42" "length cn_reversed = 44" "length cn_vector = 42" "length cn_empty = 41" "length cn_duration = 44"
  by (simp_all add: cn_defs)

lemma frozen_not_reversed [simp]: "\<not> starts_with (cn_frozen @ s) cn_reversed"
  by (simp add: cn_frozen_def cn_reversed_def)

text \<open>The header of a printed name, after a prefix: where the name proper stands and the options.\<close>

lemma fq_header_plain:
  assumes "unwrapped x" "CHR ''o'' \<notin> set pre"
  shows "fq_header (pre @ marshal @ x) (length pre) (int (length x) + 32) = (length pre, int (length x) + 32, Frozen_reversed False False)"
  using not_frozen[OF assms(1), of "[]"] not_reversed[OF assms(1), of "[]"]
  by (auto simp: fq_header_def Let_def first_match_reversed[OF assms(2)])

lemma fq_header_frozen:
  assumes "CHR ''o'' \<notin> set pre"
  shows "fq_header (pre @ cn_frozen @ ''('' @ marshal @ x @ '')'') (length pre) (int (length x) + 76)
    = (length (pre @ cn_frozen @ ''(''), int (length x) + 32, Frozen_reversed True False)"
  by (simp add: fq_header_def Let_def first_match_reversed[OF assms])

lemma fq_header_reversed:
  assumes "unwrapped x" "CHR ''o'' \<notin> set pre"
  shows "fq_header (pre @ cn_reversed @ ''('' @ marshal @ x @ '')'') (length pre) (int (length x) + 78)
    = (length (pre @ cn_reversed @ ''(''), int (length x) + 32, Frozen_reversed False True)"
proof -
  have "matches_at (pre @ cn_reversed @ ''('' @ marshal @ x @ '')'') cn_frozen (length pre + 44 + 1) = starts_with (marshal @ x @ '')'') cn_frozen"
    using matches_at_append[of "pre @ cn_reversed @ ''(''" "marshal @ x @ '')''" cn_frozen] by (simp del: matches_at_append add: add.commute)
  then show ?thesis using not_frozen[OF assms(1), of "'')''"]
    by (auto simp: fq_header_def Let_def first_match_reversed[OF assms(2)])
qed

lemma fq_header_both:
  assumes "CHR ''o'' \<notin> set pre"
  shows "fq_header (pre @ cn_reversed @ ''('' @ cn_frozen @ ''('' @ marshal @ x @ ''))'') (length pre) (int (length x) + 122)
    = (length (pre @ cn_reversed @ ''('' @ cn_frozen @ ''(''), int (length x) + 32, Frozen_reversed True True)"
proof -
  have "matches_at (pre @ cn_reversed @ ''('' @ cn_frozen @ ''('' @ marshal @ x @ ''))'') cn_frozen (length pre + 44 + 1)"
    using matches_at_append[of "pre @ cn_reversed @ ''(''" "cn_frozen @ ''('' @ marshal @ x @ ''))''" cn_frozen] by (simp del: matches_at_append add: add.commute)
  then show ?thesis by (auto simp: fq_header_def Let_def first_match_reversed[OF assms])
qed

lemma fq_header_missing: "fq_header s 0 0 = fq_header s 0 (int (length s))"
  by (simp add: fq_header_def)

lemma fq_header_wrapped:
  assumes x: "unwrapped x" and pre: "CHR ''o'' \<notin> set pre"
    and w: "w = wrapped (Frozen_reversed f r) (marshal @ x)" and n: "n = int (length w) \<or> n = 0 \<and> pre = []"
  obtains pre' post where "pre @ w = pre' @ marshal @ x @ post"
    "fq_header (pre @ w) (length pre) n = (length pre', int (length x) + 32, Frozen_reversed f r)"
    "(\<not> f \<and> \<not> r \<longrightarrow> pre' = pre \<and> post = []) \<and> (f \<or> r \<longrightarrow> pre' \<noteq> [])"
proof -
  have n': "fq_header (pre @ w) (length pre) n = fq_header (pre @ w) (length pre) (int (length w))"
    using n fq_header_missing[of w] by auto
  show ?thesis
  proof (cases f; cases r)
    assume fr: "f" "r"
    then have "w = cn_reversed @ ''('' @ cn_frozen @ ''('' @ marshal @ x @ ''))''" by (simp add: w wrapped_def bracketed_def)
    then show ?thesis using fq_header_both[OF pre, of x] n' fr
      by (intro that[of "pre @ cn_reversed @ ''('' @ cn_frozen @ ''(''" "''))''"]) (simp_all add: add.commute)
  next
    assume fr: "f" "\<not> r"
    then have "w = cn_frozen @ ''('' @ marshal @ x @ '')''" by (simp add: w wrapped_def bracketed_def)
    then show ?thesis using fq_header_frozen[OF pre, of x] n' fr
      by (intro that[of "pre @ cn_frozen @ ''(''" "'')''"]) (simp_all add: add.commute)
  next
    assume fr: "\<not> f" "r"
    then have "w = cn_reversed @ ''('' @ marshal @ x @ '')''" by (simp add: w wrapped_def bracketed_def)
    then show ?thesis using fq_header_reversed[OF x pre] n' fr
      by (intro that[of "pre @ cn_reversed @ ''(''" "'')''"]) (simp_all add: add.commute)
  next
    assume fr: "\<not> f" "\<not> r"
    then have "w = marshal @ x" by (simp add: w wrapped_def)
    then show ?thesis using fq_header_plain[OF x pre] n' fr
      by (intro that[of pre "[]"]) (simp_all add: add.commute)
  qed
qed

subsection \<open>Round trip\<close>

lemma paren_names [simp]: "CHR ''('' \<noteq> CHR '',''" "CHR '')'' \<noteq> CHR '',''" "CHR ''('' \<noteq> CHR '')''"
  by simp_all

lemma closed_marshal: "closed (CHR ''('') (CHR '')'') marshal"
  by (rule closed_plain) (simp add: marshal_def)

lemma closed_cn:
  "closed (CHR ''('') (CHR '')'') cn_list" "closed (CHR ''('') (CHR '')'') cn_set" "closed (CHR ''('') (CHR '')'') cn_map"
  "closed (CHR ''('') (CHR '')'') cn_udt" "closed (CHR ''('') (CHR '')'') cn_tuple" "closed (CHR ''('') (CHR '')'') cn_frozen"
  "closed (CHR ''('') (CHR '')'') cn_reversed" "closed (CHR ''('') (CHR '')'') cn_vector"
  unfolding cn_defs by (intro closed_append closed_marshal closed_plain; simp)+

lemma closed_bracketed:
  assumes "closed (CHR ''('') (CHR '')'') p" "\<forall>x \<in> set xs. closed (CHR ''('') (CHR '')'') x"
  shows "closed (CHR ''('') (CHR '')'') (bracketed p xs)"
  using closed_brackets[of "CHR ''(''" "CHR '')''" p xs "'',''" "[]"] assms by (simp add: bracketed_def)

lemma closed_wrapped: "closed (CHR ''('') (CHR '')'') s \<Longrightarrow> closed (CHR ''('') (CHR '')'') (wrapped opts s)"
  by (cases opts) (auto simp: wrapped_def Let_def intro!: closed_bracketed closed_cn)

lemma hex_char_plain: "n < 16 \<Longrightarrow> hex_char n \<notin> {CHR ''('', CHR '')'', CHR '','', CHR '':'', CHR ''o''}"
proof -
  have "list_all (\<lambda>n. hex_char n \<notin> {CHR ''('', CHR '')'', CHR '','', CHR '':'', CHR ''o''}) [0..<16]" by code_simp
  then show "n < 16 \<Longrightarrow> ?thesis" by (simp add: list_all_iff)
qed

lemma text_to_hex_plain: "set (text_to_hex s) \<inter> {CHR ''('', CHR '')'', CHR '','', CHR '':'', CHR ''o''} = {}"
proof -
  have "\<exists>n < 16. x = hex_char n" if "x \<in> set (text_to_hex s)" for x
  proof -
    from that obtain c where "x = hex_char (of_char c div 16) \<or> x = hex_char (of_char c mod 16)"
      unfolding text_to_hex_def by auto
    moreover have "of_char c div 16 < (16::nat)" "of_char c mod 16 < (16::nat)" using nat_of_char_less_256[of c] by linarith simp
    ultimately show ?thesis by blast
  qed
  then show ?thesis unfolding disjoint_iff using hex_char_plain by metis
qed

lemma closed_hex: "closed (CHR ''('') (CHR '')'') (text_to_hex s)"
  using text_to_hex_plain[of s] by (intro closed_plain) (auto simp: list_all_iff)

lemma closed_field: "closed (CHR ''('') (CHR '')'') s \<Longrightarrow> closed (CHR ''('') (CHR '')'') (text_to_hex n @ '':'' @ s)"
  by (intro closed_append closed_hex) (simp_all add: closed_plain)

lemma show_nat_plain: "c \<in> set (show_nat n) \<Longrightarrow> is_digit c"
  using show_nat_digits[of n] by (auto simp: list_all_iff)

lemma closed_dimension: "closed (CHR ''('') (CHR '')'') ('' '' @ show_dimension (Some n))" if "0 \<le> n"
  using that by (intro closed_plain) (auto simp: list_all_iff show_dimension_def show_int_def is_digit_def dest!: show_nat_plain)

lemma length_wrapped: "length s \<le> length (wrapped opts s)"
  by (cases opts) (auto simp: wrapped_def Let_def bracketed_def)

lemma fq_name_closed:
  "wf_fq t \<Longrightarrow> closed (CHR ''('') (CHR '')'') (fq_name t) \<and> 40 \<le> length (fq_name t)"
proof (induction t rule: fq_name.induct)
  case (1 c i opts)
  let ?b = "case i of
          No_info \<Rightarrow> single_name c
        | Sub_type t \<Rightarrow> bracketed (if c = dt_list then cn_list else cn_set) [fq_name t]
        | Sub_types ts \<Rightarrow> bracketed (if c = dt_map then cn_map else cn_tuple) (map fq_name ts)
        | Udt_info keyspace name fs \<Rightarrow>
            bracketed cn_udt (keyspace # text_to_hex name # map (\<lambda>(n, t). text_to_hex n @ '':'' @ fq_name t) fs)
        | Vector_info t d \<Rightarrow> bracketed cn_vector [fq_name t, '' '' @ show_dimension d]
        | Type_name n \<Rightarrow> n"
  have "closed (CHR ''('') (CHR '')'') ?b \<and> 40 \<le> length ?b"
  proof (cases i)
    case No_info
    then have "c = dt_duration \<or> c \<in> set (map snd singleTypeNames)" using "1.prems" by simp
    then obtain x where "single_name c = marshal @ x" "single_ok x c" by (rule single_name_cases)
    then show ?thesis using No_info closed_marshal closed_plain[of "CHR ''(''" "CHR '')''" x] by (auto simp: single_ok_def list_all_iff)
  next
    case (Sub_type t)
    then show ?thesis using 1 by (auto intro!: closed_bracketed closed_cn) (auto simp: bracketed_def)
  next
    case (Sub_types ts)
    then show ?thesis using 1 by (auto simp: list_all_iff intro!: closed_bracketed closed_cn) (auto simp: bracketed_def)
  next
    case (Udt_info keyspace name fs)
    have "closed (CHR ''('') (CHR '')'') (text_to_hex n @ '':'' @ fq_name t)" if "(n, t) \<in> set fs" for n t
    proof -
      have "closed (CHR ''('') (CHR '')'') (fq_name t)" using 1 Udt_info that by (auto simp: list_all_iff)
      then show ?thesis by (rule closed_field)
    qed
    then show ?thesis using 1 Udt_info by (auto intro!: closed_bracketed closed_cn closed_hex) (auto simp: bracketed_def)
  next
    case (Vector_info t d)
    then show ?thesis using 1 closed_dimension
      by (auto intro!: closed_bracketed closed_cn) (auto simp: bracketed_def)
  next
    case (Type_name n)
    then show ?thesis using 1 by simp
  qed
  then show ?case using closed_wrapped[of ?b opts] length_wrapped[of ?b opts] by simp
qed

lemma trim_id: "s = [] \<or> \<not> is_space (hd s) \<and> \<not> is_space (last s) \<Longrightarrow> trim s = s"
proof -
  have dw: "dropWhile P xs = xs" if "xs = [] \<or> \<not> P (hd xs)" for P and xs :: string using that by (cases xs) auto
  assume "s = [] \<or> \<not> is_space (hd s) \<and> \<not> is_space (last s)"
  then show ?thesis by (auto simp: trim_def dw hd_rev)
qed

lemma trim_digits:
  assumes "list_all is_digit s" "s \<noteq> []"
  shows "trim ('' '' @ s) = s" "trim s = s" "parseInt10 s = Some (digits_val s)"
proof -
  have sp: "\<not> is_space c" if "is_digit c" for c using that by (auto simp: is_digit_def is_space_def)
  have ends: "is_digit (hd s)" "is_digit (last s)" using assms by (auto simp: list_all_iff)
  show t: "trim s = s" using sp ends by (intro trim_id) auto
  have "is_space (CHR '' '')" by (simp add: is_space_def)
  then show "trim ('' '' @ s) = s" using t by (simp add: trim_def)
  have "dropWhile is_space s = s" using sp ends(1) assms(2) by (cases s) auto
  moreover have "\<not> starts_with s ''-''" "\<not> starts_with s ''+''" using ends(1) assms(2) by (cases s; auto simp: is_digit_def)+
  ultimately show "parseInt10 s = Some (digits_val s)" using assms
    by (simp add: parseInt10_def Let_def list_all_iff takeWhile_eq_all_conv[THEN iffD2])
qed

lemma fq_name_ends:
  assumes "wf_fq t"
  shows "fq_name t \<noteq> []" "\<not> is_space (hd (fq_name t))" "\<not> is_space (last (fq_name t))"
proof -
  have sp: "\<not> is_space (CHR '')'')" "\<not> is_space (CHR ''o'')" by (simp_all add: is_space_def)
  have hd: "hd (marshal @ s) = CHR ''o''" for s by (subst marshal_Cons) simp
  define good where "good s \<longleftrightarrow> s \<noteq> [] \<and> \<not> is_space (hd s) \<and> \<not> is_space (last s)" for s
  have br: "good (bracketed (marshal @ p) xs)" for p xs
    using hd[of "p @ ''('' @ join '','' xs @ '')''"] sp by (simp add: good_def bracketed_def)
  have w: "good (wrapped opts s)" if "good s" for opts s
    using that br[of "''FrozenType''"] br[of "''ReversedType''"]
    by (cases opts) (simp_all add: wrapped_def Let_def cn_frozen_def cn_reversed_def)
  obtain c i opts where t: "t = Column_Info c i opts" by (cases t)
  have "good (fq_name t)"
  proof (cases i)
    case No_info
    then have "c = dt_duration \<or> c \<in> set (map snd singleTypeNames)" using assms t by simp
    then obtain x where x: "single_name c = marshal @ x" "single_ok x c" by (rule single_name_cases)
    have "x \<noteq> []" using x(2) by (auto simp: single_ok_def)
    moreover have "list_all (\<lambda>c. \<not> is_space c) x" using x(2) by (simp add: single_ok_def list_all_iff)
    ultimately have "x \<noteq> []" "\<not> is_space (last x)" by (auto simp: list_all_iff)
    then have "good (marshal @ x)" using hd[of x] sp by (simp add: good_def)
    then show ?thesis using w x by (simp add: t No_info)
  next
    case (Sub_type s)
    then show ?thesis using w[OF br[of "''ListType''"]] w[OF br[of "''SetType''"]] by (simp add: t cn_list_def cn_set_def)
  next
    case (Sub_types ts)
    then show ?thesis using w[OF br[of "''MapType''"]] w[OF br[of "''TupleType''"]] by (simp add: t cn_map_def cn_tuple_def)
  next
    case (Udt_info ks n fs)
    then show ?thesis using w[OF br[of "''UserType''"]] by (simp add: t cn_udt_def)
  next
    case (Vector_info s d)
    then show ?thesis using w[OF br[of "''VectorType''"]] by (simp add: t cn_vector_def)
  qed (use assms t in simp)
  then show "fq_name t \<noteq> []" "\<not> is_space (hd (fq_name t))" "\<not> is_space (last (fq_name t))" by (simp_all add: good_def)
qed

lemma index_of_append: "c \<notin> set a \<Longrightarrow> index_of (a @ c # b) c = int (length a)"
  by (induction a) (auto simp: Let_def)

lemma hex_digit_hex_char: "n < 16 \<Longrightarrow> hex_digit (hex_char n) = Some n"
proof -
  assume "n < 16"
  then have "hex_char n = char_of (if n < 10 then 48 + n else 87 + n)" "(if n < 10 then 48 + n else 87 + n) < 256"
    by (simp_all add: hex_char_def)
  then show ?thesis using \<open>n < 16\<close> by (auto simp: hex_digit_def Let_def split: if_splits)
qed

lemma hex_to_text_to_hex: "hex_to_text (text_to_hex s) = s"
proof (induction s)
  case (Cons c s)
  have "of_char c div 16 < (16::nat)" "of_char c mod 16 < (16::nat)" using nat_of_char_less_256[of c] by linarith simp
  moreover have "16 * (of_char c div 16) + of_char c mod 16 = (of_char c :: nat)" by simp
  ultimately show ?case using Cons by (simp add: text_to_hex_def hex_digit_hex_char)
qed (simp add: text_to_hex_def)

lemma params_bracketed:
  assumes "N = pre @ bracketed nm args @ post" "\<forall>x \<in> set args. closed (CHR ''('') (CHR '')'') x" "args \<noteq> []"
    and "k = length nm" "l = int (length (bracketed nm args)) - int (k + 2)"
  shows "parseParams N (length pre + k + 1) l (CHR ''('') (CHR '')'') = args"
proof -
  have N: "N = (pre @ nm @ ''('') @ join '','' args @ ('')'' @ post)" by (simp add: assms(1) bracketed_def)
  show ?thesis unfolding N by (rule parseParams_join) (use assms in \<open>auto simp: bracketed_def\<close>)
qed

lemma parse_single:
  assumes "fq_header N i n = (length pre, int (length x) + 32, opts)" "N = pre @ marshal @ x @ post" "N \<noteq> cn_empty"
    and "single_ok x c" "pre = [] \<Longrightarrow> post = []"
  shows "parseFqTypeName N i n = Inr (Column_Info c No_info opts)"
proof -
  have "length x \<le> 17" using assms(4) by (simp add: single_ok_def)
  moreover have "(if 0 < length pre then substr N (length pre) (int (length x) + 32) else N) = marshal @ x"
    using assms(2,5) by (cases "pre = []") (simp_all add: substr_def nat_add_distrib)
  ultimately show ?thesis using assms(1,3,4)
    by (subst parseFqTypeName.simps) (auto simp: single_ok_def Let_def)
qed

lemma parse_list:
  assumes "fq_header N i n = (length pre, int (length (bracketed cn_list [s])), opts)" "N = pre @ bracketed cn_list [s] @ post"
    and "closed (CHR ''('') (CHR '')'') s" "40 \<le> length s" "parseFqTypeName s 0 0 = Inr t"
  shows "parseFqTypeName N i n = Inr (Column_Info dt_list (Sub_type t) opts)"
proof -
  have "length N \<noteq> length cn_empty" using assms(2,4) by (simp add: bracketed_def)
  then have "N \<noteq> cn_empty" by auto
  moreover have "matches_at N cn_list (length pre)" unfolding assms(2) by (simp add: bracketed_def)
  moreover have "parseParams N (length pre + length cn_list + 1) (int (length (bracketed cn_list [s])) - int (length cn_list + 2)) (CHR ''('') (CHR '')'') = [s]"
    by (rule params_bracketed[OF assms(2)]) (use assms in auto)
  ultimately show ?thesis using assms(1,4,5)
    by (subst parseFqTypeName.simps) (simp add: Let_def bracketed_def)
qed

text \<open>The names are told apart by the first that matches.\<close>

lemma other_names:
  "\<not> starts_with (cn_set @ s) cn_list" "\<not> starts_with (cn_map @ s) cn_list" "\<not> starts_with (cn_map @ s) cn_set"
  "\<not> starts_with (cn_udt @ s) cn_list" "\<not> starts_with (cn_udt @ s) cn_set" "\<not> starts_with (cn_udt @ s) cn_map"
  "\<not> starts_with (cn_tuple @ s) cn_list" "\<not> starts_with (cn_tuple @ s) cn_set" "\<not> starts_with (cn_tuple @ s) cn_map"
  "\<not> starts_with (cn_tuple @ s) cn_udt" "\<not> starts_with (cn_vector @ s) cn_list" "\<not> starts_with (cn_vector @ s) cn_set"
  "\<not> starts_with (cn_vector @ s) cn_map" "\<not> starts_with (cn_vector @ s) cn_udt" "\<not> starts_with (cn_vector @ s) cn_tuple"
  by (simp_all add: cn_defs)

lemma matches_bracketed:
  "N = pre @ bracketed cn_set args @ post \<Longrightarrow> \<not> matches_at N cn_list (length pre) \<and> matches_at N cn_set (length pre)"
  "N = pre @ bracketed cn_map args @ post \<Longrightarrow>
     \<not> matches_at N cn_list (length pre) \<and> \<not> matches_at N cn_set (length pre) \<and> matches_at N cn_map (length pre)"
  "N = pre @ bracketed cn_udt args @ post \<Longrightarrow>
     \<not> matches_at N cn_list (length pre) \<and> \<not> matches_at N cn_set (length pre) \<and> \<not> matches_at N cn_map (length pre)
     \<and> matches_at N cn_udt (length pre)"
  "N = pre @ bracketed cn_tuple args @ post \<Longrightarrow>
     \<not> matches_at N cn_list (length pre) \<and> \<not> matches_at N cn_set (length pre) \<and> \<not> matches_at N cn_map (length pre)
     \<and> \<not> matches_at N cn_udt (length pre) \<and> matches_at N cn_tuple (length pre)"
  "N = pre @ bracketed cn_vector args @ post \<Longrightarrow>
     \<not> matches_at N cn_list (length pre) \<and> \<not> matches_at N cn_set (length pre) \<and> \<not> matches_at N cn_map (length pre)
     \<and> \<not> matches_at N cn_udt (length pre) \<and> \<not> matches_at N cn_tuple (length pre) \<and> matches_at N cn_vector (length pre)"
  by (simp_all add: bracketed_def other_names)

lemma long_name:
  assumes "N = pre @ s @ post" "49 < length s" shows "N \<noteq> cn_empty"
proof -
  have "length N \<noteq> length cn_empty" using assms by simp
  then show ?thesis by auto
qed

lemma parse_set:
  assumes "fq_header N i n = (length pre, int (length (bracketed cn_set [s])), opts)" "N = pre @ bracketed cn_set [s] @ post"
    and "closed (CHR ''('') (CHR '')'') s" "40 \<le> length s" "parseFqTypeName s 0 0 = Inr t"
  shows "parseFqTypeName N i n = Inr (Column_Info dt_set (Sub_type t) opts)"
proof -
  have "parseParams N (length pre + length cn_set + 1) (int (length (bracketed cn_set [s])) - int (length cn_set + 2)) (CHR ''('') (CHR '')'') = [s]"
    by (rule params_bracketed[OF assms(2)]) (use assms in auto)
  moreover have "N \<noteq> cn_empty" by (rule long_name[OF assms(2)]) (use assms(4) in \<open>simp add: bracketed_def\<close>)
  ultimately show ?thesis using assms(1,4,5) matches_bracketed(1)[OF assms(2)]
    by (subst parseFqTypeName.simps) (simp add: Let_def bracketed_def)
qed

lemma parse_map:
  assumes "fq_header N i n = (length pre, int (length (bracketed cn_map [s1, s2])), opts)" "N = pre @ bracketed cn_map [s1, s2] @ post"
    and "closed (CHR ''('') (CHR '')'') s1" "closed (CHR ''('') (CHR '')'') s2" "40 \<le> length s1"
    and "parseFqTypeName s1 0 0 = Inr t1" "parseFqTypeName s2 0 0 = Inr t2"
  shows "parseFqTypeName N i n = Inr (Column_Info dt_map (Sub_types [t1, t2]) opts)"
proof -
  have "parseParams N (length pre + length cn_map + 1) (int (length (bracketed cn_map [s1, s2])) - int (length cn_map + 2)) (CHR ''('') (CHR '')'') = [s1, s2]"
    by (rule params_bracketed[OF assms(2)]) (use assms in auto)
  moreover have "N \<noteq> cn_empty" by (rule long_name[OF assms(2)]) (use assms(5) in \<open>simp add: bracketed_def\<close>)
  ultimately show ?thesis using assms(1,5-7) matches_bracketed(2)[OF assms(2)]
    by (subst parseFqTypeName.simps) (simp add: Let_def bracketed_def)
qed

lemma parse_tuple:
  assumes "fq_header N i n = (length pre, int (length (bracketed cn_tuple ss)), opts)" "N = pre @ bracketed cn_tuple ss @ post"
    and "\<forall>s \<in> set ss. closed (CHR ''('') (CHR '')'') s" "ss \<noteq> []" "40 \<le> length (join '','' ss)"
    and "rmap (\<lambda>s. parseFqTypeName s 0 0) ss = Inr ts"
  shows "parseFqTypeName N i n = Inr (Column_Info dt_tuple (Sub_types ts) opts)"
proof -
  have "parseParams N (length pre + length cn_tuple + 1) (int (length (bracketed cn_tuple ss)) - int (length cn_tuple + 2)) (CHR ''('') (CHR '')'') = ss"
    by (rule params_bracketed[OF assms(2)]) (use assms in auto)
  moreover have "N \<noteq> cn_empty" by (rule long_name[OF assms(2)]) (use assms(5) in \<open>simp add: bracketed_def\<close>)
  ultimately show ?thesis using assms(1,4-6) matches_bracketed(4)[OF assms(2)]
    by (subst parseFqTypeName.simps) (simp add: Let_def bracketed_def)
qed

lemma parse_udt:
  assumes "fq_header N i n = (length pre, int (length (bracketed cn_udt (ks # nm # ps))), opts)" "N = pre @ bracketed cn_udt (ks # nm # ps) @ post"
    and "\<forall>s \<in> set (ks # nm # ps). closed (CHR ''('') (CHR '')'') s" "40 \<le> length (join '','' (ks # nm # ps))"
    and "rmap (\<lambda>p. parseFqTypeName p (udt_field_start p) (int (length p) - int (udt_field_start p))) ps = Inr ts"
  shows "parseFqTypeName N i n = Inr (Column_Info dt_udt
    (Udt_info ks (hex_to_text nm) (zip (map (\<lambda>p. hex_to_text (substr p 0 (index_of p (CHR '':'')))) ps) ts)) opts)"
proof -
  have "parseParams N (length pre + length cn_udt + 1) (int (length (bracketed cn_udt (ks # nm # ps))) - int (length cn_udt + 2)) (CHR ''('') (CHR '')'') = ks # nm # ps"
    by (rule params_bracketed[OF assms(2)]) (use assms in auto)
  moreover have "N \<noteq> cn_empty" by (rule long_name[OF assms(2)]) (use assms(4) in \<open>simp add: bracketed_def\<close>)
  ultimately show ?thesis using assms(1,4,5) matches_bracketed(3)[OF assms(2)]
    by (subst parseFqTypeName.simps) (simp add: Let_def bracketed_def parseUdtName_def)
qed

lemma parse_vector:
  assumes "fq_header N i n = (0, int (length N), opts)" "N = bracketed cn_vector [s, '' '' @ show_nat k]"
    and "closed (CHR ''('') (CHR '')'') s" "40 \<le> length s" "trim s = s" "parseFqTypeName s 0 0 = Inr t"
  shows "parseFqTypeName N i n = Inr (Column_Info dt_custom (Vector_info t (Some (int k))) opts)"
proof -
  have N: "N = [] @ bracketed cn_vector [s, '' '' @ show_nat k] @ []" using assms(2) by simp
  have dim: "closed (CHR ''('') (CHR '')'') ('' '' @ show_nat k)" using closed_dimension[of "int k"] by (simp add: show_dimension_def show_int_def)
  have "parseParams N (length ([] :: string) + length cn_vector + 1) (int (length N) - int (length cn_vector + 2)) (CHR ''('') (CHR '')'') = [s, '' '' @ show_nat k]"
    by (rule params_bracketed[OF N]) (use assms dim in auto)
  then have "parseVectorTypeArgs N cn_vector = Inr (s, Some (int k))"
    using assms(5) trim_digits[OF show_nat_digits show_nat_nonempty, of k] by (simp add: parseVectorTypeArgs_def Let_def)
  moreover have "N \<noteq> cn_empty" by (rule long_name[OF N]) (use assms(4) in \<open>simp add: bracketed_def\<close>)
  moreover have "49 < length N" using assms(2,4) by (simp add: bracketed_def)
  ultimately show ?thesis using assms(1,6) matches_bracketed(5)[OF N]
    by (subst parseFqTypeName.simps) (simp add: Let_def)
qed

lemma unwrapped_bracketed:
  "bracketed cn_list args = marshal @ ''ListType'' @ bracketed [] args" "unwrapped (''ListType'' @ bracketed [] args)"
  "bracketed cn_set args = marshal @ ''SetType'' @ bracketed [] args" "unwrapped (''SetType'' @ bracketed [] args)"
  "bracketed cn_map args = marshal @ ''MapType'' @ bracketed [] args" "unwrapped (''MapType'' @ bracketed [] args)"
  "bracketed cn_udt args = marshal @ ''UserType'' @ bracketed [] args" "unwrapped (''UserType'' @ bracketed [] args)"
  "bracketed cn_tuple args = marshal @ ''TupleType'' @ bracketed [] args" "unwrapped (''TupleType'' @ bracketed [] args)"
  "bracketed cn_vector args = marshal @ ''VectorType'' @ bracketed [] args" "unwrapped (''VectorType'' @ bracketed [] args)"
  by (simp_all add: bracketed_def cn_defs unwrapped_def)

text \<open>A printed base \<open>marshal @ x\<close> behind its wrappers, for the lemmas above.\<close>

lemma fq_base:
  assumes "w = wrapped (Frozen_reversed f r) b" "b = marshal @ x" "unwrapped x"
    and "CHR ''o'' \<notin> set pre" "n = int (length w) \<or> n = 0 \<and> pre = []"
  obtains pre' post where "pre @ w = pre' @ b @ post"
    "fq_header (pre @ w) (length pre) n = (length pre', int (length b), Frozen_reversed f r)"
    "(\<not> f \<and> \<not> r \<longrightarrow> pre' = pre \<and> post = []) \<and> (f \<or> r \<longrightarrow> pre' \<noteq> [])"
proof -
  obtain pre' post where "pre @ w = pre' @ marshal @ x @ post"
    "fq_header (pre @ w) (length pre) n = (length pre', int (length x) + 32, Frozen_reversed f r)"
    "(\<not> f \<and> \<not> r \<longrightarrow> pre' = pre \<and> post = []) \<and> (f \<or> r \<longrightarrow> pre' \<noteq> [])"
    using fq_header_wrapped[OF assms(3,4) assms(1)[unfolded assms(2)] assms(5)] by blast
  then show ?thesis using assms(2) by (intro that[of pre' post]) simp_all
qed

lemma wrapped_longer: "f \<or> r \<Longrightarrow> 42 \<le> length (wrapped (Frozen_reversed f r) b)"
  by (auto simp: wrapped_def Let_def bracketed_def)

lemma single_not_empty:
  assumes "single_ok x c" "CHR ''o'' \<notin> set pre" "w = wrapped (Frozen_reversed f r) (marshal @ x)"
  shows "pre @ w \<noteq> cn_empty"
proof (cases "f \<or> r")
  case True
  then have "length (pre @ w) \<noteq> length cn_empty" using wrapped_longer[of f r "marshal @ x"] assms(3) by simp
  then show ?thesis by metis
next
  case False
  then have w: "w = marshal @ x" by (simp add: assms(3) wrapped_def)
  show ?thesis
  proof (cases pre)
    case Nil
    then show ?thesis using assms(1) by (simp add: w cn_empty_def single_ok_def)
  next
    case (Cons d pre')
    then have "hd (pre @ w) \<noteq> hd cn_empty" using assms(2) by (auto simp: cn_empty_def marshal_def)
    then show ?thesis by auto
  qed
qed

lemma parseFq_print:
  assumes "wf_fq t" "CHR ''o'' \<notin> set pre" "\<not> is_vector t \<or> pre = []" "n = int (length (fq_name t)) \<or> n = 0 \<and> pre = []"
  shows "parseFqTypeName (pre @ fq_name t) (length pre) n = Inr t"
  using assms
proof (induction t arbitrary: pre n rule: fq_name.induct)
  case (1 c i opts)
  obtain f r where opts: "opts = Frozen_reversed f r" using "1.prems"(1) by (cases opts) auto
  let ?w = "fq_name (Column_Info c i opts)"
  note base = fq_base[OF _ _ _ "1.prems"(2,4)]
  have closed: "closed (CHR ''('') (CHR '')'') (fq_name t)" "40 \<le> length (fq_name t)" if "wf_fq t" for t
    using fq_name_closed[OF that] by simp_all
  show ?case
  proof (cases i)
    case No_info
    then have "c = dt_duration \<or> c \<in> set (map snd singleTypeNames)" using "1.prems"(1) by simp
    then obtain x where x: "single_name c = marshal @ x" "single_ok x c" by (rule single_name_cases)
    have w: "?w = wrapped (Frozen_reversed f r) (marshal @ x)" by (simp add: No_info opts x)
    obtain pre' post where b: "pre @ ?w = pre' @ (marshal @ x) @ post"
      "fq_header (pre @ ?w) (length pre) n = (length pre', int (length (marshal @ x)), Frozen_reversed f r)"
      "(\<not> f \<and> \<not> r \<longrightarrow> pre' = pre \<and> post = []) \<and> (f \<or> r \<longrightarrow> pre' \<noteq> [])"
      by (rule base[OF w refl]) (use x(2) in \<open>auto simp: single_ok_def\<close>)
    have "pre' = [] \<Longrightarrow> post = []" using b(3) by (cases "f \<or> r") auto
    then show ?thesis using parse_single[of "pre @ ?w" "length pre" n pre' x opts post c] b x single_not_empty[OF x(2) "1.prems"(2) w]
      by (simp add: No_info opts)
  next
    case (Sub_type t)
    have wf: "wf_fq t" and c: "c = dt_list \<or> c = dt_set" using "1.prems"(1) by (auto simp: Sub_type)
    have p: "parseFqTypeName (fq_name t) 0 0 = Inr t" using "1.IH"(1)[OF Sub_type, of "[]" 0] wf by simp
    from c show ?thesis
    proof
      assume c: "c = dt_list"
      then have w: "?w = wrapped (Frozen_reversed f r) (bracketed cn_list [fq_name t])" by (simp add: Sub_type opts)
      obtain pre' post where b: "pre @ ?w = pre' @ bracketed cn_list [fq_name t] @ post"
        "fq_header (pre @ ?w) (length pre) n = (length pre', int (length (bracketed cn_list [fq_name t])), Frozen_reversed f r)"
        "(\<not> f \<and> \<not> r \<longrightarrow> pre' = pre \<and> post = []) \<and> (f \<or> r \<longrightarrow> pre' \<noteq> [])"
        by (rule base[OF w unwrapped_bracketed(1,2)])
      show ?thesis using parse_list[OF b(2,1) closed[OF wf] p] by (simp add: Sub_type opts c)
    next
      assume c: "c = dt_set"
      then have w: "?w = wrapped (Frozen_reversed f r) (bracketed cn_set [fq_name t])" by (simp add: Sub_type opts)
      obtain pre' post where b: "pre @ ?w = pre' @ bracketed cn_set [fq_name t] @ post"
        "fq_header (pre @ ?w) (length pre) n = (length pre', int (length (bracketed cn_set [fq_name t])), Frozen_reversed f r)"
        "(\<not> f \<and> \<not> r \<longrightarrow> pre' = pre \<and> post = []) \<and> (f \<or> r \<longrightarrow> pre' \<noteq> [])"
        by (rule base[OF w unwrapped_bracketed(3,4)])
      show ?thesis using parse_set[OF b(2,1) closed[OF wf] p] by (simp add: Sub_type opts c)
    qed
  next
    case (Sub_types ts)
    have wf: "\<forall>t \<in> set ts. wf_fq t" using "1.prems"(1) by (auto simp: Sub_types list_all_iff)
    have p: "parseFqTypeName (fq_name t) 0 0 = Inr t" if "t \<in> set ts" for t
      using "1.IH"(2)[OF Sub_types that, of "[]" 0] wf that by simp
    consider (map) t1 t2 where "c = dt_map" "ts = [t1, t2]" | (tuple) "c = dt_tuple" "ts \<noteq> []"
      using "1.prems"(1) by (auto simp: Sub_types length_Suc_conv numeral_2_eq_2)
    then show ?thesis
    proof cases
      case map
      then have w: "?w = wrapped (Frozen_reversed f r) (bracketed cn_map [fq_name t1, fq_name t2])" by (simp add: Sub_types opts)
      obtain pre' post where b: "pre @ ?w = pre' @ bracketed cn_map [fq_name t1, fq_name t2] @ post"
        "fq_header (pre @ ?w) (length pre) n = (length pre', int (length (bracketed cn_map [fq_name t1, fq_name t2])), Frozen_reversed f r)"
        "(\<not> f \<and> \<not> r \<longrightarrow> pre' = pre \<and> post = []) \<and> (f \<or> r \<longrightarrow> pre' \<noteq> [])"
        by (rule base[OF w unwrapped_bracketed(5,6)])
      have t: "wf_fq t1" "wf_fq t2" "t1 \<in> set ts" "t2 \<in> set ts" using wf map by auto
      show ?thesis using parse_map[OF b(2,1) closed(1)[OF t(1)] closed(1)[OF t(2)] closed(2)[OF t(1)] p[OF t(3)] p[OF t(4)]]
        by (simp add: Sub_types opts map)
    next
      case tuple
      then have w: "?w = wrapped (Frozen_reversed f r) (bracketed cn_tuple (map fq_name ts))" by (simp add: Sub_types opts)
      obtain pre' post where b: "pre @ ?w = pre' @ bracketed cn_tuple (map fq_name ts) @ post"
        "fq_header (pre @ ?w) (length pre) n = (length pre', int (length (bracketed cn_tuple (map fq_name ts))), Frozen_reversed f r)"
        "(\<not> f \<and> \<not> r \<longrightarrow> pre' = pre \<and> post = []) \<and> (f \<or> r \<longrightarrow> pre' \<noteq> [])"
        by (rule base[OF w unwrapped_bracketed(9,10)])
      have "rmap (\<lambda>s. parseFqTypeName s 0 0) (map fq_name ts) = Inr ts" using p by (induction ts) auto
      moreover have "40 \<le> length (join '','' (map fq_name ts))"
        using join_member_length[of "fq_name (hd ts)" "map fq_name ts" "'',''"] tuple(2) wf closed(2)[of "hd ts"] by simp
      moreover have "\<forall>s \<in> set (map fq_name ts). closed (CHR ''('') (CHR '')'') s" using closed(1) wf by auto
      ultimately show ?thesis using parse_tuple[OF b(2,1)] tuple by (simp add: Sub_types opts)
    qed
  next
    case (Udt_info ks nm fs)
    let ?ps = "map (\<lambda>(n, t). text_to_hex n @ '':'' @ fq_name t) fs"
    have c: "c = dt_udt" and fs: "fs \<noteq> []" and ks: "closed (CHR ''('') (CHR '')'') ks"
      and wf: "\<And>m t. (m, t) \<in> set fs \<Longrightarrow> wf_fq t \<and> \<not> is_vector t"
      using "1.prems"(1) by (auto simp: Udt_info list_all_iff)
    have w: "?w = wrapped (Frozen_reversed f r) (bracketed cn_udt (ks # text_to_hex nm # ?ps))" by (simp add: Udt_info opts)
    obtain pre' post where b: "pre @ ?w = pre' @ bracketed cn_udt (ks # text_to_hex nm # ?ps) @ post"
      "fq_header (pre @ ?w) (length pre) n = (length pre', int (length (bracketed cn_udt (ks # text_to_hex nm # ?ps))), Frozen_reversed f r)"
      "(\<not> f \<and> \<not> r \<longrightarrow> pre' = pre \<and> post = []) \<and> (f \<or> r \<longrightarrow> pre' \<noteq> [])"
      by (rule base[OF w unwrapped_bracketed(7,8)])
    have field: "index_of (text_to_hex m @ '':'' @ s) (CHR '':'') = int (length (text_to_hex m))" for m s
      using text_to_hex_plain[of m] index_of_append[of "CHR '':''" "text_to_hex m" s] by auto
    have p: "parseFqTypeName (text_to_hex m @ '':'' @ fq_name t) (length (text_to_hex m) + 1) (int (length (fq_name t))) = Inr t"
      if "(m, t) \<in> set fs" for m t
      using "1.IH"(3)[OF Udt_info that refl, of "text_to_hex m @ '':''" "int (length (fq_name t))"] wf[OF that] text_to_hex_plain[of m] by simp
    have types: "rmap (\<lambda>p. parseFqTypeName p (udt_field_start p) (int (length p) - int (udt_field_start p))) ?ps = Inr (map snd fs)"
      using p by (induction fs) (auto simp: udt_field_start_def field[simplified] nat_add_distrib)
    have names: "map (\<lambda>p. hex_to_text (substr p 0 (index_of p (CHR '':'')))) ?ps = map fst fs"
      by (induction fs) (auto simp: substr_def field[simplified] hex_to_text_to_hex)
    have cl: "\<forall>s \<in> set (ks # text_to_hex nm # ?ps). closed (CHR ''('') (CHR '')'') s"
      using ks closed(1) wf closed_hex[of nm] by (auto simp del: append.simps intro!: closed_field)
    have "40 \<le> length (join '','' (ks # text_to_hex nm # ?ps))"
    proof -
      obtain m t fs' where f: "fs = (m, t) # fs'" using fs by (cases fs) auto
      then have "wf_fq t" using wf[of m t] by simp
      then show ?thesis
        using join_member_length[of "text_to_hex m @ '':'' @ fq_name t" "ks # text_to_hex nm # ?ps" "'',''"] closed(2)[of t] f by simp
    qed
    from parse_udt[OF b(2,1) cl this types, unfolded names zip_map_fst_snd hex_to_text_to_hex]
    show ?thesis by (simp only: Udt_info opts c)
  next
    case (Vector_info t d)
    then obtain k where wf: "wf_fq t" and d: "d = Some (int k)" and c: "c = dt_custom" and fr: "\<not> f" "\<not> r" and pre: "pre = []"
      using "1.prems"(1,3) opts by (auto simp: is_vector_def elim: nonneg_int_cases)
    have w: "?w = wrapped (Frozen_reversed f r) (bracketed cn_vector [fq_name t, '' '' @ show_nat k])"
      by (simp add: Vector_info opts d show_dimension_def show_int_def)
    have plain: "?w = bracketed cn_vector [fq_name t, '' '' @ show_nat k]" using fr unfolding w wrapped_def by simp
    obtain pre' post where b: "pre @ ?w = pre' @ bracketed cn_vector [fq_name t, '' '' @ show_nat k] @ post"
      "fq_header (pre @ ?w) (length pre) n = (length pre', int (length (bracketed cn_vector [fq_name t, '' '' @ show_nat k])), Frozen_reversed f r)"
      "(\<not> f \<and> \<not> r \<longrightarrow> pre' = pre \<and> post = []) \<and> (f \<or> r \<longrightarrow> pre' \<noteq> [])"
      by (rule base[OF w unwrapped_bracketed(11,12)])
    have h: "fq_header ?w 0 n = (0, int (length ?w), opts)" using b(2,3) fr pre plain opts by simp
    have p: "parseFqTypeName (fq_name t) 0 0 = Inr t" using "1.IH"(4)[OF Vector_info, of "[]" 0] wf by simp
    have "trim (fq_name t) = fq_name t" using fq_name_ends[OF wf] by (intro trim_id) simp
    then show ?thesis using parse_vector[OF h plain closed[OF wf] _ p] pre by (simp add: Vector_info d c)
  qed (use "1.prems" in simp)
qed
section \<open>Properties of the class-name parser\<close>

text \<open>C38: A column type written as Cassandra writes it (\<open>ListType\<close>, \<open>SetType\<close>, \<open>MapType\<close>, \<open>TupleType\<close>,
  \<open>UserType\<close> and \<open>VectorType\<close> around the scalar classes, nested to any depth, each wrapped or not in
  \<open>FrozenType\<close> and \<open>ReversedType\<close>) is parsed back by \<open>parseFqTypeName\<close>, except that a vector may be
  neither wrapped nor the type of a UDT field.\<close>
theorem parseFqTypeName_print:
  assumes "wf_fq t"
  shows "parseFqTypeName (fq_name t) 0 0 = Inr t"
  using parseFq_print[OF assms, of "[]" 0] by simp

theorem parseFqTypeName_print_witness:
  "parseFqTypeName (fq_name
     (Column_Info dt_map (Sub_types
        [Column_Info 9 No_info (Frozen_reversed False False),
         Column_Info dt_udt (Udt_info ''ks'' ''u'' [(''a'', Column_Info dt_list (Sub_type (Column_Info 13 No_info (Frozen_reversed False False))) (Frozen_reversed True False))])
           (Frozen_reversed True False)]) (Frozen_reversed False True))) 0 0
   = Inr (Column_Info dt_map (Sub_types
        [Column_Info 9 No_info (Frozen_reversed False False),
         Column_Info dt_udt (Udt_info ''ks'' ''u'' [(''a'', Column_Info dt_list (Sub_type (Column_Info 13 No_info (Frozen_reversed False False))) (Frozen_reversed True False))])
           (Frozen_reversed True False)]) (Frozen_reversed False True))"
  by (rule parseFqTypeName_print) (simp add: singleTypeNames_def is_vector_def closed_plain)

text \<open>A frozen vector and a UDT with a vector field, both legal in Cassandra, are refused with a
  \<open>TypeError\<close>: \<open>parseVectorTypeArgs\<close> takes the arguments at a fixed place, as if the name began with
  the vector's class.\<close>
theorem parseFqTypeName_wrapped_vector:
  "is_TypeError (parseFqTypeName (bracketed cn_frozen [bracketed cn_vector [single_name 8, '' 3'']]) 0 0)
   \<and> is_TypeError (parseFqTypeName (bracketed cn_udt [''ks'', ''75'', ''61:'' @ bracketed cn_vector [single_name 8, '' 3'']]) 0 0)"
  by code_simp

section \<open>Names of the driver's hints\<close>

subsection \<open>Splitting\<close>

lemma splitTypeArgs_loop_scan:
  assumes "scan (CHR ''<'') (CHR ''>'') l s = Some l'"
  shows "splitTypeArgs_loop args i (s @ cs) l st ts = splitTypeArgs_loop args (i + length s) cs l' st ts"
  using assms
proof (induction s arbitrary: i l)
  case (Cons c s)
  then show ?case using Cons.IH[of "next_level (CHR ''<'') (CHR ''>'') l c" "Suc i"]
    by (auto simp: next_level_def split: if_splits)
qed simp

lemma closed_blank: "closed (CHR ''<'') (CHR ''>'') s \<Longrightarrow> sp = [] \<or> sp = '' '' \<Longrightarrow> scan (CHR ''<'') (CHR ''>'') 0 (sp @ s) = Some 0"
  by (auto simp: closed_def next_level_def)

lemma trim_blank: "trim s = s \<Longrightarrow> sp = [] \<or> sp = '' '' \<Longrightarrow> trim (sp @ s) = s"
  by (auto simp: trim_def is_space_def)

lemma splitTypeArgs_loop_join:
  assumes "\<forall>x \<in> set (x # xs). closed (CHR ''<'') (CHR ''>'') x \<and> trim x = x" "sp = [] \<or> sp = '' ''"
    and "args = pre @ sp @ join '', '' (x # xs)"
  shows "splitTypeArgs_loop args (length pre) (sp @ join '', '' (x # xs)) 0 (length pre) ts = ts @ x # xs"
  using assms
proof (induction xs arbitrary: x pre sp ts)
  case Nil
  have "splitTypeArgs_loop args (length pre) ((sp @ x) @ []) 0 (length pre) ts = ts @ [trim (sp @ x)]"
    using Nil by (subst splitTypeArgs_loop_scan[OF closed_blank]) (simp_all add: substring_def)
  then show ?case using Nil trim_blank by simp
next
  case (Cons y xs)
  let ?r = "'' '' @ join '', '' (y # xs)"
  have args: "args = (pre @ sp @ x @ '','') @ ?r" using Cons.prems(3) by simp
  have "splitTypeArgs_loop args (length pre) ((sp @ x) @ CHR '','' # ?r) 0 (length pre) ts
      = splitTypeArgs_loop args (length (pre @ sp @ x @ '','')) ?r 0 (length (pre @ sp @ x @ '',''))
          (ts @ [trim (substring args (length pre) (length pre + length (sp @ x)))])"
    using Cons.prems(1,2) by (subst splitTypeArgs_loop_scan[OF closed_blank]) (simp_all add: add.assoc)
  also have "substring args (length pre) (length pre + length (sp @ x)) = sp @ x" by (simp add: args substring_def)
  also have "trim (sp @ x) = x" using Cons.prems(1,2) by (intro trim_blank) auto
  also have "splitTypeArgs_loop args (length (pre @ sp @ x @ '','')) ?r 0 (length (pre @ sp @ x @ '','')) (ts @ [x]) = (ts @ [x]) @ y # xs"
    by (rule Cons.IH) (use Cons.prems(1) args in auto)
  finally show ?case by simp
qed

lemma splitTypeArgs_join:
  assumes "xs \<noteq> []" "\<forall>x \<in> set xs. closed (CHR ''<'') (CHR ''>'') x \<and> trim x = x"
  shows "splitTypeArgs (join '', '' xs) = xs"
proof -
  obtain x r where "xs = x # r" using assms(1) by (cases xs) auto
  then show ?thesis using splitTypeArgs_loop_join[of x r "[]" "join '', '' xs" "[]" "[]"] assms(2) by (simp add: splitTypeArgs_def)
qed

subsection \<open>Round trip\<close>

fun wf_hint :: "column_info \<Rightarrow> bool" where
  "wf_hint (Column_Info c i opts) =
     (opts = No_options \<and>
      (case i of
         No_info \<Rightarrow> c \<in> set (map snd dataTypes)
       | Sub_type t \<Rightarrow> c \<in> {dt_list, dt_set} \<and> wf_hint t
       | Sub_types ts \<Rightarrow> (c = dt_map \<and> length ts = 2 \<or> c = dt_tuple \<and> ts \<noteq> []) \<and> list_all wf_hint ts
       | Vector_info t d \<Rightarrow> c = dt_custom \<and> wf_hint t \<and> (\<exists>n \<ge> 0. d = Some n)
       | _ \<Rightarrow> False))"

text \<open>What a printed hint looks like: the properties the parser relies on.\<close>

definition plain_char :: "char \<Rightarrow> bool" where
  "plain_char c \<longleftrightarrow> to_lower c = c \<and> (of_char c :: nat) \<notin> {10, 13}"

definition hint_text :: "string \<Rightarrow> bool" where
  "hint_text s \<longleftrightarrow> s \<noteq> [] \<and> list_all plain_char s \<and> closed (CHR ''<'') (CHR ''>'') s \<and> trim s = s"

lemma type_names_ok:
  "list_all (\<lambda>(n, c). dataTypesByCode c = Some n \<and> map_of dataTypes n = Some c \<and> n \<noteq> [] \<and> trim n = n \<and> list_all plain_char n
     \<and> list_all (\<lambda>c. c \<noteq> CHR ''<'' \<and> c \<noteq> CHR ''>'' \<and> c \<noteq> CHR '','') n) dataTypes"
  by code_simp

lemma hint_brackets:
  assumes "\<forall>x \<in> set xs. hint_text x" "list_all plain_char name" "name \<noteq> []" "\<not> is_space (hd name)"
    and "list_all (\<lambda>c. c \<noteq> CHR ''<'' \<and> c \<noteq> CHR ''>'' \<and> c \<noteq> CHR '','') name"
  shows "hint_text (name @ ''<'' @ join '', '' xs @ ''>'')"
proof -
  have plain: "list_all plain_char (join '', '' xs)"
    using assms(1) by (induction xs rule: induct_list012) (auto simp: hint_text_def plain_char_def to_lower_def)
  have "closed (CHR ''<'') (CHR ''>'') (name @ [CHR ''<''] @ join '', '' xs @ [CHR ''>''])"
    by (rule closed_brackets[where sp = "'' ''"]) (use assms in \<open>auto simp: hint_text_def intro!: closed_plain\<close>)
  moreover have "trim (name @ ''<'' @ join '', '' xs @ ''>'') = name @ ''<'' @ join '', '' xs @ ''>''"
    using assms(3,4) by (intro trim_id) (simp add: is_space_def)
  ultimately show ?thesis using assms(2,3) plain by (auto simp: hint_text_def plain_char_def to_lower_def)
qed

lemma plain_lower: "list_all plain_char s \<Longrightarrow> toLowerCase s = s"
  by (induction s) (auto simp: toLowerCase_def plain_char_def)

lemma generic_args_hit:
  assumes "list_all plain_char inner" "inner \<noteq> []"
  shows "generic_args name (name @ CHR ''<'' # inner @ ''>'') = Some inner"
proof -
  have "starts_with (name @ CHR ''<'' # inner @ ''>'') (name @ ''<'')" by (induction name) auto
  then show ?thesis using assms by (cases inner) (auto simp: generic_args_def plain_char_def list_all_iff butlast_append)
qed

lemma generic_args_miss: "\<not> starts_with s (name @ ''<'') \<Longrightarrow> generic_args name s = None"
  by (simp add: generic_args_def)

lemma no_index: "c \<notin> set s \<Longrightarrow> index_of s c = - 1"
  by (induction s) auto

lemma getByName_single:
  assumes "(n, c) \<in> set dataTypes"
  shows "getDataTypeNameByCode (Column_Info c No_info No_options) = Inr (Some n) \<and> hint_text n \<and> getByName n = Inr (Column_Info c No_info No_options)"
proof -
  have ok: "dataTypesByCode c = Some n" "map_of dataTypes n = Some c" "n \<noteq> []" "trim n = n" "list_all plain_char n"
    "list_all (\<lambda>c. c \<noteq> CHR ''<'' \<and> c \<noteq> CHR ''>'' \<and> c \<noteq> CHR '','') n"
    using type_names_ok assms by (auto simp: list_all_iff)
  have "index_of n (CHR ''<'') = - 1" using ok(6) by (intro no_index) (auto simp: list_all_iff)
  then show ?thesis using ok by (auto simp: getByName.simps[of n] plain_lower hint_text_def intro: closed_plain)
qed

text \<open>The parser on \<open>name<...>\<close> for each generic name.\<close>

lemma getByName_generic:
  assumes "list_all plain_char inner" "inner \<noteq> []"
  shows "getByName (''list<'' @ inner @ ''>'') = rbind (getByName inner) (\<lambda>i. return (Column_Info dt_list (Sub_type i) No_options))"
    "getByName (''set<'' @ inner @ ''>'') = rbind (getByName inner) (\<lambda>i. return (Column_Info dt_set (Sub_type i) No_options))"
    "length (splitTypeArgs inner) = 2 \<Longrightarrow> getByName (''map<'' @ inner @ ''>'')
       = rbind (rmap getByName (splitTypeArgs inner)) (\<lambda>is. return (Column_Info dt_map (Sub_types is) No_options))"
    "getByName (''tuple<'' @ inner @ ''>'')
       = rbind (rmap getByName (splitTypeArgs inner)) (\<lambda>is. return (Column_Info dt_tuple (Sub_types is) No_options))"
    "splitTypeArgs inner = [s, d] \<Longrightarrow> d \<noteq> [] \<Longrightarrow> list_all is_digit d \<Longrightarrow> getByName (''vector<'' @ inner @ ''>'')
       = rbind (getByName s) (\<lambda>i. return (Column_Info dt_custom (Vector_info i (parseInt10 d)) No_options))"
proof -
  have low: "toLowerCase (name @ inner @ ''>'') = name @ inner @ ''>''" if "list_all plain_char name" for name
    using that assms(1) by (intro plain_lower) (simp add: plain_char_def to_lower_def)
  note hits = generic_args_hit[OF assms, of "''list''", simplified] generic_args_hit[OF assms, of "''set''", simplified]
    generic_args_hit[OF assms, of "''map''", simplified] generic_args_hit[OF assms, of "''tuple''", simplified]
    generic_args_hit[OF assms, of "''vector''", simplified]
  note names = low[of "''list<''", simplified] low[of "''set<''", simplified] low[of "''map<''", simplified]
    low[of "''tuple<''", simplified] low[of "''vector<''", simplified]
  show "getByName (''list<'' @ inner @ ''>'') = rbind (getByName inner) (\<lambda>i. return (Column_Info dt_list (Sub_type i) No_options))"
    "getByName (''set<'' @ inner @ ''>'') = rbind (getByName inner) (\<lambda>i. return (Column_Info dt_set (Sub_type i) No_options))"
    "length (splitTypeArgs inner) = 2 \<Longrightarrow> getByName (''map<'' @ inner @ ''>'')
       = rbind (rmap getByName (splitTypeArgs inner)) (\<lambda>is. return (Column_Info dt_map (Sub_types is) No_options))"
    "getByName (''tuple<'' @ inner @ ''>'')
       = rbind (rmap getByName (splitTypeArgs inner)) (\<lambda>is. return (Column_Info dt_tuple (Sub_types is) No_options))"
    "splitTypeArgs inner = [s, d] \<Longrightarrow> d \<noteq> [] \<Longrightarrow> list_all is_digit d \<Longrightarrow> getByName (''vector<'' @ inner @ ''>'')
       = rbind (getByName s) (\<lambda>i. return (Column_Info dt_custom (Vector_info i (parseInt10 d)) No_options))"
    by (subst getByName.simps; simp add: names hits generic_args_miss Let_def plain_char_def to_lower_def)+
qed

lemma hint_list:
  assumes "\<forall>t \<in> set ts. \<exists>s. getDataTypeNameByCode t = Inr (Some s) \<and> hint_text s \<and> getByName s = Inr t"
  shows "\<exists>ss. rmap getDataTypeNameByCode ts = Inr (map Some ss) \<and> (\<forall>s \<in> set ss. hint_text s)
    \<and> rmap getByName ss = Inr ts \<and> length ss = length ts"
  using assms
proof (induction ts)
  case (Cons t ts)
  then obtain s ss where "getDataTypeNameByCode t = Inr (Some s)" "hint_text s" "getByName s = Inr t"
    "rmap getDataTypeNameByCode ts = Inr (map Some ss)" "\<forall>s \<in> set ss. hint_text s" "rmap getByName ss = Inr ts" "length ss = length ts"
    by auto
  then show ?case by (intro exI[of _ "s # ss"]) auto
qed simp

lemma hint_join:
  assumes "\<forall>s \<in> set ss. hint_text s" "ss \<noteq> []"
  shows "list_all plain_char (join '', '' ss) \<and> join '', '' ss \<noteq> [] \<and> splitTypeArgs (join '', '' ss) = ss"
proof -
  have "list_all plain_char (join '', '' ss)"
    using assms(1) by (induction ss rule: induct_list012) (auto simp: hint_text_def plain_char_def to_lower_def)
  moreover have "join '', '' ss \<noteq> []" using assms by (cases ss rule: remdups_adj.cases) (auto simp: hint_text_def)
  moreover have "splitTypeArgs (join '', '' ss) = ss" using assms by (intro splitTypeArgs_join) (auto simp: hint_text_def)
  ultimately show ?thesis by simp
qed

lemmas hint_defs = dataTypesByCode_def dataTypes_def shown_def hint_text_def plain_char_def to_lower_def is_space_def

lemma joined_Some [simp]: "map (joined \<circ> Some) ss = ss"
  by (simp add: joined_def comp_def)

lemma hint_round_trip:
  "wf_hint t \<Longrightarrow> \<exists>s. getDataTypeNameByCode t = Inr (Some s) \<and> hint_text s \<and> getByName s = Inr t"
proof (induction t rule: wf_hint.induct)
  case (1 c i opts)
  then have opts: "opts = No_options" by simp
  show ?case
  proof (cases i)
    case No_info
    then obtain n where "(n, c) \<in> set dataTypes" using "1.prems" by auto
    then show ?thesis using getByName_single[of n c] No_info opts by auto
  next
    case (Sub_type t)
    then obtain s where s: "getDataTypeNameByCode t = Inr (Some s)" "hint_text s" "getByName s = Inr t"
      using 1 by auto
    have "c = dt_list \<or> c = dt_set" using 1 Sub_type by simp
    then show ?thesis
    proof
      assume "c = dt_list"
      then show ?thesis using s getByName_generic(1)[of s] hint_brackets[of "[s]" "''list''"]
        by (auto simp: Sub_type opts hint_defs)
    next
      assume "c = dt_set"
      then show ?thesis using s getByName_generic(2)[of s] hint_brackets[of "[s]" "''set''"]
        by (auto simp: Sub_type opts hint_defs)
    qed
  next
    case (Sub_types ts)
    then obtain ss where ss: "rmap getDataTypeNameByCode ts = Inr (map Some ss)" "\<forall>s \<in> set ss. hint_text s"
      "rmap getByName ss = Inr ts" "length ss = length ts"
      using hint_list[of ts] 1 by (auto simp: list_all_iff)
    have ts: "c = dt_map \<and> length ts = 2 \<or> c = dt_tuple \<and> ts \<noteq> []" using 1 Sub_types by simp
    then have "ss \<noteq> []" using ss(4) by auto
    note j = hint_join[OF ss(2) this]
    from ts show ?thesis
    proof
      assume "c = dt_map \<and> length ts = 2"
      then show ?thesis using ss j getByName_generic(3)[of "join '', '' ss"] hint_brackets[of ss "''map''"]
        by (auto simp: Sub_types opts hint_defs)
    next
      assume "c = dt_tuple \<and> ts \<noteq> []"
      then show ?thesis using ss j getByName_generic(4)[of "join '', '' ss"] hint_brackets[of ss "''tuple''"]
        by (auto simp: Sub_types opts hint_defs)
    qed
  next
    case (Vector_info t d)
    then obtain s k where s: "getDataTypeNameByCode t = Inr (Some s)" "hint_text s" "getByName s = Inr t"
      and d: "d = Some (int k)" and c: "c = dt_custom" using 1 by (auto elim: nonneg_int_cases)
    have dig: "hint_text (show_nat k)"
    proof -
      have "plain_char x \<and> x \<noteq> CHR ''<'' \<and> x \<noteq> CHR ''>'' \<and> x \<noteq> CHR '',''" if "x \<in> set (show_nat k)" for x
        using show_nat_plain[OF that] by (auto simp: is_digit_def plain_char_def to_lower_def)
      then show ?thesis using trim_digits(2)[OF show_nat_digits show_nat_nonempty]
        by (auto simp: hint_text_def list_all_iff intro!: closed_plain)
    qed
    note j = hint_join[of "[s, show_nat k]"]
    have "getByName (''vector<'' @ join '', '' [s, show_nat k] @ ''>'')
        = rbind (getByName s) (\<lambda>i. return (Column_Info dt_custom (Vector_info i (parseInt10 (show_nat k))) No_options))"
      using s dig j by (intro getByName_generic(5)) (auto simp: show_nat_digits)
    moreover have "hint_text (''vector'' @ ''<'' @ join '', '' [s, show_nat k] @ ''>'')"
      using s dig by (intro hint_brackets) (auto simp: plain_char_def to_lower_def is_space_def)
    ultimately show ?thesis using s trim_digits(3)[OF show_nat_digits show_nat_nonempty, of k]
      by (auto simp: Vector_info opts c d dataTypesByCode_def dataTypes_def shown_def show_dimension_def show_int_def)
  qed (use "1.prems" in auto)
qed

text \<open>Every type hint the driver can express by name (a scalar, or \<open>list\<close>, \<open>set\<close>, \<open>map\<close>, \<open>tuple\<close> and
  \<open>vector\<close> of such types, nested to any depth) is printed by \<open>getDataTypeNameByCode\<close> as a name that
  \<open>dataTypes.getByName\<close> resolves to the same type.\<close>
theorem getByName_print:
  assumes "wf_hint t"
  shows "\<exists>s. getDataTypeNameByCode t = Inr (Some s) \<and> getByName s = Inr t"
  using hint_round_trip[OF assms] by blast

theorem getByName_print_witness:
  "\<exists>s. getDataTypeNameByCode (Column_Info dt_map (Sub_types [Column_Info 9 No_info No_options,
       Column_Info dt_custom (Vector_info (Column_Info 8 No_info No_options) (Some 3)) No_options]) No_options) = Inr (Some s)
     \<and> getByName s = Inr (Column_Info dt_map (Sub_types [Column_Info 9 No_info No_options,
       Column_Info dt_custom (Vector_info (Column_Info 8 No_info No_options) (Some 3)) No_options]) No_options)"
  by (rule getByName_print) (simp add: dataTypes_def)

section \<open>CQL names\<close>

text \<open>What \<open>parseTypeName\<close> does with legal CQL names that \<open>getByName\<close> resolves: a vector of a
  collection or of a vector is refused, because the arguments are split as if their brackets were
  round; so is a frozen vector. A vector of a UDT fails because the resolver is not handed on, and a
  UDT whose name begins with \<open>set\<close> is looked up under a truncated name as the element of a set.\<close>
theorem parseTypeName_refuses:
  "is_TypeError (parseTypeName udtResolver ks ''vector<map<int,int>, 3>'' 0 0)
   \<and> is_TypeError (parseTypeName udtResolver ks ''vector<vector<int, 2>, 3>'' 0 0)
   \<and> is_TypeError (parseTypeName udtResolver ks ''frozen<vector<int, 3>>'' 0 0)
   \<and> is_TypeError (parseTypeName udtResolver ks ''vector<my_udt, 3>'' 0 0)
   \<and> parseTypeName udtResolver ks ''settings'' 0 0
       = rbind (parseTypeName udtResolver ks ''ing'' 0 0) (\<lambda>i. return (Column_Info dt_set (Sub_type i) (Frozen False)))"
  by code_simp

end
