(* ===== verification/Cql_Scalars.thy ===== *)
theory Cql_Scalars
  imports Type_Names Big_Integer Utils Ordering
begin

text \<open>
  The classes of \<open>lib/types\<close> that stand for CQL scalars: the byte form of \<open>Long\<close>, \<open>Uuid\<close>, \<open>InetAddress\<close>,
  \<open>LocalTime\<close>, \<open>LocalDate\<close> and \<open>BigDecimal\<close>, with their byte and text forms. \<open>None\<close> stands for \<open>NaN\<close>
  where the code computes with the result of \<open>parseInt\<close>. \<open>BigDecimal\<close> takes \<open>Integer.fromString\<close>,
  \<open>Integer.toString\<close> and \<open>Math.pow(10, n)\<close>, whose value the language leaves to the implementation when it
  is no double, as parameters.
\<close>

section \<open>Long\<close>

definition Long_fromBuffer :: "buffer \<Rightarrow> int result" where
  "Long_fromBuffer b =
     rbind (readInt32BE b 4) (\<lambda>low. rbind (readInt32BE b 0) (\<lambda>high. return (high * 4294967296 + to_uint32 low)))"

definition Long_toBuffer :: "int \<Rightarrow> buffer result" where
  "Long_toBuffer v =
     rbind (writeUInt32BE (to_uint32 (v div 4294967296))) (\<lambda>high.
     rbind (writeUInt32BE (to_uint32 v)) (\<lambda>low. return (high @ low)))"

text \<open>Arithmetic of \<open>Long\<close> is modulo \<open>2 ^ 64\<close>.\<close>

definition wrap64 :: "int \<Rightarrow> int" where
  "wrap64 x = (x + 9223372036854775808) mod 18446744073709551616 - 9223372036854775808"

section \<open>Uuid\<close>

datatype Uuid = Uuid (uuid_raw: buffer)

definition new_Uuid :: "buffer \<Rightarrow> Uuid result" where
  "new_Uuid b =
     (if length b \<noteq> 16 then throw (TypeError ''You must provide a buffer containing 16 bytes'') else return (Uuid b))"

text \<open>\<open>Buffer.from(s, "hex")\<close> and \<open>toString("hex")\<close>.\<close>

fun hex_to_bytes :: "string \<Rightarrow> buffer" where
  "hex_to_bytes (a # b # s) =
     (case (hex_digit a, hex_digit b) of
        (Some x, Some y) \<Rightarrow> to_byte (int (16 * x + y)) # hex_to_bytes s
      | _ \<Rightarrow> [])"
| "hex_to_bytes _ = []"

definition bytes_to_hex :: "buffer \<Rightarrow> string" where
  "bytes_to_hex b = concat (map (\<lambda>w. [hex_char (unat w div 16), hex_char (unat w mod 16)]) b)"

text \<open>\<open>uuidRegex\<close>: groups of 8, 4, 4, 4 and 12 hexadecimal digits between hyphens.\<close>

definition uuidRegex :: "string \<Rightarrow> bool" where
  "uuidRegex s \<longleftrightarrow> length s = 36
     \<and> list_all (\<lambda>i. if i \<in> {8, 13, 18, 23} then s ! i = CHR ''-'' else hex_digit (s ! i) \<noteq> None) [0..<36]"

definition Uuid_fromString :: "string \<Rightarrow> Uuid result" where
  "Uuid_fromString value =
     (if uuidRegex value then new_Uuid (hex_to_bytes (filter (\<lambda>c. c \<noteq> CHR ''-'') value))
      else throw (GenericError ''Invalid string representation of Uuid, it should be in the 00000000-0000-0000-0000-000000000000 format''))"

definition Uuid_equals :: "Uuid \<Rightarrow> Uuid \<Rightarrow> bool" where
  "Uuid_equals a b \<longleftrightarrow> buffer_compare (uuid_raw a) (uuid_raw b) = 0"

definition Uuid_toString :: "Uuid \<Rightarrow> string" where
  "Uuid_toString u =
     (let h = bytes_to_hex (uuid_raw u)
      in substring h 0 8 @ ''-'' @ substring h 8 12 @ ''-'' @ substring h 12 16 @ ''-'' @ substring h 16 20 @ ''-'' @ drop 20 h)"

section \<open>InetAddress\<close>

datatype InetAddress = InetAddress (inet_buffer: buffer)

definition new_InetAddress :: "buffer \<Rightarrow> InetAddress result" where
  "new_InetAddress b =
     (if length b \<noteq> 4 \<and> length b \<noteq> 16 then throw (TypeError ''The ip address must contain 4 or 16 bytes'')
      else return (InetAddress b))"

definition InetAddress_version :: "InetAddress \<Rightarrow> nat" where
  "InetAddress_version a = (if length (inet_buffer a) = 4 then 4 else 6)"

text \<open>\<open>s.split(c)\<close>.\<close>

fun split_at :: "char \<Rightarrow> string \<Rightarrow> string list" where
  "split_at c [] = [[]]"
| "split_at c (d # s) = (if d = c then [] # split_at c s else (case split_at c s of [] \<Rightarrow> [[d]] | w # ws \<Rightarrow> (d # w) # ws))"

text \<open>\<open>ipv4Pattern\<close>: four numbers from 0 to 255 without leading zeros, with a dot between them (the
  word boundary after the optional dot leaves no other choice).\<close>

definition octet :: "string \<Rightarrow> bool" where
  "octet s \<longleftrightarrow> s \<noteq> [] \<and> length s \<le> 3 \<and> list_all is_digit s \<and> (length s = 1 \<or> hd s \<noteq> CHR ''0'') \<and> digits_val s \<le> 255"

definition ipv4Pattern :: "string \<Rightarrow> bool" where
  "ipv4Pattern s \<longleftrightarrow> length (split_at (CHR ''.'') s) = 4 \<and> list_all octet (split_at (CHR ''.'') s)"

definition ipv6Pattern :: "string \<Rightarrow> bool" where
  "ipv6Pattern s \<longleftrightarrow> s \<noteq> [] \<and> list_all (\<lambda>c. hex_digit c \<noteq> None \<or> c = CHR '':'' \<or> c = CHR ''.'') s"

text \<open>\<open>parseInt(s, 16)\<close> of text without blanks, sign or \<open>0x\<close>.\<close>

definition parseInt16 :: "string \<Rightarrow> int option" where
  "parseInt16 s =
     (let ds = takeWhile (\<lambda>c. hex_digit c \<noteq> None) s
      in if ds = [] then None else Some (foldl (\<lambda>n c. n * 16 + int (the (hex_digit c))) 0 ds))"

text \<open>The variables of the loop of \<open>fromString\<close>. The buffer comes from \<open>allocBufferUnsafe\<close>: its first
  contents are whatever the memory held.\<close>

record inet_scan =
  is_buffer :: buffer
  is_filling :: int
  is_applied :: bool
  is_offset :: nat

text \<open>\<open>buffer.writeUInt16BE(x, offset)\<close>, \<open>buffer.writeUInt8\<close> and \<open>buffer[offset] = 0\<close>; \<open>NaN\<close> is stored as 0.\<close>

definition put_uint :: "nat \<Rightarrow> int option \<Rightarrow> inet_scan \<Rightarrow> inet_scan result" where
  "put_uint n x s =
     (let v = (case x of None \<Rightarrow> 0 | Some v \<Rightarrow> v); bs = be_bytes n v
      in if v < 0 \<or> v \<ge> 256 ^ n then throw (RangeError ''The value of value is out of range'')
         else if is_offset s + n > length (is_buffer s) then throw (RangeError ''The value of offset is out of range'')
         else return (s\<lparr>is_buffer := take (is_offset s) (is_buffer s) @ bs @ drop (is_offset s + n) (is_buffer s), is_offset := is_offset s + n\<rparr>))"

fun put_all :: "string list \<Rightarrow> inet_scan \<Rightarrow> inet_scan result" where
  "put_all [] s = return s"
| "put_all (v # vs) s = rbind (put_uint 1 (Some (digits_val v)) s) (put_all vs)"

fun put_zeros :: "nat \<Rightarrow> inet_scan \<Rightarrow> inet_scan" where
  "put_zeros 0 s = s"
| "put_zeros (Suc n) s = put_zeros n (s\<lparr>is_buffer := (is_buffer s)[is_offset s := 0], is_offset := is_offset s + 1\<rparr>)"

fun inet_loop :: "bool \<Rightarrow> string list \<Rightarrow> inet_scan \<Rightarrow> inet_scan result" where
  "inet_loop embedded [] s = return s"
| "inet_loop embedded (item # items) s =
     (if item \<noteq> [] then
        if embedded \<and> items = [] then put_all (split_at (CHR ''.'') item) s
        else rbind (put_uint 2 (parseInt16 item) s) (inet_loop embedded items)
      else
        let s = (if is_applied s then s\<lparr>is_filling := 1\<rparr> else s);
            s = s\<lparr>is_applied := True\<rparr>
        in inet_loop embedded items (put_zeros (2 * nat (is_filling s)) s))"

definition isValidIPv4Mapped :: "buffer \<Rightarrow> bool" where
  "isValidIPv4Mapped b \<longleftrightarrow> list_all (\<lambda>w. w = 0) (take (length b - 6) b) \<and> b ! 10 = 255 \<and> b ! 11 = 255"

definition not_inet :: "string \<Rightarrow> 'a result" where
  "not_inet value = throw (TypeError (''Value could not be parsed as InetAddress: '' @ value))"

definition InetAddress_fromString :: "buffer \<Rightarrow> string \<Rightarrow> InetAddress result" where
  "InetAddress_fromString memory value =
     (if value = [] then new_InetAddress [0, 0, 0, 0]
      else if ipv4Pattern value then new_InetAddress (map (\<lambda>v. to_byte (digits_val v)) (split_at (CHR ''.'') value))
      else if \<not> ipv6Pattern value then not_inet value
      else
        let parts = split_at (CHR '':'') value
        in if length parts < 3 then not_inet value
           else
             let embedded = ipv4Pattern (last parts);
                 filling = 8 - int (length parts) + 1;
                 filling = (if embedded then filling - 1 else filling)
             in rbind (inet_loop embedded parts \<lparr>is_buffer = memory, is_filling = filling, is_applied = False, is_offset = 0\<rparr>) (\<lambda>s.
                if embedded \<and> \<not> isValidIPv4Mapped (is_buffer s)
                then throw (TypeError ''Only IPv4-Mapped IPv6 addresses are allowed as IPv6 address with embedded IPv4 address'')
                else new_InetAddress (is_buffer s)))"

definition InetAddress_equals :: "InetAddress \<Rightarrow> InetAddress \<Rightarrow> bool" where
  "InetAddress_equals a b \<longleftrightarrow> length (inet_buffer a) = length (inet_buffer b) \<and> inet_buffer a = inet_buffer b"

text \<open>\<open>toString\<close>: the scan for the longest run of zero groups, whose \<open>checkLongest\<close> forgets the start of
  a run only when the run is the longest so far.\<close>

record zero_scan =
  zs_start :: int
  zs_len :: int
  zs_longest :: int

definition checkLongest :: "int \<Rightarrow> zero_scan \<Rightarrow> zero_scan" where
  "checkLongest i s =
     (if zs_start s \<ge> 0 \<and> i - zs_start s > zs_len s
      then s\<lparr>zs_len := i - zs_start s, zs_longest := zs_start s, zs_start := - 1\<rparr>
      else s)"

fun zero_groups :: "buffer \<Rightarrow> int \<Rightarrow> int \<Rightarrow> zero_scan \<Rightarrow> zero_scan" where
  "zero_groups (a # b # r) i n s =
     (if a = 0 \<and> b = 0 then
        let s = (if zs_start s < 0 then s\<lparr>zs_start := i\<rparr> else s);
            s = (if i = n - 2 then checkLongest (i + 2) s else s)
        in zero_groups r (i + 2) n s
      else zero_groups r (i + 2) n (checkLongest i s))"
| "zero_groups _ i n s = s"

text \<open>A group in hexadecimal, without leading zeros.\<close>

fun show_hex :: "nat \<Rightarrow> string" where
  "show_hex n = (if n < 16 then [hex_char n] else show_hex (n div 16) @ [hex_char (n mod 16)])"

declare show_hex.simps [simp del]

fun inet_groups :: "buffer \<Rightarrow> int \<Rightarrow> int \<Rightarrow> int \<Rightarrow> string \<Rightarrow> string" where
  "inet_groups (a # b # r) h start len address =
     (if h = start then inet_groups r (h + 2) start len (address @ '':'')
      else if h < start + len \<and> h > start then inet_groups r (h + 2) start len address
      else
        let address = (if length address > 0 then address @ '':'' else address)
        in inet_groups r (h + 2) start len (address @ show_hex (unat a * 256 + unat b)))"
| "inet_groups _ h start len address = address"

definition InetAddress_toString :: "InetAddress \<Rightarrow> string" where
  "InetAddress_toString a =
     (let b = inet_buffer a
      in if length b = 4 then join ''.'' (map (\<lambda>w. show_nat (unat w)) b)
         else
           let s = zero_groups b 0 (int (length b)) \<lparr>zs_start = - 1, zs_len = 0, zs_longest = - 1\<rparr>;
               address = inet_groups b 0 (zs_longest s) (zs_len s) []
           in if address \<noteq> [] \<and> last address = CHR '':'' then address @ '':'' else address)"

definition InetAddress_toString_as :: "string option \<Rightarrow> InetAddress \<Rightarrow> string" where
  "InetAddress_toString_as encoding a =
     (if encoding = Some ''hex'' then bytes_to_hex (inet_buffer a) else InetAddress_toString a)"

section \<open>LocalTime\<close>

text \<open>A time of day by its nanoseconds since midnight, a \<open>Long\<close>.\<close>

datatype LocalTime = LocalTime (lt_value: int)

definition maxNanos :: int where
  "maxNanos = 86399999999999"

definition new_LocalTime :: "int \<Rightarrow> LocalTime result" where
  "new_LocalTime totalNanoseconds =
     (if totalNanoseconds < 0 \<or> totalNanoseconds > maxNanos then throw (GenericError ''Total nanoseconds out of range'')
      else return (LocalTime totalNanoseconds))"

text \<open>\<open>#getParts\<close>: hours, minutes, seconds and nanoseconds.\<close>

definition LocalTime_getParts :: "LocalTime \<Rightarrow> int \<times> int \<times> int \<times> int" where
  "LocalTime_getParts t =
     (let secs = lt_value t div 1000000000;
          nanos = lt_value t - secs * 1000000000;
          (mins, secs) = (if secs \<ge> 60 then (secs div 60, secs mod 60) else (0, secs));
          (hours, mins) = (if mins \<ge> 60 then (mins div 60, mins mod 60) else (0, mins))
      in (hours, mins, secs, nanos))"

definition LocalTime_fromMilliseconds :: "int option \<Rightarrow> int option \<Rightarrow> LocalTime result" where
  "LocalTime_fromMilliseconds milliseconds nanoseconds =
     (case (milliseconds, nanoseconds) of
        (Some ms, Some ns) \<Rightarrow> new_LocalTime (wrap64 (wrap64 (ms * 1000000) + ns))
      | _ \<Rightarrow> throw (TypeError ''Cannot create local time from NaN''))"

text \<open>Comparisons with \<open>NaN\<close> are false, sums and products with it are \<open>NaN\<close>.\<close>

definition outside :: "int option \<Rightarrow> int \<Rightarrow> bool" where
  "outside x hi = (case x of None \<Rightarrow> False | Some v \<Rightarrow> v < 0 \<or> v \<ge> hi)"

definition add_scaled :: "int option \<Rightarrow> int option \<Rightarrow> int \<Rightarrow> int option" where
  "add_scaled acc x k = (case (acc, x) of (Some a, Some v) \<Rightarrow> Some (a + v * k) | _ \<Rightarrow> None)"

text \<open>\<open>parseInt(parts[i], 10)\<close>; a missing part is \<open>undefined\<close>, which is \<open>NaN\<close>.\<close>

definition part_int :: "string list \<Rightarrow> nat \<Rightarrow> int option" where
  "part_int parts i = (if i < length parts then parseInt10 (parts ! i) else None)"

definition LocalTime_fromString :: "string \<Rightarrow> LocalTime result" where
  "LocalTime_fromString value =
     (let parts = split_at (CHR '':'') value
      in if length parts > 3 then throw (TypeError ''Invalid value format'')
         else
           let hour = part_int parts 0; minutes = part_int parts 1
           in if outside hour 24 then throw (TypeError ''Invalid hour'')
              else if outside minutes 60 then throw (TypeError ''Invalid minute'')
              else
                let millis = add_scaled (add_scaled (Some 0) hour 3600000) minutes 60000
                in if length parts = 3 then
                     let secParts = split_at (CHR ''.'') (parts ! 2);
                         seconds = part_int secParts 0
                     in if outside seconds 60 then throw (TypeError ''Invalid second'')
                        else
                          let millis = add_scaled millis seconds 1000
                          in if length secParts = 2 then
                               if length (secParts ! 1) > 9 then throw (TypeError ''Invalid format for local time constructor. Cannot have sub nanosecond precision.'')
                               else
                                 let nanos = secParts ! 1 @ replicate (9 - length (secParts ! 1)) (CHR ''0'')
                                 in LocalTime_fromMilliseconds millis (Some (case parseInt10 nanos of None \<Rightarrow> 0 | Some n \<Rightarrow> n))
                             else LocalTime_fromMilliseconds millis (Some 0)
                   else LocalTime_fromMilliseconds millis (Some 0))"

definition LocalTime_fromBuffer :: "buffer \<Rightarrow> LocalTime result" where
  "LocalTime_fromBuffer b = rbind (Long_fromBuffer b) new_LocalTime"

definition LocalTime_toBuffer :: "LocalTime \<Rightarrow> buffer result" where
  "LocalTime_toBuffer t = Long_toBuffer (lt_value t)"

definition LocalTime_compare :: "LocalTime \<Rightarrow> LocalTime \<Rightarrow> int" where
  "LocalTime_compare a b = long_compare (lt_value a) (lt_value b)"

definition LocalTime_equals :: "LocalTime \<Rightarrow> LocalTime \<Rightarrow> bool" where
  "LocalTime_equals a b \<longleftrightarrow> LocalTime_compare a b = 0"

text \<open>\<open>formatTime\<close>. The loop looks for the first of the final zeros of the nine digits, from the end
  down to index 1.\<close>

definition two_digits :: "int \<Rightarrow> string" where
  "two_digits n = (if n < 10 then ''0'' @ show_int n else show_int n)"

fun last_position :: "string \<Rightarrow> nat \<Rightarrow> nat option \<Rightarrow> nat option" where
  "last_position nanos 0 found = found"
| "last_position nanos (Suc i) found =
     (if nanos ! Suc i \<noteq> CHR ''0'' then found else last_position nanos i (Some (Suc i)))"

definition formatTime :: "int \<times> int \<times> int \<times> int \<Rightarrow> string" where
  "formatTime values =
     (case values of (h, m, s, ns) \<Rightarrow>
        let result = two_digits h @ '':'' @ two_digits m @ '':'' @ two_digits s
        in if ns > 0 then
             let nanos = show_int ns;
                 nanos = replicate (9 - length nanos) (CHR ''0'') @ nanos
             in case last_position nanos (length nanos - 1) None of
                  None \<Rightarrow> result @ ''.'' @ nanos
                | Some i \<Rightarrow> result @ ''.'' @ take i nanos
           else result)"

definition LocalTime_toString :: "LocalTime \<Rightarrow> string" where
  "LocalTime_toString t = formatTime (LocalTime_getParts t)"

section \<open>LocalDate\<close>

text \<open>The UTC calendar of \<open>Date\<close> in days since the epoch: the day of a date and the date of a day, in
  eras of 400 years that begin on March 1. A \<open>Date\<close> reaches 100000000 days either way.\<close>

definition day_of_date :: "int \<Rightarrow> int \<Rightarrow> int \<Rightarrow> int" where
  "day_of_date y m d =
     (let y = (if m \<le> 2 then y - 1 else y);
          era = y div 400; yoe = y mod 400;
          doy = (153 * (if m > 2 then m - 3 else m + 9) + 2) div 5 + d - 1;
          doe = yoe * 365 + yoe div 4 - yoe div 100 + doy
      in era * 146097 + doe - 719468)"

definition date_of_day :: "int \<Rightarrow> int \<times> int \<times> int" where
  "date_of_day z =
     (let z = z + 719468; era = z div 146097; doe = z mod 146097;
          yoe = (doe - doe div 1460 + doe div 36524 - doe div 146096) div 365;
          y = yoe + era * 400;
          doy = doe - (365 * yoe + yoe div 4 - yoe div 100);
          mp = (5 * doy + 2) div 153;
          d = doy - (153 * mp + 2) div 5 + 1;
          m = (if mp < 10 then mp + 3 else mp - 9)
      in (if m \<le> 2 then y + 1 else y, m, d))"

definition valid_day :: "int \<Rightarrow> bool" where
  "valid_day n \<longleftrightarrow> \<bar>n\<bar> \<le> 100000000"

text \<open>\<open>#date\<close> is always at midnight, so its day says it all; an invalid \<open>Date\<close> is \<open>None\<close>. \<open>#value\<close> is set
  only then.\<close>

record LocalDate =
  ld_date :: "int option"
  ld_raw :: "int option"

definition isLeapYear :: "int \<Rightarrow> bool" where
  "isLeapYear year \<longleftrightarrow> year mod 4 = 0 \<and> year mod 100 \<noteq> 0 \<or> year mod 400 = 0"

definition daysInAMonth :: "int list" where
  "daysInAMonth = [31, 29, 31, 30, 31, 30, 31, 31, 30, 31, 30, 31]"

text \<open>The two forms of the constructor. A \<open>NaN\<close> argument passes every check and gives an invalid
  \<open>Date\<close>, which the last check refuses.\<close>

definition new_LocalDate_ymd :: "int option \<Rightarrow> int option \<Rightarrow> int option \<Rightarrow> LocalDate result" where
  "new_LocalDate_ymd year month day =
     (if (case month of None \<Rightarrow> True | Some m \<Rightarrow> m < 1 \<or> m > 12) then throw (GenericError ''Month should be value between 1 and 12'')
      else
        let m = the month; dmax = daysInAMonth ! nat (m - 1)
        in if (case day of None \<Rightarrow> False | Some d \<Rightarrow> d < 1 \<or> d > dmax) then throw (GenericError ''Day should be value between 1 and the length of the month'')
           else if m = 2 \<and> day = Some 29 \<and> (case year of None \<Rightarrow> True | Some y \<Rightarrow> \<not> isLeapYear y)
           then throw (GenericError ''Day should be value between 1 and 28 (non leap year)'')
           else
             case (year, day) of
               (Some y, Some d) \<Rightarrow>
                 if valid_day (day_of_date y m d) then return \<lparr>ld_date = Some (day_of_date y m d), ld_raw = None\<rparr>
                 else throw (GenericError ''does not form a valid ES5 date!'')
             | _ \<Rightarrow> throw (GenericError ''does not form a valid ES5 date!''))"

definition new_LocalDate_days :: "int \<Rightarrow> LocalDate result" where
  "new_LocalDate_days n =
     (if n < - 2147483648 \<or> n > 2147483647
      then throw (GenericError ''You must provide a valid value for days since epoch (-2147483648 <= value <= 2147483647).'')
      else if valid_day n then return \<lparr>ld_date = Some n, ld_raw = None\<rparr> else return \<lparr>ld_date = None, ld_raw = Some n\<rparr>)"

text \<open>\<open>utcNow\<close> at a given reading of \<open>Date.now()\<close>, in milliseconds.\<close>

definition LocalDate_utcNow :: "int \<Rightarrow> LocalDate result" where
  "LocalDate_utcNow now = new_LocalDate_days now"

definition LocalDate_days :: "LocalDate \<Rightarrow> int" where
  "LocalDate_days d = (case ld_date d of Some n \<Rightarrow> n | None \<Rightarrow> (case ld_raw d of Some n \<Rightarrow> n | None \<Rightarrow> 0))"

definition LocalDate_fromString :: "string \<Rightarrow> LocalDate result" where
  "LocalDate_fromString value =
     (if length (filter (\<lambda>c. c = CHR ''-'') value) \<ge> 2 then
        let neg = starts_with value ''-'';
            parts = split_at (CHR ''-'') (if neg then drop 1 value else value)
        in new_LocalDate_ymd (map_option (\<lambda>y. if neg then - y else y) (part_int parts 0)) (part_int parts 1) (part_int parts 2)
      else
        let digits = (if starts_with value ''-'' then drop 1 value else value)
        in if digits \<noteq> [] \<and> list_all is_digit digits
           then new_LocalDate_days (if starts_with value ''-'' then - digits_val digits else digits_val digits)
           else throw (GenericError (''Invalid input '' @ quoted value @ ''.'')))"

definition LocalDate_fromBuffer :: "buffer \<Rightarrow> LocalDate result" where
  "LocalDate_fromBuffer b = rbind (readUInt32BE b 0) (\<lambda>n. new_LocalDate_days (n - 2147483648))"

definition LocalDate_toBuffer :: "LocalDate \<Rightarrow> buffer result" where
  "LocalDate_toBuffer d = writeUInt32BE (LocalDate_days d + 2147483648)"

definition LocalDate_compare :: "LocalDate \<Rightarrow> LocalDate \<Rightarrow> int" where
  "LocalDate_compare a b =
     (let diff = LocalDate_days a * 86400000 - LocalDate_days b * 86400000
      in if diff < 0 then - 1 else if diff > 0 then 1 else 0)"

definition LocalDate_equals :: "LocalDate \<Rightarrow> LocalDate \<Rightarrow> bool" where
  "LocalDate_equals a b \<longleftrightarrow> LocalDate_compare a b = 0"

definition fillZeros :: "string \<Rightarrow> nat \<Rightarrow> string" where
  "fillZeros value amount = (if length value \<ge> amount then value else replicate (amount - length value) (CHR ''0'') @ value)"

definition LocalDate_toString :: "LocalDate \<Rightarrow> string" where
  "LocalDate_toString ld =
     (case ld_date ld of
        None \<Rightarrow> show_int (LocalDate_days ld)
      | Some n \<Rightarrow>
          (case date_of_day n of (y, m, d) \<Rightarrow>
             (if y < 0 then ''-'' @ fillZeros (show_int (- y)) 4 else fillZeros (show_int y) 4)
             @ ''-'' @ fillZeros (show_int m) 2 @ ''-'' @ fillZeros (show_int d) 2))"

section \<open>BigDecimal\<close>

record BigDecimal =
  bd_intVal :: Integer
  bd_scale :: int

definition BigDecimal_fromBuffer :: "buffer \<Rightarrow> BigDecimal result" where
  "BigDecimal_fromBuffer b =
     rbind (readInt32BE b 0) (\<lambda>scale. return \<lparr>bd_intVal = Integer_fromBuffer (drop 4 b), bd_scale = scale\<rparr>)"

definition BigDecimal_toBuffer :: "BigDecimal \<Rightarrow> buffer result" where
  "BigDecimal_toBuffer value =
     rbind (writeInt32BE (bd_scale value)) (\<lambda>scaleBuffer. return (scaleBuffer @ Integer_toBuffer (bd_intVal value)))"

definition BigDecimal_fromString :: "(string \<Rightarrow> Integer result) \<Rightarrow> string \<Rightarrow> BigDecimal result" where
  "BigDecimal_fromString Integer_fromString value0 =
     (if value0 = [] then throw (TypeError ''Invalid null or undefined value'')
      else
        let value = trim value0; scaleIndex = index_of value (CHR ''.'');
            scale = (if scaleIndex \<ge> 0 then int (length value) - 1 - scaleIndex else 0);
            value = (if scaleIndex \<ge> 0 then take (nat scaleIndex) value @ drop (nat scaleIndex + 1) value else value)
        in rbind (Integer_fromString value) (\<lambda>i. return \<lparr>bd_intVal = i, bd_scale = scale\<rparr>))"

definition BigDecimal_isNegative :: "BigDecimal \<Rightarrow> bool" where
  "BigDecimal_isNegative d = Integer_isNegative (bd_intVal d)"

definition BigDecimal_isZero :: "BigDecimal \<Rightarrow> bool" where
  "BigDecimal_isZero d = Integer_isZero (bd_intVal d)"

text \<open>\<open>subtract\<close> and \<open>add\<close> bring the operand of the lower scale to the other's.\<close>

definition BigDecimal_subtract :: "(int \<Rightarrow> int) \<Rightarrow> BigDecimal \<Rightarrow> BigDecimal \<Rightarrow> BigDecimal" where
  "BigDecimal_subtract pow10 first other =
     (if bd_scale first = bd_scale other then
        \<lparr>bd_intVal = Integer_subtract (bd_intVal first) (bd_intVal other), bd_scale = bd_scale first\<rparr>
      else if bd_scale first < bd_scale other then
        let diffScale = bd_scale other - bd_scale first
        in \<lparr>bd_intVal = Integer_subtract (Integer_multiply (bd_intVal first) (Integer_fromNumber (pow10 diffScale))) (bd_intVal other),
            bd_scale = bd_scale other\<rparr>
      else
        let diffScale = bd_scale first - bd_scale other
        in \<lparr>bd_intVal = Integer_subtract (bd_intVal first) (Integer_multiply (bd_intVal other) (Integer_fromNumber (pow10 diffScale))),
            bd_scale = bd_scale first\<rparr>)"

definition BigDecimal_add :: "(int \<Rightarrow> int) \<Rightarrow> BigDecimal \<Rightarrow> BigDecimal \<Rightarrow> BigDecimal" where
  "BigDecimal_add pow10 first other =
     (if bd_scale first = bd_scale other then
        \<lparr>bd_intVal = Integer_add (bd_intVal first) (bd_intVal other), bd_scale = bd_scale first\<rparr>
      else if bd_scale first < bd_scale other then
        let diffScale = bd_scale other - bd_scale first
        in \<lparr>bd_intVal = Integer_add (Integer_multiply (bd_intVal first) (Integer_fromNumber (pow10 diffScale))) (bd_intVal other),
            bd_scale = bd_scale other\<rparr>
      else
        let diffScale = bd_scale first - bd_scale other
        in \<lparr>bd_intVal = Integer_add (bd_intVal first) (Integer_multiply (bd_intVal other) (Integer_fromNumber (pow10 diffScale))),
            bd_scale = bd_scale first\<rparr>)"

definition BigDecimal_compare :: "(int \<Rightarrow> int) \<Rightarrow> BigDecimal \<Rightarrow> BigDecimal \<Rightarrow> int" where
  "BigDecimal_compare pow10 a other =
     (let diff = BigDecimal_subtract pow10 a other
      in if BigDecimal_isNegative diff then - 1 else if BigDecimal_isZero diff then 0 else 1)"

definition BigDecimal_equals :: "(int \<Rightarrow> int) \<Rightarrow> BigDecimal \<Rightarrow> BigDecimal \<Rightarrow> bool" where
  "BigDecimal_equals pow10 a other \<longleftrightarrow> BigDecimal_compare pow10 a other = 0"

definition BigDecimal_notEquals :: "(int \<Rightarrow> int) \<Rightarrow> BigDecimal \<Rightarrow> BigDecimal \<Rightarrow> bool" where
  "BigDecimal_notEquals pow10 a other \<longleftrightarrow> \<not> BigDecimal_equals pow10 a other"

definition BigDecimal_greaterThan :: "(int \<Rightarrow> int) \<Rightarrow> BigDecimal \<Rightarrow> BigDecimal \<Rightarrow> bool" where
  "BigDecimal_greaterThan pow10 a other \<longleftrightarrow> BigDecimal_compare pow10 a other = 1"

definition BigDecimal_toString :: "(Integer \<Rightarrow> string) \<Rightarrow> BigDecimal \<Rightarrow> string" where
  "BigDecimal_toString Integer_toString d =
     (let intString = Integer_toString (bd_intVal d)
      in if bd_scale d = 0 then intString
         else
           let negative = starts_with intString ''-'';
               signSymbol = (if negative then ''-'' else []);
               intString = (if negative then drop 1 intString else intString);
               separatorIndex = int (length intString) - bd_scale d;
               intString = (if separatorIndex \<le> 0 then replicate (nat (- separatorIndex + 1)) (CHR ''0'') @ intString else intString);
               separatorIndex = int (length intString) - bd_scale d
           in signSymbol @ substr intString 0 separatorIndex @ ''.'' @ drop (nat separatorIndex) intString)"

end
