(* ===== verification/Cql_Scalars_Correct.thy ===== *)
theory Cql_Scalars_Correct
  imports Cql_Scalars Type_Names_Correct Big_Integer_Bytes Big_Integer_Mul Complex_Main
begin

text \<open>
  The scalar classes: what is written as bytes or text is read back, what \<open>InetAddress\<close> gets wrong,
  and the arithmetic of \<open>BigDecimal\<close>.
\<close>

section \<open>Bytes\<close>

lemma uint32_mod: "0 \<le> to_uint32 x" "to_uint32 x < 4294967296" "to_uint32 x = x mod 4294967296"
  using to_uint32_range[of x] by (simp_all add: to_uint32_def)

lemma Long_toBuffer_eq: "Long_toBuffer v = Inr (be_bytes 8 v)"
proof -
  have "be_bytes 4 (to_uint32 x) = be_bytes 4 x" for x
    by (rule be_bytes_cong) (simp add: uint32_mod(3))
  moreover have "be_bytes 8 v = be_bytes 4 (v div 4294967296) @ be_bytes 4 v" using be_bytes_add[of 4 4 v] by simp
  moreover have "writeUInt32BE (to_uint32 x) = Inr (be_bytes 4 (to_uint32 x))" for x
    using uint32_mod(1,2)[of x] by (simp add: writeUInt32BE_def write_be_def)
  ultimately show ?thesis by (simp add: Long_toBuffer_def)
qed

lemma read_run_at: "length a = off \<Longrightarrow> length r = n \<Longrightarrow> read_run (a @ r @ b) off n = Inr r"
  by (simp add: read_run_def)

lemma Long_fromBuffer_bytes:
  assumes "is_int64 v" shows "Long_fromBuffer (be_bytes 8 v @ r) = Inr v"
proof -
  let ?h = "be_bytes 4 (v div 4294967296)" and ?l = "be_bytes 4 v"
  have b: "be_bytes 8 v = ?h @ ?l" using be_bytes_add[of 4 4 v] by simp
  have "readInt32BE (be_bytes 8 v @ r) 0 = Inr (v div 4294967296)"
  proof -
    have "- 2147483648 \<le> v div 4294967296" using assms by (intro zdiv_ge) (simp_all add: is_int64_def)
    moreover have "v div 4294967296 < 2147483648" using assms by (intro zdiv_less) (simp_all add: is_int64_def)
    ultimately show ?thesis using readInt32BE_be_bytes[of "v div 4294967296" "?l @ r"] by (simp add: b is_int32_def)
  qed
  moreover have "readInt32BE (be_bytes 8 v @ r) 4 = Inr (to_int32 v)"
    using read_run_at[of ?h 4 ?l 4 r] by (simp add: b readInt32BE_def be_val_be_bytes)
  ultimately show ?thesis by (simp add: Long_fromBuffer_def uint32_mod(3) div_mult_mod_eq)
qed

lemma LocalTime_bytes:
  assumes "0 \<le> lt_value t" "lt_value t \<le> maxNanos"
  shows "LocalTime_toBuffer t = Inr (be_bytes 8 (lt_value t)) \<and> LocalTime_fromBuffer (be_bytes 8 (lt_value t) @ r) = Inr t"
proof -
  have "is_int64 (lt_value t)" using assms by (simp add: is_int64_def maxNanos_def)
  then show ?thesis using assms
    by (cases t) (simp add: LocalTime_toBuffer_def LocalTime_fromBuffer_def Long_toBuffer_eq Long_fromBuffer_bytes new_LocalTime_def)
qed

definition LocalDate_wf :: "LocalDate \<Rightarrow> bool" where
  "LocalDate_wf d \<longleftrightarrow>
     (case ld_date d of
        Some n \<Rightarrow> valid_day n \<and> ld_raw d = None
      | None \<Rightarrow> (\<exists>n. ld_raw d = Some n \<and> \<not> valid_day n \<and> is_int32 n))"

lemma LocalDate_bytes:
  assumes "LocalDate_wf d"
  shows "LocalDate_toBuffer d = Inr (be_bytes 4 (LocalDate_days d + 2147483648))
    \<and> LocalDate_fromBuffer (be_bytes 4 (LocalDate_days d + 2147483648) @ r) = Inr d"
proof -
  have range: "- 2147483648 \<le> LocalDate_days d \<and> LocalDate_days d \<le> 2147483647"
    using assms by (auto simp: LocalDate_wf_def LocalDate_days_def valid_day_def is_int32_def split: option.splits)
  have "LocalDate_fromBuffer (be_bytes 4 (LocalDate_days d + 2147483648) @ r) = new_LocalDate_days (LocalDate_days d)"
    using range read_run_append[of "be_bytes 4 (LocalDate_days d + 2147483648)" 4 r]
    by (simp add: LocalDate_fromBuffer_def readUInt32BE_def be_val_be_bytes)
  moreover have "new_LocalDate_days (LocalDate_days d) = Inr d"
    using assms range by (cases d) (auto simp: new_LocalDate_days_def LocalDate_wf_def LocalDate_days_def split: option.splits)
  ultimately show ?thesis using range by (simp add: LocalDate_toBuffer_def writeUInt32BE_def write_be_def)
qed

lemma LocalDate_constructors:
  "new_LocalDate_days n = Inr d \<Longrightarrow> LocalDate_wf d" "new_LocalDate_ymd y m e = Inr d \<Longrightarrow> LocalDate_wf d"
  by (auto simp: new_LocalDate_days_def new_LocalDate_ymd_def LocalDate_wf_def is_int32_def Let_def split: if_splits option.splits)

text \<open>\<open>utcNow\<close> takes milliseconds for days, so it throws at every time after January 25, 1970.\<close>

lemma LocalDate_utcNow_throws: "2147483647 < now \<Longrightarrow> \<exists>e. LocalDate_utcNow now = Inl e"
  by (simp add: LocalDate_utcNow_def new_LocalDate_days_def)

lemma BigDecimal_bytes:
  assumes "Integer_wf (bd_intVal d)" "is_int32 (bd_scale d)"
  shows "BigDecimal_toBuffer d = Inr (be_bytes 4 (bd_scale d) @ Integer_toBuffer (bd_intVal d))
    \<and> BigDecimal_fromBuffer (be_bytes 4 (bd_scale d) @ Integer_toBuffer (bd_intVal d)) = Inr d"
  using assms by (simp add: BigDecimal_toBuffer_def BigDecimal_fromBuffer_def writeInt32BE_def write_be_def is_int32_def
      readInt32BE_be_bytes fromBuffer_toBuffer)

section \<open>Text\<close>

subsection \<open>Uuid\<close>

lemma unat_byte_split: "unat (w :: byte) div 16 < 16" "unat (w :: byte) mod 16 < 16" "16 * (unat w div 16) + unat w mod 16 = unat w"
  using unsigned_less[of w, where ?'a = nat] by simp_all

lemma hex_to_bytes_to_hex: "hex_to_bytes (bytes_to_hex b) = b"
  by (induction b) (simp_all add: bytes_to_hex_def hex_digit_hex_char unat_byte_split to_byte_def del: of_nat_add of_nat_mult)

lemma bytes_to_hex_digit: "c \<in> set (bytes_to_hex b) \<Longrightarrow> hex_digit c \<noteq> None \<and> c \<noteq> CHR ''-''"
proof -
  assume "c \<in> set (bytes_to_hex b)"
  then obtain w :: byte where "c = hex_char (unat w div 16) \<or> c = hex_char (unat w mod 16)" by (auto simp: bytes_to_hex_def)
  then obtain n where n: "n < 16" "c = hex_char n" using unat_byte_split(1,2)[of w] by blast
  then show ?thesis using hex_digit_hex_char[of n] by (auto simp: hex_digit_def)
qed

lemma length_bytes_to_hex: "length (bytes_to_hex b) = 2 * length b"
  by (induction b) (simp_all add: bytes_to_hex_def)

lemma Uuid_text:
  assumes "length (uuid_raw u) = 16"
  shows "Uuid_fromString (Uuid_toString u) = Inr u"
proof -
  define h where "h = bytes_to_hex (uuid_raw u)"
  have len: "length h = 32" by (simp add: h_def length_bytes_to_hex assms)
  have dig: "hex_digit (h ! i) \<noteq> None \<and> h ! i \<noteq> CHR ''-''" if "i < 32" for i
    using bytes_to_hex_digit[of "h ! i" "uuid_raw u"] that len by (simp add: h_def)
  define s where "s = take 8 h @ ''-'' @ take 4 (drop 8 h) @ ''-'' @ take 4 (drop 12 h) @ ''-'' @ take 4 (drop 16 h) @ ''-'' @ drop 20 h"
  have s: "Uuid_toString u = s" by (simp add: Uuid_toString_def s_def substring_def Let_def flip: h_def)
  have lens: "length s = 36" by (simp add: s_def len)
  have "s ! i = (if i \<in> {8, 13, 18, 23} then CHR ''-''
      else h ! (if i < 8 then i else if i < 13 then i - 1 else if i < 18 then i - 2 else if i < 23 then i - 3 else i - 4))" if "i < 36" for i
    using that by (auto simp: s_def len nth_append nth_Cons')
  then have "uuidRegex s" using dig lens by (auto simp: uuidRegex_def list_all_iff)
  moreover have "filter (\<lambda>c. c \<noteq> CHR ''-'') s = h"
  proof -
    have nodash: "filter (\<lambda>c. c \<noteq> CHR ''-'') x = x" if "set x \<subseteq> set h" for x
      using that bytes_to_hex_digit[of _ "uuid_raw u"] by (auto simp: h_def filter_id_conv)
    have "take 8 h @ take 4 (drop 8 h) @ take 4 (drop 12 h) @ take 4 (drop 16 h) @ drop 20 h = h"
      using append_take_drop_id[of 8 h] append_take_drop_id[of 4 "drop 8 h"] append_take_drop_id[of 4 "drop 12 h"]
        append_take_drop_id[of 4 "drop 16 h"] by simp
    then show ?thesis
      using nodash[OF set_take_subset] nodash[OF set_drop_subset] nodash[OF order_trans[OF set_take_subset set_drop_subset]]
      by (simp add: s_def)
  qed
  ultimately show ?thesis using assms
    unfolding s Uuid_fromString_def by (simp add: h_def hex_to_bytes_to_hex new_Uuid_def)
qed

subsection \<open>Splitting\<close>

lemma split_at_Cons: "c \<notin> set a \<Longrightarrow> split_at c (a @ c # b) = a # split_at c b"
  by (induction a) auto

lemma split_at_none: "c \<notin> set a \<Longrightarrow> split_at c a = [a]"
  by (induction a) auto

lemmas split_at_simps = split_at_Cons split_at_none

lemma digits_not: "list_all is_digit s \<Longrightarrow> \<not> is_digit c \<Longrightarrow> c \<notin> set s"
  by (auto simp: list_all_iff)

lemma not_digits: "\<not> is_digit (CHR '':'')" "\<not> is_digit (CHR ''.'')"
  by (simp_all add: is_digit_def)

subsection \<open>InetAddress\<close>

lemma length_show_nat: "n < 10 ^ Suc k \<Longrightarrow> length (show_nat n) \<le> Suc k"
proof (induction k arbitrary: n)
  case 0
  then show ?case by (subst show_nat.simps) simp
next
  case (Suc k)
  then have "n div 10 < 10 ^ Suc k" by (simp add: less_mult_imp_div_less)
  then show ?case using Suc.IH[of "n div 10"] by (subst show_nat.simps) simp
qed

lemma hd_show_nat: "0 < n \<Longrightarrow> hd (show_nat n) \<noteq> CHR ''0''"
proof (induction n rule: show_nat.induct)
  case (1 n)
  have "digit_char n \<noteq> CHR ''0''" if "n < 10"
  proof
    assume "digit_char n = CHR ''0''"
    then have "(of_char (digit_char n) :: nat) = of_char (CHR ''0'')" by (rule arg_cong)
    then show False using that 1(2) by (simp add: digit_char_val)
  qed
  then show ?case using 1 by (subst show_nat.simps) (simp add: hd_append)
qed

lemma octet_show: "octet (show_nat (unat (w :: byte)))"
proof -
  have n: "unat w < 256" using unsigned_less[of w, where ?'a = nat] by simp
  moreover have "length (show_nat 0) = 1" by (subst show_nat.simps) simp
  moreover have "length (show_nat (unat w)) \<le> 3" using length_show_nat[of "unat w" 2] n by simp
  moreover have "int (unat w) \<le> 255" using n by linarith
  ultimately show ?thesis using hd_show_nat[of "unat w"] show_nat_digits[of "unat w"]
    unfolding octet_def by (cases "unat w = 0") (simp_all only: digits_val_show_nat show_nat_nonempty simp_thms)
qed

lemma split_v4: "split_at (CHR ''.'') (join ''.'' [show_nat a, show_nat b, show_nat c, show_nat d]) = [show_nat a, show_nat b, show_nat c, show_nat d]"
  using digits_not[OF show_nat_digits not_digits(2)] by (simp add: split_at_simps)

lemma to_byte_unat: "to_byte (int (unat w)) = w"
  by (simp add: to_byte_def)

lemma InetAddress_v4_text:
  assumes "length (inet_buffer a) = 4"
  shows "InetAddress_fromString memory (InetAddress_toString a) = Inr a"
proof -
  obtain p q r s where b: "inet_buffer a = [p, q, r, s]"
    using assms by (auto simp: length_Suc_conv numeral_eq_Suc)
  have t: "InetAddress_toString a = join ''.'' (map (\<lambda>w. show_nat (unat w)) [p, q, r, s])"
    by (simp add: InetAddress_toString_def b)
  have s: "split_at (CHR ''.'') (InetAddress_toString a) = map (\<lambda>w. show_nat (unat w)) [p, q, r, s]"
    using split_v4 by (simp add: t)
  then have "ipv4Pattern (InetAddress_toString a)" using octet_show by (simp add: ipv4Pattern_def)
  moreover have "InetAddress_toString a \<noteq> []" by (simp add: t)
  ultimately show ?thesis unfolding InetAddress_fromString_def s
    using b by (cases a) (simp add: new_InetAddress_def to_byte_unat)
qed

subsection \<open>LocalTime\<close>

lemma two_digits_ok:
  assumes "0 \<le> n"
  shows "parseInt10 (two_digits n) = Some n" "list_all is_digit (two_digits n)"
proof -
  have d: "list_all is_digit (show_int n)" "digits_val (show_int n) = n" using assms show_nat_digits by (simp_all add: show_int_def)
  have "is_digit (CHR ''0'')" by (simp add: is_digit_def)
  then show t: "list_all is_digit (two_digits n)" using d(1) by (simp add: two_digits_def)
  have "digits_val (two_digits n) = n" using d(2) by (simp add: two_digits_def digits_val_def)
  moreover have "two_digits n \<noteq> []" using assms by (simp add: two_digits_def show_int_def)
  ultimately show "parseInt10 (two_digits n) = Some n" using trim_digits(3)[OF t] by simp
qed

lemma last_position_zeros:
  assumes "last_position s k found = Some i" "found = None \<longrightarrow> k + 1 = length s" "\<And>j. found = Some j \<Longrightarrow> j = k + 1" 
    "\<forall>j>k. j < length s \<longrightarrow> s ! j = CHR ''0''" "k < length s"
  shows "0 < i \<and> i \<le> length s \<and> (\<forall>j\<ge>i. j < length s \<longrightarrow> s ! j = CHR ''0'')"
  using assms
proof (induction s k found rule: last_position.induct)
  case (1 s found)
  then show ?case by (cases s) auto
next
  case (2 s k found)
  show ?case
  proof (cases "s ! Suc k = CHR ''0''")
    case True
    then have "\<forall>j>k. j < length s \<longrightarrow> s ! j = CHR ''0''" using 2(5) by (metis Suc_lessI)
    then show ?thesis using 2 True by simp
  next
    case False
    then show ?thesis using 2 by auto
  qed
qed

lemma digits_val_zeros: "digits_val (replicate z (CHR ''0'') @ s) = digits_val s"
proof -
  have "digits_val (replicate z (CHR ''0'')) = 0" by (induction z) (simp_all add: digits_val_def)
  then show ?thesis by (simp add: digits_val_def)
qed


lemma nanos_text:
  assumes "0 < n" "n < 1000000000" "nanos = replicate (9 - length (show_int n)) (CHR ''0'') @ show_int n"
  obtains t where "(case last_position nanos (length nanos - 1) None of None \<Rightarrow> ''.'' @ nanos | Some i \<Rightarrow> ''.'' @ take i nanos) = ''.'' @ t"
    "t @ replicate (9 - length t) (CHR ''0'') = nanos" "length t \<le> 9" "list_all is_digit t" "parseInt10 nanos = Some n" "t \<noteq> []"
proof -
  have si: "show_int n = show_nat (nat n)" "digits_val (show_int n) = n" using assms(1) by (simp_all add: show_int_def)
  have "length (show_int n) \<le> 9" using length_show_nat[of "nat n" 8] assms(1,2) by (simp add: si nat_less_iff)
  then have len: "length nanos = 9" by (simp add: assms(3))
  have "is_digit (CHR ''0'')" by (simp add: is_digit_def)
  then have dig: "list_all is_digit nanos" using show_nat_digits by (auto simp: assms(3) si list_all_iff)
  have "digits_val nanos = n" using assms(1) by (simp add: assms(3) digits_val_zeros si)
  then have val: "parseInt10 nanos = Some n" using trim_digits(3)[OF dig] len by force
  show ?thesis
  proof (cases "last_position nanos (length nanos - 1) None")
    case None
    then show ?thesis using that[of nanos] len dig val by force
  next
    case (Some i)
    then have i: "0 < i" "i \<le> 9" "\<forall>j\<ge>i. j < 9 \<longrightarrow> nanos ! j = CHR ''0''"
      using last_position_zeros[OF Some] len by auto
    have "drop i nanos = replicate (9 - i) (CHR ''0'')" using i by (intro nth_equalityI) (simp_all add: len)
    then have "take i nanos @ replicate (9 - i) (CHR ''0'') = nanos" by (metis append_take_drop_id)
    moreover have "list_all is_digit (take i nanos)" using dig by (auto simp: list_all_iff dest: in_set_takeD)
    ultimately show ?thesis using that[of "take i nanos"] i len val Some by (cases nanos) auto
  qed
qed

lemma LocalTime_parts:
  assumes "0 \<le> v" "v \<le> maxNanos"
  obtains h m s n where "LocalTime_getParts (LocalTime v) = (h, m, s, n)"
    "v = ((h * 60 + m) * 60 + s) * 1000000000 + n" "0 \<le> h" "h < 24" "0 \<le> m" "m < 60" "0 \<le> s" "s < 60" "0 \<le> n" "n < 1000000000"
proof -
  define t where "t = v div 1000000000"
  have t: "0 \<le> t" "t < 86400" using assms by (simp_all add: t_def maxNanos_def)
  have n: "v = t * 1000000000 + v mod 1000000000" by (simp add: t_def)
  have "v - t * 1000000000 = v mod 1000000000" using n by linarith
  then have eq: "LocalTime_getParts (LocalTime v) = (t div 60 div 60, t div 60 mod 60, t mod 60, v mod 1000000000)"
    using t by (auto simp: LocalTime_getParts_def Let_def div_pos_pos_trivial simp flip: t_def)
  have "t div 60 div 60 < 24" "(t div 60 div 60 * 60 + t div 60 mod 60) * 60 + t mod 60 = t" using t by simp_all
  then show ?thesis using that[OF eq] n t(1) by simp
qed

lemma LocalTime_text:
  assumes "0 \<le> lt_value t" "lt_value t \<le> maxNanos"
  shows "LocalTime_fromString (LocalTime_toString t) = Inr t"
proof -
  obtain v where v: "t = LocalTime v" by (cases t)
  obtain h m s n where p: "LocalTime_getParts (LocalTime v) = (h, m, s, n)"
    "v = ((h * 60 + m) * 60 + s) * 1000000000 + n" "0 \<le> h" "h < 24" "0 \<le> m" "m < 60" "0 \<le> s" "s < 60" "0 \<le> n" "n < 1000000000"
    using assms v by (auto elim!: LocalTime_parts[of v])
  note ok = two_digits_ok[OF p(3)] two_digits_ok[OF p(5)] two_digits_ok[OF p(7)]
  have new: "LocalTime_fromMilliseconds (Some (h * 3600000 + m * 60000 + s * 1000)) (Some n) = Inr t"
  proof -
    have "(h * 3600000 + m * 60000 + s * 1000) * 1000000 + n = v" unfolding p(2) by simp
    moreover have "0 \<le> h * 3600000 + m * 60000 + s * 1000" "h * 3600000 + m * 60000 + s * 1000 < 86400000" using p by linarith+
    ultimately show ?thesis using assms v by (simp add: LocalTime_fromMilliseconds_def wrap64_def new_LocalTime_def maxNanos_def)
  qed
  have step: "LocalTime_fromString (two_digits h @ '':'' @ two_digits m @ '':'' @ r) =
     (let secParts = split_at (CHR ''.'') r; seconds = part_int secParts 0
      in if outside seconds 60 then throw (TypeError ''Invalid second'')
         else let millis = add_scaled (Some (h * 3600000 + m * 60000)) seconds 1000
           in if length secParts = 2 then
                if length (secParts ! 1) > 9 then throw (TypeError ''Invalid format for local time constructor. Cannot have sub nanosecond precision.'')
                else LocalTime_fromMilliseconds millis (Some (case parseInt10 (secParts ! 1 @ replicate (9 - length (secParts ! 1)) (CHR ''0'')) of None \<Rightarrow> 0 | Some n \<Rightarrow> n))
              else LocalTime_fromMilliseconds millis (Some 0))" if "CHR '':'' \<notin> set r" for r
  proof -
    have "split_at (CHR '':'') (two_digits h @ '':'' @ two_digits m @ '':'' @ r) = [two_digits h, two_digits m, r]"
      using digits_not[OF ok(2) not_digits(1)] digits_not[OF ok(4) not_digits(1)] that by (simp add: split_at_simps)
    then show ?thesis using ok p by (simp add: LocalTime_fromString_def part_int_def outside_def add_scaled_def Let_def)
  qed
  note nos = digits_not[OF ok(6) not_digits(1)] digits_not[OF ok(6) not_digits(2)]
  show ?thesis
  proof (cases "n = 0")
    case True
    then have "LocalTime_toString t = two_digits h @ '':'' @ two_digits m @ '':'' @ two_digits s"
      by (simp add: LocalTime_toString_def v p(1) formatTime_def)
    then show ?thesis using new True ok(5) nos p(7,8)
      by (simp add: step[simplified] split_at_simps part_int_def outside_def add_scaled_def)
  next
    case False
    define nanos where "nanos = replicate (9 - length (show_int n)) (CHR ''0'') @ show_int n"
    obtain u where u: "(case last_position nanos (length nanos - 1) None of None \<Rightarrow> ''.'' @ nanos | Some i \<Rightarrow> ''.'' @ take i nanos) = ''.'' @ u"
      "u @ replicate (9 - length u) (CHR ''0'') = nanos" "length u \<le> 9" "list_all is_digit u" "parseInt10 nanos = Some n" "u \<noteq> []"
      using nanos_text[OF _ p(10) nanos_def] False p(9) by auto
    have "LocalTime_toString t = two_digits h @ '':'' @ two_digits m @ '':'' @ two_digits s @ ''.'' @ u"
      unfolding LocalTime_toString_def v p(1) formatTime_def prod.case Let_def nanos_def[symmetric]
      using u(1) False p(9) by (auto split: option.splits)
    moreover have "CHR '':'' \<notin> set (two_digits s @ ''.'' @ u)" using nos digits_not[OF u(4) not_digits(1)] by simp
    ultimately show ?thesis using new ok(5) nos p(7,8) u(2,3,5) digits_not[OF u(4) not_digits(2)]
      by (simp add: step[simplified] split_at_simps part_int_def outside_def add_scaled_def)
  qed
qed

section \<open>Decimal arithmetic\<close>

text \<open>The number a \<open>BigDecimal\<close> stands for, and the decimals with an intact unscaled value.\<close>

definition BigDecimal_val :: "BigDecimal \<Rightarrow> rat" where
  "BigDecimal_val d = of_int (Integer_val (bd_intVal d)) * 10 powi (- bd_scale d)"

lemma rescale:
  assumes "Integer_wf i" "pow10 k = 10 ^ nat k" "0 \<le> k" "k \<le> 9"
  shows "Integer_wf (Integer_multiply i (Integer_fromNumber (pow10 k)))
    \<and> Integer_val (Integer_multiply i (Integer_fromNumber (pow10 k))) = Integer_val i * 10 ^ nat k"
proof -
  have "(10::int) ^ nat k \<le> 10 ^ 9" using assms(4) by (intro power_increasing) simp_all
  then have "\<bar>(10::int) ^ nat k\<bar> < 4294967296" by simp
  then show ?thesis using multiply_correct[of i "Integer_fromNumber (pow10 k)"] Integer_fromNumber_correct[of "pow10 k"] assms by simp
qed

lemma powi_shift: "(of_int (v * 10 ^ nat (s - t)) :: rat) * 10 powi (- s) = of_int v * 10 powi (- t)" if "t \<le> s"
proof -
  have "(10 :: rat) ^ nat (s - t) = 10 powi (s - t)" using that by (simp add: power_int_def)
  moreover have "(10 :: rat) powi (s - t) * 10 powi (- s) = 10 powi (- t)" by (simp flip: power_int_add)
  ultimately show ?thesis by simp
qed

lemma BigDecimal_arith:
  assumes wf: "Integer_wf (bd_intVal a)" "Integer_wf (bd_intVal b)"
    and near: "\<bar>bd_scale a - bd_scale b\<bar> \<le> 9" and pow: "\<And>k. 0 \<le> k \<Longrightarrow> k \<le> 9 \<Longrightarrow> pow10 k = 10 ^ nat k"
  shows "Integer_wf (bd_intVal (BigDecimal_subtract pow10 a b))" "BigDecimal_val (BigDecimal_subtract pow10 a b) = BigDecimal_val a - BigDecimal_val b"
    "Integer_wf (bd_intVal (BigDecimal_add pow10 a b))" "BigDecimal_val (BigDecimal_add pow10 a b) = BigDecimal_val a + BigDecimal_val b"
proof -
  consider "bd_scale a = bd_scale b" | "bd_scale a < bd_scale b" | "bd_scale b < bd_scale a" by linarith
  then have "(Integer_wf (bd_intVal (BigDecimal_subtract pow10 a b)) \<and> BigDecimal_val (BigDecimal_subtract pow10 a b) = BigDecimal_val a - BigDecimal_val b)
    \<and> Integer_wf (bd_intVal (BigDecimal_add pow10 a b)) \<and> BigDecimal_val (BigDecimal_add pow10 a b) = BigDecimal_val a + BigDecimal_val b"
  proof cases
    case 1
    then show ?thesis using Integer_subtract_correct[OF wf] Integer_add_correct[OF wf]
      by (simp add: BigDecimal_subtract_def BigDecimal_add_def BigDecimal_val_def left_diff_distrib distrib_right)
  next
    case 2
    let ?k = "bd_scale b - bd_scale a"
    note r = rescale[of "bd_intVal a" pow10 ?k, OF wf(1) pow]
    have k: "0 \<le> ?k" "?k \<le> 9" using 2 near by linarith+
    have "of_int (Integer_val (bd_intVal a) * 10 ^ nat ?k) * (10::rat) powi (- bd_scale b) = BigDecimal_val a"
      using powi_shift[of "bd_scale a" "bd_scale b"] 2 by (simp add: BigDecimal_val_def)
    then show ?thesis using 2 r[OF k k] wf(2) Integer_subtract_correct[OF _ wf(2)] Integer_add_correct[OF _ wf(2)]
      by (simp add: BigDecimal_subtract_def BigDecimal_add_def BigDecimal_val_def left_diff_distrib distrib_right Let_def)
  next
    case 3
    let ?k = "bd_scale a - bd_scale b"
    note r = rescale[of "bd_intVal b" pow10 ?k, OF wf(2) pow]
    have k: "0 \<le> ?k" "?k \<le> 9" using 3 near by linarith+
    have "of_int (Integer_val (bd_intVal b) * 10 ^ nat ?k) * (10::rat) powi (- bd_scale a) = BigDecimal_val b"
      using powi_shift[of "bd_scale b" "bd_scale a"] 3 by (simp add: BigDecimal_val_def)
    then show ?thesis using 3 r[OF k k] wf(1) Integer_subtract_correct[OF wf(1)] Integer_add_correct[OF wf(1)]
      by (simp add: BigDecimal_subtract_def BigDecimal_add_def BigDecimal_val_def left_diff_distrib distrib_right Let_def)
  qed
  then show "Integer_wf (bd_intVal (BigDecimal_subtract pow10 a b))" "BigDecimal_val (BigDecimal_subtract pow10 a b) = BigDecimal_val a - BigDecimal_val b"
    "Integer_wf (bd_intVal (BigDecimal_add pow10 a b))" "BigDecimal_val (BigDecimal_add pow10 a b) = BigDecimal_val a + BigDecimal_val b"
    by blast+
qed

lemma BigDecimal_sign:
  assumes "Integer_wf (bd_intVal d)"
  shows "BigDecimal_isNegative d \<longleftrightarrow> BigDecimal_val d < 0" "BigDecimal_isZero d \<longleftrightarrow> BigDecimal_val d = 0"
proof -
  have "(0 :: rat) < 10 powi (- bd_scale d)" by simp
  then have "\<not> (10 :: rat) powi (- bd_scale d) < 0" "(10 :: rat) powi (- bd_scale d) \<noteq> 0" by linarith+
  then show "BigDecimal_isNegative d \<longleftrightarrow> BigDecimal_val d < 0" "BigDecimal_isZero d \<longleftrightarrow> BigDecimal_val d = 0"
    using assms by (simp_all add: BigDecimal_isNegative_def BigDecimal_isZero_def BigDecimal_val_def Integer_isNegative_iff Integer_isZero_iff
        mult_less_0_iff)
qed

text \<open>A negative scale, as in \<open>5E2\<close>, prints as if it were zero.\<close>

lemma BigDecimal_toString_negative_scale:
  assumes "Integer_toString (bd_intVal d) = ''5''" "bd_scale d = - 2"
  shows "BigDecimal_toString Integer_toString d = ''5.''"
  using assms by (simp add: BigDecimal_toString_def substr_def)

section \<open>Properties\<close>

text \<open>C39: The text forms of the scalar classes are read back: \<open>Uuid.fromString\<close> of \<open>toString\<close>,
  \<open>InetAddress.fromString\<close> of the \<open>toString\<close> of an IPv4 address and \<open>LocalTime.fromString\<close> of
  \<open>toString\<close> are the identity, whatever the unsafely allocated memory held.\<close>

theorem scalar_text_round_trip:
  assumes "length (uuid_raw u) = 16" "length (inet_buffer a) = 4" "0 \<le> lt_value t" "lt_value t \<le> maxNanos"
  shows "Uuid_fromString (Uuid_toString u) = Inr u
    \<and> InetAddress_fromString memory (InetAddress_toString a) = Inr a
    \<and> LocalTime_fromString (LocalTime_toString t) = Inr t"
  using assms by (simp add: Uuid_text InetAddress_v4_text LocalTime_text)

theorem scalar_text_round_trip_witness:
  "Uuid_fromString (Uuid_toString (Uuid [0, 1, 2, 3, 4, 5, 6, 7, 8, 9, 10, 11, 12, 13, 14, 255]))
     = Inr (Uuid [0, 1, 2, 3, 4, 5, 6, 7, 8, 9, 10, 11, 12, 13, 14, 255])
   \<and> InetAddress_fromString [] (InetAddress_toString (InetAddress [127, 0, 0, 1])) = Inr (InetAddress [127, 0, 0, 1])
   \<and> LocalTime_fromString (LocalTime_toString (LocalTime 86399000000120)) = Inr (LocalTime 86399000000120)"
  by (rule scalar_text_round_trip) (simp_all add: maxNanos_def)

text \<open>Two defects of \<open>InetAddress\<close>. \<open>toString\<close> prints the different addresses \<open>1:0:0:2:0:3:4:5\<close> and
  \<open>1:0:0:2:0:0:0:5\<close> alike, because \<open>checkLongest\<close> keeps the start of a run of zeros that is not the
  longest. \<open>fromString\<close> accepts \<open>1:2:3\<close>, which is no address, and returns ten bytes of
  uninitialised memory in it.\<close>

theorem InetAddress_defects:
  "InetAddress_toString (InetAddress [0, 1, 0, 0, 0, 0, 0, 2, 0, 0, 0, 3, 0, 4, 0, 5]) = ''1:0:0:2::5''
   \<and> InetAddress_toString (InetAddress [0, 1, 0, 0, 0, 0, 0, 2, 0, 0, 0, 0, 0, 0, 0, 5]) = ''1:0:0:2::5''
   \<and> InetAddress_fromString ([a, b, c, d, e, f, m6, m7, m8, m9, m10, m11, m12, m13, m14, m15]) ''1:2:3''
       = Inr (InetAddress [0, 1, 0, 2, 0, 3, m6, m7, m8, m9, m10, m11, m12, m13, m14, m15])"
proof (intro conjI)
  show "InetAddress_toString (InetAddress [0, 1, 0, 0, 0, 0, 0, 2, 0, 0, 0, 3, 0, 4, 0, 5]) = ''1:0:0:2::5''" by code_simp
  show "InetAddress_toString (InetAddress [0, 1, 0, 0, 0, 0, 0, 2, 0, 0, 0, 0, 0, 0, 0, 5]) = ''1:0:0:2::5''" by code_simp
  show "InetAddress_fromString ([a, b, c, d, e, f, m6, m7, m8, m9, m10, m11, m12, m13, m14, m15]) ''1:2:3''
       = Inr (InetAddress [0, 1, 0, 2, 0, 3, m6, m7, m8, m9, m10, m11, m12, m13, m14, m15])" by code_simp
qed

text \<open>\<open>add\<close>, \<open>subtract\<close> and \<open>compare\<close> of \<open>BigDecimal\<close> are those of the decimal numbers whenever the
  scales differ by at most nine, given that \<open>Math.pow(10, n)\<close> is exact that far: different scales of
  one number compare equal.\<close>

theorem BigDecimal_arith_exact:
  assumes "Integer_wf (bd_intVal a)" "Integer_wf (bd_intVal b)" "\<bar>bd_scale a - bd_scale b\<bar> \<le> 9"
    and "\<And>k. 0 \<le> k \<Longrightarrow> k \<le> 9 \<Longrightarrow> pow10 k = 10 ^ nat k"
  shows "BigDecimal_val (BigDecimal_add pow10 a b) = BigDecimal_val a + BigDecimal_val b
    \<and> BigDecimal_val (BigDecimal_subtract pow10 a b) = BigDecimal_val a - BigDecimal_val b
    \<and> BigDecimal_compare pow10 a b = (if BigDecimal_val a < BigDecimal_val b then - 1 else if BigDecimal_val a = BigDecimal_val b then 0 else 1)"
  using BigDecimal_arith[OF assms] by (simp add: BigDecimal_compare_def BigDecimal_sign Let_def)

theorem BigDecimal_arith_exact_witness:
  "BigDecimal_compare (\<lambda>k. 10 ^ nat k) \<lparr>bd_intVal = \<lparr>ibits = [15], isign = 0\<rparr>, bd_scale = 1\<rparr> \<lparr>bd_intVal = \<lparr>ibits = [150], isign = 0\<rparr>, bd_scale = 2\<rparr> = 0"
proof -
  let ?a = "\<lparr>bd_intVal = \<lparr>ibits = [15], isign = 0\<rparr>, bd_scale = 1\<rparr>" and ?b = "\<lparr>bd_intVal = \<lparr>ibits = [150], isign = 0\<rparr>, bd_scale = 2\<rparr>"
  have "BigDecimal_val ?a = BigDecimal_val ?b" by (simp add: BigDecimal_val_def Integer_val_def power_int_def power2_eq_square)
  moreover have "BigDecimal_compare (\<lambda>k. 10 ^ nat k) ?a ?b
      = (if BigDecimal_val ?a < BigDecimal_val ?b then - 1 else if BigDecimal_val ?a = BigDecimal_val ?b then 0 else 1)"
    by (rule BigDecimal_arith_exact[THEN conjunct2, THEN conjunct2]) (simp_all add: Integer_wf_def is_sign_def is_int32_def)
  ultimately show ?thesis by simp
qed

end
