(* ===== verification/JS_Number.thy ===== *)
theory JS_Number
  imports JS_Buffer
begin

text \<open>
  JavaScript's \<open>Number\<close>, an IEEE 754 double, and its conversions to and from bytes. A number that is
  an integer is \<open>JInt\<close>; the other doubles (fractions, the infinities and minus zero) are \<open>JReal\<close>
  with sign, biased exponent and fraction; \<open>JNaN\<close> is the one not-a-number.
\<close>

datatype js_number = JInt int | JReal bool int int | JNaN

section \<open>Doubles\<close>

text \<open>The number of binary digits.\<close>

function bit_len :: "int \<Rightarrow> nat" where
  "bit_len n = (if n \<le> 0 then 0 else Suc (bit_len (n div 2)))"
  by pat_completeness auto

termination
  by (relation "measure nat") auto

declare bit_len.simps [simp del]

definition double_fields :: "js_number \<Rightarrow> bool \<times> int \<times> int" where
  "double_fields x =
     (case x of
        JInt n \<Rightarrow>
          if n = 0 then (False, 0, 0)
          else
            let a = \<bar>n\<bar>; k = bit_len a - 1;
                m = (if k \<le> 52 then a * 2 ^ (52 - k) else a div 2 ^ (k - 52))
            in (n < 0, int k + 1023, m - 2 ^ 52)
      | JReal s e f \<Rightarrow> (s, e, f)
      | JNaN \<Rightarrow> (False, 2047, 2 ^ 51))"

text \<open>The number \<open>m * 2 ^ x\<close> with its sign, as an integer if it is one.\<close>

definition integral :: "bool \<Rightarrow> int \<Rightarrow> int \<Rightarrow> int option" where
  "integral s m x =
     (let sign = (\<lambda>n. if s then - n else n)
      in if m = 0 then (if s then None else Some 0)
         else if 0 \<le> x then Some (sign (m * 2 ^ nat x))
         else if m mod 2 ^ nat (- x) = 0 then Some (sign (m div 2 ^ nat (- x))) else None)"

definition number_of_fields :: "bool \<Rightarrow> int \<Rightarrow> int \<Rightarrow> js_number" where
  "number_of_fields s e f =
     (if e = 2047 then if f = 0 then JReal s e f else JNaN
      else
        case integral s (if e = 0 then f else 2 ^ 52 + f) (max e 1 - 1075) of
          Some n \<Rightarrow> JInt n
        | None \<Rightarrow> JReal s e f)"

definition writeDoubleBE :: "js_number \<Rightarrow> buffer" where
  "writeDoubleBE x = (case double_fields x of (s, e, f) \<Rightarrow> be_bytes 8 ((if s then 2 ^ 63 else 0) + e * 2 ^ 52 + f))"

definition readDoubleBE :: "buffer \<Rightarrow> nat \<Rightarrow> js_number result" where
  "readDoubleBE b off =
     rbind (read_run b off 8) (\<lambda>r.
       let v = be_val r
       in Inr (number_of_fields (2 ^ 63 \<le> v) (v div 2 ^ 52 mod 2048) (v mod 2 ^ 52)))"

section \<open>Single precision\<close>

text \<open>Rounding to the nearest multiple of \<open>2 ^ d\<close>, ties to even.\<close>

definition round_shift :: "int \<Rightarrow> nat \<Rightarrow> int" where
  "round_shift m d =
     (let q = m div 2 ^ d; r = m mod 2 ^ d; h = 2 ^ d div 2
      in if r > h \<or> r = h \<and> 0 < d \<and> odd q then q + 1 else q)"

text \<open>The 32 bits that \<open>writeFloatBE\<close> stores: the double rounded to 24 significant digits, fewer below
  the smallest normal single, or infinity.\<close>

definition float_bits :: "js_number \<Rightarrow> int" where
  "float_bits x =
     (case double_fields x of (s, e, f) \<Rightarrow>
        (if s then 2 ^ 31 else 0) +
        (if e = 2047 then if f = 0 then 255 * 2 ^ 23 else 255 * 2 ^ 23 + 2 ^ 22
         else
           let m = (if e = 0 then f else 2 ^ 52 + f); y = max e 1;
               q = max (y + 29) 926;
               bits = (q - 926) * 2 ^ 23 + round_shift m (nat (q - y))
           in max 0 (min bits (255 * 2 ^ 23))))"

definition writeFloatBE :: "js_number \<Rightarrow> buffer" where
  "writeFloatBE x = be_bytes 4 (float_bits x)"

definition number_of_float :: "int \<Rightarrow> js_number" where
  "number_of_float v =
     (let s = 2 ^ 31 \<le> v; e = v div 2 ^ 23 mod 256; f = v mod 2 ^ 23;
          m = (if e = 0 then f else 2 ^ 23 + f); y = max e 1; k = bit_len m - 1
      in if e = 255 then if f = 0 then JReal s 2047 0 else JNaN
         else
           case integral s m (y - 150) of
             Some n \<Rightarrow> JInt n
           | None \<Rightarrow> if m = 0 then JReal s 0 0 else JReal s (int k + y + 873) (m * 2 ^ (52 - k) - 2 ^ 52))"

definition readFloatBE :: "buffer \<Rightarrow> nat \<Rightarrow> js_number result" where
  "readFloatBE b off = rbind (read_run b off 4) (\<lambda>r. Inr (number_of_float (be_val r)))"

section \<open>Integers\<close>

text \<open>A finite number without its fraction, and \<open>x > n\<close>, \<open>x < n\<close> against an integer.\<close>

definition trunc :: "js_number \<Rightarrow> int" where
  "trunc x =
     (case x of
        JInt n \<Rightarrow> n
      | JReal s e f \<Rightarrow>
          if e = 2047 then 0
          else (let n = (if e = 0 then f else 2 ^ 52 + f) div 2 ^ nat (1075 - max e 1) in if s then - n else n)
      | JNaN \<Rightarrow> 0)"

definition above :: "js_number \<Rightarrow> int \<Rightarrow> bool" where
  "above x n =
     (case x of
        JInt k \<Rightarrow> n < k
      | JReal s e f \<Rightarrow> if e = 2047 then \<not> s else (if s then n < trunc x else n \<le> trunc x)
      | JNaN \<Rightarrow> False)"

definition below :: "js_number \<Rightarrow> int \<Rightarrow> bool" where
  "below x n =
     (case x of
        JInt k \<Rightarrow> k < n
      | JReal s e f \<Rightarrow> if e = 2047 then s else (if s then trunc x \<le> n \<and> \<not> (e = 0 \<and> f = 0 \<and> n = 0) else trunc x < n)
      | JNaN \<Rightarrow> False)"

text \<open>Node's \<open>writeInt32BE(x)\<close> and the like: range checked on the number, then truncated.\<close>

definition write_number :: "nat \<Rightarrow> int \<Rightarrow> int \<Rightarrow> js_number \<Rightarrow> buffer result" where
  "write_number n lo hi x =
     (if above x hi \<or> below x lo then Inl (RangeError ''The value of value is out of range'')
      else Inr (be_bytes n (trunc x)))"

section \<open>Facts\<close>

lemma bit_len_bounds: "0 < n \<Longrightarrow> 2 ^ (bit_len n - 1) \<le> n \<and> n < 2 ^ bit_len n \<and> 0 < bit_len n"
proof (induction n rule: bit_len.induct)
  case (1 n)
  have b: "bit_len n = Suc (bit_len (n div 2))" using 1(2) by (subst bit_len.simps) simp
  show ?case
  proof (cases "n div 2 = 0")
    case True
    then have "n = 1" using 1(2) by linarith
    moreover have "bit_len 0 = 0" by (simp add: bit_len.simps)
    ultimately show ?thesis using b by simp
  next
    case False
    then have "0 < n div 2" using 1(2) by linarith
    then obtain k where k: "bit_len (n div 2) = Suc k" and IH: "2 ^ k \<le> n div 2" "n div 2 < 2 ^ Suc k"
      using 1 by (cases "bit_len (n div 2)") auto
    show ?thesis unfolding b k using IH by auto
  qed
qed

text \<open>A double is a number that its fields determine; the integers below \<open>2 ^ 53\<close> are doubles.\<close>

definition is_double :: "js_number \<Rightarrow> bool" where
  "is_double x \<longleftrightarrow>
     (case double_fields x of (s, e, f) \<Rightarrow> 0 \<le> e \<and> e < 2048 \<and> 0 \<le> f \<and> f < 2 ^ 52 \<and> number_of_fields s e f = x)"

lemma small_int_is_double:
  assumes "\<bar>n\<bar> < 2 ^ 53" shows "is_double (JInt n)"
proof (cases "n = 0")
  case True
  then show ?thesis by (simp add: is_double_def double_fields_def number_of_fields_def integral_def)
next
  case False
  define a where "a = \<bar>n\<bar>"
  define k where "k = bit_len a - 1"
  have a: "0 < a" "a < 2 ^ 53" using False assms by (auto simp: a_def)
  have k: "2 ^ k \<le> a" "a < 2 ^ Suc k" using bit_len_bounds[OF a(1)] by (auto simp: k_def)
  have "2 ^ k < (2::int) ^ 53" using k(1) a(2) by linarith
  then have le: "k \<le> 52" by (subst (asm) power_strict_increasing_iff) simp_all
  define m where "m = a * 2 ^ (52 - k)"
  have pow: "2 ^ k * 2 ^ (52 - k) = (2::int) ^ 52" using le by (simp flip: power_add)
  have "2 ^ k * 2 ^ (52 - k) \<le> m" unfolding m_def using k(1) by (rule mult_right_mono) simp
  moreover have "m < 2 ^ Suc k * 2 ^ (52 - k)" unfolding m_def using k(2) by (rule mult_strict_right_mono) simp
  ultimately have m: "2 ^ 52 \<le> m" "m < 2 * 2 ^ 52" using pow by simp_all
  have df: "double_fields (JInt n) = (n < 0, int k + 1023, m - 2 ^ 52)"
    using False le[unfolded k_def] by (simp add: double_fields_def Let_def m_def k_def flip: a_def)
  have shift: "nat (52 - int k) = 52 - k" "max (int k + 1023) 1 - 1075 = - (52 - int k)" using le by simp_all
  have "integral (n < 0) m (- (52 - int k)) = Some n"
  proof (cases "k = 52")
    case True
    then show ?thesis using a False by (simp add: integral_def Let_def m_def) (simp add: a_def)
  next
    case kn: False
    then show ?thesis using le a False shift(1) by (simp add: integral_def Let_def m_def) (simp add: a_def)
  qed
  then have "number_of_fields (n < 0) (int k + 1023) (m - 2 ^ 52) = JInt n"
    unfolding number_of_fields_def shift(2) using le by simp
  then show ?thesis using le m by (simp add: is_double_def df)
qed

lemma write_number_int: "lo \<le> n \<Longrightarrow> n \<le> hi \<Longrightarrow> write_number w lo hi (JInt n) = Inr (be_bytes w n)"
  by (simp add: write_number_def above_def below_def trunc_def)

lemma readDouble_writeDouble:
  assumes "is_double x" shows "readDoubleBE (writeDoubleBE x) 0 = Inr x"
proof -
  obtain s e f where d: "double_fields x = (s, e, f)" by (cases "double_fields x")
  have b: "0 \<le> e" "e < 2048" "0 \<le> f" "f < 2 ^ 52" "number_of_fields s e f = x" using assms d by (auto simp: is_double_def)
  define v where "v = (if s then 2 ^ 63 else 0) + e * 2 ^ 52 + f"
  have ef: "0 \<le> e * 2 ^ 52 + f" "e * 2 ^ 52 + f < 2 ^ 63" using b(1-4) by simp_all
  have "0 \<le> v" "v < 256 ^ 8" using ef by (simp_all add: v_def)
  then have "be_val (be_bytes 8 v) = v" by (simp add: be_val_be_bytes)
  moreover have "2 ^ 63 \<le> v \<longleftrightarrow> s" using ef by (auto simp: v_def)
  moreover have "v div 2 ^ 52 mod 2048 = e" "v mod 2 ^ 52 = f"
  proof -
    have v: "v = ((if s then 2048 else 0) + e) * 2 ^ 52 + f" by (simp add: v_def)
    have "v div 2 ^ 52 = (if s then 2048 else 0) + e" using b(3,4) by (simp add: v)
    then show "v div 2 ^ 52 mod 2048 = e" using b(1,2) by (cases s) simp_all
    show "v mod 2 ^ 52 = f" unfolding v mod_mult_self3 using b(3,4) by simp
  qed
  moreover have "writeDoubleBE x = be_bytes 8 v" by (simp only: writeDoubleBE_def d prod.case v_def)
  ultimately show ?thesis using b(5) read_run_append[of "be_bytes 8 v" 8 "[]"] by (simp add: readDoubleBE_def Let_def)
qed

text \<open>A number of single precision.\<close>

definition is_float :: "js_number \<Rightarrow> bool" where
  "is_float x \<longleftrightarrow> number_of_float (float_bits x) = x"

lemma float_bits_bound: "0 \<le> float_bits x \<and> float_bits x < 2 ^ 32"
proof -
  obtain s e f where d: "double_fields x = (s, e, f)" by (cases "double_fields x")
  have "0 \<le> max 0 (min b (255 * 2 ^ 23))" "max 0 (min b (255 * 2 ^ 23)) \<le> (255 * 2 ^ 23 :: int)" for b by simp_all
  then show ?thesis unfolding float_bits_def d prod.case Let_def by (cases s) (auto intro: order.strict_trans1)
qed

lemma readFloat_writeFloat:
  assumes "is_float x" shows "readFloatBE (writeFloatBE x) 0 = Inr x"
proof -
  have "be_val (be_bytes 4 (float_bits x)) = float_bits x" using float_bits_bound[of x] by (simp add: be_val_be_bytes)
  then show ?thesis using assms read_run_append[of "be_bytes 4 (float_bits x)" 4 "[]"]
    by (simp add: readFloatBE_def writeFloatBE_def is_float_def)
qed

end
