(* ===== verification/JS_Text.thy ===== *)
theory JS_Text
  imports JS_Buffer JS_String
begin

text \<open>
  Text that may hold any Unicode character: a list of code points. Its bytes in UTF-8 and in Node's
  \<open>ascii\<close> encoding, and the reading of bytes as text. The grammars of the driver, which name only
  ASCII characters, read a text through \<open>chars\<close>, which keeps the code points up to 255 and takes every
  other to one character that no grammar names.
\<close>

type_synonym js_text = "nat list"

definition chars :: "js_text \<Rightarrow> string" where
  "chars t = map (\<lambda>n. if n < 256 then char_of n else CHR 0xFF) t"

definition text_of :: "string \<Rightarrow> js_text" where
  "text_of s = map of_char s"

section \<open>UTF-16\<close>

text \<open>The code units of a character, which \<open>length\<close>, indices and the \<open>ascii\<close> encoding count.\<close>

definition utf16_units :: "nat \<Rightarrow> nat list" where
  "utf16_units n =
     (if n < 0x10000 then [n] else [0xD800 + (n - 0x10000) div 0x400, 0xDC00 + (n - 0x10000) mod 0x400])"

definition js_text_length :: "js_text \<Rightarrow> nat" where
  "js_text_length t = length (concat (map utf16_units t))"

section \<open>UTF-8\<close>

text \<open>\<open>Buffer.from(s, "utf8")\<close>; a lone surrogate is written as the replacement character.\<close>

definition utf8_char :: "nat \<Rightarrow> nat list" where
  "utf8_char n =
     (let n = (if 0xD800 \<le> n \<and> n < 0xE000 then 0xFFFD else n)
      in if n < 0x80 then [n]
         else if n < 0x800 then [0xC0 + n div 64, 0x80 + n mod 64]
         else if n < 0x10000 then [0xE0 + n div 4096, 0x80 + n div 64 mod 64, 0x80 + n mod 64]
         else [0xF0 + n div 262144, 0x80 + n div 4096 mod 64, 0x80 + n div 64 mod 64, 0x80 + n mod 64])"

definition utf8_encode :: "js_text \<Rightarrow> buffer" where
  "utf8_encode t = map of_nat (concat (map utf8_char t))"

text \<open>\<open>toString("utf8")\<close>: what a first byte announces (the bytes still missing, its own bits, and the
  range of the next byte), and a character with its continuation. An ill-formed sequence is one
  replacement character up to the byte that does not fit, where reading goes on.\<close>

definition utf8_lead :: "nat \<Rightarrow> (nat \<times> nat \<times> nat \<times> nat) option" where
  "utf8_lead b =
     (if 0xC2 \<le> b \<and> b \<le> 0xDF then Some (1, b - 0xC0, 0x80, 0xBF)
      else if b = 0xE0 then Some (2, 0, 0xA0, 0xBF)
      else if b = 0xED then Some (2, 0xD, 0x80, 0x9F)
      else if 0xE1 \<le> b \<and> b \<le> 0xEF then Some (2, b - 0xE0, 0x80, 0xBF)
      else if b = 0xF0 then Some (3, 0, 0x90, 0xBF)
      else if b = 0xF4 then Some (3, 4, 0x80, 0x8F)
      else if 0xF1 \<le> b \<and> b \<le> 0xF3 then Some (3, b - 0xF0, 0x80, 0xBF)
      else None)"

fun utf8_rest :: "nat \<Rightarrow> nat \<Rightarrow> nat \<Rightarrow> nat \<Rightarrow> nat list \<Rightarrow> nat \<times> nat list" where
  "utf8_rest 0 v lo hi bs = (v, bs)"
| "utf8_rest (Suc need) v lo hi [] = (0xFFFD, [])"
| "utf8_rest (Suc need) v lo hi (b # bs) =
     (if lo \<le> b \<and> b \<le> hi then utf8_rest need (v * 64 + (b - 0x80)) 0x80 0xBF bs else (0xFFFD, b # bs))"

lemma utf8_rest_length: "(c, rest) = utf8_rest need v lo hi bs \<Longrightarrow> length rest \<le> length bs"
  by (induction need v lo hi bs rule: utf8_rest.induct) (auto split: if_splits)

function utf8_chars :: "nat list \<Rightarrow> js_text" where
  "utf8_chars [] = []"
| "utf8_chars (b # bs) =
     (if b < 0x80 then b # utf8_chars bs
      else
        case utf8_lead b of
          None \<Rightarrow> 0xFFFD # utf8_chars bs
        | Some (need, v, lo, hi) \<Rightarrow> (case utf8_rest need v lo hi bs of (c, rest) \<Rightarrow> c # utf8_chars rest))"
  by pat_completeness auto

termination
  by (relation "measure length") (auto simp: less_Suc_eq_le dest: utf8_rest_length)

definition utf8_decode :: "buffer \<Rightarrow> js_text" where
  "utf8_decode b = utf8_chars (map unat b)"

section \<open>ASCII\<close>

text \<open>Node writes the low byte of each code unit and clears the top bit when it reads.\<close>

definition ascii_encode :: "js_text \<Rightarrow> buffer" where
  "ascii_encode t = map of_nat (concat (map utf16_units t))"

definition ascii_decode :: "buffer \<Rightarrow> js_text" where
  "ascii_decode b = map (\<lambda>w. unat w mod 128) b"

section \<open>Round trips\<close>

text \<open>Code points that are characters, not surrogates.\<close>

definition scalar :: "nat \<Rightarrow> bool" where
  "scalar n \<longleftrightarrow> n < 0x110000 \<and> \<not> (0xD800 \<le> n \<and> n < 0xE000)"

lemma utf8_char_bytes: "scalar n \<Longrightarrow> b \<in> set (utf8_char n) \<Longrightarrow> b < 256"
proof -
  assume n: "scalar n" and b: "b \<in> set (utf8_char n)"
  have "n div 64 < 32" if "n < 0x800" using that by simp
  moreover have "n div 4096 < 16" if "n < 0x10000" using that by simp
  moreover have "n div 262144 < 5" using n by (intro less_mult_imp_div_less) (simp add: scalar_def)
  moreover have "m mod 64 < 64" for m :: nat by simp
  ultimately show ?thesis using n b unfolding utf8_char_def scalar_def Let_def
    by (auto split: if_splits intro: less_trans[of _ "128 + 64"] simp: less_imp_le)
qed

lemma digits_64: "(n div 4096 * 64 + n div 64 mod 64) * 64 + n mod 64 = n" for n :: nat
proof -
  have "n div 4096 = n div 64 div 64" using div_mult2_eq[of n 64 64] by simp
  then have "n div 4096 * 64 + n div 64 mod 64 = n div 64" by (simp only: div_mult_mod_eq)
  then show ?thesis by (simp only: div_mult_mod_eq)
qed

lemma utf8_chars_char:
  assumes "scalar n" shows "utf8_chars (utf8_char n @ r) = n # utf8_chars r"
proof -
  have id: "(if 0xD800 \<le> n \<and> n < 0xE000 then 0xFFFD else n) = n" using assms by (simp add: scalar_def)
  consider "n < 0x80" | "0x80 \<le> n" "n < 0x800" | "0x800 \<le> n" "n < 0x10000" | "0x10000 \<le> n" "n < 0x110000"
    using assms by (fastforce simp: scalar_def)
  then show ?thesis
  proof cases
    case 1
    then show ?thesis by (simp add: utf8_char_def id)
  next
    case 2
    then have "2 \<le> n div 64" "n div 64 < 32" by simp_all
    then have "utf8_lead (0xC0 + n div 64) = Some (1, n div 64, 0x80, 0xBF)" by (simp add: utf8_lead_def)
    moreover have "n div 64 * 64 + n mod 64 = n" by simp
    ultimately show ?thesis using 2 by (simp add: utf8_char_def id)
  next
    case 3
    define a b c where "a = n div 4096" and "b = n div 64 mod 64" and "c = n mod 64"
    have "(a * 64 + b) * 64 + c = n" unfolding a_def b_def c_def by (rule digits_64)
    then have n: "n = (a * 64 + b) * 64 + c" "b < 64" "c < 64" "a < 16" using 3 by (simp_all add: a_def b_def c_def less_mult_imp_div_less)
    have "a = 0 \<Longrightarrow> 32 \<le> b" "a = 13 \<Longrightarrow> b < 32" using n 3 assms by (auto simp: scalar_def)
    then have "\<exists>lo hi. utf8_lead (0xE0 + a) = Some (2, a, lo, hi) \<and> lo \<le> 0x80 + b \<and> 0x80 + b \<le> hi"
      using n(2,4) by (auto simp: utf8_lead_def)
    then obtain lo hi where "utf8_lead (0xE0 + a) = Some (2, a, lo, hi)" "lo \<le> 0x80 + b" "0x80 + b \<le> hi" by blast
    moreover have "utf8_char n = [0xE0 + a, 0x80 + b, 0x80 + c]" unfolding utf8_char_def id Let_def a_def b_def c_def using 3 by simp
    ultimately show ?thesis using n(2,3) n(1)[symmetric] by (simp add: numeral_2_eq_2)
  next
    case 4
    define a b c d where "a = n div 262144" and "b = n div 4096 mod 64" and "c = n div 64 mod 64" and "d = n mod 64"
    have "a = n div 4096 div 64" using div_mult2_eq[of n 4096 64] by (simp add: a_def)
    then have "a * 64 + b = n div 4096" unfolding b_def by (simp only: div_mult_mod_eq)
    then have "((a * 64 + b) * 64 + c) * 64 + d = n" unfolding c_def d_def by (simp only: digits_64)
    then have n: "n = ((a * 64 + b) * 64 + c) * 64 + d" "b < 64" "c < 64" "d < 64" "a < 5"
      using 4 by (simp_all add: a_def b_def c_def d_def less_mult_imp_div_less)
    have "a = 0 \<Longrightarrow> 16 \<le> b" "a = 4 \<Longrightarrow> b < 16" using n 4 by auto
    then have "\<exists>lo hi. utf8_lead (0xF0 + a) = Some (3, a, lo, hi) \<and> lo \<le> 0x80 + b \<and> 0x80 + b \<le> hi"
      using n(2,5) by (auto simp: utf8_lead_def)
    then obtain lo hi where "utf8_lead (0xF0 + a) = Some (3, a, lo, hi)" "lo \<le> 0x80 + b" "0x80 + b \<le> hi" by blast
    moreover have "utf8_char n = [0xF0 + a, 0x80 + b, 0x80 + c, 0x80 + d]" unfolding utf8_char_def id Let_def a_def b_def c_def d_def using 4 by simp
    ultimately show ?thesis using n(2,3,4) n(1)[symmetric] by (simp add: numeral_3_eq_3)
  qed
qed

lemma unat_of_nat_bytes: "\<forall>n \<in> set ns. n < 256 \<Longrightarrow> map (unat \<circ> (of_nat :: nat \<Rightarrow> byte)) ns = ns"
  by (induction ns) (simp_all add: unsigned_of_nat take_bit_eq_mod)

lemma utf8_round_trip: "list_all scalar t \<Longrightarrow> utf8_decode (utf8_encode t) = t"
proof -
  assume t: "list_all scalar t"
  then have "\<forall>n \<in> set (concat (map utf8_char t)). n < 256" using utf8_char_bytes by (auto simp: list_all_iff)
  then have "utf8_decode (utf8_encode t) = utf8_chars (concat (map utf8_char t))"
    by (simp only: utf8_decode_def utf8_encode_def map_map unat_of_nat_bytes)
  also have "\<dots> = t" using t by (induction t) (simp_all add: utf8_chars_char)
  finally show ?thesis .
qed

lemma ascii_round_trip: "list_all (\<lambda>n. n < 128) t \<Longrightarrow> ascii_decode (ascii_encode t) = t"
  by (induction t) (simp_all add: ascii_decode_def ascii_encode_def utf16_units_def unsigned_of_nat take_bit_eq_mod)

end
