(* ===== verification/Codec_Values.thy ===== *)
theory Codec_Values
  imports Cql_Scalars JS_Number JS_Text Duration
begin

text \<open>
  The values the codec of \<open>lib/encoder.js\<close> takes and returns, the conversions of the language it applies to
  them, the settings of an \<open>Encoder\<close>, and the type hints.
\<close>

section \<open>Values\<close>

text \<open>One constructor per class of value the codec tells apart. A \<open>Date\<close> is its time in milliseconds,
  \<open>None\<close> if it is invalid. \<open>V_set\<close> and \<open>V_map\<close> are instances of the configured classes, which are taken
  to be the language's \<open>Set\<close> and \<open>Map\<close>; \<open>V_object\<close> is a plain object with its properties in the order of
  enumeration.\<close>

datatype js_value =
    V_undefined
  | V_null
  | V_unset
  | V_bool bool
  | V_number js_number
  | V_bigint int
  | V_string js_text
  | V_buffer buffer
  | V_date "int option"
  | V_long int
  | V_integer Integer
  | V_decimal BigDecimal
  | V_uuid Uuid
  | V_timeuuid Uuid
  | V_inet InetAddress
  | V_local_date LocalDate
  | V_local_time LocalTime
  | V_duration Duration
  | V_date_range
  | V_tuple "js_value list"
  | V_vector "js_value list" "string option"
  | V_float32 "js_number list"
  | V_array "js_value list"
  | V_set "js_value list"
  | V_map "(js_value \<times> js_value) list"
  | V_object "(js_text \<times> js_value) list"

text \<open>A size that exceeds that of every value the codec reaches from a value.\<close>

fun vsize :: "js_value \<Rightarrow> nat" where
  "vsize (V_tuple xs) = 2 + sum_list (map vsize xs)"
| "vsize (V_vector xs t) = 3 + sum_list (map vsize xs)"
| "vsize (V_float32 ns) = 2"
| "vsize (V_array xs) = 2 + sum_list (map vsize xs)"
| "vsize (V_set xs) = 2 + sum_list (map vsize xs)"
| "vsize (V_map ps) = 2 + sum_list (map (\<lambda>p. vsize (fst p) + vsize (snd p)) ps)"
| "vsize (V_object ps) = 2 + sum_list (map (\<lambda>p. vsize (snd p)) ps)"
| "vsize (V_long n) = 2"
| "vsize (V_local_time t) = 3"
| "vsize V_undefined = 0"
| "vsize v = 1"

section \<open>Properties of objects\<close>

text \<open>Enumerable own properties; those of a text, its characters, are not modelled.\<close>

definition index_properties :: "js_value list \<Rightarrow> (js_text \<times> js_value) list" where
  "index_properties xs = zip (map (\<lambda>i. text_of (show_nat i)) [0..<length xs]) xs"

definition own_properties :: "js_value \<Rightarrow> (js_text \<times> js_value) list" where
  "own_properties v =
     (case v of
        V_object ps \<Rightarrow> ps
      | V_array xs \<Rightarrow> index_properties xs
      | V_vector xs t \<Rightarrow> index_properties xs @ [(text_of ''length'', V_number (JInt (int (length xs))))]
      | V_float32 ns \<Rightarrow> index_properties (map V_number ns)
      | V_long n \<Rightarrow> [(text_of ''low'', V_number (JInt (to_int32 n))), (text_of ''high'', V_number (JInt (to_int32 (n div 4294967296)))),
                     (text_of ''unsigned'', V_bool False)]
      | V_local_time t \<Rightarrow> [(text_of ''value'', V_long (lt_value t))]
      | _ \<Rightarrow> [])"

text \<open>\<open>value[name]\<close>; members inherited from a prototype read as \<open>undefined\<close>.\<close>

definition get_property :: "js_value \<Rightarrow> js_text \<Rightarrow> js_value" where
  "get_property v name =
     (case map_of (own_properties v) name of
        Some x \<Rightarrow> x
      | None \<Rightarrow> (case v of V_array xs \<Rightarrow> if name = text_of ''length'' then V_number (JInt (int (length xs))) else V_undefined | _ \<Rightarrow> V_undefined))"

text \<open>\<open>object[key] = value\<close> on a plain object: a new key that is an array index goes before every other
  and is kept in order; \<open>__proto__\<close> names no property.\<close>

definition array_index :: "js_text \<Rightarrow> int option" where
  "array_index k =
     (let s = chars k; n = digits_val s
      in if s \<noteq> [] \<and> list_all is_digit s \<and> (s = ''0'' \<or> hd s \<noteq> CHR ''0'') \<and> n < 4294967295 then Some n else None)"

definition precedes :: "js_text \<Rightarrow> js_text \<Rightarrow> bool" where
  "precedes a b =
     (case (array_index a, array_index b) of (Some i, Some j) \<Rightarrow> i < j | (Some i, None) \<Rightarrow> True | (None, _) \<Rightarrow> False)"

definition set_property :: "(js_text \<times> js_value) list \<Rightarrow> js_text \<Rightarrow> js_value \<Rightarrow> (js_text \<times> js_value) list" where
  "set_property ps k v =
     (if k = text_of ''__proto__'' then ps
      else if k \<in> fst ` set ps then map (\<lambda>p. if fst p = k then (k, v) else p) ps
      else takeWhile (\<lambda>p. \<not> precedes k (fst p)) ps @ (k, v) # dropWhile (\<lambda>p. \<not> precedes k (fst p)) ps)"

section \<open>Sets and maps\<close>

text \<open>The equality of \<open>Set\<close> and \<open>Map\<close> between decoded values: primitives by value, with one zero and one
  \<open>NaN\<close>; objects are all distinct.\<close>

definition same_value_zero :: "js_value \<Rightarrow> js_value \<Rightarrow> bool" where
  "same_value_zero a b =
     (case (a, b) of
        (V_number x, V_number y) \<Rightarrow> (let z = (\<lambda>n. if n = JReal True 0 0 then JInt 0 else n) in z x = z y)
      | (V_string s, V_string t) \<Rightarrow> s = t
      | (V_bool p, V_bool q) \<Rightarrow> p = q
      | (V_bigint m, V_bigint n) \<Rightarrow> m = n
      | (V_null, V_null) \<Rightarrow> True
      | _ \<Rightarrow> False)"

definition set_add :: "js_value list \<Rightarrow> js_value \<Rightarrow> js_value list" where
  "set_add xs v = (if list_ex (same_value_zero v) xs then xs else xs @ [v])"

definition new_Set :: "js_value list \<Rightarrow> js_value" where
  "new_Set xs = V_set (foldl set_add [] xs)"

definition map_set :: "(js_value \<times> js_value) list \<Rightarrow> js_value \<Rightarrow> js_value \<Rightarrow> (js_value \<times> js_value) list" where
  "map_set ps k v =
     (if list_ex (\<lambda>p. same_value_zero k (fst p)) ps
      then map (\<lambda>p. if same_value_zero k (fst p) then (fst p, v) else p) ps else ps @ [(k, v)])"

section \<open>Settings\<close>

text \<open>What the model takes as given: conversions between text and doubles or dates, the local calendar,
  the \<open>Long\<close> library, \<open>Integer.fromString\<close>, the memory behind \<open>allocUnsafe\<close> and the state of the shared
  buffers of \<open>duration.js\<close>, and the enumeration of a text by \<open>encodeMap\<close>.\<close>

record runtime =
  rt_parseFloat :: "string \<Rightarrow> js_number"
  rt_toNumber :: "js_value \<Rightarrow> js_number"
  rt_BigInt :: "js_value \<Rightarrow> int result"
  rt_Date :: "string \<Rightarrow> int option"
  rt_local_date :: "int \<Rightarrow> int \<times> int \<times> int"
  rt_number_text :: "js_number \<Rightarrow> string"
  rt_number_fixed :: "js_number \<Rightarrow> string"
  rt_property_key :: "js_value \<Rightarrow> js_text"
  rt_Integer_fromString :: "string \<Rightarrow> Integer result"
  Long_fromNumber :: "js_number \<Rightarrow> int"
  Long_fromString :: "string \<Rightarrow> int result"
  Long_toNumber :: "int \<Rightarrow> js_number"
  rt_memory :: buffer
  rt_buffers :: reusableBuffers
  rt_text_map :: "js_text \<Rightarrow> type_info \<Rightarrow> buffer result"

record encoder =
  protocolVersion :: int
  useBigIntAsLong :: bool
  useBigIntAsVarint :: bool
  useUndefinedAsUnset :: bool
  copyBuffer :: bool
  set_class :: bool
  map_class :: bool

text \<open>The type argument of \<open>encode\<close>, and what \<open>info\<close> or \<open>info[i]\<close> is when it is used as one.\<close>

datatype hint = No_hint | Code_hint nat | Name_hint string | Type_hint column_info | Bad_hint

definition info_hint :: "type_info \<Rightarrow> hint" where
  "info_hint i = (case i of No_info \<Rightarrow> No_hint | Sub_type t \<Rightarrow> Type_hint t | Type_name s \<Rightarrow> Name_hint s | _ \<Rightarrow> Bad_hint)"

definition info_at :: "type_info \<Rightarrow> nat \<Rightarrow> hint" where
  "info_at i k =
     (case i of
        Sub_types ts \<Rightarrow> if k < length ts then Type_hint (ts ! k) else No_hint
      | Vector_info t d \<Rightarrow>
          if k = 0 then Type_hint t
          else if k = 1 then (case d of None \<Rightarrow> No_hint | Some n \<Rightarrow> Code_hint (nat n))
          else No_hint
      | Type_name s \<Rightarrow> if k < length s then Name_hint [s ! k] else No_hint
      | _ \<Rightarrow> No_hint)"

section \<open>Conversions\<close>

text \<open>\<open>Number(value)\<close>, \<open>BigInt(value)\<close>, \<open>Boolean(value)\<close>, \<open>String(key)\<close> and \<open>value.length\<close>.\<close>

definition ToNumber :: "runtime \<Rightarrow> js_value \<Rightarrow> js_number result" where
  "ToNumber rt v =
     (case v of
        V_undefined \<Rightarrow> return JNaN
      | V_null \<Rightarrow> return (JInt 0)
      | V_bool b \<Rightarrow> return (JInt (if b then 1 else 0))
      | V_number n \<Rightarrow> return n
      | V_bigint n \<Rightarrow> throw (TypeError ''Cannot convert a BigInt value to a number'')
      | V_date d \<Rightarrow> return (case d of None \<Rightarrow> JNaN | Some ms \<Rightarrow> JInt ms)
      | _ \<Rightarrow> return (rt_toNumber rt v))"

definition ToBigInt :: "runtime \<Rightarrow> js_value \<Rightarrow> int result" where
  "ToBigInt rt v =
     (case v of
        V_bigint n \<Rightarrow> return n
      | V_bool b \<Rightarrow> return (if b then 1 else 0)
      | V_long n \<Rightarrow> return n
      | V_number (JInt n) \<Rightarrow> return n
      | V_number n \<Rightarrow> if n = JReal True 0 0 then return 0 else throw (RangeError ''The number cannot be converted to a BigInt because it is not an integer'')
      | _ \<Rightarrow> rt_BigInt rt v)"

definition truthy :: "js_value \<Rightarrow> bool" where
  "truthy v =
     (case v of
        V_undefined \<Rightarrow> False
      | V_null \<Rightarrow> False
      | V_bool b \<Rightarrow> b
      | V_number n \<Rightarrow> n \<notin> {JInt 0, JReal True 0 0, JNaN}
      | V_bigint n \<Rightarrow> n \<noteq> 0
      | V_string s \<Rightarrow> s \<noteq> []
      | _ \<Rightarrow> True)"

definition property_key :: "runtime \<Rightarrow> js_value \<Rightarrow> js_text" where
  "property_key rt v =
     (case v of
        V_string s \<Rightarrow> s
      | V_bool b \<Rightarrow> text_of (if b then ''true'' else ''false'')
      | V_null \<Rightarrow> text_of ''null''
      | V_bigint n \<Rightarrow> text_of (show_int n)
      | V_number (JInt n) \<Rightarrow> (if \<bar>n\<bar> < 1000000000000000000000 then text_of (show_int n) else rt_property_key rt v)
      | V_uuid u \<Rightarrow> text_of (Uuid_toString u)
      | V_timeuuid u \<Rightarrow> text_of (Uuid_toString u)
      | V_inet a \<Rightarrow> text_of (InetAddress_toString a)
      | V_local_date d \<Rightarrow> text_of (LocalDate_toString d)
      | V_local_time t \<Rightarrow> text_of (LocalTime_toString t)
      | V_long n \<Rightarrow> text_of (show_int n)
      | V_duration d \<Rightarrow> text_of (Duration_toString d)
      | _ \<Rightarrow> rt_property_key rt v)"

definition js_length :: "runtime \<Rightarrow> js_value \<Rightarrow> js_number result" where
  "js_length rt v =
     (case v of
        V_tuple xs \<Rightarrow> return (JInt (int (length xs)))
      | V_vector xs t \<Rightarrow> return (JInt (int (length xs)))
      | V_float32 ns \<Rightarrow> return (JInt (int (length ns)))
      | V_array xs \<Rightarrow> return (JInt (int (length xs)))
      | V_string s \<Rightarrow> return (JInt (int (js_text_length s)))
      | V_inet a \<Rightarrow> return (JInt (int (length (inet_buffer a))))
      | V_buffer b \<Rightarrow> return (JInt (int (length b)))
      | V_object ps \<Rightarrow> ToNumber rt (get_property v (text_of ''length''))
      | _ \<Rightarrow> return JNaN)"

section \<open>Sub-values\<close>

text \<open>The values that the codec encodes in turn: elements, entries, properties and their names.\<close>

definition children :: "js_value \<Rightarrow> js_value list" where
  "children v =
     V_undefined # concat (map (\<lambda>p. [V_string (fst p), snd p]) (own_properties v)) @
     (case v of
        V_tuple xs \<Rightarrow> xs
      | V_vector xs t \<Rightarrow> xs
      | V_float32 ns \<Rightarrow> map V_number ns
      | V_array xs \<Rightarrow> V_number (JInt (int (length xs))) # xs
      | V_set xs \<Rightarrow> xs
      | V_map ps \<Rightarrow> map fst ps @ map snd ps
      | _ \<Rightarrow> [])"

lemma sum_list_member: "x \<in> set xs \<Longrightarrow> f x \<le> sum_list (map f xs)" for f :: "'a \<Rightarrow> nat"
  by (induction xs) auto

lemma index_properties_snd: "p \<in> set (index_properties xs) \<Longrightarrow> snd p \<in> set xs"
  by (cases p) (auto simp: index_properties_def dest: set_zip_rightD)

lemma own_properties_smaller:
  assumes "p \<in> set (own_properties v)" shows "vsize (snd p) < vsize v \<and> 1 < vsize v"
proof (cases v)
  case (V_object ps)
  then show ?thesis using assms sum_list_member[of p ps "\<lambda>p. vsize (snd p)"] by (simp add: own_properties_def)
next
  case (V_array xs)
  then have "snd p \<in> set xs" using assms index_properties_snd by (simp add: own_properties_def)
  then show ?thesis using V_array sum_list_member[of "snd p" xs vsize] by simp
next
  case (V_vector xs t)
  then have "snd p \<in> set xs \<or> vsize (snd p) = 1" using assms index_properties_snd[of p xs] by (auto simp: own_properties_def)
  then show ?thesis using V_vector sum_list_member[of "snd p" xs vsize] by auto
next
  case (V_float32 ns)
  then have "snd p \<in> V_number ` set ns" using assms index_properties_snd[of p "map V_number ns"] by (simp add: own_properties_def)
  then show ?thesis using V_float32 by auto
qed (use assms in \<open>auto simp: own_properties_def\<close>)

lemma children_smaller: "w \<in> set (children v) \<Longrightarrow> v \<noteq> V_undefined \<Longrightarrow> vsize w < vsize v"
proof -
  assume w: "w \<in> set (children v)" and v: "v \<noteq> V_undefined"
  have pos: "0 < vsize v" using v by (cases v) simp_all
  consider "w = V_undefined" | p where "p \<in> set (own_properties v)" "w = V_string (fst p) \<or> w = snd p"
    | "w \<in> set (case v of V_tuple xs \<Rightarrow> xs | V_vector xs t \<Rightarrow> xs | V_float32 ns \<Rightarrow> map V_number ns
        | V_array xs \<Rightarrow> V_number (JInt (int (length xs))) # xs | V_set xs \<Rightarrow> xs | V_map ps \<Rightarrow> map fst ps @ map snd ps | _ \<Rightarrow> [])"
    using w by (auto simp: children_def)
  then show ?thesis
  proof cases
    case 1
    then show ?thesis using pos by simp
  next
    case 2
    then show ?thesis using own_properties_smaller[of p v] by auto
  next
    case 3
    then show ?thesis
      by (cases v) (use sum_list_member[of w _ vsize] sum_list_member[of _ _ "\<lambda>p. vsize (fst p) + vsize (snd p)"] in \<open>fastforce simp: less_Suc_eq_le\<close>)+
  qed
qed

end
