(* ===== verification/Codec_Encode.thy ===== *)
theory Codec_Encode
  imports Codec_Values
begin

text \<open>
  The encoding half of \<open>lib/encoder.js\<close>: a method per CQL type, the choice of the type from a hint or from
  the value, and \<open>encode\<close>. The methods for composite types take \<open>encode\<close> as an argument.
\<close>

section \<open>Results\<close>

text \<open>\<open>encode\<close> returns a \<open>Buffer\<close>, \<open>null\<close>, or \<open>undefined\<close> for an unset value. \<open>Buffer.concat\<close> refuses
  anything but buffers.\<close>

datatype encoded = Bytes buffer | Null | Unset

definition buffer_concat :: "encoded list \<Rightarrow> buffer result" where
  "buffer_concat parts =
     (if list_all (\<lambda>p. case p of Bytes b \<Rightarrow> True | _ \<Rightarrow> False) parts
      then return (concat (map (\<lambda>p. case p of Bytes b \<Rightarrow> b | _ \<Rightarrow> []) parts))
      else throw (TypeError ''The list argument must be an instance of Buffer''))"

definition bytes :: "buffer result \<Rightarrow> encoded result" where
  "bytes r = rbind r (\<lambda>b. return (Bytes b))"

section \<open>Protocol version\<close>

definition uses4BytesCollectionLength :: "int \<Rightarrow> bool" where
  "uses4BytesCollectionLength version \<longleftrightarrow> version \<ge> 3"

definition supportsUnset :: "int \<Rightarrow> bool" where
  "supportsUnset version \<longleftrightarrow> version \<ge> 4"

text \<open>The length of a collection or of an item; \<open>None\<close> is \<open>null\<close> or \<open>undefined\<close>.\<close>

definition getLengthBufferV2 :: "int option \<Rightarrow> buffer result" where
  "getLengthBufferV2 value = (case value of None \<Rightarrow> return [0, 0] | Some n \<Rightarrow> if n = 0 then return [0, 0] else writeUInt16BE n)"

definition getLengthBufferV3 :: "int option \<Rightarrow> buffer result" where
  "getLengthBufferV3 value = (case value of None \<Rightarrow> return [0, 0, 0, 0] | Some n \<Rightarrow> if n = 0 then return [0, 0, 0, 0] else writeInt32BE n)"

definition getLengthBuffer :: "encoder \<Rightarrow> int option \<Rightarrow> buffer result" where
  "getLengthBuffer e = (if uses4BytesCollectionLength (protocolVersion e) then getLengthBufferV3 else getLengthBufferV2)"

definition item_length :: "encoded \<Rightarrow> int option" where
  "item_length x = (case x of Bytes b \<Rightarrow> Some (int (length b)) | _ \<Rightarrow> None)"

section \<open>Numbers\<close>

text \<open>The common start of \<open>encodeFloat\<close> and \<open>encodeDouble\<close>.\<close>

definition float_value :: "runtime \<Rightarrow> js_value \<Rightarrow> js_number result" where
  "float_value rt value =
     (case value of
        V_string s \<Rightarrow>
          let x = rt_parseFloat rt (chars s)
          in if x = JNaN then throw (TypeError ''Expected string representation of a number, obtained NaN'') else return x
      | V_number x \<Rightarrow> return x
      | _ \<Rightarrow> throw (TypeError ''Expected Number, obtained ''))"

definition encodeFloat :: "runtime \<Rightarrow> js_value \<Rightarrow> buffer result" where
  "encodeFloat rt value = rbind (float_value rt value) (\<lambda>x. return (writeFloatBE x))"

definition encodeDouble :: "runtime \<Rightarrow> js_value \<Rightarrow> buffer result" where
  "encodeDouble rt value = rbind (float_value rt value) (\<lambda>x. return (writeDoubleBE x))"

text \<open>The common body of \<open>encodeInt\<close>, \<open>encodeSmallint\<close> and \<open>encodeTinyint\<close>.\<close>

definition int_bytes :: "nat \<Rightarrow> int \<Rightarrow> int \<Rightarrow> runtime \<Rightarrow> js_value \<Rightarrow> buffer result" where
  "int_bytes n lo hi rt value =
     rbind (ToNumber rt value) (\<lambda>x.
       if x = JNaN then throw (TypeError ''Expected Number, obtained '') else write_number n lo hi x)"

definition encodeInt :: "runtime \<Rightarrow> js_value \<Rightarrow> buffer result" where
  "encodeInt = int_bytes 4 (- 2147483648) 2147483647"

definition encodeSmallint :: "runtime \<Rightarrow> js_value \<Rightarrow> buffer result" where
  "encodeSmallint = int_bytes 2 (- 32768) 32767"

definition encodeTinyint :: "runtime \<Rightarrow> js_value \<Rightarrow> buffer result" where
  "encodeTinyint = int_bytes 1 (- 128) 127"

definition encodeBigIntFromLong :: "runtime \<Rightarrow> js_value \<Rightarrow> buffer result" where
  "encodeBigIntFromLong rt value =
     (case value of
        V_number x \<Rightarrow> Long_toBuffer (Long_fromNumber rt x)
      | V_string s \<Rightarrow> rbind (Long_fromString rt (chars s)) Long_toBuffer
      | V_long n \<Rightarrow> Long_toBuffer n
      | _ \<Rightarrow> throw (TypeError ''Not a valid bigint, expected Long/Number/String/Buffer, obtained ''))"

text \<open>\<open>Number(n)\<close> of a \<open>BigInt\<close>: the nearest double, here as the integer it is.\<close>

definition number_of_bigint :: "int \<Rightarrow> int" where
  "number_of_bigint n =
     (let a = \<bar>n\<bar>; k = bit_len a
      in if k \<le> 53 then n else (if n < 0 then - 1 else 1) * (round_shift a (k - 53) * 2 ^ (k - 53)))"

definition encodeBigIntFromBigInt :: "runtime \<Rightarrow> js_value \<Rightarrow> buffer result" where
  "encodeBigIntFromBigInt rt value =
     rbind (case value of V_string s \<Rightarrow> rt_BigInt rt value | V_bigint n \<Rightarrow> return n | _ \<Rightarrow> throw (TypeError ''Not a valid BigInt value, obtained '')) (\<lambda>n.
     rbind (writeUInt32BE (to_uint32 (number_of_bigint (n div 4294967296)))) (\<lambda>high.
     rbind (writeUInt32BE (n mod 4294967296)) (\<lambda>low. return (high @ low))))"

definition encodeLong :: "runtime \<Rightarrow> encoder \<Rightarrow> js_value \<Rightarrow> buffer result" where
  "encodeLong rt e = (if useBigIntAsLong e then encodeBigIntFromBigInt rt else encodeBigIntFromLong rt)"

text \<open>\<open>Integer.fromNumber\<close> of any number.\<close>

definition Integer_of_number :: "js_number \<Rightarrow> Integer" where
  "Integer_of_number x =
     (case x of JNaN \<Rightarrow> Integer_ZERO | JInt n \<Rightarrow> Integer_fromNumber n | JReal s ex f \<Rightarrow> if ex = 2047 then Integer_ZERO else Integer_fromNumber (trunc x))"

definition encodeVarintFromInteger :: "runtime \<Rightarrow> js_value \<Rightarrow> buffer result" where
  "encodeVarintFromInteger rt value =
     (case value of
        V_number x \<Rightarrow> return (Integer_toBuffer (Integer_of_number x))
      | V_string s \<Rightarrow> rbind (rt_Integer_fromString rt (chars s)) (\<lambda>i. return (Integer_toBuffer i))
      | V_buffer b \<Rightarrow> return b
      | V_integer i \<Rightarrow> return (Integer_toBuffer i)
      | _ \<Rightarrow> throw (TypeError ''Not a valid varint, expected Integer/Number/String/Buffer, obtained ''))"

text \<open>The two loops of \<open>#encodeVarintFromBigInt\<close>; the first runs on positive values down to 0, the second on
  negative values up to -1.\<close>

function positive_parts :: "int \<Rightarrow> int list \<Rightarrow> int list" where
  "positive_parts value parts = (if value \<le> 0 then parts else positive_parts (value div 256) ((value mod 256) # parts))"
  by pat_completeness auto

termination
  by (relation "measure (\<lambda>(value, parts). nat value)") auto

function negative_parts :: "int \<Rightarrow> int list \<Rightarrow> int list" where
  "negative_parts value parts = (if value \<ge> - 1 then parts else negative_parts (value div 256) ((value mod 256) # parts))"
  by pat_completeness auto

termination
  by (relation "measure (\<lambda>(value, parts). nat (- value))") auto

declare positive_parts.simps [simp del] negative_parts.simps [simp del]

definition varint_bytes :: "int \<Rightarrow> buffer" where
  "varint_bytes value =
     (if value = 0 then [0]
      else if value = - 1 then [255]
      else if value > 0 then
        let parts = positive_parts value []
        in map to_byte (if hd parts > 0x7f then 0 # parts else parts)
      else
        let parts = negative_parts value []
        in map to_byte (if hd parts \<le> 0x7f then 0xff # parts else parts))"

definition encodeVarintFromBigInt :: "runtime \<Rightarrow> js_value \<Rightarrow> buffer result" where
  "encodeVarintFromBigInt rt value =
     rbind (case value of V_string s \<Rightarrow> rt_BigInt rt value | V_bigint n \<Rightarrow> return n | _ \<Rightarrow> throw (TypeError ''Not a valid varint, expected BigInt, obtained ''))
       (\<lambda>n. return (varint_bytes n))"

definition encodeVarint :: "runtime \<Rightarrow> encoder \<Rightarrow> js_value \<Rightarrow> buffer result" where
  "encodeVarint rt e = (if useBigIntAsVarint e then encodeVarintFromBigInt rt else encodeVarintFromInteger rt)"

definition BigDecimal_fromNumber :: "runtime \<Rightarrow> js_number \<Rightarrow> BigDecimal result" where
  "BigDecimal_fromNumber rt x =
     (if x = JNaN then return \<lparr>bd_intVal = Integer_ZERO, bd_scale = 0\<rparr>
      else
        let textValue = rt_number_text rt x
        in BigDecimal_fromString (rt_Integer_fromString rt) (if index_of textValue (CHR ''e'') \<ge> 0 then rt_number_fixed rt x else textValue))"

definition encodeDecimal :: "runtime \<Rightarrow> js_value \<Rightarrow> buffer result" where
  "encodeDecimal rt value =
     (case value of
        V_number x \<Rightarrow> rbind (BigDecimal_fromNumber rt x) BigDecimal_toBuffer
      | V_string s \<Rightarrow> rbind (BigDecimal_fromString (rt_Integer_fromString rt) (chars s)) BigDecimal_toBuffer
      | V_decimal d \<Rightarrow> BigDecimal_toBuffer d
      | _ \<Rightarrow> throw (TypeError ''Not a valid varint, expected BigDecimal/Number/String/Buffer, obtained ''))"

section \<open>Dates\<close>

definition encodeTimestamp :: "runtime \<Rightarrow> encoder \<Rightarrow> js_value \<Rightarrow> buffer result" where
  "encodeTimestamp rt e value =
     (let value = (case value of V_string s \<Rightarrow> V_date (rt_Date rt (chars s)) | _ \<Rightarrow> value)
      in rbind (case value of
                  V_date None \<Rightarrow> throw (TypeError ''Invalid date: '')
                | V_date (Some ms) \<Rightarrow> return (V_number (JInt ms))
                | _ \<Rightarrow> return value) (\<lambda>value.
         rbind (if useBigIntAsLong e then rbind (ToBigInt rt value) (\<lambda>n. return (V_bigint n)) else return value) (\<lambda>value.
           encodeLong rt e value)))"

definition LocalDate_fromDate :: "runtime \<Rightarrow> int option \<Rightarrow> LocalDate result" where
  "LocalDate_fromDate rt date =
     (case date of
        None \<Rightarrow> throw (TypeError ''Invalid date: '')
      | Some ms \<Rightarrow> (case rt_local_date rt ms of (y, m, d) \<Rightarrow> new_LocalDate_ymd (Some y) (Some m) (Some d)))"

text \<open>\<open>catch (err)\<close> that throws a \<open>TypeError\<close> instead.\<close>

definition rethrow :: "string \<Rightarrow> 'a result \<Rightarrow> 'a result" where
  "rethrow message r = (case r of Inl err \<Rightarrow> throw (TypeError message) | Inr x \<Rightarrow> return x)"

definition encodeDate :: "runtime \<Rightarrow> js_value \<Rightarrow> buffer result" where
  "encodeDate rt value =
     (case value of
        V_string s \<Rightarrow> rbind (rethrow ''LocalDate could not be parsed '' (LocalDate_fromString (chars s))) LocalDate_toBuffer
      | V_date d \<Rightarrow> rbind (rethrow ''LocalDate could not be parsed '' (LocalDate_fromDate rt d)) LocalDate_toBuffer
      | V_local_date d \<Rightarrow> LocalDate_toBuffer d
      | _ \<Rightarrow> throw (TypeError ''Expected Date/String/LocalDate, obtained ''))"

definition encodeTime :: "js_value \<Rightarrow> buffer result" where
  "encodeTime value =
     (case value of
        V_string s \<Rightarrow> rbind (rethrow ''LocalTime could not be parsed '' (LocalTime_fromString (chars s))) LocalTime_toBuffer
      | V_local_time t \<Rightarrow> LocalTime_toBuffer t
      | _ \<Rightarrow> throw (TypeError ''Expected String/LocalTime, obtained ''))"

text \<open>The bytes of a duration do not depend on what the shared buffers held.\<close>

definition encodeDuration :: "runtime \<Rightarrow> js_value \<Rightarrow> buffer result" where
  "encodeDuration rt value =
     (case value of
        V_duration d \<Rightarrow> return (fst (Duration_toBuffer d (rt_buffers rt)))
      | _ \<Rightarrow> throw (TypeError ''Not a valid duration, expected Duration/Buffer obtained ''))"

section \<open>Identifiers, addresses, text\<close>

definition encodeUuid :: "js_value \<Rightarrow> buffer result" where
  "encodeUuid value =
     (case value of
        V_string s \<Rightarrow>
          (case Uuid_fromString (chars s) of
             Inl err \<Rightarrow> throw (TypeError ''Invalid string representation of Uuid, it should be in the 00000000-0000-0000-0000-000000000000 format'')
           | Inr u \<Rightarrow> return (uuid_raw u))
      | V_uuid u \<Rightarrow> return (uuid_raw u)
      | V_timeuuid u \<Rightarrow> return (uuid_raw u)
      | _ \<Rightarrow> throw (TypeError ''Not a valid Uuid, expected Uuid/String/Buffer, obtained ''))"

definition encodeInet :: "runtime \<Rightarrow> js_value \<Rightarrow> buffer result" where
  "encodeInet rt value =
     (case value of
        V_string s \<Rightarrow> rbind (InetAddress_fromString (rt_memory rt) (chars s)) (\<lambda>a. return (inet_buffer a))
      | V_inet a \<Rightarrow> return (inet_buffer a)
      | V_buffer b \<Rightarrow> return b
      | _ \<Rightarrow> throw (TypeError ''Not a valid Inet, expected InetAddress/Buffer, obtained ''))"

definition encodeString :: "(js_text \<Rightarrow> buffer) \<Rightarrow> js_value \<Rightarrow> buffer result" where
  "encodeString encoding value =
     (case value of V_string s \<Rightarrow> return (encoding s) | _ \<Rightarrow> throw (TypeError ''Not a valid text value, expected String obtained ''))"

definition encodeUtf8String :: "js_value \<Rightarrow> buffer result" where
  "encodeUtf8String = encodeString utf8_encode"

definition encodeAsciiString :: "js_value \<Rightarrow> buffer result" where
  "encodeAsciiString = encodeString ascii_encode"

definition encodeBlob :: "js_value \<Rightarrow> buffer result" where
  "encodeBlob value = (case value of V_buffer b \<Rightarrow> return b | _ \<Rightarrow> throw (TypeError ''Not a valid blob, expected Buffer obtained ''))"

definition encodeBoolean :: "js_value \<Rightarrow> buffer result" where
  "encodeBoolean value = return (if truthy value then [1] else [0])"

section \<open>Collections\<close>

definition absent :: "js_value \<Rightarrow> bool" where
  "absent v \<longleftrightarrow> v = V_null \<or> v = V_undefined \<or> v = V_unset"

definition list_item :: "encoder \<Rightarrow> (js_value \<Rightarrow> hint \<Rightarrow> encoded result) \<Rightarrow> hint \<Rightarrow> js_value \<Rightarrow> encoded list result" where
  "list_item e enc subtype val =
     (if absent val then throw (TypeError ''A collection can't contain null or unset values'')
      else
        rbind (enc val subtype) (\<lambda>item.
        rbind (getLengthBuffer e (item_length item)) (\<lambda>len. return [Bytes len, item])))"

definition encodeList :: "encoder \<Rightarrow> (js_value \<Rightarrow> hint \<Rightarrow> encoded result) \<Rightarrow> js_value \<Rightarrow> type_info \<Rightarrow> encoded result" where
  "encodeList e enc value typeInfo =
     (case value of
        V_array xs \<Rightarrow>
          if length xs = 0 then return Null
          else
            rbind (getLengthBuffer e (Some (int (length xs)))) (\<lambda>len.
            rbind (rmap (list_item e enc (info_hint typeInfo)) xs) (\<lambda>items. bytes (buffer_concat (Bytes len # concat items))))
      | _ \<Rightarrow> throw (TypeError ''Not a valid list value, expected Array obtained ''))"

definition encodeSet :: "encoder \<Rightarrow> (js_value \<Rightarrow> hint \<Rightarrow> encoded result) \<Rightarrow> js_value \<Rightarrow> type_info \<Rightarrow> encoded result" where
  "encodeSet e enc value typeInfo =
     (case value of
        V_set xs \<Rightarrow> if set_class e then encodeList e enc (V_array xs) typeInfo else encodeList e enc value typeInfo
      | _ \<Rightarrow> encodeList e enc value typeInfo)"

definition addItem :: "encoder \<Rightarrow> (js_value \<Rightarrow> hint \<Rightarrow> encoded result) \<Rightarrow> hint \<Rightarrow> hint \<Rightarrow> js_value \<times> js_value \<Rightarrow> encoded list result" where
  "addItem e enc keySubtype valueSubtype entry =
     (let key = fst entry; val = snd entry
      in if absent key then throw (TypeError ''A map can't contain null or unset keys'')
         else if absent val then throw (TypeError ''A map can't contain null or unset values'')
         else
           rbind (enc key keySubtype) (\<lambda>keyBuffer.
           rbind (getLengthBuffer e (item_length keyBuffer)) (\<lambda>keyLength.
           rbind (enc val valueSubtype) (\<lambda>valueBuffer.
           rbind (getLengthBuffer e (item_length valueBuffer)) (\<lambda>valueLength.
             return ([Bytes keyLength, keyBuffer, Bytes valueLength] @ (if valueBuffer = Null then [] else [valueBuffer])))))))"

text \<open>The entries \<open>encodeMap\<close> iterates over.\<close>

definition map_entries :: "encoder \<Rightarrow> js_value \<Rightarrow> (js_value \<times> js_value) list" where
  "map_entries e value =
     (case value of
        V_map ps \<Rightarrow> if map_class e then ps else []
      | _ \<Rightarrow> map (\<lambda>p. (V_string (fst p), snd p)) (own_properties value))"

definition encodeMap :: "runtime \<Rightarrow> encoder \<Rightarrow> (js_value \<Rightarrow> hint \<Rightarrow> encoded result) \<Rightarrow> js_value \<Rightarrow> type_info \<Rightarrow> buffer result" where
  "encodeMap rt e enc value typeInfo =
     (case value of
        V_string s \<Rightarrow> rt_text_map rt s typeInfo
      | _ \<Rightarrow>
          rbind (rmap (addItem e enc (info_at typeInfo 0) (info_at typeInfo 1)) (map_entries e value)) (\<lambda>items.
          rbind (getLengthBuffer e (Some (int (length items)))) (\<lambda>len. buffer_concat (Bytes len # concat items))))"

section \<open>User defined types, tuples, vectors\<close>

text \<open>A field of a user defined type or of a tuple. \<open>!item\<close> holds for \<open>undefined\<close> too, so an unset field is
  written as null.\<close>

definition field_part :: "encoded \<Rightarrow> buffer result" where
  "field_part item =
     (case item of
        Bytes b \<Rightarrow> rbind (writeInt32BE (int (length b))) (\<lambda>len. return (len @ b))
      | _ \<Rightarrow> return [255, 255, 255, 255])"

definition encodeUdt :: "(js_value \<Rightarrow> hint \<Rightarrow> encoded result) \<Rightarrow> js_value \<Rightarrow> type_info \<Rightarrow> buffer result" where
  "encodeUdt enc value typeInfo =
     (case typeInfo of
        Udt_info keyspace name fs \<Rightarrow>
          rbind (rmap (\<lambda>f. rbind (enc (get_property value (text_of (fst f))) (Type_hint (snd f))) field_part) fs) (\<lambda>parts. return (concat parts))
      | _ \<Rightarrow> throw (TypeError ''Cannot read properties of undefined''))"

text \<open>\<open>info.length\<close>; \<open>None\<close> is \<open>NaN\<close> in \<open>Math.min\<close>.\<close>

definition info_length :: "type_info \<Rightarrow> nat option" where
  "info_length i =
     (case i of Sub_types ts \<Rightarrow> Some (length ts) | Vector_info t d \<Rightarrow> Some 2 | Type_name s \<Rightarrow> Some (length s) | _ \<Rightarrow> None)"

definition encodeTuple :: "runtime \<Rightarrow> (js_value \<Rightarrow> hint \<Rightarrow> encoded result) \<Rightarrow> js_value \<Rightarrow> type_info \<Rightarrow> buffer result" where
  "encodeTuple rt enc value typeInfo =
     (if typeInfo = No_info then throw (TypeError ''Cannot read properties of undefined'')
      else
        rbind (js_length rt value) (\<lambda>len.
          case info_length typeInfo of
            None \<Rightarrow> return []
          | Some n \<Rightarrow>
              (case value of
                 V_tuple xs \<Rightarrow>
                   rbind (rmap (\<lambda>p. rbind (enc (snd p) (info_at typeInfo (fst p))) field_part) (zip [0..<n] xs)) (\<lambda>parts. return (concat parts))
               | _ \<Rightarrow> if 0 < n \<and> above len 0 then throw (TypeError ''value.get is not a function'') else return [])))"

text \<open>The size of the elements of a vector if all have the same, -1 otherwise; \<open>None\<close> is \<open>NaN\<close>.\<close>

fun serializationSizeIfFixed :: "column_info \<Rightarrow> int option" where
  "serializationSizeIfFixed (Column_Info c i opts) =
     (if c \<in> {0x02, 0x0b, 0x07} then Some 8
      else if c = 0x04 then Some 1
      else if c \<in> {0x08, 0x09} then Some 4
      else if c \<in> {0x0f, 0x0c} then Some 16
      else if c = dt_custom then
        (case i of
           Vector_info t d \<Rightarrow>
             if serializationSizeIfFixed t = Some (- 1) then Some (- 1)
             else (case (serializationSizeIfFixed t, d) of (Some n, Some m) \<Rightarrow> Some (n * m) | _ \<Rightarrow> None)
         | _ \<Rightarrow> Some (- 1))
      else Some (- 1))"

definition vector_elements :: "js_value \<Rightarrow> js_value list option" where
  "vector_elements v = (case v of V_vector xs t \<Rightarrow> Some xs | V_float32 ns \<Rightarrow> Some (map V_number ns) | _ \<Rightarrow> None)"

definition vector_item :: "(js_value \<Rightarrow> hint \<Rightarrow> encoded result) \<Rightarrow> column_info \<Rightarrow> js_value \<Rightarrow> encoded list result" where
  "vector_item enc subtype elem =
     rbind (enc elem (Type_hint subtype)) (\<lambda>elemBuffer.
       if serializationSizeIfFixed subtype = Some (- 1) then
         (case elemBuffer of
            Bytes b \<Rightarrow> rbind (uvintPack (int (length b))) (\<lambda>len. return [Bytes len, elemBuffer])
          | _ \<Rightarrow> throw (TypeError ''Cannot read properties of null''))
       else return [elemBuffer])"

definition encodeVector :: "(js_value \<Rightarrow> hint \<Rightarrow> encoded result) \<Rightarrow> js_value \<Rightarrow> type_info \<Rightarrow> buffer result" where
  "encodeVector enc value params =
     (case (vector_elements value, params) of
        (None, _) \<Rightarrow> throw (TypeError ''Driver only supports Vector type when encoding a vector'')
      | (Some xs, Vector_info subtype dimension) \<Rightarrow>
          if Some (int (length xs)) \<noteq> dimension then throw (TypeError ''Expected vector with another number of dimensions'')
          else if length xs = 0 then throw (TypeError ''Cannot encode empty array as vector'')
          else rbind (rmap (vector_item enc subtype) xs) (\<lambda>items. buffer_concat (concat items))
      | _ \<Rightarrow> throw (TypeError ''Cannot read properties of undefined''))"

definition encodeCustom :: "runtime \<Rightarrow> (js_value \<Rightarrow> hint \<Rightarrow> encoded result) \<Rightarrow> js_value \<Rightarrow> type_info \<Rightarrow> buffer result" where
  "encodeCustom rt enc value typeInfo =
     (case typeInfo of
        Vector_info t d \<Rightarrow> encodeVector enc value typeInfo
      | Type_name s \<Rightarrow>
          if starts_with s cn_vector then rbind (parseFqTypeName s 0 0) (\<lambda>t. encodeVector enc value (column_info.info t))
          else if s = cn_duration then encodeDuration rt value
          else throw (TypeError ''No encoding handler found for type '')
      | _ \<Rightarrow> throw (TypeError ''No encoding handler found for type ''))"

section \<open>Choice of the type\<close>

abbreviation (input) plain_type :: "nat \<Rightarrow> column_info" where
  "plain_type c \<equiv> Column_Info c No_info No_options"

fun guessDataType :: "js_value \<Rightarrow> column_info option result" where
  "guessDataType (V_number n) = return (Some (plain_type 0x07))"
| "guessDataType (V_string s) =
     return (Some (if js_text_length s = 36 \<and> uuidRegex (chars s) then plain_type 0x0c else plain_type 0x0a))"
| "guessDataType (V_bool b) = return (Some (plain_type 0x04))"
| "guessDataType (V_buffer b) = return (Some (plain_type 0x03))"
| "guessDataType (V_date d) = return (Some (plain_type 0x0b))"
| "guessDataType (V_long n) = return (Some (plain_type 0x02))"
| "guessDataType (V_integer i) = return (Some (plain_type 0x0e))"
| "guessDataType (V_decimal d) = return (Some (plain_type 0x06))"
| "guessDataType (V_uuid u) = return (Some (plain_type 0x0c))"
| "guessDataType (V_timeuuid u) = return (Some (plain_type 0x0c))"
| "guessDataType (V_inet a) = return (Some (plain_type 0x10))"
| "guessDataType (V_tuple xs) = return (Some (plain_type dt_tuple))"
| "guessDataType (V_local_date d) = return (Some (plain_type 0x11))"
| "guessDataType (V_local_time t) = return (Some (plain_type 0x12))"
| "guessDataType (V_duration d) = return (Some (Column_Info dt_custom (Type_name cn_duration) No_options))"
| "guessDataType (V_float32 ns) =
     (if ns \<noteq> [] then return (Some (Column_Info dt_custom (Vector_info (plain_type 0x08) (Some (int (length ns)))) No_options))
      else throw (TypeError ''Cannot guess subtype of empty vector''))"
| "guessDataType (V_vector [] t) = throw (TypeError ''Cannot guess subtype of empty vector'')"
| "guessDataType (V_vector (x # xs) t) =
     (let named = (case t of None \<Rightarrow> None | Some s \<Rightarrow> if s = [] then None else (case getByName s of Inl err \<Rightarrow> None | Inr ty \<Rightarrow> Some ty))
      in rbind (case named of Some ty \<Rightarrow> return (Some ty) | None \<Rightarrow> guessDataType x) (\<lambda>subtype.
           case subtype of
             Some ty \<Rightarrow> return (Some (Column_Info dt_custom (Vector_info ty (Some (int (Suc (length xs))))) No_options))
           | None \<Rightarrow> throw (TypeError ''Cannot guess subtype from element '')))"
| "guessDataType (V_array xs) = return (Some (plain_type dt_list))"
| "guessDataType V_date_range = throw (ReferenceError ''encoding DateRange is not supported by our driver'')"
| "guessDataType _ = return None"

text \<open>The \<open>typeInfo\<close> argument of \<open>encode\<close>: the code 0 and the empty name count as missing.\<close>

definition resolve_hint :: "js_value \<Rightarrow> hint \<Rightarrow> column_info result" where
  "resolve_hint value h =
     (if h \<in> {No_hint, Code_hint 0, Name_hint []} then
        rbind (guessDataType value) (\<lambda>t.
          case t of
            Some ty \<Rightarrow> return ty
          | None \<Rightarrow> throw (TypeError ''Target data type could not be guessed, you should use prepared statements for accurate type mapping. Value: ''))
      else
        (case h of
           Code_hint c \<Rightarrow> return (plain_type c)
         | Name_hint s \<Rightarrow> getByName s
         | Type_hint ty \<Rightarrow> return ty
         | _ \<Rightarrow> throw (TypeError ''Type information not valid, only String and Number values are valid hints'')))"

section \<open>encode\<close>

text \<open>The table \<open>encoders\<close>.\<close>

definition encode_type :: "runtime \<Rightarrow> encoder \<Rightarrow> (js_value \<Rightarrow> hint \<Rightarrow> encoded result) \<Rightarrow> js_value \<Rightarrow> column_info \<Rightarrow> encoded result" where
  "encode_type rt e enc value ty =
     (let c = code ty; i = column_info.info ty
      in if c = dt_custom then bytes (encodeCustom rt enc value i)
         else if c = 0x01 then bytes (encodeAsciiString value)
         else if c = 0x02 \<or> c = 0x05 then bytes (encodeLong rt e value)
         else if c = 0x03 then bytes (encodeBlob value)
         else if c = 0x04 then bytes (encodeBoolean value)
         else if c = 0x06 then bytes (encodeDecimal rt value)
         else if c = 0x07 then bytes (encodeDouble rt value)
         else if c = 0x08 then bytes (encodeFloat rt value)
         else if c = 0x09 then bytes (encodeInt rt value)
         else if c = 0x0a \<or> c = 0x0d then bytes (encodeUtf8String value)
         else if c = 0x0b then bytes (encodeTimestamp rt e value)
         else if c = 0x0c \<or> c = 0x0f then bytes (encodeUuid value)
         else if c = 0x0e then bytes (encodeVarint rt e value)
         else if c = 0x10 then bytes (encodeInet rt value)
         else if c = 0x11 then bytes (encodeDate rt value)
         else if c = 0x12 then bytes (encodeTime value)
         else if c = 0x13 then bytes (encodeSmallint rt value)
         else if c = 0x14 then bytes (encodeTinyint rt value)
         else if c = dt_duration then bytes (encodeDuration rt value)
         else if c = dt_list then encodeList e enc value i
         else if c = dt_map then bytes (encodeMap rt e enc value i)
         else if c = dt_set then encodeSet e enc value i
         else if c = dt_udt then bytes (encodeUdt enc value i)
         else if c = dt_tuple then bytes (encodeTuple rt enc value i)
         else throw (GenericError (''Type not supported '' @ show_nat c)))"

text \<open>The values \<open>encode\<close> answers at once.\<close>

definition encode_absent :: "encoder \<Rightarrow> js_value \<Rightarrow> encoded result option" where
  "encode_absent e value =
     (let value = (if value = V_undefined then if useUndefinedAsUnset e \<and> protocolVersion e \<ge> 4 then V_unset else V_null else value)
      in case value of
           V_unset \<Rightarrow>
             Some (if supportsUnset (protocolVersion e) then return Unset
                   else throw (TypeError ''Unset value can not be used for this version of Cassandra, protocol version: ''))
         | V_null \<Rightarrow> Some (return Null)
         | V_buffer b \<Rightarrow> Some (return (Bytes b))
         | _ \<Rightarrow> None)"

lemma get_property_child: "get_property v name \<in> set (children v)"
proof (cases "map_of (own_properties v) name")
  case None
  then show ?thesis by (cases v) (auto simp: get_property_def children_def)
next
  case (Some x)
  then have "(name, x) \<in> set (own_properties v)" by (rule map_of_SomeD)
  then show ?thesis using Some by (force simp: get_property_def children_def)
qed

lemma map_entries_children: "p \<in> set (map_entries e v) \<Longrightarrow> fst p \<in> set (children v) \<and> snd p \<in> set (children v)"
  by (cases v) (force simp: map_entries_def children_def split: if_splits)+

lemma encode_type_cong [fundef_cong]:
  assumes "rt = rt'" "e = e'" "v = v'" "ty = ty'" "\<And>w h. w \<in> set (children v') \<Longrightarrow> f w h = g w h"
  shows "encode_type rt e f v ty = encode_type rt' e' g v' ty'"
proof -
  have list: "encodeList e' f (V_array xs) i = encodeList e' g (V_array xs) i" if "set xs \<subseteq> set (children v')" for xs i
    using that assms(5) unfolding encodeList_def list_item_def by (auto intro!: if_cong rbind_cong rmap_cong refl)
  have lst: "encodeList e' f v' i = encodeList e' g v' i" for i
  proof (cases v')
    case (V_array xs)
    then show ?thesis using list[of xs] by (auto simp: children_def)
  qed (simp_all add: encodeList_def)
  have st: "encodeSet e' f v' i = encodeSet e' g v' i" for i
  proof (cases v')
    case (V_set xs)
    then have "set xs \<subseteq> set (children v')" by (auto simp: children_def)
    from list[OF this] show ?thesis using lst[of i] by (simp add: encodeSet_def V_set)
  qed (use lst[of i] in \<open>simp_all add: encodeSet_def\<close>)
  have mp: "encodeMap rt' e' f v' i = encodeMap rt' e' g v' i" for i
  proof -
    have "rmap (addItem e' f a b) (map_entries e' v') = rmap (addItem e' g a b) (map_entries e' v')" for a b
      using map_entries_children[of _ e' v'] assms(5)
      by (intro rmap_cong refl) (auto simp: addItem_def Let_def intro!: if_cong rbind_cong refl)
    then show ?thesis by (cases v') (simp_all only: encodeMap_def js_value.case)
  qed
  have udt: "encodeUdt f v' i = encodeUdt g v' i" for i
    using assms(5) get_property_child unfolding encodeUdt_def
    by (intro type_info.case_cong rbind_cong rmap_cong refl) simp_all
  have tup: "encodeTuple rt' f v' i = encodeTuple rt' g v' i" for i
  proof (cases v')
    case (V_tuple xs)
    then have "f (snd p) h = g (snd p) h" if "p \<in> set (zip [0..<n] xs)" for p h n
      using that assms(5) by (cases p) (auto simp: children_def dest: set_zip_rightD)
    then have "rmap (\<lambda>p. rbind (f (snd p) (info_at i (fst p))) field_part) (zip [0..<n] xs)
        = rmap (\<lambda>p. rbind (g (snd p) (info_at i (fst p))) field_part) (zip [0..<n] xs)" for n
      by (intro rmap_cong refl) simp
    then show ?thesis by (simp only: encodeTuple_def V_tuple js_value.case)
  qed (simp_all only: encodeTuple_def js_value.case)
  have vec: "encodeVector f v' i = encodeVector g v' i" for i
  proof (cases "vector_elements v'")
    case (Some xs)
    then have "set xs \<subseteq> set (children v')" by (cases v') (auto simp: vector_elements_def children_def)
    then have "rmap (vector_item f t) xs = rmap (vector_item g t) xs" for t
      using assms(5) by (intro rmap_cong refl) (auto simp: vector_item_def)
    then show ?thesis by (simp only: encodeVector_def Some option.case prod.case)
  qed (simp add: encodeVector_def)
  have cus: "encodeCustom rt' f v' i = encodeCustom rt' g v' i" for i
    unfolding encodeCustom_def vec by simp
  show ?thesis unfolding encode_type_def assms(1-4) lst st mp udt tup cus ..
qed

function encode :: "runtime \<Rightarrow> encoder \<Rightarrow> js_value \<Rightarrow> hint \<Rightarrow> encoded result" where
  "encode rt e value h =
     (case encode_absent e value of
        Some r \<Rightarrow> r
      | None \<Rightarrow> rbind (resolve_hint value h) (\<lambda>ty. encode_type rt e (encode rt e) value ty))"
  by pat_completeness auto

termination
proof (relation "measure (\<lambda>(rt, e, value, h). vsize value)")
  fix rt e v h w h'
  assume "encode_absent e v = None" "w \<in> set (children v)"
  then show "((rt, e, w, h'), rt, e, v, h) \<in> measure (\<lambda>(rt, e, value, h). vsize value)"
    using children_smaller[of w v] by (cases "v = V_undefined") (auto simp: encode_absent_def split: if_splits)
qed simp

declare encode.simps [simp del]

end
