(* ===== verification/Codec_Decode.thy ===== *)
theory Codec_Decode
  imports Codec_Encode
begin

text \<open>
  The decoding half of \<open>lib/encoder.js\<close>: a method per CQL type, \<open>decode\<close>, and the rows of a result with the
  \<open>FrameReader\<close> of \<open>lib/reader.js\<close>. The methods for composite types take \<open>decode\<close> as an argument.
\<close>

section \<open>Buffers\<close>

text \<open>\<open>handleBufferCopy\<close> copies and \<open>handleBufferRef\<close> does not; the bytes are the same.\<close>

definition handleBufferCopy :: "buffer \<Rightarrow> buffer" where
  "handleBufferCopy b = map (\<lambda>i. b ! i) [0..<length b]"

definition handleBufferRef :: "buffer \<Rightarrow> buffer" where
  "handleBufferRef b = b"

definition handleBuffer :: "encoder \<Rightarrow> buffer \<Rightarrow> buffer" where
  "handleBuffer e = (if copyBuffer e then handleBufferCopy else handleBufferRef)"

text \<open>A read at an offset that may be negative.\<close>

definition read_at :: "(buffer \<Rightarrow> nat \<Rightarrow> 'a result) \<Rightarrow> buffer \<Rightarrow> int \<Rightarrow> 'a result" where
  "read_at f b off = (if off < 0 then throw (RangeError ''The value of offset is out of range'') else f b (nat off))"

definition decodeCollectionLengthV3 :: "buffer \<Rightarrow> int \<Rightarrow> int result" where
  "decodeCollectionLengthV3 b off = read_at readInt32BE b off"

definition decodeCollectionLengthV2 :: "buffer \<Rightarrow> int \<Rightarrow> int result" where
  "decodeCollectionLengthV2 b off = read_at readUInt16BE b off"

definition decodeCollectionLength :: "encoder \<Rightarrow> buffer \<Rightarrow> int \<Rightarrow> int result" where
  "decodeCollectionLength e = (if uses4BytesCollectionLength (protocolVersion e) then decodeCollectionLengthV3 else decodeCollectionLengthV2)"

definition collectionLengthSize :: "encoder \<Rightarrow> int" where
  "collectionLengthSize e = (if uses4BytesCollectionLength (protocolVersion e) then 4 else 2)"

section \<open>Scalars\<close>

definition decodeBlob :: "encoder \<Rightarrow> buffer \<Rightarrow> js_value result" where
  "decodeBlob e b = return (V_buffer (handleBuffer e b))"

definition decodeUtf8String :: "buffer \<Rightarrow> js_value result" where
  "decodeUtf8String b = return (V_string (utf8_decode b))"

definition decodeAsciiString :: "buffer \<Rightarrow> js_value result" where
  "decodeAsciiString b = return (V_string (ascii_decode b))"

definition decodeBoolean :: "buffer \<Rightarrow> js_value result" where
  "decodeBoolean b = rbind (readUInt8 b 0) (\<lambda>n. return (V_bool (n \<noteq> 0)))"

definition decodeDouble :: "buffer \<Rightarrow> js_value result" where
  "decodeDouble b = rbind (readDoubleBE b 0) (\<lambda>x. return (V_number x))"

definition decodeFloat :: "buffer \<Rightarrow> js_value result" where
  "decodeFloat b = rbind (readFloatBE b 0) (\<lambda>x. return (V_number x))"

definition decodeInt :: "buffer \<Rightarrow> js_value result" where
  "decodeInt b = rbind (readInt32BE b 0) (\<lambda>n. return (V_number (JInt n)))"

definition decodeSmallint :: "buffer \<Rightarrow> js_value result" where
  "decodeSmallint b = rbind (readInt16BE b 0) (\<lambda>n. return (V_number (JInt n)))"

definition decodeTinyint :: "buffer \<Rightarrow> js_value result" where
  "decodeTinyint b = rbind (readInt8 b 0) (\<lambda>n. return (V_number (JInt n)))"

definition decodeCqlLongAsLong :: "buffer \<Rightarrow> int result" where
  "decodeCqlLongAsLong b = Long_fromBuffer b"

text \<open>\<open>BigInt.asIntN(64, x)\<close> is \<open>wrap64\<close>.\<close>

definition decodeCqlLongAsBigInt :: "buffer \<Rightarrow> int result" where
  "decodeCqlLongAsBigInt b =
     rbind (readUInt32BE b 0) (\<lambda>high. rbind (readUInt32BE b 4) (\<lambda>low. return (wrap64 (high * 4294967296 + low))))"

definition decodeLong :: "encoder \<Rightarrow> buffer \<Rightarrow> js_value result" where
  "decodeLong e b =
     (if useBigIntAsLong e then rbind (decodeCqlLongAsBigInt b) (\<lambda>n. return (V_bigint n))
      else rbind (decodeCqlLongAsLong b) (\<lambda>n. return (V_long n)))"

definition decodeVarintAsInteger :: "buffer \<Rightarrow> Integer" where
  "decodeVarintAsInteger b = Integer_fromBuffer b"

text \<open>The two loops of \<open>#decodeVarintAsBigInt\<close>, over the bytes from the last: \<open>i\<close> counts them. The byte
  or its complement is put at bit \<open>8 * i\<close>, above all that was put before.\<close>

fun varint_or :: "int list \<Rightarrow> nat \<Rightarrow> int \<Rightarrow> int" where
  "varint_or [] i result = result"
| "varint_or (b # bs) i result = varint_or bs (Suc i) (or result (push_bit (8 * i) b))"

definition decodeVarintAsBigInt :: "buffer \<Rightarrow> int" where
  "decodeVarintAsBigInt b =
     (if b \<noteq> [] \<and> uint (hd b) \<le> 0x7f then varint_or (map uint (rev b)) 0 0
      else not (varint_or (map (\<lambda>w. and (not (uint w)) 0xff) (rev b)) 0 0))"

definition decodeVarint :: "encoder \<Rightarrow> buffer \<Rightarrow> js_value result" where
  "decodeVarint e b =
     return (if useBigIntAsVarint e then V_bigint (decodeVarintAsBigInt b) else V_integer (decodeVarintAsInteger b))"

definition decodeDecimal :: "buffer \<Rightarrow> js_value result" where
  "decodeDecimal b = rbind (BigDecimal_fromBuffer b) (\<lambda>d. return (V_decimal d))"

text \<open>\<open>new Date(ms)\<close>.\<close>

definition new_Date :: "js_number \<Rightarrow> int option" where
  "new_Date x =
     (case x of
        JNaN \<Rightarrow> None
      | JInt n \<Rightarrow> if \<bar>n\<bar> \<le> 8640000000000000 then Some n else None
      | JReal s ex f \<Rightarrow> if ex = 2047 then None else Some (trunc x))"

definition decodeTimestamp :: "runtime \<Rightarrow> buffer \<Rightarrow> js_value result" where
  "decodeTimestamp rt b = rbind (decodeCqlLongAsLong b) (\<lambda>n. return (V_date (new_Date (Long_toNumber rt n))))"

definition decodeDate :: "buffer \<Rightarrow> js_value result" where
  "decodeDate b = rbind (LocalDate_fromBuffer b) (\<lambda>d. return (V_local_date d))"

definition decodeTime :: "buffer \<Rightarrow> js_value result" where
  "decodeTime b = rbind (LocalTime_fromBuffer b) (\<lambda>t. return (V_local_time t))"

definition decodeDuration :: "buffer \<Rightarrow> js_value result" where
  "decodeDuration b = rbind (Duration_fromBuffer b) (\<lambda>d. return (V_duration d))"

definition decodeUuid :: "encoder \<Rightarrow> buffer \<Rightarrow> js_value result" where
  "decodeUuid e b = rbind (new_Uuid (handleBuffer e b)) (\<lambda>u. return (V_uuid u))"

definition new_TimeUuid :: "buffer \<Rightarrow> Uuid result" where
  "new_TimeUuid b = (if length b \<noteq> 16 then throw (GenericError ''Buffer for v1 uuid not valid'') else new_Uuid b)"

definition decodeTimeUuid :: "encoder \<Rightarrow> buffer \<Rightarrow> js_value result" where
  "decodeTimeUuid e b = rbind (new_TimeUuid (handleBuffer e b)) (\<lambda>u. return (V_timeuuid u))"

definition decodeInet :: "encoder \<Rightarrow> buffer \<Rightarrow> js_value result" where
  "decodeInet e b = rbind (new_InetAddress (handleBuffer e b)) (\<lambda>a. return (V_inet a))"

section \<open>Collections\<close>

text \<open>\<open>this.decode(slice, type)\<close> where the type comes from \<open>info\<close>; \<open>type.code\<close> of \<open>undefined\<close> throws, of
  anything but a column type it is \<open>undefined\<close>.\<close>

definition decode_sub :: "(buffer \<Rightarrow> column_info \<Rightarrow> js_value result) \<Rightarrow> buffer \<Rightarrow> hint \<Rightarrow> js_value result" where
  "decode_sub dec b h =
     (case h of
        Type_hint t \<Rightarrow> dec b t
      | No_hint \<Rightarrow> throw (TypeError ''Cannot read properties of undefined'')
      | _ \<Rightarrow> if b = [] then return V_null else throw (GenericError ''Unknown data type: undefined''))"

fun list_items :: "encoder \<Rightarrow> (buffer \<Rightarrow> js_value result) \<Rightarrow> buffer \<Rightarrow> nat \<Rightarrow> int \<Rightarrow> js_value list result" where
  "list_items e dec b 0 offset = return []"
| "list_items e dec b (Suc n) offset =
     rbind (decodeCollectionLength e b offset) (\<lambda>len.
       let offset = offset + collectionLengthSize e
       in rbind (dec (buf_slice b offset (offset + len))) (\<lambda>v.
          rbind (list_items e dec b n (offset + len)) (\<lambda>vs. return (v # vs))))"

definition decodeList :: "encoder \<Rightarrow> (buffer \<Rightarrow> column_info \<Rightarrow> js_value result) \<Rightarrow> buffer \<Rightarrow> type_info \<Rightarrow> js_value list result" where
  "decodeList e dec b typeInfo =
     rbind (decodeCollectionLength e b 0) (\<lambda>totalItems.
       if totalItems < 0 then throw (RangeError ''Invalid array length'')
       else list_items e (\<lambda>s. decode_sub dec s (info_hint typeInfo)) b (nat totalItems) (collectionLengthSize e))"

definition decodeSet :: "encoder \<Rightarrow> (buffer \<Rightarrow> column_info \<Rightarrow> js_value result) \<Rightarrow> buffer \<Rightarrow> type_info \<Rightarrow> js_value result" where
  "decodeSet e dec b typeInfo =
     rbind (decodeList e dec b typeInfo) (\<lambda>arr. return (if set_class e then new_Set arr else V_array arr))"

text \<open>\<open>readValues\<close>: the keys and values handed to the callback, in order.\<close>

fun readValues :: "encoder \<Rightarrow> (buffer \<Rightarrow> js_value result) \<Rightarrow> (buffer \<Rightarrow> js_value result) \<Rightarrow> buffer \<Rightarrow> nat \<Rightarrow> int \<Rightarrow> (js_value \<times> js_value) list result" where
  "readValues e dk dv b 0 offset = return []"
| "readValues e dk dv b (Suc n) offset =
     rbind (decodeCollectionLength e b offset) (\<lambda>keyLength.
       let offset = offset + collectionLengthSize e
       in rbind (dk (buf_slice b offset (offset + keyLength))) (\<lambda>key.
            let offset = offset + keyLength
            in rbind (decodeCollectionLength e b offset) (\<lambda>valueLength.
                 let offset = offset + collectionLengthSize e
                 in if valueLength < 0 then rbind (readValues e dk dv b n offset) (\<lambda>ps. return ((key, V_null) # ps))
                    else rbind (dv (buf_slice b offset (offset + valueLength))) (\<lambda>v.
                         rbind (readValues e dk dv b n (offset + valueLength)) (\<lambda>ps. return ((key, v) # ps))))))"

definition decodeMap :: "runtime \<Rightarrow> encoder \<Rightarrow> (buffer \<Rightarrow> column_info \<Rightarrow> js_value result) \<Rightarrow> buffer \<Rightarrow> type_info \<Rightarrow> js_value result" where
  "decodeMap rt e dec b typeInfo =
     rbind (decodeCollectionLength e b 0) (\<lambda>totalItems.
     rbind (readValues e (\<lambda>s. decode_sub dec s (info_at typeInfo 0)) (\<lambda>s. decode_sub dec s (info_at typeInfo 1)) b (nat totalItems) (collectionLengthSize e)) (\<lambda>ps.
       return (if map_class e then V_map (foldl (\<lambda>m p. map_set m (fst p) (snd p)) [] ps)
               else V_object (foldl (\<lambda>m p. set_property m (property_key rt (fst p)) (snd p)) [] ps))))"

section \<open>User defined types, tuples, vectors\<close>

fun udt_fields :: "(buffer \<Rightarrow> column_info \<Rightarrow> js_value result) \<Rightarrow> buffer \<Rightarrow> (string \<times> column_info) list \<Rightarrow> int
    \<Rightarrow> (js_text \<times> js_value) list \<Rightarrow> (js_text \<times> js_value) list result" where
  "udt_fields dec b [] offset result = return result"
| "udt_fields dec b (f # fs) offset result =
     (if offset < int (length b) then
        rbind (read_at readInt32BE b offset) (\<lambda>len.
          let offset = offset + 4
          in if len < 0 then udt_fields dec b fs offset (set_property result (text_of (fst f)) V_null)
             else rbind (dec (buf_slice b offset (offset + len)) (snd f)) (\<lambda>v.
                  udt_fields dec b fs (offset + len) (set_property result (text_of (fst f)) v)))
      else return result)"

definition decodeUdt :: "(buffer \<Rightarrow> column_info \<Rightarrow> js_value result) \<Rightarrow> buffer \<Rightarrow> type_info \<Rightarrow> js_value result" where
  "decodeUdt dec b typeInfo =
     (case typeInfo of
        Udt_info keyspace name fs \<Rightarrow> rbind (udt_fields dec b fs 0 []) (\<lambda>ps. return (V_object ps))
      | _ \<Rightarrow> throw (TypeError ''Cannot read properties of undefined''))"

text \<open>Elements that the bytes do not reach stay \<open>undefined\<close>.\<close>

fun tuple_elements :: "(buffer \<Rightarrow> hint \<Rightarrow> js_value result) \<Rightarrow> buffer \<Rightarrow> hint list \<Rightarrow> int \<Rightarrow> js_value list result" where
  "tuple_elements dec b [] offset = return []"
| "tuple_elements dec b (h # hs) offset =
     (if offset < int (length b) then
        rbind (read_at readInt32BE b offset) (\<lambda>len.
          let offset = offset + 4
          in if len < 0 then rbind (tuple_elements dec b hs offset) (\<lambda>vs. return (V_null # vs))
             else rbind (dec (buf_slice b offset (offset + len)) h) (\<lambda>v.
                  rbind (tuple_elements dec b hs (offset + len)) (\<lambda>vs. return (v # vs))))
      else return (map (\<lambda>h. V_undefined) (h # hs)))"

definition Tuple_fromArray :: "js_value list \<Rightarrow> js_value result" where
  "Tuple_fromArray elements =
     (if elements = [] then throw (TypeError ''Tuple must contain at least one value'') else return (V_tuple elements))"

definition decodeTuple :: "(buffer \<Rightarrow> column_info \<Rightarrow> js_value result) \<Rightarrow> buffer \<Rightarrow> type_info \<Rightarrow> js_value result" where
  "decodeTuple dec b typeInfo =
     (if typeInfo = No_info then throw (TypeError ''Cannot read properties of undefined'')
      else
        case info_length typeInfo of
          None \<Rightarrow> Tuple_fromArray [V_undefined]
        | Some n \<Rightarrow> rbind (tuple_elements (decode_sub dec) b (map (info_at typeInfo) [0..<n]) 0) Tuple_fromArray)"

text \<open>Sums and comparisons with \<open>NaN\<close>, which \<open>subarray\<close> takes for 0.\<close>

definition oplus :: "int option \<Rightarrow> int option \<Rightarrow> int option" where
  "oplus a b = (case (a, b) of (Some x, Some y) \<Rightarrow> Some (x + y) | _ \<Rightarrow> None)"

definition exceeds :: "int option \<Rightarrow> int \<Rightarrow> bool" where
  "exceeds a n = (case a of None \<Rightarrow> False | Some x \<Rightarrow> x > n)"

definition subarray :: "buffer \<Rightarrow> int option \<Rightarrow> int option \<Rightarrow> buffer" where
  "subarray b s e = buf_slice b (case s of None \<Rightarrow> 0 | Some x \<Rightarrow> x) (case e of None \<Rightarrow> 0 | Some x \<Rightarrow> x)"

fun vector_items :: "(buffer \<Rightarrow> js_value result) \<Rightarrow> int option \<Rightarrow> buffer \<Rightarrow> nat \<Rightarrow> int option \<Rightarrow> (js_value list \<times> int option) result" where
  "vector_items dec elemLength b 0 offset = return ([], offset)"
| "vector_items dec elemLength b (Suc n) offset =
     (let (sz, bytesRead) =
            (if elemLength = Some (- 1)
             then (case uvintUnpack (subarray b offset (Some (int (length b)))) of (sz, n) \<Rightarrow> (sz, int n))
             else (elemLength, 0));
          offset = oplus offset (Some bytesRead); limit = oplus offset sz
      in if exceeds limit (int (length b)) then throw (TypeError ''Not enough bytes to decode the vector'')
         else rbind (dec (subarray b offset limit)) (\<lambda>v.
              rbind (vector_items dec elemLength b n limit) (\<lambda>(vs, offset). return (v # vs, offset))))"

definition new_Vector :: "js_value list \<Rightarrow> string option \<Rightarrow> js_value result" where
  "new_Vector elements subtype =
     (if elements = [] then throw (TypeError ''Vector must contain at least one value'') else return (V_vector elements subtype))"

definition decodeVector :: "(buffer \<Rightarrow> column_info \<Rightarrow> js_value result) \<Rightarrow> buffer \<Rightarrow> type_info \<Rightarrow> js_value result" where
  "decodeVector dec b params =
     (case params of
        Vector_info subtype dimension \<Rightarrow>
          rbind (vector_items (\<lambda>s. dec s subtype) (serializationSizeIfFixed subtype) b
                   (case dimension of None \<Rightarrow> 0 | Some n \<Rightarrow> nat n) (Some 0)) (\<lambda>(rv, offset).
            if offset \<noteq> Some (int (length b)) then throw (TypeError ''Extra bytes found after decoding the vector'')
            else rbind (getDataTypeNameByCode subtype) (\<lambda>typeInfo. new_Vector rv typeInfo))
      | _ \<Rightarrow> throw (TypeError ''Cannot read properties of undefined''))"

definition decodeCustom :: "encoder \<Rightarrow> (buffer \<Rightarrow> column_info \<Rightarrow> js_value result) \<Rightarrow> buffer \<Rightarrow> type_info \<Rightarrow> js_value result" where
  "decodeCustom e dec b typeInfo =
     (case typeInfo of
        Vector_info t d \<Rightarrow> decodeVector dec b typeInfo
      | Type_name s \<Rightarrow>
          if starts_with s cn_vector then rbind (parseFqTypeName s 0 0) (\<lambda>t. decodeVector dec b (column_info.info t))
          else if s = cn_duration then decodeDuration b
          else return (V_buffer (handleBuffer e b))
      | _ \<Rightarrow> return (V_buffer (handleBuffer e b)))"

section \<open>decode\<close>

text \<open>The table \<open>decoders\<close>.\<close>

definition decode_type :: "runtime \<Rightarrow> encoder \<Rightarrow> (buffer \<Rightarrow> column_info \<Rightarrow> js_value result) \<Rightarrow> buffer \<Rightarrow> column_info \<Rightarrow> js_value result" where
  "decode_type rt e dec b ty =
     (let c = code ty; i = column_info.info ty
      in if c = dt_custom then decodeCustom e dec b i
         else if c = 0x01 then decodeAsciiString b
         else if c = 0x02 \<or> c = 0x05 then decodeLong e b
         else if c = 0x03 then decodeBlob e b
         else if c = 0x04 then decodeBoolean b
         else if c = 0x06 then decodeDecimal b
         else if c = 0x07 then decodeDouble b
         else if c = 0x08 then decodeFloat b
         else if c = 0x09 then decodeInt b
         else if c = 0x0a \<or> c = 0x0d then decodeUtf8String b
         else if c = 0x0b then decodeTimestamp rt b
         else if c = 0x0c then decodeUuid e b
         else if c = 0x0e then decodeVarint e b
         else if c = 0x0f then decodeTimeUuid e b
         else if c = 0x10 then decodeInet e b
         else if c = 0x11 then decodeDate b
         else if c = 0x12 then decodeTime b
         else if c = 0x13 then decodeSmallint b
         else if c = 0x14 then decodeTinyint b
         else if c = dt_duration then decodeDuration b
         else if c = dt_list then rbind (decodeList e dec b i) (\<lambda>vs. return (V_array vs))
         else if c = dt_map then decodeMap rt e dec b i
         else if c = dt_set then decodeSet e dec b i
         else if c = dt_udt then decodeUdt dec b i
         else if c = dt_tuple then decodeTuple dec b i
         else throw (GenericError (''Unknown data type: '' @ show_nat c)))"

definition zeroLengthTypesSupported :: "nat set" where
  "zeroLengthTypesSupported = {0x0a, 0x01, 0x0d, dt_custom, 0x03}"

text \<open>The types the decoder of a type calls \<open>decode\<close> with, and a height that they reduce: a class name that
  is still to be parsed counts for its length.\<close>

definition type_children :: "column_info \<Rightarrow> column_info list" where
  "type_children ty =
     (case column_info.info ty of
        Sub_type t \<Rightarrow> [t]
      | Sub_types ts \<Rightarrow> ts
      | Udt_info keyspace name fs \<Rightarrow> map snd fs
      | Vector_info t d \<Rightarrow> [t]
      | Type_name s \<Rightarrow> (case parseFqTypeName s 0 0 of Inr (Column_Info c (Vector_info t d) opts) \<Rightarrow> [t] | _ \<Rightarrow> [])
      | No_info \<Rightarrow> [])"

fun type_height :: "column_info \<Rightarrow> nat" and info_height :: "type_info \<Rightarrow> nat" where
  "type_height (Column_Info c i opts) = info_height i"
| "info_height No_info = 0"
| "info_height (Sub_type t) = Suc (type_height t)"
| "info_height (Sub_types ts) = Suc (foldr max (map type_height ts) 0)"
| "info_height (Udt_info keyspace name fs) = Suc (foldr max (map (\<lambda>f. type_height (snd f)) fs) 0)"
| "info_height (Vector_info t d) = Suc (type_height t)"
| "info_height (Type_name s) = length s"

lemma foldr_max_le: "foldr max (map f xs) 0 \<le> n \<longleftrightarrow> (\<forall>x \<in> set xs. f x \<le> n)" for n :: nat
  by (induction xs) auto

lemma foldr_max_less: "foldr max (map f xs) 0 < n \<longleftrightarrow> 0 < n \<and> (\<forall>x \<in> set xs. f x < n)" for n :: nat
  by (induction xs) auto

lemma parse_height: "parseFqTypeName s i n = Inr t \<Longrightarrow> type_height t \<le> length s"
proof (induction "length s" arbitrary: s i n t rule: less_induct)
  case less
  obtain j k opts where h: "fq_header s i n = (j, k, opts)" by (cases "fq_header s i n")
  let ?ps = "\<lambda>c m. parseParams s (j + length c + 1) m (CHR ''('') (CHR '')'')"
  have short: "type_height u < length s" if "parseFqTypeName p i' n' = Inr u" "p \<in> set (?ps c m)" "s \<noteq> []" for u p c m i' n'
    using less.hyps[OF parseParams_short that(1)] parseParams_short[OF that(2)] that by fastforce
  have ne: "s \<noteq> []" if "matches_at s c j" "c \<in> {cn_list, cn_set, cn_map, cn_udt, cn_tuple, cn_vector}" for c
    using matches_at_nonempty[OF that(1)] that(2) by auto
  note prem = less.prems[unfolded parseFqTypeName.simps[of s] h prod.case Let_def not_valid_def]
  show ?case
  proof (cases "s = cn_empty \<or> k \<le> int singleFqTypeNamesLength")
    case True
    then show ?thesis using prem by (auto simp: cn_empty_def marshal_def split: if_splits option.splits)
  next
    case False
    then have "s \<noteq> cn_empty" "\<not> k \<le> int singleFqTypeNamesLength" by simp_all
    note prem = prem[unfolded if_not_P[OF this(1)] if_not_P[OF this(2)]]
    have one: "Suc (type_height u) \<le> length s" if "parseFqTypeName (?ps c m ! q) 0 0 = Inr u" "q < length (?ps c m)" "s \<noteq> []" for u q c m
      using short[OF that(1) nth_mem[OF that(2)] that(3)] by (rule Suc_leI)
    have many: "type_height u < length s" if "rmap (\<lambda>p. parseFqTypeName p (f p) (g p)) ps = Inr us" "u \<in> set us" "set ps \<subseteq> set (?ps c m)" "s \<noteq> []"
      for u us ps f g c m using rmap_result[OF that(1,2)] short that(3,4) by blast
    have lists: "rbind (parseFqTypeName (?ps c m ! 0) 0 0) (\<lambda>u. Inr (Column_Info l (Sub_type u) opts)) = Inr t
        \<Longrightarrow> length (?ps c m) = 1 \<Longrightarrow> s \<noteq> [] \<Longrightarrow> ?thesis" for c m l
      using one[of c m 0] by auto
    have maps: "rbind (parseFqTypeName (?ps c m ! 0) 0 0) (\<lambda>u. rbind (parseFqTypeName (?ps c m ! 1) 0 0) (\<lambda>v. Inr (Column_Info l (Sub_types [u, v]) opts))) = Inr t
        \<Longrightarrow> length (?ps c m) = 2 \<Longrightarrow> s \<noteq> [] \<Longrightarrow> ?thesis" for c m l
      using one[of c m 0] one[of c m 1] by auto
    have tuples: "rbind (rmap (\<lambda>x. parseFqTypeName x 0 0) (?ps c m)) (\<lambda>us. Inr (Column_Info l (Sub_types us) opts)) = Inr t
        \<Longrightarrow> s \<noteq> [] \<Longrightarrow> ?thesis" for c m l
      using many[of "\<lambda>_. 0" "\<lambda>_. 0" "?ps c m" _ _ c m] by (auto simp: Suc_le_eq foldr_max_less)
    have udts: "parseUdtName parseFqTypeName s (j + length c + 1) m opts = Inr t \<Longrightarrow> s \<noteq> [] \<Longrightarrow> ?thesis" for c m
    proof -
      assume u: "parseUdtName parseFqTypeName s (j + length c + 1) m opts = Inr t" and "s \<noteq> []"
      then obtain us where us: "rmap (\<lambda>p. parseFqTypeName p (udt_field_start p) (int (length p) - int (udt_field_start p))) (drop 2 (?ps c m)) = Inr us"
        and t: "\<exists>a b xs. t = Column_Info dt_udt (Udt_info a b (zip xs us)) opts"
        by (auto simp: parseUdtName_def Let_def not_valid_def split: if_splits)
      have "type_height v < length s" if "v \<in> set us" for v
        using many[OF us that set_drop_subset] \<open>s \<noteq> []\<close> by simp
      then show ?thesis using t \<open>s \<noteq> []\<close> by (auto simp: Suc_le_eq foldr_max_less dest!: set_zip_rightD)
    qed
    have vectors: ?thesis if "parseVectorTypeArgs s cn_vector = Inr (p, d)" "rbind (parseFqTypeName p 0 0) (\<lambda>u. Inr (Column_Info dt_custom (Vector_info u d) opts)) = Inr t" "s \<noteq> []" for p d
      using less.hyps[OF parseVectorTypeArgs_short[OF that(1,3)]] parseVectorTypeArgs_short[OF that(1,3)] that(2) by (fastforce simp: Suc_le_eq intro: le_less_trans)
    have other: "Inr (Column_Info dt_custom (Type_name (substr s j k)) opts) = Inr t \<Longrightarrow> ?thesis" by (auto simp: substr_def)
    have pick: "Q" if "(if A then x else y) = z" "A \<Longrightarrow> x = z \<Longrightarrow> Q" "\<not> A \<Longrightarrow> y = z \<Longrightarrow> Q" for A Q and x y z :: "column_info result"
      using that by (cases A) simp_all
    from prem show ?thesis
    proof (elim pick)
      assume m: "matches_at s cn_vector j" and v: "(case parseVectorTypeArgs s cn_vector of Inl e \<Rightarrow> Inl e
          | Inr (subtype, dimension) \<Rightarrow> rbind (parseFqTypeName subtype 0 0) (\<lambda>i. Inr (Column_Info dt_custom (Vector_info i dimension) opts))) = Inr t"
      then obtain q d where "parseVectorTypeArgs s cn_vector = Inr (q, d)" by (auto split: sum.splits)
      then show ?thesis using vectors[of q d] v ne[OF m] by simp
    qed (rule lists maps tuples udts other, assumption, (simp; fail)?, (rule ne, assumption, simp)? | simp)+
  qed
qed

lemma type_children_height: "t \<in> set (type_children ty) \<Longrightarrow> type_height t < type_height ty"
proof -
  assume t: "t \<in> set (type_children ty)"
  obtain c i opts where ty: "ty = Column_Info c i opts" by (cases ty)
  have mem: "x \<in> set xs \<Longrightarrow> f x \<le> foldr max (map f xs) 0" for x xs and f :: "'a \<Rightarrow> nat"
    using foldr_max_le[of f xs "foldr max (map f xs) 0"] by blast
  show ?thesis
  proof (cases i)
    case (Udt_info k n fs)
    then show ?thesis using t mem[of _ fs "\<lambda>f. type_height (snd f)"] by (auto simp: ty type_children_def less_Suc_eq_le)
  next
    case (Type_name s)
    then obtain d o' c' where "Inr (Column_Info c' (Vector_info t d) o') = parseFqTypeName s 0 0"
      using t by (auto simp: ty type_children_def split: sum.splits column_info.splits type_info.splits)
    then have "parseFqTypeName s 0 0 = Inr (Column_Info c' (Vector_info t d) o')" by (rule sym)
    then have "type_height (Column_Info c' (Vector_info t d) o') \<le> length s" by (rule parse_height)
    then show ?thesis by (simp add: ty Type_name)
  qed (use t mem[of t _ type_height] in \<open>auto simp: ty type_children_def less_Suc_eq_le\<close>)
qed

lemma info_hint_child: "info_hint (column_info.info ty) = Type_hint t \<Longrightarrow> t \<in> set (type_children ty)"
  by (auto simp: info_hint_def type_children_def split: type_info.splits)

lemma info_at_child: "info_at (column_info.info ty) k = Type_hint t \<Longrightarrow> t \<in> set (type_children ty)"
  by (auto simp: info_at_def type_children_def split: type_info.splits if_splits option.splits)

lemma list_items_cong: "(\<And>s. f s = g s) \<Longrightarrow> list_items e f b n off = list_items e g b n off"
  by (metis ext)

lemma decode_type_cong [fundef_cong]:
  assumes "rt = rt'" "e = e'" "b = b'" "ty = ty'" "\<And>s t. t \<in> set (type_children ty') \<Longrightarrow> f s t = g s t"
  shows "decode_type rt e f b ty = decode_type rt' e' g b' ty'"
proof -
  let ?i = "column_info.info ty'"
  have sub: "decode_sub f s (info_hint ?i) = decode_sub g s (info_hint ?i)" for s
    using assms(5) info_hint_child by (auto simp: decode_sub_def split: hint.splits)
  have at: "decode_sub f s (info_at ?i k) = decode_sub g s (info_at ?i k)" for s k
    using assms(5) info_at_child by (auto simp: decode_sub_def split: hint.splits)
  have lst: "decodeList e' f b' ?i = decodeList e' g b' ?i" by (simp only: decodeList_def sub)
  have st: "decodeSet e' f b' ?i = decodeSet e' g b' ?i" by (simp only: decodeSet_def lst)
  have mp: "decodeMap rt' e' f b' ?i = decodeMap rt' e' g b' ?i" by (simp only: decodeMap_def at)
  have fields: "udt_fields f b' fs off r = udt_fields g b' fs off r" if "set (map snd fs) \<subseteq> set (type_children ty')" for fs off r
    using that by (induction fs arbitrary: off r) (auto simp: Let_def assms(5) intro!: rbind_cong)
  have udt: "decodeUdt f b' ?i = decodeUdt g b' ?i"
  proof (cases ?i)
    case (Udt_info k n fs)
    then show ?thesis using fields[of fs] by (simp add: decodeUdt_def type_children_def)
  qed (simp_all add: decodeUdt_def)
  have elems: "tuple_elements (decode_sub f) b' (map (info_at ?i) ks) off = tuple_elements (decode_sub g) b' (map (info_at ?i) ks) off" for ks off
    by (induction ks arbitrary: off) (auto simp: Let_def at intro!: rbind_cong)
  have tup: "decodeTuple f b' ?i = decodeTuple g b' ?i" by (simp only: decodeTuple_def elems)
  have vec: "decodeVector f b' i = decodeVector g b' i" if "\<And>t d. i = Vector_info t d \<Longrightarrow> t \<in> set (type_children ty')" for i
  proof (cases i)
    case (Vector_info t d)
    then have "(\<lambda>s. f s t) = (\<lambda>s. g s t)" using that assms(5) by auto
    then show ?thesis by (simp only: decodeVector_def Vector_info type_info.case)
  qed (simp_all add: decodeVector_def)
  have cus: "decodeCustom e' f b' ?i = decodeCustom e' g b' ?i"
  proof (cases ?i)
    case (Vector_info t d)
    then show ?thesis using vec[of ?i] by (simp add: decodeCustom_def type_children_def)
  next
    case (Type_name s)
    have "decodeVector f b' (column_info.info u) = decodeVector g b' (column_info.info u)" if "parseFqTypeName s 0 0 = Inr u" for u
      using that by (intro vec) (cases u, simp add: type_children_def Type_name)
    then show ?thesis by (auto simp: decodeCustom_def Type_name intro!: rbind_cong)
  qed (simp_all add: decodeCustom_def)
  show ?thesis unfolding decode_type_def assms(1-4) Let_def lst st mp udt tup cus ..
qed

function decode_bytes :: "runtime \<Rightarrow> encoder \<Rightarrow> buffer \<Rightarrow> column_info \<Rightarrow> js_value result" where
  "decode_bytes rt e b ty =
     (if length b = 0 \<and> code ty \<notin> zeroLengthTypesSupported then return V_null
      else decode_type rt e (decode_bytes rt e) b ty)"
  by pat_completeness auto

termination
  by (relation "measure (\<lambda>(rt, e, b, ty). type_height ty)") (auto dest: type_children_height)

declare decode_bytes.simps [simp del]

definition decode :: "runtime \<Rightarrow> encoder \<Rightarrow> buffer option \<Rightarrow> column_info \<Rightarrow> js_value result" where
  "decode rt e b ty = (case b of None \<Rightarrow> return V_null | Some b \<Rightarrow> decode_bytes rt e b ty)"

section \<open>Rows\<close>

record FrameReader =
  fr_offset :: int
  fr_buf :: buffer

definition new_FrameReader :: "buffer \<Rightarrow> FrameReader" where
  "new_FrameReader body = \<lparr>fr_offset = 0, fr_buf = body\<rparr>"

definition FrameReader_slice :: "FrameReader \<Rightarrow> int \<Rightarrow> int option \<Rightarrow> buffer" where
  "FrameReader_slice r begin' end' = buf_slice (fr_buf r) begin' (case end' of None \<Rightarrow> int (length (fr_buf r)) | Some n \<Rightarrow> n)"

definition FrameReader_read :: "FrameReader \<Rightarrow> int option \<Rightarrow> buffer \<times> FrameReader" where
  "FrameReader_read r len =
     (let end' = int (length (fr_buf r));
          end' = (case len of None \<Rightarrow> end' | Some n \<Rightarrow> if fr_offset r + n < int (length (fr_buf r)) then fr_offset r + n else end')
      in (FrameReader_slice r (fr_offset r) (Some end'), r\<lparr>fr_offset := end'\<rparr>))"

definition FrameReader_checkOffset :: "FrameReader \<Rightarrow> int \<Rightarrow> unit result" where
  "FrameReader_checkOffset r newLength =
     (if fr_offset r + newLength > int (length (fr_buf r)) then throw (RangeError ''Trying to access beyond buffer length'') else return ())"

definition FrameReader_readInt :: "FrameReader \<Rightarrow> (int \<times> FrameReader) result" where
  "FrameReader_readInt r =
     rbind (FrameReader_checkOffset r 4) (\<lambda>_.
     rbind (read_at readInt32BE (fr_buf r) (fr_offset r)) (\<lambda>n. return (n, r\<lparr>fr_offset := fr_offset r + 4\<rparr>)))"

definition FrameReader_readBytes :: "FrameReader \<Rightarrow> (buffer option \<times> FrameReader) result" where
  "FrameReader_readBytes r =
     rbind (FrameReader_readInt r) (\<lambda>(len, r).
       if len < 0 then return (None, r)
       else rbind (FrameReader_checkOffset r len) (\<lambda>_. case FrameReader_read r (Some len) of (b, r) \<Rightarrow> return (Some b, r)))"

text \<open>A row: the cells in the order of the columns, each put under its column's name.\<close>

fun decode_cells :: "runtime \<Rightarrow> encoder \<Rightarrow> (js_text \<times> column_info) list \<Rightarrow> FrameReader \<Rightarrow> (js_text \<times> js_value) list
    \<Rightarrow> ((js_text \<times> js_value) list \<times> FrameReader) result" where
  "decode_cells rt e [] r row = return (row, r)"
| "decode_cells rt e (c # cs) r row =
     rbind (FrameReader_readBytes r) (\<lambda>(cellBuffer, r).
     rbind (decode rt e cellBuffer (snd c)) (\<lambda>v. decode_cells rt e cs r (set_property row (fst c) v)))"

fun decode_rows :: "runtime \<Rightarrow> encoder \<Rightarrow> (js_text \<times> column_info) list \<Rightarrow> nat \<Rightarrow> FrameReader \<Rightarrow> (js_text \<times> js_value) list list result" where
  "decode_rows rt e columns 0 r = return []"
| "decode_rows rt e columns (Suc n) r =
     rbind (decode_cells rt e columns r []) (\<lambda>(row, r). rbind (decode_rows rt e columns n r) (\<lambda>rows. return (row # rows)))"

definition decodeRows :: "runtime \<Rightarrow> encoder \<Rightarrow> buffer \<Rightarrow> nat \<Rightarrow> js_text list \<Rightarrow> column_info list \<Rightarrow> (js_text \<times> js_value) list list result" where
  "decodeRows rt e data rowsNumber columnNames columnTypes =
     (let names = columnNames @ replicate (length columnTypes - length columnNames) (text_of ''undefined'')
      in decode_rows rt e (zip names columnTypes) rowsNumber (new_FrameReader data))"

end
