(* ===== verification/Cql_Wire.thy ===== *)
theory Cql_Wire
  imports Codec_Decode Cql_Scalars_Correct Duration_Correct
begin

text \<open>
  The CQL binary format as a relation: which bytes stand for which value of which column type. It says
  nothing of how they are computed; \<open>Codec_Correct\<close> shows that \<open>encode\<close> writes and \<open>decode\<close> reads it.
\<close>

section \<open>Lengths\<close>

definition max_len :: "encoder \<Rightarrow> int" where
  "max_len e = (if uses4BytesCollectionLength (protocolVersion e) then 2147483647 else 65535)"

definition len_bytes :: "encoder \<Rightarrow> nat \<Rightarrow> buffer" where
  "len_bytes e n = be_bytes (if uses4BytesCollectionLength (protocolVersion e) then 4 else 2) (int n)"

definition item :: "encoder \<Rightarrow> buffer \<Rightarrow> buffer" where
  "item e b = len_bytes e (length b) @ b"

definition fits :: "encoder \<Rightarrow> buffer \<Rightarrow> bool" where
  "fits e b \<longleftrightarrow> int (length b) \<le> max_len e"

definition uvint :: "nat \<Rightarrow> buffer" where
  "uvint n = (case uvintPack (int n) of Inr b \<Rightarrow> b | Inl err \<Rightarrow> [])"

text \<open>A field of a user defined type or a tuple: a signed length and the bytes, or the length -1.\<close>

definition null_field :: buffer where
  "null_field = [255, 255, 255, 255]"

definition field :: "buffer \<Rightarrow> buffer" where
  "field b = be_bytes 4 (int (length b)) @ b"

section \<open>The format\<close>

inductive wire :: "encoder \<Rightarrow> column_info \<Rightarrow> js_value \<Rightarrow> buffer \<Rightarrow> bool" for e :: encoder where
  ascii: "list_all (\<lambda>n. n < 128) s \<Longrightarrow> wire e (Column_Info 0x01 i opts) (V_string s) (ascii_encode s)"
| utf8: "list_all scalar s \<Longrightarrow> c \<in> {0x0a, 0x0d} \<Longrightarrow> wire e (Column_Info c i opts) (V_string s) (utf8_encode s)"
| blob: "wire e (Column_Info 0x03 i opts) (V_buffer b) b"
| boolean: "wire e (Column_Info 0x04 i opts) (V_bool x) [if x then 1 else 0]"
| int: "is_int32 n \<Longrightarrow> wire e (Column_Info 0x09 i opts) (V_number (JInt n)) (be_bytes 4 n)"
| smallint: "- 32768 \<le> n \<Longrightarrow> n < 32768 \<Longrightarrow> wire e (Column_Info 0x13 i opts) (V_number (JInt n)) (be_bytes 2 n)"
| tinyint: "- 128 \<le> n \<Longrightarrow> n < 128 \<Longrightarrow> wire e (Column_Info 0x14 i opts) (V_number (JInt n)) (be_bytes 1 n)"
| bigint: "is_int64 n \<Longrightarrow> c \<in> {0x02, 0x05} \<Longrightarrow>
    wire e (Column_Info c i opts) (if useBigIntAsLong e then V_bigint n else V_long n) (be_bytes 8 n)"
| varint: "Integer_wf k \<Longrightarrow>
    wire e (Column_Info 0x0e i opts) (if useBigIntAsVarint e then V_bigint (Integer_val k) else V_integer k) (Integer_toBuffer k)"
| decimal: "Integer_wf (bd_intVal d) \<Longrightarrow> is_int32 (bd_scale d) \<Longrightarrow>
    wire e (Column_Info 0x06 i opts) (V_decimal d) (be_bytes 4 (bd_scale d) @ Integer_toBuffer (bd_intVal d))"
| double: "is_double x \<Longrightarrow> wire e (Column_Info 0x07 i opts) (V_number x) (writeDoubleBE x)"
| float: "is_float x \<Longrightarrow> wire e (Column_Info 0x08 i opts) (V_number x) (writeFloatBE x)"
| timestamp: "\<bar>ms\<bar> \<le> 8640000000000000 \<Longrightarrow> wire e (Column_Info 0x0b i opts) (V_date (Some ms)) (be_bytes 8 ms)"
| uuid: "length b = 16 \<Longrightarrow> wire e (Column_Info 0x0c i opts) (V_uuid (Uuid b)) b"
| timeuuid: "length b = 16 \<Longrightarrow> wire e (Column_Info 0x0f i opts) (V_timeuuid (Uuid b)) b"
| inet: "length b \<in> {4, 16} \<Longrightarrow> wire e (Column_Info 0x10 i opts) (V_inet (InetAddress b)) b"
| date: "LocalDate_wf d \<Longrightarrow> wire e (Column_Info 0x11 i opts) (V_local_date d) (be_bytes 4 (LocalDate_days d + 2147483648))"
| time: "0 \<le> lt_value t \<Longrightarrow> lt_value t \<le> maxNanos \<Longrightarrow> wire e (Column_Info 0x12 i opts) (V_local_time t) (be_bytes 8 (lt_value t))"
| duration: "Duration_valid d \<Longrightarrow> c = dt_duration \<or> c = dt_custom \<and> i = Type_name cn_duration \<Longrightarrow>
    wire e (Column_Info c i opts) (V_duration d) (vint_enc (dmonths d) @ vint_enc (ddays d) @ vint_enc (dnanos d))"
| list: "xs \<noteq> [] \<Longrightarrow> int (length xs) \<le> max_len e \<Longrightarrow> list_all2 (wire e t) xs bs \<Longrightarrow> list_all (fits e) bs \<Longrightarrow>
    wire e (Column_Info dt_list (Sub_type t) opts) (V_array xs) (len_bytes e (length xs) @ concat (map (item e) bs))"
| set: "xs \<noteq> [] \<Longrightarrow> int (length xs) \<le> max_len e \<Longrightarrow> list_all2 (wire e t) xs bs \<Longrightarrow> list_all (fits e) bs \<Longrightarrow>
    set_class e \<longrightarrow> foldl set_add [] xs = xs \<Longrightarrow>
    wire e (Column_Info dt_set (Sub_type t) opts) (if set_class e then V_set xs else V_array xs)
      (len_bytes e (length xs) @ concat (map (item e) bs))"
| map_of_class: "map_class e \<Longrightarrow> int (length ps) \<le> max_len e \<Longrightarrow> list_all2 (wire e t) (map fst ps) ks \<Longrightarrow> list_all2 (wire e u) (map snd ps) vs \<Longrightarrow>
    list_all (fits e) ks \<Longrightarrow> list_all (fits e) vs \<Longrightarrow> foldl (\<lambda>m p. map_set m (fst p) (snd p)) [] ps = ps \<Longrightarrow>
    wire e (Column_Info dt_map (Sub_types [t, u]) opts) (V_map ps)
      (len_bytes e (length ps) @ concat (map (\<lambda>p. item e (fst p) @ item e (snd p)) (zip ks vs)))"
| map_of_object: "\<not> map_class e \<Longrightarrow> int (length ps) \<le> max_len e \<Longrightarrow> list_all2 (wire e t) (map (\<lambda>p. V_string (fst p)) ps) ks \<Longrightarrow>
    list_all2 (wire e u) (map snd ps) vs \<Longrightarrow>
    list_all (fits e) ks \<Longrightarrow> list_all (fits e) vs \<Longrightarrow> foldl (\<lambda>m p. set_property m (fst p) (snd p)) [] ps = ps \<Longrightarrow>
    wire e (Column_Info dt_map (Sub_types [t, u]) opts) (V_object ps)
      (len_bytes e (length ps) @ concat (map (\<lambda>p. item e (fst p) @ item e (snd p)) (zip ks vs)))"
| udt: "fs \<noteq> [] \<Longrightarrow> distinct (map fst fs) \<Longrightarrow> length vs = length fs \<Longrightarrow>
    list_all2 (\<lambda>p part. snd p = V_null \<and> part = null_field
        \<or> (\<exists>b. wire e (fst p) (snd p) b \<and> int (length b) \<le> 2147483647 \<and> part = field b)) (zip (map snd fs) vs) parts \<Longrightarrow>
    ps = zip (map (\<lambda>f. text_of (fst f)) fs) vs \<Longrightarrow> foldl (\<lambda>m p. set_property m (fst p) (snd p)) [] ps = ps \<Longrightarrow>
    wire e (Column_Info dt_udt (Udt_info keyspace name fs) opts) (V_object ps) (concat parts)"
| tuple: "ts \<noteq> [] \<Longrightarrow> length vs = length ts \<Longrightarrow>
    list_all2 (\<lambda>p part. snd p = V_null \<and> part = null_field
        \<or> (\<exists>b. wire e (fst p) (snd p) b \<and> int (length b) \<le> 2147483647 \<and> part = field b)) (zip ts vs) parts \<Longrightarrow>
    wire e (Column_Info dt_tuple (Sub_types ts) opts) (V_tuple vs) (concat parts)"
| vector_fixed: "xs \<noteq> [] \<Longrightarrow> list_all2 (wire e t) xs bs \<Longrightarrow> serializationSizeIfFixed t = Some n \<Longrightarrow> n \<noteq> - 1 \<Longrightarrow>
    list_all (\<lambda>b. int (length b) = n) bs \<Longrightarrow> getDataTypeNameByCode t = Inr name \<Longrightarrow>
    wire e (Column_Info dt_custom (Vector_info t (Some (int (length xs)))) opts) (V_vector xs name) (concat bs)"
| vector_variable: "xs \<noteq> [] \<Longrightarrow> list_all2 (wire e t) xs bs \<Longrightarrow> serializationSizeIfFixed t = Some (- 1) \<Longrightarrow>
    list_all (\<lambda>b. length b < 2 ^ 31) bs \<Longrightarrow> getDataTypeNameByCode t = Inr name \<Longrightarrow>
    wire e (Column_Info dt_custom (Vector_info t (Some (int (length xs)))) opts) (V_vector xs name)
      (concat (map (\<lambda>b. uvint (length b) @ b) bs))"

text \<open>What the format needs of the runtime: the \<open>Long\<close> library converts the times of dates exactly, and the
  shared buffers of \<open>duration.js\<close> have their size.\<close>

definition rt_ok :: "runtime \<Rightarrow> bool" where
  "rt_ok rt \<longleftrightarrow> (\<forall>n. \<bar>n\<bar> \<le> 8640000000000000 \<longrightarrow> Long_fromNumber rt (JInt n) = n \<and> Long_toNumber rt n = JInt n)
     \<and> reusable_ok (rt_buffers rt)"

lemma wire_present: "wire e t v b \<Longrightarrow> \<not> absent v"
  by (induction rule: wire.induct) (simp_all add: absent_def)

end
