(* ===== verification/Varint_Correct.thy ===== *)
theory Varint_Correct
  imports Codec_Decode Big_Integer_Bytes
begin

text \<open>
  The two codecs of \<open>varint\<close>: the one on \<open>BigInt\<close> writes the same bytes as \<open>Integer.toBuffer\<close> and reads the
  two's complement as \<open>Integer.fromBuffer\<close> does.
\<close>

section \<open>Writing\<close>

definition digits :: "int list \<Rightarrow> bool" where
  "digits ps \<longleftrightarrow> ps \<noteq> [] \<and> (\<forall>p \<in> set ps. 0 \<le> p \<and> p < 256)"

lemma digits_snoc: "digits (ps @ [p]) \<longleftrightarrow> (ps = [] \<or> digits ps) \<and> 0 \<le> p \<and> p < 256"
  by (auto simp: digits_def)

lemma positive_parts_eq:
  "0 < v \<Longrightarrow> \<exists>ps. positive_parts v acc = ps @ acc \<and> digits ps \<and> 0 < hd ps \<and> be_val (map to_byte ps) = v"
proof (induction v acc rule: positive_parts.induct)
  case (1 v acc)
  have step: "positive_parts v acc = positive_parts (v div 256) ((v mod 256) # acc)" using 1(2) by (subst positive_parts.simps) simp
  show ?case
  proof (cases "v < 256")
    case True
    then have "positive_parts v acc = [v] @ acc" using 1(2) step positive_parts.simps[of 0] by simp
    then show ?thesis using True 1(2) by (intro exI[of _ "[v]"]) (simp add: digits_def be_val_Cons)
  next
    case False
    then have "0 < v div 256" using 1(2) by (simp add: pos_imp_zdiv_pos_iff)
    then obtain ps where ps: "positive_parts (v div 256) ((v mod 256) # acc) = ps @ (v mod 256) # acc" "digits ps" "0 < hd ps"
        "be_val (map to_byte ps) = v div 256"
      using 1 by force
    then show ?thesis using step by (intro exI[of _ "ps @ [v mod 256]"]) (auto simp: digits_snoc digits_def hd_append)
  qed
qed

lemma negative_parts_eq:
  "v < - 1 \<Longrightarrow> \<exists>ps. negative_parts v acc = ps @ acc \<and> digits ps \<and> hd ps < 255 \<and> be_val (map to_byte ps) = v + 256 ^ length ps"
proof (induction v acc rule: negative_parts.induct)
  case (1 v acc)
  have step: "negative_parts v acc = negative_parts (v div 256) ((v mod 256) # acc)" using 1(2) by (subst negative_parts.simps) simp
  show ?case
  proof (cases "- 256 \<le> v")
    case True
    then have d: "v div 256 = - 1" using 1(2) by (intro int_div_pos_eq[of _ _ _ "v + 256"]) simp_all
    have m: "v mod 256 = v + 256" unfolding minus_div_mult_eq_mod[symmetric] d by simp
    then have "negative_parts v acc = [v + 256] @ acc" using step negative_parts.simps[of "- 1"] by (simp add: d m)
    then show ?thesis using True 1(2) by (intro exI[of _ "[v + 256]"]) (simp add: digits_def be_val_Cons m)
  next
    case False
    then have "v div 256 < - 1" by linarith
    then obtain ps where ps: "negative_parts (v div 256) ((v mod 256) # acc) = ps @ (v mod 256) # acc" "digits ps" "hd ps < 255"
        "be_val (map to_byte ps) = v div 256 + 256 ^ length ps"
      using 1 by force
    then show ?thesis using step by (intro exI[of _ "ps @ [v mod 256]"]) (auto simp: digits_snoc digits_def hd_append distrib_right)
  qed
qed

lemma be_val_hd:
  assumes "digits ps"
  shows "hd ps * 256 ^ (length ps - 1) \<le> be_val (map to_byte ps)" "be_val (map to_byte ps) < (hd ps + 1) * 256 ^ (length ps - 1)"
proof -
  obtain p r where ps: "ps = p # r" using assms by (cases ps) (auto simp: digits_def)
  have "p mod 256 = p" using assms by (simp add: digits_def ps)
  then show "hd ps * 256 ^ (length ps - 1) \<le> be_val (map to_byte ps)" "be_val (map to_byte ps) < (hd ps + 1) * 256 ^ (length ps - 1)"
    using be_val_range[of "map to_byte r"] by (simp_all add: ps be_val_Cons distrib_right)
qed

lemma scale_mono: "a \<le> b \<Longrightarrow> a * 256 ^ k \<le> b * 256 ^ k" for a b :: int
  by (simp add: mult_right_mono)

text \<open>A run of bytes is the shortest for its value if one byte less does not hold it.\<close>

definition tight :: "buffer \<Rightarrow> int \<Rightarrow> bool" where
  "tight b v \<longleftrightarrow> b \<noteq> [] \<and> be_sval b = v \<and>
     (1 < length b \<longrightarrow> v < - (128 * 256 ^ (length b - 2)) \<or> 128 * 256 ^ (length b - 2) \<le> v)"

lemma tight_shortest:
  assumes "tight b v" "c \<noteq> []" "be_sval c = v" shows "length b \<le> length c"
proof (rule ccontr)
  assume "\<not> length b \<le> length c"
  then have l: "length c - 1 \<le> length b - 2" "1 < length b" using assms(2) by (cases c; simp)+
  then have "128 * (256 :: int) ^ (length c - 1) \<le> 128 * 256 ^ (length b - 2)" by (intro mult_left_mono power_increasing) auto
  then show False using be_sval_range[OF assms(2)] assms(1,3) l(2) unfolding tight_def by linarith
qed

lemma be_bytes_be_sval: "be_bytes (length b) (be_sval b) = b"
proof -
  have "be_bytes (length b) (be_sval b) = be_bytes (length b) (be_val b)" by (rule be_bytes_cong) (use be_sval_mod[of b] be_val_range[of b] in simp)
  then show ?thesis by (simp add: be_bytes_be_val)
qed

lemma hd_to_byte: "digits ps \<Longrightarrow> uint (hd (map to_byte ps)) = hd ps"
  by (cases ps) (simp_all add: digits_def)

lemma varint_bytes_tight: "tight (varint_bytes v) v"
proof -
  consider "v = 0" | "v = - 1" | "0 < v" | "v < - 1" by linarith
  then show ?thesis
  proof cases
    case 3
    obtain ps where ps: "positive_parts v [] = ps" "digits ps" "0 < hd ps" "be_val (map to_byte ps) = v"
      using positive_parts_eq[OF 3, of "[]"] by auto
    have ne: "ps \<noteq> []" using ps(2) by (simp add: digits_def)
    show ?thesis
    proof (cases "hd ps > 0x7f")
      case True
      then have "varint_bytes v = 0 # map to_byte ps" using 3 ps(1) by (simp add: varint_bytes_def to_byte_def)
      moreover have "128 * 256 ^ (length ps - 1) \<le> v"
        using be_val_hd(1)[OF ps(2)] scale_mono[of 128 "hd ps" "length ps - 1"] True ps(4) by linarith
      ultimately show ?thesis using ps(4) by (simp add: tight_def be_sval_def be_val_Cons)
    next
      case False
      then have "varint_bytes v = map to_byte ps" using 3 ps(1) by (simp add: varint_bytes_def)
      moreover have "be_sval (map to_byte ps) = v" using False hd_to_byte[OF ps(2)] ps(4) by (simp add: be_sval_def)
      moreover have "128 * 256 ^ (length ps - 2) \<le> v" if "1 < length ps"
      proof -
        have "(256 :: int) ^ (length ps - 1) = 256 * 256 ^ (length ps - 2)" using that by (simp flip: power_Suc add: Suc_diff_Suc numeral_2_eq_2)
        then show ?thesis
          using be_val_hd(1)[OF ps(2)] scale_mono[of 1 "hd ps" "length ps - 1"] ps(3,4) zero_le_power[of "256 :: int" "length ps - 2"] by linarith
      qed
      ultimately show ?thesis using ne by (simp add: tight_def)
    qed
  next
    case 4
    obtain ps where ps: "negative_parts v [] = ps" "digits ps" "hd ps < 255" "be_val (map to_byte ps) = v + 256 ^ length ps"
      using negative_parts_eq[OF 4, of "[]"] by auto
    have ne: "ps \<noteq> []" using ps(2) by (simp add: digits_def)
    have pw: "(256 :: int) ^ length ps = 256 * 256 ^ (length ps - 1)" using ne by (simp flip: power_Suc)
    show ?thesis
    proof (cases "hd ps \<le> 0x7f")
      case True
      then have "varint_bytes v = 255 # map to_byte ps" using 4 ps(1) by (simp add: varint_bytes_def to_byte_def)
      moreover have "v < - (128 * 256 ^ (length ps - 1))"
        using be_val_hd(2)[OF ps(2)] scale_mono[of "hd ps + 1" 128 "length ps - 1"] True ps(4) pw by linarith
      ultimately show ?thesis using ps(4) by (simp add: tight_def be_sval_def be_val_Cons)
    next
      case False
      then have "varint_bytes v = map to_byte ps" using 4 ps(1) by (simp add: varint_bytes_def)
      moreover have "be_sval (map to_byte ps) = v" using False hd_to_byte[OF ps(2)] ps(4) ne by (simp add: be_sval_def)
      moreover have "v < - (128 * 256 ^ (length ps - 2))" if "1 < length ps"
      proof -
        have "(256 :: int) ^ (length ps - 1) = 256 * 256 ^ (length ps - 2)" using that by (simp flip: power_Suc add: Suc_diff_Suc numeral_2_eq_2)
        moreover have "(0 :: int) < 256 ^ (length ps - 2)" by simp
        ultimately show ?thesis
          using be_val_hd(2)[OF ps(2)] scale_mono[of "hd ps + 1" 255 "length ps - 1"] ps(3,4) pw by linarith
      qed
      ultimately show ?thesis using ne by (simp add: tight_def)
    qed
  qed (simp_all add: tight_def varint_bytes_def be_sval_def be_val_Cons)
qed

lemma varint_bytes_eq:
  assumes "Integer_wf a" shows "varint_bytes (Integer_val a) = Integer_toBuffer a"
proof -
  note t = varint_bytes_tight[of "Integer_val a"]
  have ne: "Integer_toBuffer a \<noteq> []" using toBuffer_eq[OF assms] by (metis length_be_bytes list.size(3) nat.distinct(2))
  have "length (varint_bytes (Integer_val a)) = length (Integer_toBuffer a)"
    using tight_shortest[OF t ne toBuffer_val[OF assms]] toBuffer_minimal[OF assms, of "varint_bytes (Integer_val a)"] t by (simp add: tight_def)
  moreover have "be_sval (varint_bytes (Integer_val a)) = be_sval (Integer_toBuffer a)" using t toBuffer_val[OF assms] by (simp add: tight_def)
  ultimately show ?thesis by (metis be_bytes_be_sval)
qed

section \<open>Reading\<close>

lemma or_shift: "0 \<le> a \<Longrightarrow> a < 2 ^ k \<Longrightarrow> or a (push_bit k b) = a + 2 ^ k * b" for a b :: int
proof -
  assume a: "0 \<le> a" "a < 2 ^ k"
  then have "take_bit k a = a" by (simp add: take_bit_eq_mod)
  moreover have "and (take_bit k a) (push_bit k b) = 0" by (rule bit_eqI) (auto simp: bit_simps)
  ultimately have "and a (push_bit k b) = 0" by simp
  then show ?thesis using plus_and_or[of a "push_bit k b"] by (simp add: push_bit_eq_mult mult.commute)
qed

lemma varint_or_eq:
  "0 \<le> r \<Longrightarrow> r < 256 ^ i \<Longrightarrow> \<forall>b \<in> set bs. 0 \<le> b \<and> b < 256 \<Longrightarrow> varint_or bs i r = r + 256 ^ i * be_val (map to_byte (rev bs))"
proof (induction bs arbitrary: i r)
  case (Cons b bs)
  have p: "(256 :: int) ^ i = 2 ^ (8 * i)" by (simp add: power_mult)
  have "or r (push_bit (8 * i) b) = r + 256 ^ i * b" using Cons.prems by (simp add: or_shift p)
  moreover have "r + 256 ^ i * b < 256 ^ Suc i"
  proof -
    have "256 ^ i * (b + 1) \<le> 256 ^ i * 256" using Cons.prems(3) by (intro mult_left_mono) auto
    then show ?thesis using Cons.prems(2) unfolding distrib_left power_Suc2 by linarith
  qed
  ultimately show ?case using Cons.IH[of "r + 256 ^ i * b" "Suc i"] Cons.prems by (simp add: distrib_left)
qed simp

lemma decodeVarintAsBigInt_eq: "b \<noteq> [] \<Longrightarrow> decodeVarintAsBigInt b = be_sval b"
proof (cases "uint (hd b) \<le> 0x7f")
  case True
  assume "b \<noteq> []"
  then show ?thesis using True varint_or_eq[of 0 0 "map uint (rev b)"] by (simp add: decodeVarintAsBigInt_def be_sval_def rev_map o_def)
next
  case False
  assume ne: "b \<noteq> []"
  have low: "(255 - uint w) mod 256 = 255 - uint w" for w :: byte
    using uint_byte_lt[of w] uint_ge_0[of w] by (intro mod_pos_pos_trivial; linarith)
  have c: "and (not (uint w)) 0xff = 255 - uint w" for w :: byte
  proof -
    have "and (not (uint w)) 0xff = not (uint w) mod 256" using take_bit_eq_mask[of 8 "not (uint w)"] by (simp add: mask_eq_exp_minus_1 take_bit_eq_mod)
    also have "\<dots> = 255 - uint w"
    proof -
      have "not (uint w) mod 256 = (not (uint w) + 256) mod 256" by simp
      also have "not (uint w) + 256 = 255 - uint w" by (simp add: not_eq_complement)
      also have "(255 - uint w) mod 256 = 255 - uint w" by (rule low)
      finally show ?thesis .
    qed
    finally show ?thesis .
  qed
  have "be_val (map (\<lambda>w. to_byte (255 - uint w)) x) = 256 ^ length x - 1 - be_val x" for x :: buffer
  proof (induction x rule: rev_induct)
    case (snoc w x)
    have "(255 - uint w) mod 256 = 255 - uint w" by (rule low)
    then show ?case using snoc by simp
  qed simp
  moreover have "varint_or (map (\<lambda>w. 255 - uint w) (rev b)) 0 0 = be_val (map (\<lambda>w. to_byte (255 - uint w)) b)"
    using varint_or_eq[of 0 0 "map (\<lambda>w. 255 - uint w) (rev b)"] uint_ge_0[where ?'a = 8] by (simp add: rev_map o_def less_imp_le order.strict_trans2[of "- 1" 0])
  moreover have "decodeVarintAsBigInt b = not (varint_or (map (\<lambda>w. 255 - uint w) (rev b)) 0 0)"
    using False unfolding decodeVarintAsBigInt_def c by simp
  ultimately show ?thesis using False ne by (simp add: be_sval_def not_eq_complement)
qed

text \<open>The codec of \<open>varint\<close> on \<open>BigInt\<close> and the one on \<open>Integer\<close> agree: they write the same bytes for the
  same number, these are its shortest two's complement, and they read any bytes as the same number.\<close>

theorem varint_codecs_agree:
  assumes "Integer_wf a" "b \<noteq> []"
  shows "encodeVarintFromBigInt rt (V_bigint (Integer_val a)) = encodeVarintFromInteger rt (V_integer a)
    \<and> decodeVarintAsBigInt b = Integer_val (decodeVarintAsInteger b)
    \<and> decodeVarintAsBigInt (varint_bytes n) = n"
  using assms varint_bytes_tight[of n] Integer_fromBuffer_correct[of b]
  by (simp add: encodeVarintFromBigInt_def encodeVarintFromInteger_def varint_bytes_eq decodeVarintAsBigInt_eq decodeVarintAsInteger_def tight_def)

theorem varint_codecs_agree_witness:
  "decodeVarintAsBigInt (varint_bytes (- 129)) = - 129 \<and> decodeVarintAsBigInt [255, 127] = Integer_val (decodeVarintAsInteger [255, 127])"
  using varint_codecs_agree[of "\<lparr>ibits = [], isign = 0\<rparr>" "[255, 127]" _ "- 129"] by (simp add: Integer_wf_def is_sign_def)

end
