(* ===== verification/Codec_Correct.thy ===== *)
theory Codec_Correct
  imports Cql_Wire Varint_Correct
begin

text \<open>
  \<open>encode\<close> writes the wire format and \<open>decode\<close> reads it: a lemma per composite type about its method with
  any element codec, then both claims by induction on the format.
\<close>

section \<open>Lengths\<close>

lemma zero_bytes: "be_bytes 4 0 = [0, 0, 0, 0]" "be_bytes 2 0 = [0, 0]"
  by code_simp+

lemma getLengthBuffer_ok: "int n \<le> max_len e \<Longrightarrow> getLengthBuffer e (Some (int n)) = Inr (len_bytes e n)"
  by (auto simp: getLengthBuffer_def getLengthBufferV3_def getLengthBufferV2_def max_len_def len_bytes_def writeInt32BE_def
      writeUInt16BE_def write_be_def zero_bytes split: if_splits)

lemma length_len_bytes: "int (length (len_bytes e n)) = collectionLengthSize e"
  by (simp add: len_bytes_def collectionLengthSize_def)

lemma read_at_skip: "read_at f b (int n) = f b n"
  by (simp add: read_at_def)

lemma readInt32BE_at: "is_int32 n \<Longrightarrow> readInt32BE (a @ be_bytes 4 n @ r) (length a) = Inr n"
  using read_run_skip[of "length a" a "be_bytes 4 n @ r" 0 4] readInt32BE_be_bytes[of n r] by (simp add: readInt32BE_def)

lemma readUInt16BE_at: "0 \<le> n \<Longrightarrow> n < 65536 \<Longrightarrow> readUInt16BE (a @ be_bytes 2 n @ r) (length a) = Inr n"
  using read_run_skip[of "length a" a "be_bytes 2 n @ r" 0 2] readUInt16BE_be_bytes[of n r] by (simp add: readUInt16BE_def)

lemma read_len: "int n \<le> max_len e \<Longrightarrow> decodeCollectionLength e (a @ len_bytes e n @ r) (int (length a)) = Inr (int n)"
  by (auto simp: decodeCollectionLength_def decodeCollectionLengthV3_def decodeCollectionLengthV2_def max_len_def len_bytes_def
      read_at_skip readInt32BE_at readUInt16BE_at is_int32_def split: if_splits)

lemma slice_mid: "buf_slice (a @ b @ r) (int (length a)) (int (length a) + int (length b)) = b"
  using buf_slice_nat[of "a @ b @ r" "length a" "length a + length b"] by simp

section \<open>encode\<close>

lemma buffer_concat_simps [simp]:
  "buffer_concat [] = Inr []" "buffer_concat (Bytes b # ps) = rbind (buffer_concat ps) (\<lambda>r. Inr (b @ r))"
  by (auto simp: buffer_concat_def)

lemma buffer_concat_Bytes: "buffer_concat (concat (map (\<lambda>x. map Bytes (f x)) xs)) = Inr (concat (map (\<lambda>x. concat (f x)) xs))"
proof -
  have "buffer_concat (map Bytes bs @ ps) = rbind (buffer_concat ps) (\<lambda>r. Inr (concat bs @ r))" for bs ps
    by (induction bs) (simp_all add: rbind_assoc)
  then show ?thesis by (induction xs) simp_all
qed

text \<open>An element codec that answers each value with its bytes.\<close>

definition writes :: "(js_value \<Rightarrow> hint \<Rightarrow> encoded result) \<Rightarrow> column_info \<Rightarrow> js_value \<Rightarrow> buffer \<Rightarrow> bool" where
  "writes enc t v b \<longleftrightarrow> enc v (Type_hint t) = Inr (Bytes b) \<and> \<not> absent v"

lemma rmap_all2:
  assumes "list_all2 R xs bs" "\<And>x b. x \<in> set xs \<Longrightarrow> b \<in> set bs \<Longrightarrow> R x b \<Longrightarrow> f x = Inr (g b)"
  shows "rmap f xs = Inr (map g bs)"
  using assms by (induction rule: list_all2_induct) auto

lemma encodeList_writes:
  assumes "xs \<noteq> []" "int (length xs) \<le> max_len e" "list_all2 (writes enc t) xs bs" "list_all (fits e) bs"
  shows "encodeList e enc (V_array xs) (Sub_type t) = Inr (Bytes (len_bytes e (length xs) @ concat (map (item e) bs)))"
proof -
  have "rmap (list_item e enc (Type_hint t)) xs = Inr (map (\<lambda>b. map Bytes [len_bytes e (length b), b]) bs)"
    using assms(3)
  proof (rule rmap_all2)
    fix x b assume "b \<in> set bs" "writes enc t x b"
    then show "list_item e enc (Type_hint t) x = Inr (map Bytes [len_bytes e (length b), b])"
      using assms(4) by (simp add: list_item_def writes_def item_length_def getLengthBuffer_ok fits_def list_all_iff)
  qed
  then show ?thesis using assms(1,2) buffer_concat_Bytes[of "\<lambda>b. [len_bytes e (length b), b]" bs]
    by (simp add: encodeList_def info_hint_def getLengthBuffer_ok bytes_def item_def[abs_def])
qed

lemma encodeMap_writes:
  assumes "int (length ps) \<le> max_len e" "list_all2 (writes enc t) (map fst ps) ks" "list_all2 (writes enc u) (map snd ps) vs"
    "list_all (fits e) ks" "list_all (fits e) vs" "map_entries e v = ps" "\<And>s. v \<noteq> V_string s"
  shows "encodeMap rt e enc v (Sub_types [t, u]) = Inr (len_bytes e (length ps) @ concat (map (\<lambda>p. item e (fst p) @ item e (snd p)) (zip ks vs)))"
proof -
  let ?f = "\<lambda>p. [len_bytes e (length (fst p)), fst p, len_bytes e (length (snd p)), snd p :: buffer]"
  have "list_all2 (\<lambda>p b. writes enc t (fst p) (fst b) \<and> writes enc u (snd p) (snd b)) ps (zip ks vs)"
    using assms(2,3) by (auto simp: list_all2_conv_all_nth)
  then have "rmap (addItem e enc (Type_hint t) (Type_hint u)) ps = Inr (map (\<lambda>p. map Bytes (?f p)) (zip ks vs))"
  proof (rule rmap_all2)
    fix p b assume b: "b \<in> set (zip ks vs)" and w: "writes enc t (fst p) (fst b) \<and> writes enc u (snd p) (snd b)"
    have "fits e (fst b) \<and> fits e (snd b)" using b assms(4,5) set_zip_leftD[of "fst b" "snd b" ks vs] set_zip_rightD[of "fst b" "snd b" ks vs] by (simp add: list_all_iff)
    then show "addItem e enc (Type_hint t) (Type_hint u) p = Inr (map Bytes (?f b))"
      using w by (simp add: addItem_def writes_def item_length_def getLengthBuffer_ok fits_def)
  qed
  moreover have "length (zip ks vs) = length ps" using assms(2,3) by (auto dest!: list_all2_lengthD)
  moreover have "encodeMap rt e enc v i = rbind (rmap (addItem e enc (info_at i 0) (info_at i 1)) (map_entries e v)) (\<lambda>items.
          rbind (getLengthBuffer e (Some (int (length items)))) (\<lambda>len. buffer_concat (Bytes len # concat items)))" for i
    using assms(7) by (cases v) (simp_all only: encodeMap_def js_value.case, auto)
  ultimately show ?thesis using assms(1,6) buffer_concat_Bytes[of ?f "zip ks vs"]
    by (simp add: info_at_def getLengthBuffer_ok item_def o_def)
qed

text \<open>Fields: the value is null or has bytes.\<close>

definition writes_field :: "(js_value \<Rightarrow> hint \<Rightarrow> encoded result) \<Rightarrow> column_info \<Rightarrow> js_value \<Rightarrow> buffer \<Rightarrow> bool" where
  "writes_field enc t v part \<longleftrightarrow> rbind (enc v (Type_hint t)) field_part = Inr part"

lemma field_part_Bytes: "int (length b) \<le> 2147483647 \<Longrightarrow> field_part (Bytes b) = Inr (field b)"
  by (simp add: field_part_def field_def writeInt32BE_def write_be_def)

lemma encodeUdt_writes:
  assumes "length vs = length fs" "list_all2 (\<lambda>p. writes_field enc (fst p) (snd p)) (zip (map snd fs) vs) parts"
    "distinct (map fst fs)" "ps = zip (map (\<lambda>f. text_of (fst f)) fs) vs"
  shows "encodeUdt enc (V_object ps) (Udt_info keyspace name fs) = Inr (concat parts)"
proof -
  have inj: "text_of a = text_of b \<longleftrightarrow> a = b" for a b by (auto simp: text_of_def inj_map_eq_map[OF inj_of_char])
  have "map_of ps (text_of (fst (fs ! k))) = Some (vs ! k)" if "k < length fs" for k
  proof -
    have "distinct (map fst ps)" using assms(1,3) by (simp add: assms(4) distinct_conv_nth inj)
    moreover have "(text_of (fst (fs ! k)), vs ! k) \<in> set ps" using that assms(1) by (force simp: assms(4) set_zip)
    ultimately show ?thesis by (rule map_of_is_SomeI)
  qed
  then have "list_all2 (\<lambda>f part. rbind (enc (get_property (V_object ps) (text_of (fst f))) (Type_hint (snd f))) field_part = Inr part) fs parts"
    using assms(1,2) by (simp add: list_all2_conv_all_nth writes_field_def get_property_def own_properties_def)
  then have "rmap (\<lambda>f. rbind (enc (get_property (V_object ps) (text_of (fst f))) (Type_hint (snd f))) field_part) fs = Inr (map id parts)"
    by (rule rmap_all2) simp
  then show ?thesis by (simp add: encodeUdt_def)
qed

lemma encodeTuple_writes:
  assumes "length vs = length ts" "list_all2 (\<lambda>p. writes_field enc (fst p) (snd p)) (zip ts vs) parts"
  shows "encodeTuple rt enc (V_tuple vs) (Sub_types ts) = Inr (concat parts)"
proof -
  have "list_all2 (\<lambda>p part. rbind (enc (snd p) (info_at (Sub_types ts) (fst p))) field_part = Inr part) (zip [0..<length ts] vs) parts"
    using assms by (simp add: list_all2_conv_all_nth writes_field_def info_at_def)
  then have "rmap (\<lambda>p. rbind (enc (snd p) (info_at (Sub_types ts) (fst p))) field_part) (zip [0..<length ts] vs) = Inr (map id parts)"
    by (rule rmap_all2) simp
  then show ?thesis by (simp add: encodeTuple_def js_length_def info_length_def)
qed

lemma uvint_ok: "n < 2 ^ 31 \<Longrightarrow> uvintPack (int n) = Inr (uvint n) \<and> uvintUnpack (uvint n @ r) = (Some (int n), length (uvint n))"
proof -
  assume "n < 2 ^ 31"
  then have n: "0 \<le> int n" "int n < 2 ^ 31" by simp_all
  obtain k where k: "uvintPack (int n) = Inr (vint_bytes (int n) k)" "k \<le> 4" "int n < 2 ^ (7 - k) * 256 ^ k"
    using uvintPack_eq[OF n] by blast
  then show ?thesis using uvintUnpack_vint_bytes[OF n k(2,3)] by (simp add: uvint_def vint_bytes_def)
qed

lemma encodeVector_writes:
  assumes "xs \<noteq> []" "list_all2 (writes enc t) xs bs" "vector_elements v = Some xs"
    "serializationSizeIfFixed t = Some (- 1) \<Longrightarrow> list_all (\<lambda>b. length b < 2 ^ 31) bs"
  shows "encodeVector enc v (Vector_info t (Some (int (length xs)))) =
    Inr (concat (map (\<lambda>b. (if serializationSizeIfFixed t = Some (- 1) then uvint (length b) else []) @ b) bs))"
proof -
  let ?f = "\<lambda>b. (if serializationSizeIfFixed t = Some (- 1) then [uvint (length b), b] else [b])"
  have "rmap (vector_item enc t) xs = Inr (map (\<lambda>b. map Bytes (?f b)) bs)"
    using assms(2)
  proof (rule rmap_all2)
    fix x b assume "b \<in> set bs" "writes enc t x b"
    then show "vector_item enc t x = Inr (map Bytes (?f b))"
      using assms(4) uvint_ok[of "length b" "[]"] by (simp add: vector_item_def writes_def list_all_iff)
  qed
  then have "encodeVector enc v (Vector_info t (Some (int (length xs)))) = Inr (concat (map (\<lambda>b. concat (?f b)) bs))"
    using assms(1,3) buffer_concat_Bytes[of ?f bs] by (simp add: encodeVector_def)
  moreover have "concat (?f b) = (if serializationSizeIfFixed t = Some (- 1) then uvint (length b) else []) @ b" for b by simp
  ultimately show ?thesis by (simp only:)
qed

section \<open>decode\<close>

lemma list_items_reads:
  assumes "list_all2 (\<lambda>v b. dec b = Inr v) xs bs" "list_all (fits e) bs"
  shows "list_items e dec (a @ concat (map (item e) bs) @ r) (length xs) (int (length a)) = Inr xs"
  using assms
proof (induction arbitrary: a rule: list_all2_induct)
  case (Cons v vs b bs)
  let ?a = "a @ len_bytes e (length b)" and ?r = "concat (map (item e) bs) @ r"
  have "decodeCollectionLength e (a @ len_bytes e (length b) @ b @ ?r) (int (length a)) = Inr (int (length b))"
    using Cons.prems by (intro read_len) (simp add: fits_def)
  moreover have "buf_slice (?a @ b @ ?r) (int (length ?a)) (int (length ?a) + int (length b)) = b" by (rule slice_mid)
  moreover have "list_items e dec ((?a @ b) @ ?r) (length vs) (int (length (?a @ b))) = Inr vs" using Cons.prems by (intro Cons.IH) simp
  ultimately show ?case using Cons.hyps(1) by (simp add: item_def[of e b] Let_def length_len_bytes add.assoc)
qed simp

lemma readValues_reads:
  assumes "list_all2 (\<lambda>p b. dk (fst b) = Inr (fst p) \<and> dv (snd b) = Inr (snd p) \<and> fits e (fst b) \<and> fits e (snd b)) ps bs"
  shows "readValues e dk dv (a @ concat (map (\<lambda>p. item e (fst p) @ item e (snd p)) bs) @ r) (length ps) (int (length a)) = Inr ps"
  using assms
proof (induction arbitrary: a rule: list_all2_induct)
  case (Cons p ps b bs)
  let ?r = "concat (map (\<lambda>p. item e (fst p) @ item e (snd p)) bs) @ r"
  let ?a1 = "a @ len_bytes e (length (fst b))"
  let ?a2 = "?a1 @ fst b"
  let ?a3 = "?a2 @ len_bytes e (length (snd b))"
  have "decodeCollectionLength e (a @ len_bytes e (length (fst b)) @ fst b @ item e (snd b) @ ?r) (int (length a)) = Inr (int (length (fst b)))"
    using Cons.hyps(1) by (intro read_len) (simp add: fits_def)
  moreover have "buf_slice (?a1 @ fst b @ item e (snd b) @ ?r) (int (length ?a1)) (int (length ?a1) + int (length (fst b))) = fst b" by (rule slice_mid)
  moreover have "decodeCollectionLength e (?a2 @ len_bytes e (length (snd b)) @ snd b @ ?r) (int (length ?a2)) = Inr (int (length (snd b)))"
    using Cons.hyps(1) by (intro read_len) (simp add: fits_def)
  moreover have "buf_slice (?a3 @ snd b @ ?r) (int (length ?a3)) (int (length ?a3) + int (length (snd b))) = snd b" by (rule slice_mid)
  moreover have "readValues e dk dv ((?a3 @ snd b) @ ?r) (length ps) (int (length (?a3 @ snd b))) = Inr ps" by (intro Cons.IH)
  ultimately show ?case using Cons.hyps(1)
    by (simp add: item_def Let_def length_len_bytes add.assoc)
qed simp

text \<open>A part of a user defined type or a tuple that is read as a value.\<close>

definition reads_field :: "(buffer \<Rightarrow> js_value result) \<Rightarrow> js_value \<Rightarrow> buffer \<Rightarrow> bool" where
  "reads_field dec v part \<longleftrightarrow> v = V_null \<and> part = null_field \<or> (\<exists>b. dec b = Inr v \<and> int (length b) \<le> 2147483647 \<and> part = field b)"

lemma null_field_bytes: "null_field = be_bytes 4 (- 1)"
  unfolding null_field_def by code_simp

lemma field_length: "int (length a) < int (length (a @ null_field @ r))" "int (length a) < int (length (a @ field b @ r))"
  by (simp_all add: null_field_def field_def)

lemma read_null_field: "read_at readInt32BE (a @ null_field @ r) (int (length a)) = Inr (- 1)"
  unfolding null_field_bytes read_at_skip by (rule readInt32BE_at) (simp add: is_int32_def)

lemma read_field:
  assumes "int (length b) \<le> 2147483647"
  shows "read_at readInt32BE (a @ field b @ r) (int (length a)) = Inr (int (length b))"
    "buf_slice (a @ field b @ r) (int (length a) + 4) (int (length a) + 4 + int (length b)) = b"
  using readInt32BE_at[of "int (length b)" a "b @ r"] slice_mid[of "a @ be_bytes 4 (int (length b))" b r] assms
  by (simp_all add: read_at_skip field_def is_int32_def)

lemma udt_fields_reads:
  assumes "length vs = length fs" "list_all2 (\<lambda>p. reads_field (\<lambda>b. dec b (fst p)) (snd p)) (zip (map snd fs) vs) parts"
  shows "udt_fields dec (a @ concat parts) fs (int (length a)) r = Inr (foldl (\<lambda>m p. set_property m (fst p) (snd p)) r (zip (map (\<lambda>f. text_of (fst f)) fs) vs))"
  using assms
proof (induction fs arbitrary: vs parts a r)
  case (Cons f fs)
  obtain v vs' where vs: "vs = v # vs'" using Cons.prems(1) by (cases vs) simp_all
  then obtain p parts' where parts: "parts = p # parts'" and p: "reads_field (\<lambda>b. dec b (snd f)) v p"
    and rest: "list_all2 (\<lambda>p. reads_field (\<lambda>b. dec b (fst p)) (snd p)) (zip (map snd fs) vs') parts'"
    using Cons.prems(2) by (auto simp: list_all2_Cons1)
  have IH: "udt_fields dec (a' @ concat parts') fs (int (length a')) r' = Inr (foldl (\<lambda>m p. set_property m (fst p) (snd p)) r' (zip (map (\<lambda>f. text_of (fst f)) fs) vs'))" for a' r'
    using Cons.prems(1) rest by (intro Cons.IH) (simp_all add: vs)
  from p consider "v = V_null" "p = null_field" | b where "dec b (snd f) = Inr v" "int (length b) \<le> 2147483647" "p = field b"
    by (auto simp: reads_field_def)
  then show ?case
  proof cases
    case 1
    then show ?thesis using field_length(1)[of a "concat parts'"] read_null_field[of a "concat parts'"] IH[of "a @ null_field"]
      by (simp add: parts vs Let_def) (simp add: null_field_def)
  next
    case 2
    then show ?thesis using field_length(2)[of a b "concat parts'"] read_field[OF 2(2), of a "concat parts'"] IH[of "a @ field b"]
      by (simp add: parts vs Let_def) (simp add: field_def add.assoc)
  qed
qed simp

lemma tuple_elements_reads:
  assumes "length vs = length hs" "list_all2 (\<lambda>p. reads_field (\<lambda>b. dec b (fst p)) (snd p)) (zip hs vs) parts"
  shows "tuple_elements dec (a @ concat parts) hs (int (length a)) = Inr vs"
  using assms
proof (induction hs arbitrary: vs parts a)
  case (Cons h hs)
  obtain v vs' where vs: "vs = v # vs'" using Cons.prems(1) by (cases vs) simp_all
  then obtain p parts' where parts: "parts = p # parts'" and p: "reads_field (\<lambda>b. dec b h) v p"
    and rest: "list_all2 (\<lambda>p. reads_field (\<lambda>b. dec b (fst p)) (snd p)) (zip hs vs') parts'"
    using Cons.prems(2) by (auto simp: list_all2_Cons1)
  have IH: "tuple_elements dec (a' @ concat parts') hs (int (length a')) = Inr vs'" for a'
    using Cons.prems(1) rest by (intro Cons.IH) (simp_all add: vs)
  from p consider "v = V_null" "p = null_field" | b where "dec b h = Inr v" "int (length b) \<le> 2147483647" "p = field b"
    by (auto simp: reads_field_def)
  then show ?case
  proof cases
    case 1
    then show ?thesis using field_length(1)[of a "concat parts'"] read_null_field[of a "concat parts'"] IH[of "a @ null_field"]
      by (simp add: parts vs Let_def) (simp add: null_field_def)
  next
    case 2
    then show ?thesis using field_length(2)[of a b "concat parts'"] read_field[OF 2(2), of a "concat parts'"] IH[of "a @ field b"]
      by (simp add: parts vs Let_def) (simp add: field_def add.assoc)
  qed
qed simp

lemma subarray_mid: "subarray (a @ b @ r) (Some (int (length a))) (Some (int (length a) + int (length b))) = b"
  by (simp add: subarray_def slice_mid)

lemma subarray_rest: "subarray (a @ r) (Some (int (length a))) (Some (int (length (a @ r)))) = r"
  using slice_mid[of a r "[]"] by (simp add: subarray_def)

lemma vector_items_fixed:
  assumes "list_all2 (\<lambda>v b. dec b = Inr v) xs bs" "list_all (\<lambda>b. int (length b) = n) bs" "n \<noteq> - 1"
  shows "vector_items dec (Some n) (a @ concat bs) (length xs) (Some (int (length a))) = Inr (xs, Some (int (length (a @ concat bs))))"
  using assms(1,2)
proof (induction arbitrary: a rule: list_all2_induct)
  case (Cons v vs b bs)
  have "vector_items dec (Some n) ((a @ b) @ concat bs) (length vs) (Some (int (length (a @ b)))) = Inr (vs, Some (int (length ((a @ b) @ concat bs))))"
    using Cons.prems by (intro Cons.IH) simp
  then show ?case using Cons.prems Cons.hyps(1) subarray_mid[of a b "concat bs"] assms(3)
    by (auto simp: Let_def oplus_def exceeds_def)
qed simp

lemma vector_items_variable:
  assumes "list_all2 (\<lambda>v b. dec b = Inr v) xs bs" "list_all (\<lambda>b. length b < 2 ^ 31) bs"
  shows "vector_items dec (Some (- 1)) (a @ concat (map (\<lambda>b. uvint (length b) @ b) bs)) (length xs) (Some (int (length a)))
    = Inr (xs, Some (int (length (a @ concat (map (\<lambda>b. uvint (length b) @ b) bs)))))"
  using assms
proof (induction arbitrary: a rule: list_all2_induct)
  case (Cons v vs b bs)
  let ?r = "concat (map (\<lambda>b. uvint (length b) @ b) bs)" and ?a = "a @ uvint (length b)"
  have "vector_items dec (Some (- 1)) ((?a @ b) @ ?r) (length vs) (Some (int (length (?a @ b)))) = Inr (vs, Some (int (length ((?a @ b) @ ?r))))"
    using Cons.prems by (intro Cons.IH) simp
  moreover have "uvintUnpack (subarray (a @ uvint (length b) @ b @ ?r) (Some (int (length a))) (Some (int (length (a @ uvint (length b) @ b @ ?r)))))
      = (Some (int (length b)), length (uvint (length b)))"
    using uvint_ok[of "length b" "b @ ?r"] Cons.prems subarray_rest[of a "uvint (length b) @ b @ ?r"] by simp
  ultimately show ?case using Cons.hyps(1) subarray_mid[of ?a b ?r]
    by (simp add: Let_def oplus_def exceeds_def add.assoc)
qed simp

section \<open>Scalars\<close>

lemma number_of_bigint_small: "\<bar>n\<bar> < 2 ^ 53 \<Longrightarrow> number_of_bigint n = n"
proof (cases "n = 0")
  case True
  then show ?thesis by (simp add: number_of_bigint_def bit_len.simps)
next
  case False
  assume n: "\<bar>n\<bar> < 2 ^ 53"
  have "2 ^ (bit_len \<bar>n\<bar> - 1) \<le> \<bar>n\<bar>" using False bit_len_bounds[of "\<bar>n\<bar>"] by simp
  then have "(2 :: int) ^ (bit_len \<bar>n\<bar> - 1) < 2 ^ 53" using n by linarith
  then have "bit_len \<bar>n\<bar> - 1 < 53" by (subst (asm) power_strict_increasing_iff) simp_all
  then have "bit_len \<bar>n\<bar> \<le> 53" by linarith
  then show ?thesis unfolding number_of_bigint_def Let_def by simp
qed

lemma encodeBigInt_eq: "is_int64 n \<Longrightarrow> encodeBigIntFromBigInt rt (V_bigint n) = Inr (be_bytes 8 n)"
proof -
  assume n: "is_int64 n"
  have "- 2147483648 \<le> n div 4294967296" "n div 4294967296 < 2147483648" using n unfolding is_int64_def by linarith+
  then have "number_of_bigint (n div 4294967296) = n div 4294967296" by (intro number_of_bigint_small) simp
  then show ?thesis using Long_toBuffer_eq[of n] by (simp add: encodeBigIntFromBigInt_def Long_toBuffer_def to_uint32_def)
qed

lemma decodeBigInt_eq:
  assumes "is_int64 n" shows "decodeCqlLongAsBigInt (be_bytes 8 n) = Inr n"
proof -
  let ?h = "be_bytes 4 (n div 4294967296)" and ?l = "be_bytes 4 n"
  have b: "be_bytes 8 n = ?h @ ?l" using be_bytes_add[of 4 4 n] by simp
  have "readUInt32BE (?h @ ?l) 0 = Inr (n div 4294967296 mod 4294967296)"
    using read_run_at[of "[]" 0 ?h 4 ?l] by (simp add: readUInt32BE_def be_val_be_bytes)
  moreover have "readUInt32BE (?h @ ?l) 4 = Inr (n mod 4294967296)"
    using read_run_at[of ?h 4 ?l 4 "[]"] by (simp add: readUInt32BE_def be_val_be_bytes)
  moreover have "wrap64 (n div 4294967296 mod 4294967296 * 4294967296 + n mod 4294967296) = n"
  proof -
    have "n div 4294967296 mod 4294967296 * 4294967296 + n mod 4294967296 = n mod (4294967296 * 4294967296)"
      using zmod_zmult2_eq[of 4294967296 n 4294967296] by (simp add: mult.commute)
    then have "n div 4294967296 mod 4294967296 * 4294967296 + n mod 4294967296 = n mod 18446744073709551616" by simp
    moreover have "wrap64 (n mod 18446744073709551616) = wrap64 n" by (simp add: wrap64_def mod_add_left_eq)
    moreover have "wrap64 n = n" using assms unfolding wrap64_def is_int64_def by (subst mod_pos_pos_trivial) simp_all
    ultimately show ?thesis by simp
  qed
  ultimately show ?thesis by (simp add: decodeCqlLongAsBigInt_def b)
qed

lemma encodeTimestamp_eq:
  assumes "\<bar>ms\<bar> \<le> 8640000000000000" "rt_ok rt" shows "encodeTimestamp rt e (V_date (Some ms)) = Inr (be_bytes 8 ms)"
proof -
  have "is_int64 ms" using assms(1) unfolding is_int64_def by linarith
  then show ?thesis using assms(2)[unfolded rt_ok_def] assms(1)
    by (simp add: encodeTimestamp_def encodeLong_def ToBigInt_def encodeBigInt_eq encodeBigIntFromLong_def Long_toBuffer_eq)
qed

lemma decodeTimestamp_eq:
  assumes "\<bar>ms\<bar> \<le> 8640000000000000" "rt_ok rt" shows "decodeTimestamp rt (be_bytes 8 ms) = Inr (V_date (Some ms))"
proof -
  have "is_int64 ms" using assms(1) unfolding is_int64_def by linarith
  then show ?thesis using assms(2)[unfolded rt_ok_def] assms(1) Long_fromBuffer_bytes[of ms "[]"]
    by (simp add: decodeTimestamp_def decodeCqlLongAsLong_def new_Date_def)
qed

lemma handleBuffer_id [simp]: "handleBuffer e b = b"
  by (simp add: handleBuffer_def handleBufferCopy_def handleBufferRef_def map_nth)

lemma readInt16BE_be_bytes: "- 32768 \<le> n \<Longrightarrow> n < 32768 \<Longrightarrow> readInt16BE (be_bytes 2 n) 0 = Inr n"
proof -
  assume n: "- 32768 \<le> n" "n < 32768"
  have "n mod 65536 = (if n < 0 then n + 65536 else n)"
    using n mod_pos_pos_trivial[of "n + 65536" 65536] by simp
  then show ?thesis using n read_run_append[of "be_bytes 2 n" 2 "[]"] by (simp add: readInt16BE_def be_val_be_bytes)
qed

lemma readInt8_be_bytes: "- 128 \<le> n \<Longrightarrow> n < 128 \<Longrightarrow> readInt8 (be_bytes 1 n) 0 = Inr n"
proof -
  assume n: "- 128 \<le> n" "n < 128"
  have "n mod 256 = (if n < 0 then n + 256 else n)"
    using n mod_pos_pos_trivial[of "n + 256" 256] by simp
  then show ?thesis using n read_run_append[of "be_bytes 1 n" 1 "[]"] by (simp add: readInt8_def be_val_be_bytes del: be_bytes.simps One_nat_def)
qed

section \<open>The two claims\<close>

lemma encode_regular: "encode_absent e v = None \<Longrightarrow> encode rt e v (Type_hint t) = encode_type rt e (encode rt e) v t"
  by (simp add: encode.simps resolve_hint_def)

lemma encode_null: "encode rt e V_null h = Inr Null"
  by (simp add: encode.simps encode_absent_def)

lemma encode_buffer: "encode rt e (V_buffer b) h = Inr (Bytes b)"
  by (simp add: encode.simps encode_absent_def)

lemmas encode_scalar = encode_regular encode_absent_def encode_type_def bytes_def
  encodeAsciiString_def encodeUtf8String_def encodeString_def encodeBoolean_def truthy_def
  encodeInt_def encodeSmallint_def encodeTinyint_def int_bytes_def ToNumber_def write_number_int
  encodeLong_def encodeBigInt_eq encodeBigIntFromLong_def Long_toBuffer_eq
  encodeVarint_def encodeVarintFromBigInt_def encodeVarintFromInteger_def varint_bytes_eq
  encodeDecimal_def BigDecimal_bytes encodeDouble_def encodeFloat_def float_value_def encodeTimestamp_eq
  encodeUuid_def encodeInet_def encodeDate_def LocalDate_bytes encodeTime_def LocalTime_bytes
  encodeDuration_def encodeCustom_def

lemma writes_field_wire:
  assumes "snd p = V_null \<and> part = null_field
    \<or> (\<exists>b. (wire e (fst p) (snd p) b \<and> encode rt e (snd p) (Type_hint (fst p)) = Inr (Bytes b)) \<and> int (length b) \<le> 2147483647 \<and> part = field b)"
  shows "writes_field (encode rt e) (fst p) (snd p) part"
  using assms by (auto simp: writes_field_def encode_null field_part_Bytes) (simp add: field_part_def null_field_def)

lemma encode_wire:
  assumes "wire e t v b" "rt_ok rt" shows "encode rt e v (Type_hint t) = Inr (Bytes b)"
  using assms(1)
proof (induction rule: wire.induct)
  case (list xs t bs opts)
  have "list_all2 (writes (encode rt e) t) xs bs"
    using list.IH by (rule list_all2_mono) (auto simp: writes_def dest: wire_present)
  then show ?case using encodeList_writes[of xs e "encode rt e" t bs] list.hyps by (simp add: encode_scalar)
next
  case (set xs t bs opts)
  have "list_all2 (writes (encode rt e) t) xs bs"
    using set.IH by (rule list_all2_mono) (auto simp: writes_def dest: wire_present)
  then show ?case using encodeList_writes[of xs e "encode rt e" t bs] set.hyps by (auto simp: encode_scalar encodeSet_def)
next
  case (map_of_class ps t ks u vs opts)
  have "list_all2 (writes (encode rt e) t) (map fst ps) ks" "list_all2 (writes (encode rt e) u) (map snd ps) vs"
    using map_of_class.IH by (auto elim!: list_all2_mono simp: writes_def dest: wire_present)
  then show ?case using encodeMap_writes[of ps e "encode rt e" t ks u vs "V_map ps" rt] map_of_class.hyps
    by (simp add: encode_scalar map_entries_def)
next
  case (map_of_object ps t ks u vs opts)
  have "list_all2 (writes (encode rt e) t) (map fst (map (\<lambda>p. (V_string (fst p), snd p)) ps)) ks"
    "list_all2 (writes (encode rt e) u) (map snd (map (\<lambda>p. (V_string (fst p), snd p)) ps)) vs"
    using map_of_object.IH by (auto simp: o_def elim!: list_all2_mono simp: writes_def dest: wire_present)
  then show ?case using encodeMap_writes[of "map (\<lambda>p. (V_string (fst p), snd p)) ps" e "encode rt e" t ks u vs "V_object ps" rt] map_of_object.hyps
    by (simp add: encode_scalar map_entries_def own_properties_def)
next
  case (udt fs vs parts ps keyspace name opts)
  have "list_all2 (\<lambda>p. writes_field (encode rt e) (fst p) (snd p)) (zip (map snd fs) vs) parts"
    using udt.IH by (rule list_all2_mono) (rule writes_field_wire)
  then show ?case using encodeUdt_writes[of vs fs "encode rt e" parts ps] udt.hyps by (simp add: encode_scalar)
next
  case (tuple ts vs parts opts)
  have "list_all2 (\<lambda>p. writes_field (encode rt e) (fst p) (snd p)) (zip ts vs) parts"
    using tuple.IH by (rule list_all2_mono) (rule writes_field_wire)
  then show ?case using encodeTuple_writes[of vs ts "encode rt e" parts rt] tuple.hyps by (simp add: encode_scalar)
next
  case (vector_fixed xs t bs n name opts)
  have "list_all2 (writes (encode rt e) t) xs bs"
    using vector_fixed.IH by (rule list_all2_mono) (auto simp: writes_def dest: wire_present)
  then show ?case using encodeVector_writes[of xs "encode rt e" t bs "V_vector xs name"] vector_fixed.hyps
    by (simp add: encode_scalar vector_elements_def)
next
  case (vector_variable xs t bs name opts)
  have "list_all2 (writes (encode rt e) t) xs bs"
    using vector_variable.IH by (rule list_all2_mono) (auto simp: writes_def dest: wire_present)
  then show ?case using encodeVector_writes[of xs "encode rt e" t bs "V_vector xs name"] vector_variable.hyps
    by (simp add: encode_scalar vector_elements_def)
next
  case (duration d c i opts)
  have "\<not> starts_with cn_duration cn_vector" by (simp add: cn_duration_def cn_vector_def)
  then show ?case using duration toBuffer_vint(1)[OF duration(1)] assms(2) by (auto simp: encode_scalar rt_ok_def)
qed (use assms(2) in \<open>auto simp: encode_scalar encode_buffer is_int32_def\<close>)

end
