(* ===== verification/Codec_Roundtrip.thy ===== *)
theory Codec_Roundtrip
  imports Codec_Correct
begin

text \<open>
  \<open>decode\<close> reads the wire format back: the value of every cell, then of every row.
\<close>

section \<open>Cells\<close>

lemma decode_bytes_type: "b \<noteq> [] \<or> code t \<in> zeroLengthTypesSupported \<Longrightarrow> decode_bytes rt e b t = decode_type rt e (decode_bytes rt e) b t"
  by (auto simp: decode_bytes.simps)

lemma be_bytes_not_empty: "be_bytes (Suc n) x \<noteq> []"
  using length_be_bytes[of "Suc n" x] by (simp flip: length_0_conv)

lemma be_bytes_cells: "be_bytes 1 x \<noteq> []" "be_bytes 2 x \<noteq> []" "be_bytes 4 x \<noteq> []" "be_bytes 8 x \<noteq> []"
  using be_bytes_not_empty[of 0 x] be_bytes_not_empty[of 1 x] be_bytes_not_empty[of 3 x] be_bytes_not_empty[of 7 x]
  by (simp_all add: eval_nat_numeral)

lemma float_cells: "writeDoubleBE x \<noteq> []" "writeFloatBE x \<noteq> []"
  by (simp_all add: writeDoubleBE_def writeFloatBE_def be_bytes_cells split: prod.splits)

lemma decode_bytes_sized: "length b = 4 \<or> length b = 16 \<Longrightarrow> decode_bytes rt e b t = decode_type rt e (decode_bytes rt e) b t"
  by (rule decode_bytes_type) auto

lemmas decode_scalar = decode_bytes_sized float_cells decode_bytes_type decode_type_def zeroLengthTypesSupported_def be_bytes_cells

lemma decodeInt_reads: "is_int32 n \<Longrightarrow> decodeInt (be_bytes 4 n) = Inr (V_number (JInt n))"
  using readInt32BE_be_bytes[of n "[]"] by (simp add: decodeInt_def)

lemma decodeDate_reads: "LocalDate_wf d \<Longrightarrow> decodeDate (be_bytes 4 (LocalDate_days d + 2147483648)) = Inr (V_local_date d)"
  using LocalDate_bytes[of d "[]"] by (simp add: decodeDate_def)

lemma decodeTime_reads: "0 \<le> lt_value t \<Longrightarrow> lt_value t \<le> maxNanos \<Longrightarrow> decodeTime (be_bytes 8 (lt_value t)) = Inr (V_local_time t)"
  using LocalTime_bytes[of t "[]"] by (simp add: decodeTime_def)

lemma reads_field_wire:
  assumes "snd p = V_null \<and> part = null_field
    \<or> (\<exists>b. (wire e (fst p) (snd p) b \<and> decode_bytes rt e b (fst p) = Inr (snd p)) \<and> int (length b) \<le> 2147483647 \<and> part = field b)"
  shows "reads_field (\<lambda>b. decode_bytes rt e b (fst p)) (snd p) part"
  using assms by (auto simp: reads_field_def)

lemma parts_not_empty:
  assumes "list_all2 (\<lambda>p part. snd p = V_null \<and> part = null_field \<or> (\<exists>b. Q p b \<and> int (length b) \<le> 2147483647 \<and> part = field b)) ps parts" "ps \<noteq> []"
  shows "concat parts \<noteq> []"
proof -
  obtain p ps' part parts' where "ps = p # ps'" "parts = part # parts'" using assms by (cases ps) (auto simp: list_all2_Cons1)
  then show ?thesis using assms(1) field_length[of "[]" "[]"] by (auto simp: field_def null_field_def dest: arg_cong[of _ _ length])
qed

lemma len_bytes_not_empty: "len_bytes e n \<noteq> []"
  using length_be_bytes[of _ "int n"] by (auto simp: len_bytes_def simp flip: length_0_conv)

lemma decodeList_reads:
  assumes "int (length xs) \<le> max_len e" "list_all2 (\<lambda>v b. dec b t = Inr v) xs bs" "list_all (fits e) bs"
  shows "decodeList e dec (len_bytes e (length xs) @ concat (map (item e) bs)) (Sub_type t) = Inr xs"
  using assms(1) read_len[of "length xs" e "[]"] list_items_reads[of "\<lambda>s. dec s t" xs bs e "len_bytes e (length xs)" "[]"] assms(2,3)
  by (simp add: decodeList_def info_hint_def decode_sub_def length_len_bytes)

lemma decodeMap_reads:
  assumes "int (length ps) \<le> max_len e" "list_all2 (\<lambda>v b. dec b t = Inr v) (map fst ps) ks" "list_all2 (\<lambda>v b. dec b u = Inr v) (map snd ps) vs"
    "list_all (fits e) ks" "list_all (fits e) vs"
  shows "decodeMap rt e dec (len_bytes e (length ps) @ concat (map (\<lambda>p. item e (fst p) @ item e (snd p)) (zip ks vs))) (Sub_types [t, u])
    = Inr (if map_class e then V_map (foldl (\<lambda>m p. map_set m (fst p) (snd p)) [] ps)
           else V_object (foldl (\<lambda>m p. set_property m (property_key rt (fst p)) (snd p)) [] ps))"
proof -
  have "list_all2 (\<lambda>p b. dec (fst b) t = Inr (fst p) \<and> dec (snd b) u = Inr (snd p) \<and> fits e (fst b) \<and> fits e (snd b)) ps (zip ks vs)"
    using assms(2-5) by (auto simp: list_all2_conv_all_nth list_all_length)
  from readValues_reads[OF this, of "len_bytes e (length ps)" "[]"] show ?thesis
    using assms(1) read_len[of "length ps" e "[]"] by (simp add: decodeMap_def info_at_def decode_sub_def length_len_bytes)
qed

lemma decodeTuple_reads:
  assumes "ts \<noteq> []" "length vs = length ts" "list_all2 (\<lambda>p. reads_field (\<lambda>b. dec b (fst p)) (snd p)) (zip ts vs) parts"
  shows "decodeTuple dec (concat parts) (Sub_types ts) = Inr (V_tuple vs)"
proof -
  let ?hs = "map (info_at (Sub_types ts)) [0..<length ts]"
  have "list_all2 (\<lambda>p. reads_field (\<lambda>b. decode_sub dec b (fst p)) (snd p)) (zip ?hs vs) parts"
    using assms(2,3) by (simp add: list_all2_conv_all_nth info_at_def decode_sub_def)
  from tuple_elements_reads[of vs ?hs "decode_sub dec" parts "[]", OF _ this] show ?thesis
    using assms(1,2) by (auto simp: decodeTuple_def info_length_def Tuple_fromArray_def)
qed

lemma decodeVector_reads:
  assumes "xs \<noteq> []" "vector_items (\<lambda>s. dec s t) (serializationSizeIfFixed t) b (length xs) (Some 0) = Inr (xs, Some (int (length b)))"
    "getDataTypeNameByCode t = Inr name"
  shows "decodeVector dec b (Vector_info t (Some (int (length xs)))) = Inr (V_vector xs name)"
  using assms by (simp add: decodeVector_def new_Vector_def)

lemma toBuffer_not_empty: "Integer_wf k \<Longrightarrow> Integer_toBuffer k \<noteq> []"
  using length_be_bytes[of _ "Integer_val k"] by (auto simp: toBuffer_eq simp flip: length_0_conv)

lemma decode_wire:
  assumes "wire e t v b" "rt_ok rt" shows "decode_bytes rt e b t = Inr v"
  using assms(1)
proof (induction rule: wire.induct)
  case (list xs t bs opts)
  have "list_all2 (\<lambda>v b. decode_bytes rt e b t = Inr v) xs bs" using list.IH by (rule list_all2_mono) simp
  from decodeList_reads[where dec = "decode_bytes rt e", OF list.hyps(2) this list.hyps(3)] show ?case by (simp add: decode_scalar len_bytes_not_empty)
next
  case (set xs t bs opts)
  have "list_all2 (\<lambda>v b. decode_bytes rt e b t = Inr v) xs bs" using set.IH by (rule list_all2_mono) simp
  from decodeList_reads[where dec = "decode_bytes rt e", OF set.hyps(2) this set.hyps(3)] show ?case
    using set.hyps(4) by (auto simp: decode_scalar len_bytes_not_empty decodeSet_def new_Set_def)
next
  case (map_of_class ps t ks u vs opts)
  have "list_all2 (\<lambda>v b. decode_bytes rt e b t = Inr v) (map fst ps) ks" "list_all2 (\<lambda>v b. decode_bytes rt e b u = Inr v) (map snd ps) vs"
    using map_of_class.IH by (auto elim!: list_all2_mono)
  from decodeMap_reads[where dec = "decode_bytes rt e" and rt = rt, OF map_of_class.hyps(2) this map_of_class.hyps(3,4)] show ?case
    using map_of_class.hyps(1,5) by (simp add: decode_scalar len_bytes_not_empty)
next
  case (map_of_object ps t ks u vs opts)
  let ?ps = "map (\<lambda>p. (V_string (fst p), snd p)) ps"
  have "list_all2 (\<lambda>v b. decode_bytes rt e b t = Inr v) (map fst ?ps) ks" "list_all2 (\<lambda>v b. decode_bytes rt e b u = Inr v) (map snd ?ps) vs"
    using map_of_object.IH by (auto simp: o_def elim!: list_all2_mono)
  from decodeMap_reads[of ?ps e "decode_bytes rt e" t ks u vs rt, OF _ this map_of_object.hyps(3,4)] show ?case
    using map_of_object.hyps(1,2,5) by (simp add: decode_scalar len_bytes_not_empty foldl_map property_key_def)
next
  case (udt fs vs parts ps keyspace name opts)
  have "list_all2 (\<lambda>p. reads_field (\<lambda>b. decode_bytes rt e b (fst p)) (snd p)) (zip (map snd fs) vs) parts"
    using udt.IH by (rule list_all2_mono) (rule reads_field_wire)
  from udt_fields_reads[of vs fs "decode_bytes rt e" parts "[]" "[]", OF udt.hyps(3) this] have "decodeUdt (decode_bytes rt e) (concat parts) (Udt_info keyspace name fs) = Inr (V_object ps)"
    using udt.hyps(4,5) by (simp add: decodeUdt_def)
  moreover have "concat parts \<noteq> []" using udt.hyps(1,3) by (intro parts_not_empty[OF udt.IH]) (cases vs; simp)
  ultimately show ?case by (simp add: decode_scalar del: concat_eq_Nil_conv)
next
  case (tuple ts vs parts opts)
  have "list_all2 (\<lambda>p. reads_field (\<lambda>b. decode_bytes rt e b (fst p)) (snd p)) (zip ts vs) parts"
    using tuple.IH by (rule list_all2_mono) (rule reads_field_wire)
  from decodeTuple_reads[where dec = "decode_bytes rt e", OF tuple.hyps(1,2) this]
  have "decodeTuple (decode_bytes rt e) (concat parts) (Sub_types ts) = Inr (V_tuple vs)" .
  moreover have "concat parts \<noteq> []" using tuple.hyps(1,2) by (intro parts_not_empty[OF tuple.IH]) (cases vs; simp)
  ultimately show ?case by (simp add: decode_scalar del: concat_eq_Nil_conv)
next
  case (vector_fixed xs t bs n name opts)
  have "list_all2 (\<lambda>v b. decode_bytes rt e b t = Inr v) xs bs" using vector_fixed.IH by (rule list_all2_mono) simp
  from vector_items_fixed[where dec = "\<lambda>s. decode_bytes rt e s t", OF this vector_fixed.hyps(4,3), of "[]"] show ?case
    using decodeVector_reads[of xs "decode_bytes rt e" t "concat bs" name] vector_fixed.hyps by (simp add: decode_scalar decodeCustom_def)
next
  case (vector_variable xs t bs name opts)
  have "list_all2 (\<lambda>v b. decode_bytes rt e b t = Inr v) xs bs" using vector_variable.IH by (rule list_all2_mono) simp
  from vector_items_variable[where dec = "\<lambda>s. decode_bytes rt e s t", OF this vector_variable.hyps(3), of "[]"] show ?case
    using decodeVector_reads[of xs "decode_bytes rt e" t _ name] vector_variable.hyps by (simp add: decode_scalar decodeCustom_def)
next
  case (varint k i opts)
  then show ?case by (simp add: decode_scalar toBuffer_not_empty decodeVarint_def decodeVarintAsBigInt_eq toBuffer_val decodeVarintAsInteger_def fromBuffer_toBuffer)
next
  case (duration d c i opts)
  let ?b = "vint_enc (dmonths d) @ vint_enc (ddays d) @ vint_enc (dnanos d)"
  have d: "Duration_fromBuffer ?b = Inr d" using fromBuffer_vint[OF duration(1), of "[]"] by simp
  have "Duration_fromBuffer [] \<noteq> Inr d" by (simp add: Duration_fromBuffer_def readVInt_def readUnsignedVInt_def buf_get_def)
  then have "?b \<noteq> []" using d by (cases ?b) simp_all
  moreover have "\<not> starts_with cn_duration cn_vector" by (simp add: cn_duration_def cn_vector_def)
  ultimately show ?case using duration(2) d by (auto simp: decode_scalar decodeDuration_def decodeCustom_def)
next
  case (bigint n c i opts)
  then show ?case using decodeBigInt_eq[OF bigint(1)] Long_fromBuffer_bytes[OF bigint(1), of "[]"] length_be_bytes[of 8 n]
    by (auto simp: decode_scalar decodeLong_def decodeCqlLongAsLong_def simp del: length_be_bytes)
next
  case (boolean x i opts)
  then show ?case by (simp add: decode_scalar decodeBoolean_def readUInt8_def read_run_def be_val_def)
qed (use assms(2) in \<open>auto simp: decode_scalar decodeAsciiString_def ascii_round_trip decodeUtf8String_def utf8_round_trip decodeBlob_def
    decodeInt_reads decodeDate_reads decodeTime_reads decodeTimestamp_eq decodeDecimal_def BigDecimal_bytes
    decodeSmallint_def readInt16BE_be_bytes decodeTinyint_def readInt8_be_bytes decodeUuid_def decodeTimeUuid_def new_TimeUuid_def
    decodeInet_def new_Uuid_def new_InetAddress_def decodeDouble_def readDouble_writeDouble decodeFloat_def readFloat_writeFloat simp del: be_bytes.simps One_nat_def\<close>)

section \<open>Rows\<close>

text \<open>The bytes of a cell: a signed length and the bytes of the value, or the length -1.\<close>

definition cell :: "encoder \<Rightarrow> column_info \<Rightarrow> js_value \<Rightarrow> buffer \<Rightarrow> bool" where
  "cell e t v part \<longleftrightarrow> v = V_null \<and> part = null_field \<or> (\<exists>b. wire e t v b \<and> int (length b) \<le> 2147483647 \<and> part = field b)"

text \<open>A reader that has consumed \<open>a\<close> and has \<open>r\<close> before it.\<close>

definition reader_at :: "buffer \<Rightarrow> buffer \<Rightarrow> FrameReader" where
  "reader_at a r = \<lparr>fr_offset = int (length a), fr_buf = a @ r\<rparr>"

lemma readInt_at: "is_int32 n \<Longrightarrow> FrameReader_readInt (reader_at a (be_bytes 4 n @ r)) = Inr (n, reader_at (a @ be_bytes 4 n) r)"
  by (simp add: FrameReader_readInt_def FrameReader_checkOffset_def reader_at_def read_at_skip readInt32BE_at)

lemma readBytes_null: "FrameReader_readBytes (reader_at a (null_field @ r)) = Inr (None, reader_at (a @ null_field) r)"
  using readInt_at[of "- 1" a r] by (simp add: FrameReader_readBytes_def null_field_bytes is_int32_def)

lemma read_reader_at: "FrameReader_read (reader_at a (b @ r)) (Some (int (length b))) = (b, reader_at (a @ b) r)"
  using slice_mid[of a b r] by (auto simp: FrameReader_read_def FrameReader_slice_def reader_at_def)

lemma readBytes_field:
  assumes "int (length b) \<le> 2147483647"
  shows "FrameReader_readBytes (reader_at a (field b @ r)) = Inr (Some b, reader_at (a @ field b) r)"
proof -
  have "FrameReader_readInt (reader_at a (field b @ r)) = Inr (int (length b), reader_at (a @ be_bytes 4 (int (length b))) (b @ r))"
    using readInt_at[of "int (length b)" a "b @ r"] assms by (simp add: field_def is_int32_def)
  then show ?thesis using read_reader_at[of "a @ be_bytes 4 (int (length b))" b r]
    by (simp add: FrameReader_readBytes_def FrameReader_checkOffset_def) (simp add: reader_at_def field_def)
qed

lemma readBytes_cell:
  assumes "cell e t v part" "rt_ok rt"
  shows "\<exists>b. FrameReader_readBytes (reader_at a (part @ r)) = Inr (b, reader_at (a @ part) r) \<and> decode rt e b t = Inr v"
  using assms decode_wire[of e t v] by (auto simp: cell_def readBytes_null readBytes_field decode_def)

lemma decode_cells_reads:
  assumes "rt_ok rt" "length vs = length cs" "list_all2 (\<lambda>p. cell e (fst p) (snd p)) (zip (map snd cs) vs) parts"
  shows "decode_cells rt e cs (reader_at a (concat parts @ r)) row
    = Inr (foldl (\<lambda>m p. set_property m (fst p) (snd p)) row (zip (map fst cs) vs), reader_at (a @ concat parts) r)"
  using assms(2,3)
proof (induction cs arbitrary: vs parts a row)
  case (Cons c cs)
  obtain v vs' where vs: "vs = v # vs'" using Cons.prems(1) by (cases vs) simp_all
  then obtain p parts' where parts: "parts = p # parts'" and p: "cell e (snd c) v p"
    and rest: "list_all2 (\<lambda>p. cell e (fst p) (snd p)) (zip (map snd cs) vs') parts'"
    using Cons.prems(2) by (auto simp: list_all2_Cons1)
  obtain b where "FrameReader_readBytes (reader_at a (p @ concat parts' @ r)) = Inr (b, reader_at (a @ p) (concat parts' @ r))" "decode rt e b (snd c) = Inr v"
    using readBytes_cell[OF p assms(1)] by blast
  then show ?case using Cons.IH[OF _ rest, of "a @ p"] Cons.prems(1) by (simp add: parts vs)
qed simp

lemma decode_rows_reads:
  assumes "rt_ok rt"
    "list_all2 (\<lambda>vs part. length vs = length cs \<and> (\<exists>parts. part = concat parts \<and> list_all2 (\<lambda>p. cell e (fst p) (snd p)) (zip (map snd cs) vs) parts)) rows rs"
  shows "decode_rows rt e cs (length rows) (reader_at a (concat rs @ r))
    = Inr (map (\<lambda>vs. foldl (\<lambda>m p. set_property m (fst p) (snd p)) [] (zip (map fst cs) vs)) rows)"
  using assms(2)
proof (induction arbitrary: a rule: list_all2_induct)
  case (Cons vs rows part rs)
  then obtain parts where "part = concat parts" "length vs = length cs" "list_all2 (\<lambda>p. cell e (fst p) (snd p)) (zip (map snd cs) vs) parts" by blast
  then show ?case using decode_cells_reads[OF assms(1), of vs cs e parts a "concat rs @ r"] Cons.IH[of "a @ part"] by simp
qed simp

section \<open>The properties of the codec\<close>

text \<open>A runtime with the documented behaviour on the values below, the default settings of an encoder, and
  a value of a composite type with its bytes.\<close>

definition plain_runtime :: runtime where
  "plain_runtime =
     \<lparr>rt_parseFloat = \<lambda>s. JNaN, rt_toNumber = \<lambda>v. JNaN, rt_BigInt = \<lambda>v. throw (SyntaxError ''Cannot convert to a BigInt''),
      rt_Date = \<lambda>s. None, rt_local_date = \<lambda>n. (1970, 1, 1), rt_number_text = \<lambda>x. ''0'', rt_number_fixed = \<lambda>x. ''0'',
      rt_property_key = \<lambda>v. [], rt_Integer_fromString = \<lambda>s. throw (SyntaxError ''Cannot convert to an Integer''),
      Long_fromNumber = (\<lambda>x. case x of JInt n \<Rightarrow> n | _ \<Rightarrow> 0), Long_fromString = \<lambda>s. throw (SyntaxError ''Cannot convert to a Long''),
      Long_toNumber = JInt, rt_memory = [],
      rt_buffers = \<lparr>rmonths = replicate 9 0, rdays = replicate 9 0, rnanos = replicate 9 0\<rparr>,
      rt_text_map = \<lambda>s i. return []\<rparr>"

definition plain_encoder :: encoder where
  "plain_encoder = \<lparr>protocolVersion = 4, useBigIntAsLong = False, useBigIntAsVarint = False, useUndefinedAsUnset = True,
     copyBuffer = True, set_class = False, map_class = False\<rparr>"

lemma plain_runtime_ok: "rt_ok plain_runtime"
  by (simp add: rt_ok_def plain_runtime_def reusable_ok_def)

definition sample_type :: column_info where
  "sample_type = Column_Info dt_tuple (Sub_types [plain_type 0x09, Column_Info dt_list (Sub_type (plain_type 0x02)) No_options]) No_options"

definition sample_value :: js_value where
  "sample_value = V_tuple [V_null, V_array [V_long 5]]"

definition sample_bytes :: buffer where
  "sample_bytes = [255, 255, 255, 255, 0, 0, 0, 16, 0, 0, 0, 1, 0, 0, 0, 8, 0, 0, 0, 0, 0, 0, 0, 5]"

lemma sample_wire: "wire plain_encoder sample_type sample_value sample_bytes"
proof -
  let ?e = plain_encoder and ?b = "[0, 0, 0, 1, 0, 0, 0, 8, 0, 0, 0, 0, 0, 0, 0, 5] :: buffer"
  have bs: "be_bytes 8 5 = [0, 0, 0, 0, 0, 0, 0, 5]" "be_bytes 4 8 = [0, 0, 0, 8]" "be_bytes 4 1 = [0, 0, 0, 1]" "be_bytes 4 16 = [0, 0, 0, 16]" by code_simp+
  have "wire ?e (plain_type 0x02) (V_long 5) (be_bytes 8 5)"
    using wire.bigint[of 5 2 ?e] by (simp add: plain_encoder_def is_int64_def)
  then have "wire ?e (Column_Info dt_list (Sub_type (plain_type 0x02)) No_options) (V_array [V_long 5]) (len_bytes ?e 1 @ item ?e (be_bytes 8 5))"
    using wire.list[of "[V_long 5]" ?e "plain_type 0x02" "[be_bytes 8 5]"] by (simp add: fits_def max_len_def plain_encoder_def uses4BytesCollectionLength_def)
  moreover have "len_bytes ?e 1 @ item ?e (be_bytes 8 5) = [0, 0, 0, 1, 0, 0, 0, 8, 0, 0, 0, 0, 0, 0, 0, 5]"
    by (simp add: len_bytes_def item_def plain_encoder_def uses4BytesCollectionLength_def bs)
  ultimately have "wire ?e (Column_Info dt_list (Sub_type (plain_type 0x02)) No_options) (V_array [V_long 5]) ?b" by simp
  then have "wire ?e sample_type sample_value (concat [null_field, field ?b])"
    unfolding sample_type_def sample_value_def by (intro wire.tuple) (auto intro!: exI[of _ ?b])
  then show ?thesis by (simp add: sample_bytes_def null_field_def field_def bs)
qed

text \<open>C1: \<open>encode\<close> writes the CQL binary format: for every value of every type, nested to any depth, that has a
  representation, the answer is that representation.\<close>

theorem encode_writes_wire:
  assumes "wire e t v b" "rt_ok rt"
  shows "encode rt e v (Type_hint t) = Inr (Bytes b)"
  using assms by (rule encode_wire)

theorem encode_writes_wire_witness:
  "encode plain_runtime plain_encoder sample_value (Type_hint sample_type) = Inr (Bytes sample_bytes)"
  by (rule encode_writes_wire[OF sample_wire plain_runtime_ok])

text \<open>C2: \<open>decode\<close> reads the format back: the bytes that \<open>encode\<close> answers for a representable value are decoded
  to the identical value, so no two values of a type share their bytes.\<close>

theorem decode_encode:
  assumes "wire e t v b" "rt_ok rt"
  shows "(\<exists>x. encode rt e v (Type_hint t) = Inr (Bytes x) \<and> decode rt e (Some x) t = Inr v) \<and> (\<forall>w. wire e t w b \<longrightarrow> w = v)"
proof (intro conjI allI impI)
  show "\<exists>x. encode rt e v (Type_hint t) = Inr (Bytes x) \<and> decode rt e (Some x) t = Inr v"
    using encode_wire[OF assms] decode_wire[OF assms] by (simp add: decode_def)
  show "w = v" if "wire e t w b" for w
    using decode_wire[OF that assms(2)] decode_wire[OF assms] by simp
qed

theorem decode_encode_witness:
  "\<exists>x. encode plain_runtime plain_encoder sample_value (Type_hint sample_type) = Inr (Bytes x)
    \<and> decode plain_runtime plain_encoder (Some x) sample_type = Inr sample_value"
  using decode_encode[OF sample_wire plain_runtime_ok] by blast

text \<open>C3: \<open>decodeRows\<close> returns, for the cells of a result in the wire format, one object per row that has each
  column's value under its name, and reads nothing past the last row.\<close>

theorem decodeRows_reads:
  assumes "rt_ok rt" "length names = length columnTypes"
    "list_all2 (\<lambda>vs part. length vs = length columnTypes
        \<and> (\<exists>parts. part = concat parts \<and> list_all2 (\<lambda>p. cell e (fst p) (snd p)) (zip columnTypes vs) parts)) rows rs"
  shows "decodeRows rt e (concat rs @ rest) (length rows) names columnTypes
    = Inr (map (\<lambda>vs. foldl (\<lambda>row p. set_property row (fst p) (snd p)) [] (zip names vs)) rows)"
proof -
  have "new_FrameReader (concat rs @ rest) = reader_at [] (concat rs @ rest)" by (simp add: new_FrameReader_def reader_at_def)
  then show ?thesis using decode_rows_reads[of rt "zip names columnTypes" e rows rs "[]" rest] assms by (simp add: decodeRows_def)
qed

theorem decodeRows_reads_witness:
  "decodeRows plain_runtime plain_encoder (field sample_bytes @ null_field) 2 [text_of ''id''] [sample_type]
    = Inr [[(text_of ''id'', sample_value)], [(text_of ''id'', V_null)]]"
proof -
  have "cell plain_encoder sample_type sample_value (field sample_bytes)" "cell plain_encoder sample_type V_null null_field"
    using sample_wire by (auto simp: cell_def sample_bytes_def)
  then have "list_all2 (\<lambda>p. cell plain_encoder (fst p) (snd p)) (zip [sample_type] [sample_value]) [field sample_bytes]"
    "list_all2 (\<lambda>p. cell plain_encoder (fst p) (snd p)) (zip [sample_type] [V_null]) [null_field]" by simp_all
  then have "list_all2 (\<lambda>vs part. length vs = length [sample_type]
        \<and> (\<exists>parts. part = concat parts \<and> list_all2 (\<lambda>p. cell plain_encoder (fst p) (snd p)) (zip [sample_type] vs) parts))
      [[sample_value], [V_null]] [concat [field sample_bytes], concat [null_field]]"
    unfolding list_all2_Cons list_all2_Nil by (intro conjI exI) (rule refl | assumption | simp)+
  from decodeRows_reads[OF plain_runtime_ok _ this, of "[text_of ''id'']" "[]"] show ?thesis
    by (simp add: set_property_def text_of_def eval_nat_numeral)
qed

end
