(* ===== verification/Routing_Key.thy ===== *)
theory Routing_Key
  imports Codec_Encode
begin

text \<open>
  The routing key of a request: \<open>setRoutingKeyFromUser\<close> and \<open>setRoutingKeyFromMeta\<close> of \<open>lib/encoder.js\<close>, which
  take it from the user or encode it from the parameters, and \<open>concatRoutingKey\<close>, whose result determines
  its parts.
\<close>

section \<open>Model\<close>

text \<open>What \<open>getRoutingKey\<close> may return: nothing, an array of parts (a missing one is \<open>None\<close>), bytes, a \<open>Token\<close>,
  a \<open>TokenRange\<close>, or anything else that is truthy.\<close>

datatype routing_key =
    No_key
  | Key_parts "buffer option list"
  | Key_bytes buffer
  | Key_token
  | Key_token_range
  | Key_other

record execution_options =
  routingKey :: routing_key
  routingIndexes :: "nat option list option"
  routingNames :: "string list option"
  hints :: "hint list"

definition setRoutingKey :: "execution_options \<Rightarrow> buffer option \<Rightarrow> execution_options" where
  "setRoutingKey o' key = o'\<lparr>routingKey := (case key of None \<Rightarrow> No_key | Some b \<Rightarrow> Key_bytes b)\<rparr>"

text \<open>\<open>concatRoutingKey\<close>; every caller passes the sum of the lengths and of three bytes per part.\<close>

definition routing_part :: "buffer \<Rightarrow> buffer result" where
  "routing_part item = rbind (writeUInt16BE (int (length item))) (\<lambda>len. return (len @ item @ [0]))"

definition concatRoutingKey :: "buffer list \<Rightarrow> nat \<Rightarrow> buffer option result" where
  "concatRoutingKey parts len =
     (if len = 0 then return None
      else if length parts = 1 then return (Some (hd parts))
      else rbind (rmap routing_part parts) (\<lambda>ps. return (Some (concat ps))))"

definition total_length :: "buffer list \<Rightarrow> nat" where
  "total_length parts = sum_list (map (\<lambda>p. length p + 3) parts)"

text \<open>\<open>#encodeRoutingKeyParts\<close>: the parts, or \<open>None\<close> where the source returns 0 early.\<close>

fun encodeRoutingKeyParts :: "nat option list \<Rightarrow> (nat \<Rightarrow> encoded result) \<Rightarrow> buffer list option result" where
  "encodeRoutingKeyParts [] encodeParam = return (Some [])"
| "encodeRoutingKeyParts (i # is) encodeParam =
     (case i of
        None \<Rightarrow> return None
      | Some paramIndex \<Rightarrow>
          rbind (encodeParam paramIndex) (\<lambda>item.
            case item of
              Bytes b \<Rightarrow> rbind (encodeRoutingKeyParts is encodeParam) (\<lambda>ps. return (map_option ((#) b) ps))
            | _ \<Rightarrow> return None))"

text \<open>The common end of both methods: an error while encoding is swallowed.\<close>

definition set_encoded_key :: "execution_options \<Rightarrow> buffer list option result \<Rightarrow> execution_options result" where
  "set_encoded_key o' r =
     (case r of
        Inr (Some parts) \<Rightarrow>
          if total_length parts = 0 then return o'
          else rbind (concatRoutingKey parts (total_length parts)) (\<lambda>key. return (setRoutingKey o' key))
      | _ \<Rightarrow> return o')"

text \<open>\<open>params[i]\<close>, or \<open>params[i].value\<close> when the parameters are named, which throws past the end.\<close>

definition param_at :: "bool \<Rightarrow> js_value list \<Rightarrow> nat \<Rightarrow> js_value result" where
  "param_at named params i =
     (if i < length params then return (params ! i)
      else if named then throw (TypeError ''Cannot read properties of undefined'') else return V_undefined)"

definition hint_at :: "hint list \<Rightarrow> nat \<Rightarrow> hint" where
  "hint_at hs i = (if i < length hs then hs ! i else No_hint)"

definition from_user_params :: "runtime \<Rightarrow> encoder \<Rightarrow> js_value list \<Rightarrow> execution_options \<Rightarrow> (string \<Rightarrow> nat option) option \<Rightarrow> execution_options result" where
  "from_user_params rt e params o' keys =
     (if params = [] then return o'
      else
        rbind (case routingNames o' of
                 Some names \<Rightarrow>
                   (case keys of
                      Some ks \<Rightarrow> return (Some (map ks names))
                    | None \<Rightarrow> if names = [] then return (Some []) else throw (TypeError ''Cannot read properties of undefined''))
               | None \<Rightarrow> return (routingIndexes o')) (\<lambda>indexes.
          case indexes of
            None \<Rightarrow> return o'
          | Some is \<Rightarrow>
              set_encoded_key o' (encodeRoutingKeyParts is (\<lambda>i.
                rbind (param_at (keys \<noteq> None) params i) (\<lambda>v. encode rt e v (hint_at (hints o') i))))))"

definition setRoutingKeyFromUser :: "runtime \<Rightarrow> encoder \<Rightarrow> js_value list \<Rightarrow> execution_options \<Rightarrow> (string \<Rightarrow> nat option) option \<Rightarrow> execution_options result" where
  "setRoutingKeyFromUser rt e params o' keys =
     (case routingKey o' of
        Key_parts ps \<Rightarrow>
          if length ps = 1 then return (setRoutingKey o' (hd ps))
          else if None \<in> set ps then return (setRoutingKey o' None)
          else rbind (concatRoutingKey (map the ps) (total_length (map the ps))) (\<lambda>key. return (setRoutingKey o' key))
      | Key_bytes b \<Rightarrow> return o'
      | Key_token \<Rightarrow> return o'
      | Key_token_range \<Rightarrow> return o'
      | Key_other \<Rightarrow> throw (TypeError ''Unexpected routingKey provided. Expected Buffer, Array<Buffer>, Token, or TokenRange.'')
      | No_key \<Rightarrow> from_user_params rt e params o' keys)"

text \<open>\<open>columns\<close> are the types of \<open>meta.columns\<close>; a missing column leaves the type to be guessed.\<close>

definition setRoutingKeyFromMeta :: "runtime \<Rightarrow> encoder \<Rightarrow> column_info option list \<Rightarrow> js_value list \<Rightarrow> execution_options \<Rightarrow> execution_options result" where
  "setRoutingKeyFromMeta rt e columns params o' =
     (case routingIndexes o' of
        None \<Rightarrow> return o'
      | Some is \<Rightarrow>
          set_encoded_key o' (encodeRoutingKeyParts is (\<lambda>i.
            rbind (param_at False params i) (\<lambda>v.
              encode rt e v (case if i < length columns then columns ! i else None of Some t \<Rightarrow> Type_hint t | None \<Rightarrow> No_hint)))))"

section \<open>The parts of a key\<close>

context prefix_codec
begin

lemma concat_inj:
  assumes "\<And>x. ok x \<Longrightarrow> enc x \<noteq> []"
  shows "\<forall>x \<in> set xs. ok x \<Longrightarrow> \<forall>y \<in> set ys. ok y \<Longrightarrow> concat (map enc xs) = concat (map enc ys) \<Longrightarrow> xs = ys"
proof (induction xs arbitrary: ys)
  case Nil
  then show ?case using assms by (cases ys) auto
next
  case (Cons x xs)
  have "ys \<noteq> []" using Cons.prems(1,3) assms[of x] by auto
  then obtain y ys' where ys: "ys = y # ys'" by (cases ys) simp_all
  have eq: "enc x @ concat (map enc xs) = enc y @ concat (map enc ys')" using Cons.prems(3) by (simp add: ys)
  have xy: "x = y" by (rule enc_inj[OF _ _ eq]) (use Cons.prems ys in simp_all)
  have "xs = ys'" by (rule Cons.IH) (use Cons.prems eq ys xy in simp_all)
  then show ?case by (simp add: ys xy)
qed

end

text \<open>The reader that undoes \<open>routing_part\<close>.\<close>

definition part_bytes :: "buffer \<Rightarrow> buffer" where
  "part_bytes item = be_bytes 2 (int (length item)) @ item @ [0]"

definition read_part :: "buffer \<Rightarrow> nat \<Rightarrow> (buffer \<times> nat) result" where
  "read_part b off =
     rbind (readUInt16BE b off) (\<lambda>n. rbind (read_run b (off + 2) (nat n)) (\<lambda>item. return (item, off + 2 + nat n + 1)))"

interpretation key_part: prefix_codec "\<lambda>b. length b < 65536" part_bytes read_part
proof
  fix x a r :: buffer
  assume x: "length x < 65536"
  let ?b = "a @ part_bytes x @ r"
  have "readUInt16BE ?b (length a) = Inr (int (length x))"
    using x read_run_skip[of "length a" a "part_bytes x @ r" 0 2]
    by (simp add: readUInt16BE_def part_bytes_def be_val_be_bytes)
  moreover have "read_run ?b (length a + 2) (length x) = Inr x"
    by (simp add: read_run_def part_bytes_def)
  ultimately show "read_part ?b (length a) = Inr (x, length a + length (part_bytes x))"
    by (simp add: read_part_def part_bytes_def)
qed

lemma routing_part_eq:
  "routing_part x = (if length x < 65536 then Inr (part_bytes x) else Inl (RangeError ''The value of value is out of range''))"
  by (auto simp: routing_part_def part_bytes_def writeUInt16BE_def write_be_def)

lemma rmap_routing_part: "rmap routing_part ps = Inr qs \<longleftrightarrow> (\<forall>p \<in> set ps. length p < 65536) \<and> qs = map part_bytes ps"
  by (induction ps arbitrary: qs) (auto simp: routing_part_eq)

lemma total_length_0: "total_length ps = 0 \<longleftrightarrow> ps = []"
  by (cases ps) (simp_all add: total_length_def)

lemma concatRoutingKey_eq:
  "2 \<le> length ps \<Longrightarrow> concatRoutingKey ps (total_length ps) = Inr k \<longleftrightarrow>
    (\<forall>p \<in> set ps. length p < 65536) \<and> k = Some (concat (map part_bytes ps))"
  by (auto simp: concatRoutingKey_def total_length_0 rmap_routing_part)

text \<open>C40: The routing key of several parts determines them: two lists of at least two parts with the same
  key are the same, and it has exactly the length the callers allocate. A part of 65536 bytes or more is
  refused with a \<open>RangeError\<close>.\<close>

theorem concatRoutingKey_injective:
  assumes "2 \<le> length ps" "2 \<le> length qs"
  shows "(\<forall>k. concatRoutingKey ps (total_length ps) = Inr k \<longrightarrow> concatRoutingKey qs (total_length qs) = Inr k \<longrightarrow> ps = qs)
    \<and> (\<forall>k. concatRoutingKey ps (total_length ps) = Inr (Some k) \<longrightarrow> length k = total_length ps)
    \<and> ((\<exists>p \<in> set ps. 65536 \<le> length p) \<longrightarrow> concatRoutingKey ps (total_length ps) = Inl (RangeError ''The value of value is out of range''))"
proof (intro conjI allI impI)
  fix k
  assume "concatRoutingKey ps (total_length ps) = Inr k" "concatRoutingKey qs (total_length qs) = Inr k"
  then show "ps = qs" using assms by (intro key_part.concat_inj) (auto simp: concatRoutingKey_eq part_bytes_def)
next
  fix k
  assume "concatRoutingKey ps (total_length ps) = Inr (Some k)"
  then have "k = concat (map part_bytes ps)" using assms by (simp add: concatRoutingKey_eq)
  then show "length k = total_length ps" by (simp add: length_concat total_length_def part_bytes_def o_def eval_nat_numeral)
next
  assume long: "\<exists>p \<in> set ps. 65536 \<le> length p"
  have "rmap routing_part xs = Inl (RangeError ''The value of value is out of range'')" if "\<exists>p \<in> set xs. 65536 \<le> length p" for xs
    using that by (induction xs) (auto simp: routing_part_eq)
  then show "concatRoutingKey ps (total_length ps) = Inl (RangeError ''The value of value is out of range'')"
    using long assms by (auto simp: concatRoutingKey_def total_length_0)
qed

theorem concatRoutingKey_injective_witness:
  "length [0, 1, 9, 0, 0, 2, 7, 8, 0 :: byte] = total_length [[9], [7, 8]]"
proof -
  have "concatRoutingKey [[9], [7, 8]] (total_length [[9], [7, 8]]) = Inr (Some [0, 1, 9, 0, 0, 2, 7, 8, 0])" by code_simp
  then show ?thesis using concatRoutingKey_injective[of "[[9], [7, 8]]" "[[9], [7, 8]]"] by simp
qed

end
