(* ===== verification/Mapper_Query.thy ===== *)
theory Mapper_Query
  imports JS_String
begin

text \<open>
  The statements of the mapper: operators (\<open>lib/mapping/q.js\<close>), names and columns of a model
  (\<open>table-mappings.js\<close>, \<open>model-mapping-info.js\<close>), the adaptation of what the user asks for
  (\<open>doc-info-adapter.js\<close>), and the CQL text with the function that collects its parameters
  (\<open>query-generator.js\<close>).
\<close>

section \<open>Documents\<close>

text \<open>A property of a document: \<open>undefined\<close>, a value, an operator or an assignment of \<open>q\<close>. An operator with
  child values has two of them; the value of \<open>IN\<close> is an array.\<close>

datatype 'v doc_value =
    Undefined
  | Plain 'v
  | QueryOperator string "'v doc_value"
  | QueryOperator_in "'v list"
  | QueryOperator_children string "'v doc_value" "'v doc_value"
  | QueryAssignment string "'v doc_value" bool

text \<open>The functions of \<open>q\<close>. \<open>in_\<close> is called with an array or with anything else.\<close>

definition q_in :: "'v list option \<Rightarrow> 'v doc_value result" where
  "q_in arr =
     (case arr of None \<Rightarrow> throw (ArgumentError ''IN operator supports only Array values'') | Some xs \<Rightarrow> return (QueryOperator_in xs))"

definition q_gt :: "'v doc_value \<Rightarrow> 'v doc_value" where
  "q_gt v = QueryOperator ''>'' v"

definition q_gte :: "'v doc_value \<Rightarrow> 'v doc_value" where
  "q_gte v = QueryOperator ''>='' v"

definition q_lt :: "'v doc_value \<Rightarrow> 'v doc_value" where
  "q_lt v = QueryOperator ''<'' v"

definition q_lte :: "'v doc_value \<Rightarrow> 'v doc_value" where
  "q_lte v = QueryOperator ''<='' v"

definition q_notEq :: "'v doc_value \<Rightarrow> 'v doc_value" where
  "q_notEq v = QueryOperator ''!='' v"

definition q_and :: "'v doc_value \<Rightarrow> 'v doc_value \<Rightarrow> 'v doc_value" where
  "q_and a b = QueryOperator_children ''AND'' a b"

definition q_incr :: "'v doc_value \<Rightarrow> 'v doc_value" where
  "q_incr v = QueryAssignment ''+'' v False"

definition q_decr :: "'v doc_value \<Rightarrow> 'v doc_value" where
  "q_decr v = QueryAssignment ''-'' v False"

definition q_append :: "'v doc_value \<Rightarrow> 'v doc_value" where
  "q_append v = QueryAssignment ''+'' v False"

definition q_prepend :: "'v doc_value \<Rightarrow> 'v doc_value" where
  "q_prepend v = QueryAssignment ''+'' v True"

definition q_remove :: "'v doc_value \<Rightarrow> 'v doc_value" where
  "q_remove v = QueryAssignment ''-'' v False"

text \<open>A document is its own properties in order.\<close>

type_synonym 'v doc = "(string \<times> 'v doc_value) list"

definition doc_get :: "'v doc \<Rightarrow> string \<Rightarrow> 'v doc_value" where
  "doc_get doc name = (case map_of doc name of Some v \<Rightarrow> v | None \<Rightarrow> Undefined)"

text \<open>An option that is falsy, \<open>true\<close>, or another truthy value.\<close>

datatype flag = Falsy | True_value | Truthy

text \<open>\<open>docInfo\<close>; a missing one has every field empty. \<open>limit\<close> and \<open>ttl\<close> are \<open>None\<close> unless they are numbers; an
  order that is no text is \<open>None\<close>.\<close>

record 'v doc_info =
  di_fields :: "string list"
  di_limit :: "'v option"
  di_orderBy :: "(string \<times> string option) list option"
  di_ttl :: "'v option"
  di_ifNotExists :: flag
  di_ifExists :: flag
  di_deleteOnlyColumns :: flag
  di_when :: "'v doc option"

section \<open>Names\<close>

text \<open>\<open>UnderscoreCqlToCamelCaseMappings\<close>: the two regular expressions replaced from left to right.\<close>

definition is_upper :: "char \<Rightarrow> bool" where
  "is_upper c \<longleftrightarrow> 65 \<le> (of_char c :: nat) \<and> (of_char c :: nat) \<le> 90"

definition is_lower :: "char \<Rightarrow> bool" where
  "is_lower c \<longleftrightarrow> 97 \<le> (of_char c :: nat) \<and> (of_char c :: nat) \<le> 122"

definition to_upper :: "char \<Rightarrow> char" where
  "to_upper c = (if is_lower c then char_of ((of_char c :: nat) - 32) else c)"

fun underscore_humps :: "string \<Rightarrow> string" where
  "underscore_humps (a # b # s) = (if is_lower a \<and> is_upper b then a # CHR ''_'' # b # underscore_humps s else a # underscore_humps (b # s))"
| "underscore_humps s = s"

fun camel_case :: "bool \<Rightarrow> string \<Rightarrow> string" where
  "camel_case first (a # b # s) =
     (if a = CHR ''_'' \<and> is_lower b then if first then a # b # camel_case False s else to_upper b # camel_case False s
      else a # camel_case False (b # s))"
| "camel_case first s = s"

datatype table_mappings = DefaultTableMappings | UnderscoreCqlToCamelCaseMappings

definition mappings_getColumnName :: "table_mappings \<Rightarrow> string \<Rightarrow> string" where
  "mappings_getColumnName m propName =
     (case m of DefaultTableMappings \<Rightarrow> propName | UnderscoreCqlToCamelCaseMappings \<Rightarrow> toLowerCase (underscore_humps propName))"

definition mappings_getPropertyName :: "table_mappings \<Rightarrow> string \<Rightarrow> string" where
  "mappings_getPropertyName m columnName =
     (case m of DefaultTableMappings \<Rightarrow> columnName | UnderscoreCqlToCamelCaseMappings \<Rightarrow> camel_case True columnName)"

section \<open>Models\<close>

text \<open>A parameter of a statement, as a mapping function of the user takes and returns it: a value, an array, or
  an object of \<open>q\<close> or \<open>undefined\<close> that was passed on as it is.\<close>

datatype 'v param = Value 'v | Array "'v param list" | Object "'v doc_value"

type_synonym 'v model_fn = "'v param \<Rightarrow> 'v param"

record 'v ModelColumnInfo =
  mc_columnName :: string
  mc_propertyName :: string
  mc_toModel :: "'v model_fn option"
  mc_fromModel :: "'v model_fn option"

record 'v ModelMappingInfo =
  mi_keyspace :: string
  mi_tables :: "(string \<times> bool) list"
  mi_mappings :: table_mappings
  mi_columns :: "(string \<times> 'v ModelColumnInfo) list"

text \<open>The map of columns by property that the constructor fills: the last column of a property stays.\<close>

definition documentProperties :: "'v ModelMappingInfo \<Rightarrow> string \<Rightarrow> 'v ModelColumnInfo option" where
  "documentProperties info = map_of (rev (map (\<lambda>c. (mc_propertyName (snd c), snd c)) (mi_columns info)))"

definition getColumnName :: "'v ModelMappingInfo \<Rightarrow> string \<Rightarrow> string" where
  "getColumnName info propName =
     (case documentProperties info propName of
        Some c \<Rightarrow> mc_columnName c | None \<Rightarrow> mappings_getColumnName (mi_mappings info) propName)"

definition getPropertyName :: "'v ModelMappingInfo \<Rightarrow> string \<Rightarrow> string" where
  "getPropertyName info columnName =
     (case map_of (mi_columns info) columnName of
        Some c \<Rightarrow> mc_propertyName c | None \<Rightarrow> mappings_getPropertyName (mi_mappings info) columnName)"

definition getFromModelFn :: "'v ModelMappingInfo \<Rightarrow> string \<Rightarrow> 'v model_fn option" where
  "getFromModelFn info propName = (case documentProperties info propName of Some c \<Rightarrow> mc_fromModel c | None \<Rightarrow> None)"

definition getToModelFn :: "'v ModelMappingInfo \<Rightarrow> string \<Rightarrow> 'v model_fn option" where
  "getToModelFn info columnName = (case map_of (mi_columns info) columnName of Some c \<Rightarrow> mc_toModel c | None \<Rightarrow> None)"

text \<open>What the user gives for a model. A function slot may hold something else that is truthy.\<close>

datatype 'v fn_option = No_fn | Fn "'v model_fn" | Not_fn

datatype 'v column_option = Column_default | Column_name string | Column_object string "'v fn_option" "'v fn_option"

datatype table_option = Table_name string | Table_object string bool | Table_missing

datatype mappings_option = No_mappings | Mappings table_mappings | Other_mappings

record 'v model_options =
  mo_keyspace :: string
  mo_tables :: "table_option list"
  mo_mappings :: mappings_option
  mo_columns :: "(string \<times> 'v column_option) list"

definition fn_of :: "string \<Rightarrow> 'v fn_option \<Rightarrow> 'v model_fn option result" where
  "fn_of message f = (case f of No_fn \<Rightarrow> return None | Fn g \<Rightarrow> return (Some g) | Not_fn \<Rightarrow> throw (TypeError message))"

definition new_ModelColumnInfo :: "string \<Rightarrow> string \<Rightarrow> 'v fn_option \<Rightarrow> 'v fn_option \<Rightarrow> 'v ModelColumnInfo result" where
  "new_ModelColumnInfo columnName propertyName toModel fromModel =
     rbind (fn_of (''toModel type for property '' @ quoted propertyName @ '' should be a function'') toModel) (\<lambda>t.
     rbind (fn_of (''fromModel type for property '' @ quoted propertyName @ '' should be a function'') fromModel) (\<lambda>f.
       return \<lparr>mc_columnName = columnName, mc_propertyName = propertyName, mc_toModel = t, mc_fromModel = f\<rparr>))"

definition ModelColumnInfo_parse :: "string \<Rightarrow> 'v column_option \<Rightarrow> 'v ModelColumnInfo result" where
  "ModelColumnInfo_parse columnName v =
     (case v of
        Column_default \<Rightarrow> new_ModelColumnInfo columnName columnName No_fn No_fn
      | Column_name s \<Rightarrow> new_ModelColumnInfo columnName (if s = [] then columnName else s) No_fn No_fn
      | Column_object s t f \<Rightarrow> new_ModelColumnInfo columnName (if s = [] then columnName else s) t f)"

definition createDefault :: "string \<Rightarrow> string \<Rightarrow> 'v ModelMappingInfo" where
  "createDefault modelName currentKeyspace =
     \<lparr>mi_keyspace = currentKeyspace, mi_tables = [(modelName, False)], mi_mappings = DefaultTableMappings, mi_columns = []\<rparr>"

definition table_of :: "string \<Rightarrow> table_option \<Rightarrow> (string \<times> bool) result" where
  "table_of modelName item =
     (let t = (case item of Table_name s \<Rightarrow> (s, False) | Table_object s v \<Rightarrow> (s, v) | Table_missing \<Rightarrow> ([], False))
      in if fst t = [] then throw (GenericError (''Table name not specified for model '' @ quoted modelName)) else return t)"

definition ModelMappingInfo_create :: "string \<Rightarrow> string \<Rightarrow> 'v model_options option \<Rightarrow> 'v ModelMappingInfo result" where
  "ModelMappingInfo_create modelName currentKeyspace opts =
     (if currentKeyspace = [] \<and> (case opts of None \<Rightarrow> True | Some o' \<Rightarrow> mo_keyspace o' = [])
      then throw (GenericError ''You should specify the keyspace of the model in the MappingOptions when the Client is not using a keyspace'')
      else
        case opts of
          None \<Rightarrow> return (createDefault modelName currentKeyspace)
        | Some o' \<Rightarrow>
            rbind (if mo_tables o' = [] then return [(modelName, False)] else rmap (table_of modelName) (mo_tables o')) (\<lambda>tables.
            rbind (case mo_mappings o' of
                     No_mappings \<Rightarrow> return DefaultTableMappings
                   | Mappings m \<Rightarrow> return m
                   | Other_mappings \<Rightarrow> throw (GenericError ''mappings should be an instance of TableMappings'')) (\<lambda>mappings.
            rbind (rmap (\<lambda>c. rbind (ModelColumnInfo_parse (fst c) (snd c)) (\<lambda>i. return (fst c, i))) (mo_columns o')) (\<lambda>columns.
              return \<lparr>mi_keyspace = (if mo_keyspace o' = [] then currentKeyspace else mo_keyspace o'),
                mi_tables = tables, mi_mappings = mappings, mi_columns = columns\<rparr>))))"

definition ModelMappingInfo_parse :: "(string \<times> 'v model_options option) list \<Rightarrow> string \<Rightarrow> (string \<times> 'v ModelMappingInfo) list result" where
  "ModelMappingInfo_parse models currentKeyspace =
     rmap (\<lambda>m. rbind (ModelMappingInfo_create (fst m) currentKeyspace (snd m)) (\<lambda>i. return (fst m, i))) models"

section \<open>Adapting what the user asks for\<close>

record 'v property_info =
  pi_propertyName :: string
  pi_columnName :: string
  pi_value :: "'v doc_value"
  pi_fromModel :: "'v model_fn option"

definition getPropertiesInfo :: "string list \<Rightarrow> string list \<Rightarrow> 'v doc \<Rightarrow> 'v ModelMappingInfo \<Rightarrow> 'v property_info list" where
  "getPropertiesInfo docKeys names doc info =
     map (\<lambda>p. \<lparr>pi_propertyName = p, pi_columnName = getColumnName info p, pi_value = doc_get doc p, pi_fromModel = getFromModelFn info p\<rparr>)
       (if names \<noteq> [] then names else docKeys)"

definition adaptOrderBy :: "'v doc_info \<Rightarrow> 'v ModelMappingInfo \<Rightarrow> (string \<times> string) list result" where
  "adaptOrderBy docInfo info =
     (case di_orderBy docInfo of
        None \<Rightarrow> return []
      | Some os \<Rightarrow>
          rmap (\<lambda>(key, v).
            let ordering = map_option (map to_upper) v
            in if ordering = Some ''ASC'' \<or> ordering = Some ''DESC'' then return (getColumnName info key, the ordering)
               else throw (ArgumentError ''Order must be either ASC or DESC'')) os)"

text \<open>The options of a request: none, the name of a profile, or an object; \<open>None\<close> is \<open>undefined\<close>.\<close>

record 'v user_options =
  uo_executionProfile :: "string option"
  uo_fetchSize :: "'v option"
  uo_pageState :: "'v option"
  uo_timestamp :: "'v option"
  uo_isIdempotent :: "bool option"
  uo_logged :: "bool option"

datatype 'v execution_option = No_execution_options | Profile string | Options "'v user_options"

record 'v adapted_options =
  ao_prepare :: bool
  ao_executionProfile :: "string option"
  ao_fetchSize :: "'v option"
  ao_pageState :: "'v option"
  ao_timestamp :: "'v option"
  ao_logged :: "bool option"
  ao_isIdempotent :: "bool option"
  ao_counter :: "bool option"

definition base_options :: "bool option \<Rightarrow> bool option \<Rightarrow> 'v adapted_options" where
  "base_options isIdempotent isCounter =
     \<lparr>ao_prepare = True, ao_executionProfile = None, ao_fetchSize = None, ao_pageState = None, ao_timestamp = None,
      ao_logged = None, ao_isIdempotent = isIdempotent, ao_counter = isCounter\<rparr>"

definition adaptOptions :: "'v execution_option \<Rightarrow> bool \<Rightarrow> 'v adapted_options" where
  "adaptOptions opts isIdempotent =
     (let base = base_options (Some isIdempotent) None
      in case opts of
           No_execution_options \<Rightarrow> base
         | Profile s \<Rightarrow> base\<lparr>ao_executionProfile := Some s\<rparr>
         | Options u \<Rightarrow> base\<lparr>ao_executionProfile := uo_executionProfile u, ao_timestamp := uo_timestamp u,
             ao_isIdempotent := (if uo_isIdempotent u \<noteq> None then uo_isIdempotent u else Some isIdempotent)\<rparr>)"

definition adaptAllOptions :: "'v execution_option \<Rightarrow> bool \<Rightarrow> 'v adapted_options" where
  "adaptAllOptions opts overrideIdempotency =
     (let base = base_options None None;
          o' = (case opts of
                  No_execution_options \<Rightarrow> base
                | Profile s \<Rightarrow> base\<lparr>ao_executionProfile := Some s\<rparr>
                | Options u \<Rightarrow> base\<lparr>ao_executionProfile := uo_executionProfile u, ao_fetchSize := uo_fetchSize u,
                    ao_pageState := uo_pageState u, ao_timestamp := uo_timestamp u, ao_isIdempotent := uo_isIdempotent u\<rparr>)
      in if overrideIdempotency then o'\<lparr>ao_isIdempotent := Some True\<rparr> else o')"

definition adaptBatchOptions :: "'v execution_option \<Rightarrow> bool \<Rightarrow> bool option \<Rightarrow> 'v adapted_options" where
  "adaptBatchOptions opts isIdempotent isCounter =
     (let base = base_options (Some isIdempotent) isCounter
      in case opts of
           No_execution_options \<Rightarrow> base
         | Profile s \<Rightarrow> base\<lparr>ao_executionProfile := Some s\<rparr>
         | Options u \<Rightarrow> base\<lparr>ao_executionProfile := uo_executionProfile u, ao_timestamp := uo_timestamp u,
             ao_logged := Some (uo_logged u \<noteq> Some False),
             ao_isIdempotent := (if uo_isIdempotent u \<noteq> None then uo_isIdempotent u else Some isIdempotent)\<rparr>)"

section \<open>Generated text\<close>

fun join :: "'a list \<Rightarrow> 'a list list \<Rightarrow> 'a list" where
  "join sep [] = []"
| "join sep [x] = x"
| "join sep (x # y # xs) = x @ sep @ join sep (y # xs)"

definition column_text :: "string \<Rightarrow> string" where
  "column_text c = CHR 0x22 # c @ [CHR 0x22]"

fun getSingleCondition :: "string \<Rightarrow> 'v doc_value \<Rightarrow> string" where
  "getSingleCondition c (QueryOperator_children key a b) = getSingleCondition c a @ '' '' @ key @ '' '' @ getSingleCondition c b"
| "getSingleCondition c (QueryOperator key v) = column_text c @ '' '' @ key @ '' ?''"
| "getSingleCondition c (QueryOperator_in xs) = column_text c @ '' IN ?''"
| "getSingleCondition c v = column_text c @ '' = ?''"

definition getConditionWithOperators :: "'v property_info list \<Rightarrow> string" where
  "getConditionWithOperators ps = join '' AND '' (map (\<lambda>p. getSingleCondition (pi_columnName p) (pi_value p)) ps)"

definition getSelect :: "string \<Rightarrow> string \<Rightarrow> 'v property_info list \<Rightarrow> 'v property_info list \<Rightarrow> (string \<times> string) list \<Rightarrow> bool \<Rightarrow> string" where
  "getSelect tableName keyspace ps fs orderByColumns limit =
     ''SELECT '' @ (if fs \<noteq> [] then join '', '' (map (\<lambda>p. column_text (pi_columnName p)) fs) else ''*'')
     @ '' FROM '' @ keyspace @ ''.'' @ tableName
     @ (if ps \<noteq> [] then '' WHERE '' @ getConditionWithOperators ps else [])
     @ (if orderByColumns \<noteq> [] then '' ORDER BY '' @ join '', '' (map (\<lambda>o'. column_text (fst o') @ '' '' @ snd o') orderByColumns) else [])
     @ (if limit then '' LIMIT ?'' else [])"

definition getInsertQuery :: "string \<Rightarrow> string \<Rightarrow> 'v property_info list \<Rightarrow> flag \<Rightarrow> bool \<Rightarrow> string" where
  "getInsertQuery tableName keyspace ps ifNotExists ttl =
     ''INSERT INTO '' @ keyspace @ ''.'' @ tableName @ '' ('' @ join '', '' (map (\<lambda>p. column_text (pi_columnName p)) ps)
     @ '') VALUES ('' @ join '', '' (map (\<lambda>p. ''?'') ps) @ '')''
     @ (if ifNotExists = True_value then '' IF NOT EXISTS'' else [])
     @ (if ttl then '' USING TTL ?'' else [])"

definition assignment_text :: "'v property_info \<Rightarrow> string" where
  "assignment_text p =
     (let c = column_text (pi_columnName p)
      in case pi_value p of
           QueryAssignment sign v inverted \<Rightarrow> (if inverted then c @ '' = ? '' @ sign @ '' '' @ c else c @ '' = '' @ c @ '' '' @ sign @ '' ?'')
         | _ \<Rightarrow> c @ '' = ?'')"

definition if_clause :: "flag \<Rightarrow> 'v property_info list \<Rightarrow> string" where
  "if_clause ifExists when' =
     (if ifExists = True_value then '' IF EXISTS'' else if when' \<noteq> [] then '' IF '' @ getConditionWithOperators when' else [])"

definition where_clause :: "string set \<Rightarrow> 'v property_info list \<Rightarrow> string" where
  "where_clause primaryKeys ps =
     join '' AND '' (map (\<lambda>p. column_text (pi_columnName p) @ '' = ?'') (filter (\<lambda>p. pi_columnName p \<in> primaryKeys) ps))"

definition getUpdateQuery :: "string \<Rightarrow> string \<Rightarrow> string set \<Rightarrow> 'v property_info list \<Rightarrow> 'v property_info list \<Rightarrow> flag \<Rightarrow> bool \<Rightarrow> string" where
  "getUpdateQuery tableName keyspace primaryKeys ps when' ifExists ttl =
     ''UPDATE '' @ keyspace @ ''.'' @ tableName @ '' '' @ (if ttl then ''USING TTL ? '' else []) @ ''SET ''
     @ join '', '' (map assignment_text (filter (\<lambda>p. pi_columnName p \<notin> primaryKeys) ps))
     @ '' WHERE '' @ where_clause primaryKeys ps @ if_clause ifExists when'"

definition getDeleteQuery :: "string \<Rightarrow> string \<Rightarrow> string set \<Rightarrow> 'v property_info list \<Rightarrow> 'v property_info list \<Rightarrow> flag \<Rightarrow> flag \<Rightarrow> string" where
  "getDeleteQuery tableName keyspace primaryKeys ps when' ifExists deleteOnlyColumns =
     ''DELETE''
     @ (if deleteOnlyColumns \<noteq> Falsy
        then (let columnsToDelete = join '', '' (map (\<lambda>p. column_text (pi_columnName p)) (filter (\<lambda>p. pi_columnName p \<notin> primaryKeys) ps))
              in if columnsToDelete \<noteq> [] then '' '' @ columnsToDelete else [])
        else [])
     @ '' FROM '' @ keyspace @ ''.'' @ tableName @ '' WHERE '' @ where_clause primaryKeys ps @ if_clause ifExists when'"

section \<open>Parameter getters\<close>

text \<open>The generated function returns an array literal. Its text is modelled by its tokens: expressions over the
  arguments \<open>doc\<close>, \<open>docInfo\<close> and \<open>mappingInfo\<close>, and commas. Names are taken to have no quote, backslash or line
  break, which the generator does not escape.\<close>

datatype getter =
    Get_doc string
  | Get_when string
  | Get_ttl
  | Get_limit
  | Get_value getter
  | Get_child getter nat
  | Get_mapped string getter
  | Get_mapped_each string getter

datatype token = Expr getter | Comma

fun valueGetterSingle :: "getter \<Rightarrow> string \<Rightarrow> 'v doc_value \<Rightarrow> bool \<Rightarrow> token list" where
  "valueGetterSingle prefix propName (QueryOperator_children key a b) fromModel =
     valueGetterSingle (Get_child prefix 0) propName a fromModel @ [Comma] @ valueGetterSingle (Get_child prefix 1) propName b fromModel"
| "valueGetterSingle prefix propName (QueryOperator_in xs) fromModel =
     [Expr (if fromModel then Get_mapped_each propName (Get_value prefix) else Get_value prefix)]"
| "valueGetterSingle prefix propName (QueryOperator key v) fromModel =
     [Expr (if fromModel then Get_mapped propName (Get_value prefix) else Get_value prefix)]"
| "valueGetterSingle prefix propName v fromModel = [Expr (if fromModel then Get_mapped propName prefix else prefix)]"

definition valueGetterExpression :: "(string \<Rightarrow> getter) \<Rightarrow> 'v property_info list \<Rightarrow> token list" where
  "valueGetterExpression object ps =
     join [Comma] (map (\<lambda>p. valueGetterSingle (object (pi_propertyName p)) (pi_propertyName p) (pi_value p) (pi_fromModel p \<noteq> None)) ps)"

definition assignmentGetterExpression :: "'v property_info list \<Rightarrow> token list" where
  "assignmentGetterExpression ps =
     join [Comma] (map (\<lambda>p.
       let g = (case pi_value p of QueryAssignment sign v inverted \<Rightarrow> Get_value (Get_doc (pi_propertyName p)) | _ \<Rightarrow> Get_doc (pi_propertyName p))
       in [Expr (if pi_fromModel p \<noteq> None then Get_mapped (pi_propertyName p) g else g)]) ps)"

definition selectParamsGetter :: "'v property_info list \<Rightarrow> bool \<Rightarrow> token list" where
  "selectParamsGetter ps limit =
     valueGetterExpression Get_doc ps @ (if limit then (if ps \<noteq> [] then [Comma] else []) @ [Expr Get_limit] else [])"

definition insertParamsGetter :: "'v property_info list \<Rightarrow> bool \<Rightarrow> token list" where
  "insertParamsGetter ps ttl = valueGetterExpression Get_doc ps @ (if ttl then [Comma, Expr Get_ttl] else [])"

definition when_params :: "'v property_info list \<Rightarrow> token list" where
  "when_params when' = (if when' \<noteq> [] then [Comma] @ valueGetterExpression Get_when when' else [])"

definition updateParamsGetter :: "string set \<Rightarrow> 'v property_info list \<Rightarrow> 'v property_info list \<Rightarrow> bool \<Rightarrow> token list" where
  "updateParamsGetter primaryKeys ps when' ttl =
     (if ttl then [Expr Get_ttl, Comma] else [])
     @ assignmentGetterExpression (filter (\<lambda>p. pi_columnName p \<notin> primaryKeys) ps) @ [Comma]
     @ valueGetterExpression Get_doc (filter (\<lambda>p. pi_columnName p \<in> primaryKeys) ps) @ when_params when'"

definition deleteParamsGetter :: "string set \<Rightarrow> 'v property_info list \<Rightarrow> 'v property_info list \<Rightarrow> token list" where
  "deleteParamsGetter primaryKeys ps when' =
     valueGetterExpression Get_doc (filter (\<lambda>p. pi_columnName p \<in> primaryKeys) ps) @ when_params when'"

text \<open>The elements of an array literal: a comma with no expression before it leaves a hole, one after the last
  expression does not; two expressions with no comma between them are a syntax error.\<close>

fun array_elements :: "token list \<Rightarrow> getter option list option" where
  "array_elements [] = Some []"
| "array_elements (Comma # ts) = map_option ((#) None) (array_elements ts)"
| "array_elements [Expr g] = Some [Some g]"
| "array_elements (Expr g # Comma # ts) = map_option ((#) (Some g)) (array_elements ts)"
| "array_elements (Expr g # Expr h # ts) = None"

text \<open>The value of an expression. \<open>.value\<close> or \<open>.value[i]\<close> of something that has none is \<open>undefined\<close> or an error;
  the model has \<open>undefined\<close> for both.\<close>

definition value_of :: "'v doc_value \<Rightarrow> 'v param" where
  "value_of v = (case v of Plain x \<Rightarrow> Value x | _ \<Rightarrow> Object v)"

definition member_value :: "'v param \<Rightarrow> 'v param" where
  "member_value p =
     (case p of
        Object (QueryOperator key v) \<Rightarrow> value_of v
      | Object (QueryOperator_in xs) \<Rightarrow> Array (map Value xs)
      | Object (QueryAssignment sign v inverted) \<Rightarrow> value_of v
      | _ \<Rightarrow> Object Undefined)"

definition member_child :: "'v param \<Rightarrow> nat \<Rightarrow> 'v param" where
  "member_child p i = (case p of Object (QueryOperator_children key a b) \<Rightarrow> value_of (if i = 0 then a else b) | _ \<Rightarrow> Object Undefined)"

definition number_param :: "'v option \<Rightarrow> 'v param" where
  "number_param n = (case n of Some x \<Rightarrow> Value x | None \<Rightarrow> Object Undefined)"

definition call_fn :: "'v model_fn option \<Rightarrow> 'v model_fn" where
  "call_fn f = (case f of Some g \<Rightarrow> g | None \<Rightarrow> (\<lambda>x. x))"

fun eval_getter :: "'v ModelMappingInfo \<Rightarrow> 'v doc \<Rightarrow> 'v doc_info \<Rightarrow> getter \<Rightarrow> 'v param" where
  "eval_getter info doc di (Get_doc p) = value_of (doc_get doc p)"
| "eval_getter info doc di (Get_when p) = value_of (doc_get (case di_when di of Some w \<Rightarrow> w | None \<Rightarrow> []) p)"
| "eval_getter info doc di Get_ttl = number_param (di_ttl di)"
| "eval_getter info doc di Get_limit = number_param (di_limit di)"
| "eval_getter info doc di (Get_value g) = member_value (eval_getter info doc di g)"
| "eval_getter info doc di (Get_child g i) = member_child (eval_getter info doc di g) i"
| "eval_getter info doc di (Get_mapped p g) = call_fn (getFromModelFn info p) (eval_getter info doc di g)"
| "eval_getter info doc di (Get_mapped_each p g) =
     (case eval_getter info doc di g of
        Array xs \<Rightarrow> Array (map (call_fn (getFromModelFn info p)) xs)
      | _ \<Rightarrow> Object Undefined)"

text \<open>Running the getter on a document.\<close>

definition run_getter :: "'v ModelMappingInfo \<Rightarrow> token list \<Rightarrow> 'v doc \<Rightarrow> 'v doc_info \<Rightarrow> 'v param list result" where
  "run_getter info ts doc di =
     (case array_elements ts of
        None \<Rightarrow> throw (SyntaxError ''Unexpected token'')
      | Some gs \<Rightarrow> return (map (\<lambda>g. case g of Some g \<Rightarrow> eval_getter info doc di g | None \<Rightarrow> Object Undefined) gs))"

section \<open>Statements\<close>

text \<open>Tables as the metadata has them: keys by name, and each column with its type code and whether it is
  static.\<close>

record table =
  tb_name :: string
  tb_partitionKeys :: "string list"
  tb_clusteringKeys :: "string list"
  tb_columns :: "(string \<times> nat \<times> bool) list"

definition has_column :: "table \<Rightarrow> string \<Rightarrow> bool" where
  "has_column t c \<longleftrightarrow> map_of (tb_columns t) c \<noteq> None"

definition column_code :: "table \<Rightarrow> string \<Rightarrow> nat option" where
  "column_code t c = map_option fst (map_of (tb_columns t) c)"

record statement =
  st_query :: string
  st_params :: "token list"
  st_isIdempotent :: bool
  st_isCounter :: "bool option"

definition primary_keys :: "table \<Rightarrow> string set" where
  "primary_keys t = set (tb_partitionKeys t @ tb_clusteringKeys t)"

definition getInsert :: "table \<Rightarrow> string \<Rightarrow> 'v property_info list \<Rightarrow> 'v doc_info \<Rightarrow> flag \<Rightarrow> statement" where
  "getInsert t keyspace ps di ifNotExists =
     (let ps = filter (\<lambda>p. has_column t (pi_columnName p)) ps; ttl = di_ttl di \<noteq> None
      in \<lparr>st_query = getInsertQuery (tb_name t) keyspace ps ifNotExists ttl, st_params = insertParamsGetter ps ttl,
          st_isIdempotent = (ifNotExists = Falsy), st_isCounter = None\<rparr>)"

definition is_assignment :: "'v doc_value \<Rightarrow> bool" where
  "is_assignment v = (case v of QueryAssignment sign x inverted \<Rightarrow> True | _ \<Rightarrow> False)"

text \<open>The filter of \<open>getUpdate\<close> also looks for what makes the statement not idempotent: the codes are those of
  \<open>list\<close> and \<open>counter\<close>.\<close>

definition getUpdate :: "table \<Rightarrow> string \<Rightarrow> 'v property_info list \<Rightarrow> 'v doc_info \<Rightarrow> 'v property_info list \<Rightarrow> flag \<Rightarrow> statement" where
  "getUpdate t keyspace ps di when' ifExists =
     (let ps = filter (\<lambda>p. has_column t (pi_columnName p)) ps; ttl = di_ttl di \<noteq> None;
          list_change = (\<lambda>p. column_code t (pi_columnName p) = Some 0x20 \<and> is_assignment (pi_value p));
          counter = (\<lambda>p. column_code t (pi_columnName p) = Some 0x05)
      in \<lparr>st_query = getUpdateQuery (tb_name t) keyspace (primary_keys t) ps when' ifExists ttl,
          st_params = updateParamsGetter (primary_keys t) ps when' ttl,
          st_isIdempotent = (\<not> list_ex (\<lambda>p. list_change p \<or> counter p) ps \<and> when' = [] \<and> ifExists = Falsy),
          st_isCounter = Some (list_ex counter ps)\<rparr>)"

definition getDelete :: "table \<Rightarrow> string \<Rightarrow> 'v property_info list \<Rightarrow> 'v doc_info \<Rightarrow> 'v property_info list \<Rightarrow> flag \<Rightarrow> statement" where
  "getDelete t keyspace ps di when' ifExists =
     (let ps = filter (\<lambda>p. has_column t (pi_columnName p)) ps
      in \<lparr>st_query = getDeleteQuery (tb_name t) keyspace (primary_keys t) ps when' ifExists (di_deleteOnlyColumns di),
          st_params = deleteParamsGetter (primary_keys t) ps when',
          st_isIdempotent = (when' = [] \<and> ifExists = Falsy), st_isCounter = None\<rparr>)"

end
