(* ===== verification/Mapper_Tree.thy ===== *)
theory Mapper_Tree
  imports Prelude
begin

text \<open>
  The radix tree of \<open>lib/mapping/tree.js\<close>, in which the mapper keeps what it has generated for each shape of
  document: nodes with keys of several parts, \<open>getOrCreate\<close>, and the finite map that the tree stands for.
\<close>

section \<open>Model\<close>

text \<open>A node; the value \<open>null\<close> is \<open>None\<close>.\<close>

datatype ('k, 'v) node = Node (node_key: "'k list") (node_value: "'v option") (node_edges: "('k, 'v) node list")

record ('k, 'v) Tree =
  tree_root :: "('k, 'v) node"
  tree_length :: int

definition new_Tree :: "('k, 'v) Tree" where
  "new_Tree = \<lparr>tree_root = Node [] None [], tree_length = 0\<rparr>"

text \<open>The inner loop over the parts of a node's key: how many of them the iterator yields next.\<close>

fun matched :: "'k list \<Rightarrow> 'k list \<Rightarrow> nat" where
  "matched (p # ps) (k # ks) = (if p = k then Suc (matched ps ks) else 0)"
| "matched ps ks = 0"

definition createBranch :: "('k, 'v) node \<Rightarrow> nat \<Rightarrow> 'v option \<Rightarrow> ('k, 'v) node" where
  "createBranch n index newValue =
     Node (take index (node_key n)) newValue [Node (drop index (node_key n)) (node_value n) (node_edges n)]"

definition push_edge :: "('k, 'v) node \<Rightarrow> ('k, 'v) node \<Rightarrow> ('k, 'v) node" where
  "push_edge n e = Node (node_key n) (node_value n) (node_edges n @ [e])"

text \<open>One round of the outer loop at a node whose key's first part has been consumed: the changed node, the
  value returned, and whether \<open>#onItemAdded\<close> ran. \<open>v\<close> is what the value handler returns.\<close>

fun visit :: "('k, 'v) node \<Rightarrow> 'k list \<Rightarrow> 'v \<Rightarrow> ('k, 'v) node \<times> 'v option \<times> bool"
  and visit_edges :: "('k, 'v) node list \<Rightarrow> 'k list \<Rightarrow> 'v \<Rightarrow> ('k, 'v) node list \<times> 'v option \<times> bool" where
  "visit (Node key val es) ks v =
     (let m = matched (tl key) ks; rest = drop m ks
      in if m < length (tl key) then
           if rest = [] then (createBranch (Node key val es) (Suc m) (Some v), Some v, True)
           else (push_edge (createBranch (Node key val es) (Suc m) None) (Node rest (Some v) []), Some v, True)
         else if rest = [] then
           if val = None \<and> es \<noteq> [] then (Node key (Some v) es, Some v, False) else (Node key val es, val, False)
         else (case visit_edges es rest v of (es', r, added) \<Rightarrow> (Node key val es', r, added)))"
| "visit_edges [] ks v = ([Node ks (Some v) []], Some v, True)"
| "visit_edges (e # es) ks v =
     (if node_key e \<noteq> [] \<and> hd (node_key e) = hd ks
      then (case visit e (tl ks) v of (e', r, added) \<Rightarrow> (e' # es, r, added))
      else (case visit_edges es ks v of (es', r, added) \<Rightarrow> (e # es', r, added)))"

definition getOrCreate :: "('k, 'v) Tree \<Rightarrow> 'k list \<Rightarrow> 'v \<Rightarrow> 'v option \<times> ('k, 'v) Tree" where
  "getOrCreate t ks v =
     (case visit (tree_root t) ks v of
        (n, r, added) \<Rightarrow> (r, \<lparr>tree_root = n, tree_length = tree_length t + (if added then 1 else 0)\<rparr>))"

section \<open>The map of a tree\<close>

fun strip :: "'k list \<Rightarrow> 'k list \<Rightarrow> 'k list option" where
  "strip [] ks = Some ks"
| "strip (p # ps) [] = None"
| "strip (p # ps) (k # ks) = (if p = k then strip ps ks else None)"

fun lookup_node :: "('k, 'v) node \<Rightarrow> 'k list \<Rightarrow> 'v option"
  and lookup_edges :: "('k, 'v) node list \<Rightarrow> 'k list \<Rightarrow> 'v option" where
  "lookup_node (Node key val es) ks =
     (case strip (tl key) ks of None \<Rightarrow> None | Some rest \<Rightarrow> if rest = [] then val else lookup_edges es rest)"
| "lookup_edges [] ks = None"
| "lookup_edges (e # es) ks =
     (if node_key e \<noteq> [] \<and> hd (node_key e) = hd ks then lookup_node e (tl ks) else lookup_edges es ks)"

definition tree_map :: "('k, 'v) Tree \<Rightarrow> 'k list \<Rightarrow> 'v option" where
  "tree_map t = lookup_node (tree_root t)"

text \<open>A node below the root has a key, and a value or edges.\<close>

definition live :: "('k, 'v) node \<Rightarrow> bool" where
  "live n \<longleftrightarrow> node_value n \<noteq> None \<or> node_edges n \<noteq> []"

fun node_ok :: "('k, 'v) node \<Rightarrow> bool" where
  "node_ok (Node key val es) \<longleftrightarrow> list_all (\<lambda>e. node_key e \<noteq> [] \<and> live e \<and> node_ok e) es"

fun node_count :: "('k, 'v) node \<Rightarrow> nat" where
  "node_count (Node key val es) = (if val = None then 0 else 1) + sum_list (map node_count es)"

definition tree_ok :: "('k, 'v) Tree \<Rightarrow> bool" where
  "tree_ok t \<longleftrightarrow> node_key (tree_root t) = [] \<and> node_ok (tree_root t) \<and> 0 \<le> tree_length t \<and> tree_length t \<le> int (node_count (tree_root t))"

section \<open>Correctness\<close>

lemma matched_split: "take (matched p ks) p = take (matched p ks) ks \<and> matched p ks \<le> length p \<and> matched p ks \<le> length ks
    \<and> (matched p ks < length p \<longrightarrow> matched p ks < length ks \<longrightarrow> p ! matched p ks \<noteq> ks ! matched p ks)"
  by (induction p ks rule: matched.induct) auto

text \<open>A key part \<open>p\<close> and the parts \<open>ks\<close> asked for: a common beginning \<open>qs\<close> and two ends that part at once.\<close>

lemma matched_cases:
  obtains qs p' ks' where "p = qs @ p'" "ks = qs @ ks'" "length qs = matched p ks" "p' \<noteq> [] \<Longrightarrow> ks' \<noteq> [] \<Longrightarrow> hd p' \<noteq> hd ks'"
proof
  let ?m = "matched p ks"
  note s = matched_split[of p ks]
  show "p = take ?m p @ drop ?m p" by simp
  show "ks = take ?m p @ drop ?m ks" using s by (metis append_take_drop_id)
  show "length (take ?m p) = ?m" using s by simp
  show "drop ?m p \<noteq> [] \<Longrightarrow> drop ?m ks \<noteq> [] \<Longrightarrow> hd (drop ?m p) \<noteq> hd (drop ?m ks)"
    using s by (simp add: hd_drop_conv_nth)
qed

definition updated :: "('k list \<Rightarrow> 'v option) \<Rightarrow> 'k list \<Rightarrow> 'v \<Rightarrow> 'k list \<Rightarrow> 'v option" where
  "updated f ks v = (if f ks = None then f(ks \<mapsto> v) else f)"

lemma strip_append: "strip (p @ q) ks = (case strip p ks of None \<Rightarrow> None | Some r \<Rightarrow> strip q r)"
  by (induction p ks rule: strip.induct) auto

lemma strip_iff: "strip p ks = Some r \<longleftrightarrow> ks = p @ r"
  by (induction p ks rule: strip.induct) auto

lemma lookup_leaf: "lookup_node (Node ks (Some v) []) ks' = (if ks' = tl ks then Some v else None)"
  using strip_iff[of "tl ks" ks' "[]"] by (auto split: option.splits)

lemma branch_lookup:
  assumes "tl key = qs @ p" "p \<noteq> []"
  shows "lookup_node (Node (k # qs) nv [Node p val es]) ks = (if ks = qs then nv else lookup_node (Node key val es) ks)"
proof (cases "strip qs ks")
  case None
  then have "ks \<noteq> qs" using strip_iff[of qs ks "[]"] by auto
  then show ?thesis using None by (simp add: assms(1) strip_append)
next
  case (Some r)
  then have "ks = qs @ r" by (simp add: strip_iff)
  then show ?thesis using Some assms(2) by (cases r; cases p) (auto simp: assms(1) strip_append)
qed

lemma branch_leaf_lookup:
  assumes "tl key = qs @ p" "p \<noteq> []" "rest \<noteq> []" "hd p \<noteq> hd rest"
  shows "lookup_node (Node (k # qs) None [Node p val es, Node rest (Some v) []]) = (lookup_node (Node key val es))(qs @ rest \<mapsto> v)"
proof
  fix ks
  show "lookup_node (Node (k # qs) None [Node p val es, Node rest (Some v) []]) ks = ((lookup_node (Node key val es))(qs @ rest \<mapsto> v)) ks"
  proof (cases "strip qs ks")
    case None
    then have "ks \<noteq> qs @ rest" using strip_iff[of qs ks rest] by auto
    then show ?thesis using None by (simp add: assms(1) strip_append)
  next
    case (Some r)
    then have ks: "ks = qs @ r" by (simp add: strip_iff)
    show ?thesis
    proof (cases r)
      case Nil
      then show ?thesis using Some assms(2,3) by (cases p) (auto simp: ks assms(1) strip_append)
    next
      case (Cons a r')
      obtain h p' g rest' where p: "p = h # p'" "rest = g # rest'" using assms(2,3) by (cases p; cases rest) auto
      then show ?thesis using Some Cons assms(4) lookup_leaf[of rest v r'] by (auto simp: ks assms(1) strip_append)
    qed
  qed
qed

lemma visit_correct:
  "node_ok n \<Longrightarrow> live n \<or> node_key n = [] \<and> ks \<noteq> [] \<Longrightarrow> visit n ks v = (n', r, a) \<Longrightarrow>
    lookup_node n' = updated (lookup_node n) ks v \<and> r = lookup_node n' ks \<and> r \<noteq> None \<and> node_ok n' \<and> live n'
    \<and> take 1 (node_key n') = take 1 (node_key n)
    \<and> node_count n' = node_count n + (if lookup_node n ks = None then 1 else 0) \<and> (a \<longrightarrow> lookup_node n ks = None)"
  "list_all (\<lambda>e. node_key e \<noteq> [] \<and> live e \<and> node_ok e) es \<Longrightarrow> ks \<noteq> [] \<Longrightarrow> visit_edges es ks v = (es', r, a) \<Longrightarrow>
    (\<forall>ks'. ks' \<noteq> [] \<longrightarrow> lookup_edges es' ks' = updated (lookup_edges es) ks v ks') \<and> r = lookup_edges es' ks \<and> r \<noteq> None
    \<and> list_all (\<lambda>e. node_key e \<noteq> [] \<and> live e \<and> node_ok e) es' \<and> es' \<noteq> []
    \<and> sum_list (map node_count es') = sum_list (map node_count es) + (if lookup_edges es ks = None then 1 else 0) \<and> (a \<longrightarrow> lookup_edges es ks = None)"
proof (induction n ks v and es ks v arbitrary: n' r a and es' r a rule: visit_visit_edges.induct)
  case (1 key val es ks v)
  obtain qs p rest where sp: "tl key = qs @ p" "ks = qs @ rest" "length qs = matched (tl key) ks" "p \<noteq> [] \<Longrightarrow> rest \<noteq> [] \<Longrightarrow> hd p \<noteq> hd rest"
    by (rule matched_cases[of "tl key" ks]) blast
  have l: "length (tl key) = length qs + length p" "drop (length qs) ks = rest" by (simp_all add: sp(1,2))
  have m: "matched (tl key) ks < length (tl key) \<longleftrightarrow> p \<noteq> []" "drop (matched (tl key) ks) ks = rest"
    unfolding sp(3)[symmetric] l by simp_all
  note run = "1.prems"(3)[unfolded visit.simps Let_def m]
  show ?case
  proof (cases "p = []")
    case False
    then have "key \<noteq> []" using sp(1) by auto
    then have k: "take (Suc (length qs)) key = hd key # qs" "drop (Suc (length qs)) key = p"
      using sp(1) by (cases key; simp)+
    have none: "lookup_node (Node key val es) ks = None"
      using False sp by (cases p; cases rest) (auto simp: strip_append strip_iff split: option.splits)
    note k = k[unfolded sp(3)]
    show ?thesis
    proof (cases "rest = []")
      case True
      then have n': "n' = Node (hd key # qs) (Some v) [Node p val es]" "r = Some v" using run False k by (auto simp: createBranch_def)
      have "lookup_node n' = (lookup_node (Node key val es))(ks \<mapsto> v)"
        by (rule ext) (use True sp(2) in \<open>simp add: n' branch_lookup[OF sp(1) False] del: lookup_node.simps\<close>)
      then show ?thesis using n' none 1(2,3) False \<open>key \<noteq> []\<close>
        by (simp add: updated_def live_def del: lookup_node.simps) (cases key; simp add: live_def)
    next
      case rest: False
      then have n': "n' = Node (hd key # qs) None [Node p val es, Node rest (Some v) []]" "r = Some v"
        using run False k by (auto simp: createBranch_def push_edge_def)
      have "lookup_node n' = (lookup_node (Node key val es))(ks \<mapsto> v)"
        using branch_leaf_lookup[OF sp(1) False rest sp(4)[OF False rest]] sp(2) unfolding n' by simp
      then show ?thesis using n' none 1(2,3) False rest \<open>key \<noteq> []\<close>
        by (simp add: updated_def live_def del: lookup_node.simps) (cases key; simp add: live_def)
    qed
  next
    case True
    have here: "lookup_node (Node key x xs) (tl key @ ys) = (if ys = [] then x else lookup_edges xs ys)" for x xs ys
      by (simp add: strip_iff[THEN iffD2])
    have lk: "lookup_node (Node key x xs) ks = (if rest = [] then x else lookup_edges xs rest)" for x xs
      using here[of x xs rest] sp(1,2) True by simp
    show ?thesis
    proof (cases "rest = []")
      case rest: True
      show ?thesis
      proof (cases "val = None \<and> es \<noteq> []")
        case True
        then have n': "n' = Node key (Some v) es" "r = Some v" "\<not> a" using run rest \<open>p = []\<close> by auto
        have "lookup_node n' = (lookup_node (Node key val es))(ks \<mapsto> v)"
        proof
          fix x
          show "lookup_node n' x = ((lookup_node (Node key val es))(ks \<mapsto> v)) x"
            using strip_iff[of "tl key" x "[]"] rest \<open>p = []\<close> sp(1,2) by (cases "strip (tl key) x") (auto simp: n')
        qed
        then show ?thesis using n' lk[of val es] lk[of "Some v" es] rest True 1(2) by (simp add: updated_def live_def del: lookup_node.simps)
      next
        case False
        then have n': "n' = Node key val es" "r = val" "\<not> a" using run rest \<open>p = []\<close> by auto
        have "val \<noteq> None" using False "1.prems"(2) rest sp(1,2) \<open>p = []\<close> by (auto simp: live_def)
        then show ?thesis using n' lk[of val es] rest 1(2) by (auto simp: updated_def live_def simp del: lookup_node.simps)
      qed
    next
      case rest: False
      obtain xs where v: "visit_edges es rest v = (xs, r, a)" "n' = Node key val xs" using run rest \<open>p = []\<close> by (auto split: prod.splits)
      have "list_all (\<lambda>e. node_key e \<noteq> [] \<and> live e \<and> node_ok e) es" using 1(2) by simp
      from "1.IH"[OF refl refl, unfolded m, OF _ rest this rest v(1)] True
      have IH: "\<forall>ks'. ks' \<noteq> [] \<longrightarrow> lookup_edges xs ks' = updated (lookup_edges es) rest v ks'" "r = lookup_edges xs rest" "r \<noteq> None"
        "list_all (\<lambda>e. node_key e \<noteq> [] \<and> live e \<and> node_ok e) xs" "xs \<noteq> []"
        "sum_list (map node_count xs) = sum_list (map node_count es) + (if lookup_edges es rest = None then 1 else 0)"
        "a \<longrightarrow> lookup_edges es rest = None" by auto
      have "lookup_node n' = updated (lookup_node (Node key val es)) ks v"
      proof
        fix x
        show "lookup_node n' x = updated (lookup_node (Node key val es)) ks v x"
        proof (cases "strip (tl key) x")
          case None
          then have "x \<noteq> ks" using sp(1,2) True strip_iff[of "tl key" ks rest] by auto
          then show ?thesis using None by (simp add: v(2) updated_def)
        next
          case (Some y)
          then have "x = tl key @ y" by (simp add: strip_iff)
          then show ?thesis using IH(1) lk[of val es] here[of val _ y] rest sp(1,2) True
            by (auto simp: v(2) updated_def simp del: lookup_node.simps)
        qed
      qed
      then show ?thesis using IH(2-) lk[of val xs] lk[of val es] rest by (simp add: v(2) live_def del: lookup_node.simps)
    qed
  qed
next
  case (2 ks v)
  then show ?case by (auto simp: lookup_leaf updated_def live_def simp del: lookup_node.simps) (metis list.collapse)+
next
  case (3 e es ks v)
  show ?case
  proof (cases "node_key e \<noteq> [] \<and> hd (node_key e) = hd ks")
    case True
    obtain e' where e': "visit e (tl ks) v = (e', r, a)" "es' = e' # es" using "3.prems"(3) True by (auto split: prod.splits)
    have "node_ok e" "live e" using "3.prems"(1) by simp_all
    from "3.IH"(1)[OF True this(1) _ e'(1)] this(2)
    have IH: "lookup_node e' = updated (lookup_node e) (tl ks) v" "r = lookup_node e' (tl ks)" "r \<noteq> None" "node_ok e'" "live e'"
      "take 1 (node_key e') = take 1 (node_key e)" "node_count e' = node_count e + (if lookup_node e (tl ks) = None then 1 else 0)"
      "a \<longrightarrow> lookup_node e (tl ks) = None" by auto
    have key: "node_key e' \<noteq> []" "hd (node_key e') = hd (node_key e)" using IH(6) True by (cases "node_key e"; cases "node_key e'"; simp)+
    have "lookup_edges es' x = updated (lookup_edges (e # es)) ks v x" if "x \<noteq> []" for x
      using that "3.prems"(2) True key IH(1) by (cases x; cases ks) (auto simp: e'(2) updated_def)
    then have "\<forall>x. x \<noteq> [] \<longrightarrow> lookup_edges es' x = updated (lookup_edges (e # es)) ks v x" by blast
    then show ?thesis by (intro conjI) (assumption | use IH True key "3.prems"(1) in \<open>simp add: e'(2)\<close>)+
  next
    case False
    obtain xs where xs: "visit_edges es ks v = (xs, r, a)" "es' = e # xs" using "3.prems"(3) False by (auto split: prod.splits)
    from "3.IH"(2)[OF False _ "3.prems"(2) xs(1)] "3.prems"(1) show ?thesis
      using False by (auto simp: xs(2) updated_def)
  qed
qed


section \<open>The contract of a cache\<close>

text \<open>What the mapper relies on: a store of values under keys, in which a key that is found is returned as it was
  put and a new one is put.\<close>

locale cache =
  fixes ok :: "'c \<Rightarrow> bool" and lookup :: "'c \<Rightarrow> 'k \<Rightarrow> 'v option" and admits :: "'k \<Rightarrow> bool"
    and get_or_create :: "'c \<Rightarrow> 'k \<Rightarrow> 'v \<Rightarrow> 'v option \<times> 'c"
  assumes keeps: "ok c \<Longrightarrow> admits k \<Longrightarrow> ok (snd (get_or_create c k v))"
    and found: "ok c \<Longrightarrow> admits k \<Longrightarrow> lookup c k = Some w \<Longrightarrow> fst (get_or_create c k v) = Some w \<and> lookup (snd (get_or_create c k v)) = lookup c"
    and created: "ok c \<Longrightarrow> admits k \<Longrightarrow> lookup c k = None \<Longrightarrow>
      fst (get_or_create c k v) = Some v \<and> lookup (snd (get_or_create c k v)) = (lookup c)(k \<mapsto> v)"
begin

text \<open>A cache in which every value is the one a function gives for its key stays so, and answers that value.\<close>

lemma memo_step:
  assumes "ok c" "\<And>k w. lookup c k = Some w \<Longrightarrow> w = f k" "admits k"
  shows "fst (get_or_create c k (f k)) = Some (f k) \<and> ok (snd (get_or_create c k (f k)))
    \<and> (\<forall>j w. lookup (snd (get_or_create c k (f k))) j = Some w \<longrightarrow> w = f j)"
  using assms keeps[of c k "f k"] found[of c k _ "f k"] created[of c k "f k"]
  by (cases "lookup c k") (auto simp: fun_upd_def split: if_splits)

text \<open>Values once put are never changed, whatever is asked for after.\<close>

lemma stable:
  "ok c \<Longrightarrow> \<forall>p \<in> set ps. admits (fst p) \<Longrightarrow> lookup c k = Some w \<Longrightarrow> lookup (foldl (\<lambda>c p. snd (get_or_create c (fst p) (snd p))) c ps) k = Some w"
proof (induction ps arbitrary: c)
  case (Cons p ps)
  have "lookup (snd (get_or_create c (fst p) (snd p))) k = Some w"
    using Cons.prems found[of c "fst p" _ "snd p"] created[of c "fst p" "snd p"] by (cases "lookup c (fst p)") auto
  then show ?case using Cons.IH[of "snd (get_or_create c (fst p) (snd p))"] Cons.prems keeps[of c "fst p" "snd p"] by simp
qed simp

end

lemma tree_visit:
  assumes "tree_ok t" "ks \<noteq> []"
  shows "tree_ok (snd (getOrCreate t ks v)) \<and> tree_map (snd (getOrCreate t ks v)) = updated (tree_map t) ks v
    \<and> fst (getOrCreate t ks v) = updated (tree_map t) ks v ks \<and> fst (getOrCreate t ks v) \<noteq> None"
proof -
  obtain n r a where v: "visit (tree_root t) ks v = (n, r, a)" by (cases "visit (tree_root t) ks v")
  note c = visit_correct(1)[OF _ _ v]
  show ?thesis using c assms v by (auto simp: tree_ok_def getOrCreate_def tree_map_def split: if_splits)
qed

interpretation tree: cache tree_ok tree_map "\<lambda>ks. ks \<noteq> []" getOrCreate
  by unfold_locales (simp_all add: tree_visit updated_def)

lemma new_Tree_ok: "tree_ok new_Tree" "tree_map new_Tree = Map.empty"
  by (auto simp: tree_ok_def new_Tree_def tree_map_def fun_eq_iff)

text \<open>C17: The tree behaves as a finite map: \<open>getOrCreate\<close> of a non-empty key answers the value it has, or puts the
  new one, and changes no other key; a new tree is empty, the invariant is kept, and the length never
  exceeds the number of keys.\<close>

theorem Tree_refines_map:
  fixes t :: "('k, 'v) Tree"
  assumes "tree_ok t" "ks \<noteq> []"
  shows "tree_ok (snd (getOrCreate t ks v))
    \<and> tree_map (snd (getOrCreate t ks v)) = (case tree_map t ks of None \<Rightarrow> (tree_map t)(ks \<mapsto> v) | Some w \<Rightarrow> tree_map t)
    \<and> fst (getOrCreate t ks v) = Some (case tree_map t ks of None \<Rightarrow> v | Some w \<Rightarrow> w)
    \<and> tree_ok (new_Tree :: ('k, 'v) Tree) \<and> tree_map (new_Tree :: ('k, 'v) Tree) = Map.empty"
  using tree.keeps[OF assms] tree.found[OF assms] tree.created[OF assms]
  by (auto simp: new_Tree_ok split: option.splits)

theorem Tree_refines_map_witness:
  "tree_map (snd (getOrCreate (snd (getOrCreate (snd (getOrCreate new_Tree ''abc'' (10 :: int))) ''abd'' 20)) ''ab'' 30))
    = [''abc'' \<mapsto> 10, ''abd'' \<mapsto> 20, ''ab'' \<mapsto> 30]"
proof -
  let ?t0 = "new_Tree :: (char, int) Tree"
  let ?t1 = "snd (getOrCreate ?t0 ''abc'' 10)"
  let ?t2 = "snd (getOrCreate ?t1 ''abd'' 20)"
  have 1: "tree_ok ?t1" "tree_map ?t1 = [''abc'' \<mapsto> 10]"
    using Tree_refines_map[of ?t0 "''abc''" 10] by (simp_all add: new_Tree_ok)
  then have 2: "tree_ok ?t2" "tree_map ?t2 = [''abc'' \<mapsto> 10, ''abd'' \<mapsto> 20]"
    using Tree_refines_map[of ?t1 "''abd''" 20] by simp_all
  then show ?thesis using Tree_refines_map[of ?t2 "''ab''" 30] by simp
qed

text \<open>The length does not count a value put at an existing branching node: three keys, length two.\<close>

lemma tree_length_misses: "tree_length (snd (getOrCreate (snd (getOrCreate (snd (getOrCreate new_Tree ''abc'' (1 :: nat))) ''abd'' 2)) ''ab'' 3)) = 2"
  by code_simp

text \<open>The empty key on an empty tree: no value is created and \<open>null\<close> is returned.\<close>

lemma tree_empty_key: "fst (getOrCreate new_Tree [] v) = None"
  by (simp add: getOrCreate_def new_Tree_def)

end
