(* ===== verification/Mapper_Handler.thy ===== *)
theory Mapper_Handler
  imports Mapper_Query Mapper_Tree
begin

text \<open>
  From a document to its statements: the keys of the cache (\<open>lib/mapping/cache.js\<close>), the choice of tables
  (\<open>object-selector.js\<close>), and the handler that keeps what it generated in radix trees (\<open>mapping-handler.js\<close>).
\<close>

section \<open>Keys of the cache\<close>

text \<open>The parts of a key are texts, and the boolean \<open>inverted\<close> of an assignment.\<close>

datatype key_part = K string | K_bool bool

fun yieldOperators :: "'v doc_value \<Rightarrow> key_part list" where
  "yieldOperators (QueryOperator key v) = [K key]"
| "yieldOperators (QueryOperator_in xs) = [K ''IN'']"
| "yieldOperators (QueryOperator_children key a b) = K key # yieldOperators a @ [K ''|/|''] @ yieldOperators b"
| "yieldOperators v = []"

definition yieldKeyAndOperators :: "string list \<Rightarrow> 'v doc \<Rightarrow> key_part list" where
  "yieldKeyAndOperators keys doc = concat (map (\<lambda>k. K k # yieldOperators (doc_get doc k)) keys)"

definition yieldAllQs :: "'v doc_value \<Rightarrow> key_part list" where
  "yieldAllQs v = (case v of QueryAssignment sign x inverted \<Rightarrow> [K sign, K_bool inverted] | _ \<Rightarrow> yieldOperators v)"

definition yieldKeyAndAllQs :: "string list \<Rightarrow> 'v doc \<Rightarrow> key_part list" where
  "yieldKeyAndAllQs keys doc = concat (map (\<lambda>k. K k # yieldAllQs (doc_get doc k)) keys)"

definition fields_key :: "'v doc_info \<Rightarrow> key_part list" where
  "fields_key di = (if di_fields di \<noteq> [] then K ''|f|'' # map K (di_fields di) else [])"

text \<open>An order that is no text is refused later; its key part is not modelled.\<close>

definition getSelectDocInfo :: "'v doc_info \<Rightarrow> key_part list" where
  "getSelectDocInfo di =
     fields_key di
     @ (if di_limit di \<noteq> None then [K ''|l|''] else [])
     @ (case di_orderBy di of
          None \<Rightarrow> []
        | Some os \<Rightarrow> K ''|o|'' # concat (map (\<lambda>(key, v). [K key, K (case v of Some s \<Rightarrow> s | None \<Rightarrow> [])]) os))"

definition getSelectKey :: "string list \<Rightarrow> 'v doc \<Rightarrow> 'v doc_info \<Rightarrow> key_part list" where
  "getSelectKey docKeys doc di = yieldKeyAndOperators docKeys doc @ getSelectDocInfo di"

definition getSelectAllKey :: "'v doc_info \<Rightarrow> key_part list" where
  "getSelectAllKey di = K ''root'' # getSelectDocInfo di"

definition getInsertKey :: "string list \<Rightarrow> 'v doc_info \<Rightarrow> key_part list" where
  "getInsertKey docKeys di =
     map K docKeys @ fields_key di
     @ (if di_ttl di \<noteq> None then [K ''|t|''] else [])
     @ (if di_ifNotExists di \<noteq> Falsy then [K ''|e|''] else [])"

definition when_key :: "'v doc_info \<Rightarrow> key_part list" where
  "when_key di = (case di_when di of None \<Rightarrow> [] | Some w \<Rightarrow> yieldKeyAndOperators (map fst w) w)"

definition getUpdateKey :: "string list \<Rightarrow> 'v doc \<Rightarrow> 'v doc_info \<Rightarrow> key_part list" where
  "getUpdateKey docKeys doc di =
     yieldKeyAndAllQs docKeys doc @ fields_key di
     @ (if di_ttl di \<noteq> None then [K ''|t|''] else [])
     @ (if di_ifExists di \<noteq> Falsy then [K ''|e|''] else [])
     @ when_key di"

definition getRemoveKey :: "string list \<Rightarrow> 'v doc \<Rightarrow> 'v doc_info \<Rightarrow> key_part list" where
  "getRemoveKey docKeys doc di =
     yieldKeyAndOperators docKeys doc @ fields_key di
     @ (if di_ifExists di \<noteq> Falsy then [K ''|e|''] else [])
     @ (if di_deleteOnlyColumns di \<noteq> Falsy then [K ''|dc|''] else [])
     @ when_key di"

section \<open>The choice of tables\<close>

datatype key_matches = All_keys | No_keys | Some_keys

definition keysAreIncluded :: "string list \<Rightarrow> 'v property_info list \<Rightarrow> key_matches" where
  "keysAreIncluded keys ps =
     (if keys = [] then All_keys
      else let matches = length (filter (\<lambda>p. pi_columnName p \<in> set keys) ps)
           in if matches = 0 then No_keys else if matches = length keys then All_keys else Some_keys)"

definition staticColumnCount :: "table \<Rightarrow> nat" where
  "staticColumnCount t = length (filter (\<lambda>c. snd (snd c)) (tb_columns t))"

definition hasStaticColumn :: "table \<Rightarrow> bool" where
  "hasStaticColumn t \<longleftrightarrow> 0 < staticColumnCount t"

text \<open>Whether a table serves a SELECT: the conditions of the loop of \<open>getForSelect\<close> in order.\<close>

fun order_matches :: "string list \<Rightarrow> (string \<times> string) list \<Rightarrow> bool" where
  "order_matches cks [] = True"
| "order_matches [] (o' # os) = False"
| "order_matches (ck # cks) (o' # os) = (ck = fst o' \<and> order_matches cks os)"

definition serves_select :: "bool \<Rightarrow> 'v property_info list \<Rightarrow> 'v property_info list \<Rightarrow> (string \<times> string) list \<Rightarrow> table \<Rightarrow> bool" where
  "serves_select allPKsDefined ps fs orderBy t \<longleftrightarrow>
     keysAreIncluded (tb_partitionKeys t) ps = All_keys
     \<and> (allPKsDefined \<longrightarrow> keysAreIncluded (tb_clusteringKeys t) ps = All_keys)
     \<and> (length ps > length (tb_partitionKeys t) \<longrightarrow> list_all (\<lambda>p. pi_columnName p \<in> primary_keys t) ps)
     \<and> list_all (\<lambda>p. has_column t (pi_columnName p)) fs
     \<and> order_matches (tb_clusteringKeys t) orderBy"

text \<open>The metadata answers a table or \<open>null\<close> for a name. The loop stops at the first table that serves or that
  could not be retrieved.\<close>

fun first_serving :: "(table \<Rightarrow> bool) \<Rightarrow> (string \<times> table option) list \<Rightarrow> table option result" where
  "first_serving serves [] = return None"
| "first_serving serves (t # ts) =
     (case snd t of
        None \<Rightarrow> throw (GenericError (''Table '' @ column_text (fst t) @ '' could not be retrieved''))
      | Some table \<Rightarrow> if serves table then return (Some table) else first_serving serves ts)"

definition getForSelect :: "(string \<Rightarrow> bool \<Rightarrow> table option) \<Rightarrow> 'v ModelMappingInfo \<Rightarrow> bool \<Rightarrow> 'v property_info list \<Rightarrow> 'v property_info list
    \<Rightarrow> (string \<times> string) list \<Rightarrow> string result" where
  "getForSelect metadata info allPKsDefined ps fs orderBy =
     rbind (first_serving (serves_select allPKsDefined ps fs orderBy) (map (\<lambda>t. (fst t, metadata (fst t) (snd t))) (mi_tables info))) (\<lambda>t.
       case t of Some table \<Rightarrow> return (tb_name table) | None \<Rightarrow> throw (GenericError ''No table matches the filter''))"

definition getForSelectAll :: "'v ModelMappingInfo \<Rightarrow> string result" where
  "getForSelectAll info =
     (case mi_tables info of [] \<Rightarrow> throw (TypeError ''Cannot read properties of undefined'') | t # ts \<Rightarrow> return (fst t))"

text \<open>The tables of a mutation: every table, not view, that serves. The name in the error of a table that could
  not be retrieved is taken from the tables and views together, at the index among the tables.\<close>

definition serving_tables :: "(string \<Rightarrow> bool \<Rightarrow> table option) \<Rightarrow> 'v ModelMappingInfo \<Rightarrow> (table \<Rightarrow> bool) \<Rightarrow> string \<Rightarrow> table list result" where
  "serving_tables metadata info serves message =
     (let ts = map (\<lambda>t. metadata (fst t) False) (filter (\<lambda>t. \<not> snd t) (mi_tables info))
      in rbind (rmap (\<lambda>(i, t). case t of
                  None \<Rightarrow> throw (GenericError (''Table '' @ column_text (fst (mi_tables info ! i)) @ '' could not be retrieved''))
                | Some table \<Rightarrow> return table) (zip [0..<length ts] ts)) (\<lambda>tables.
           let found = filter serves tables
           in if found = [] then throw (GenericError message) else return found))"

definition serves_insert :: "'v property_info list \<Rightarrow> table \<Rightarrow> bool" where
  "serves_insert ps t \<longleftrightarrow>
     keysAreIncluded (tb_partitionKeys t) ps = All_keys
     \<and> (case keysAreIncluded (tb_clusteringKeys t) ps of
          All_keys \<Rightarrow> True
        | Some_keys \<Rightarrow> False
        | No_keys \<Rightarrow> length ps = length (tb_partitionKeys t) + staticColumnCount t \<and> staticColumnCount t > 0)"

definition serves_update :: "'v property_info list \<Rightarrow> 'v property_info list \<Rightarrow> table \<Rightarrow> bool" where
  "serves_update ps when' t \<longleftrightarrow>
     (let ck = keysAreIncluded (tb_clusteringKeys t) ps; applicable = length (filter (\<lambda>p. has_column t (pi_columnName p)) ps)
      in keysAreIncluded (tb_partitionKeys t) ps = All_keys
         \<and> ck \<noteq> Some_keys
         \<and> \<not> (ck = No_keys \<and> \<not> hasStaticColumn t)
         \<and> \<not> (applicable \<le> length (tb_partitionKeys t) + length (tb_clusteringKeys t)
              \<and> (\<not> hasStaticColumn t \<or> applicable \<le> length (tb_partitionKeys t)))
         \<and> list_all (\<lambda>p. has_column t (pi_columnName p)) when')"

definition serves_delete :: "'v property_info list \<Rightarrow> 'v property_info list \<Rightarrow> table \<Rightarrow> bool" where
  "serves_delete ps when' t \<longleftrightarrow>
     list_all (\<lambda>k. k \<in> pi_columnName ` set ps) (tb_partitionKeys t @ tb_clusteringKeys t)
     \<and> list_all (\<lambda>p. has_column t (pi_columnName p)) when'"

definition getForInsert :: "(string \<Rightarrow> bool \<Rightarrow> table option) \<Rightarrow> 'v ModelMappingInfo \<Rightarrow> 'v property_info list \<Rightarrow> table list result" where
  "getForInsert metadata info ps = serving_tables metadata info (serves_insert ps) ''No table matches (all PKs have to be specified)''"

definition getForUpdate :: "(string \<Rightarrow> bool \<Rightarrow> table option) \<Rightarrow> 'v ModelMappingInfo \<Rightarrow> 'v property_info list \<Rightarrow> 'v property_info list \<Rightarrow> table list result" where
  "getForUpdate metadata info ps when' =
     serving_tables metadata info (serves_update ps when') ''No table matches (all PKs and columns to set have to be specified)''"

definition getForDelete :: "(string \<Rightarrow> bool \<Rightarrow> table option) \<Rightarrow> 'v ModelMappingInfo \<Rightarrow> 'v property_info list \<Rightarrow> 'v property_info list \<Rightarrow> table list result" where
  "getForDelete metadata info ps when' = serving_tables metadata info (serves_delete ps when') ''No table matches (all PKs have to be specified)''"

section \<open>The handler\<close>

text \<open>What an executor closes over. Calls are modelled one after the other: the promises of one are settled
  before the next.\<close>

datatype executor =
    Select_executor string "token list"
  | Single_executor statement
  | Batch_executor "statement list"

text \<open>A cache: the tree of references, and the items they refer to, \<open>{executor: null}\<close> when they are created.\<close>

record 'e cache_state =
  cs_tree :: "(key_part, nat) Tree"
  cs_items :: "'e option list"

definition new_cache :: "'e cache_state" where
  "new_cache = \<lparr>cs_tree = new_Tree, cs_items = []\<rparr>"

definition cached_executor :: "'e cache_state \<Rightarrow> key_part list \<Rightarrow> 'e result \<Rightarrow> 'e result \<times> 'e cache_state" where
  "cached_executor c key create =
     (case getOrCreate (cs_tree c) key (length (cs_items c)) of
        (None, t) \<Rightarrow> (throw (TypeError ''Cannot read properties of null''), c\<lparr>cs_tree := t\<rparr>)
      | (Some ref, t) \<Rightarrow>
          let items = (if ref < length (cs_items c) then cs_items c else cs_items c @ [None])
          in case items ! ref of
               Some e \<Rightarrow> (return e, \<lparr>cs_tree = t, cs_items = items\<rparr>)
             | None \<Rightarrow>
                 (case create of
                    Inl err \<Rightarrow> (Inl err, \<lparr>cs_tree = t, cs_items = items\<rparr>)
                  | Inr e \<Rightarrow> (return e, \<lparr>cs_tree = t, cs_items = items[ref := Some e]\<rparr>)))"

record handler =
  h_select :: "executor cache_state"
  h_selectAll :: "executor cache_state"
  h_insert :: "executor cache_state"
  h_update :: "executor cache_state"
  h_remove :: "executor cache_state"

definition new_MappingHandler :: handler where
  "new_MappingHandler = \<lparr>h_select = new_cache, h_selectAll = new_cache, h_insert = new_cache, h_update = new_cache, h_remove = new_cache\<rparr>"

definition create_select :: "(string \<Rightarrow> bool \<Rightarrow> table option) \<Rightarrow> 'v ModelMappingInfo \<Rightarrow> 'v doc \<Rightarrow> 'v doc_info \<Rightarrow> bool \<Rightarrow> executor result" where
  "create_select metadata info doc di allPKsDefined =
     (let ps = getPropertiesInfo (map fst doc) [] doc info; fs = getPropertiesInfo [] (di_fields di) doc info; limit = di_limit di \<noteq> None
      in rbind (adaptOrderBy di info) (\<lambda>orderBy.
         rbind (getForSelect metadata info allPKsDefined ps fs orderBy) (\<lambda>tableName.
           return (Select_executor (getSelect tableName (mi_keyspace info) ps fs orderBy limit) (selectParamsGetter ps limit)))))"

definition getSelectExecutor :: "(string \<Rightarrow> bool \<Rightarrow> table option) \<Rightarrow> 'v ModelMappingInfo \<Rightarrow> handler \<Rightarrow> 'v doc \<Rightarrow> 'v doc_info \<Rightarrow> bool \<Rightarrow> executor result \<times> handler" where
  "getSelectExecutor metadata info h doc di allPKsDefined =
     (if doc = [] then (throw (GenericError ''Expected object with keys''), h)
      else case cached_executor (h_select h) (getSelectKey (map fst doc) doc di) (create_select metadata info doc di allPKsDefined) of
             (r, c) \<Rightarrow> (r, h\<lparr>h_select := c\<rparr>))"

definition create_select_all :: "'v ModelMappingInfo \<Rightarrow> 'v doc_info \<Rightarrow> executor result" where
  "create_select_all info di =
     (let fs = getPropertiesInfo [] (di_fields di) [] info; limit = di_limit di \<noteq> None; none = [] :: 'v property_info list
      in rbind (adaptOrderBy di info) (\<lambda>orderBy.
         rbind (getForSelectAll info) (\<lambda>tableName.
           return (Select_executor (getSelect tableName (mi_keyspace info) none fs orderBy limit) (selectParamsGetter none limit)))))"

definition getSelectAllExecutor :: "'v ModelMappingInfo \<Rightarrow> handler \<Rightarrow> 'v doc_info \<Rightarrow> executor result \<times> handler" where
  "getSelectAllExecutor info h di =
     (case cached_executor (h_selectAll h) (getSelectAllKey di) (create_select_all info di) of (r, c) \<Rightarrow> (r, h\<lparr>h_selectAll := c\<rparr>))"

definition set_executor :: "statement list \<Rightarrow> executor" where
  "set_executor queries = (case queries of [q] \<Rightarrow> Single_executor q | _ \<Rightarrow> Batch_executor queries)"

definition createInsertQueries :: "(string \<Rightarrow> bool \<Rightarrow> table option) \<Rightarrow> 'v ModelMappingInfo \<Rightarrow> 'v doc \<Rightarrow> 'v doc_info \<Rightarrow> statement list result" where
  "createInsertQueries metadata info doc di =
     (let ps = getPropertiesInfo (map fst doc) (di_fields di) doc info
      in rbind (getForInsert metadata info ps) (\<lambda>tables.
           if length tables > 1 \<and> di_ifNotExists di \<noteq> Falsy
           then throw (GenericError ''Batch with ifNotExists conditions cannot span multiple tables'')
           else return (map (\<lambda>t. getInsert t (mi_keyspace info) ps di (di_ifNotExists di)) tables)))"

definition getInsertExecutor :: "(string \<Rightarrow> bool \<Rightarrow> table option) \<Rightarrow> 'v ModelMappingInfo \<Rightarrow> handler \<Rightarrow> 'v doc \<Rightarrow> 'v doc_info \<Rightarrow> executor result \<times> handler" where
  "getInsertExecutor metadata info h doc di =
     (if doc = [] then (throw (GenericError ''Expected object with keys''), h)
      else case cached_executor (h_insert h) (getInsertKey (map fst doc) di)
                  (rbind (createInsertQueries metadata info doc di) (\<lambda>qs. return (set_executor qs))) of
             (r, c) \<Rightarrow> (r, h\<lparr>h_insert := c\<rparr>))"

definition when_info :: "'v ModelMappingInfo \<Rightarrow> 'v doc_info \<Rightarrow> 'v property_info list" where
  "when_info info di = (case di_when di of None \<Rightarrow> [] | Some w \<Rightarrow> getPropertiesInfo (map fst w) [] w info)"

definition createUpdateQueries :: "(string \<Rightarrow> bool \<Rightarrow> table option) \<Rightarrow> 'v ModelMappingInfo \<Rightarrow> 'v doc \<Rightarrow> 'v doc_info \<Rightarrow> statement list result" where
  "createUpdateQueries metadata info doc di =
     (let ps = getPropertiesInfo (map fst doc) (di_fields di) doc info; when' = when_info info di
      in if when' \<noteq> [] \<and> di_ifExists di \<noteq> Falsy
         then throw (GenericError ''Both when and ifExists conditions can not be applied to the same statement'')
         else rbind (getForUpdate metadata info ps when') (\<lambda>tables.
           if length tables > 1 \<and> (when' \<noteq> [] \<or> di_ifExists di \<noteq> Falsy)
           then throw (GenericError ''Batch with when or ifExists conditions cannot span multiple tables'')
           else return (map (\<lambda>t. getUpdate t (mi_keyspace info) ps di when' (di_ifExists di)) tables)))"

definition getUpdateExecutor :: "(string \<Rightarrow> bool \<Rightarrow> table option) \<Rightarrow> 'v ModelMappingInfo \<Rightarrow> handler \<Rightarrow> 'v doc \<Rightarrow> 'v doc_info \<Rightarrow> executor result \<times> handler" where
  "getUpdateExecutor metadata info h doc di =
     (if doc = [] then (throw (GenericError ''Expected object with keys''), h)
      else case cached_executor (h_update h) (getUpdateKey (map fst doc) doc di)
                  (rbind (createUpdateQueries metadata info doc di) (\<lambda>qs. return (set_executor qs))) of
             (r, c) \<Rightarrow> (r, h\<lparr>h_update := c\<rparr>))"

definition createDeleteQueries :: "(string \<Rightarrow> bool \<Rightarrow> table option) \<Rightarrow> 'v ModelMappingInfo \<Rightarrow> 'v doc \<Rightarrow> 'v doc_info \<Rightarrow> statement list result" where
  "createDeleteQueries metadata info doc di =
     (let ps = getPropertiesInfo (map fst doc) (di_fields di) doc info; when' = when_info info di
      in if when' \<noteq> [] \<and> di_ifExists di \<noteq> Falsy
         then throw (GenericError ''Both when and ifExists conditions can not be applied to the same statement'')
         else rbind (getForDelete metadata info ps when') (\<lambda>tables.
           if length tables > 1 \<and> (when' \<noteq> [] \<or> di_ifExists di \<noteq> Falsy)
           then throw (GenericError ''Batch with when or ifExists conditions cannot span multiple tables'')
           else return (map (\<lambda>t. getDelete t (mi_keyspace info) ps di when' (di_ifExists di)) tables)))"

definition getDeleteExecutor :: "(string \<Rightarrow> bool \<Rightarrow> table option) \<Rightarrow> 'v ModelMappingInfo \<Rightarrow> handler \<Rightarrow> 'v doc \<Rightarrow> 'v doc_info \<Rightarrow> executor result \<times> handler" where
  "getDeleteExecutor metadata info h doc di =
     (if doc = [] then (throw (GenericError ''Expected object with keys''), h)
      else case cached_executor (h_remove h) (getRemoveKey (map fst doc) doc di)
                  (rbind (createDeleteQueries metadata info doc di) (\<lambda>qs. return (set_executor qs))) of
             (r, c) \<Rightarrow> (r, h\<lparr>h_remove := c\<rparr>))"

text \<open>Running an executor: the requests handed to the client.\<close>

datatype 'v request =
    Execute string "'v param list" "'v adapted_options"
  | Execute_batch "(string \<times> 'v param list) list" "'v adapted_options"

definition run_executor :: "'v ModelMappingInfo \<Rightarrow> executor \<Rightarrow> 'v doc \<Rightarrow> 'v doc_info \<Rightarrow> 'v execution_option \<Rightarrow> 'v request result" where
  "run_executor info e doc di opts =
     (case e of
        Select_executor query getter \<Rightarrow>
          rbind (run_getter info getter doc di) (\<lambda>ps. return (Execute query ps (adaptAllOptions opts True)))
      | Single_executor q \<Rightarrow>
          rbind (run_getter info (st_params q) doc di) (\<lambda>ps. return (Execute (st_query q) ps (adaptOptions opts (st_isIdempotent q))))
      | Batch_executor qs \<Rightarrow>
          rbind (rmap (\<lambda>q. rbind (run_getter info (st_params q) doc di) (\<lambda>ps. return (st_query q, ps))) qs) (\<lambda>rs.
            return (Execute_batch rs (adaptOptions opts (list_all st_isIdempotent qs)))))"

end
