(* ===== verification/Mapper_Params.thy ===== *)
theory Mapper_Params
  imports Mapper_Handler
begin

text \<open>
  The parameters that the generated functions collect are those of the placeholders of the generated text, in
  number and in order.
\<close>

section \<open>Array literals\<close>

text \<open>Expressions separated by commas.\<close>

definition seq :: "getter list \<Rightarrow> token list" where
  "seq gs = join [Comma] (map (\<lambda>g. [Expr g]) gs)"

lemma seq_simps [simp]: "seq [] = []" "seq [g] = [Expr g]" "seq (g # h # gs) = Expr g # Comma # seq (h # gs)"
  by (simp_all add: seq_def)

lemma seq_Cons: "gs \<noteq> [] \<Longrightarrow> seq (g # gs) = Expr g # Comma # seq gs"
  by (cases gs) simp_all

lemma seq_append: "gs \<noteq> [] \<Longrightarrow> hs \<noteq> [] \<Longrightarrow> seq (gs @ hs) = seq gs @ Comma # seq hs"
proof (induction gs)
  case (Cons g gs)
  then show ?case by (cases "gs = []") (simp_all add: seq_Cons)
qed simp

lemma array_elements_seq: "array_elements (seq gs) = Some (map Some gs)"
proof (induction gs)
  case (Cons g gs)
  then show ?case by (cases gs) simp_all
qed simp

lemma join_Cons: "xs \<noteq> [] \<Longrightarrow> join sep (x # xs) = x @ sep @ join sep xs"
  by (cases xs) simp_all

lemma join_seq: "list_all (\<lambda>gs. gs \<noteq> []) xs \<Longrightarrow> join [Comma] (map seq xs) = seq (concat xs)"
proof (induction xs)
  case (Cons x xs)
  then have "xs \<noteq> [] \<Longrightarrow> concat xs \<noteq> []" by (cases xs) auto
  then show ?case using Cons by (cases "xs = []") (auto simp: join_Cons seq_append simp del: concat_eq_Nil_conv)
qed simp

section \<open>Getters of a value\<close>

fun value_getters :: "getter \<Rightarrow> string \<Rightarrow> 'v doc_value \<Rightarrow> bool \<Rightarrow> getter list" where
  "value_getters g n (QueryOperator_children key a b) m = value_getters (Get_child g 0) n a m @ value_getters (Get_child g 1) n b m"
| "value_getters g n (QueryOperator_in xs) m = [if m then Get_mapped_each n (Get_value g) else Get_value g]"
| "value_getters g n (QueryOperator key v) m = [if m then Get_mapped n (Get_value g) else Get_value g]"
| "value_getters g n v m = [if m then Get_mapped n g else g]"

lemma value_getters_not_empty: "value_getters g n v m \<noteq> []"
  by (induction g n v m rule: value_getters.induct) simp_all

lemma valueGetterSingle_seq: "valueGetterSingle g n v m = seq (value_getters g n v m)"
  by (induction g n v m rule: value_getters.induct) (simp_all add: seq_append value_getters_not_empty)

text \<open>The parameters of a value: one for each of its conditions.\<close>

fun leaf_params :: "'v model_fn \<Rightarrow> 'v doc_value \<Rightarrow> 'v param list" where
  "leaf_params f (QueryOperator_children key a b) = leaf_params f a @ leaf_params f b"
| "leaf_params f (QueryOperator_in xs) = [Array (map (\<lambda>x. f (Value x)) xs)]"
| "leaf_params f (QueryOperator key v) = [f (value_of v)]"
| "leaf_params f v = [f (value_of v)]"

lemma eval_value_getters:
  assumes "eval_getter info doc di g = value_of v"
  shows "map (eval_getter info doc di) (value_getters g n v (getFromModelFn info n \<noteq> None)) = leaf_params (call_fn (getFromModelFn info n)) v"
  using assms
proof (induction g n v "getFromModelFn info n \<noteq> None" rule: value_getters.induct)
qed (auto simp: value_of_def member_child_def member_value_def call_fn_def split: option.splits)

text \<open>Properties as the adapter makes them from an object.\<close>

definition drawn_from :: "'v ModelMappingInfo \<Rightarrow> 'v doc \<Rightarrow> 'v property_info list \<Rightarrow> bool" where
  "drawn_from info doc ps \<longleftrightarrow> list_all (\<lambda>p. pi_value p = doc_get doc (pi_propertyName p) \<and> pi_fromModel p = getFromModelFn info (pi_propertyName p)) ps"

lemma drawn_getPropertiesInfo: "drawn_from info doc (getPropertiesInfo ks fs doc info)"
  by (simp add: drawn_from_def getPropertiesInfo_def list_all_iff)

lemma drawn_filter: "drawn_from info doc ps \<Longrightarrow> drawn_from info doc (filter P ps)"
  by (auto simp: drawn_from_def list_all_iff)

definition getters_of :: "(string \<Rightarrow> getter) \<Rightarrow> 'v property_info list \<Rightarrow> getter list" where
  "getters_of object ps = concat (map (\<lambda>p. value_getters (object (pi_propertyName p)) (pi_propertyName p) (pi_value p) (pi_fromModel p \<noteq> None)) ps)"

definition params_of :: "'v property_info list \<Rightarrow> 'v param list" where
  "params_of ps = concat (map (\<lambda>p. leaf_params (call_fn (pi_fromModel p)) (pi_value p)) ps)"

lemma valueGetterExpression_seq: "valueGetterExpression object ps = seq (getters_of object ps)"
  unfolding valueGetterExpression_def valueGetterSingle_seq getters_of_def
  using join_seq[of "map (\<lambda>p. value_getters (object (pi_propertyName p)) (pi_propertyName p) (pi_value p) (pi_fromModel p \<noteq> None)) ps"]
  by (simp add: list_all_iff value_getters_not_empty o_def)

lemma getters_of_empty: "getters_of object ps = [] \<longleftrightarrow> ps = []"
  by (cases ps) (simp_all add: getters_of_def value_getters_not_empty)

lemma eval_getters_of:
  assumes "drawn_from info d ps" "\<And>n. eval_getter info doc di (object n) = value_of (doc_get d n)"
  shows "map (eval_getter info doc di) (getters_of object ps) = params_of ps"
  using assms(1)
proof (induction ps)
  case (Cons p ps)
  then show ?case using eval_value_getters[of info doc di "object (pi_propertyName p)" "pi_value p" "pi_propertyName p"] assms(2)
    by (simp add: drawn_from_def getters_of_def params_of_def)
qed (simp add: getters_of_def params_of_def)

section \<open>Placeholders\<close>

definition placeholders :: "string \<Rightarrow> nat" where
  "placeholders s = count_list s (CHR ''?'')"

lemma placeholders_append [simp]: "placeholders (s @ t) = placeholders s + placeholders t"
  by (simp add: placeholders_def)

lemma placeholders_simps [simp]: "placeholders [] = 0" "placeholders (c # s) = (if c = CHR ''?'' then 1 else 0) + placeholders s"
  by (simp_all add: placeholders_def)

lemma placeholders_join: "placeholders sep = 0 \<Longrightarrow> placeholders (join sep xs) = sum_list (map placeholders xs)"
  by (induction sep xs rule: join.induct) simp_all

lemma placeholders_column [simp]: "placeholders (column_text c) = placeholders c"
  by (simp add: column_text_def)

fun operator_keys :: "'v doc_value \<Rightarrow> string list" where
  "operator_keys (QueryOperator key v) = [key]"
| "operator_keys (QueryOperator_children key a b) = key # operator_keys a @ operator_keys b"
| "operator_keys (QueryAssignment sign v inverted) = [sign]"
| "operator_keys v = []"

text \<open>Names and operators without a question mark, as those of \<open>q\<close> are.\<close>

definition no_mark :: "string \<Rightarrow> bool" where
  "no_mark s \<longleftrightarrow> placeholders s = 0"

definition property_ok :: "'v property_info \<Rightarrow> bool" where
  "property_ok p \<longleftrightarrow> no_mark (pi_columnName p) \<and> list_all no_mark (operator_keys (pi_value p))"

lemma condition_placeholders:
  "no_mark c \<Longrightarrow> list_all no_mark (operator_keys v) \<Longrightarrow> placeholders (getSingleCondition c v) = length (leaf_params f v)"
  by (induction c v rule: getSingleCondition.induct) (simp_all add: no_mark_def)

lemma conditions_placeholders: "list_all property_ok ps \<Longrightarrow> placeholders (getConditionWithOperators ps) = length (params_of ps)"
  by (induction ps) (simp_all add: getConditionWithOperators_def params_of_def placeholders_join property_ok_def condition_placeholders)

text \<open>Where a statement has one placeholder per property, its value is one.\<close>

definition single :: "'v doc_value \<Rightarrow> bool" where
  "single v \<longleftrightarrow> (case v of QueryOperator_children key a b \<Rightarrow> False | _ \<Rightarrow> True)"

lemma single_params: "single v \<Longrightarrow> length (leaf_params f v) = 1"
  by (cases v) (simp_all add: single_def)

lemma single_length: "list_all (\<lambda>p. single (pi_value p)) ps \<Longrightarrow> length (params_of ps) = length ps"
  by (induction ps) (simp_all add: params_of_def single_params)

lemma marks_length: "placeholders (join '', '' (map (\<lambda>p. ''?'') ps)) = length ps"
  by (induction ps) (simp_all add: placeholders_join)

lemma columns_placeholders:
  "list_all property_ok ps \<Longrightarrow> placeholders (join '', '' (map (\<lambda>p. column_text (pi_columnName p)) ps)) = 0"
  by (induction ps) (simp_all add: placeholders_join property_ok_def no_mark_def)

lemma where_placeholders:
  "list_all property_ok ps \<Longrightarrow> placeholders (where_clause pk ps) = length (filter (\<lambda>p. pi_columnName p \<in> pk) ps)"
  by (induction ps) (simp_all add: where_clause_def placeholders_join property_ok_def no_mark_def)

lemma assignment_placeholders: "property_ok p \<Longrightarrow> placeholders (assignment_text p) = 1"
  by (cases "pi_value p") (simp_all add: assignment_text_def property_ok_def no_mark_def Let_def)

lemma assignments_placeholders: "list_all property_ok ps \<Longrightarrow> placeholders (join '', '' (map assignment_text ps)) = length ps"
  by (induction ps) (simp_all add: placeholders_join assignment_placeholders)

lemma if_placeholders:
  "list_all property_ok w \<Longrightarrow> \<not> (ifExists = True_value \<and> w \<noteq> []) \<Longrightarrow> placeholders (if_clause ifExists w) = length (params_of w)"
  by (cases "w = []") (auto simp: if_clause_def conditions_placeholders, simp_all add: params_of_def)

section \<open>The statements\<close>

lemma run_getter_seq: "run_getter info (seq gs) doc di = Inr (map (eval_getter info doc di) gs)"
  by (simp add: run_getter_def array_elements_seq o_def)

lemma eval_doc_getters: "drawn_from info doc ps \<Longrightarrow> map (eval_getter info doc di) (getters_of Get_doc ps) = params_of ps"
  by (rule eval_getters_of) simp_all

lemma select_params:
  assumes "drawn_from info doc ps"
  shows "run_getter info (selectParamsGetter ps (di_limit di \<noteq> None)) doc di
    = Inr (params_of ps @ (case di_limit di of None \<Rightarrow> [] | Some n \<Rightarrow> [Value n]))"
proof -
  have "selectParamsGetter ps limit = seq (getters_of Get_doc ps @ (if limit then [Get_limit] else []))" for limit
    using getters_of_empty[of Get_doc ps] by (auto simp: selectParamsGetter_def valueGetterExpression_seq seq_append getters_of_def)
  then show ?thesis using assms by (auto simp: run_getter_seq eval_doc_getters number_param_def split: option.splits)
qed

lemma insert_params:
  assumes "drawn_from info doc ps" "ps \<noteq> []"
  shows "run_getter info (insertParamsGetter ps (di_ttl di \<noteq> None)) doc di
    = Inr (params_of ps @ (case di_ttl di of None \<Rightarrow> [] | Some n \<Rightarrow> [Value n]))"
proof -
  have "insertParamsGetter ps ttl = seq (getters_of Get_doc ps @ (if ttl then [Get_ttl] else []))" for ttl
    using assms(2) getters_of_empty[of Get_doc ps] by (auto simp: insertParamsGetter_def valueGetterExpression_seq seq_append)
  then show ?thesis using assms by (auto simp: run_getter_seq eval_doc_getters number_param_def split: option.splits)
qed

text \<open>The parameters of an assignment.\<close>

definition assignment_param :: "'v property_info \<Rightarrow> 'v param" where
  "assignment_param p = call_fn (pi_fromModel p) (case pi_value p of QueryAssignment sign v inverted \<Rightarrow> value_of v | _ \<Rightarrow> value_of (pi_value p))"

definition assignment_getter :: "'v property_info \<Rightarrow> getter" where
  "assignment_getter p =
     (let g = (case pi_value p of QueryAssignment sign v inverted \<Rightarrow> Get_value (Get_doc (pi_propertyName p)) | _ \<Rightarrow> Get_doc (pi_propertyName p))
      in if pi_fromModel p \<noteq> None then Get_mapped (pi_propertyName p) g else g)"

lemma assignmentGetterExpression_seq: "assignmentGetterExpression ps = seq (map assignment_getter ps)"
  by (simp add: assignmentGetterExpression_def seq_def assignment_getter_def Let_def o_def)

lemma eval_assignment:
  assumes "drawn_from info doc ps" shows "map (eval_getter info doc di) (map assignment_getter ps) = map assignment_param ps"
  using assms
proof (induction ps)
  case (Cons p ps)
  have "eval_getter info doc di (assignment_getter p) = assignment_param p"
  proof -
    have v: "pi_value p = doc_get doc (pi_propertyName p)" "pi_fromModel p = getFromModelFn info (pi_propertyName p)"
      using Cons.prems by (simp_all add: drawn_from_def)
    show ?thesis unfolding assignment_getter_def assignment_param_def v
      by (cases "doc_get doc (pi_propertyName p)"; cases "getFromModelFn info (pi_propertyName p)")
         (simp_all add: value_of_def member_value_def call_fn_def)
  qed
  then show ?case using Cons by (simp add: drawn_from_def)
qed simp

lemma when_params_seq: "when_params w = (if w = [] then [] else Comma # seq (getters_of Get_when w))"
  by (simp add: when_params_def valueGetterExpression_seq)

lemma eval_when: "drawn_from info d w \<Longrightarrow> di_when di = Some d \<or> w = [] \<Longrightarrow> map (eval_getter info doc di) (getters_of Get_when w) = params_of w"
  by (erule disjE) (rule eval_getters_of, simp_all add: getters_of_def params_of_def)

lemma delete_params:
  assumes "drawn_from info doc ps" "ps' = filter (\<lambda>p. pi_columnName p \<in> pk) ps" "ps' \<noteq> []" "drawn_from info d w" "di_when di = Some d \<or> w = []"
  shows "run_getter info (deleteParamsGetter pk ps w) doc di = Inr (params_of ps' @ params_of w)"
proof -
  have "deleteParamsGetter pk ps w = seq (getters_of Get_doc ps' @ getters_of Get_when w)"
    using assms(2,3) getters_of_empty[of Get_doc ps'] getters_of_empty[of Get_when w]
    by (auto simp: deleteParamsGetter_def valueGetterExpression_seq when_params_seq seq_append getters_of_def)
  then show ?thesis using eval_doc_getters[OF drawn_filter[OF assms(1)], of di] eval_when[OF assms(4,5)] assms(2)
    by (simp add: run_getter_seq)
qed

lemma update_params:
  assumes "drawn_from info doc ps" "ps' = filter (\<lambda>p. pi_columnName p \<in> pk) ps" "ps' \<noteq> []" "drawn_from info d w" "di_when di = Some d \<or> w = []"
    "qs = filter (\<lambda>p. pi_columnName p \<notin> pk) ps" "qs \<noteq> []"
  shows "run_getter info (updateParamsGetter pk ps w (di_ttl di \<noteq> None)) doc di
    = Inr ((case di_ttl di of None \<Rightarrow> [] | Some n \<Rightarrow> [Value n]) @ map assignment_param qs @ params_of ps' @ params_of w)"
proof -
  have "updateParamsGetter pk ps w ttl = seq ((if ttl then [Get_ttl] else []) @ map assignment_getter qs @ getters_of Get_doc ps' @ getters_of Get_when w)" for ttl
    using assms(2,3,6,7) getters_of_empty[of Get_doc ps'] getters_of_empty[of Get_when w]
    by (auto simp: updateParamsGetter_def valueGetterExpression_seq assignmentGetterExpression_seq when_params_seq seq_append seq_Cons)
  then show ?thesis
    using eval_doc_getters[OF drawn_filter[OF assms(1)], of di] eval_when[OF assms(4,5)] eval_assignment[OF drawn_filter[OF assms(1)], of di] assms(2,6)
    by (auto simp: run_getter_seq number_param_def o_def split: option.splits)
qed

section \<open>Mutations\<close>

text \<open>A table with partition keys, whose keys are columns, and with no static column.\<close>

definition table_plain :: "table \<Rightarrow> bool" where
  "table_plain t \<longleftrightarrow> tb_partitionKeys t \<noteq> [] \<and> list_all (has_column t) (tb_partitionKeys t @ tb_clusteringKeys t)
     \<and> no_mark (tb_name t) \<and> \<not> hasStaticColumn t"

text \<open>Properties with a column each and no pair of conditions.\<close>

definition properties_ok :: "'v property_info list \<Rightarrow> bool" where
  "properties_ok ps \<longleftrightarrow> distinct (map pi_columnName ps) \<and> list_all (\<lambda>p. property_ok p \<and> single (pi_value p)) ps"

lemma properties_ok_filter: "properties_ok ps \<Longrightarrow> properties_ok (filter P ps)"
  by (auto simp: properties_ok_def list_all_iff distinct_map inj_on_def)

lemma included_key:
  assumes "keysAreIncluded keys ps = All_keys" "keys \<noteq> []" shows "\<exists>p \<in> set ps. pi_columnName p \<in> set keys"
proof -
  have "length (filter (\<lambda>p. pi_columnName p \<in> set keys) ps) \<noteq> 0"
    using assms by (auto simp: keysAreIncluded_def Let_def split: if_splits)
  then show ?thesis by (auto simp: filter_empty_conv)
qed

lemma serving_tables_sound:
  assumes "serving_tables metadata info serves msg = Inr ts" "t \<in> set ts"
  shows "serves t \<and> (\<exists>name. metadata name False = Some t)"
  using assms by (fastforce simp: serving_tables_def Let_def dest!: rmap_result set_zip_rightD split: if_splits option.splits)

text \<open>More columns than keys: one of them is to be set.\<close>

lemma column_to_set:
  assumes "distinct (map pi_columnName ps)" "length ps > length (tb_partitionKeys t) + length (tb_clusteringKeys t)"
  shows "filter (\<lambda>p. pi_columnName p \<notin> primary_keys t) ps \<noteq> []"
proof
  assume "filter (\<lambda>p. pi_columnName p \<notin> primary_keys t) ps = []"
  then have "set (map pi_columnName ps) \<subseteq> primary_keys t" by (auto simp: filter_empty_conv)
  then have "card (set (map pi_columnName ps)) \<le> card (primary_keys t)" by (rule card_mono[rotated]) (simp add: primary_keys_def)
  also have "\<dots> \<le> length (tb_partitionKeys t @ tb_clusteringKeys t)" unfolding primary_keys_def by (rule card_length)
  finally show False using assms distinct_card[OF assms(1)] by simp
qed

lemma insert_match:
  assumes "properties_ok ps" "drawn_from info doc ps" "serves_insert ps t" "table_plain t" "no_mark ks"
  shows "\<exists>params. run_getter info (st_params (getInsert t ks ps di e)) doc di = Inr params \<and> length params = placeholders (st_query (getInsert t ks ps di e))"
proof -
  let ?ps = "filter (\<lambda>p. has_column t (pi_columnName p)) ps"
  obtain p where "p \<in> set ps" "pi_columnName p \<in> set (tb_partitionKeys t)"
    using included_key[of "tb_partitionKeys t" ps] assms(3,4) by (auto simp: serves_insert_def table_plain_def)
  then have ne: "?ps \<noteq> []" using assms(4) by (auto simp: table_plain_def list_all_iff filter_empty_conv)
  have ok: "properties_ok ?ps" using assms(1) by (rule properties_ok_filter)
  then have "list_all property_ok ?ps" "list_all (\<lambda>p. single (pi_value p)) ?ps" by (simp_all add: properties_ok_def list_all_iff)
  then have "placeholders (getInsertQuery (tb_name t) ks ?ps e (di_ttl di \<noteq> None)) = length (params_of ?ps) + (if di_ttl di = None then 0 else 1)"
    using assms(4,5) by (auto simp: getInsertQuery_def columns_placeholders marks_length single_length table_plain_def no_mark_def)
  then show ?thesis using insert_params[OF drawn_filter[OF assms(2)] ne, of di] by (auto simp: getInsert_def Let_def split: option.splits)
qed

lemma delete_match:
  assumes "properties_ok ps" "drawn_from info doc ps" "serves_delete ps w t" "table_plain t" "no_mark ks"
    "list_all property_ok w" "drawn_from info d w" "di_when di = Some d \<or> w = []" "\<not> (e = True_value \<and> w \<noteq> [])"
  shows "\<exists>params. run_getter info (st_params (getDelete t ks ps di w e)) doc di = Inr params \<and> length params = placeholders (st_query (getDelete t ks ps di w e))"
proof -
  let ?ps = "filter (\<lambda>p. has_column t (pi_columnName p)) ps"
  let ?ks = "filter (\<lambda>p. pi_columnName p \<in> primary_keys t) ?ps"
  obtain p where "p \<in> set ps" "pi_columnName p \<in> set (tb_partitionKeys t)"
    using assms(3,4) by (cases "tb_partitionKeys t") (auto simp: serves_delete_def table_plain_def)
  then have ne: "?ks \<noteq> []" using assms(4) by (auto simp: table_plain_def list_all_iff filter_empty_conv primary_keys_def)
  have ok: "properties_ok ?ps" "properties_ok ?ks" "properties_ok (filter (\<lambda>p. pi_columnName p \<notin> primary_keys t) ?ps)"
    using assms(1) by (simp_all only: properties_ok_filter)
  note fl = filter_filter
  have "list_all property_ok ?ps" "list_all (\<lambda>p. single (pi_value p)) ?ks" "list_all property_ok (filter (\<lambda>p. pi_columnName p \<notin> primary_keys t) ?ps)"
    using ok by (simp_all add: properties_ok_def list_all_iff)
  note * = where_placeholders[OF this(1), of "primary_keys t"] single_length[OF this(2)] columns_placeholders[OF this(3)]
  have "placeholders (getDeleteQuery (tb_name t) ks (primary_keys t) ?ps w e (di_deleteOnlyColumns di)) = length (params_of ?ks @ params_of w)"
    using assms(4,5) if_placeholders[OF assms(6,9)] * by (simp add: getDeleteQuery_def table_plain_def no_mark_def Let_def del: fl)
  then show ?thesis using delete_params[OF drawn_filter[OF assms(2)] refl ne assms(7,8)] by (simp add: getDelete_def Let_def del: fl)
qed

lemma update_match:
  assumes "properties_ok ps" "drawn_from info doc ps" "serves_update ps w t" "table_plain t" "no_mark ks"
    "list_all property_ok w" "drawn_from info d w" "di_when di = Some d \<or> w = []" "\<not> (e = True_value \<and> w \<noteq> [])"
  shows "\<exists>params. run_getter info (st_params (getUpdate t ks ps di w e)) doc di = Inr params \<and> length params = placeholders (st_query (getUpdate t ks ps di w e))"
proof -
  let ?ps = "filter (\<lambda>p. has_column t (pi_columnName p)) ps"
  let ?ks = "filter (\<lambda>p. pi_columnName p \<in> primary_keys t) ?ps" and ?qs = "filter (\<lambda>p. pi_columnName p \<notin> primary_keys t) ?ps"
  obtain p where "p \<in> set ps" "pi_columnName p \<in> set (tb_partitionKeys t)"
    using included_key[of "tb_partitionKeys t" ps] assms(3,4) by (auto simp: serves_update_def table_plain_def Let_def)
  then have ne: "?ks \<noteq> []" using assms(4) by (auto simp: table_plain_def list_all_iff filter_empty_conv primary_keys_def)
  have ok: "properties_ok ?ps" "properties_ok ?ks" "properties_ok ?qs" using assms(1) by (simp_all only: properties_ok_filter)
  have "length ?ps > length (tb_partitionKeys t) + length (tb_clusteringKeys t)"
    using assms(3,4) by (auto simp: serves_update_def table_plain_def Let_def not_le)
  then have qs: "?qs \<noteq> []" using ok(1) by (intro column_to_set) (simp_all add: properties_ok_def)
  note fl = filter_filter
  have "list_all property_ok ?ps" "list_all (\<lambda>p. single (pi_value p)) ?ks" "list_all property_ok ?qs"
    using ok by (simp_all add: properties_ok_def list_all_iff)
  note * = where_placeholders[OF this(1), of "primary_keys t"] single_length[OF this(2)] assignments_placeholders[OF this(3)]
  have "placeholders (getUpdateQuery (tb_name t) ks (primary_keys t) ?ps w e (di_ttl di \<noteq> None))
      = (if di_ttl di = None then 0 else 1) + length ?qs + length (params_of ?ks) + length (params_of w)"
    using assms(4,5) if_placeholders[OF assms(6,9)] * by (simp add: getUpdateQuery_def table_plain_def no_mark_def del: fl)
  then show ?thesis using update_params[OF drawn_filter[OF assms(2)] refl ne assms(7,8) refl qs]
    by (auto simp: getUpdate_def Let_def simp del: fl split: option.splits)
qed


text \<open>A table and requests on it.\<close>

definition sample_table :: table where
  "sample_table = \<lparr>tb_name = ''videos'', tb_partitionKeys = [''id''], tb_clusteringKeys = [],
     tb_columns = [(''id'', 0x09, False), (''name'', 0x0a, False), (''state'', 0x0a, False)]\<rparr>"

definition sample_metadata :: "string \<Rightarrow> bool \<Rightarrow> table option" where
  "sample_metadata name isView = (if name = ''videos'' then Some sample_table else None)"

definition sample_info :: "int ModelMappingInfo" where
  "sample_info = createDefault ''videos'' ''ks''"

definition no_doc_info :: "'v doc_info" where
  "no_doc_info = \<lparr>di_fields = [], di_limit = None, di_orderBy = None, di_ttl = None, di_ifNotExists = Falsy, di_ifExists = Falsy,
     di_deleteOnlyColumns = Falsy, di_when = None\<rparr>"

definition sample_doc :: "int doc" where
  "sample_doc = [(''id'', Plain 1), (''name'', Plain 2)]"

definition sample_when :: "int doc_info" where
  "sample_when = no_doc_info\<lparr>di_ttl := Some 60, di_when := Some [(''state'', q_and (q_gt (Plain 3)) (q_lt (Plain 4)))]\<rparr>"

lemma sample_update:
  "createUpdateQueries sample_metadata sample_info sample_doc sample_when
    = Inr [getUpdate sample_table ''ks'' (getPropertiesInfo (map fst sample_doc) [] sample_doc sample_info) sample_when (when_info sample_info sample_when) Falsy]"
proof -
  have "getForUpdate sample_metadata sample_info (getPropertiesInfo (map fst sample_doc) [] sample_doc sample_info) (when_info sample_info sample_when) = Inr [sample_table]"
    by code_simp
  then show ?thesis by (simp add: createUpdateQueries_def Let_def sample_when_def no_doc_info_def sample_info_def createDefault_def)
qed


section \<open>Where they do not match\<close>

text \<open>With a static column \<open>getForUpdate\<close> takes a document that has the keys only: nothing is set, and a hole
  stands before the parameters.\<close>

lemma static_update_mismatch:
  defines "t \<equiv> sample_table\<lparr>tb_clusteringKeys := [''name''], tb_columns := [(''id'', 0x09, False), (''name'', 0x0a, False), (''note'', 0x0a, True)]\<rparr>"
  shows "\<exists>st. createUpdateQueries (\<lambda>n v. Some t) sample_info sample_doc no_doc_info = Inr [st]
    \<and> st_query st = ''UPDATE ks.videos SET  WHERE \"id\" = ? AND \"name\" = ?''
    \<and> run_getter sample_info (st_params st) sample_doc no_doc_info = Inr [Object Undefined, Value 1, Value 2]"
  unfolding t_def by (rule exI, rule conjI, code_simp) code_simp

text \<open>A condition on a key of a DELETE or UPDATE is taken for an equality.\<close>

lemma delete_drops_operator:
  "\<exists>st. createDeleteQueries sample_metadata sample_info [(''id'', q_gt (Plain 5))] no_doc_info = Inr [st]
    \<and> st_query st = ''DELETE FROM ks.videos WHERE \"id\" = ?''
    \<and> run_getter sample_info (st_params st) [(''id'', q_gt (Plain 5))] no_doc_info = Inr [Value 5]"
  by (rule exI, rule conjI, code_simp) code_simp

end
