(* ===== verification/Mapper_Cache_Correct.thy ===== *)
theory Mapper_Cache_Correct
  imports Mapper_Params
begin

text \<open>
  What the caches of the mapper answer: for SELECT and INSERT the key of a request determines what is
  generated for it, so the cache is invisible; for UPDATE it does not.
\<close>

section \<open>Shapes\<close>

text \<open>What the generator looks at in a value.\<close>

datatype shape = Sh_value | Sh_operator string | Sh_in | Sh_children string shape shape

fun shape_of :: "'v doc_value \<Rightarrow> shape" where
  "shape_of (QueryOperator key v) = Sh_operator key"
| "shape_of (QueryOperator_in xs) = Sh_in"
| "shape_of (QueryOperator_children key a b) = Sh_children key (shape_of a) (shape_of b)"
| "shape_of v = Sh_value"

fun shape_condition :: "string \<Rightarrow> shape \<Rightarrow> string" where
  "shape_condition c (Sh_children key a b) = shape_condition c a @ '' '' @ key @ '' '' @ shape_condition c b"
| "shape_condition c (Sh_operator key) = column_text c @ '' '' @ key @ '' ?''"
| "shape_condition c Sh_in = column_text c @ '' IN ?''"
| "shape_condition c Sh_value = column_text c @ '' = ?''"

lemma condition_shape: "getSingleCondition c v = shape_condition c (shape_of v)"
  by (induction c v rule: getSingleCondition.induct) simp_all

fun shape_getters :: "getter \<Rightarrow> string \<Rightarrow> shape \<Rightarrow> bool \<Rightarrow> token list" where
  "shape_getters g n (Sh_children key a b) m = shape_getters (Get_child g 0) n a m @ [Comma] @ shape_getters (Get_child g 1) n b m"
| "shape_getters g n Sh_in m = [Expr (if m then Get_mapped_each n (Get_value g) else Get_value g)]"
| "shape_getters g n (Sh_operator key) m = [Expr (if m then Get_mapped n (Get_value g) else Get_value g)]"
| "shape_getters g n Sh_value m = [Expr (if m then Get_mapped n g else g)]"

lemma getter_shape: "valueGetterSingle g n v m = shape_getters g n (shape_of v) m"
  by (induction g n v m rule: valueGetterSingle.induct) simp_all

definition alike :: "'v property_info \<Rightarrow> 'v property_info \<Rightarrow> bool" where
  "alike p q \<longleftrightarrow> pi_propertyName p = pi_propertyName q \<and> pi_columnName p = pi_columnName q \<and> pi_fromModel p = pi_fromModel q
     \<and> shape_of (pi_value p) = shape_of (pi_value q)"

lemma alike_columns: "list_all2 alike ps qs \<Longrightarrow> map pi_columnName ps = map pi_columnName qs"
  by (induction rule: list_all2_induct) (simp_all add: alike_def)

lemma alike_map:
  assumes "list_all2 alike ps qs" "\<And>p q. alike p q \<Longrightarrow> f p = g q" shows "map f ps = map g qs"
  using assms(1) by (induction rule: list_all2_induct) (simp_all add: assms(2))

lemma alike_filter:
  assumes "list_all2 alike ps qs" "\<And>p q. alike p q \<Longrightarrow> P p = Q q" shows "list_all2 alike (filter P ps) (filter Q qs)"
  using assms(1) by (induction rule: list_all2_induct) (simp_all add: assms(2))

lemma alike_empty: "list_all2 alike ps qs \<Longrightarrow> (ps = []) = (qs = [])"
  by (cases ps; cases qs) simp_all

lemma alike_conditions: "list_all2 alike ps qs \<Longrightarrow> getConditionWithOperators ps = getConditionWithOperators qs"
  using alike_map[of ps qs "\<lambda>p. getSingleCondition (pi_columnName p) (pi_value p)" "\<lambda>p. getSingleCondition (pi_columnName p) (pi_value p)"]
  by (simp add: getConditionWithOperators_def condition_shape alike_def)

lemma alike_getters: "list_all2 alike ps qs \<Longrightarrow> valueGetterExpression g ps = valueGetterExpression g qs"
  using alike_map[of ps qs "\<lambda>p. valueGetterSingle (g (pi_propertyName p)) (pi_propertyName p) (pi_value p) (pi_fromModel p \<noteq> None)"
      "\<lambda>p. valueGetterSingle (g (pi_propertyName p)) (pi_propertyName p) (pi_value p) (pi_fromModel p \<noteq> None)"]
  by (simp add: valueGetterExpression_def getter_shape alike_def)

lemma alike_select:
  assumes "list_all2 alike ps qs" "map pi_columnName fs = map pi_columnName gs"
  shows "getSelect t k ps fs os l = getSelect t k qs gs os l" "selectParamsGetter ps l = selectParamsGetter qs l"
  using alike_conditions[OF assms(1)] alike_getters[OF assms(1)] alike_empty[OF assms(1)]
    arg_cong[OF assms(2), of "map column_text"] arg_cong[OF assms(2), of length]
  by (simp_all add: getSelect_def selectParamsGetter_def alike_def o_def) (cases fs; cases gs; simp)

lemma alike_insert:
  assumes "list_all2 alike ps qs"
  shows "getInsertQuery t k ps e l = getInsertQuery t k qs e l" "insertParamsGetter ps l = insertParamsGetter qs l"
  using alike_getters[OF assms] alike_map[OF assms, of "\<lambda>p. column_text (pi_columnName p)" "\<lambda>p. column_text (pi_columnName p)"]
    alike_map[OF assms, of "\<lambda>p. ''?''" "\<lambda>p. ''?''"]
  by (simp_all add: getInsertQuery_def insertParamsGetter_def alike_def)

text \<open>The choice of tables looks at the names of the columns only.\<close>

lemma columns_filter: "map pi_columnName ps = map pi_columnName qs \<Longrightarrow> length (filter (\<lambda>p. P (pi_columnName p)) ps) = length (filter (\<lambda>p. P (pi_columnName p)) qs)"
  by (drule arg_cong[of _ _ "\<lambda>cs. length (filter P cs)"]) (simp add: filter_map o_def)

lemma columns_all: "map pi_columnName ps = map pi_columnName qs \<Longrightarrow> list_all (\<lambda>p. P (pi_columnName p)) ps = list_all (\<lambda>p. P (pi_columnName p)) qs"
  by (simp flip: list.pred_map[unfolded o_def])

lemma columns_keys: "map pi_columnName ps = map pi_columnName qs \<Longrightarrow> keysAreIncluded k ps = keysAreIncluded k qs"
  unfolding keysAreIncluded_def using columns_filter[of ps qs "\<lambda>c. c \<in> set k"] by simp

lemma columns_serve:
  assumes "map pi_columnName ps = map pi_columnName qs" "map pi_columnName fs = map pi_columnName gs"
  shows "serves_select pk ps fs os = serves_select pk qs gs os" "serves_insert ps = serves_insert qs"
proof -
  have l: "length ps = length qs" using assms(1) by (metis length_map)
  note k = columns_keys[OF assms(1)]
  show "serves_select pk ps fs os = serves_select pk qs gs os"
    using columns_all[OF assms(1), of "\<lambda>c. c \<in> primary_keys _"] columns_all[OF assms(2), of "has_column _"]
    by (simp add: serves_select_def fun_eq_iff l k)
  show "serves_insert ps = serves_insert qs" by (simp only: serves_insert_def fun_eq_iff l k simp_thms)
qed

section \<open>Keys determine shapes\<close>

definition operator_texts :: "string list" where
  "operator_texts = [''>'', ''>='', ''<'', ''<='', ''!='']"

definition separators :: "string list" where
  "separators = [''|f|'', ''|l|'', ''|o|'', ''|t|'', ''|e|'', ''|dc|'']"

text \<open>Names that are no operator and no separator, and values made by \<open>q\<close>.\<close>

definition name_ok :: "string \<Rightarrow> bool" where
  "name_ok s \<longleftrightarrow> s \<notin> set (operator_texts @ separators @ [''IN'', ''AND'', ''|/|''])"

fun built :: "'v doc_value \<Rightarrow> bool" where
  "built (QueryOperator key v) \<longleftrightarrow> key \<in> set operator_texts"
| "built (QueryOperator_children key a b) \<longleftrightarrow> key = ''AND'' \<and> built a \<and> built b"
| "built v \<longleftrightarrow> True"

definition follows :: "key_part list \<Rightarrow> bool" where
  "follows r \<longleftrightarrow> r = [] \<or> hd r \<notin> K ` set (operator_texts @ [''IN'', ''AND''])"

definition ends :: "key_part list \<Rightarrow> bool" where
  "ends r \<longleftrightarrow> r = [] \<or> hd r \<in> K ` set separators"

lemma ends_follows: "ends r \<Longrightarrow> follows r"
  by (auto simp: ends_def follows_def separators_def operator_texts_def)

lemma no_operators: "yieldOperators v = [] \<longleftrightarrow> shape_of v = Sh_value"
  by (cases v) simp_all

lemma operators_start: "built v \<Longrightarrow> yieldOperators v \<noteq> [] \<Longrightarrow> hd (yieldOperators v) \<in> K ` set (operator_texts @ [''IN'', ''AND''])"
  by (cases v) simp_all

lemma operators_absent:
  assumes "built w" "r = yieldOperators w @ r'" "follows r" shows "shape_of w = Sh_value \<and> r = r'"
proof (cases "yieldOperators w = []")
  case False
  then have "r \<noteq> []" "hd r = hd (yieldOperators w)" by (simp_all add: assms(2))
  then show ?thesis using operators_start[OF assms(1) False] assms(3) by (simp add: follows_def)
qed (use assms(2) no_operators[of w] in simp)

lemma operators_decode:
  "built v \<Longrightarrow> built w \<Longrightarrow> yieldOperators v @ r = yieldOperators w @ r' \<Longrightarrow> follows r \<Longrightarrow> follows r' \<Longrightarrow> shape_of v = shape_of w \<and> r = r'"
proof (induction v arbitrary: w r r' rule: yieldOperators.induct)
  case (1 key v)
  then show ?case by (cases w) (auto simp: follows_def operator_texts_def)
next
  case (2 xs)
  then show ?case by (cases w) (auto simp: follows_def operator_texts_def)
next
  case (3 key a b)
  note p = 3(3-)
  obtain key' a' b' where w: "w = QueryOperator_children key' a' b'"
    using p by (cases w) (auto simp: follows_def operator_texts_def)
  have mid: "follows ([K ''|/|''] @ x)" for x by (simp add: follows_def operator_texts_def image_iff)
  have "yieldOperators a @ [K ''|/|''] @ yieldOperators b @ r = yieldOperators a' @ [K ''|/|''] @ yieldOperators b' @ r'"
    using 3(5) by (simp add: w)
  then have a: "shape_of a = shape_of a'" "[K ''|/|''] @ yieldOperators b @ r = [K ''|/|''] @ yieldOperators b' @ r'"
    using 3(1)[of a' "[K ''|/|''] @ yieldOperators b @ r" "[K ''|/|''] @ yieldOperators b' @ r'"] 3(3,4) mid by (simp_all add: w)
  then show ?case using 3(2)[of b' r r'] 3(3-) by (simp add: w)
qed (metis append_Nil operators_absent shape_of.simps yieldOperators.simps(4-6))+

lemma keys_decode:
  "list_all name_ok ks \<Longrightarrow> list_all name_ok ks' \<Longrightarrow> (\<And>k. built (doc_get d k)) \<Longrightarrow> (\<And>k. built (doc_get d' k)) \<Longrightarrow> ends r \<Longrightarrow> ends r' \<Longrightarrow>
    yieldKeyAndOperators ks d @ r = yieldKeyAndOperators ks' d' @ r' \<Longrightarrow>
    ks = ks' \<and> map (\<lambda>k. shape_of (doc_get d k)) ks = map (\<lambda>k. shape_of (doc_get d' k)) ks' \<and> r = r'"
proof (induction ks arbitrary: ks')
  case Nil
  then show ?case by (cases ks') (auto simp: yieldKeyAndOperators_def ends_def name_ok_def)
next
  case (Cons k ks)
  have rest: "follows (yieldKeyAndOperators xs x @ y)" if "list_all name_ok xs" "ends y" for xs x y
    using that ends_follows[of y] by (cases xs) (auto simp: yieldKeyAndOperators_def follows_def name_ok_def)
  obtain k' ks'' where ks': "ks' = k' # ks''"
    using Cons.prems(1,6,7) by (cases ks') (auto simp: yieldKeyAndOperators_def ends_def name_ok_def)
  have "k = k'" "yieldOperators (doc_get d k) @ yieldKeyAndOperators ks d @ r = yieldOperators (doc_get d' k') @ yieldKeyAndOperators ks'' d' @ r'"
    using Cons.prems(7) by (auto simp: ks' yieldKeyAndOperators_def)
  moreover from this(2) have "shape_of (doc_get d k) = shape_of (doc_get d' k')" "yieldKeyAndOperators ks d @ r = yieldKeyAndOperators ks'' d' @ r'"
    using operators_decode[of "doc_get d k" "doc_get d' k'" "yieldKeyAndOperators ks d @ r" "yieldKeyAndOperators ks'' d' @ r'"]
      rest[of ks r d] rest[of ks'' r' d'] Cons.prems by (simp_all add: ks')
  ultimately show ?case using Cons.IH[of ks''] Cons.prems by (auto simp: ks' list.map)
qed

lemma names_decode:
  "list_all name_ok xs \<Longrightarrow> list_all name_ok ys \<Longrightarrow> ends r \<Longrightarrow> ends r' \<Longrightarrow> map K xs @ r = map K ys @ r' \<Longrightarrow> xs = ys \<and> r = r'"
proof (induction xs arbitrary: ys)
  case Nil
  then show ?case by (cases ys) (auto simp: ends_def name_ok_def)
next
  case (Cons x xs)
  then show ?case by (cases ys) (auto simp: ends_def name_ok_def)
qed

lemma fields_decode:
  assumes "list_all name_ok (di_fields a)" "list_all name_ok (di_fields b)" "ends r" "ends r'"
    "r = [] \<or> hd r \<noteq> K ''|f|''" "r' = [] \<or> hd r' \<noteq> K ''|f|''" "fields_key a @ r = fields_key b @ r'"
  shows "di_fields a = di_fields b \<and> r = r'"
  using assms(7) names_decode[OF assms(1-4)] assms(5,6) by (auto simp: fields_key_def split: if_splits)

section \<open>Memoised generation\<close>

definition cache_ok :: "'e cache_state \<Rightarrow> bool" where
  "cache_ok c \<longleftrightarrow> tree_ok (cs_tree c) \<and> (\<forall>k i. tree_map (cs_tree c) k = Some i \<longrightarrow> i < length (cs_items c))
     \<and> (\<forall>k k' i. tree_map (cs_tree c) k = Some i \<longrightarrow> tree_map (cs_tree c) k' = Some i \<longrightarrow> k = k')"

text \<open>What a cache has for a key.\<close>

definition cached :: "'e cache_state \<Rightarrow> key_part list \<Rightarrow> 'e option" where
  "cached c k = (case tree_map (cs_tree c) k of None \<Rightarrow> None | Some i \<Rightarrow> cs_items c ! i)"

lemma new_cache_ok: "cache_ok new_cache \<and> cached new_cache k = None"
  by (simp add: cache_ok_def new_cache_def new_Tree_ok cached_def)

lemma cached_executor_step:
  assumes "cache_ok c" "key \<noteq> []"
  shows "fst (cached_executor c key create) = (case cached c key of Some e \<Rightarrow> Inr e | None \<Rightarrow> create)
    \<and> cache_ok (snd (cached_executor c key create))
    \<and> cached (snd (cached_executor c key create)) = (cached c)(key := (case cached c key of Some e \<Rightarrow> Some e | None \<Rightarrow> (case create of Inr e \<Rightarrow> Some e | Inl err \<Rightarrow> None)))"
proof -
  let ?t = "cs_tree c" and ?n = "length (cs_items c)"
  have t: "tree_ok ?t" "\<And>k i. tree_map ?t k = Some i \<Longrightarrow> i < ?n" "\<And>k k' i. tree_map ?t k = Some i \<Longrightarrow> tree_map ?t k' = Some i \<Longrightarrow> k = k'"
    using assms(1) unfolding cache_ok_def by blast+
  show ?thesis
  proof (cases "tree_map ?t key")
    case None
    obtain t' where g: "getOrCreate ?t key ?n = (Some ?n, t')" "tree_ok t'" "tree_map t' = (tree_map ?t)(key \<mapsto> ?n)"
      using tree.created[OF t(1) assms(2) None, of ?n] tree.keeps[OF t(1) assms(2), of ?n] by (cases "getOrCreate ?t key ?n") auto
    have "cached c key = None" by (simp add: cached_def None)
    then show ?thesis using g t None
      by (cases create) (auto simp: cached_executor_def Let_def cache_ok_def cached_def fun_eq_iff nth_append less_Suc_eq dest!: t(2) split: option.splits)
  next
    case (Some i)
    obtain t' where g: "getOrCreate ?t key ?n = (Some i, t')" "tree_ok t'" "tree_map t' = tree_map ?t"
      using tree.found[OF t(1) assms(2) Some, of ?n] tree.keeps[OF t(1) assms(2), of ?n] by (cases "getOrCreate ?t key ?n") auto
    have i: "i < ?n" using t(2)[OF Some] .
    have other: "(cs_items c)[i := x] ! j = cs_items c ! j" if "tree_map ?t k = Some j" "k \<noteq> key" for k j x using t(3)[OF Some] that by (metis nth_list_update_neq)
    show ?thesis
    proof (cases "cs_items c ! i")
      case None
      then show ?thesis using g i t Some other
        by (cases create) (auto simp: cached_executor_def Let_def cache_ok_def cached_def fun_eq_iff split: option.splits)
    next
      case (Some e)
      then show ?thesis using g i t \<open>tree_map ?t key = Some i\<close>
        by (auto simp: cached_executor_def Let_def cache_ok_def cached_def fun_eq_iff split: option.splits)
    qed
  qed
qed


text \<open>Requests whose key determines what is generated for them.\<close>

locale memoised =
  fixes admits :: "'r \<Rightarrow> bool" and key :: "'r \<Rightarrow> key_part list" and create :: "'r \<Rightarrow> 'e result"
  assumes key_not_empty: "admits r \<Longrightarrow> key r \<noteq> []"
    and determined: "admits r \<Longrightarrow> admits s \<Longrightarrow> key r = key s \<Longrightarrow> create r = create s"
begin

text \<open>A cache of nothing but what is generated answers what is generated, and stays such a cache.\<close>

lemma answers_step:
  assumes "admits q" "cache_ok c" "\<And>r e. admits r \<Longrightarrow> cached c (key r) = Some e \<Longrightarrow> create r = Inr e"
  shows "fst (cached_executor c (key q) (create q)) = create q"
    and "cache_ok (snd (cached_executor c (key q) (create q)))"
    and "admits s \<Longrightarrow> cached (snd (cached_executor c (key q) (create q))) (key s) = Some e \<Longrightarrow> create s = Inr e"
proof -
  note step = cached_executor_step[OF assms(2) key_not_empty[OF assms(1)], of "create q"]
  show "fst (cached_executor c (key q) (create q)) = create q" "cache_ok (snd (cached_executor c (key q) (create q)))"
    using step assms(3)[OF assms(1)] by (auto split: option.splits)
  assume s: "admits s" "cached (snd (cached_executor c (key q) (create q))) (key s) = Some e"
  show "create s = Inr e"
  proof (cases "key s = key q")
    case True
    then show ?thesis using s step assms(3)[OF assms(1)] determined[OF s(1) assms(1) True] by (auto split: option.splits sum.splits)
  qed (use s step assms(3) in simp)
qed

text \<open>Asking a new cache for any requests one after the other, failures included, gives each what is generated
  for it.\<close>

lemma answers:
  assumes "list_all admits rs" "cache_ok c" "\<And>r e. admits r \<Longrightarrow> cached c (key r) = Some e \<Longrightarrow> create r = Inr e" "admits r"
  shows "fst (cached_executor (foldl (\<lambda>c r. snd (cached_executor c (key r) (create r))) c rs) (key r) (create r)) = create r"
  using assms(1-3)
proof (induction rs arbitrary: c)
  case Nil
  show ?case unfolding foldl.simps by (rule answers_step(1)[OF assms(4) Nil.prems(2,3)])
next
  case (Cons q rs)
  have q: "admits q" using Cons.prems(1) by simp
  note step = answers_step[OF q Cons.prems(2,3)]
  have "list_all admits rs" using Cons.prems(1) by simp
  then show ?case unfolding foldl.simps by (rule Cons.IH[OF _ step(2,3)])
qed

lemmas answers_new = answers[OF _ conjunct1[OF new_cache_ok], unfolded conjunct2[OF new_cache_ok], simplified]

end

section \<open>SELECT and INSERT\<close>

definition select_ok :: "'v doc \<times> 'v doc_info \<Rightarrow> bool" where
  "select_ok r \<longleftrightarrow> fst r \<noteq> [] \<and> list_all name_ok (map fst (fst r)) \<and> list_all (\<lambda>p. built (snd p)) (fst r)
     \<and> list_all name_ok (di_fields (snd r))
     \<and> (case di_orderBy (snd r) of None \<Rightarrow> True | Some os \<Rightarrow> list_all (\<lambda>o'. snd o' \<noteq> None) os)"

definition insert_ok :: "'v doc \<times> 'v doc_info \<Rightarrow> bool" where
  "insert_ok r \<longleftrightarrow> fst r \<noteq> [] \<and> list_all name_ok (map fst (fst r)) \<and> list_all (\<lambda>p. shape_of (snd p) = Sh_value) (fst r)
     \<and> list_all name_ok (di_fields (snd r)) \<and> di_ifNotExists (snd r) \<noteq> Truthy"

lemma doc_get_all: "list_all (\<lambda>p. P (snd p)) d \<Longrightarrow> P Undefined \<Longrightarrow> P (doc_get d k)"
  by (auto simp: doc_get_def list_all_iff split: option.splits dest!: map_of_SomeD)

lemma orders_decode:
  "list_all (\<lambda>o'. snd o' \<noteq> None) os \<Longrightarrow> list_all (\<lambda>o'. snd o' \<noteq> None) os' \<Longrightarrow>
    concat (map (\<lambda>(key, v). [K key, K (case v of Some s \<Rightarrow> s | None \<Rightarrow> [])]) os) = concat (map (\<lambda>(key, v). [K key, K (case v of Some s \<Rightarrow> s | None \<Rightarrow> [])]) os')
    \<Longrightarrow> os = os'"
proof (induction os arbitrary: os')
  case Nil
  then show ?case by (cases os') auto
next
  case (Cons a os)
  then show ?case by (cases os'; cases a) auto
qed

lemma doc_info_decode:
  assumes "select_ok (d, a)" "select_ok (d', b)" "getSelectDocInfo a = getSelectDocInfo b"
  shows "di_fields a = di_fields b \<and> (di_limit a \<noteq> None) = (di_limit b \<noteq> None) \<and> di_orderBy a = di_orderBy b"
proof -
  let ?r = "\<lambda>di. (if di_limit di \<noteq> None then [K ''|l|''] else [])
     @ (case di_orderBy di of None \<Rightarrow> [] | Some os \<Rightarrow> K ''|o|'' # concat (map (\<lambda>(key, v). [K key, K (case v of Some s \<Rightarrow> s | None \<Rightarrow> [])]) os))"
  have e: "ends (?r x) \<and> (?r x = [] \<or> hd (?r x) \<noteq> K ''|f|'')" for x :: "'v doc_info"
    by (auto simp: ends_def separators_def split: option.splits)
  have "di_fields a = di_fields b \<and> ?r a = ?r b"
    using assms e[of a] e[of b] by (intro fields_decode) (simp_all add: getSelectDocInfo_def select_ok_def)
  moreover have "di_orderBy a = di_orderBy b" if "?r a = ?r b"
    using that assms(1,2) orders_decode by (auto simp: select_ok_def split: if_splits option.splits)
  moreover have "(di_limit a \<noteq> None) = (di_limit b \<noteq> None)" if "?r a = ?r b"
    using that by (auto split: if_splits option.splits)
  ultimately show ?thesis by blast
qed

lemma select_key_ends: "ends (getSelectDocInfo di)"
  by (auto simp: getSelectDocInfo_def fields_key_def ends_def separators_def split: option.splits)

lemma alike_properties:
  "map (\<lambda>k. shape_of (doc_get d k)) ks = map (\<lambda>k. shape_of (doc_get d' k)) ks \<Longrightarrow> list_all2 alike (getPropertiesInfo ks [] d info) (getPropertiesInfo ks [] d' info)"
  by (simp add: getPropertiesInfo_def list_all2_conv_all_nth alike_def)

interpretation select: memoised select_ok "\<lambda>r. getSelectKey (map fst (fst r)) (fst r) (snd r)" "\<lambda>r. create_select metadata info (fst r) (snd r) allPKsDefined"
  for metadata and info :: "'v ModelMappingInfo" and allPKsDefined
proof
  fix r :: "'v doc \<times> 'v doc_info"
  assume "select_ok r"
  then show "getSelectKey (map fst (fst r)) (fst r) (snd r) \<noteq> []"
    by (cases "fst r") (auto simp: select_ok_def getSelectKey_def yieldKeyAndOperators_def)
next
  fix r s :: "'v doc \<times> 'v doc_info"
  obtain d a d' b where rs: "r = (d, a)" "s = (d', b)" by (cases r; cases s)
  assume ok: "select_ok r" "select_ok s" and k: "getSelectKey (map fst (fst r)) (fst r) (snd r) = getSelectKey (map fst (fst s)) (fst s) (snd s)"
  have "list_all name_ok (map fst d)" "list_all name_ok (map fst d')" using ok by (simp_all add: select_ok_def rs)
  moreover have "built (doc_get d k)" "built (doc_get d' k)" for k using ok by (auto simp: select_ok_def rs intro: doc_get_all[of built])
  ultimately have "map fst d = map fst d' \<and> map (\<lambda>k. shape_of (doc_get d k)) (map fst d) = map (\<lambda>k. shape_of (doc_get d' k)) (map fst d')
      \<and> getSelectDocInfo a = getSelectDocInfo b"
    by (rule keys_decode) (use k in \<open>simp_all add: rs getSelectKey_def select_key_ends\<close>)
  then have dec: "map fst d = map fst d'" "map (\<lambda>k. shape_of (doc_get d k)) (map fst d) = map (\<lambda>k. shape_of (doc_get d' k)) (map fst d')"
      "getSelectDocInfo a = getSelectDocInfo b" by blast+
  note di = doc_info_decode[OF ok[unfolded rs] dec(3)]
  have al: "list_all2 alike (getPropertiesInfo (map fst d) [] d info) (getPropertiesInfo (map fst d') [] d' info)"
    using dec(2) unfolding dec(1) by (rule alike_properties)
  have cols: "map pi_columnName (getPropertiesInfo [] fs d info) = map pi_columnName (getPropertiesInfo [] fs d' info)" for fs
    by (simp add: getPropertiesInfo_def)
  show "create_select metadata info (fst r) (snd r) allPKsDefined = create_select metadata info (fst s) (snd s) allPKsDefined"
    using di by (simp add: create_select_def rs adaptOrderBy_def getForSelect_def Let_def alike_select[OF al cols] columns_serve(1)[OF alike_columns[OF al] cols])
qed

lemma alike_plain:
  assumes "\<And>k. shape_of (doc_get d k) = Sh_value" "\<And>k. shape_of (doc_get d' k) = Sh_value"
  shows "list_all2 alike (getPropertiesInfo ks fs d info) (getPropertiesInfo ks fs d' info)"
  using assms by (simp add: getPropertiesInfo_def list_all2_conv_all_nth alike_def)

lemma alike_getInsert:
  assumes "list_all2 alike ps qs" "(di_ttl a \<noteq> None) = (di_ttl b \<noteq> None)"
  shows "getInsert t k ps a e = getInsert t k qs b e"
proof -
  have "list_all2 alike (filter (\<lambda>p. has_column t (pi_columnName p)) ps) (filter (\<lambda>p. has_column t (pi_columnName p)) qs)"
    using assms(1) by (rule alike_filter) (simp add: alike_def)
  then show ?thesis using assms(2) by (simp add: getInsert_def Let_def alike_insert)
qed

interpretation insert: memoised insert_ok "\<lambda>r. getInsertKey (map fst (fst r)) (snd r)"
    "\<lambda>r. rbind (createInsertQueries metadata info (fst r) (snd r)) (\<lambda>qs. Inr (set_executor qs))"
  for metadata and info :: "'v ModelMappingInfo"
proof
  fix r :: "'v doc \<times> 'v doc_info"
  assume "insert_ok r"
  then show "getInsertKey (map fst (fst r)) (snd r) \<noteq> []" by (simp add: insert_ok_def getInsertKey_def)
next
  fix r s :: "'v doc \<times> 'v doc_info"
  obtain d a d' b where rs: "r = (d, a)" "s = (d', b)" by (cases r; cases s)
  assume ok: "insert_ok r" "insert_ok s" and k: "getInsertKey (map fst (fst r)) (snd r) = getInsertKey (map fst (fst s)) (snd s)"
  let ?e = "\<lambda>x :: 'v doc_info. (if di_ttl x \<noteq> None then [K ''|t|''] else []) @ (if di_ifNotExists x \<noteq> Falsy then [K ''|e|''] else [])"
  have e: "ends (?e x) \<and> (?e x = [] \<or> hd (?e x) \<noteq> K ''|f|'')" "ends (fields_key x @ ?e x)" for x
    by (auto simp: ends_def separators_def fields_key_def)
  have "map fst d = map fst d' \<and> fields_key a @ ?e a = fields_key b @ ?e b"
    by (rule names_decode) (use ok k e(2) in \<open>simp_all add: insert_ok_def rs getInsertKey_def\<close>)
  then have keys: "map fst d = map fst d'" and "fields_key a @ ?e a = fields_key b @ ?e b" by blast+
  then have di: "di_fields a = di_fields b \<and> ?e a = ?e b"
    using ok e(1)[of a] e(1)[of b] by (intro fields_decode) (simp_all add: insert_ok_def rs)
  have ttl: "(di_ttl a \<noteq> None) = (di_ttl b \<noteq> None)" using di by (auto split: if_splits)
  have nx: "di_ifNotExists a = di_ifNotExists b"
    using di ok by (cases "di_ifNotExists a"; cases "di_ifNotExists b") (auto simp: insert_ok_def rs split: if_splits)
  have "shape_of (doc_get d k) = Sh_value" "shape_of (doc_get d' k) = Sh_value" for k
    using ok by (auto simp: insert_ok_def rs intro: doc_get_all[of "\<lambda>v. shape_of v = Sh_value"])
  then have al: "list_all2 alike (getPropertiesInfo (map fst d) (di_fields a) d info) (getPropertiesInfo (map fst d') (di_fields b) d' info)"
    using alike_plain[of d d'] by (simp add: keys conjunct1[OF di])
  have sv: "serves_insert (getPropertiesInfo (map fst d) (di_fields a) d info) = serves_insert (getPropertiesInfo (map fst d') (di_fields b) d' info)"
    using alike_columns[OF al] by (rule columns_serve(2)) simp
  show "rbind (createInsertQueries metadata info (fst r) (snd r)) (\<lambda>qs. Inr (set_executor qs)) = rbind (createInsertQueries metadata info (fst s) (snd s)) (\<lambda>qs. Inr (set_executor qs))"
    by (simp only: createInsertQueries_def rs fst_conv snd_conv Let_def getForInsert_def sv nx alike_getInsert[OF al ttl])
qed

lemma select_calls:
  assumes "list_all select_ok rs"
  shows "h_select (foldl (\<lambda>h r. snd (getSelectExecutor metadata info h (fst r) (snd r) pk)) h rs)
    = foldl (\<lambda>c r. snd (cached_executor c (getSelectKey (map fst (fst r)) (fst r) (snd r)) (create_select metadata info (fst r) (snd r) pk))) (h_select h) rs"
  using assms by (induction rs arbitrary: h) (simp_all add: getSelectExecutor_def select_ok_def split_def)

lemma insert_calls:
  assumes "list_all insert_ok rs"
  shows "h_insert (foldl (\<lambda>h r. snd (getInsertExecutor metadata info h (fst r) (snd r))) h rs)
    = foldl (\<lambda>c r. snd (cached_executor c (getInsertKey (map fst (fst r)) (snd r))
        (rbind (createInsertQueries metadata info (fst r) (snd r)) (\<lambda>qs. Inr (set_executor qs))))) (h_insert h) rs"
  using assms by (induction rs arbitrary: h) (simp_all add: getInsertExecutor_def insert_ok_def split_def)

text \<open>C13: The caches of SELECT and INSERT are invisible: after any requests, what the handler answers is what it
  would generate for the request at hand, errors included, when the names of properties are no operator or
  separator of the keys.\<close>

theorem mapper_cache_invisible:
  assumes "list_all select_ok ss" "select_ok s" "list_all insert_ok is" "insert_ok i"
  shows "fst (getSelectExecutor metadata info (foldl (\<lambda>h r. snd (getSelectExecutor metadata info h (fst r) (snd r) pk)) new_MappingHandler ss) (fst s) (snd s) pk)
      = create_select metadata info (fst s) (snd s) pk
    \<and> fst (getInsertExecutor metadata info (foldl (\<lambda>h r. snd (getInsertExecutor metadata info h (fst r) (snd r))) new_MappingHandler is) (fst i) (snd i))
      = rbind (createInsertQueries metadata info (fst i) (snd i)) (\<lambda>qs. Inr (set_executor qs))"
  using select.answers_new[OF assms(1,2)] insert.answers_new[OF assms(3,4)] select_calls[OF assms(1)] insert_calls[OF assms(3)] assms(2,4)
  by (simp add: getSelectExecutor_def getInsertExecutor_def new_MappingHandler_def split_def select_ok_def insert_ok_def)

theorem mapper_cache_invisible_witness:
  "fst (getSelectExecutor sample_metadata sample_info (snd (getSelectExecutor sample_metadata sample_info new_MappingHandler [(''id'', Plain 1)] no_doc_info True)) [(''id'', Plain 7)] no_doc_info True)
    = create_select sample_metadata sample_info [(''id'', Plain 7)] no_doc_info True"
proof -
  have "list_all select_ok [([(''id'', Plain (1 :: int))], no_doc_info)]" "select_ok ([(''id'', Plain (7 :: int))], no_doc_info)"
    "insert_ok ([(''id'', Plain (7 :: int))], no_doc_info)" by code_simp+
  from mapper_cache_invisible[OF this(1,2) _ this(3), of "[]" sample_metadata sample_info True] show ?thesis by simp
qed

section \<open>UPDATE and the check of keys\<close>


end
