(* ===== verification/Mapper_Names.thy ===== *)
theory Mapper_Names
  imports Mapper_Query
begin

text \<open>
  The naming convention \<open>UnderscoreCqlToCamelCaseMappings\<close> takes a camel case property name to a column name and
  back.
\<close>

text \<open>No underscore, and a capital only right after a small letter.\<close>

fun camel_ok :: "string \<Rightarrow> bool" where
  "camel_ok (a # b # s) \<longleftrightarrow> a \<noteq> CHR ''_'' \<and> (is_upper b \<longrightarrow> is_lower a) \<and> camel_ok (b # s)"
| "camel_ok s \<longleftrightarrow> CHR ''_'' \<notin> set s"

lemma lower_upper: "is_upper c \<Longrightarrow> is_lower (to_lower c) \<and> to_upper (to_lower c) = c"
  by (auto simp: is_upper_def is_lower_def to_lower_def to_upper_def)

lemma lower_not_upper: "\<not> is_upper c \<Longrightarrow> to_lower c = c" "is_lower c \<Longrightarrow> \<not> is_upper c" "is_lower c \<Longrightarrow> c \<noteq> CHR ''_''"
  by (auto simp: is_upper_def is_lower_def to_lower_def)

lemma camel_skip: "a \<noteq> CHR ''_'' \<Longrightarrow> camel_case f (a # s) = a # camel_case False s"
  by (cases s) simp_all

lemma camel_round:
  "camel_ok s \<Longrightarrow> s = [] \<or> \<not> is_upper (hd s) \<Longrightarrow> camel_case f (toLowerCase (underscore_humps s)) = s"
proof (induction s arbitrary: f rule: underscore_humps.induct)
  case (1 a b s)
  show ?case
  proof (cases "is_lower a \<and> is_upper b")
    case True
    have "camel_ok s" "s = [] \<or> \<not> is_upper (hd s)"
      using "1.prems"(1) True lower_not_upper(2)[of b] by (cases s; auto; cases "tl s"; auto)+
    from "1.IH"(1)[OF True this] show ?thesis
      using True lower_upper[of b] lower_not_upper[of a] camel_skip[of a f] by (simp add: toLowerCase_def to_lower_def[of "CHR ''_''"])
  next
    case False
    then have "\<not> is_upper b" "\<not> is_upper a" "a \<noteq> CHR ''_''" "camel_ok (b # s)" using "1.prems" by auto
    from "1.IH"(2)[OF False this(4)] this show ?thesis
      using False by (simp add: toLowerCase_def lower_not_upper camel_skip)
  qed
qed (simp_all add: toLowerCase_def lower_not_upper)

text \<open>A property name in camel case is the name of its own column.\<close>

lemma underscore_names_round_trip:
  "camel_ok p \<Longrightarrow> p \<noteq> [] \<Longrightarrow> is_lower (hd p) \<Longrightarrow>
    mappings_getPropertyName UnderscoreCqlToCamelCaseMappings (mappings_getColumnName UnderscoreCqlToCamelCaseMappings p) = p"
  using camel_round[of p True] lower_not_upper(2)[of "hd p"] by (simp add: mappings_getPropertyName_def mappings_getColumnName_def)

text \<open>Two capitals in a row are not restored.\<close>

lemma underscore_names_capitals:
  "mappings_getPropertyName UnderscoreCqlToCamelCaseMappings (mappings_getColumnName UnderscoreCqlToCamelCaseMappings ''userID'') = ''userId''"
  by code_simp

end
