(* ===== verification/Load_Balancing.thy ===== *)
theory Load_Balancing
  imports Utils_Correct
begin

text \<open>
  Load balancing (\<open>lib/policies/load-balancing.js\<close>): \<open>LegacyDefaultLoadBalancingPolicy\<close>, the policy implemented in this
  language, with the query plans it makes. What it asks of a host is a parameter: the class \<open>Host\<close> of
  \<open>lib/host.ts\<close> answers none of it yet.
\<close>

section \<open>Hosts and policies\<close>

text \<open>Hosts are compared by identity; what is known of one at the time of a plan is its information.\<close>

record host_info =
  hi_datacenter :: string
  hi_isUp :: bool
  hi_isUpSince :: "int option"
  hi_inFlight :: int
  hi_responseCount :: int

text \<open>The checks that may be injected.\<close>

record 'h checks =
  ck_filter :: "'h \<Rightarrow> bool"
  ck_isHostNewlyUp :: "'h \<Rightarrow> int option"
  ck_healthCheck :: "'h \<Rightarrow> bool"
  ck_compare :: "'h \<Rightarrow> 'h \<Rightarrow> int"

definition newlyUpInterval :: int where
  "newlyUpInterval = 60000"

definition isHostNewlyUp :: "int \<Rightarrow> host_info \<Rightarrow> int option" where
  "isHostNewlyUp now h = (case hi_isUpSince h of None \<Rightarrow> None | Some t \<Rightarrow> if now - t < newlyUpInterval then Some t else None)"

definition healthCheck :: "host_info \<Rightarrow> bool" where
  "healthCheck h \<longleftrightarrow> \<not> (hi_inFlight h \<ge> 10 \<and> hi_responseCount h \<le> 1)"

definition compare_hosts :: "host_info \<Rightarrow> host_info \<Rightarrow> int" where
  "compare_hosts h1 h2 = (if hi_inFlight h1 < hi_inFlight h2 then 1 else - 1)"

definition default_checks :: "('h \<Rightarrow> host_info) \<Rightarrow> int \<Rightarrow> 'h checks" where
  "default_checks env now = \<lparr>ck_filter = \<lambda>h. True, ck_isHostNewlyUp = \<lambda>h. isHostNewlyUp now (env h),
     ck_healthCheck = \<lambda>h. healthCheck (env h), ck_compare = \<lambda>a b. compare_hosts (env a) (env b)\<rparr>"

record 'h policy =
  lb_hosts :: "'h list"
  lb_filteredHosts :: "'h list option"
  lb_preferredHost :: "'h option"
  lb_index :: int
  lb_localDc :: "string option"

text \<open>The options of the constructor. A check among them is assigned to a private method, which the language refuses.\<close>

record 'h legacy_options =
  lo_localDc :: "string option"
  lo_filter :: "('h \<Rightarrow> bool) option"
  lo_injects_check :: bool

definition new_LegacyPolicy :: "('h \<Rightarrow> host_info) \<Rightarrow> int \<Rightarrow> 'h legacy_options option \<Rightarrow> ('h checks \<times> 'h policy) result" where
  "new_LegacyPolicy env now opts =
     (let opts = (case opts of Some o' \<Rightarrow> o' | None \<Rightarrow> \<lparr>lo_localDc = None, lo_filter = None, lo_injects_check = False\<rparr>);
          ck = (case lo_filter opts of Some f \<Rightarrow> (default_checks env now)\<lparr>ck_filter := f\<rparr> | None \<Rightarrow> default_checks env now)
      in if lo_injects_check opts then throw (TypeError ''Private method is not writable'')
         else return (ck, \<lparr>lb_hosts = [], lb_filteredHosts = None, lb_preferredHost = None, lb_index = 0, lb_localDc = lo_localDc opts\<rparr>))"

text \<open>The data centers in the order of the hosts.\<close>

definition getDataCenters :: "('h \<Rightarrow> host_info) \<Rightarrow> 'h list \<Rightarrow> string list" where
  "getDataCenters env hosts = rev (remdups (rev (map (\<lambda>h. hi_datacenter (env h)) hosts)))"

fun commas :: "string list \<Rightarrow> string" where
  "commas [] = []"
| "commas [x] = x"
| "commas (x # y # xs) = x @ '','' @ commas (y # xs)"

text \<open>\<open>setLocalDc\<close> sets the data center before it checks it; an empty name counts as missing.\<close>

definition given :: "string option \<Rightarrow> bool" where
  "given s \<longleftrightarrow> s \<noteq> None \<and> s \<noteq> Some []"

definition setLocalDc :: "('h \<Rightarrow> host_info) \<Rightarrow> 'h policy \<Rightarrow> string option \<Rightarrow> 'h list \<Rightarrow> js_error option \<times> 'h policy" where
  "setLocalDc env p clientDc hosts =
     (let p = p\<lparr>lb_localDc := (if given (lb_localDc p) then lb_localDc p else clientDc)\<rparr>;
          dcs = getDataCenters env hosts
      in if \<not> given (lb_localDc p) then
           (Some (ArgumentError ([CHR 0x27] @ ''localDataCenter'' @ [CHR 0x27] @ '' is not defined in Client options and also was not specified in constructor.''
              @ '' At least one is required. Available DCs are: ['' @ commas dcs @ '']'')), p)
         else if the (lb_localDc p) \<notin> set dcs then
           (Some (ArgumentError (''Datacenter '' @ the (lb_localDc p) @ '' was not found. Available DCs are: ['' @ commas dcs @ '']'')), p)
         else (None, p))"

definition LegacyPolicy_init :: "('h \<Rightarrow> host_info) \<Rightarrow> 'h policy \<Rightarrow> string option \<Rightarrow> 'h list \<Rightarrow> js_error option \<times> 'h policy" where
  "LegacyPolicy_init env p clientDc hosts = setLocalDc env (p\<lparr>lb_hosts := hosts\<rparr>) clientDc hosts"

text \<open>The listener of \<open>add\<close> and \<open>remove\<close>, after which the map holds the hosts given.\<close>

definition hosts_changed :: "'h policy \<Rightarrow> 'h list \<Rightarrow> 'h policy" where
  "hosts_changed p hosts = p\<lparr>lb_hosts := hosts, lb_filteredHosts := None\<rparr>"

datatype distance = Local | Ignored

definition in_local_dc :: "('h \<Rightarrow> host_info) \<Rightarrow> 'h policy \<Rightarrow> 'h \<Rightarrow> bool" where
  "in_local_dc env p h \<longleftrightarrow> Some (hi_datacenter (env h)) = lb_localDc p"

definition getDistance :: "('h \<Rightarrow> host_info) \<Rightarrow> 'h checks \<Rightarrow> 'h policy \<Rightarrow> 'h \<Rightarrow> distance" where
  "getDistance env ck p h =
     (if lb_preferredHost p = Some h then Local
      else if \<not> ck_filter ck h then Ignored
      else if in_local_dc env p h then Local else Ignored)"

section \<open>Query plans\<close>

text \<open>A plan is consumed before the next one is made.\<close>

definition getFilteredLocalHosts :: "('h \<Rightarrow> host_info) \<Rightarrow> 'h checks \<Rightarrow> 'h policy \<Rightarrow> 'h list \<times> 'h policy" where
  "getFilteredLocalHosts env ck p =
     (case lb_filteredHosts p of
        Some hs \<Rightarrow> (hs, p)
      | None \<Rightarrow> let hs = filter (\<lambda>h. ck_filter ck h \<and> in_local_dc env p h) (lb_hosts p) in (hs, p\<lparr>lb_filteredHosts := Some hs\<rparr>))"

definition getIndex :: "'h policy \<Rightarrow> int \<times> 'h policy" where
  "getIndex p = (lb_index p, p\<lparr>lb_index := (if lb_index p + 1 = 0x7fffffff then 0 else lb_index p + 1)\<rparr>)"

definition getLocalHosts :: "('h \<Rightarrow> host_info) \<Rightarrow> 'h checks \<Rightarrow> 'h policy \<Rightarrow> 'h list option \<Rightarrow> 'h list \<times> 'h policy" where
  "getLocalHosts env ck p localReplicas =
     (case getFilteredLocalHosts env ck p of
        (hosts, p) \<Rightarrow>
          (case getIndex p of
             (initialIndex, p) \<Rightarrow>
               (let canBeYield = (\<lambda>h. case localReplicas of Some rs \<Rightarrow> h \<notin> set rs | None \<Rightarrow> True)
                in (filter (\<lambda>h. canBeYield h \<and> hi_isUp (env h))
                      (map (\<lambda>i. hosts ! nat ((int i + initialIndex) mod int (length hosts))) [0..<length hosts]), p))))"

definition yieldReplicasFirst :: "('h \<Rightarrow> host_info) \<Rightarrow> 'h checks \<Rightarrow> 'h policy \<Rightarrow> 'h list \<Rightarrow> 'h list \<times> 'h policy" where
  "yieldReplicasFirst env ck p replicas = (case getLocalHosts env ck p (Some replicas) of (hs, p) \<Rightarrow> (replicas @ hs, p))"

text \<open>The loop over the replicas: the usable ones, the one that came up last, since when, and how many are
  unhealthy.\<close>

fun scan_replicas :: "('h \<Rightarrow> host_info) \<Rightarrow> 'h checks \<Rightarrow> 'h policy \<Rightarrow> 'h list \<Rightarrow> 'h list \<times> 'h option \<times> int \<times> nat \<Rightarrow> 'h list \<times> 'h option \<times> int \<times> nat" where
  "scan_replicas env ck p [] acc = acc"
| "scan_replicas env ck p (h # hs) (filtered, newlyUp, timestamp, unhealthy) =
     (if \<not> ck_filter ck h \<or> \<not> in_local_dc env p h \<or> \<not> hi_isUp (env h) then scan_replicas env ck p hs (filtered, newlyUp, timestamp, unhealthy)
      else
        let (newlyUp, timestamp) = (case ck_isHostNewlyUp ck h of Some t \<Rightarrow> if t > timestamp then (Some h, t) else (newlyUp, timestamp) | None \<Rightarrow> (newlyUp, timestamp));
            unhealthy = (if newlyUp = None \<and> \<not> ck_healthCheck ck h then Suc unhealthy else unhealthy)
        in scan_replicas env ck p hs (filtered @ [h], newlyUp, timestamp, unhealthy))"

definition swap :: "nat \<Rightarrow> nat \<Rightarrow> 'a list \<Rightarrow> 'a list" where
  "swap i j xs = xs[i := xs ! j, j := xs ! i]"

text \<open>The loop of \<open>#sendUnhealthyToTheBack\<close> at the index \<open>i\<close> less one.\<close>

fun send_back :: "('h \<Rightarrow> bool) \<Rightarrow> nat \<Rightarrow> nat \<Rightarrow> nat \<Rightarrow> 'h list \<Rightarrow> 'h list" where
  "send_back healthy unhealthy 0 counter replicas = replicas"
| "send_back healthy unhealthy (Suc i) counter replicas =
     (if counter < unhealthy then
        if healthy (replicas ! i) then send_back healthy unhealthy i counter replicas
        else send_back healthy unhealthy i (Suc counter)
               (let target = length replicas - 1 - counter in if target \<noteq> i then swap target i replicas else replicas)
      else replicas)"

definition sendUnhealthyToTheBack :: "'h checks \<Rightarrow> 'h list \<Rightarrow> nat \<Rightarrow> 'h list" where
  "sendUnhealthyToTheBack ck replicas unhealthy = send_back (ck_healthCheck ck) unhealthy (length replicas) 0 replicas"

text \<open>\<open>rnd\<close> are the numbers of the shuffle, \<open>dice\<close> is \<open>Math.random() * 4 >= 1\<close>.\<close>

definition order_replicas :: "'h checks \<Rightarrow> (nat \<Rightarrow> nat) \<Rightarrow> bool \<Rightarrow> 'h option \<Rightarrow> nat \<Rightarrow> 'h list \<Rightarrow> 'h list" where
  "order_replicas ck rnd dice newlyUp unhealthy replicas =
     (let replicas = shuffleArray rnd replicas
      in if length replicas < 3 then replicas
         else
           let replicas =
                 (case newlyUp of
                    None \<Rightarrow> if unhealthy > 0 \<and> unhealthy < length replicas div 2 + 1 then sendUnhealthyToTheBack ck replicas unhealthy else replicas
                  | Some h \<Rightarrow>
                      if (h = replicas ! 0 \<or> h = replicas ! 1) \<and> dice
                      then swap (length replicas - 1) (if h = replicas ! 0 then 0 else 1) replicas else replicas)
           in if ck_compare ck (replicas ! 1) (replicas ! 0) > 0 then swap 0 1 replicas else replicas)"

definition getReplicasAndLocalHosts :: "('h \<Rightarrow> host_info) \<Rightarrow> 'h checks \<Rightarrow> (nat \<Rightarrow> nat) \<Rightarrow> bool \<Rightarrow> 'h policy \<Rightarrow> 'h list option \<Rightarrow> 'h list \<times> 'h policy" where
  "getReplicasAndLocalHosts env ck rnd dice p replicas =
     (case replicas of
        None \<Rightarrow> getLocalHosts env ck p None
      | Some rs \<Rightarrow>
          (case scan_replicas env ck p rs ([], None, - 9007199254740991, 0) of
             (filtered, newlyUp, timestamp, unhealthy) \<Rightarrow>
               yieldReplicasFirst env ck p (order_replicas ck rnd dice newlyUp unhealthy filtered)))"

record 'h plan_options =
  po_routingKey :: bool
  po_keyspace :: bool
  po_preferredHost :: "'h option"

text \<open>\<open>newQueryPlan\<close>: whether there is a keyspace and a routing key, the preferred host, and what the client
  answers for the replicas.\<close>

definition newQueryPlan :: "('h \<Rightarrow> host_info) \<Rightarrow> 'h checks \<Rightarrow> (nat \<Rightarrow> nat) \<Rightarrow> bool \<Rightarrow> 'h policy \<Rightarrow> bool \<Rightarrow> 'h plan_options option \<Rightarrow> 'h list option \<Rightarrow> 'h list \<times> 'h policy" where
  "newQueryPlan env ck rnd dice p keyspace opts replicas =
     (let routingKey = (case opts of None \<Rightarrow> False | Some o' \<Rightarrow> po_routingKey o');
          keyspace = (case opts of None \<Rightarrow> keyspace | Some o' \<Rightarrow> keyspace \<or> po_keyspace o');
          preferredHost = (case opts of None \<Rightarrow> None | Some o' \<Rightarrow> po_preferredHost o');
          (plan, p) = (if \<not> keyspace \<or> \<not> routingKey then getLocalHosts env ck p None
                       else getReplicasAndLocalHosts env ck rnd dice p replicas)
      in case preferredHost of
           None \<Rightarrow> (plan, p)
         | Some h \<Rightarrow> (h # filter (\<lambda>x. x \<noteq> h) plan, p\<lparr>lb_preferredHost := Some h\<rparr>))"


section \<open>Plans are complete and without repetition\<close>

definition usable :: "('h \<Rightarrow> host_info) \<Rightarrow> 'h checks \<Rightarrow> 'h policy \<Rightarrow> 'h \<Rightarrow> bool" where
  "usable env ck p h \<longleftrightarrow> ck_filter ck h \<and> in_local_dc env p h \<and> hi_isUp (env h)"

text \<open>The invariant: no host twice, the cached list is that of the hosts, and the index is in range.\<close>

definition policy_ok :: "('h \<Rightarrow> host_info) \<Rightarrow> 'h checks \<Rightarrow> 'h policy \<Rightarrow> bool" where
  "policy_ok env ck p \<longleftrightarrow> distinct (lb_hosts p) \<and> 0 \<le> lb_index p \<and> lb_index p < 0x7fffffff
     \<and> (\<forall>hs. lb_filteredHosts p = Some hs \<longrightarrow> hs = filter (\<lambda>h. ck_filter ck h \<and> in_local_dc env p h) (lb_hosts p))"

lemma policy_ok_start:
  assumes "new_LegacyPolicy env now opts = return (ck, p)" "distinct hosts"
  shows "policy_ok env ck (snd (LegacyPolicy_init env p clientDc hosts))"
proof -
  have "lb_filteredHosts p = None \<and> lb_index p = 0"
    using assms(1) by (cases opts) (auto simp: new_LegacyPolicy_def Let_def split: if_splits)
  then show ?thesis using assms(2) by (simp add: LegacyPolicy_init_def setLocalDc_def Let_def policy_ok_def)
qed

lemma policy_ok_hosts_changed: "policy_ok env ck p \<Longrightarrow> distinct hosts \<Longrightarrow> policy_ok env ck (hosts_changed p hosts)"
  by (simp add: policy_ok_def hosts_changed_def)

text \<open>A check among the options makes the constructor fail, although it is meant to allow it.\<close>

lemma injected_check_refused: "lo_injects_check o' \<Longrightarrow> is_TypeError (new_LegacyPolicy env now (Some o'))"
  by (simp add: new_LegacyPolicy_def Let_def)

lemma swap_perm: "i < length xs \<Longrightarrow> j < length xs \<Longrightarrow> mset (swap i j xs) = mset xs"
  using mset_swap[of j xs i] by (cases "i = j") (simp_all add: swap_def list_update_swap)

lemma length_swap [simp]: "length (swap i j xs) = length xs"
  by (simp add: swap_def)

lemma send_back_perm: "i \<le> length xs \<Longrightarrow> mset (send_back healthy n i counter xs) = mset xs"
  by (induction healthy n i counter xs rule: send_back.induct) (auto simp: Let_def swap_perm)

lemma shuffleArray_perm:
  assumes "\<And>i. rnd i \<le> i" shows "mset (shuffleArray rnd xs) = mset xs"
  by (cases "xs = []") (simp_all add: shuffleArray_def shuffle_loop_perm assms)

lemma sendUnhealthyToTheBack_perm: "mset (sendUnhealthyToTheBack ck xs n) = mset xs"
  by (simp add: sendUnhealthyToTheBack_def send_back_perm)

lemma order_replicas_perm:
  assumes "\<And>i. rnd i \<le> i" shows "mset (order_replicas ck rnd dice newlyUp unhealthy rs) = mset rs"
proof -
  have step: "mset (if c then swap i j xs else xs) = mset rs" if "mset xs = mset rs" "i < length rs" "j < length rs" for c i j xs
    using that swap_perm[of i xs j] mset_eq_length[of xs rs] by simp
  let ?r = "shuffleArray rnd rs"
  have r: "mset ?r = mset rs" "length ?r = length rs"
    by (rule shuffleArray_perm[OF assms], rule mset_eq_length[OF shuffleArray_perm[OF assms]])
  let ?q = "case newlyUp of
      None \<Rightarrow> if unhealthy > 0 \<and> unhealthy < length ?r div 2 + 1 then sendUnhealthyToTheBack ck ?r unhealthy else ?r
    | Some h \<Rightarrow> if (h = ?r ! 0 \<or> h = ?r ! 1) \<and> dice then swap (length ?r - 1) (if h = ?r ! 0 then 0 else 1) ?r else ?r"
  show ?thesis
  proof (cases "length rs < 3")
    case True then show ?thesis by (simp add: order_replicas_def Let_def r)
  next
    case False
    have q: "mset ?q = mset rs"
    proof (cases newlyUp)
      case None then show ?thesis by (simp add: sendUnhealthyToTheBack_perm r)
    next
      case (Some h)
      have "length rs - 1 < length rs" "(if h = ?r ! 0 then 0 else 1) < length rs" using False by auto
      from step[OF r(1) this] Some show ?thesis unfolding r(2) by simp
    qed
    have "0 < length rs" "1 < length rs" using False by auto
    from step[OF q this] have "mset (if ck_compare ck (?q ! 1) (?q ! 0) > 0 then swap 0 1 ?q else ?q) = mset rs" .
    moreover have "order_replicas ck rnd dice newlyUp unhealthy rs = (if ck_compare ck (?q ! 1) (?q ! 0) > 0 then swap 0 1 ?q else ?q)"
      unfolding order_replicas_def Let_def using False r(2) by simp
    ultimately show ?thesis by (rule ssubst[rotated])
  qed
qed

lemma scan_replicas_filter: "fst (scan_replicas env ck p rs (acc, n, t, u)) = acc @ filter (usable env ck p) rs"
proof (induction rs arbitrary: acc n t u)
  case (Cons h rs)
  show ?case unfolding scan_replicas.simps Let_def by (auto simp: Cons usable_def split: prod.splits)
qed simp


text \<open>With the number of unhealthy replicas, \<open>#sendUnhealthyToTheBack\<close> separates them from the healthy ones. At any
  time the last \<open>counter\<close> replicas are unhealthy and those before them, down to the index, healthy.\<close>

lemma last_exactly:
  assumes "\<And>j. n - k \<le> j \<Longrightarrow> j < n \<Longrightarrow> \<not> P j" "k \<le> n" "card {j. j < n \<and> \<not> P j} \<le> k" "j < n"
  shows "P j \<longleftrightarrow> j < n - k"
proof -
  have "{n - k..<n} \<subseteq> {j. j < n \<and> \<not> P j}" using assms(1) by auto
  moreover have "card {n - k..<n} = k" using assms(2) by simp
  ultimately have "{n - k..<n} = {j. j < n \<and> \<not> P j}" using assms(3) by (intro card_seteq) simp_all
  then have "j \<in> {n - k..<n} \<longleftrightarrow> j \<in> {j. j < n \<and> \<not> P j}" by (rule arg_cong)
  then show ?thesis using assms(4) by simp linarith
qed

lemma send_back_separates:
  assumes "i + counter \<le> length xs" "\<forall>j. length xs - counter \<le> j \<and> j < length xs \<longrightarrow> \<not> healthy (xs ! j)"
    "\<forall>j. i \<le> j \<and> j < length xs - counter \<longrightarrow> healthy (xs ! j)" "n = card {j. j < length xs \<and> \<not> healthy (xs ! j)}" "j < length xs"
  shows "healthy (send_back healthy n i counter xs ! j) \<longleftrightarrow> j < length xs - n"
  using assms
proof (induction healthy n i counter xs rule: send_back.induct)
  case (1 healthy n counter xs)
  have e: "\<not> healthy (xs ! k) \<longleftrightarrow> length xs - counter \<le> k" if "k < length xs" for k
    using 1(2)[rule_format, of k] 1(3)[rule_format, of k] that by (cases "length xs - counter \<le> k") simp_all
  have "{j. j < length xs \<and> \<not> healthy (xs ! j)} = {length xs - counter..<length xs}"
    using e by force
  then have "n = counter" using 1(1,4) by simp
  then show ?case using e[OF 1(5)] by auto
next
  case (2 healthy n i counter xs)
  let ?t = "length xs - 1 - counter"
  let ?xs = "if ?t \<noteq> i then swap ?t i xs else xs"
  show ?case
  proof (cases "counter < n")
    case False
    then have "n \<le> counter" by simp
    have e: "healthy (xs ! k) \<longleftrightarrow> k < length xs - counter" if "k < length xs" for k
      using last_exactly[of "length xs" counter "\<lambda>j. healthy (xs ! j)" k] that 2(3,4,6) \<open>n \<le> counter\<close> by auto
    have "{j. j < length xs \<and> \<not> healthy (xs ! j)} = {length xs - counter..<length xs}" using e by force
    then have "n = counter" using 2(3,6) by simp
    then show ?thesis using e[OF 2(7)] by simp
  next
    case True
    show ?thesis
    proof (cases "healthy (xs ! i)")
      case h: True
      have "\<forall>j. i \<le> j \<and> j < length xs - counter \<longrightarrow> healthy (xs ! j)" using 2(5) h by (metis Suc_leI le_neq_implies_less)
      then show ?thesis using True h 2(1)[OF True h _ 2(4) _ 2(6,7)] 2(3) by simp
    next
      case h: False
      have at: "?xs ! k = (if k = ?t then xs ! i else if k = i then xs ! ?t else xs ! k)" if "k < length xs" for k
        using that 2(3) by (auto simp: swap_def nth_list_update)
      have "mset ?xs = mset xs" using 2(3) by (simp add: swap_perm)
      then have "length (filter (\<lambda>h. \<not> healthy h) ?xs) = length (filter (\<lambda>h. \<not> healthy h) xs)" by (metis mset_filter size_mset)
      then have n: "n = card {j. j < length ?xs \<and> \<not> healthy (?xs ! j)}" using 2(6) unfolding length_filter_conv_card by simp
      have len: "length ?xs = length xs" "i \<le> ?t" "counter < length xs" using 2(3) by simp_all
      have low: "\<forall>j. length ?xs - Suc counter \<le> j \<and> j < length ?xs \<longrightarrow> \<not> healthy (?xs ! j)"
      proof (intro allI impI)
        fix j assume j: "length ?xs - Suc counter \<le> j \<and> j < length ?xs"
        then have "j = ?t \<or> j \<noteq> ?t \<and> j \<noteq> i \<and> length xs - counter \<le> j" "j < length xs" using len by linarith+
        then show "\<not> healthy (?xs ! j)" using at[of j] 2(4)[rule_format, of j] h by (elim disjE) simp_all
      qed
      have high: "\<forall>j. i \<le> j \<and> j < length ?xs - Suc counter \<longrightarrow> healthy (?xs ! j)"
      proof (intro allI impI)
        fix j assume j: "i \<le> j \<and> j < length ?xs - Suc counter"
        then have "j \<noteq> ?t" "j < length xs" "j = i \<or> j \<noteq> i \<and> Suc i \<le> j" "Suc i \<le> ?t" "?t < length xs - counter" "j < length xs - counter"
          using len by linarith+
        then show "healthy (?xs ! j)" using at[of j] 2(5)[rule_format, of j] 2(5)[rule_format, of ?t] by (elim disjE) simp_all
      qed
      have "healthy (send_back healthy n i (Suc counter) ?xs ! j) \<longleftrightarrow> j < length ?xs - n"
        using 2(2)[unfolded Let_def, OF True h _ low high n] 2(3,7) by simp
      then show ?thesis using True h unfolding len(1) by (simp only: send_back.simps Let_def if_True if_False)
    qed
  qed
qed

lemma unhealthy_last:
  assumes "j < length xs"
  shows "ck_healthCheck ck (sendUnhealthyToTheBack ck xs (length (filter (\<lambda>h. \<not> ck_healthCheck ck h) xs)) ! j)
    \<longleftrightarrow> j < length (filter (ck_healthCheck ck) xs)"
proof -
  let ?n = "length (filter (\<lambda>h. \<not> ck_healthCheck ck h) xs)"
  have "length xs - ?n = length (filter (ck_healthCheck ck) xs)"
    using sum_length_filter_compl[of "ck_healthCheck ck" xs] by simp
  moreover have "?n = card {j. j < length xs \<and> \<not> ck_healthCheck ck (xs ! j)}" by (rule length_filter_conv_card)
  ultimately show ?thesis
    using send_back_separates[of "length xs" 0 xs "ck_healthCheck ck" ?n j] assms
    unfolding sendUnhealthyToTheBack_def by fastforce
qed

text \<open>The hosts from the index on, around the list.\<close>

lemma rotated_hosts:
  assumes "0 \<le> k"
  shows "map (\<lambda>i. hosts ! nat ((int i + k) mod int (length hosts))) [0..<length hosts] = rotate (nat k mod length hosts) hosts"
proof (rule nth_equalityI)
  fix i assume "i < length (map (\<lambda>i. hosts ! nat ((int i + k) mod int (length hosts))) [0..<length hosts])"
  then have i: "i < length hosts" by simp
  have "nat ((int i + k) mod int (length hosts)) = (i + nat k) mod length hosts"
    using assms by (metis nat_int of_nat_add of_nat_mod nat_0_le)
  then show "map (\<lambda>i. hosts ! nat ((int i + k) mod int (length hosts))) [0..<length hosts] ! i = rotate (nat k mod length hosts) hosts ! i"
    using i by (simp add: nth_rotate mod_simps add.commute)
qed simp

lemma getLocalHosts_plan:
  assumes "policy_ok env ck p"
  shows "distinct (fst (getLocalHosts env ck p rs))
    \<and> set (fst (getLocalHosts env ck p rs)) = {h \<in> set (lb_hosts p). usable env ck p h} - (case rs of None \<Rightarrow> {} | Some xs \<Rightarrow> set xs)
    \<and> policy_ok env ck (snd (getLocalHosts env ck p rs)) \<and> lb_localDc (snd (getLocalHosts env ck p rs)) = lb_localDc p"
proof -
  let ?hs = "filter (\<lambda>h. ck_filter ck h \<and> in_local_dc env p h) (lb_hosts p)"
  have ok: "distinct (lb_hosts p)" "0 \<le> lb_index p" using assms by (simp_all add: policy_ok_def)
  obtain q where q: "getFilteredLocalHosts env ck p = (?hs, q)" "lb_hosts q = lb_hosts p" "lb_index q = lb_index p" "lb_localDc q = lb_localDc p"
      "lb_preferredHost q = lb_preferredHost p" "lb_filteredHosts q = Some ?hs"
  proof (cases "lb_filteredHosts p")
    case None then show ?thesis using that[of "p\<lparr>lb_filteredHosts := Some ?hs\<rparr>"] by (simp add: getFilteredLocalHosts_def Let_def)
  next
    case (Some hs) then show ?thesis using that[of p] assms by (simp add: getFilteredLocalHosts_def policy_ok_def)
  qed
  have same: "in_local_dc env (q\<lparr>lb_index := x\<rparr>) = in_local_dc env p" for x using q by (auto simp: in_local_dc_def fun_eq_iff)
  show ?thesis using ok q assms
    by (auto simp: getLocalHosts_def getIndex_def rotated_hosts usable_def policy_ok_def same Let_def split: option.splits)
qed

lemma getReplicas_plan:
  assumes "policy_ok env ck p" "distinct rs" "\<And>i. rnd i \<le> i"
  obtains xs where "mset xs = mset (filter (usable env ck p) rs)"
    "fst (getReplicasAndLocalHosts env ck rnd dice p (Some rs)) = xs @ fst (getLocalHosts env ck p (Some xs))"
    "snd (getReplicasAndLocalHosts env ck rnd dice p (Some rs)) = snd (getLocalHosts env ck p (Some xs))"
proof -
  obtain f n t u where sc: "scan_replicas env ck p rs ([], None, - 9007199254740991, 0) = (f, n, t, u)" by (cases "scan_replicas env ck p rs ([], None, - 9007199254740991, 0)")
  then have f: "f = filter (usable env ck p) rs" using scan_replicas_filter[of env ck p rs "[]"] by (metis append_Nil fst_conv)
  show ?thesis
    by (rule that[of "order_replicas ck rnd dice n u f"])
      (simp_all add: order_replicas_perm[OF assms(3)] f getReplicasAndLocalHosts_def sc yieldReplicasFirst_def split_def)
qed

lemma plan_preferred:
  assumes "newQueryPlan env ck rnd dice p keyspace (Some o') replicas = (plan, q)"
  defines "r \<equiv> (if (keyspace \<or> po_keyspace o') \<and> po_routingKey o' then getReplicasAndLocalHosts env ck rnd dice p replicas else getLocalHosts env ck p None)"
  shows "plan = (case po_preferredHost o' of None \<Rightarrow> fst r | Some h \<Rightarrow> h # filter (\<lambda>x. x \<noteq> h) (fst r))
    \<and> q = (case po_preferredHost o' of None \<Rightarrow> snd r | Some h \<Rightarrow> (snd r)\<lparr>lb_preferredHost := Some h\<rparr>)"
  using assms(1) unfolding r_def newQueryPlan_def Let_def
  by (cases "po_preferredHost o'"; cases "(keyspace \<or> po_keyspace o') \<and> po_routingKey o'") (auto simp: split_def)

text \<open>C18: A query plan of the default policy names every known local host that is up, and every such replica, exactly
  once and no other host, all of them at the local distance; the replicas come first, a preferred host before all; and the invariant of the policy
  is kept.\<close>

theorem query_plan_complete:
  assumes "policy_ok env ck p" "distinct rs" "\<And>i. rnd i \<le> i" "newQueryPlan env ck rnd dice p keyspace (Some o') (Some rs) = (plan, q)"
  shows "distinct plan \<and> policy_ok env ck q
    \<and> set plan = {h \<in> set (lb_hosts p). usable env ck p h} \<union> set_option (po_preferredHost o')
        \<union> (if (keyspace \<or> po_keyspace o') \<and> po_routingKey o' then {h \<in> set rs. usable env ck p h} else {})
    \<and> ((keyspace \<or> po_keyspace o') \<and> po_routingKey o' \<and> po_preferredHost o' = None \<longrightarrow>
        set (take (length (filter (usable env ck p) rs)) plan) = {h \<in> set rs. usable env ck p h})
    \<and> (\<forall>h\<in>set plan. getDistance env ck q h = Local)
    \<and> (po_preferredHost o' \<noteq> None \<longrightarrow> plan \<noteq> [] \<and> po_preferredHost o' = Some (hd plan) \<and> lb_preferredHost q = po_preferredHost o')"
proof -
  have pref: "policy_ok env ck (x\<lparr>lb_preferredHost := y\<rparr>) = policy_ok env ck x" for x y
    by (simp add: policy_ok_def in_local_dc_def)
  have dist: "getDistance env ck q h = Local" if "usable env ck p h \<or> lb_preferredHost q = Some h" "lb_localDc q = lb_localDc p" for q h
    using that by (auto simp: getDistance_def usable_def in_local_dc_def)
  note loc = getLocalHosts_plan[OF assms(1)]
  show ?thesis
  proof (cases "(keyspace \<or> po_keyspace o') \<and> po_routingKey o'")
    case False
    then show ?thesis using plan_preferred[OF assms(4)] loc[of None] by (cases "po_preferredHost o'") (auto simp: pref intro: dist)
  next
    case True
    obtain xs where xs: "mset xs = mset (filter (usable env ck p) rs)"
      "fst (getReplicasAndLocalHosts env ck rnd dice p (Some rs)) = xs @ fst (getLocalHosts env ck p (Some xs))"
      "snd (getReplicasAndLocalHosts env ck rnd dice p (Some rs)) = snd (getLocalHosts env ck p (Some xs))"
      using getReplicas_plan[OF assms(1-3)] .
    have set_xs: "set xs = {h \<in> set rs. usable env ck p h}" "length (filter (usable env ck p) rs) = length xs"
      using mset_eq_setD[OF xs(1)] mset_eq_length[OF xs(1)] by auto
    have d: "distinct xs" using xs(1) assms(2) by (metis distinct_filter mset_eq_imp_distinct_iff)
    obtain hs x where hs: "getLocalHosts env ck p (Some xs) = (hs, x)" by fastforce
    have r: "distinct (xs @ hs)" "set (xs @ hs) = {h \<in> set (lb_hosts p). usable env ck p h} \<union> {h \<in> set rs. usable env ck p h}" "policy_ok env ck x" "lb_localDc x = lb_localDc p"
      using loc[of "Some xs"] d set_xs(1) by (auto simp: hs)
    have "plan = (case po_preferredHost o' of None \<Rightarrow> xs @ hs | Some h \<Rightarrow> h # filter (\<lambda>x. x \<noteq> h) (xs @ hs))"
      "q = (case po_preferredHost o' of None \<Rightarrow> x | Some h \<Rightarrow> x\<lparr>lb_preferredHost := Some h\<rparr>)"
      using plan_preferred[OF assms(4)] True xs(2,3) by (simp_all add: hs split: option.splits)
    then show ?thesis using True r set_xs by (cases "po_preferredHost o'") (auto simp: pref intro: dist)
  qed
qed

definition sample_hosts :: "nat \<Rightarrow> host_info" where
  "sample_hosts h = \<lparr>hi_datacenter = (if h = 4 then ''dc2'' else ''dc1''), hi_isUp = (h \<noteq> 2), hi_isUpSince = None,
     hi_inFlight = int h, hi_responseCount = 5\<rparr>"

definition sample_policy :: "nat policy" where
  "sample_policy = \<lparr>lb_hosts = [0, 1, 2, 3, 4, 5], lb_filteredHosts = None, lb_preferredHost = None, lb_index = 2, lb_localDc = Some ''dc1''\<rparr>"

lemma query_plan_complete_witness:
  "policy_ok sample_hosts (default_checks sample_hosts 0) sample_policy
    \<and> newQueryPlan sample_hosts (default_checks sample_hosts 0) (\<lambda>i. 0) True sample_policy True
        (Some \<lparr>po_routingKey = True, po_keyspace = False, po_preferredHost = None\<rparr>) (Some [5, 1, 2])
      = ([1, 5, 3, 0], sample_policy\<lparr>lb_filteredHosts := Some [0, 1, 2, 3, 5], lb_index := 3\<rparr>)
    \<and> set [1, 5, 3, 0 :: nat] = {h \<in> set (lb_hosts sample_policy). usable sample_hosts (default_checks sample_hosts 0) sample_policy h}
        \<union> {h \<in> set [5, 1, 2]. usable sample_hosts (default_checks sample_hosts 0) sample_policy h}"
proof -
  have ok: "policy_ok sample_hosts (default_checks sample_hosts 0) sample_policy"
    by (simp add: policy_ok_def sample_policy_def)
  have plan: "newQueryPlan sample_hosts (default_checks sample_hosts 0) (\<lambda>i. 0) True sample_policy True
        (Some \<lparr>po_routingKey = True, po_keyspace = False, po_preferredHost = None\<rparr>) (Some [5, 1, 2])
      = ([1, 5, 3, 0], sample_policy\<lparr>lb_filteredHosts := Some [0, 1, 2, 3, 5], lb_index := 3\<rparr>)"
    by code_simp
  show ?thesis using query_plan_complete[OF ok _ _ plan] ok plan by simp
qed

end
