(* ===== verification/Policies.thy ===== *)
theory Policies
  imports Prelude
begin

text \<open>
  The policies that are carried out by the native driver (\<open>lib/policies/load-balancing.js\<close>, \<open>retry.js\<close>,
  \<open>speculative-execution.js\<close>, \<open>index.js\<close>): what each hands over. A configuration of load balancing is an object that
  the wrapping policies change in place, so configurations live in a store and policies hold references.
\<close>

section \<open>Load balancing\<close>

text \<open>The fields of \<open>LoadBalancingConfig\<close>, of their declared types, \<^const>\<open>None\<close> when they are missing. \<open>localDc\<close> is no
  field of it, but is set by \<open>defaultLoadBalancingPolicy\<close>; the native driver reads \<open>preferDatacenter\<close>.\<close>

record lb_config =
  preferDatacenter :: "string option"
  preferRack :: "string option"
  tokenAware :: "bool option"
  permitDcFailover :: "bool option"
  enableShufflingReplicas :: "bool option"
  allowList :: "string list option"
  localDc :: "string option"

definition new_LoadBalancingConfig :: lb_config where
  "new_LoadBalancingConfig = \<lparr>preferDatacenter = None, preferRack = None, tokenAware = None, permitDcFailover = None,
     enableShufflingReplicas = None, allowList = None, localDc = None\<rparr>"

type_synonym config_store = "lb_config list"

datatype lb_policy =
    LoadBalancingPolicy
  | LegacyDefaultLoadBalancingPolicy
  | RoundRobinPolicy
  | DCAwareRoundRobinPolicy "string option"
  | TokenAwarePolicy lb_policy
  | AllowListPolicy lb_policy "string list"
  | DefaultLoadBalancingPolicy nat

definition new_TokenAwarePolicy :: "lb_policy option \<Rightarrow> lb_policy result" where
  "new_TokenAwarePolicy childPolicy =
     (case childPolicy of None \<Rightarrow> throw (GenericError ''You must specify a child load balancing policy'') | Some p \<Rightarrow> return (TokenAwarePolicy p))"

definition new_AllowListPolicy :: "lb_policy option \<Rightarrow> string list option \<Rightarrow> lb_policy result" where
  "new_AllowListPolicy childPolicy l =
     (case childPolicy of
        None \<Rightarrow> throw (GenericError ''You must specify a child load balancing policy'')
      | Some p \<Rightarrow>
          (case l of
             None \<Rightarrow> throw (GenericError ''You must provide the list of allowed host addresses'')
           | Some xs \<Rightarrow> return (AllowListPolicy p xs)))"

definition new_DefaultLoadBalancingPolicy :: "config_store \<Rightarrow> lb_config option \<Rightarrow> lb_policy \<times> config_store" where
  "new_DefaultLoadBalancingPolicy s config =
     (DefaultLoadBalancingPolicy (length s), s @ [case config of None \<Rightarrow> new_LoadBalancingConfig | Some c \<Rightarrow> c])"

definition defaultLoadBalancingPolicy :: "config_store \<Rightarrow> string option \<Rightarrow> lb_policy \<times> config_store" where
  "defaultLoadBalancingPolicy s dc =
     (if dc = None \<or> dc = Some [] then new_DefaultLoadBalancingPolicy s None
      else new_DefaultLoadBalancingPolicy s (Some (new_LoadBalancingConfig\<lparr>localDc := dc, permitDcFailover := Some False\<rparr>)))"

fun getRustConfiguration :: "lb_policy \<Rightarrow> config_store \<Rightarrow> (nat \<times> config_store) result" where
  "getRustConfiguration LoadBalancingPolicy s = throw (GenericError ''Currently this load balancing policy is not supported by the driver'')"
| "getRustConfiguration LegacyDefaultLoadBalancingPolicy s = throw (GenericError ''Currently this load balancing policy is not supported by the driver'')"
| "getRustConfiguration RoundRobinPolicy s = return (length s, s @ [new_LoadBalancingConfig\<lparr>tokenAware := Some False\<rparr>])"
| "getRustConfiguration (DCAwareRoundRobinPolicy dc) s =
     return (length s, s @ [new_LoadBalancingConfig\<lparr>preferDatacenter := dc, permitDcFailover := Some False, tokenAware := Some False\<rparr>])"
| "getRustConfiguration (TokenAwarePolicy childPolicy) s =
     rbind (getRustConfiguration childPolicy s) (\<lambda>(r, s). return (r, s[r := (s ! r)\<lparr>tokenAware := Some True\<rparr>]))"
| "getRustConfiguration (AllowListPolicy childPolicy l) s =
     rbind (getRustConfiguration childPolicy s) (\<lambda>(r, s).
       return (r, s[r := (s ! r)\<lparr>allowList := Some (case allowList (s ! r) of
                                                None \<Rightarrow> l
                                              | Some l' \<Rightarrow> filter (\<lambda>n. n \<in> set l') l)\<rparr>]))"
| "getRustConfiguration (DefaultLoadBalancingPolicy r) s = return (r, s)"

section \<open>Retries and speculative executions\<close>

text \<open>The class of a retry policy; another class derives from one of them.\<close>

datatype retry_policy = RetryPolicy | FallthroughRetryPolicy | Derived_policy retry_policy

datatype retry_kind = Default | Fallthrough

fun Retry_getRustConfiguration :: "retry_policy \<Rightarrow> retry_kind result" where
  "Retry_getRustConfiguration RetryPolicy = return Default"
| "Retry_getRustConfiguration FallthroughRetryPolicy = return Fallthrough"
| "Retry_getRustConfiguration (Derived_policy p) = throw (TypeError ''Currently only built-in retry policies are supported'')"

text \<open>A plan of \<open>ConstantSpeculativeExecutionPolicy\<close> counts its executions.\<close>

record constant_policy =
  cp_delay :: int
  cp_max :: int

definition new_ConstantSpeculativeExecutionPolicy :: "int \<Rightarrow> int \<Rightarrow> constant_policy result" where
  "new_ConstantSpeculativeExecutionPolicy delay maxSpeculativeExecutions =
     (if \<not> delay \<ge> 0 then throw (ArgumentError ''delay must be a positive number or zero'')
      else if \<not> maxSpeculativeExecutions > 0 then throw (ArgumentError ''maxSpeculativeExecutions must be a positive number'')
      else return \<lparr>cp_delay = delay, cp_max = maxSpeculativeExecutions\<rparr>)"

definition nextExecution :: "constant_policy \<Rightarrow> int \<Rightarrow> int \<times> int" where
  "nextExecution p executions = (if executions < cp_max p then cp_delay p else - 1, executions + 1)"

fun next_executions :: "constant_policy \<Rightarrow> int \<Rightarrow> nat \<Rightarrow> int list" where
  "next_executions p executions 0 = []"
| "next_executions p executions (Suc n) = (case nextExecution p executions of (d, e) \<Rightarrow> d # next_executions p e n)"

lemma next_executions_plan:
  assumes "new_ConstantSpeculativeExecutionPolicy delay m = return p" "0 \<le> e"
  shows "next_executions p e n = replicate (min n (nat (m - e))) delay @ replicate (n - nat (m - e)) (- 1)"
proof -
  have p: "cp_delay p = delay" "cp_max p = m"
    using assms(1) by (auto simp: new_ConstantSpeculativeExecutionPolicy_def split: if_splits)
  show ?thesis using assms(2)
  proof (induction n arbitrary: e)
    case (Suc n)
    have "nat (m - e) = Suc (nat (m - (e + 1)))" if "e < m" using that by simp
    then show ?case using Suc by (cases "e < m") (simp_all add: nextExecution_def p)
  qed simp
qed

section \<open>What a configuration means\<close>

text \<open>The policy in the middle of the wrappers, the allow lists and the token awareness around it, and the
  configuration the middle one starts from.\<close>

fun core :: "lb_policy \<Rightarrow> lb_policy" where
  "core (TokenAwarePolicy p) = core p"
| "core (AllowListPolicy p l) = core p"
| "core p = p"

fun allow_lists :: "lb_policy \<Rightarrow> string list list" where
  "allow_lists (TokenAwarePolicy p) = allow_lists p"
| "allow_lists (AllowListPolicy p l) = l # allow_lists p"
| "allow_lists p = []"

fun wants_tokens :: "lb_policy \<Rightarrow> bool" where
  "wants_tokens (TokenAwarePolicy p) = True"
| "wants_tokens (AllowListPolicy p l) = wants_tokens p"
| "wants_tokens p = False"

fun base_config :: "lb_policy \<Rightarrow> config_store \<Rightarrow> lb_config option" where
  "base_config RoundRobinPolicy s = Some (new_LoadBalancingConfig\<lparr>tokenAware := Some False\<rparr>)"
| "base_config (DCAwareRoundRobinPolicy dc) s =
     Some (new_LoadBalancingConfig\<lparr>preferDatacenter := dc, permitDcFailover := Some False, tokenAware := Some False\<rparr>)"
| "base_config (DefaultLoadBalancingPolicy r) s = (if r < length s then Some (s ! r) else None)"
| "base_config p s = None"

definition allows :: "lb_config \<Rightarrow> string \<Rightarrow> bool" where
  "allows c host \<longleftrightarrow> (case allowList c of None \<Rightarrow> True | Some l \<Rightarrow> host \<in> set l)"

text \<open>A configuration but for what the wrappers change.\<close>

definition rest :: "lb_config \<Rightarrow> lb_config" where
  "rest c = c\<lparr>tokenAware := None, allowList := None\<rparr>"

lemma rest_update [simp]: "rest (c\<lparr>tokenAware := t\<rparr>) = rest c" "rest (c\<lparr>allowList := l\<rparr>) = rest c"
  by (simp_all add: rest_def)

definition wrapped :: "lb_policy \<Rightarrow> lb_config \<Rightarrow> lb_config \<Rightarrow> bool" where
  "wrapped p c d \<longleftrightarrow> rest d = rest c
     \<and> tokenAware d = (if wants_tokens p then Some True else tokenAware c)
     \<and> (\<forall>host. allows d host \<longleftrightarrow> allows c host \<and> (\<forall>l\<in>set (allow_lists p). host \<in> set l))"

lemma allows_update [simp]:
  "allows (d\<lparr>tokenAware := t\<rparr>) = allows d"
  "allows (d\<lparr>allowList := Some (case allowList d of None \<Rightarrow> l | Some l' \<Rightarrow> filter (\<lambda>n. n \<in> set l') l)\<rparr>) host \<longleftrightarrow> allows d host \<and> host \<in> set l"
  by (auto simp: allows_def fun_eq_iff split: option.splits)

lemma config_outcome:
  assumes "base_config (core p) s = Some c"
  shows "\<exists>r s'. getRustConfiguration p s = return (r, s') \<and> r < length s' \<and> length s \<le> length s'
    \<and> (length s \<le> r \<or> core p = DefaultLoadBalancingPolicy r)
    \<and> (\<forall>i < length s. i \<noteq> r \<longrightarrow> s' ! i = s ! i) \<and> wrapped p c (s' ! r)"
  using assms
proof (induction p)
  case (TokenAwarePolicy p)
  then obtain r s' where *: "getRustConfiguration p s = return (r, s')" "r < length s'" "length s \<le> length s'"
    "length s \<le> r \<or> core p = DefaultLoadBalancingPolicy r"
    "\<forall>i < length s. i \<noteq> r \<longrightarrow> s' ! i = s ! i" "wrapped p c (s' ! r)" by auto
  then show ?case by (simp add: wrapped_def)
next
  case (AllowListPolicy p l)
  then obtain r s' where *: "getRustConfiguration p s = return (r, s')" "r < length s'" "length s \<le> length s'"
    "length s \<le> r \<or> core p = DefaultLoadBalancingPolicy r"
    "\<forall>i < length s. i \<noteq> r \<longrightarrow> s' ! i = s ! i" "wrapped p c (s' ! r)" by auto
  then show ?case by (auto simp add: wrapped_def)
qed (auto simp: wrapped_def nth_append split: if_splits)

text \<open>C20: The configuration a load balancing policy hands to the native driver is that of the policy inside its
  wrappers, token aware when a wrapper asks for it, and allows exactly the hosts that the inner configuration
  and every allow list around it allow; no other configuration changes, and only a policy that is not supported
  has none.\<close>

theorem policy_configuration:
  assumes "core p \<noteq> LoadBalancingPolicy" "core p \<noteq> LegacyDefaultLoadBalancingPolicy"
    "\<And>r. core p = DefaultLoadBalancingPolicy r \<Longrightarrow> r < length s"
  shows "\<exists>c r s'. base_config (core p) s = Some c \<and> getRustConfiguration p s = return (r, s')
    \<and> rest (s' ! r) = rest c \<and> tokenAware (s' ! r) = (if wants_tokens p then Some True else tokenAware c)
    \<and> (\<forall>host. allows (s' ! r) host \<longleftrightarrow> allows c host \<and> (\<forall>l\<in>set (allow_lists p). host \<in> set l))
    \<and> (\<forall>i < length s. core p \<noteq> DefaultLoadBalancingPolicy i \<longrightarrow> s' ! i = s ! i)"
proof -
  have "core p \<noteq> TokenAwarePolicy q \<and> core p \<noteq> AllowListPolicy q l" for q l by (induction p) simp_all
  then obtain c where c: "base_config (core p) s = Some c"
    using assms by (cases "core p") auto
  from config_outcome[OF this] obtain r s' where *: "getRustConfiguration p s = return (r, s')"
    "length s \<le> r \<or> core p = DefaultLoadBalancingPolicy r" "\<forall>i < length s. i \<noteq> r \<longrightarrow> s' ! i = s ! i" "wrapped p c (s' ! r)" by auto
  then have "s' ! i = s ! i" if "i < length s" "core p \<noteq> DefaultLoadBalancingPolicy i" for i using that by (cases "i = r") auto
  then show ?thesis using c *(1,4) unfolding wrapped_def by blast
qed

lemma policy_configuration_witness:
  "\<exists>c r s'. base_config (core (AllowListPolicy (TokenAwarePolicy (DCAwareRoundRobinPolicy (Some ''dc1''))) [''a:9042'', ''b:9042''])) [] = Some c
    \<and> getRustConfiguration (AllowListPolicy (TokenAwarePolicy (DCAwareRoundRobinPolicy (Some ''dc1''))) [''a:9042'', ''b:9042'']) [] = return (r, s')
    \<and> tokenAware (s' ! r) = Some True \<and> preferDatacenter (s' ! r) = Some ''dc1'' \<and> allows (s' ! r) ''a:9042'' \<and> \<not> allows (s' ! r) ''c:9042''"
  using policy_configuration[of "AllowListPolicy (TokenAwarePolicy (DCAwareRoundRobinPolicy (Some ''dc1''))) [''a:9042'', ''b:9042'']" "[]"]
  by (simp add: allows_def new_LoadBalancingConfig_def)

text \<open>The wrappers change the configuration of a \<open>DefaultLoadBalancingPolicy\<close> in place, so that a policy shared by
  two wrappers is restricted by both: after one allowed a host and another a different one, none is left. And the
  data center given to \<open>defaultLoadBalancingPolicy\<close> is not preferred.\<close>

theorem policy_configuration_defects:
  "rbind (getRustConfiguration (AllowListPolicy (DefaultLoadBalancingPolicy 0) [''a:9042'']) [new_LoadBalancingConfig])
     (\<lambda>(r, s). rbind (getRustConfiguration (TokenAwarePolicy (DefaultLoadBalancingPolicy 0)) s)
     (\<lambda>(r, s). rbind (getRustConfiguration (AllowListPolicy (DefaultLoadBalancingPolicy 0) [''b:9042'']) s)
     (\<lambda>(r, s). return (s ! r))))
     = return (new_LoadBalancingConfig\<lparr>tokenAware := Some True, allowList := Some []\<rparr>)
   \<and> rbind (getRustConfiguration (fst (defaultLoadBalancingPolicy [] (Some ''dc1''))) (snd (defaultLoadBalancingPolicy [] (Some ''dc1''))))
       (\<lambda>(r, s). return (preferDatacenter (s ! r))) = return None"
  by (simp add: new_LoadBalancingConfig_def defaultLoadBalancingPolicy_def new_DefaultLoadBalancingPolicy_def)

end
