(* ===== verification/Timestamps.thy ===== *)
theory Timestamps
  imports Cql_Scalars
begin

text \<open>
  \<open>MonotonicTimestampGenerator\<close> (\<open>lib/policies/timestamp-generation.js\<close>). The clock is a parameter: each call reads it
  once, and a second time for the log. A timestamp is a number while the date is small enough and a \<open>Long\<close> after.
\<close>

section \<open>The generator\<close>

record generator =
  g_warningThreshold :: int
  g_minLogInterval :: int
  g_micros :: int
  g_lastDate :: int
  g_lastLogDate :: int

datatype timestamp = Number int | Long int

fun timestamp_value :: "timestamp \<Rightarrow> int" where
  "timestamp_value (Number n) = n"
| "timestamp_value (Long n) = n"

definition maxSafeNumberDate :: int where
  "maxSafeNumberDate = 9007199254740"

text \<open>A threshold of zero counts as missing.\<close>

definition new_MonotonicTimestampGenerator :: "int option \<Rightarrow> int option \<Rightarrow> generator result" where
  "new_MonotonicTimestampGenerator warningThreshold minLogInterval =
     (if (case warningThreshold of None \<Rightarrow> False | Some w \<Rightarrow> w < 0) then throw (ArgumentError ''warningThreshold can not be lower than 0'')
      else return
        \<lparr>g_warningThreshold = (case warningThreshold of None \<Rightarrow> 1000 | Some w \<Rightarrow> if w = 0 then 1000 else w),
         g_minLogInterval = (case minLogInterval of None \<Rightarrow> 1000 | Some i \<Rightarrow> i),
         g_micros = - 1, g_lastDate = 0, g_lastLogDate = 0\<rparr>)"

text \<open>\<open>Long.fromNumber\<close> stops at the ends of its range; \<open>multiply\<close> and \<open>add\<close> wrap.\<close>

definition Long_fromNumber :: "int \<Rightarrow> int" where
  "Long_fromNumber x = max (- 9223372036854775808) (min 9223372036854775807 x)"

definition generateMicroseconds :: "generator \<Rightarrow> timestamp" where
  "generateMicroseconds g =
     (if g_lastDate g < maxSafeNumberDate then Number (g_lastDate g * 1000 + g_micros g)
      else Long (wrap64 (wrap64 (Long_fromNumber (g_lastDate g) * 1000) + g_micros g)))"

text \<open>\<open>next\<close> with the two readings of the clock. The log entry holds the drift, the last date and the timestamp.\<close>

type_synonym log_entry = "int \<times> int \<times> timestamp"

definition next_timestamp :: "generator \<Rightarrow> int \<Rightarrow> int \<Rightarrow> timestamp \<times> log_entry option \<times> generator" where
  "next_timestamp g date currentLogDate =
     (if date > g_lastDate g then
        let g = g\<lparr>g_micros := 0, g_lastDate := date\<rparr> in (generateMicroseconds g, None, g)
      else
        let drifted = g_lastDate g - date;
            date = g_lastDate g;
            micros = g_micros g + 1;
            (micros, date, drifted) = (if micros = 1000 then (0, date + 1, drifted + 1) else (micros, date, drifted));
            lastDate = g_lastDate g;
            g = g\<lparr>g_micros := micros, g_lastDate := date\<rparr>;
            result = generateMicroseconds g
        in if drifted \<ge> g_warningThreshold g \<and> g_minLogInterval g > 0 \<and> g_lastLogDate g + g_minLogInterval g \<le> currentLogDate
           then (result, Some (drifted, lastDate, result), g\<lparr>g_lastLogDate := currentLogDate\<rparr>)
           else (result, None, g))"

fun timestamps :: "generator \<Rightarrow> (int \<times> int) list \<Rightarrow> timestamp list" where
  "timestamps g [] = []"
| "timestamps g ((date, logDate) # clock) = (case next_timestamp g date logDate of (t, l, g) \<Rightarrow> t # timestamps g clock)"

section \<open>Timestamps increase\<close>

text \<open>The invariant, with the bound of the date below which nothing wraps.\<close>

definition generator_ok :: "int \<Rightarrow> generator \<Rightarrow> bool" where
  "generator_ok limit g \<longleftrightarrow> 0 \<le> g_lastDate g \<and> g_lastDate g \<le> limit \<and> - 1 \<le> g_micros g \<and> g_micros g < 1000"

lemma generated_value:
  assumes "generator_ok limit g" "limit \<le> 9223372036854774" "0 \<le> g_micros g"
  shows "timestamp_value (generateMicroseconds g) = g_lastDate g * 1000 + g_micros g
    \<and> (case generateMicroseconds g of Number n \<Rightarrow> n < 2 ^ 53 | Long n \<Rightarrow> is_int64 n)"
proof -
  have "wrap64 (wrap64 (Long_fromNumber (g_lastDate g) * 1000) + g_micros g) = g_lastDate g * 1000 + g_micros g"
    if "maxSafeNumberDate \<le> g_lastDate g"
  proof -
    have "Long_fromNumber (g_lastDate g) = g_lastDate g" using assms by (simp add: Long_fromNumber_def generator_ok_def)
    moreover have "wrap64 x = x" if "0 \<le> x" "x < 9223372036854775808" for x
      unfolding wrap64_def using that by (subst mod_pos_pos_trivial) simp_all
    ultimately show ?thesis using assms by (simp add: generator_ok_def)
  qed
  then show ?thesis using assms by (auto simp: generateMicroseconds_def generator_ok_def maxSafeNumberDate_def is_int64_def)
qed

lemma next_timestamp_ok:
  assumes "generator_ok limit g" "next_timestamp g date logDate = (t, l, g')" "date \<le> limit" "limit < 9223372036854774"
  shows "generator_ok (limit + 1) g' \<and> 0 \<le> g_micros g' \<and> t = generateMicroseconds g'
    \<and> g_lastDate g * 1000 + g_micros g < g_lastDate g' * 1000 + g_micros g' \<and> date \<le> g_lastDate g'"
  using assms unfolding next_timestamp_def Let_def
  by (auto simp: generator_ok_def generateMicroseconds_def split: if_splits)

lemma timestamps_above:
  assumes "generator_ok limit g" "\<forall>(date, logDate) \<in> set clock. date \<le> limit" "limit + int (length clock) < 9223372036854775"
  shows "sorted_wrt (<) ((g_lastDate g * 1000 + g_micros g) # map timestamp_value (timestamps g clock))
    \<and> list_all2 (\<lambda>(date, logDate) t. date * 1000 \<le> timestamp_value t \<and> (case t of Number n \<Rightarrow> n < 2 ^ 53 | Long n \<Rightarrow> is_int64 n))
        clock (timestamps g clock)"
  using assms
proof (induction clock arbitrary: g limit)
  case (Cons c clock)
  obtain date logDate where c: "c = (date, logDate)" by fastforce
  obtain t l g' where n: "next_timestamp g date logDate = (t, l, g')" by (metis prod_cases3)
  have ok: "generator_ok (limit + 1) g'" "0 \<le> g_micros g'" "t = generateMicroseconds g'"
      "g_lastDate g * 1000 + g_micros g < g_lastDate g' * 1000 + g_micros g'" "date \<le> g_lastDate g'"
    using next_timestamp_ok[OF Cons.prems(1) n] Cons.prems(2,3) by (simp_all add: c)
  note v = generated_value[OF ok(1) _ ok(2), folded ok(3)]
  have "\<forall>(date, logDate) \<in> set clock. date \<le> limit + 1" using Cons.prems(2) by fastforce
  note IH = Cons.IH[OF ok(1) this]
  show ?case using IH Cons.prems(3) v ok(2,4,5) by (auto simp: c n)
qed simp

text \<open>C19: Whatever the clock shows, also when it stands still or is set back, the timestamps of a generator
  increase strictly; none is behind the clock; and none leaves the numbers that are exact nor the range of a
  \<open>Long\<close>.\<close>

theorem timestamps_increase:
  assumes "new_MonotonicTimestampGenerator warningThreshold minLogInterval = return g"
    "\<forall>(date, logDate) \<in> set clock. date \<le> 8640000000000000" "length clock \<le> 500000000000000"
  shows "sorted_wrt (<) (map timestamp_value (timestamps g clock))
    \<and> list_all2 (\<lambda>(date, logDate) t. date * 1000 \<le> timestamp_value t \<and> (case t of Number n \<Rightarrow> n < 2 ^ 53 | Long n \<Rightarrow> is_int64 n))
        clock (timestamps g clock)"
proof -
  have "generator_ok 8640000000000000 g"
    using assms(1) by (auto simp: new_MonotonicTimestampGenerator_def generator_ok_def split: if_splits)
  from timestamps_above[OF this assms(2)] show ?thesis using assms(3) by simp
qed

definition sample_generator :: generator where
  "sample_generator = \<lparr>g_warningThreshold = 1000, g_minLogInterval = 1000, g_micros = - 1, g_lastDate = 0, g_lastLogDate = 0\<rparr>"

lemma timestamps_increase_witness:
  "map timestamp_value (timestamps sample_generator [(5, 5), (5, 5), (4, 4), (6, 6)]) = [5000, 5001, 5002, 6000]
    \<and> sorted_wrt (<) (map timestamp_value (timestamps sample_generator [(5, 5), (5, 5), (4, 4), (6, 6)]))"
proof -
  have g: "new_MonotonicTimestampGenerator None None = return sample_generator"
    by (simp add: new_MonotonicTimestampGenerator_def sample_generator_def)
  have "map timestamp_value (timestamps sample_generator [(5, 5), (5, 5), (4, 4), (6, 6)]) = [5000, 5001, 5002, 6000]"
    by code_simp
  then show ?thesis using timestamps_increase[OF g, of "[(5, 5), (5, 5), (4, 4), (6, 6)]"] by simp
qed

text \<open>Warnings are at least the interval apart.\<close>

lemma log_interval:
  assumes "next_timestamp g date logDate = (t, Some e, g')"
  shows "g_lastLogDate g + g_minLogInterval g \<le> logDate \<and> g_lastLogDate g' = logDate \<and> 0 < g_minLogInterval g
    \<and> g_warningThreshold g \<le> fst e"
  using assms unfolding next_timestamp_def Let_def by (auto split: if_splits)

end
