(* ===== verification/Time_Uuid.thy ===== *)
theory Time_Uuid
  imports Cql_Scalars_Correct
begin

text \<open>
  \<open>TimeUuid\<close> (\<open>lib/types/time-uuid.js\<close>): the bytes made of a date, the ticks of 100 nanoseconds, a clock and a node
  uuid_id. The counters of the module are the state; the current time and the random bytes are parameters.
\<close>

section \<open>Generation\<close>

definition unixToGregorian :: int where
  "unixToGregorian = 12219292800000"

definition ticksInMs :: int where
  "ticksInMs = 10000"

record ticks_state =
  tu_ticks :: int
  tu_ticksForCurrentTime :: int
  tu_lastTimestamp :: int

definition initial_ticks :: ticks_state where
  "initial_ticks = \<lparr>tu_ticks = 0, tu_ticksForCurrentTime = 0, tu_lastTimestamp = 0\<rparr>"

text \<open>An argument that is no number is \<^const>\<open>None\<close>.\<close>

definition getTicks :: "ticks_state \<Rightarrow> int option \<Rightarrow> int \<times> ticks_state" where
  "getTicks s ticks =
     (let fresh = (let n = tu_ticks s + 1; n = (if n \<ge> ticksInMs then 0 else n) in (n, s\<lparr>tu_ticks := n\<rparr>))
      in case ticks of None \<Rightarrow> fresh | Some t \<Rightarrow> if t \<ge> ticksInMs then fresh else (t, s))"

text \<open>A date that is missing or invalid is \<^const>\<open>None\<close>.\<close>

definition getTimeWithTicks :: "ticks_state \<Rightarrow> int \<Rightarrow> int option \<Rightarrow> int option \<Rightarrow> (int \<times> int) \<times> ticks_state" where
  "getTimeWithTicks s now date ticks =
     (case date of
        Some time \<Rightarrow> (case getTicks s ticks of (t, s) \<Rightarrow> ((time, t), s))
      | None \<Rightarrow>
          let n = tu_ticksForCurrentTime s + 1;
              s = (if n > ticksInMs \<or> now > tu_lastTimestamp s
                   then s\<lparr>tu_ticksForCurrentTime := 0, tu_lastTimestamp := now\<rparr> else s\<lparr>tu_ticksForCurrentTime := n\<rparr>)
          in (case getTicks s (Some (tu_ticksForCurrentTime s)) of (t, s) \<Rightarrow> ((now, t), s)))"

text \<open>\<open>writeTime\<close>: the low 32 bits of the ticks, then the low and the high half of the high 32 bits. The sum and the
  product of \<open>Long\<close> wrap.\<close>

definition time_ticks :: "int \<Rightarrow> int \<Rightarrow> int" where
  "time_ticks time ticks = wrap64 (wrap64 ((time + unixToGregorian) * 10000) + ticks)"

definition writeTime :: "int \<Rightarrow> int \<Rightarrow> buffer" where
  "writeTime time ticks =
     (let val = time_ticks time ticks; timeHigh = to_uint32 (val div 4294967296)
      in be_bytes 4 (to_uint32 val) @ be_bytes 2 (js_and timeHigh 0xffff) @ be_bytes 2 (js_and (js_shru timeHigh 16) 0xffff))"

text \<open>An uuid_id: a text, taken as ASCII, or bytes; anything else is generated.\<close>

datatype uuid_id = Text_id string | Bytes_id buffer | No_id

definition id_bytes :: "nat \<Rightarrow> string \<Rightarrow> buffer \<Rightarrow> uuid_id \<Rightarrow> buffer result" where
  "id_bytes n message random i =
     (case i of
        No_id \<Rightarrow> return random
      | Text_id s \<Rightarrow> let b = map (\<lambda>c. to_byte (of_char c)) s in if length b \<noteq> n then throw (GenericError message) else return b
      | Bytes_id b \<Rightarrow> if length b \<noteq> n then throw (GenericError message) else return b)"

definition TimeUuid_getNodeId :: "buffer \<Rightarrow> uuid_id \<Rightarrow> buffer result" where
  "TimeUuid_getNodeId = id_bytes 6 ''Node uuid_id must have 6 bytes''"

definition TimeUuid_getClockId :: "buffer \<Rightarrow> uuid_id \<Rightarrow> buffer result" where
  "TimeUuid_getClockId = id_bytes 2 ''Clock uuid_id must have 2 bytes''"

definition set_version :: "buffer \<Rightarrow> buffer" where
  "set_version b = (let b = b[6 := (b ! 6 AND 0x0f) OR 0x10] in b[8 := (b ! 8 AND 0x3f) OR 0x80])"

record random_bytes =
  rnd_node :: buffer
  rnd_clock :: buffer

definition generateBuffer :: "random_bytes \<Rightarrow> int \<Rightarrow> ticks_state \<Rightarrow> int option \<Rightarrow> int option \<Rightarrow> uuid_id \<Rightarrow> uuid_id \<Rightarrow> buffer result \<times> ticks_state" where
  "generateBuffer rnd now s date ticks nodeId clockId =
     (case getTimeWithTicks s now date ticks of
        ((time, ticks), s) \<Rightarrow>
          (rbind (TimeUuid_getNodeId (rnd_node rnd) nodeId) (\<lambda>node.
           rbind (TimeUuid_getClockId (rnd_clock rnd) clockId) (\<lambda>clock.
             return (set_version (writeTime time ticks @ clock @ node)))), s))"

definition TimeUuid_fromDate :: "random_bytes \<Rightarrow> int \<Rightarrow> ticks_state \<Rightarrow> int option \<Rightarrow> int option \<Rightarrow> uuid_id \<Rightarrow> uuid_id \<Rightarrow> Uuid result \<times> ticks_state" where
  "TimeUuid_fromDate rnd now s date ticks nodeId clockId =
     (case generateBuffer rnd now s date ticks nodeId clockId of (r, s) \<Rightarrow> (rbind r new_Uuid, s))"

definition TimeUuid_now :: "random_bytes \<Rightarrow> int \<Rightarrow> ticks_state \<Rightarrow> uuid_id \<Rightarrow> uuid_id \<Rightarrow> Uuid result \<times> ticks_state" where
  "TimeUuid_now rnd now s nodeId clockId = TimeUuid_fromDate rnd now s None None nodeId clockId"

definition TimeUuid_min :: "random_bytes \<Rightarrow> int \<Rightarrow> ticks_state \<Rightarrow> int option \<Rightarrow> int option \<Rightarrow> Uuid result \<times> ticks_state" where
  "TimeUuid_min rnd now s date ticks = TimeUuid_fromDate rnd now s date ticks (Bytes_id (replicate 6 0x80)) (Bytes_id (replicate 2 0x80))"

definition TimeUuid_max :: "random_bytes \<Rightarrow> int \<Rightarrow> ticks_state \<Rightarrow> int option \<Rightarrow> int option \<Rightarrow> Uuid result \<times> ticks_state" where
  "TimeUuid_max rnd now s date ticks = TimeUuid_fromDate rnd now s date ticks (Bytes_id (replicate 6 0x7f)) (Bytes_id (replicate 2 0x7f))"

section \<open>Reading\<close>

text \<open>The time and the ticks; \<open>modulo\<close> and \<open>div\<close> of \<open>Long\<close> are those of non-negative numbers here, since the high word has 28
  bits.\<close>

definition getDatePrecision :: "Uuid \<Rightarrow> int \<times> int" where
  "getDatePrecision u =
     (let b = uuid_raw u;
          byte_at = (\<lambda>i. uint (b ! i));
          timeLow = be_val (take 4 b);
          timeHigh = js_or (js_or (js_or (js_or 0 (js_shl (js_and (byte_at 4) 0xff) 8)) (js_and (byte_at 5) 0xff)) (js_shl (js_and (byte_at 6) 0x0f) 24)) (js_shl (js_and (byte_at 7) 0xff) 16);
          val = timeHigh * 4294967296 + timeLow
      in (val div ticksInMs - unixToGregorian, val mod ticksInMs))"

definition getDate :: "Uuid \<Rightarrow> int" where
  "getDate u = fst (getDatePrecision u)"

definition getNodeId :: "Uuid \<Rightarrow> buffer" where
  "getNodeId u = drop 10 (uuid_raw u)"

definition getClockId :: "Uuid \<Rightarrow> buffer" where
  "getClockId u = take 2 (drop 8 (uuid_raw u))"

section \<open>What is written is read\<close>

lemma be_bytes_2: "be_bytes 2 x = [to_byte (x div 256), to_byte x]"
  by (simp add: numeral_2_eq_2)

lemma js_and_15: "js_and x 15 = x mod 16"
  using js_and_mask[of 4 x] by simp

lemma time_ticks_exact:
  assumes "0 \<le> (time + unixToGregorian) * 10000" "(time + unixToGregorian) * 10000 + ticks < 1152921504606846976" "0 \<le> ticks"
  shows "time_ticks time ticks = (time + unixToGregorian) * 10000 + ticks"
proof -
  have "wrap64 x = x" if "0 \<le> x" "x < 9223372036854775808" for x
    unfolding wrap64_def using that by (subst mod_pos_pos_trivial) simp_all
  then show ?thesis using assms by (simp add: time_ticks_def)
qed

text \<open>The high word, put together from its four bytes.\<close>

lemma join_bytes:
  assumes "0 \<le> a" "a < 16" "0 \<le> b" "b < 256" "0 \<le> c" "c < 256" "0 \<le> d" "d < (256 :: int)"
  shows "js_or (js_or (js_or (js_or 0 (js_shl c 8)) d) (js_shl a 24)) (js_shl b 16) = (a * 256 + b) * 65536 + (c * 256 + d)"
proof -
  have id: "to_int32 x = x" if "0 \<le> x" "x < 2147483648" for x using that by (simp add: to_int32_id is_int32_def)
  have shl: "js_shl c 8 = c * 256" "js_shl a 24 = a * 16777216" "js_shl b 16 = b * 65536"
    using assms by (simp_all add: js_shl_eq id)
  have or0: "js_or 0 x = to_int32 x" for x by (simp add: js_or_def to_int32_id is_int32_def)
  have or: "js_or x y = to_int32 (x OR y)" for x y by (rule js_or_eq)
  have cd: "c * 256 OR d = c * 256 + d" using or_shifted_add[of d 8 c] assms by simp
  have ab: "a * 16777216 OR b * 65536 = (a * 256 + b) * 65536" using or_shifted_add[of "b * 65536" 24 a] assms by simp
  have all: "(a * 256 + b) * 65536 OR (c * 256 + d) = (a * 256 + b) * 65536 + (c * 256 + d)"
    using or_shifted_add[of "c * 256 + d" 16 "a * 256 + b"] assms by simp
  have flat: "js_or (js_or x y) z = to_int32 (x OR (y OR z))" for x y z
    by (simp add: js_or_def to_int32_take_bit bit_eq_iff bit_simps)
  have "js_or (js_or (js_or (js_or 0 (js_shl c 8)) d) (js_shl a 24)) (js_shl b 16)
      = to_int32 (js_or (js_or 0 (c * 256)) d OR (a * 16777216 OR b * 65536))" unfolding shl flat ..
  also have "js_or (js_or 0 (c * 256)) d = c * 256 + d" using assms by (simp add: or0 id js_or_eq cd)
  also have "c * 256 + d OR (a * 16777216 OR b * 65536) = (a * 256 + b) * 65536 + (c * 256 + d)"
    unfolding ab using all by (simp add: or.commute)
  finally show ?thesis using assms by (simp add: id)
qed

lemma high_word:
  assumes "0 \<le> h" "h < 268435456"
  shows "js_or (js_or (js_or (js_or 0 (js_shl (h mod 65536 div 256) 8)) (h mod 256)) (js_shl (h div 65536 div 256) 24)) (js_shl (h div 65536 mod 256) 16) = h"
proof -
  have "0 \<le> h div 65536 div 256" "h div 65536 div 256 < 16" using assms by (auto intro!: zdiv_less simp: pos_imp_zdiv_nonneg_iff)
  moreover have "0 \<le> h mod 65536 div 256" "h mod 65536 div 256 < 256" by (auto intro!: zdiv_less simp: pos_imp_zdiv_nonneg_iff)
  ultimately have "js_or (js_or (js_or (js_or 0 (js_shl (h mod 65536 div 256) 8)) (h mod 256)) (js_shl (h div 65536 div 256) 24)) (js_shl (h div 65536 mod 256) 16)
      = (h div 65536 div 256 * 256 + h div 65536 mod 256) * 65536 + (h mod 65536 div 256 * 256 + h mod 256)"
    by (intro join_bytes) simp_all
  moreover have "h mod 65536 div 256 * 256 + h mod 256 = h mod 65536" using div_mult_mod_eq[of "h mod 65536" 256] by (simp add: mod_mod_cancel)
  moreover have "(h div 65536 div 256 * 256 + h div 65536 mod 256) * 65536 + h mod 65536 = h" by (simp only: div_mult_mod_eq)
  ultimately show ?thesis by (simp only:)
qed

text \<open>The bytes of a value below \<open>2 ^ 60\<close>, and what is read from them after the version and the variant are set.\<close>

lemma generated_bytes:
  assumes "v = time_ticks time ticks" "0 \<le> v" "v < 1152921504606846976" "clock = [c0, c1]" "length node = 6"
  shows "set_version (writeTime time ticks @ clock @ node)
    = be_bytes 4 v @ [to_byte (v div 4294967296 mod 65536 div 256), to_byte (v div 4294967296),
        (to_byte (v div 4294967296 div 65536 div 256) AND 0x0f) OR 0x10, to_byte (v div 4294967296 div 65536), (c0 AND 0x3f) OR 0x80, c1] @ node"
proof -
  let ?h = "v div 4294967296"
  have h: "0 \<le> ?h" "?h < 268435456" using assms(2,3) by (auto intro: zdiv_less simp: pos_imp_zdiv_nonneg_iff)
  then have u: "to_uint32 ?h = ?h" "?h mod 4294967296 = ?h" by (simp_all add: to_uint32_def)
  have "?h div 65536 < 65536" using h by (intro zdiv_less) simp_all
  then have u2: "?h div 65536 mod 65536 = ?h div 65536" using h by (simp add: pos_imp_zdiv_nonneg_iff)
  have "be_bytes 4 (to_uint32 v) = be_bytes 4 v" unfolding to_uint32_def by (rule be_bytes_cong) simp
  moreover obtain b0 b1 b2 b3 where b: "be_bytes 4 v = [b0, b1, b2, b3]" by (simp add: eval_nat_numeral)
  moreover have "to_byte (?h mod 65536) = to_byte ?h" by (rule to_byte_cong) (simp add: mod_mod_cancel)
  ultimately show ?thesis
    by (simp add: writeTime_def set_version_def Let_def be_bytes_2 js_arith assms(1)[symmetric] u u2 assms(4) b del: be_bytes.simps)
qed

lemma nibble_back: "0 \<le> x \<Longrightarrow> x < 16 \<Longrightarrow> uint ((to_byte x AND 0x0f) OR 0x10) mod 16 = x"
proof -
  assume x: "0 \<le> x" "x < 16"
  have "uint ((w AND 0x0f) OR 0x10) mod 16 = uint w mod 16" for w :: byte
  proof -
    have "uint ((w AND 0x0f) OR 0x10) mod 16 = ((uint w AND 15) OR 16) mod 16" by (simp add: uint_or uint_and)
    also have "\<dots> = ((uint w AND 15) OR 16) AND 15" using and_mask_mod[of "(uint w AND 15) OR 16" 4] by simp
    also have "\<dots> = uint w AND 15" by (simp add: bit.conj_disj_distrib2 bit.conj_disj_distrib and.assoc)
    also have "\<dots> = uint w mod 16" using and_mask_mod[of "uint w" 4] by simp
    finally show ?thesis .
  qed
  then show ?thesis using x by simp
qed

text \<open>C29: A \<open>TimeUuid\<close> made of a date from 1582 to the year 5236 has the version and the variant of RFC 4122, and its date, ticks,
  node and, but for the bits of the variant, its clock identifier are read back.\<close>

theorem TimeUuid_read_back:
  assumes "0 \<le> time + unixToGregorian" "(time + unixToGregorian) * 10000 + ticks < 1152921504606846976" "0 \<le> ticks" "ticks < 10000"
    "length node = 6" "length clock = 2"
  shows "\<exists>u. TimeUuid_fromDate rnd now s (Some time) (Some ticks) (Bytes_id node) (Bytes_id clock) = (return u, s)
    \<and> getDatePrecision u = (time, ticks) \<and> getNodeId u = node \<and> getClockId u = [(clock ! 0 AND 0x3f) OR 0x80, clock ! 1]
    \<and> uuid_raw u ! 6 AND 0xf0 = 0x10 \<and> uuid_raw u ! 8 AND 0xc0 = 0x80"
proof -
  obtain c0 c1 where c: "clock = [c0, c1]" using assms(6) by (auto simp: length_Suc_conv eval_nat_numeral)
  define v where "v = (time + unixToGregorian) * 10000 + ticks"
  define h where "h = v div 4294967296"
  have v: "v = time_ticks time ticks" unfolding v_def using assms by (intro time_ticks_exact[symmetric]) simp_all
  have v0: "0 \<le> v" "v < 1152921504606846976" using assms by (simp_all add: v_def)
  have h: "0 \<le> h" "h < 268435456" using v0 unfolding h_def by (auto intro: zdiv_less simp: pos_imp_zdiv_nonneg_iff)
  have n: "0 \<le> h div 65536 div 256" "h div 65536 div 256 < 16" using h by (auto intro!: zdiv_less simp: pos_imp_zdiv_nonneg_iff)
  define b where "b = set_version (writeTime time ticks @ clock @ node)"
  have b: "b = be_bytes 4 v @ [to_byte (h mod 65536 div 256), to_byte h, (to_byte (h div 65536 div 256) AND 0x0f) OR 0x10,
      to_byte (h div 65536), (c0 AND 0x3f) OR 0x80, c1] @ node"
    unfolding b_def h_def by (rule generated_bytes[OF v v0 c assms(5)])
  have m: "h mod 65536 div 256 mod 256 = h mod 65536 div 256"
    by (rule mod_pos_pos_trivial) (auto intro: zdiv_less simp: pos_imp_zdiv_nonneg_iff)
  have nth: "b ! 4 = to_byte (h mod 65536 div 256)" "b ! 5 = to_byte h" "b ! 6 = (to_byte (h div 65536 div 256) AND 0x0f) OR 0x10"
      "b ! 7 = to_byte (h div 65536)" "b ! 8 = (c0 AND 0x3f) OR 0x80" "length b = 16" "take 4 b = be_bytes 4 v" "drop 10 b = node" "take 2 (drop 8 b) = [(c0 AND 0x3f) OR 0x80, c1]"
    unfolding b using assms(5) by (simp_all add: nth_append del: be_bytes.simps)
  have at: "js_and (uint (b ! 4)) 255 = h mod 65536 div 256" "js_and (uint (b ! 5)) 255 = h mod 256"
      "js_and (uint (b ! 6)) 15 = h div 65536 div 256" "js_and (uint (b ! 7)) 255 = h div 65536 mod 256"
    by (simp_all only: nth js_and_ff js_and_15 nibble_back[OF n] uint_to_byte m mod_mod_trivial)
  have low: "be_val (take 4 b) = v mod 4294967296" using be_val_be_bytes[of 4 v] by (simp only: nth) simp
  have whole: "h * 4294967296 + v mod 4294967296 = v" unfolding h_def by (rule div_mult_mod_eq)
  have "getDatePrecision (Uuid b) = (v div 10000 - unixToGregorian, v mod 10000)"
    unfolding getDatePrecision_def Let_def Uuid.sel at high_word[OF h] low whole ticksInMs_def ..
  moreover have "(k * 10000 + ticks) div 10000 = k" "(k * 10000 + ticks) mod 10000 = ticks" for k using assms(3,4) by simp_all
  ultimately have "getDatePrecision (Uuid b) = (time, ticks)" unfolding v_def by (simp only: add_diff_cancel_right')
  moreover have "TimeUuid_fromDate rnd now s (Some time) (Some ticks) (Bytes_id node) (Bytes_id clock) = (return (Uuid b), s)"
    using assms nth(6) by (simp add: TimeUuid_fromDate_def generateBuffer_def getTimeWithTicks_def getTicks_def ticksInMs_def Let_def TimeUuid_getNodeId_def
        TimeUuid_getClockId_def id_bytes_def new_Uuid_def b_def[symmetric])
  moreover have "((w AND 0x0f) OR 0x10) AND 0xf0 = 0x10" "((w AND 0x3f) OR 0x80) AND 0xc0 = 0x80" for w :: byte
    by (simp_all add: bit.conj_disj_distrib2 and.assoc)
  ultimately show ?thesis using nth c by (intro exI[of _ "Uuid b"]) (simp add: getNodeId_def getClockId_def)
qed

lemma TimeUuid_read_back_witness:
  "\<exists>u. TimeUuid_fromDate \<lparr>rnd_node = [], rnd_clock = []\<rparr> 0 initial_ticks (Some 1000) (Some 7) (Bytes_id [1, 2, 3, 4, 5, 6]) (Bytes_id [255, 8]) = (return u, initial_ticks)
    \<and> getDatePrecision u = (1000, 7) \<and> getNodeId u = [1, 2, 3, 4, 5, 6] \<and> getClockId u = [0xbf, 8]"
  using TimeUuid_read_back[of 1000 7 "[1, 2, 3, 4, 5, 6]" "[255, 8]" "\<lparr>rnd_node = [], rnd_clock = []\<rparr>" 0 initial_ticks]
  by (auto simp: unixToGregorian_def)

section \<open>The smallest and the largest\<close>

text \<open>The server compares the last eight bytes as signed ones.\<close>

lemma signed_byte: "- 128 \<le> sint (w :: byte)" "sint (w :: byte) \<le> 127"
  using sint_ge[of w] sint_lt[of w] by simp_all

lemma variant_byte: "- 128 \<le> sint (((w :: byte) AND 0x3f) OR 0x80)" "sint (((w :: byte) AND 0x3f) OR 0x80) \<le> - 65"
proof -
  show "- 128 \<le> sint ((w AND 0x3f) OR 0x80)" by (rule signed_byte)
  have "uint ((w AND 0x3f) OR 0x80) = (uint w AND 63) OR 128" by (simp add: uint_or uint_and)
  also have "\<dots> = 128 OR uint w mod 64" using and_mask_mod[of "uint w" 6] by (simp add: or.commute)
  also have "\<dots> = 128 + uint w mod 64" using or_shifted_add[of "uint w mod 64" 7 1] by simp
  finally have "uint ((w AND 0x3f) OR 0x80) = 128 + uint w mod 64" .
  moreover have "sint x = (if uint x < 128 then uint x else uint x - 256)" for x :: byte
    using mod_add_self2[of "uint x - 128" 256] mod_pos_pos_trivial[of "uint x - 128" 256] uint_byte_lt[of x]
    by (cases "uint x < 128") (simp_all add: sint_uint signed_take_bit_eq_take_bit_shift take_bit_eq_mod add.commute)
  moreover obtain m where "uint w mod 64 = m" "0 \<le> m" "m < 64" by simp
  ultimately show "sint ((w AND 0x3f) OR 0x80) \<le> - 65" by simp
qed

lemma list_all2_replicate: "length xs = n \<Longrightarrow> list_all2 P (replicate n a) xs = list_all (P a) xs \<and> list_all2 P xs (replicate n a) = list_all (\<lambda>x. P x a) xs"
  by (induction n arbitrary: xs) (auto simp: length_Suc_conv)

text \<open>C30: Of the identifiers with a given date and ticks, \<open>min\<close> makes the smallest and \<open>max\<close> the largest in the order of the
  server: they agree with every other one in the bytes of the time and bound each further byte as a signed
  number.\<close>

theorem TimeUuid_min_max_bound:
  assumes "TimeUuid_fromDate rnd now s (Some time) (Some ticks) nodeId clockId = (return u, s)" "ticks < 10000"
    "length (rnd_node rnd) = 6" "length (rnd_clock rnd) = 2"
  shows "\<exists>lo hi. TimeUuid_min rnd now s (Some time) (Some ticks) = (return lo, s) \<and> TimeUuid_max rnd now s (Some time) (Some ticks) = (return hi, s)
    \<and> take 8 (uuid_raw lo) = take 8 (uuid_raw u) \<and> take 8 (uuid_raw hi) = take 8 (uuid_raw u)
    \<and> list_all2 (\<lambda>a b. sint a \<le> sint b) (drop 8 (uuid_raw lo)) (drop 8 (uuid_raw u))
    \<and> list_all2 (\<lambda>a b. sint a \<le> sint b) (drop 8 (uuid_raw u)) (drop 8 (uuid_raw hi))"
proof -
  let ?make = "\<lambda>clock node. set_version (writeTime time ticks @ clock @ node)"
  have frm: "TimeUuid_fromDate rnd now s (Some time) (Some ticks) n c
      = (rbind (TimeUuid_getNodeId (rnd_node rnd) n) (\<lambda>node. rbind (TimeUuid_getClockId (rnd_clock rnd) c) (\<lambda>clock. new_Uuid (?make clock node))), s)" for n c
    using assms(2) by (simp add: TimeUuid_fromDate_def generateBuffer_def getTimeWithTicks_def getTicks_def Let_def ticksInMs_def rbind_assoc)
  obtain node clock where nc: "TimeUuid_getNodeId (rnd_node rnd) nodeId = return node" "TimeUuid_getClockId (rnd_clock rnd) clockId = return clock"
      "new_Uuid (?make clock node) = return u"
    using assms(1) unfolding frm by auto
  have len: "length node = 6" "length clock = 2"
    using nc(1,2) assms(3,4) by (auto simp: TimeUuid_getNodeId_def TimeUuid_getClockId_def id_bytes_def Let_def split: uuid_id.splits if_splits)
  have w8: "length (writeTime time ticks) = 8" by (simp add: writeTime_def Let_def del: be_bytes.simps)
  have parts: "take 8 (?make c n) = (writeTime time ticks)[6 := (writeTime time ticks ! 6 AND 0x0f) OR 0x10]"
    "drop 8 (?make c n) = c[0 := (c ! 0 AND 0x3f) OR 0x80] @ n" "length (?make c n) = 16" if "length c = 2" "length n = 6" for c n
    using that w8 by (simp_all add: set_version_def Let_def list_update_append nth_append take_update_cancel)
  have u: "u = Uuid (?make clock node)" using nc(3) by (auto simp: new_Uuid_def split: if_splits)
  have made: "TimeUuid_fromDate rnd now s (Some time) (Some ticks) (Bytes_id (replicate 6 x)) (Bytes_id (replicate 2 x)) = (return (Uuid (?make (replicate 2 x) (replicate 6 x))), s)" for x
    unfolding frm by (simp add: TimeUuid_getNodeId_def TimeUuid_getClockId_def id_bytes_def new_Uuid_def parts(3))
  obtain c0 c1 where c: "clock = [c0, c1]" using len(2) by (auto simp: length_Suc_conv eval_nat_numeral)
  have all: "list_all (\<lambda>x. sint (0x80 :: byte) \<le> sint x) node" "list_all (\<lambda>x. sint x \<le> sint (0x7f :: byte)) node"
    using signed_byte by (simp_all add: list_all_iff)
  have "list_all2 (\<lambda>a b. sint a \<le> sint b) ([0x80 :: byte, 0x80] @ replicate 6 0x80) ([(c0 AND 0x3f) OR 0x80, c1] @ node)"
    "list_all2 (\<lambda>a b. sint a \<le> sint b) ([(c0 AND 0x3f) OR 0x80, c1] @ node) ([0xbf :: byte, 0x7f] @ replicate 6 0x7f)"
    using all signed_byte variant_byte[of c0] list_all2_replicate[OF len(1)] by simp_all
  then show ?thesis
    unfolding TimeUuid_min_def TimeUuid_max_def made u
    using len parts[OF len(2,1)] c by (simp add: parts) (simp add: eval_nat_numeral)
qed

lemma TimeUuid_min_max_bound_witness:
  "\<exists>u lo hi. TimeUuid_fromDate \<lparr>rnd_node = replicate 6 1, rnd_clock = [2, 3]\<rparr> 0 initial_ticks (Some 1000) (Some 7) No_id No_id = (return u, initial_ticks)
    \<and> TimeUuid_min \<lparr>rnd_node = replicate 6 1, rnd_clock = [2, 3]\<rparr> 0 initial_ticks (Some 1000) (Some 7) = (return lo, initial_ticks)
    \<and> TimeUuid_max \<lparr>rnd_node = replicate 6 1, rnd_clock = [2, 3]\<rparr> 0 initial_ticks (Some 1000) (Some 7) = (return hi, initial_ticks)
    \<and> list_all2 (\<lambda>a b. sint a \<le> sint b) (drop 8 (uuid_raw lo)) (drop 8 (uuid_raw u))"
proof -
  let ?r = "\<lparr>rnd_node = replicate 6 1, rnd_clock = [2, 3]\<rparr>"
  have "TimeUuid_fromDate ?r 0 initial_ticks (Some 1000) (Some 7) No_id No_id = (return (Uuid (set_version (writeTime 1000 7 @ [2, 3] @ replicate 6 1))), initial_ticks)"
    by code_simp
  from TimeUuid_min_max_bound[OF this] this show ?thesis by auto
qed

section \<open>Ticks of the current time\<close>

text \<open>Within a millisecond the ticks count up from zero; at 10000 the other counter answers, whose values have been given
  out before.\<close>

lemma current_ticks:
  assumes "tu_lastTimestamp s = now" "0 \<le> tu_ticksForCurrentTime s" "tu_ticksForCurrentTime s < 9999"
  shows "getTimeWithTicks s now None ticks = ((now, tu_ticksForCurrentTime s + 1), s\<lparr>tu_ticksForCurrentTime := tu_ticksForCurrentTime s + 1\<rparr>)"
  using assms by (simp add: getTimeWithTicks_def getTicks_def ticksInMs_def Let_def)

lemma current_ticks_start:
  "tu_lastTimestamp s < now \<Longrightarrow> getTimeWithTicks s now None ticks = ((now, 0), s\<lparr>tu_ticksForCurrentTime := 0, tu_lastTimestamp := now\<rparr>)"
  by (simp add: getTimeWithTicks_def getTicks_def ticksInMs_def Let_def)

lemma current_ticks_repeat:
  "fst (getTimeWithTicks \<lparr>tu_ticks = 0, tu_ticksForCurrentTime = 9999, tu_lastTimestamp = now\<rparr> now None None) = (now, 1)"
  by (simp add: getTimeWithTicks_def getTicks_def ticksInMs_def Let_def)

end
