(* ===== verification/Client_Connection.thy ===== *)
theory Client_Connection
  imports Prelude "HOL-Library.Multiset"
begin

text \<open>
  The connection of \<open>Client\<close> (\<open>lib/client.ts\<close>): \<open>connect\<close> and \<open>shutdown\<close> with every interleaving of their callers and of
  the native driver, which creates the session and holds the logging callbacks. A handler runs without
  interruption up to its next \<open>await\<close>; the native calls that end one are steps of their own.
\<close>

section \<open>The handlers\<close>

type_synonym caller = nat

datatype connect_error = NoHostAvailableError string | Native_error string

datatype answer = Resolved | Rejected connect_error

text \<open>The fields of the client; the logging callbacks registered with the native driver and the sessions it has
  created; who awaits the creation of the session, who the event \<open>connected\<close> in \<open>connect\<close> and in \<open>shutdown\<close>; and the
  promises settled so far.\<close>

record client =
  c_logs :: bool
  c_connected :: bool
  c_connecting :: bool
  c_isShuttingDown :: bool
  c_session :: bool
  c_loggingId :: "nat option"
  c_callbacks :: "nat list"
  c_sessions :: nat
  c_creator :: "caller option"
  c_waiters :: "caller list"
  c_stopping :: "caller list"
  c_answers :: "(caller \<times> answer) list"

text \<open>Whether logging is on is \<open>logLevel !== off\<close> of the options.\<close>

definition new_Client :: "bool \<Rightarrow> client" where
  "new_Client logs = \<lparr>c_logs = logs, c_connected = False, c_connecting = False, c_isShuttingDown = False, c_session = False,
     c_loggingId = None, c_callbacks = [], c_sessions = 0, c_creator = None, c_waiters = [], c_stopping = [], c_answers = []\<rparr>"

definition answer :: "answer \<Rightarrow> caller list \<Rightarrow> client \<Rightarrow> client" where
  "answer a callers s = s\<lparr>c_answers := c_answers s @ map (\<lambda>c. (c, a)) callers\<rparr>"

definition closeLogging :: "client \<Rightarrow> client" where
  "closeLogging s =
     (case c_loggingId s of None \<Rightarrow> s | Some i \<Rightarrow> s\<lparr>c_callbacks := removeAll i (c_callbacks s), c_loggingId := None\<rparr>)"

text \<open>The end of \<open>#shutdown\<close>.\<close>

definition finish_shutdown :: "caller \<Rightarrow> client \<Rightarrow> client" where
  "finish_shutdown c s = answer Resolved [c] (closeLogging (s\<lparr>c_connected := False, c_isShuttingDown := True\<rparr>))"

text \<open>\<open>emit("connected", err)\<close>: the promises of \<open>fromEvent\<close> settle, and those who wait in \<open>shutdown\<close> go on.\<close>

definition emit_connected :: "connect_error option \<Rightarrow> client \<Rightarrow> client" where
  "emit_connected err s =
     (let waiters = c_waiters s; stopping = c_stopping s; s = s\<lparr>c_waiters := [], c_stopping := []\<rparr>
      in case err of
           Some e \<Rightarrow> answer (Rejected e) (waiters @ stopping) s
         | None \<Rightarrow> fold finish_shutdown stopping (answer Resolved waiters s))"

text \<open>The \<open>catch\<close> block of \<open>#connect\<close>, and what follows the creation of the session.\<close>

definition connect_failed :: "caller \<Rightarrow> connect_error \<Rightarrow> client \<Rightarrow> client" where
  "connect_failed c e s =
     answer (Rejected e) [c]
       ((closeLogging (emit_connected (Some e) (s\<lparr>c_connected := False, c_connecting := False\<rparr>)))\<lparr>c_creator := None\<rparr>)"

definition connect_done :: "caller \<Rightarrow> client \<Rightarrow> client" where
  "connect_done c s =
     answer Resolved [c]
       ((emit_connected None (s\<lparr>c_session := True, c_connected := True, c_connecting := False\<rparr>))\<lparr>c_creator := None\<rparr>)"

text \<open>\<open>#connect\<close> up to the call of \<open>createSession\<close>. \<open>setupLogging\<close> answers an id or throws.\<close>

definition connect :: "caller \<Rightarrow> nat option \<Rightarrow> client \<Rightarrow> client" where
  "connect c setupLogging s =
     (if c_connected s then answer Resolved [c] s
      else if c_isShuttingDown s then answer (Rejected (NoHostAvailableError ''Connecting after shutdown is not supported'')) [c] s
      else if c_connecting s then s\<lparr>c_waiters := c_waiters s @ [c]\<rparr>
      else
        let s = s\<lparr>c_connecting := True\<rparr>
        in if \<not> c_logs s then s\<lparr>c_creator := Some c\<rparr>
           else case setupLogging of
                  None \<Rightarrow> connect_failed c (Native_error ''setupLogging'') s
                | Some i \<Rightarrow> s\<lparr>c_loggingId := Some i, c_callbacks := i # c_callbacks s, c_creator := Some c\<rparr>)"

definition session_created :: "client \<Rightarrow> client" where
  "session_created s = (case c_creator s of None \<Rightarrow> s | Some c \<Rightarrow> connect_done c (s\<lparr>c_sessions := Suc (c_sessions s)\<rparr>))"

definition session_failed :: "string \<Rightarrow> client \<Rightarrow> client" where
  "session_failed m s = (case c_creator s of None \<Rightarrow> s | Some c \<Rightarrow> connect_failed c (Native_error m) s)"

definition shutdown :: "caller \<Rightarrow> client \<Rightarrow> client" where
  "shutdown c s =
     (if \<not> c_connected s then answer Resolved [c] s
      else if c_connecting s then s\<lparr>c_stopping := c_stopping s @ [c]\<rparr>
      else finish_shutdown c s)"

section \<open>Reachable states\<close>

text \<open>The calls made so far, of \<open>connect\<close> and \<open>shutdown\<close> together, and the state. An id of a logging callback is not
  in use; the native driver settles only a creation that is under way.\<close>

inductive reachable :: "caller list \<Rightarrow> client \<Rightarrow> bool" where
  start: "reachable [] (new_Client logs)"
| connect: "reachable cs s \<Longrightarrow> (\<And>i. log_id = Some i \<Longrightarrow> i \<notin> set (c_callbacks s)) \<Longrightarrow> reachable (c # cs) (connect c log_id s)"
| created: "reachable cs s \<Longrightarrow> c_creator s \<noteq> None \<Longrightarrow> reachable cs (session_created s)"
| failed: "reachable cs s \<Longrightarrow> c_creator s \<noteq> None \<Longrightarrow> reachable cs (session_failed m s)"
| shutdown: "reachable cs s \<Longrightarrow> reachable (c # cs) (shutdown c s)"

definition pending :: "client \<Rightarrow> caller list" where
  "pending s = (case c_creator s of None \<Rightarrow> [] | Some c \<Rightarrow> [c]) @ c_waiters s"

definition connection_ok :: "client \<Rightarrow> bool" where
  "connection_ok s \<longleftrightarrow>
     \<not> (c_connected s \<and> c_connecting s) \<and> (c_connecting s \<longleftrightarrow> c_creator s \<noteq> None)
     \<and> (c_waiters s \<noteq> [] \<longrightarrow> c_connecting s) \<and> c_stopping s = []
     \<and> (c_isShuttingDown s \<longrightarrow> \<not> c_connected s \<and> \<not> c_connecting s)
     \<and> c_sessions s = (if c_connected s \<or> c_isShuttingDown s then 1 else 0) \<and> (c_connected s \<longrightarrow> c_session s)
     \<and> c_callbacks s = (case c_loggingId s of None \<Rightarrow> [] | Some i \<Rightarrow> [i])
     \<and> (c_loggingId s \<noteq> None \<longleftrightarrow> c_logs s \<and> (c_connected s \<or> c_connecting s))"

lemmas handler_defs = new_Client_def answer_def closeLogging_def finish_shutdown_def emit_connected_def connect_failed_def
  connect_done_def connect_def session_created_def session_failed_def shutdown_def

text \<open>A state whose waiters in \<open>shutdown\<close> are none: what the steps do.\<close>

lemma emit_no_stopping:
  "c_stopping s = [] \<Longrightarrow> emit_connected err s = answer (case err of None \<Rightarrow> Resolved | Some e \<Rightarrow> Rejected e) (c_waiters s) (s\<lparr>c_waiters := [], c_stopping := []\<rparr>)"
  by (cases err) (simp_all add: emit_connected_def Let_def)

lemma connection_ok_answer [simp]: "connection_ok (answer a cs s) = connection_ok s"
  by (simp add: connection_ok_def answer_def)

lemma connect_ok:
  assumes "connection_ok s" shows "connection_ok (connect c log_id s)"
proof (cases "c_connected s \<or> c_isShuttingDown s \<or> c_connecting s")
  case True
  then show ?thesis using assms by (auto simp: connect_def) (simp_all add: connection_ok_def)
next
  case False
  then have "c_waiters s = []" "c_stopping s = []" "c_creator s = None" "c_loggingId s = None" "c_callbacks s = []" "c_sessions s = 0"
    using assms by (auto simp: connection_ok_def)
  then show ?thesis using False
    by (cases log_id) (simp_all add: connect_def Let_def connect_failed_def emit_no_stopping closeLogging_def connection_ok_def answer_def)
qed

lemma session_created_ok:
  assumes "connection_ok s" shows "connection_ok (session_created s)"
proof (cases "c_creator s")
  case (Some c)
  then have "c_connecting s" "\<not> c_connected s" "\<not> c_isShuttingDown s" "c_stopping s = []" "c_sessions s = 0" using assms by (auto simp: connection_ok_def)
  then show ?thesis using Some assms
    by (simp add: session_created_def connect_done_def emit_no_stopping) (simp add: connection_ok_def answer_def)
qed (use assms in \<open>simp add: session_created_def\<close>)

lemma session_failed_ok:
  assumes "connection_ok s" shows "connection_ok (session_failed m s)"
proof (cases "c_creator s")
  case (Some c)
  then have "c_connecting s" "\<not> c_connected s" "\<not> c_isShuttingDown s" "c_stopping s = []" "c_sessions s = 0" using assms by (auto simp: connection_ok_def)
  then show ?thesis using Some assms
    by (cases "c_loggingId s") (simp_all add: session_failed_def connect_failed_def emit_no_stopping closeLogging_def connection_ok_def answer_def)
qed (use assms in \<open>simp add: session_failed_def\<close>)

lemma shutdown_ok:
  assumes "connection_ok s" shows "connection_ok (shutdown c s)"
  using assms by (cases "c_connected s"; cases "c_loggingId s")
    (auto simp: shutdown_def finish_shutdown_def closeLogging_def, auto simp: connection_ok_def)

lemma reachable_ok: "reachable cs s \<Longrightarrow> connection_ok s"
  by (induction rule: reachable.induct)
    (auto simp: connect_ok session_created_ok session_failed_ok shutdown_ok, simp add: new_Client_def connection_ok_def)

text \<open>Every call is settled once or pending.\<close>

definition settled_or_pending :: "client \<Rightarrow> caller multiset" where
  "settled_or_pending s = mset (map fst (c_answers s)) + mset (pending s)"

lemma settled_answer [simp]: "settled_or_pending (answer a cs s) = settled_or_pending s + mset cs"
  by (simp add: settled_or_pending_def answer_def pending_def comp_def)

lemma settled_closeLogging [simp]: "settled_or_pending (closeLogging s) = settled_or_pending s"
  by (simp add: settled_or_pending_def pending_def closeLogging_def split: option.split)

lemma connect_settled: "connection_ok s \<Longrightarrow> settled_or_pending (connect c log_id s) = add_mset c (settled_or_pending s)"
proof -
  assume ok: "connection_ok s"
  show ?thesis
  proof (cases "c_connected s \<or> c_isShuttingDown s \<or> c_connecting s")
    case True
    then show ?thesis by (auto simp: connect_def) (simp add: settled_or_pending_def pending_def)
  next
    case False
    then have "c_waiters s = []" "c_stopping s = []" "c_creator s = None" "c_loggingId s = None" using ok by (auto simp: connection_ok_def)
    then show ?thesis using False
      by (cases log_id) (simp_all add: connect_def Let_def connect_failed_def emit_no_stopping closeLogging_def settled_or_pending_def pending_def answer_def)
  qed
qed

lemma session_settled:
  assumes "connection_ok s"
  shows "settled_or_pending (session_created s) = settled_or_pending s" "settled_or_pending (session_failed m s) = settled_or_pending s"
proof -
  have "c_stopping s = []" using assms by (simp add: connection_ok_def)
  then show "settled_or_pending (session_created s) = settled_or_pending s" "settled_or_pending (session_failed m s) = settled_or_pending s"
    by (simp_all add: session_created_def session_failed_def connect_done_def connect_failed_def emit_no_stopping split: option.split)
      (simp_all add: settled_or_pending_def pending_def answer_def closeLogging_def image_mset.compositionality comp_def split: option.split)
qed

lemma shutdown_settled: "connection_ok s \<Longrightarrow> settled_or_pending (shutdown c s) = add_mset c (settled_or_pending s)"
  by (cases "c_connected s") (simp_all add: shutdown_def finish_shutdown_def connection_ok_def, simp add: settled_or_pending_def pending_def)

lemma reachable_calls: "reachable cs s \<Longrightarrow> settled_or_pending s = mset cs"
proof (induction rule: reachable.induct)
  case (start logs)
  then show ?case by (simp add: new_Client_def settled_or_pending_def pending_def)
qed (simp_all add: reachable_ok connect_settled session_settled shutdown_settled)

text \<open>C4: However calls of \<open>connect\<close> and \<open>shutdown\<close> and the completions of the native driver interleave, the client is never
  connected and connecting at once, at most one session is being created and at most one ever is, a logging
  callback is registered exactly while the client is connecting or connected, after a shutdown it stays closed,
  and every call is settled exactly once or is pending on the one creation under way.\<close>

theorem client_connection_safe:
  assumes "reachable cs s"
  shows "\<not> (c_connected s \<and> c_connecting s) \<and> c_sessions s \<le> 1 \<and> (c_connected s \<longrightarrow> c_session s)
    \<and> (c_isShuttingDown s \<longrightarrow> \<not> c_connected s \<and> pending s = [])
    \<and> length (c_callbacks s) = (if c_logs s \<and> (c_connected s \<or> c_connecting s) then 1 else 0)
    \<and> mset (map fst (c_answers s)) + mset (pending s) = mset cs
    \<and> (pending s \<noteq> [] \<longleftrightarrow> c_creator s \<noteq> None)"
  using reachable_ok[OF assms] reachable_calls[OF assms]
  by (auto simp: connection_ok_def settled_or_pending_def pending_def split: option.splits)

lemma sample_run: "reachable [2, 1] (session_created (connect 2 None (connect 1 (Some 7) (new_Client True))))"
proof (intro reachable.created reachable.connect reachable.start)
qed (simp_all add: new_Client_def connect_def)

lemma client_connection_safe_witness:
  "c_connected (session_created (connect 2 None (connect 1 (Some 7) (new_Client True))))
    \<and> c_answers (session_created (connect 2 None (connect 1 (Some 7) (new_Client True)))) = [(2, Resolved), (1, Resolved)]
    \<and> length (c_callbacks (session_created (connect 2 None (connect 1 (Some 7) (new_Client True))))) = 1"
proof -
  have "c_connected (session_created (connect 2 None (connect 1 (Some 7) (new_Client True))))
    \<and> c_answers (session_created (connect 2 None (connect 1 (Some 7) (new_Client True)))) = [(2, Resolved), (1, Resolved)]
    \<and> c_logs (session_created (connect 2 None (connect 1 (Some 7) (new_Client True))))" by code_simp
  then show ?thesis using client_connection_safe[OF sample_run] by simp
qed

text \<open>C7: The completion of the native call settles everyone who is pending, all with its outcome: after a success
  the client is connected, after a failure the next \<open>connect\<close> starts again.\<close>

theorem connection_settles:
  assumes "reachable cs s" "pending s \<noteq> []"
  shows "pending (session_created s) = [] \<and> c_connected (session_created s)
    \<and> (\<forall>c \<in> set (pending s). (c, Resolved) \<in> set (c_answers (session_created s)))
    \<and> pending (session_failed m s) = [] \<and> \<not> c_connected (session_failed m s)
    \<and> (\<forall>c \<in> set (pending s). (c, Rejected (Native_error m)) \<in> set (c_answers (session_failed m s)))
    \<and> c_creator (connect c (Some i) (session_failed m s)) = Some c"
proof -
  obtain d where d: "c_creator s = Some d" "c_stopping s = []" "\<not> c_isShuttingDown s"
    using assms reachable_ok[OF assms(1)] by (cases "c_creator s") (auto simp: connection_ok_def pending_def)
  have "pending (session_created s) = []" "c_connected (session_created s)"
    "\<forall>c \<in> set (pending s). (c, Resolved) \<in> set (c_answers (session_created s))"
    using d by (simp_all add: session_created_def connect_done_def emit_no_stopping) (auto simp: pending_def answer_def)
  moreover have "pending (session_failed m s) = []" "\<not> c_connected (session_failed m s)" "\<not> c_connecting (session_failed m s)"
      "\<not> c_isShuttingDown (session_failed m s)"
    "\<forall>c \<in> set (pending s). (c, Rejected (Native_error m)) \<in> set (c_answers (session_failed m s))"
    using d by (simp_all add: session_failed_def connect_failed_def emit_no_stopping closeLogging_def answer_def pending_def split: option.split)
  ultimately show ?thesis by (simp add: connect_def Let_def)
qed

lemma connection_settles_witness:
  "pending (connect 2 None (connect 1 (Some 7) (new_Client True))) = [1, 2]
    \<and> (2, Resolved) \<in> set (c_answers (session_created (connect 2 None (connect 1 (Some 7) (new_Client True)))))"
proof -
  have p: "pending (connect 2 None (connect 1 (Some 7) (new_Client True))) = [1, 2]" by code_simp
  have "reachable [2, 1] (connect 2 None (connect 1 (Some 7) (new_Client True)))"
    by (intro reachable.connect reachable.start) (simp_all add: new_Client_def connect_def)
  from connection_settles[OF this] show ?thesis using p by simp
qed

text \<open>C8: A shutdown during the connection is lost: it is settled at once, the client then connects and stays
  connected. The branch of \<open>shutdown\<close> that waits for the connection is never taken.\<close>

theorem shutdown_while_connecting_lost:
  "c_answers (shutdown 2 (connect 1 (Some 7) (new_Client True))) = [(2, Resolved)]
    \<and> c_connected (session_created (shutdown 2 (connect 1 (Some 7) (new_Client True))))
    \<and> \<not> c_isShuttingDown (session_created (shutdown 2 (connect 1 (Some 7) (new_Client True))))
    \<and> (\<nexists>cs s c. reachable cs s \<and> c_stopping (shutdown c s) \<noteq> [])"
proof -
  have "c_stopping (shutdown c s) = []" if "reachable cs s" for cs s c
    using shutdown_ok[OF reachable_ok[OF that]] by (simp add: connection_ok_def)
  moreover have "c_answers (shutdown 2 (connect 1 (Some 7) (new_Client True))) = [(2, Resolved)]
    \<and> c_connected (session_created (shutdown 2 (connect 1 (Some 7) (new_Client True))))
    \<and> \<not> c_isShuttingDown (session_created (shutdown 2 (connect 1 (Some 7) (new_Client True))))" by code_simp
  ultimately show ?thesis by blast
qed

end
