(* ===== verification/Client_Execution.thy ===== *)
theory Client_Execution
  imports Codec_Encode Utils
begin

text \<open>
  The execution of statements by \<open>Client\<close> (\<open>lib/client.ts\<close>, with \<open>lib/types/cql-utils.ts\<close>, \<open>lib/cache.js\<close> and
  \<open>isNamedParameters\<close> of \<open>lib/new-utils.ts\<close>): what is asked of the native driver for a query, a query read page by
  page and a batch. The answers of the native driver are parameters.
\<close>

section \<open>Types and parameters\<close>

text \<open>The type of a bind marker as the native driver gives it. It names every field of a UDT.\<close>

datatype complex_type =
    Simple_type nat
  | Collection_type nat complex_type bool
  | Map_type complex_type complex_type bool
  | Vector_type complex_type int
  | Udt_type string string "(string \<times> complex_type) list" bool
  | Tuple_type "complex_type list"

fun convertComplexType :: "complex_type \<Rightarrow> column_info" where
  "convertComplexType (Simple_type c) = Column_Info c No_info No_options"
| "convertComplexType (Collection_type c t frozen) = Column_Info c (Sub_type (convertComplexType t)) (Frozen frozen)"
| "convertComplexType (Map_type k v frozen) = Column_Info 0x21 (Sub_types [convertComplexType k, convertComplexType v]) (Frozen frozen)"
| "convertComplexType (Vector_type t d) = Column_Info 0x00 (Vector_info (convertComplexType t) (Some d)) No_options"
| "convertComplexType (Udt_type name keyspace fs frozen) =
     Column_Info 0x30 (Udt_info name keyspace (map (\<lambda>(n, t). (n, convertComplexType t)) fs)) (Frozen frozen)"
| "convertComplexType (Tuple_type ts) = Column_Info 0x31 (Sub_types (map convertComplexType ts)) No_options"

text \<open>The parameters of a query: an array, an object or something else. A missing value counts as an empty
  array.\<close>

datatype params = Positional "js_value list" | Named "js_value jsobj" | Other_params

text \<open>\<open>expectedTypes[i]\<close>, also when the hints of a statement are not an array: the characters of a text are taken for
  type names, other values have no elements.\<close>

datatype hints = Hints "hint list" | Single_hint hint

definition hint_at :: "hints \<Rightarrow> nat \<Rightarrow> hint" where
  "hint_at h i =
     (case h of
        Hints hs \<Rightarrow> if i < length hs then hs ! i else No_hint
      | Single_hint (Name_hint s) \<Rightarrow> if i < length s then Name_hint [s ! i] else No_hint
      | Single_hint _ \<Rightarrow> No_hint)"

definition encodeParams :: "runtime \<Rightarrow> encoder \<Rightarrow> hints \<Rightarrow> js_value list \<Rightarrow> encoded list result" where
  "encodeParams rt e expectedTypes ps = rmap (\<lambda>(i, v). encode rt e v (hint_at expectedTypes i)) (zip [0..<length ps] ps)"

record prepared_info =
  pr_types :: "column_info list"
  pr_statement :: string
  pr_boundParamNames :: "string list"

definition prepareStatement :: "(string \<Rightarrow> (complex_type \<times> string) list result) \<Rightarrow> string \<Rightarrow> prepared_info result" where
  "prepareStatement prepare statement =
     rbind (prepare statement) (\<lambda>expectedTypes.
       return \<lparr>pr_types = map (\<lambda>t. convertComplexType (fst t)) expectedTypes, pr_statement = statement,
               pr_boundParamNames = map (\<lambda>t. toLowerCase (snd t)) expectedTypes\<rparr>)"

section \<open>Options\<close>

text \<open>The page state of the options; \<open>hints\<close> as given by the user, whose elements may be arrays themselves.\<close>

datatype options_page_state = No_page_state | Buffer_state buffer | Text_state string | Other_state

datatype hint_item = Hint hint | Hint_list "hint list"

record exec_options =
  eo_prepared :: bool
  eo_autoPage :: bool
  eo_pageState :: options_page_state
  eo_hints :: "hint_item list option"

definition isNamedParameters :: "params \<Rightarrow> exec_options \<Rightarrow> bool result" where
  "isNamedParameters ps opts =
     (case ps of
        Positional vs \<Rightarrow> return False
      | Other_params \<Rightarrow> throw (ArgumentError ''Parameters must be either an array, or named object'')
      | Named o' \<Rightarrow>
          if \<not> eo_prepared opts then throw (ArgumentError ''Named parameters for simple statements are not supported, use prepare flag'')
          else return True)"

text \<open>The page a request starts from: \<open>undefined\<close> when paging is off, \<open>null\<close> for the first page.\<close>

datatype 'w page_arg = Page_undefined | Page_null | Page_wrapper 'w | Page_buffer buffer

definition normalizePagingState :: "(buffer \<Rightarrow> 'w) \<Rightarrow> 'w page_arg \<Rightarrow> exec_options \<Rightarrow> 'w option result" where
  "normalizePagingState fromBuffer pageState opts =
     (case pageState of
        Page_undefined \<Rightarrow> return None
      | Page_wrapper w \<Rightarrow> return (Some w)
      | Page_buffer b \<Rightarrow> return (Some (fromBuffer b))
      | Page_null \<Rightarrow>
          (case eo_pageState opts of
             No_page_state \<Rightarrow> return None
           | Buffer_state b \<Rightarrow> return (Some (fromBuffer b))
           | Text_state s \<Rightarrow> return (Some (fromBuffer (hex_to_bytes s)))
           | Other_state \<Rightarrow> throw (TypeError ''Invalid paging state'')))"

section \<open>A query\<close>

datatype query = Query_text string | Query_prepared prepared_info | Other_query

text \<open>What the native driver is asked: \<open>executeSinglePage\<close>, \<open>executePreparedUnpaged\<close>, \<open>querySinglePage\<close>, \<open>queryUnpaged\<close>.\<close>

datatype 'w request =
    Execute_page string "encoded list" "'w option"
  | Execute_unpaged string "encoded list"
  | Query_page string "encoded list" "'w option"
  | Query_unpaged string "encoded list"

text \<open>The native driver: \<open>connect\<close> of the client, the preparation of a statement, \<open>PagingStateWrapper.fromBuffer\<close>, and
  the rows and the next page state it answers.\<close>

record ('r, 'w) native =
  nv_connect :: "unit result"
  nv_prepare :: "string \<Rightarrow> (complex_type \<times> string) list result"
  nv_fromBuffer :: "buffer \<Rightarrow> 'w"
  nv_answer :: "'w request \<Rightarrow> ('r list \<times> 'w option) result"

definition rustyExecutePrepared :: "runtime \<Rightarrow> encoder \<Rightarrow> ('r, 'w) native \<Rightarrow> query \<Rightarrow> params \<Rightarrow> bool \<Rightarrow> 'w option \<Rightarrow> 'w request result" where
  "rustyExecutePrepared rt e nv query ps paged pageState =
     rbind (case query of
              Query_text s \<Rightarrow> prepareStatement (nv_prepare nv) s
            | Query_prepared p \<Rightarrow> return p
            | Other_query \<Rightarrow> throw (TypeError ''Invalid type for query'')) (\<lambda>prepared.
     rbind (case ps of
              Positional vs \<Rightarrow> return vs
            | Named o' \<Rightarrow> adaptNamedParamsPrepared o' (pr_boundParamNames prepared)
            | Other_params \<Rightarrow> adaptNamedParamsPrepared [] (pr_boundParamNames prepared)) (\<lambda>unifiedParams.
     rbind (encodeParams rt e (Hints (map Type_hint (pr_types prepared))) unifiedParams) (\<lambda>encoded.
       return (if paged then Execute_page (pr_statement prepared) encoded pageState
               else Execute_unpaged (pr_statement prepared) encoded))))"

definition single_hints :: "exec_options \<Rightarrow> hints result" where
  "single_hints opts =
     (case eo_hints opts of
        None \<Rightarrow> return (Hints [])
      | Some [] \<Rightarrow> return (Hints [])
      | Some (Hint_list hs # rest) \<Rightarrow> throw (TypeError ''For single statements expected 1D array of hints'')
      | Some items \<Rightarrow> return (Hints (map (\<lambda>i. case i of Hint h \<Rightarrow> h | Hint_list hs \<Rightarrow> Bad_hint) items)))"

definition rustyExecuteUnprepared :: "runtime \<Rightarrow> encoder \<Rightarrow> query \<Rightarrow> js_value list \<Rightarrow> exec_options \<Rightarrow> bool \<Rightarrow> 'w option \<Rightarrow> 'w request result" where
  "rustyExecuteUnprepared rt e query ps opts paged pageState =
     (case query of
        Query_text s \<Rightarrow>
          rbind (single_hints opts) (\<lambda>hs. rbind (encodeParams rt e hs ps) (\<lambda>encoded.
            return (if paged then Query_page s encoded pageState else Query_unpaged s encoded)))
      | _ \<Rightarrow> throw (GenericError ''Expected to obtain a string query''))"

definition rustyExecute_request :: "runtime \<Rightarrow> encoder \<Rightarrow> ('r, 'w) native \<Rightarrow> query \<Rightarrow> params \<Rightarrow> exec_options \<Rightarrow> 'w page_arg \<Rightarrow> 'w request result" where
  "rustyExecute_request rt e nv query ps opts pageState =
     (let paged = pageState \<noteq> Page_undefined
      in rbind (normalizePagingState (nv_fromBuffer nv) pageState opts) (\<lambda>ps'.
         rbind (isNamedParameters ps opts) (\<lambda>named.
         rbind (nv_connect nv) (\<lambda>u.
           if eo_prepared opts then rustyExecutePrepared rt e nv query ps paged ps'
           else case ps of
                  Positional vs \<Rightarrow> rustyExecuteUnprepared rt e query vs opts paged ps'
                | _ \<Rightarrow> throw (GenericError ''The expression evaluated to a falsy value'')))))"

definition rustyExecute :: "runtime \<Rightarrow> encoder \<Rightarrow> ('r, 'w) native \<Rightarrow> query \<Rightarrow> params \<Rightarrow> exec_options \<Rightarrow> 'w page_arg \<Rightarrow> ('r list \<times> 'w option) result" where
  "rustyExecute rt e nv query ps opts pageState = rbind (rustyExecute_request rt e nv query ps opts pageState) (nv_answer nv)"

section \<open>Reading a query row by row\<close>

text \<open>The calls \<open>eachRow\<close> makes: the row callback with the index in the page, and the final callback with an error or
  with the number of rows and, for manual paging, the state of the next page. The loop runs as long as the
  native driver answers with further pages.\<close>

datatype ('r, 'w) call = Row_callback nat 'r | Callback_error js_error | Callback nat "'w option"

definition row_calls :: "'r list \<Rightarrow> ('r, 'w) call list" where
  "row_calls rows = map (\<lambda>(i, r). Row_callback i r) (zip [0..<length rows] rows)"

partial_function (option) each_page :: "('w page_arg \<Rightarrow> ('r list \<times> 'w option) result) \<Rightarrow> bool \<Rightarrow> 'w page_arg \<Rightarrow> nat \<Rightarrow> ('r, 'w) call list option" where
  "each_page execute autoPage pagingState rowLength =
     (case execute pagingState of
        Inl err \<Rightarrow> Some [Callback_error err]
      | Inr (rows, next) \<Rightarrow>
          let total = rowLength + length rows
          in case next of
               None \<Rightarrow> Some (row_calls rows @ [Callback total None])
             | Some w \<Rightarrow>
                 if autoPage
                 then Option.bind (each_page execute autoPage (Page_wrapper w) total) (\<lambda>calls. Some (row_calls rows @ calls))
                 else Some (row_calls rows @ [Callback total (Some w)]))"

definition eachRow :: "runtime \<Rightarrow> encoder \<Rightarrow> ('r, 'w) native \<Rightarrow> query \<Rightarrow> params \<Rightarrow> exec_options \<Rightarrow> ('r, 'w) call list option" where
  "eachRow rt e nv query ps opts = each_page (rustyExecute rt e nv query ps opts) (eo_autoPage opts) Page_null 0"

section \<open>A batch\<close>

text \<open>An element: a text, an object with a query and parameters, or something falsy. A missing query is empty.\<close>

datatype batch_item = Batch_text string | Batch_object string params | Batch_falsy

definition item_query :: "nat \<Rightarrow> batch_item \<Rightarrow> (string \<times> params) result" where
  "item_query i item =
     (let invalid = throw (ArgumentError (''Invalid query at index '' @ show_nat i))
      in case item of
           Batch_falsy \<Rightarrow> invalid
         | Batch_text s \<Rightarrow> if s = [] then invalid else return (s, Positional [])
         | Batch_object s ps \<Rightarrow> if s = [] then invalid else return (s, ps))"

definition item_types :: "exec_options \<Rightarrow> nat \<Rightarrow> hints" where
  "item_types opts i =
     (case eo_hints opts of
        None \<Rightarrow> Hints []
      | Some items \<Rightarrow> if i < length items then (case items ! i of Hint h \<Rightarrow> Single_hint h | Hint_list hs \<Rightarrow> Hints hs) else Hints [])"

definition prepared_params :: "runtime \<Rightarrow> encoder \<Rightarrow> prepared_info \<Rightarrow> params \<Rightarrow> encoded list result" where
  "prepared_params rt e prepared ps =
     rbind (case ps of Positional vs \<Rightarrow> return vs | Named o' \<Rightarrow> adaptNamedParamsPrepared o' (pr_boundParamNames prepared)
            | Other_params \<Rightarrow> adaptNamedParamsPrepared [] (pr_boundParamNames prepared)) (\<lambda>cleanParams.
       encodeParams rt e (Hints (map Type_hint (pr_types prepared))) cleanParams)"

text \<open>The loop over the queries, with the cache of prepared statements and the statements that the native driver was
  asked to prepare. A statement is not the name of a member of \<open>Object.prototype\<close>.\<close>

fun batch_loop :: "runtime \<Rightarrow> encoder \<Rightarrow> (string \<Rightarrow> (complex_type \<times> string) list result) \<Rightarrow> exec_options \<Rightarrow> nat \<Rightarrow> batch_item list
    \<Rightarrow> prepared_info jsobj \<Rightarrow> string list \<Rightarrow> (string \<times> encoded list) list result \<times> string list" where
  "batch_loop rt e prepare opts i [] cache asked = (return [], asked)"
| "batch_loop rt e prepare opts i (item # items) cache asked =
     (case rbind (item_query i item) (\<lambda>(s, ps). rbind (isNamedParameters ps opts) (\<lambda>named. return (s, ps))) of
        Inl err \<Rightarrow> (Inl err, asked)
      | Inr (s, ps) \<Rightarrow>
          if eo_prepared opts then
            let asked' = (if obj_get cache s = None then asked @ [s] else asked)
            in (case (case obj_get cache s of Some p \<Rightarrow> return p | None \<Rightarrow> prepareStatement prepare s) of
                  Inl err \<Rightarrow> (Inl err, asked')
                | Inr prepared \<Rightarrow>
                    (case prepared_params rt e prepared ps of
                       Inl err \<Rightarrow> (Inl err, asked')
                     | Inr encoded \<Rightarrow>
                         (case batch_loop rt e prepare opts (Suc i) items (obj_set cache s prepared) asked' of
                            (r, asked'') \<Rightarrow> (rbind r (\<lambda>rs. return ((pr_statement prepared, encoded) # rs)), asked''))))
          else
            (case (case ps of Positional vs \<Rightarrow> encodeParams rt e (item_types opts i) vs
                   | _ \<Rightarrow> throw (GenericError ''The expression evaluated to a falsy value'')) of
               Inl err \<Rightarrow> (Inl err, asked)
             | Inr encoded \<Rightarrow>
                 (case batch_loop rt e prepare opts (Suc i) items cache asked of
                    (r, asked'') \<Rightarrow> (rbind r (\<lambda>rs. return ((s, encoded) # rs)), asked''))))"

text \<open>\<open>queries\<close> is \<^const>\<open>None\<close> when it is no array.\<close>

definition rustyBatch :: "runtime \<Rightarrow> encoder \<Rightarrow> ('r, 'w) native \<Rightarrow> batch_item list option \<Rightarrow> exec_options \<Rightarrow> (string \<times> encoded list) list result \<times> string list" where
  "rustyBatch rt e nv queries opts =
     (case queries of
        None \<Rightarrow> (throw (ArgumentError ''Queries should be an Array''), [])
      | Some [] \<Rightarrow> (throw (ArgumentError ''Queries array should not be empty''), [])
      | Some items \<Rightarrow>
          (case nv_connect nv of Inl err \<Rightarrow> (Inl err, []) | Inr u \<Rightarrow> batch_loop rt e (nv_prepare nv) opts 0 items [] []))"

end
