(* ===== verification/Client_Correct.thy ===== *)
theory Client_Correct
  imports Client_Execution Codec_Roundtrip Utils_Correct
begin

text \<open>
  Reading row by row delivers the pages of the native driver in order, and ends exactly when they end; a batch sends
  what it would send without its cache of prepared statements, and prepares no statement twice.
\<close>

section \<open>Pages\<close>

text \<open>The pages that the native driver answers from a page state on, and the error that ends them.\<close>

inductive page_run :: "('w page_arg \<Rightarrow> ('r list \<times> 'w option) result) \<Rightarrow> 'w page_arg \<Rightarrow> 'r list list \<Rightarrow> js_error option \<Rightarrow> bool" for execute where
  failed: "execute st = Inl err \<Longrightarrow> page_run execute st [] (Some err)"
| last: "execute st = Inr (rows, None) \<Longrightarrow> page_run execute st [rows] None"
| more: "execute st = Inr (rows, Some w) \<Longrightarrow> page_run execute (Page_wrapper w) pages err \<Longrightarrow> page_run execute st (rows # pages) err"

definition delivered :: "nat \<Rightarrow> 'r list list \<Rightarrow> js_error option \<Rightarrow> ('r, 'w) call list" where
  "delivered n pages err =
     concat (map row_calls pages) @ [case err of None \<Rightarrow> Callback (n + length (concat pages)) None | Some e \<Rightarrow> Callback_error e]"

lemma page_run_delivers: "page_run execute st pages err \<Longrightarrow> each_page execute True st n = Some (delivered n pages err)"
proof (induction arbitrary: n rule: page_run.induct)
  case (more st rows w pages err)
  then show ?case
    by (subst each_page.simps) (simp add: delivered_def add.assoc split: option.splits)
qed (subst each_page.simps, simp add: delivered_def)+

lemma delivers_page_run:
  assumes "each_page execute auto st n = Some calls"
  shows "auto \<longrightarrow> (\<exists>pages err. page_run execute st pages err)"
proof (rule each_page.raw_induct[where P = "\<lambda>execute auto st n calls. auto \<longrightarrow> (\<exists>pages err. page_run execute st pages err)", OF _ assms], goal_cases)
  case (1 each execute auto st n calls)
  show ?case
  proof (rule impI)
    assume auto
    consider err where "execute st = Inl err" | rows where "execute st = Inr (rows, None)" | rows w where "execute st = Inr (rows, Some w)"
      by (metis sum.exhaust prod.exhaust option.exhaust)
    then show "\<exists>pages err. page_run execute st pages err"
    proof cases
      case (3 rows w)
      then obtain calls' where "each execute auto (Page_wrapper w) (n + length rows) = Some calls'"
        using 1(2) \<open>auto\<close> by (auto simp: Let_def bind_eq_Some_conv)
      from 1(1)[OF this] \<open>auto\<close> obtain pages err where "page_run execute (Page_wrapper w) pages err" by auto
      then show ?thesis using page_run.more[of execute, OF 3] by blast
    qed (blast intro: page_run.intros)+
  qed
qed

lemma page_run_unique: "page_run execute st pages err \<Longrightarrow> page_run execute st pages' err' \<Longrightarrow> pages' = pages \<and> err' = err"
proof (induction arbitrary: pages' err' rule: page_run.induct)
  case (failed st err)
  from failed(2,1) show ?case by cases auto
next
  case (last st rows)
  from last(2,1) show ?case by cases auto
next
  case (more st rows w pages err)
  from more.prems more.hyps(1) more.IH show ?case by cases auto
qed

text \<open>C5: With automatic paging, \<open>eachRow\<close> returns exactly when the pages of the native driver end; it then has called the
  row callback for every row of every page in order, with the index of the row in its page, and the final
  callback once, after them: with the number of all rows, or with the error that ended the pages.\<close>

theorem eachRow_delivers:
  assumes "eo_autoPage opts"
  shows "eachRow rt e nv query ps opts = Some calls \<longleftrightarrow>
    (\<exists>pages err. page_run (rustyExecute rt e nv query ps opts) Page_null pages err
      \<and> calls = concat (map row_calls pages) @ [case err of None \<Rightarrow> Callback (length (concat pages)) None | Some e \<Rightarrow> Callback_error e])"
proof -
  let ?x = "rustyExecute rt e nv query ps opts"
  have eq: "eachRow rt e nv query ps opts = each_page ?x True Page_null 0" using assms by (simp add: eachRow_def)
  have run: "each_page ?x True Page_null 0 = Some (delivered 0 pages err)" if "page_run ?x Page_null pages err" for pages err
    using that by (rule page_run_delivers)
  have "eachRow rt e nv query ps opts = Some calls \<longleftrightarrow> (\<exists>pages err. page_run ?x Page_null pages err \<and> calls = delivered 0 pages err)"
  proof
    assume "eachRow rt e nv query ps opts = Some calls"
    then obtain pages err where "page_run ?x Page_null pages err" using delivers_page_run[of ?x True Page_null 0 calls] eq by auto
    then show "\<exists>pages err. page_run ?x Page_null pages err \<and> calls = delivered 0 pages err"
      using run \<open>eachRow rt e nv query ps opts = Some calls\<close> eq by (intro exI[of _ pages] exI[of _ err]) simp
  qed (auto simp: eq run)
  then show ?thesis by (simp only: delivered_def add_0)
qed

definition sample_pages :: "(nat, nat) native" where
  "sample_pages = \<lparr>nv_connect = return (), nv_prepare = (\<lambda>s. return []), nv_fromBuffer = length,
     nv_answer = (\<lambda>r. case r of Query_page s ps None \<Rightarrow> return ([10, 20], Some 1) | _ \<Rightarrow> return ([30], None))\<rparr>"

definition sample_options :: exec_options where
  "sample_options = \<lparr>eo_prepared = False, eo_autoPage = True, eo_pageState = No_page_state, eo_hints = None\<rparr>"

lemma eachRow_delivers_witness:
  "eachRow plain_runtime plain_encoder sample_pages (Query_text ''SELECT'') (Positional []) sample_options
    = Some [Row_callback 0 10, Row_callback 1 20, Row_callback 0 30, Callback 3 None]"
proof -
  let ?x = "rustyExecute plain_runtime plain_encoder sample_pages (Query_text ''SELECT'') (Positional []) sample_options"
  have "?x Page_null = return ([10, 20], Some 1)" "?x (Page_wrapper 1) = return ([30], None)"
    by (simp_all add: rustyExecute_def rustyExecute_request_def normalizePagingState_def sample_options_def isNamedParameters_def sample_pages_def
        rustyExecuteUnprepared_def single_hints_def encodeParams_def)
  then have "page_run ?x Page_null [[10, 20], [30]] None" by (intro page_run.more[of ?x] page_run.last[of ?x])
  then show ?thesis
    by (subst eachRow_delivers) (auto simp: sample_options_def row_calls_def intro!: exI[of _ "[[10, 20], [30]]"] exI[of _ None])
qed

section \<open>Batches\<close>

text \<open>An element of a batch on its own, with its statement prepared anew.\<close>

definition batch_element :: "runtime \<Rightarrow> encoder \<Rightarrow> (string \<Rightarrow> (complex_type \<times> string) list result) \<Rightarrow> exec_options \<Rightarrow> nat \<times> batch_item \<Rightarrow> (string \<times> encoded list) result" where
  "batch_element rt e prepare opts = (\<lambda>(i, item).
     rbind (item_query i item) (\<lambda>(s, ps). rbind (isNamedParameters ps opts) (\<lambda>named.
       if eo_prepared opts
       then rbind (prepareStatement prepare s) (\<lambda>p. rbind (prepared_params rt e p ps) (\<lambda>encoded. return (s, encoded)))
       else rbind (case ps of Positional vs \<Rightarrow> encodeParams rt e (item_types opts i) vs
                   | _ \<Rightarrow> throw (GenericError ''The expression evaluated to a falsy value'')) (\<lambda>encoded. return (s, encoded)))))"

fun item_text :: "batch_item \<Rightarrow> string" where
  "item_text (Batch_text s) = s"
| "item_text (Batch_object s ps) = s"
| "item_text Batch_falsy = []"

definition cache_ok :: "(string \<Rightarrow> (complex_type \<times> string) list result) \<Rightarrow> prepared_info jsobj \<Rightarrow> string list \<Rightarrow> bool" where
  "cache_ok prepare cache asked \<longleftrightarrow> (\<forall>s p. obj_get cache s = Some p \<longrightarrow> prepareStatement prepare s = return p)
     \<and> distinct asked \<and> set asked = {s. obj_get cache s \<noteq> None}"

lemma prepare_statement_text: "prepareStatement prepare s = return p \<Longrightarrow> pr_statement p = s"
  by (auto simp: prepareStatement_def)

lemma item_query_text: "item_query i it = return (s, ps) \<Longrightarrow> item_text it = s"
  by (cases it) (auto simp: item_query_def Let_def split: if_splits)

lemma is_return_rbind_return [simp]: "is_return (rbind m (\<lambda>x. return (f x))) = is_return m"
  by (cases m) simp_all

lemma cache_lookup:
  assumes "cache_ok prepare cache asked"
  shows "(case obj_get cache s of Some p \<Rightarrow> return p | None \<Rightarrow> prepareStatement prepare s) = prepareStatement prepare s"
  using assms by (auto simp: cache_ok_def split: option.splits)

lemma cache_ok_store:
  assumes "cache_ok prepare cache asked" "prepareStatement prepare s = return p"
  shows "cache_ok prepare (obj_set cache s p) (if obj_get cache s = None then asked @ [s] else asked)"
  using assms by (auto simp: cache_ok_def obj_get_set)

text \<open>What \<open>batch_loop\<close> keeps for the rest of the queries; \<open>asked'\<close> are the statements prepared in the end.\<close>

definition batch_spec :: "runtime \<Rightarrow> encoder \<Rightarrow> (string \<Rightarrow> (complex_type \<times> string) list result) \<Rightarrow> exec_options \<Rightarrow> nat \<Rightarrow> batch_item list \<Rightarrow> string list
    \<Rightarrow> (string \<times> encoded list) list result \<times> string list \<Rightarrow> bool" where
  "batch_spec rt e prepare opts i items asked = (\<lambda>(r, asked').
     r = rmap (batch_element rt e prepare opts) (zip [i..<i + length items] items) \<and> distinct asked'
     \<and> set asked' \<subseteq> set asked \<union> item_text ` set items
     \<and> (if eo_prepared opts then is_return r \<longrightarrow> set asked' = set asked \<union> item_text ` set items else asked' = asked))"

lemma batch_loop_cache: "cache_ok prepare cache asked \<Longrightarrow> batch_spec rt e prepare opts i items asked (batch_loop rt e prepare opts i items cache asked)"
proof (induction items arbitrary: i cache asked)
  case Nil
  then show ?case by (simp add: cache_ok_def batch_spec_def)
next
  case (Cons it items)
  have zip: "zip [i..<i + length (it # items)] (it # items) = (i, it) # zip [Suc i..<Suc i + length items] items"
    by (simp add: upt_conv_Cons del: upt_Suc)
  have dist: "distinct asked" using Cons.prems by (simp add: cache_ok_def)
  let ?q = "rbind (item_query i it) (\<lambda>(s, ps). rbind (isNamedParameters ps opts) (\<lambda>named. return (s, ps)))"
  show ?case
  proof (cases ?q)
    case (Inl err)
    then have "batch_element rt e prepare opts (i, it) = Inl err" by (auto simp: batch_element_def)
    then show ?thesis using dist unfolding batch_spec_def zip batch_loop.simps Inl sum.case by auto
  next
    case (Inr sp)
    obtain s ps where sp: "sp = (s, ps)" by fastforce
    have q: "item_query i it = return (s, ps)" "\<exists>named. isNamedParameters ps opts = return named" using Inr sp by auto
    note tx = item_query_text[OF q(1)]
    show ?thesis
    proof (cases "eo_prepared opts")
      case False
      let ?e = "case ps of Positional vs \<Rightarrow> encodeParams rt e (item_types opts i) vs | _ \<Rightarrow> throw (GenericError ''The expression evaluated to a falsy value'')"
      have el: "batch_element rt e prepare opts (i, it) = rbind ?e (\<lambda>encoded. return (s, encoded))" using q False by (auto simp: batch_element_def)
      obtain r a where l: "batch_loop rt e prepare opts (Suc i) items cache asked = (r, a)" by fastforce
      have IH: "batch_spec rt e prepare opts (Suc i) items asked (r, a)" using Cons.IH[OF Cons.prems, of "Suc i"] l by simp
      show ?thesis using IH dist False unfolding batch_spec_def zip rmap.simps el batch_loop.simps Inr sp sum.case prod.case
        by (cases ?e) (auto simp: l simp del: upt_Suc)
    next
      case True
      let ?a = "if obj_get cache s = None then asked @ [s] else asked"
      have da: "distinct ?a" "set ?a = insert s (set asked)" using Cons.prems by (auto simp: cache_ok_def)
      have el: "batch_element rt e prepare opts (i, it)
          = rbind (prepareStatement prepare s) (\<lambda>p. rbind (prepared_params rt e p ps) (\<lambda>encoded. return (s, encoded)))"
        using q True by (auto simp: batch_element_def)
      show ?thesis
      proof (cases "prepareStatement prepare s")
        case (Inl err)
        then show ?thesis using True da tx unfolding batch_spec_def zip rmap.simps el batch_loop.simps Inr sp sum.case prod.case
          by (auto simp: cache_lookup[OF Cons.prems] Let_def)
      next
        case p: (Inr p)
        obtain r a where l: "batch_loop rt e prepare opts (Suc i) items (obj_set cache s p) ?a = (r, a)" by fastforce
        have IH: "batch_spec rt e prepare opts (Suc i) items ?a (r, a)" using Cons.IH[OF cache_ok_store[OF Cons.prems p], of "Suc i"] l by simp
        show ?thesis using True da tx IH prepare_statement_text[OF p] unfolding batch_spec_def zip rmap.simps el batch_loop.simps Inr sp sum.case prod.case
          by (cases "prepared_params rt e p ps") (auto simp: cache_lookup[OF Cons.prems] Let_def p l simp del: upt_Suc)
      qed
    qed
  qed
qed

text \<open>C6: A batch sends, in the order of its queries, each statement with its parameters encoded by the types of the
  statement, or fails with the first error: the cache of prepared statements changes nothing but that no statement
  is prepared twice.\<close>

theorem batch_request:
  assumes "nv_connect nv = return ()" "items \<noteq> []"
  shows "fst (rustyBatch rt e nv (Some items) opts) = rmap (batch_element rt e (nv_prepare nv) opts) (zip [0..<length items] items)
    \<and> distinct (snd (rustyBatch rt e nv (Some items) opts))
    \<and> (is_return (fst (rustyBatch rt e nv (Some items) opts)) \<longrightarrow>
        set (snd (rustyBatch rt e nv (Some items) opts)) = (if eo_prepared opts then item_text ` set items else {}))"
proof -
  have "rustyBatch rt e nv (Some items) opts = batch_loop rt e (nv_prepare nv) opts 0 items [] []"
    using assms by (cases items) (simp_all add: rustyBatch_def)
  moreover have "batch_spec rt e (nv_prepare nv) opts 0 items [] (batch_loop rt e (nv_prepare nv) opts 0 items [] [])"
    by (rule batch_loop_cache) (simp add: cache_ok_def)
  ultimately show ?thesis by (auto simp: batch_spec_def split: if_splits)
qed

definition sample_native :: "(nat, nat) native" where
  "sample_native = sample_pages\<lparr>nv_prepare := (\<lambda>s. return [(Simple_type 0x09, ''ID'')])\<rparr>"

definition sample_batch :: "batch_item list" where
  "sample_batch = [Batch_object ''INSERT'' (Named [(''Id'', V_number (JInt 1))]), Batch_object ''INSERT'' (Positional [V_number (JInt 2)])]"

lemma batch_request_witness:
  "rustyBatch plain_runtime plain_encoder sample_native (Some sample_batch) (sample_options\<lparr>eo_prepared := True\<rparr>)
      = (return [(''INSERT'', [Bytes [0, 0, 0, 1]]), (''INSERT'', [Bytes [0, 0, 0, 2]])], [''INSERT''])
    \<and> rmap (batch_element plain_runtime plain_encoder (nv_prepare sample_native) (sample_options\<lparr>eo_prepared := True\<rparr>)) (zip [0..<2] sample_batch)
      = return [(''INSERT'', [Bytes [0, 0, 0, 1]]), (''INSERT'', [Bytes [0, 0, 0, 2]])]"
proof -
  have r: "rustyBatch plain_runtime plain_encoder sample_native (Some sample_batch) (sample_options\<lparr>eo_prepared := True\<rparr>)
      = (return [(''INSERT'', [Bytes [0, 0, 0, 1]]), (''INSERT'', [Bytes [0, 0, 0, 2]])], [''INSERT''])"
    by code_simp
  have "nv_connect sample_native = return ()" "sample_batch \<noteq> []" "length sample_batch = 2"
    by (simp_all add: sample_native_def sample_pages_def sample_batch_def)
  then show ?thesis using r batch_request[of sample_native sample_batch plain_runtime plain_encoder "sample_options\<lparr>eo_prepared := True\<rparr>"] by simp
qed

end
