(* ===== verification/Execution_Options.thy ===== *)
theory Execution_Options
  imports Client_Execution
begin

text \<open>
  The options of an execution: \<open>DefaultExecutionOptions\<close> (\<open>lib/execution-options.js\<close>), what of it reaches the native driver
  (\<open>lib/query-options.js\<close>), and the execution profiles (\<open>lib/execution-profile.ts\<close>). Profiles and the array that
  holds them are objects that clients share and change, so they live in a store. Policies are references.
\<close>

section \<open>Options of a query\<close>

text \<open>The options a user may give, and the defaults of the client; \<^const>\<open>None\<close> is \<open>undefined\<close>.\<close>

datatype timestamp_value = T_number int | T_long int | T_bigint int | T_null

datatype profile_arg = Profile_name string | Profile_object nat | No_profile

record query_options =
  qo_autoPage :: "bool option"
  qo_captureStackTrace :: "bool option"
  qo_consistency :: "int option"
  qo_counter :: "bool option"
  qo_customPayload :: "buffer jsobj option"
  qo_executeAs :: "string option"
  qo_executionProfile :: profile_arg
  qo_fetchSize :: "int option"
  qo_hints :: "hint_item list option"
  qo_host :: "nat option"
  qo_isIdempotent :: "bool option"
  qo_keyspace :: "string option"
  qo_logged :: "bool option"
  qo_pageState :: options_page_state
  qo_paged :: "bool option"
  qo_prepare :: "bool option"
  qo_readTimeout :: "int option"
  qo_retry :: "nat option"
  qo_routingIndexes :: "int list option"
  qo_routingKey :: "buffer option"
  qo_routingNames :: "string list option"
  qo_serialConsistency :: "int option"
  qo_timestamp :: "timestamp_value option"
  qo_traceQuery :: "bool option"

definition emptyObject :: query_options where
  "emptyObject = \<lparr>qo_autoPage = None, qo_captureStackTrace = None, qo_consistency = None, qo_counter = None, qo_customPayload = None,
     qo_executeAs = None, qo_executionProfile = No_profile, qo_fetchSize = None, qo_hints = None, qo_host = None, qo_isIdempotent = None,
     qo_keyspace = None, qo_logged = None, qo_pageState = No_page_state, qo_paged = None, qo_prepare = None, qo_readTimeout = None,
     qo_retry = None, qo_routingIndexes = None, qo_routingKey = None, qo_routingNames = None, qo_serialConsistency = None,
     qo_timestamp = None, qo_traceQuery = None\<rparr>"

section \<open>Profiles\<close>

record execution_profile =
  ep_name :: string
  ep_consistency :: "int option"
  ep_loadBalancing :: "nat option"
  ep_readTimeout :: "int option"
  ep_retry :: "nat option"
  ep_serialConsistency :: "int option"

text \<open>The constructor copies the options, when there are any, under the given name.\<close>

definition new_ExecutionProfile :: "string \<Rightarrow> execution_profile option \<Rightarrow> execution_profile" where
  "new_ExecutionProfile name given =
     (case given of
        Some opts \<Rightarrow> opts\<lparr>ep_name := name\<rparr>
      | None \<Rightarrow> \<lparr>ep_name = name, ep_consistency = None, ep_loadBalancing = None, ep_readTimeout = None, ep_retry = None,
                 ep_serialConsistency = None\<rparr>)"

text \<open>The store: the profiles and the arrays of references to them.\<close>

record profile_store =
  ps_profiles :: "execution_profile list"
  ps_arrays :: "nat list list"

text \<open>What the manager reads of the client options: the array of profiles and the policies.\<close>

record client_policies =
  cp_profiles :: "nat option"
  cp_loadBalancing :: "nat option"
  cp_retry :: "nat option"

record profile_manager =
  pm_profiles :: nat
  pm_defaultConfiguredRetryPolicy :: "nat option"
  pm_defaultProfile :: nat
  pm_loadBalancingPolicies :: "nat option list"
  pm_profilesMap :: "nat jsobj"

definition or_else :: "'a option \<Rightarrow> 'a option \<Rightarrow> 'a option" where
  "or_else a b = (case a of Some x \<Rightarrow> Some x | None \<Rightarrow> b)"

definition setAndGetDefault :: "profile_store \<Rightarrow> nat \<Rightarrow> client_policies \<Rightarrow> nat \<times> nat option \<times> profile_store" where
  "setAndGetDefault s arr opts =
     (let found = filter (\<lambda>p. ep_name (ps_profiles s ! p) = ''default'') (ps_arrays s ! arr);
          (d, s) = (case found of
                      p # ps \<Rightarrow> (p, s)
                    | [] \<Rightarrow> (length (ps_profiles s),
                        s\<lparr>ps_profiles := ps_profiles s @ [new_ExecutionProfile ''default'' None],
                          ps_arrays := (ps_arrays s)[arr := ps_arrays s ! arr @ [length (ps_profiles s)]]\<rparr>));
          p = ps_profiles s ! d;
          p' = p\<lparr>ep_loadBalancing := or_else (ep_loadBalancing p) (cp_loadBalancing opts), ep_retry := or_else (ep_retry p) (cp_retry opts)\<rparr>
      in (d, ep_retry p, s\<lparr>ps_profiles := (ps_profiles s)[d := p']\<rparr>))"

text \<open>The loop of the constructor over the profiles.\<close>

fun register_profiles :: "nat \<Rightarrow> nat list \<Rightarrow> profile_store \<Rightarrow> nat option list \<Rightarrow> nat jsobj \<Rightarrow> profile_store \<times> nat option list \<times> nat jsobj" where
  "register_profiles d [] s policies m = (s, policies, m)"
| "register_profiles d (r # rs) s policies m =
     (let p = ps_profiles s ! r;
          lb = or_else (ep_loadBalancing p) (ep_loadBalancing (ps_profiles s ! d));
          s = s\<lparr>ps_profiles := (ps_profiles s)[r := p\<lparr>ep_loadBalancing := lb\<rparr>]\<rparr>
      in register_profiles d rs s (if lb \<in> set policies then policies else policies @ [lb]) (obj_set m (ep_name p) r))"

definition new_ProfileManager :: "profile_store \<Rightarrow> client_policies \<Rightarrow> profile_manager \<times> profile_store" where
  "new_ProfileManager s opts =
     (let (arr, s) = (case cp_profiles opts of Some a \<Rightarrow> (a, s) | None \<Rightarrow> (length (ps_arrays s), s\<lparr>ps_arrays := ps_arrays s @ [[]]\<rparr>));
          (d, retry, s) = setAndGetDefault s arr opts;
          (s, policies, m) = register_profiles d (ps_arrays s ! arr) s [] []
      in (\<lparr>pm_profiles = arr, pm_defaultConfiguredRetryPolicy = retry, pm_defaultProfile = d, pm_loadBalancingPolicies = policies,
           pm_profilesMap = m\<rparr>, s))"

text \<open>\<open>getProfile\<close>; a name is not that of a member of \<open>Object.prototype\<close>.\<close>

definition getProfile :: "profile_manager \<Rightarrow> profile_arg \<Rightarrow> nat option" where
  "getProfile pm a =
     (case a of
        Profile_object r \<Rightarrow> Some r
      | Profile_name n \<Rightarrow> obj_get (pm_profilesMap pm) (if n = [] then ''default'' else n)
      | No_profile \<Rightarrow> obj_get (pm_profilesMap pm) ''default'')"

section \<open>The options of an execution\<close>

record client_view =
  cv_queryOptions :: query_options
  cv_readTimeout :: int
  cv_retry :: "nat option"
  cv_manager :: profile_manager

text \<open>What \<open>queryOptionsIntoWrapper\<close> hands to the native driver.\<close>

datatype rust_timestamp = R_bigint int | R_unconverted timestamp_value

record rust_options =
  ro_autoPage :: "bool option"
  ro_captureStackTrace :: "bool option"
  ro_consistency :: "int option"
  ro_counter :: "bool option"
  ro_fetchSize :: "int option"
  ro_isIdempotent :: "bool option"
  ro_keyspace :: "string option"
  ro_logged :: "bool option"
  ro_prepare :: "bool option"
  ro_readTimeout :: "int option"
  ro_routingIndexes :: "int list option"
  ro_routingNames :: "string list option"
  ro_serialConsistency :: "int option"
  ro_timestamp :: "rust_timestamp option"
  ro_traceQuery :: "bool option"

text \<open>The fields of the object, all private, with the wrapper that is made of them once; the row callback is only kept.\<close>

record default_execution_options =
  de_queryOptions :: query_options
  de_client :: client_view
  de_profile :: nat
  de_routingKey :: "buffer option"
  de_hints :: "hint_item list option"
  de_keyspace :: "string option"
  de_routingIndexes :: "int list option"
  de_pageState :: options_page_state
  de_customPayload :: "buffer jsobj option"
  de_rustWrapper :: "rust_options option"

definition proxyExecuteKey :: string where
  "proxyExecuteKey = ''ProxyExecute''"

definition executeAs_given :: "string option \<Rightarrow> bool" where
  "executeAs_given e \<longleftrightarrow> e \<noteq> None \<and> e \<noteq> Some []"

text \<open>\<open>createCustomPayload\<close>; the name of the user is ASCII.\<close>

definition createCustomPayload :: "query_options \<Rightarrow> query_options \<Rightarrow> buffer jsobj option" where
  "createCustomPayload user defaults =
     (let customPayload = or_else (qo_customPayload user) (qo_customPayload defaults);
          executeAs = (if executeAs_given (qo_executeAs user) then qo_executeAs user else qo_executeAs defaults)
      in if executeAs_given executeAs then
           (let b = map (\<lambda>c. to_byte (of_char c)) (the executeAs)
            in case customPayload of
                 None \<Rightarrow> Some [(proxyExecuteKey, b)]
               | Some ps \<Rightarrow> if obj_get ps proxyExecuteKey = None then Some (obj_set ps proxyExecuteKey b) else Some ps)
         else customPayload)"

definition create_options :: "query_options option \<Rightarrow> client_view \<Rightarrow> default_execution_options result" where
  "create_options user client =
     (let q = (case user of None \<Rightarrow> emptyObject | Some q \<Rightarrow> q)
      in case getProfile (cv_manager client) (qo_executionProfile q) of
           None \<Rightarrow> throw (ArgumentError ''Execution profile not found'')
         | Some p \<Rightarrow> return
             \<lparr>de_queryOptions = q, de_client = client, de_profile = p, de_routingKey = qo_routingKey q, de_hints = qo_hints q,
              de_keyspace = qo_keyspace q, de_routingIndexes = qo_routingIndexes q,
              de_pageState = (case qo_pageState q of Text_state t \<Rightarrow> Buffer_state (hex_to_bytes t) | x \<Rightarrow> x),
              de_customPayload = createCustomPayload q (cv_queryOptions client), de_rustWrapper = None\<rparr>)"

definition options_ifUndefined :: "'a option \<Rightarrow> 'a option \<Rightarrow> 'a option" where
  "options_ifUndefined v1 v2 = (if v1 \<noteq> None then v1 else v2)"

definition options_ifUndefined3 :: "'a option \<Rightarrow> 'a option \<Rightarrow> 'a option \<Rightarrow> 'a option" where
  "options_ifUndefined3 v1 v2 v3 = (if v1 \<noteq> None then v1 else if v2 \<noteq> None then v2 else v3)"

abbreviation "user \<equiv> de_queryOptions"
abbreviation "defaults o' \<equiv> cv_queryOptions (de_client o')"

definition getCaptureStackTrace :: "default_execution_options \<Rightarrow> bool option" where
  "getCaptureStackTrace o' = options_ifUndefined (qo_captureStackTrace (user o')) (qo_captureStackTrace (defaults o'))"

definition getConsistency :: "profile_store \<Rightarrow> default_execution_options \<Rightarrow> int option" where
  "getConsistency s o' = options_ifUndefined3 (qo_consistency (user o')) (ep_consistency (ps_profiles s ! de_profile o')) (qo_consistency (defaults o'))"

definition getFetchSize :: "default_execution_options \<Rightarrow> int option" where
  "getFetchSize o' = options_ifUndefined (qo_fetchSize (user o')) (qo_fetchSize (defaults o'))"

definition isAutoPage :: "default_execution_options \<Rightarrow> bool option" where
  "isAutoPage o' = options_ifUndefined (qo_autoPage (user o')) (qo_autoPage (defaults o'))"

definition isBatchCounter :: "default_execution_options \<Rightarrow> bool option" where
  "isBatchCounter o' = options_ifUndefined (qo_counter (user o')) (Some False)"

definition isBatchLogged :: "default_execution_options \<Rightarrow> bool option" where
  "isBatchLogged o' = options_ifUndefined3 (qo_logged (user o')) (qo_logged (defaults o')) (Some True)"

definition isIdempotent :: "default_execution_options \<Rightarrow> bool option" where
  "isIdempotent o' = options_ifUndefined (qo_isIdempotent (user o')) (qo_isIdempotent (defaults o'))"

definition isPrepared :: "default_execution_options \<Rightarrow> bool option" where
  "isPrepared o' = options_ifUndefined (qo_prepare (user o')) (qo_prepare (defaults o'))"

definition isQueryTracing :: "default_execution_options \<Rightarrow> bool option" where
  "isQueryTracing o' = options_ifUndefined (qo_traceQuery (user o')) (qo_traceQuery (defaults o'))"

definition getLoadBalancingPolicy :: "profile_store \<Rightarrow> default_execution_options \<Rightarrow> nat option" where
  "getLoadBalancingPolicy s o' = ep_loadBalancing (ps_profiles s ! de_profile o')"

definition isPaged :: "default_execution_options \<Rightarrow> bool option" where
  "isPaged o' = options_ifUndefined (qo_paged (user o')) (qo_paged (defaults o'))"

definition getReadTimeout :: "profile_store \<Rightarrow> default_execution_options \<Rightarrow> int option" where
  "getReadTimeout s o' = options_ifUndefined3 (qo_readTimeout (user o')) (ep_readTimeout (ps_profiles s ! de_profile o')) (Some (cv_readTimeout (de_client o')))"

definition getRetryPolicy :: "profile_store \<Rightarrow> default_execution_options \<Rightarrow> nat option" where
  "getRetryPolicy s o' = options_ifUndefined3 (qo_retry (user o')) (ep_retry (ps_profiles s ! de_profile o')) (cv_retry (de_client o'))"

definition getSerialConsistency :: "profile_store \<Rightarrow> default_execution_options \<Rightarrow> int option" where
  "getSerialConsistency s o' =
     options_ifUndefined3 (qo_serialConsistency (user o')) (ep_serialConsistency (ps_profiles s ! de_profile o')) (qo_serialConsistency (defaults o'))"

text \<open>The timestamp of the options, or that of the generator when there is one and the protocol allows it.\<close>

definition getOrGenerateTimestamp :: "bool \<Rightarrow> timestamp_value option \<Rightarrow> default_execution_options \<Rightarrow> timestamp_value" where
  "getOrGenerateTimestamp supportsTimestamp generated o' =
     (let result = (case qo_timestamp (user o') of
                      Some t \<Rightarrow> t
                    | None \<Rightarrow> if supportsTimestamp then (case generated of Some t \<Rightarrow> t | None \<Rightarrow> T_null) else T_null)
      in case result of T_number n \<Rightarrow> T_long n | t \<Rightarrow> t)"

text \<open>The setters.\<close>

definition setCustomPayload :: "buffer jsobj option \<Rightarrow> default_execution_options \<Rightarrow> default_execution_options" where
  "setCustomPayload payload o' = o'\<lparr>de_customPayload := payload\<rparr>"

definition setHints :: "hint_item list option \<Rightarrow> default_execution_options \<Rightarrow> default_execution_options" where
  "setHints h o' = o'\<lparr>de_hints := h\<rparr>"

definition setKeyspace :: "string option \<Rightarrow> default_execution_options \<Rightarrow> default_execution_options" where
  "setKeyspace k o' = o'\<lparr>de_keyspace := k\<rparr>"

definition setPageState :: "options_page_state \<Rightarrow> default_execution_options \<Rightarrow> default_execution_options" where
  "setPageState p o' = o'\<lparr>de_pageState := p\<rparr>"

definition setRoutingIndexes :: "int list option \<Rightarrow> default_execution_options \<Rightarrow> default_execution_options" where
  "setRoutingIndexes r o' = o'\<lparr>de_routingIndexes := r\<rparr>"

definition options_setRoutingKey :: "buffer option \<Rightarrow> default_execution_options \<Rightarrow> default_execution_options" where
  "options_setRoutingKey k o' = o'\<lparr>de_routingKey := k\<rparr>"

section \<open>The wrapper\<close>

text \<open>\<open>counter\<close>, \<open>keyspace\<close>, \<open>logged\<close> and \<open>prepare\<close> are read as properties of the object, which has none of its own: all its
  fields are private.\<close>

definition public_property :: "default_execution_options \<Rightarrow> string \<Rightarrow> 'a option" where
  "public_property o' name = None"

definition wrapper_timestamp :: "timestamp_value option \<Rightarrow> rust_timestamp option" where
  "wrapper_timestamp t =
     (case t of
        None \<Rightarrow> None
      | Some (T_long n) \<Rightarrow> Some (R_bigint n)
      | Some (T_number n) \<Rightarrow> Some (if n \<noteq> 0 then R_bigint n else R_unconverted (T_number n))
      | Some (T_bigint n) \<Rightarrow> Some (R_bigint n)
      | Some T_null \<Rightarrow> Some (R_unconverted T_null))"

definition queryOptionsIntoWrapper :: "profile_store \<Rightarrow> default_execution_options \<Rightarrow> rust_options" where
  "queryOptionsIntoWrapper s o' =
     \<lparr>ro_autoPage = isAutoPage o', ro_captureStackTrace = getCaptureStackTrace o', ro_consistency = getConsistency s o',
      ro_counter = public_property o' ''counter'', ro_fetchSize = getFetchSize o', ro_isIdempotent = isIdempotent o',
      ro_keyspace = public_property o' ''keyspace'', ro_logged = public_property o' ''logged'', ro_prepare = public_property o' ''prepare'',
      ro_readTimeout = getReadTimeout s o', ro_routingIndexes = de_routingIndexes o', ro_routingNames = qo_routingNames (user o'),
      ro_serialConsistency = getSerialConsistency s o', ro_timestamp = wrapper_timestamp (qo_timestamp (user o')), ro_traceQuery = isQueryTracing o'\<rparr>"

definition wrapOptionsIfNotWrappedYet :: "profile_store \<Rightarrow> default_execution_options \<Rightarrow> default_execution_options" where
  "wrapOptionsIfNotWrappedYet s o' =
     (if de_rustWrapper o' = None then o'\<lparr>de_rustWrapper := Some (queryOptionsIntoWrapper s o')\<rparr> else o')"

definition getRustOptions :: "profile_store \<Rightarrow> default_execution_options \<Rightarrow> rust_options \<times> default_execution_options" where
  "getRustOptions s o' = (let o' = wrapOptionsIfNotWrappedYet s o' in (the (de_rustWrapper o'), o'))"

text \<open>\<open>createOptions\<close> of the client takes options of a query or of an execution.\<close>

datatype options_arg = Given_options default_execution_options | Query_options "query_options option"

definition createOptions :: "profile_store \<Rightarrow> options_arg \<Rightarrow> client_view \<Rightarrow> default_execution_options result" where
  "createOptions s a client =
     (case a of
        Given_options o' \<Rightarrow> return (wrapOptionsIfNotWrappedYet s o')
      | Query_options q \<Rightarrow> rbind (create_options q client) (\<lambda>o'. return (wrapOptionsIfNotWrappedYet s o')))"

text \<open>What the execution of a statement reads of the options.\<close>

definition execution_view :: "default_execution_options \<Rightarrow> exec_options" where
  "execution_view o' = \<lparr>eo_prepared = (isPrepared o' = Some True), eo_autoPage = (isAutoPage o' = Some True), eo_pageState = de_pageState o', eo_hints = de_hints o'\<rparr>"

end
