(* ===== verification/Options_Correct.thy ===== *)
theory Options_Correct
  imports Execution_Options Utils_Correct
begin

text \<open>
  Every profile a client knows has a load balancing policy, and the default profile is always found; and what is lost
  between the options, the profiles that clients share and the native driver.
\<close>

section \<open>Profiles are complete\<close>

definition store_ok :: "profile_store \<Rightarrow> client_policies \<Rightarrow> bool" where
  "store_ok s opts \<longleftrightarrow> (case cp_profiles opts of None \<Rightarrow> True | Some a \<Rightarrow> a < length (ps_arrays s) \<and> (\<forall>r \<in> set (ps_arrays s ! a). r < length (ps_profiles s)))"

text \<open>The loop over the profiles: every reference it has passed has a policy, which is registered, and a name.\<close>

lemma register_profiles_keeps:
  "register_profiles d rs s policies m = (s', policies', m') \<Longrightarrow>
    ps_arrays s' = ps_arrays s \<and> length (ps_profiles s') = length (ps_profiles s) \<and> set policies \<subseteq> set policies' \<and> (distinct policies \<longrightarrow> distinct policies')
    \<and> (\<forall>r < length (ps_profiles s). ep_name (ps_profiles s' ! r) = ep_name (ps_profiles s ! r)
        \<and> (ep_loadBalancing (ps_profiles s ! r) \<noteq> None \<longrightarrow> ep_loadBalancing (ps_profiles s' ! r) = ep_loadBalancing (ps_profiles s ! r)))
    \<and> (\<forall>n. obj_get m n \<noteq> None \<longrightarrow> obj_get m' n \<noteq> None)"
proof (induction d rs s policies m rule: register_profiles.induct)
  case (2 d r rs s policies m)
  let ?p = "ps_profiles s ! r"
  let ?lb = "or_else (ep_loadBalancing ?p) (ep_loadBalancing (ps_profiles s ! d))"
  let ?s = "s\<lparr>ps_profiles := (ps_profiles s)[r := ?p\<lparr>ep_loadBalancing := ?lb\<rparr>]\<rparr>"
  have "register_profiles d rs ?s (if ?lb \<in> set policies then policies else policies @ [?lb]) (obj_set m (ep_name ?p) r) = (s', policies', m')"
    using 2(2) by (simp add: Let_def)
  note IH = 2(1)[OF refl refl refl this]
  have upd: "ep_name (ps_profiles ?s ! q) = ep_name (ps_profiles s ! q)"
      "ep_loadBalancing (ps_profiles s ! q) \<noteq> None \<Longrightarrow> ep_loadBalancing (ps_profiles ?s ! q) = ep_loadBalancing (ps_profiles s ! q)"
    if "q < length (ps_profiles s)" for q using that by (cases "r = q"; auto simp: or_else_def)+
  have "ep_name (ps_profiles s' ! q) = ep_name (ps_profiles s ! q)"
      "ep_loadBalancing (ps_profiles s ! q) \<noteq> None \<Longrightarrow> ep_loadBalancing (ps_profiles s' ! q) = ep_loadBalancing (ps_profiles s ! q)"
    if "q < length (ps_profiles s)" for q using IH upd[OF that] that by auto
  moreover have "set policies \<subseteq> set policies'" "distinct policies \<longrightarrow> distinct policies'" using IH by (auto split: if_splits)
  moreover have "obj_get m n \<noteq> None \<longrightarrow> obj_get m' n \<noteq> None" for n using IH by (auto simp: obj_get_set)
  moreover have "ps_arrays s' = ps_arrays s" "length (ps_profiles s') = length (ps_profiles s)" using IH by simp_all
  ultimately show ?case by blast
qed simp

lemma register_profiles_covers:
  assumes "register_profiles d rs s policies m = (s', policies', m')" "\<forall>r \<in> set rs. r < length (ps_profiles s)" "d < length (ps_profiles s)"
    "ep_loadBalancing (ps_profiles s ! d) \<noteq> None" "r \<in> set rs"
  shows "(\<exists>l. ep_loadBalancing (ps_profiles s' ! r) = Some l \<and> Some l \<in> set policies') \<and> obj_get m' (ep_name (ps_profiles s' ! r)) \<noteq> None"
  using assms
proof (induction d rs s policies m rule: register_profiles.induct)
  case (2 d q rs s policies m)
  let ?p = "ps_profiles s ! q"
  let ?lb = "or_else (ep_loadBalancing ?p) (ep_loadBalancing (ps_profiles s ! d))"
  let ?s = "s\<lparr>ps_profiles := (ps_profiles s)[q := ?p\<lparr>ep_loadBalancing := ?lb\<rparr>]\<rparr>"
  have step: "register_profiles d rs ?s (if ?lb \<in> set policies then policies else policies @ [?lb]) (obj_set m (ep_name ?p) q) = (s', policies', m')"
    using 2(2) by (simp add: Let_def)
  obtain l where l: "?lb = Some l" using 2(5) by (cases "ep_loadBalancing ?p") (auto simp: or_else_def)
  show ?case
  proof (cases "r \<in> set rs")
    case True
    have "ep_loadBalancing (ps_profiles ?s ! d) \<noteq> None" using 2(4,5) l by (cases "q = d") simp_all
    from 2(1)[OF refl refl refl step _ _ this True] show ?thesis using 2(3,4) by simp
  next
    case False
    then have r: "r = q" "q < length (ps_profiles s)" using 2(3,6) by auto
    show ?thesis using register_profiles_keeps[OF step] l r by (auto simp: obj_get_set split: if_splits)
  qed
qed simp

lemma setAndGetDefault_ok:
  assumes "setAndGetDefault s arr opts = (d, retry, s')" "arr < length (ps_arrays s)" "\<forall>r \<in> set (ps_arrays s ! arr). r < length (ps_profiles s)"
    "cp_loadBalancing opts \<noteq> None"
  shows "d \<in> set (ps_arrays s' ! arr) \<and> (\<forall>r \<in> set (ps_arrays s' ! arr). r < length (ps_profiles s'))
    \<and> ep_name (ps_profiles s' ! d) = ''default'' \<and> ep_loadBalancing (ps_profiles s' ! d) \<noteq> None"
proof (cases "filter (\<lambda>p. ep_name (ps_profiles s ! p) = ''default'') (ps_arrays s ! arr)")
  case Nil
  then show ?thesis using assms by (auto simp: setAndGetDefault_def Let_def or_else_def new_ExecutionProfile_def less_Suc_eq)
next
  case (Cons p ps)
  then have "p \<in> set (filter (\<lambda>p. ep_name (ps_profiles s ! p) = ''default'') (ps_arrays s ! arr))" by simp
  then have "p \<in> set (ps_arrays s ! arr)" "ep_name (ps_profiles s ! p) = ''default''" by simp_all
  then show ?thesis using assms Cons by (auto simp: setAndGetDefault_def Let_def or_else_def split: option.splits)
qed


definition sample_store :: profile_store where
  "sample_store = \<lparr>ps_profiles = [new_ExecutionProfile ''oltp'' None], ps_arrays = [[0]]\<rparr>"

definition sample_client :: client_view where
  "sample_client = \<lparr>cv_queryOptions = emptyObject, cv_readTimeout = 12000, cv_retry = None,
     cv_manager = \<lparr>pm_profiles = 0, pm_defaultConfiguredRetryPolicy = None, pm_defaultProfile = 0, pm_loadBalancingPolicies = [], pm_profilesMap = []\<rparr>\<rparr>"

abbreviation policies_of :: "nat \<Rightarrow> client_policies" where
  "policies_of lb \<equiv> \<lparr>cp_profiles = Some 0, cp_loadBalancing = Some lb, cp_retry = None\<rparr>"


section \<open>What is lost\<close>

lemma created_options:
  assumes "createOptions s (Query_options q) c = return o'"
  shows "\<exists>d. create_options q c = return d \<and> de_rustWrapper d = None \<and> o' = d\<lparr>de_rustWrapper := Some (queryOptionsIntoWrapper s d)\<rparr>"
  using assms by (auto simp: createOptions_def create_options_def wrapOptionsIfNotWrappedYet_def Let_def split: option.splits)

lemma wrapped_options: "de_rustWrapper o' = Some w \<Longrightarrow> fst (getRustOptions s o') = w"
  by (simp add: getRustOptions_def wrapOptionsIfNotWrappedYet_def)



text \<open>The options are looked up in the query, then the profile, then the client; a wrapped timestamp is that of the
  options, so a generated one is never sent.\<close>

lemma wrapper_values:
  "ro_consistency (queryOptionsIntoWrapper s o') =
     (case qo_consistency (user o') of Some c \<Rightarrow> Some c
      | None \<Rightarrow> (case ep_consistency (ps_profiles s ! de_profile o') of Some c \<Rightarrow> Some c | None \<Rightarrow> qo_consistency (defaults o')))"
  "qo_timestamp (user o') = None \<Longrightarrow> ro_timestamp (queryOptionsIntoWrapper s o') = None"
  by (simp_all add: queryOptionsIntoWrapper_def getConsistency_def options_ifUndefined3_def wrapper_timestamp_def split: option.split)

end
