(* ===== verification/Protocol_Version.thy ===== *)
theory Protocol_Version
  imports Cql_Scalars_Correct
begin

text \<open>
  Version numbers (\<open>lib/types/version-number.ts\<close>) and the protocol version that the hosts of a cluster have in common
  (\<open>lib/types/protocol-version.js\<close>). The numbers in a version are small enough to be exact.
\<close>

section \<open>Version numbers\<close>

record version_number =
  vn_major :: nat
  vn_minor :: nat
  vn_patch :: "nat option"
  vn_dsePatch :: "nat option"
  vn_preReleases :: "string list option"
  vn_build :: "string option"

definition VersionNumber_toString :: "version_number \<Rightarrow> string" where
  "VersionNumber_toString v =
     show_nat (vn_major v) @ ''.'' @ show_nat (vn_minor v)
     @ (case vn_patch v of None \<Rightarrow> [] | Some p \<Rightarrow> ''.'' @ show_nat p)
     @ (case vn_dsePatch v of None \<Rightarrow> [] | Some p \<Rightarrow> ''.'' @ show_nat p)
     @ (case vn_preReleases v of None \<Rightarrow> [] | Some ps \<Rightarrow> concat (map (\<lambda>p. ''-'' @ p) ps))
     @ (case vn_build v of None \<Rightarrow> [] | Some b \<Rightarrow> if b = [] then [] else ''+'' @ b)"

definition VersionNumber_compare :: "version_number \<Rightarrow> version_number \<Rightarrow> int" where
  "VersionNumber_compare v other =
     (if vn_major v < vn_major other then - 1
      else if vn_major v > vn_major other then 1
      else if vn_minor v < vn_minor other then - 1
      else if vn_minor v > vn_minor other then 1
      else
        let thisPatch = (case vn_patch v of Some p \<Rightarrow> p | None \<Rightarrow> 0);
            otherPatch = (case vn_patch other of Some p \<Rightarrow> p | None \<Rightarrow> 0);
            dse = (case (vn_dsePatch v, vn_dsePatch other) of
                     (None, None) \<Rightarrow> 0
                   | (None, Some q) \<Rightarrow> - 1
                   | (Some p, None) \<Rightarrow> 1
                   | (Some p, Some q) \<Rightarrow> if p < q then - 1 else if p > q then 1 else 0)
        in if thisPatch < otherPatch then - 1
           else if thisPatch > otherPatch then 1
           else if dse \<noteq> 0 then dse
           else case (vn_preReleases v, vn_preReleases other) of
                  (None, Some q) \<Rightarrow> 1
                | (Some p, None) \<Rightarrow> - 1
                | _ \<Rightarrow> 0)"

text \<open>The pattern at one position. Its parts are greedy, and what follows a part never begins with what the part could
  have left, so it is read from left to right without going back.\<close>

definition is_word :: "char \<Rightarrow> bool" where
  "is_word c \<longleftrightarrow> is_digit c \<or> (of_char c :: nat) \<in> {97..122} \<or> (of_char c :: nat) \<in> {65..90} \<or> c = CHR ''_''"

definition dot_word :: "char \<Rightarrow> bool" where
  "dot_word c \<longleftrightarrow> is_word c \<or> c = CHR ''.''"

definition plus_word :: "char \<Rightarrow> bool" where
  "plus_word c \<longleftrightarrow> is_word c \<or> c = CHR ''+''"

definition number :: "string \<Rightarrow> nat option" where
  "number s = (if s = [] then None else Some (nat (digits_val s)))"

text \<open>\<open>(?:-\w[.\w]*)*\<close>: what it matches and what is left.\<close>

function more_labels :: "string \<Rightarrow> string \<times> string" where
  "more_labels s =
     (case s of
        d # c # r \<Rightarrow>
          if d = CHR ''-'' \<and> is_word c
          then (case more_labels (dropWhile dot_word r) of (m, rest) \<Rightarrow> (d # c # takeWhile dot_word r @ m, rest))
          else ([], s)
      | _ \<Rightarrow> ([], s))"
  by pat_completeness auto
termination
proof (relation "measure length")
  fix s d r c x
  show "(dropWhile dot_word x, s) \<in> measure length" if "s = d # r" "r = c # x" for x using that length_dropWhile_le[of dot_word x] by simp
qed simp

declare more_labels.simps [simp del]

definition match_patch :: "string \<Rightarrow> nat option \<times> string" where
  "match_patch s =
     (case s of
        c # r \<Rightarrow> if c = CHR ''.'' \<and> takeWhile is_digit r \<noteq> [] then (number (takeWhile is_digit r), dropWhile is_digit r) else (None, s)
      | [] \<Rightarrow> (None, s))"

definition match_dsePatch :: "string \<Rightarrow> nat option \<times> string" where
  "match_dsePatch s =
     (case s of c # r \<Rightarrow> if c = CHR ''.'' then (number (takeWhile is_digit r), dropWhile is_digit r) else (None, s) | [] \<Rightarrow> (None, s))"

definition match_preReleases :: "string \<Rightarrow> string list option \<times> string" where
  "match_preReleases s =
     (case s of
        c # r \<Rightarrow>
          if c = CHR ''-'' \<or> c = CHR ''~''
          then (case more_labels (dropWhile plus_word r) of
                  (m, rest) \<Rightarrow> (let labels = takeWhile plus_word r @ m in (if labels = [] then None else Some (split_at (CHR ''-'') labels), rest)))
          else (None, s)
      | [] \<Rightarrow> (None, s))"

definition match_build :: "string \<Rightarrow> string option" where
  "match_build s =
     (case s of c # r \<Rightarrow> if c = CHR ''+'' \<and> takeWhile dot_word r \<noteq> [] then Some (takeWhile dot_word r) else None | [] \<Rightarrow> None)"

definition match_version :: "string \<Rightarrow> version_number option" where
  "match_version s =
     (let major = takeWhile is_digit s
      in case dropWhile is_digit s of
           c # r \<Rightarrow>
             if c = CHR ''.'' \<and> major \<noteq> [] \<and> takeWhile is_digit r \<noteq> []
             then (case match_patch (dropWhile is_digit r) of (patch, r1) \<Rightarrow>
                  (case match_dsePatch r1 of (dsePatch, r2) \<Rightarrow>
                  (case match_preReleases r2 of (preReleases, r3) \<Rightarrow>
                    Some \<lparr>vn_major = nat (digits_val major), vn_minor = nat (digits_val (takeWhile is_digit r)), vn_patch = patch, vn_dsePatch = dsePatch,
                          vn_preReleases = preReleases, vn_build = match_build r3\<rparr>)))
             else None
         | [] \<Rightarrow> None)"

fun find_version :: "string \<Rightarrow> version_number option" where
  "find_version [] = None"
| "find_version (c # s) = (case match_version (c # s) of Some v \<Rightarrow> Some v | None \<Rightarrow> find_version s)"

definition VersionNumber_parse :: "string \<Rightarrow> version_number option result" where
  "VersionNumber_parse version =
     (if version = [] then return None
      else case find_version version of
             Some v \<Rightarrow> return (Some v)
           | None \<Rightarrow> throw (TypeError (''Could not extract version from '' @ quoted version)))"

section \<open>Printing and parsing\<close>

text \<open>Versions whose text is unambiguous: a DSE patch follows a patch, the labels are words, and a build does not follow a
  single label, which takes it in.\<close>

definition label_ok :: "string \<Rightarrow> bool" where
  "label_ok q \<longleftrightarrow> q \<noteq> [] \<and> is_word (hd q) \<and> list_all dot_word (tl q)"

definition version_ok :: "version_number \<Rightarrow> bool" where
  "version_ok v \<longleftrightarrow>
     (vn_dsePatch v \<noteq> None \<longrightarrow> vn_patch v \<noteq> None)
     \<and> (case vn_preReleases v of
          None \<Rightarrow> True
        | Some [] \<Rightarrow> False
        | Some (p # ps) \<Rightarrow> p \<noteq> [] \<and> list_all plus_word p \<and> list_all label_ok ps \<and> (ps = [] \<longrightarrow> vn_build v = None))
     \<and> (case vn_build v of None \<Rightarrow> True | Some b \<Rightarrow> b \<noteq> [] \<and> list_all dot_word b)"

definition build_text :: "string option \<Rightarrow> string" where
  "build_text b = (case b of None \<Rightarrow> [] | Some b \<Rightarrow> if b = [] then [] else ''+'' @ b)"

definition labels_text :: "string list \<Rightarrow> string" where
  "labels_text ps = concat (map (\<lambda>p. ''-'' @ p) ps)"

definition pre_text :: "string list option \<Rightarrow> string" where
  "pre_text ps = (case ps of None \<Rightarrow> [] | Some ps \<Rightarrow> labels_text ps)"

definition patch_text :: "nat option \<Rightarrow> string" where
  "patch_text p = (case p of None \<Rightarrow> [] | Some p \<Rightarrow> ''.'' @ show_nat p)"

lemma toString_parts:
  "VersionNumber_toString v = show_nat (vn_major v) @ ''.'' @ show_nat (vn_minor v) @ patch_text (vn_patch v) @ patch_text (vn_dsePatch v)
     @ pre_text (vn_preReleases v) @ build_text (vn_build v)"
proof -
  have "(@) ''-'' = (#) (CHR ''-'')" by (rule ext) simp
  then show ?thesis by (simp add: VersionNumber_toString_def patch_text_def pre_text_def labels_text_def build_text_def split: option.split)
qed

text \<open>What follows a part does not go on with its characters.\<close>

definition stops :: "(char \<Rightarrow> bool) \<Rightarrow> string \<Rightarrow> bool" where
  "stops P r \<longleftrightarrow> r = [] \<or> \<not> P (hd r)"

lemma span_stops: "list_all P a \<Longrightarrow> stops P r \<Longrightarrow> takeWhile P (a @ r) = a \<and> dropWhile P (a @ r) = r"
  by (induction a) (cases r; auto simp: stops_def)+

lemma marks: "\<not> is_digit (CHR ''.'')" "\<not> is_digit (CHR ''-'')" "\<not> is_digit (CHR ''+'')" "\<not> is_word (CHR ''-'')" "\<not> is_word (CHR ''+'')" "\<not> is_word (CHR ''.'')"
  by code_simp+

lemma span_number: "stops is_digit r \<Longrightarrow> takeWhile is_digit (show_nat n @ r) = show_nat n \<and> dropWhile is_digit (show_nat n @ r) = r"
  by (rule span_stops[OF show_nat_digits])

lemma number_show [simp]: "number (show_nat n) = Some n"
  by (simp add: number_def)

definition build_ok :: "string option \<Rightarrow> bool" where
  "build_ok b = (case b of None \<Rightarrow> True | Some b \<Rightarrow> b \<noteq> [] \<and> list_all dot_word b)"

lemma build_back: "build_ok b \<Longrightarrow> match_build (build_text b) = b"
  by (cases b) (auto simp: build_ok_def build_text_def match_build_def list_all_iff takeWhile_eq_all_conv[THEN iffD2])

lemma labels_stop: "stops dot_word (labels_text ps @ build_text b)" "stops is_digit (labels_text ps @ build_text b)" "ps \<noteq> [] \<or> b = None \<Longrightarrow> stops plus_word (labels_text ps @ build_text b)"
  by (cases ps; cases b; auto simp: stops_def labels_text_def build_text_def dot_word_def plus_word_def marks)+

lemma labels_back: "list_all label_ok ps \<Longrightarrow> more_labels (labels_text ps @ build_text b) = (labels_text ps, build_text b)"
proof (induction ps)
  case Nil
  then show ?case by (subst more_labels.simps) (auto simp: labels_text_def build_text_def split: option.split list.split)
next
  case (Cons q ps)
  obtain c r where q: "q = c # r" "is_word c" "list_all dot_word r" using Cons.prems by (cases q) (auto simp: label_ok_def)
  have "labels_text (q # ps) @ build_text b = CHR ''-'' # c # r @ (labels_text ps @ build_text b)" by (simp add: labels_text_def q)
  moreover have "takeWhile dot_word (r @ (labels_text ps @ build_text b)) = r \<and> dropWhile dot_word (r @ (labels_text ps @ build_text b)) = labels_text ps @ build_text b"
    by (rule span_stops[OF q(3) labels_stop(1)])
  ultimately show ?case using Cons q(2) by (subst more_labels.simps) (simp add: labels_text_def q)
qed

lemma labels_split:
  "CHR ''-'' \<notin> set p \<Longrightarrow> list_all label_ok ps \<Longrightarrow> split_at (CHR ''-'') (p @ labels_text ps) = p # ps"
proof (induction ps arbitrary: p)
  case (Cons q ps)
  have "CHR ''-'' \<notin> set q" using Cons.prems marks by (cases q) (auto simp: label_ok_def list_all_iff dot_word_def)
  then show ?case using Cons split_at_Cons[of "CHR ''-''" p "q @ labels_text ps"] by (simp add: labels_text_def)
qed (simp add: labels_text_def split_at_none)

lemma pre_back:
  assumes "version_ok v"
  shows "match_preReleases (pre_text (vn_preReleases v) @ build_text (vn_build v)) = (vn_preReleases v, build_text (vn_build v))"
proof (cases "vn_preReleases v")
  case None
  then show ?thesis by (auto simp: pre_text_def match_preReleases_def build_text_def split: option.split list.split)
next
  case (Some ls)
  then obtain p ps where ls: "ls = p # ps" "p \<noteq> []" "list_all plus_word p" "list_all label_ok ps" "ps \<noteq> [] \<or> vn_build v = None"
    using assms by (cases ls) (auto simp: version_ok_def)
  let ?r = "labels_text ps @ build_text (vn_build v)"
  have "takeWhile plus_word (p @ ?r) = p \<and> dropWhile plus_word (p @ ?r) = ?r" by (rule span_stops[OF ls(3) labels_stop(3)[OF ls(5)]])
  moreover have "CHR ''-'' \<notin> set p" using ls(3) marks by (auto simp: list_all_iff plus_word_def)
  moreover have "pre_text (vn_preReleases v) @ build_text (vn_build v) = CHR ''-'' # p @ ?r" by (simp add: pre_text_def labels_text_def Some ls(1))
  ultimately show ?thesis using ls(2) labels_back[OF ls(4), of "vn_build v"] labels_split[OF _ ls(4)] by (simp add: match_preReleases_def Some ls(1))
qed

text \<open>The text of a version number is parsed back, if a DSE patch follows a patch, the labels are words and a build follows
  no label or several; after a single label \<open>parse\<close> takes the build for a part of the label.\<close>

theorem VersionNumber_round_trip:
  assumes "version_ok v"
  shows "VersionNumber_parse (VersionNumber_toString v) = return (Some v)"
proof -
  let ?r3 = "pre_text (vn_preReleases v) @ build_text (vn_build v)"
  let ?r2 = "patch_text (vn_dsePatch v) @ ?r3" and ?b = "build_text (vn_build v)"
  have nodot: "stops is_digit ?r3" "?r3 = [] \<or> hd ?r3 \<noteq> CHR ''.''"
    using labels_stop(2)[of "case vn_preReleases v of None \<Rightarrow> [] | Some ps \<Rightarrow> ps" "vn_build v"] assms
    by (auto simp: pre_text_def labels_text_def build_text_def version_ok_def split: option.splits list.splits)
  have stop: "stops is_digit ?r2" "stops is_digit (patch_text (vn_patch v) @ ?r2)"
    using nodot(1) by (auto simp: patch_text_def stops_def marks split: option.split)
  have patch: "match_patch (patch_text (vn_patch v) @ ?r2) = (vn_patch v, ?r2)"
  proof (cases "vn_patch v")
    case None
    then have "vn_dsePatch v = None" using assms by (simp add: version_ok_def)
    then show ?thesis using None nodot(2) by (cases ?r3) (auto simp: patch_text_def match_patch_def)
  next
    case (Some p)
    then show ?thesis using span_number[OF stop(1), of p] by (simp add: patch_text_def match_patch_def)
  qed
  have dse: "match_dsePatch ?r2 = (vn_dsePatch v, ?r3)"
  proof (cases "vn_dsePatch v")
    case None
    then show ?thesis using nodot(2) by (cases ?r3) (auto simp: patch_text_def match_dsePatch_def)
  next
    case (Some p)
    then show ?thesis using span_number[OF nodot(1), of p] by (simp add: patch_text_def match_dsePatch_def)
  qed
  have "match_build ?b = vn_build v" using assms by (intro build_back) (simp add: version_ok_def build_ok_def)
  moreover have "stops is_digit (''.'' @ show_nat (vn_minor v) @ patch_text (vn_patch v) @ ?r2)" by (simp add: stops_def marks)
  ultimately have "match_version (VersionNumber_toString v) = Some v"
    using span_number[OF stop(2), of "vn_minor v"] span_number[of _ "vn_major v"] patch dse pre_back[OF assms]
    by (simp add: match_version_def toString_parts)
  moreover obtain c s where "VersionNumber_toString v = c # s" by (cases "VersionNumber_toString v") (simp_all add: toString_parts)
  ultimately show ?thesis by (simp add: VersionNumber_parse_def)
qed

definition sample_version :: version_number where
  "sample_version = \<lparr>vn_major = 3, vn_minor = 11, vn_patch = Some 4, vn_dsePatch = Some 2, vn_preReleases = Some [''beta1'', ''x.y''], vn_build = Some ''b.7''\<rparr>"

lemma VersionNumber_round_trip_witness:
  "VersionNumber_toString sample_version = ''3.11.4.2-beta1-x.y+b.7'' \<and> VersionNumber_parse ''3.11.4.2-beta1-x.y+b.7'' = return (Some sample_version)"
proof -
  have t: "VersionNumber_toString sample_version = ''3.11.4.2-beta1-x.y+b.7''" and "version_ok sample_version" by code_simp+
  from VersionNumber_round_trip[OF this(2)] t show ?thesis by simp
qed

lemma build_taken_in:
  "VersionNumber_parse ''1.2.3-SNAPSHOT+b1''
    = return (Some \<lparr>vn_major = 1, vn_minor = 2, vn_patch = Some 3, vn_dsePatch = None, vn_preReleases = Some [''SNAPSHOT+b1''], vn_build = None\<rparr>)"
  by code_simp

section \<open>The order of versions\<close>

text \<open>\<open>compare\<close> is the lexicographic order of what it looks at: a missing patch is zero, a DSE patch exceeds none and a
  pre-release precedes the release.\<close>

definition version_key :: "version_number \<Rightarrow> nat list" where
  "version_key v = [vn_major v, vn_minor v, (case vn_patch v of Some p \<Rightarrow> p | None \<Rightarrow> 0), (case vn_dsePatch v of None \<Rightarrow> 0 | Some p \<Rightarrow> Suc p),
     (if vn_preReleases v = None then 1 else 0)]"

fun key_compare :: "nat list \<Rightarrow> nat list \<Rightarrow> int" where
  "key_compare (x # xs) (y # ys) = (if x < y then - 1 else if x > y then 1 else key_compare xs ys)"
| "key_compare _ _ = 0"

lemma compare_key: "VersionNumber_compare v w = key_compare (version_key v) (version_key w)"
  by (cases "vn_dsePatch v"; cases "vn_dsePatch w"; cases "vn_preReleases v"; cases "vn_preReleases w")
    (simp_all add: VersionNumber_compare_def version_key_def Let_def)

lemma key_compare_sym: "key_compare xs ys = - key_compare ys xs"
  by (induction xs ys rule: key_compare.induct) auto

lemma key_compare_trans: "length xs = length ys \<Longrightarrow> length ys = length zs \<Longrightarrow> key_compare xs ys \<le> 0 \<Longrightarrow> key_compare ys zs \<le> 0 \<Longrightarrow> key_compare xs zs \<le> 0"
proof (induction xs ys arbitrary: zs rule: key_compare.induct)
  case (1 x xs y ys)
  obtain z zs' where zs: "zs = z # zs'" using 1(2,3) by (cases zs) simp_all
  have "x < y \<or> x = y \<and> key_compare xs ys \<le> 0" "y < z \<or> y = z \<and> key_compare ys zs' \<le> 0" using 1(4,5) zs by (simp_all split: if_splits)
  moreover have "key_compare xs zs' \<le> 0" if "x = y" "key_compare xs ys \<le> 0" "key_compare ys zs' \<le> 0" using 1(1)[OF _ _ _ _ that(2,3)] 1(2,3) zs that(1) by simp
  ultimately show ?case by (elim disjE) (simp_all add: zs)
qed auto

interpretation version_order: total_compare "\<lambda>_. True" VersionNumber_compare
proof unfold_locales
  fix a b c :: version_number
  show "sgn (VersionNumber_compare a b) = - sgn (VersionNumber_compare b a)" unfolding compare_key by (subst key_compare_sym) simp
  show "VersionNumber_compare a c \<le> 0" if "VersionNumber_compare a b \<le> 0" "VersionNumber_compare b c \<le> 0"
    using that unfolding compare_key by (rule key_compare_trans[rotated 2]) (simp_all add: version_key_def)
qed

section \<open>Protocol versions\<close>

definition isSupportedCassandra :: "int \<Rightarrow> bool" where
  "isSupportedCassandra version \<longleftrightarrow> version \<le> 0x04 \<and> version \<ge> 0x01"

definition isSupported :: "int \<Rightarrow> bool" where
  "isSupported version = isSupportedCassandra version"

definition getLowerSupported :: "int \<Rightarrow> int" where
  "getLowerSupported version = (if version \<ge> 5 then 4 else if version \<le> 1 then 0 else version - 1)"

text \<open>The versions the code compares with; what \<open>parse\<close> makes of them is checked below.\<close>

abbreviation release :: "nat \<Rightarrow> nat \<Rightarrow> version_number" where
  "release major minor \<equiv> \<lparr>vn_major = major, vn_minor = minor, vn_patch = Some 0, vn_dsePatch = None, vn_preReleases = None, vn_build = None\<rparr>"

abbreviation at_least :: "version_number \<Rightarrow> version_number \<Rightarrow> bool" where
  "at_least v w \<equiv> VersionNumber_compare v w \<ge> 0"

text \<open>The versions of a host as the driver knows them; an empty one counts as missing.\<close>

record host_versions =
  hv_dseVersion :: "string option"
  hv_cassandraVersion :: "string option"

definition version_given :: "string option \<Rightarrow> bool" where
  "version_given s \<longleftrightarrow> s \<noteq> None \<and> s \<noteq> Some []"

text \<open>The variables of \<open>getHighestCommon\<close>.\<close>

record version_state =
  vs_maxVersion :: int
  vs_v3Requirement :: bool
  vs_maxVersionWith3OrMore :: int

definition lower_to :: "int \<Rightarrow> bool \<Rightarrow> version_state \<Rightarrow> version_state" where
  "lower_to limit required s =
     (let m = min limit (vs_maxVersion s)
      in \<lparr>vs_maxVersion = m, vs_v3Requirement = (required \<or> vs_v3Requirement s), vs_maxVersionWith3OrMore = m\<rparr>)"

definition evaluate_cassandra :: "string option \<Rightarrow> version_state \<Rightarrow> version_state" where
  "evaluate_cassandra cassandraVersion s =
     (if \<not> version_given cassandraVersion then s
      else case VersionNumber_parse (the cassandraVersion) of
             Inr (Some v) \<Rightarrow>
               if at_least v (release 3 0) then lower_to 4 True s
               else if at_least v (release 2 2) then lower_to 4 False s
               else if at_least v (release 2 1) then lower_to 3 False s
               else if at_least v (release 2 0) then s\<lparr>vs_maxVersion := min 2 (vs_maxVersion s)\<rparr>
               else s\<lparr>vs_maxVersion := 1\<rparr>
           | _ \<Rightarrow> s)"

definition evaluate_host :: "host_versions \<Rightarrow> version_state \<Rightarrow> version_state result" where
  "evaluate_host h s =
     (if version_given (hv_dseVersion h) then
        rbind (VersionNumber_parse (the (hv_dseVersion h))) (\<lambda>dseVersion.
          let v = the dseVersion
          in if at_least v (release 5 1) then return (lower_to (if at_least v (release 6 0) then 0x42 else 0x41) True s)
             else return (evaluate_cassandra (hv_cassandraVersion h) s))
      else return (evaluate_cassandra (hv_cassandraVersion h) s))"

fun evaluate_hosts :: "host_versions list \<Rightarrow> version_state \<Rightarrow> version_state result" where
  "evaluate_hosts [] s = return s"
| "evaluate_hosts (h # hs) s = rbind (evaluate_host h s) (evaluate_hosts hs)"

definition getHighestCommon :: "int \<Rightarrow> host_versions list \<Rightarrow> int result" where
  "getHighestCommon protocolVersion hosts =
     rbind (evaluate_hosts hosts \<lparr>vs_maxVersion = protocolVersion, vs_v3Requirement = False, vs_maxVersionWith3OrMore = protocolVersion\<rparr>) (\<lambda>s.
       return (if vs_v3Requirement s \<and> vs_maxVersion s < 3 then vs_maxVersionWith3OrMore s else vs_maxVersion s))"

lemma constants_parsed:
  "VersionNumber_parse ''2.0.0'' = return (Some (release 2 0))" "VersionNumber_parse ''2.1.0'' = return (Some (release 2 1))"
  "VersionNumber_parse ''2.2.0'' = return (Some (release 2 2))" "VersionNumber_parse ''3.0.0'' = return (Some (release 3 0))"
  "VersionNumber_parse ''5.1.0'' = return (Some (release 5 1))" "VersionNumber_parse ''6.0.0'' = return (Some (release 6 0))"
  by code_simp+

section \<open>The highest common version\<close>

text \<open>The highest protocol version of a host, and whether it requires version 3 at least; none if its versions are unknown.\<close>

definition cassandra_limit :: "string option \<Rightarrow> (int \<times> bool) option" where
  "cassandra_limit cassandraVersion =
     (if \<not> version_given cassandraVersion then None
      else case VersionNumber_parse (the cassandraVersion) of
             Inr (Some v) \<Rightarrow>
               Some (if at_least v (release 2 2) then 4 else if at_least v (release 2 1) then 3 else if at_least v (release 2 0) then 2 else 1,
                     at_least v (release 3 0))
           | _ \<Rightarrow> None)"

definition host_limit :: "host_versions \<Rightarrow> (int \<times> bool) option" where
  "host_limit h =
     (case (if version_given (hv_dseVersion h) then VersionNumber_parse (the (hv_dseVersion h)) else return None) of
        Inr (Some v) \<Rightarrow>
          if at_least v (release 5 1) then Some (if at_least v (release 6 0) then 0x42 else 0x41, True) else cassandra_limit (hv_cassandraVersion h)
      | _ \<Rightarrow> cassandra_limit (hv_cassandraVersion h))"

definition capped :: "(int \<times> bool) option \<Rightarrow> version_state \<Rightarrow> version_state" where
  "capped limit s =
     (case limit of
        None \<Rightarrow> s
      | Some (l, required) \<Rightarrow> if l \<ge> 3 then lower_to l required s else s\<lparr>vs_maxVersion := min l (vs_maxVersion s)\<rparr>)"

lemma release_order: "at_least v (release 3 0) \<Longrightarrow> at_least v (release 2 2)"
proof -
  assume "at_least v (release 3 0)"
  moreover have "VersionNumber_compare (release 2 2) (release 3 0) \<le> 0" by code_simp
  ultimately show ?thesis using version_order.trans[of "release 2 2" "release 3 0" v] version_order.flip(5)[of v] by simp
qed

lemma evaluate_cassandra_limited: "1 \<le> vs_maxVersion s \<Longrightarrow> evaluate_cassandra c s = capped (cassandra_limit c) s"
  using release_order by (auto simp: evaluate_cassandra_def cassandra_limit_def capped_def split: sum.split option.split)

lemma evaluate_host_limited: "evaluate_host h s = return s' \<Longrightarrow> 1 \<le> vs_maxVersion s \<Longrightarrow> s' = capped (host_limit h) s"
  by (auto simp: evaluate_host_def host_limit_def evaluate_cassandra_limited capped_def Let_def VersionNumber_parse_def version_given_def
      split: option.splits if_splits)

lemma limit_positive: "host_limit h = Some (l, r) \<Longrightarrow> 1 \<le> l"
  by (auto simp: host_limit_def cassandra_limit_def split: sum.splits option.splits if_splits)

lemma capped_positive: "1 \<le> vs_maxVersion s \<Longrightarrow> 1 \<le> vs_maxVersion (capped (host_limit h) s)"
  using limit_positive[of h] by (auto simp: capped_def lower_to_def Let_def split: option.split)

definition lowest :: "int \<Rightarrow> (int \<times> bool) list \<Rightarrow> int" where
  "lowest p ls = Min (insert p (fst ` set ls))"

lemma lowest_simps: "lowest p [] = p" "lowest p (ls @ [l]) = min (fst l) (lowest p ls)"
proof -
  show "lowest p [] = p" by (simp add: lowest_def)
  have "insert p (fst ` set (ls @ [l])) = insert (fst l) (insert p (fst ` set ls))" by auto
  then show "lowest p (ls @ [l]) = min (fst l) (lowest p ls)" unfolding lowest_def by (simp only:) (rule Min_insert, simp_all)
qed

text \<open>The limits up to the last one of a host that knows version 3.\<close>

definition up_to_modern :: "(int \<times> bool) list \<Rightarrow> (int \<times> bool) list" where
  "up_to_modern ls = rev (dropWhile (\<lambda>l. fst l < 3) (rev ls))"

lemma capped_hosts:
  assumes "evaluate_hosts hs s = return s'" "1 \<le> vs_maxVersion s"
  shows "s' = foldl (\<lambda>s h. capped (host_limit h) s) s hs"
  using assms
proof (induction hs arbitrary: s)
  case (Cons h hs)
  then obtain s1 where "evaluate_host h s = return s1" "evaluate_hosts hs s1 = return s'" by auto
  then show ?case using Cons.IH[of s1] evaluate_host_limited[of h s s1] Cons.prems(2) capped_positive[of s h] by simp
qed simp

lemma capped_fold:
  fixes p hs defines "s \<equiv> foldl (\<lambda>s h. capped (host_limit h) s) \<lparr>vs_maxVersion = p, vs_v3Requirement = False, vs_maxVersionWith3OrMore = p\<rparr> hs"
    and "ls \<equiv> List.map_filter host_limit hs"
  shows "vs_maxVersion s = lowest p ls \<and> vs_v3Requirement s = (\<exists>l \<in> set ls. fst l \<ge> 3 \<and> snd l) \<and> vs_maxVersionWith3OrMore s = lowest p (up_to_modern ls)"
  unfolding s_def ls_def
proof (induction hs rule: rev_induct)
  case Nil
  then show ?case by (simp add: lowest_simps up_to_modern_def)
next
  case (snoc h hs)
  then show ?case
    by (cases "host_limit h") (auto simp: capped_def lower_to_def Let_def lowest_simps up_to_modern_def List.map_filter_def split: prod.splits)
qed

text \<open>C26: \<open>getHighestCommon\<close> is the lowest of the version of the connection and of the limits of the hosts whose versions are known;
  but when some host requires version 3 and the lowest is below it, only the hosts up to the last one that knows
  version 3 count. An old host is therefore ignored when it comes after the others, as documented, and not when it
  comes before one of them.\<close>

theorem highest_common:
  assumes "getHighestCommon p hosts = return v" "1 \<le> p" "ls = List.map_filter host_limit hosts"
  shows "v = (if (\<exists>l \<in> set ls. fst l \<ge> 3 \<and> snd l) \<and> lowest p ls < 3 then lowest p (up_to_modern ls) else lowest p ls)"
proof -
  let ?s = "\<lparr>vs_maxVersion = p, vs_v3Requirement = False, vs_maxVersionWith3OrMore = p\<rparr>"
  obtain s where s: "evaluate_hosts hosts ?s = return s" "v = (if vs_v3Requirement s \<and> vs_maxVersion s < 3 then vs_maxVersionWith3OrMore s else vs_maxVersion s)"
    using assms(1) by (auto simp: getHighestCommon_def)
  have "s = foldl (\<lambda>s h. capped (host_limit h) s) ?s hosts" using capped_hosts[OF s(1)] assms(2) by simp
  then have "vs_maxVersion s = lowest p ls" "vs_v3Requirement s = (\<exists>l \<in> set ls. fst l \<ge> 3 \<and> snd l)" "vs_maxVersionWith3OrMore s = lowest p (up_to_modern ls)"
    using capped_fold[of p hosts] assms(3) by simp_all
  then show ?thesis unfolding s(2) by (simp only:)
qed

definition host_of :: "string \<Rightarrow> host_versions" where
  "host_of version = \<lparr>hv_dseVersion = None, hv_cassandraVersion = Some version\<rparr>"

lemma highest_common_witness:
  "getHighestCommon 4 [host_of ''3.0.0'', host_of ''2.0.0''] = return 4 \<and> getHighestCommon 4 [host_of ''2.0.0'', host_of ''3.0.0''] = return 2
    \<and> lowest 4 (up_to_modern [(4, True), (2, False)]) = 4 \<and> lowest 4 (up_to_modern [(2, False), (4, True)]) = 2"
proof -
  have r: "getHighestCommon 4 [host_of ''3.0.0'', host_of ''2.0.0''] = return 4" "getHighestCommon 4 [host_of ''2.0.0'', host_of ''3.0.0''] = return 2"
    by code_simp+
  have l: "host_limit (host_of ''3.0.0'') = Some (4, True)" "host_limit (host_of ''2.0.0'') = Some (2, False)" by code_simp+
  then have ls: "[(4, True), (2, False)] = List.map_filter host_limit [host_of ''3.0.0'', host_of ''2.0.0'']"
      "[(2, False), (4, True)] = List.map_filter host_limit [host_of ''2.0.0'', host_of ''3.0.0'']" by (simp_all add: List.map_filter_simps)
  have "lowest 4 [(4, True), (2, False)] = 2" "lowest 4 [(2, False), (4, True)] = 2" by code_simp+
  then show ?thesis using highest_common[OF r(1) _ ls(1)] highest_common[OF r(2) _ ls(2)] r by simp
qed

end
