(* ===== verification/Client_Options.thy ===== *)
theory Client_Options
  imports Protocol_Version Utils_Correct
begin

text \<open>
  The options of a client (\<open>lib/client-options.js\<close>): the defaults, the options of the user laid over them and checked
  by \<open>extend\<close>, and what \<open>setRustOptions\<close> hands to the native driver. Options are objects of \<^typ>\<open>jsval\<close>. An instance
  carries the name of its class, and what the module keeps private is among its properties under a name with
  a \<open>#\<close>; a \<open>Buffer\<close> has its bytes under their indices, as in JavaScript. The texts of the errors are
  without the values they quote.
\<close>

section \<open>Classes\<close>

text \<open>What is not in the repository: of a class of the user the classes it derives from, the functions of the
  prototype of a function (\<^const>\<open>None\<close> when it has no prototype), what the method \<open>getRustConfiguration\<close> of a policy
  answers (that of a driver's policy is in the theory \<open>Policies\<close>), the enumeration \<open>TlsVersion\<close> of the native module
  and \<open>BigInt\<close> of a text.\<close>

record classes =
  ancestors :: "string \<Rightarrow> string list"
  prototype :: "string \<Rightarrow> string list option"
  rust_configuration :: "jsval \<Rightarrow> jsval result"
  TlsVersion :: "string \<Rightarrow> jsval"
  text_BigInt :: "string \<Rightarrow> int option"

text \<open>The classes of the driver with those they derive from.\<close>

definition driver_classes :: "(string \<times> string list) list" where
  "driver_classes =
     [(''LoadBalancingPolicy'', []), (''LoadBalancingRustImplemented'', [''LoadBalancingPolicy'']),
      (''RoundRobinPolicy'', [''LoadBalancingRustImplemented'', ''LoadBalancingPolicy'']),
      (''DCAwareRoundRobinPolicy'', [''LoadBalancingRustImplemented'', ''LoadBalancingPolicy'']),
      (''TokenAwarePolicy'', [''LoadBalancingRustImplemented'', ''LoadBalancingPolicy'']),
      (''AllowListPolicy'', [''LoadBalancingRustImplemented'', ''LoadBalancingPolicy'']),
      (''DefaultLoadBalancingPolicy'', [''LoadBalancingRustImplemented'', ''LoadBalancingPolicy'']),
      (''LegacyDefaultLoadBalancingPolicy'', [''LoadBalancingPolicy'']),
      (''ReconnectionPolicy'', []), (''ConstantReconnectionPolicy'', [''ReconnectionPolicy'']),
      (''ExponentialReconnectionPolicy'', [''ReconnectionPolicy'']),
      (''RetryPolicy'', []), (''FallthroughRetryPolicy'', [''RetryPolicy'']),
      (''AddressTranslator'', []), (''EC2MultiRegionTranslator'', [''AddressTranslator'']),
      (''MappingAddressTranslator'', [''AddressTranslator'']),
      (''SpeculativeExecutionPolicy'', []), (''NoSpeculativeExecutionPolicy'', [''SpeculativeExecutionPolicy'']),
      (''ConstantSpeculativeExecutionPolicy'', [''SpeculativeExecutionPolicy'']),
      (''TimestampGenerator'', []), (''MonotonicTimestampGenerator'', [''TimestampGenerator'']),
      (''RequestTracker'', []), (''RequestLogger'', [''RequestTracker'']),
      (''ClientMetrics'', []), (''DefaultMetrics'', [''ClientMetrics'']),
      (''AuthProvider'', []), (''NoAuthProvider'', [''AuthProvider'']), (''PlainTextAuthProvider'', [''AuthProvider'']),
      (''Uuid'', []), (''TimeUuid'', [''Uuid'']), (''Buffer'', [])]"

fun instance_of :: "classes \<Rightarrow> jsval \<Rightarrow> string \<Rightarrow> bool" where
  "instance_of cs (JInstance c ps) d \<longleftrightarrow>
     c = d \<or> d \<in> set (case map_of driver_classes c of Some l \<Rightarrow> l | None \<Rightarrow> ancestors cs c)"
| "instance_of cs v d \<longleftrightarrow> False"

text \<open>A property of a value that is neither \<open>undefined\<close> nor \<open>null\<close>.\<close>

definition get_prop :: "(string \<times> jsval) list \<Rightarrow> string \<Rightarrow> jsval" where
  "get_prop ps k = (case obj_get ps k of None \<Rightarrow> JUndefined | Some v \<Rightarrow> v)"

fun js_prop :: "jsval \<Rightarrow> string \<Rightarrow> jsval" where
  "js_prop (JObject ps) k = get_prop ps k"
| "js_prop (JInstance c ps) k = get_prop ps k"
| "js_prop v k = JUndefined"

fun is_string :: "jsval \<Rightarrow> bool" where
  "is_string (JString s) = True"
| "is_string v = False"

fun is_number :: "jsval \<Rightarrow> bool" where
  "is_number (JNum n) = True"
| "is_number v = False"

fun the_number :: "jsval \<Rightarrow> int" where
  "the_number (JNum n) = n"
| "the_number v = 0"

fun the_string :: "jsval \<Rightarrow> string" where
  "the_string (JString s) = s"
| "the_string v = []"

fun array_items :: "jsval \<Rightarrow> jsval list option" where
  "array_items (JArray xs) = Some xs"
| "array_items v = None"

section \<open>Defaults\<close>

definition logLevels :: "string list" where
  "logLevels = [''trace'', ''debug'', ''info'', ''warning'', ''error'', ''off'']"

definition coreConnectionsPerHostV2 :: jsval where
  "coreConnectionsPerHostV2 = JObject [(''0'', JNum 2), (''1'', JNum 1), (''2'', JNum 0)]"

definition coreConnectionsPerHostV3 :: jsval where
  "coreConnectionsPerHostV3 = JObject [(''0'', JNum 1), (''1'', JNum 1), (''2'', JNum 0)]"

definition maxRequestsPerConnectionV2 :: jsval where
  "maxRequestsPerConnectionV2 = JNum 128"

definition maxRequestsPerConnectionV3 :: jsval where
  "maxRequestsPerConnectionV3 = JNum 2048"

definition default_policies :: "(string \<times> jsval) list" where
  "default_policies =
     [(''addressResolution'', JInstance ''AddressTranslator'' []),
      (''loadBalancing'', JInstance ''DefaultLoadBalancingPolicy'' []),
      (''reconnection'', JInstance ''ExponentialReconnectionPolicy'' [(''baseDelay'', JNum 1000), (''maxDelay'', JNum 600000), (''startWithNoDelay'', JBool False)]),
      (''retry'', JInstance ''RetryPolicy'' []),
      (''speculativeExecution'', JInstance ''NoSpeculativeExecutionPolicy'' []),
      (''timestampGeneration'', JInstance ''MonotonicTimestampGenerator'' [])]"

definition defaultOptions :: "(string \<times> jsval) list" where
  "defaultOptions =
     [(''policies'', JObject default_policies),
      (''queryOptions'', JObject [(''fetchSize'', JNum 5000), (''prepare'', JBool False), (''captureStackTrace'', JBool False), (''paged'', JBool True)]),
      (''protocolOptions'', JObject [(''port'', JNum 9042), (''maxSchemaAgreementWaitSeconds'', JNum 10), (''maxVersion'', JNum 0)]),
      (''pooling'', JObject [(''heartBeatInterval'', JNum 30000), (''warmup'', JBool True)]),
      (''socketOptions'', JObject [(''connectTimeout'', JNum 5000), (''defunctReadTimeoutThreshold'', JNum 64), (''keepAlive'', JBool True),
         (''keepAliveDelay'', JNum 0), (''readTimeout'', JNum 12000), (''tcpNoDelay'', JBool True), (''coalescingThreshold'', JNum 65536)]),
      (''authProvider'', JNull),
      (''requestTracker'', JNull),
      (''metrics'', JInstance ''DefaultMetrics'' []),
      (''maxPrepared'', JNull),
      (''refreshSchemaDelay'', JNum 1000),
      (''prepareOnAllHosts'', JBool True),
      (''rePrepareOnUp'', JBool True),
      (''encoding'', JObject [(''copyBuffer'', JBool True), (''useUndefinedAsUnset'', JBool True), (''useBigIntAsLong'', JBool True), (''useBigIntAsVarint'', JBool True)]),
      (''logLevel'', JString ''warning'')]"

section \<open>Checks\<close>

definition validatePoliciesOptions :: "classes \<Rightarrow> jsval \<Rightarrow> unit result" where
  "validatePoliciesOptions cs policies =
     (if \<not> truthy policies then throw (TypeError ''policies not defined in options'')
      else if \<not> instance_of cs (js_prop policies ''loadBalancing'') ''LoadBalancingPolicy'' then
        throw (TypeError ''Load balancing policy must be an instance of LoadBalancingPolicy'')
      else if \<not> instance_of cs (js_prop policies ''reconnection'') ''ReconnectionPolicy'' then
        throw (TypeError ''Reconnection policy must be an instance of ReconnectionPolicy'')
      else if \<not> instance_of cs (js_prop policies ''retry'') ''RetryPolicy'' then
        throw (TypeError ''Retry policy must be an instance of RetryPolicy'')
      else if \<not> instance_of cs (js_prop policies ''addressResolution'') ''AddressTranslator'' then
        throw (TypeError ''Address resolution policy must be an instance of AddressTranslator'')
      else if js_prop policies ''timestampGeneration'' \<noteq> JNull \<and> \<not> instance_of cs (js_prop policies ''timestampGeneration'') ''TimestampGenerator'' then
        throw (TypeError ''Timestamp generation policy must be an instance of TimestampGenerator'')
      else return ())"

definition validateProtocolOptions :: "jsval \<Rightarrow> unit result" where
  "validateProtocolOptions protocolOptions =
     (if \<not> truthy protocolOptions then throw (TypeError ''protocolOptions not defined in options'')
      else let version = js_prop protocolOptions ''maxVersion''
        in if truthy version \<and> (\<not> is_number version \<or> \<not> isSupported (the_number version)) then
             throw (TypeError ''protocolOptions.maxVersion provided is invalid'')
           else return ())"

definition validateSocketOptions :: "jsval \<Rightarrow> unit result" where
  "validateSocketOptions socketOptions =
     (if \<not> truthy socketOptions then throw (TypeError ''socketOptions not defined in options'')
      else if \<not> is_number (js_prop socketOptions ''readTimeout'') then throw (TypeError ''socketOptions.readTimeout must be a Number'')
      else if \<not> is_number (js_prop socketOptions ''coalescingThreshold'') \<or> the_number (js_prop socketOptions ''coalescingThreshold'') \<le> 0 then
        throw (TypeError ''socketOptions.coalescingThreshold must be a positive Number'')
      else return ())"

definition validateAuthenticationOptions :: "classes \<Rightarrow> (string \<times> jsval) list \<Rightarrow> (string \<times> jsval) list result" where
  "validateAuthenticationOptions cs opts =
     (if \<not> truthy (get_prop opts ''authProvider'') then
        (let credentials = get_prop opts ''credentials''
         in if truthy credentials then
              if \<not> is_string (js_prop credentials ''username'') \<or> \<not> is_string (js_prop credentials ''password'') then
                throw (TypeError ''credentials username and password must be a string'')
              else return opts
            else return (obj_set opts ''authProvider'' (JInstance ''NoAuthProvider'' [])))
      else if \<not> instance_of cs (get_prop opts ''authProvider'') ''AuthProvider'' then
        throw (TypeError ''options.authProvider must be an instance of AuthProvider'')
      else return opts)"

text \<open>\<open>typeof c.prototype.m !== "function"\<close> for the methods that a constructor of collections has to have.\<close>

fun has_methods :: "classes \<Rightarrow> jsval \<Rightarrow> string list \<Rightarrow> string \<Rightarrow> unit result" where
  "has_methods cs (JFunction f) ms err =
     (case prototype cs f of
        None \<Rightarrow> throw (TypeError ''Cannot read properties of undefined'')
      | Some l \<Rightarrow> if set ms \<subseteq> set l then return () else throw (TypeError err))"
| "has_methods cs v ms err = throw (TypeError err)"

definition validateEncodingOptions :: "classes \<Rightarrow> jsval \<Rightarrow> unit result" where
  "validateEncodingOptions cs encodingOptions =
     rbind (if truthy (js_prop encodingOptions ''map'')
            then has_methods cs (js_prop encodingOptions ''map'') [''forEach'', ''set''] ''Map constructor not valid'' else return ())
       (\<lambda>_. if truthy (js_prop encodingOptions ''set'')
            then has_methods cs (js_prop encodingOptions ''set'') [''forEach'', ''add''] ''Set constructor not valid'' else return ())"

definition validateLogLevel :: "jsval \<Rightarrow> unit result" where
  "validateLogLevel logLevel =
     (if logLevel = JUndefined \<or> is_string logLevel \<and> the_string logLevel \<in> set logLevels then return ()
      else throw (TypeError ''logLevel must be one of the levels''))"

definition validateString :: "(string \<times> jsval) list \<Rightarrow> string \<Rightarrow> unit result" where
  "validateString opts key =
     (let str = get_prop opts key
      in if str \<noteq> JNull \<and> str \<noteq> JUndefined \<and> \<not> is_string str then throw (TypeError (key @ '' should be a String'')) else return ())"

definition validateApplicationInfo :: "classes \<Rightarrow> (string \<times> jsval) list \<Rightarrow> unit result" where
  "validateApplicationInfo cs opts =
     rbind (validateString opts ''applicationName'') (\<lambda>_. rbind (validateString opts ''applicationVersion'') (\<lambda>_.
       let id' = get_prop opts ''id''
       in if id' = JNull \<or> id' = JUndefined \<or> instance_of cs id' ''Uuid'' \<or> is_string id' then return ()
          else throw (TypeError ''Client id must be either a Uuid or a string'')))"

definition contact_points :: "jsval \<Rightarrow> unit result" where
  "contact_points v =
     (case array_items v of
        None \<Rightarrow> throw (TypeError ''Contacts points are not defined.'')
      | Some hosts \<Rightarrow>
          if hosts = [] then throw (TypeError ''Contacts points are not defined.'')
          else if list_all truthy hosts then return ()
          else throw (TypeError ''Contact point is not a valid host name''))"

text \<open>\<open>extend(baseOptions, userOptions)\<close>; called with one argument, the base is an empty object.\<close>

definition extend_options :: "classes \<Rightarrow> (string \<times> jsval) list \<Rightarrow> jsval \<Rightarrow> (string \<times> jsval) list result" where
  "extend_options cs baseOptions userOptions =
     (let opts = deepExtend baseOptions [JObject defaultOptions, userOptions]
      in rbind (contact_points (get_prop opts ''contactPoints'')) (\<lambda>_.
         let opts = obj_set opts ''sni'' JUndefined;
             opts = (if truthy (get_prop opts ''logEmitter'') then opts else obj_set opts ''logEmitter'' (JFunction ''''))
         in if \<not> truthy (get_prop opts ''queryOptions'') then throw (TypeError ''queryOptions not defined in options'')
            else if get_prop opts ''requestTracker'' \<noteq> JNull \<and> \<not> instance_of cs (get_prop opts ''requestTracker'') ''RequestTracker'' then
              throw (TypeError ''requestTracker must be an instance of RequestTracker'')
            else if \<not> instance_of cs (get_prop opts ''metrics'') ''ClientMetrics'' then
              throw (TypeError ''metrics must be an instance of ClientMetrics'')
            else
              rbind (validatePoliciesOptions cs (get_prop opts ''policies'')) (\<lambda>_.
              rbind (validateProtocolOptions (get_prop opts ''protocolOptions'')) (\<lambda>_.
              rbind (validateSocketOptions (get_prop opts ''socketOptions'')) (\<lambda>_.
              rbind (validateAuthenticationOptions cs opts) (\<lambda>opts.
              let opts = obj_set opts ''encoding'' (if truthy (get_prop opts ''encoding'') then get_prop opts ''encoding'' else JObject [])
              in rbind (validateEncodingOptions cs (get_prop opts ''encoding'')) (\<lambda>_.
                 rbind (validateLogLevel (get_prop opts ''logLevel'')) (\<lambda>_.
                 if truthy (get_prop opts ''profiles'') \<and> array_items (get_prop opts ''profiles'') = None then
                   throw (TypeError ''profiles must be an Array of ExecutionProfile instances'')
                 else rbind (validateApplicationInfo cs opts) (\<lambda>_. return opts))))))) ))"


section \<open>SSL options\<close>

text \<open>\<open>Buffer.toString("binary")\<close>: one character for each byte.\<close>

fun normalizeKey :: "jsval \<Rightarrow> string \<Rightarrow> jsval result" where
  "normalizeKey (JString s) name = return (JString s)"
| "normalizeKey (JInstance c bytes) name =
     (if c = ''Buffer'' then return (JString (map (\<lambda>(_, b). char_of (nat (the_number b))) bytes))
      else throw (TypeError (''Unexpected type for '' @ name @ ''. Expected to be string or buffer'')))"
| "normalizeKey v name = throw (TypeError (''Unexpected type for '' @ name @ ''. Expected to be string or buffer''))"

definition to_upper :: "char \<Rightarrow> char" where
  "to_upper c = (if (97::nat) \<le> of_char c \<and> of_char c \<le> (122::nat) then char_of ((of_char c :: nat) - 32) else c)"

definition convertTlsVersion :: "classes \<Rightarrow> jsval \<Rightarrow> jsval result" where
  "convertTlsVersion cs v =
     (if \<not> is_string v then throw (TypeError ''TLS version must be a string'')
      else let upper = map to_upper (the_string v)
        in if upper = ''TLSV1'' then return (TlsVersion cs ''Tlsv1'')
           else if upper = ''TLSV1.1'' then return (TlsVersion cs ''Tlsv1_1'')
           else if upper = ''TLSV1.2'' then return (TlsVersion cs ''Tlsv1_2'')
           else if upper = ''TLSV1.3'' then return (TlsVersion cs ''Tlsv1_3'')
           else throw (TypeError ''Invalid TLS version. Expected one of: TLSv1, TLSv1.1, TLSv1.2, TLSv1.3.''))"

text \<open>\<open>BigInt(v)\<close> of a truthy value; a \<open>BigInt\<close> is an instance with its number.\<close>

definition big :: "int \<Rightarrow> jsval" where
  "big n = JInstance ''BigInt'' [(''#value'', JNum n)]"

fun to_BigInt :: "classes \<Rightarrow> jsval \<Rightarrow> jsval result" where
  "to_BigInt cs (JNum n) = return (big n)"
| "to_BigInt cs (JBool b) = return (big (if b then 1 else 0))"
| "to_BigInt cs (JString s) =
     (case text_BigInt cs s of None \<Rightarrow> throw (SyntaxError ''Cannot convert to a BigInt'') | Some n \<Rightarrow> return (big n))"
| "to_BigInt cs (JInstance c ps) =
     (if c = ''BigInt'' then return (JInstance c ps) else throw (SyntaxError ''Cannot convert to a BigInt''))"
| "to_BigInt cs v = throw (SyntaxError ''Cannot convert to a BigInt'')"

fun normalize_ca :: "jsval \<Rightarrow> jsval result" where
  "normalize_ca (JArray xs) = rbind (rmap (\<lambda>entry. normalizeKey entry ''ca'') xs) (\<lambda>ys. return (JArray ys))"
| "normalize_ca v = rbind (rmap (\<lambda>entry. normalizeKey entry ''ca'') [v]) (\<lambda>ys. return (JArray ys))"

text \<open>\<open>if (normalized.k) normalized.k = f(normalized.k)\<close>.\<close>

definition normalize_prop :: "string \<Rightarrow> (jsval \<Rightarrow> jsval result) \<Rightarrow> (string \<times> jsval) list \<Rightarrow> (string \<times> jsval) list result" where
  "normalize_prop k f normalized =
     (if truthy (get_prop normalized k) then rbind (f (get_prop normalized k)) (\<lambda>v. return (obj_set normalized k v)) else return normalized)"

definition normalizeSslOptions :: "classes \<Rightarrow> jsval \<Rightarrow> jsval result" where
  "normalizeSslOptions cs sslOptions =
     (if \<not> truthy sslOptions then return sslOptions
      else
        rbind (normalize_prop ''ca'' normalize_ca (enumerable sslOptions)) (\<lambda>n.
        rbind (normalize_prop ''cert'' (\<lambda>v. normalizeKey v ''cert'') n) (\<lambda>n.
        rbind (normalize_prop ''dhparam'' (\<lambda>v. normalizeKey v ''dhparam'') n) (\<lambda>n.
        rbind (normalize_prop ''key'' (\<lambda>v. normalizeKey v ''key'') n) (\<lambda>n.
        rbind (normalize_prop ''pfx'' (\<lambda>v. normalizeKey v ''pfx'') n) (\<lambda>n.
        rbind (normalize_prop ''minVersion'' (convertTlsVersion cs) n) (\<lambda>n.
        rbind (normalize_prop ''maxVersion'' (convertTlsVersion cs) n) (\<lambda>n.
        rbind (normalize_prop ''secureOptions'' (to_BigInt cs) n) (\<lambda>normalized.
        if truthy (get_prop normalized ''cert'') \<noteq> truthy (get_prop normalized ''key'') then
          throw (ArgumentError ''Both cert and key must be provided together in sslOptions.'')
        else if truthy (get_prop normalized ''pfx'') \<and> truthy (get_prop normalized ''cert'') then
          throw (ArgumentError ''Only one of (pfx) or (cert with key) must be provided in sslOptions.'')
        else return (JObject normalized))))))))))"

section \<open>What the native driver is given\<close>

definition setMetadataDependent :: "int \<Rightarrow> bool \<Rightarrow> (string \<times> jsval) list \<Rightarrow> (string \<times> jsval) list" where
  "setMetadataDependent version isDbaas opts =
     (let v3 = (version \<ge> 3);
          opts = (if js_prop (get_prop opts ''queryOptions'') ''consistency'' = JUndefined
                  then obj_set opts ''queryOptions'' (JObject (obj_set (enumerable (get_prop opts ''queryOptions'')) ''consistency''
                         (JNum (if isDbaas then 0x06 else 0x0a))))
                  else opts)
      in obj_set opts ''pooling'' (JObject (deepExtend []
           [JObject [(''coreConnectionsPerHost'', if v3 then coreConnectionsPerHostV3 else coreConnectionsPerHostV2),
                     (''maxRequestsPerConnection'', if v3 then maxRequestsPerConnectionV3 else maxRequestsPerConnectionV2)],
            get_prop opts ''pooling''])))"

fun error_text :: "js_error \<Rightarrow> string" where
  "error_text (TypeError m) = m"
| "error_text (RangeError m) = m"
| "error_text (GenericError m) = m"
| "error_text (SyntaxError m) = m"
| "error_text (ArgumentError m) = m"
| "error_text (ReferenceError m) = m"
| "error_text (DriverInternalError m) = m"

text \<open>\<open>Uuid.toString\<close> of the bytes an instance holds.\<close>

definition uuid_text :: "jsval \<Rightarrow> string" where
  "uuid_text v = Uuid_toString (Uuid (map (\<lambda>(_, b). word_of_int (the_number b)) (enumerable (js_prop v ''#raw''))))"

text \<open>A \<open>Map\<close> is the array of its entries in the order of insertion.\<close>

definition Mapping_getRustConfiguration :: "jsval \<Rightarrow> jsval" where
  "Mapping_getRustConfiguration v = js_prop v ''#mapping''"

definition rust_credentials :: "classes \<Rightarrow> (string \<times> jsval) list \<Rightarrow> (string \<times> jsval) list \<Rightarrow> (string \<times> jsval) list result" where
  "rust_credentials cs opts rustOptions =
     (let credentials = get_prop opts ''credentials''; authProvider = get_prop opts ''authProvider''
      in if truthy credentials then
           return (rustOptions @ [(''credentialsUsername'', js_prop credentials ''username''), (''credentialsPassword'', js_prop credentials ''password'')])
         else if truthy authProvider then
           if instance_of cs authProvider ''PlainTextAuthProvider'' then
             return (rustOptions @ [(''credentialsUsername'', js_prop authProvider ''username''), (''credentialsPassword'', js_prop authProvider ''password'')])
           else if \<not> instance_of cs authProvider ''NoAuthProvider'' then throw (ArgumentError ''Unsupported auth provider'')
           else return rustOptions
         else return rustOptions)"

definition rust_policy :: "classes \<Rightarrow> string \<Rightarrow> string \<Rightarrow> jsval \<Rightarrow> (string \<times> jsval) list \<Rightarrow> (string \<times> jsval) list result" where
  "rust_policy cs kind field policy rustOptions =
     (if \<not> truthy policy then return rustOptions
      else case rust_configuration cs policy of
        Inl e \<Rightarrow> throw (GenericError (''This '' @ kind @ '' policy ('' @ constructor_name policy
                   @ '') does not appear to be supported by the driver. Root cause: '' @ error_text e))
      | Inr c \<Rightarrow> return (rustOptions @ [(field, c)]))"

definition rust_address :: "jsval \<Rightarrow> (string \<times> jsval) list \<Rightarrow> (string \<times> jsval) list result" where
  "rust_address policy rustOptions =
     (if \<not> truthy policy then return rustOptions
      else if constructor_name policy = ''AddressTranslator'' then return (rustOptions @ [(''addressTranslatorConfig'', JUndefined)])
      else if constructor_name policy = ''MappingAddressTranslator'' then
        return (rustOptions @ [(''addressTranslatorConfig'', JObject [(''addressMapping'', Mapping_getRustConfiguration policy)])])
      else throw (GenericError ''Currently only MappingAddressTranslator is supported as address resolution policy''))"

definition rust_policies :: "classes \<Rightarrow> jsval \<Rightarrow> (string \<times> jsval) list \<Rightarrow> (string \<times> jsval) list result" where
  "rust_policies cs policies rustOptions =
     (if \<not> truthy policies then return rustOptions
      else rbind (rust_policy cs ''load balancing'' ''loadBalancingConfig'' (js_prop policies ''loadBalancing'') rustOptions) (\<lambda>r.
           rbind (rust_policy cs ''retry'' ''retryPolicy'' (js_prop policies ''retry'') r) (\<lambda>r.
           rust_address (js_prop policies ''addressResolution'') r)))"

text \<open>\<open>setRustOptions\<close>; a \<open>Uuid\<close> among the options is replaced by its text.\<close>

definition setRustOptions :: "classes \<Rightarrow> (string \<times> jsval) list \<Rightarrow> ((string \<times> jsval) list \<times> (string \<times> jsval) list) result" where
  "setRustOptions cs opts =
     (let opts = (if instance_of cs (get_prop opts ''id'') ''Uuid'' then obj_set opts ''id'' (JString (uuid_text (get_prop opts ''id''))) else opts);
          rustOptions = [(''connectPoints'', get_prop opts ''contactPoints''),
                         (''applicationName'', get_prop opts ''applicationName''),
                         (''applicationVersion'', get_prop opts ''applicationVersion''),
                         (''clientId'', get_prop opts ''id''),
                         (''keyspace'', get_prop opts ''keyspace'')]
                        @ (if truthy (get_prop opts ''maxPrepared'') then [(''cacheSize'', get_prop opts ''maxPrepared'')] else [])
      in rbind (rust_credentials cs opts rustOptions) (\<lambda>r.
         rbind (rust_policies cs (get_prop opts ''policies'') r) (\<lambda>r.
         rbind (if truthy (get_prop opts ''sslOptions'')
                then rbind (normalizeSslOptions cs (get_prop opts ''sslOptions'')) (\<lambda>v. return (r @ [(''sslOptions'', v)])) else return r) (\<lambda>r.
         if truthy (get_prop opts ''protocolOptions'') \<and> js_prop (get_prop opts ''protocolOptions'') ''noCompact'' \<noteq> JUndefined then
           throw (ReferenceError ''Protocol option noCompact is not supported by our driver'')
         else if get_prop opts ''cloud'' \<noteq> JUndefined then throw (ReferenceError ''Cloud options is not supported by our driver'')
         else if get_prop opts ''monitorReporting'' \<noteq> JUndefined then throw (ReferenceError ''Monitor reporting options is not supported by our driver'')
         else return (r, opts)))))"


text \<open>The part of the constructor of \<open>Client\<close> that reads the options; the emitter of the client and the random \<open>Uuid\<close> are
  arguments.\<close>

definition client_options :: "classes \<Rightarrow> jsval \<Rightarrow> jsval \<Rightarrow> jsval \<Rightarrow> ((string \<times> jsval) list \<times> (string \<times> jsval) list) result" where
  "client_options cs emit random userOptions =
     rbind (extend_options cs [(''logEmitter'', emit), (''id'', random)] userOptions) (setRustOptions cs)"

end
