(* ===== verification/Client_Options_Correct.thy ===== *)
theory Client_Options_Correct
  imports Client_Options
begin

text \<open>
  What the options of a client guarantee: which SSL options are accepted and what becomes of them, and what a session
  is given for the options of the user.
\<close>

section \<open>Properties of options\<close>

lemma get_prop_set [simp]: "get_prop (obj_set ps k v) x = (if k = x then v else get_prop ps x)"
  by (simp add: get_prop_def obj_get_set)

lemma get_prop_simps [simp]: "get_prop [] x = JUndefined" "get_prop ((k, v) # ps) x = (if k = x then v else get_prop ps x)"
  by (simp_all add: get_prop_def)

lemma get_prop_append [simp]: "get_prop (ps @ [(k, v)]) x = (if x = k \<and> obj_get ps k = None then v else get_prop ps x)"
  by (auto simp: get_prop_def obj_get_append split: option.splits)

section \<open>SSL options\<close>

text \<open>The steps of \<open>normalizeSslOptions\<close> as a list.\<close>

definition ssl_steps :: "classes \<Rightarrow> (string \<times> (jsval \<Rightarrow> jsval result)) list" where
  "ssl_steps cs =
     [(''ca'', normalize_ca), (''cert'', \<lambda>v. normalizeKey v ''cert''), (''dhparam'', \<lambda>v. normalizeKey v ''dhparam''),
      (''key'', \<lambda>v. normalizeKey v ''key''), (''pfx'', \<lambda>v. normalizeKey v ''pfx''), (''minVersion'', convertTlsVersion cs),
      (''maxVersion'', convertTlsVersion cs), (''secureOptions'', to_BigInt cs)]"

fun normalize_all :: "(string \<times> (jsval \<Rightarrow> jsval result)) list \<Rightarrow> (string \<times> jsval) list \<Rightarrow> (string \<times> jsval) list result" where
  "normalize_all [] n = return n"
| "normalize_all ((k, f) # fs) n = rbind (normalize_prop k f n) (normalize_all fs)"

definition normal_value :: "(jsval \<Rightarrow> jsval result) option \<Rightarrow> jsval \<Rightarrow> jsval" where
  "normal_value f v = (case f of Some g \<Rightarrow> if truthy v then projr (g v) else v | None \<Rightarrow> v)"

lemma normalize_all_get:
  assumes "normalize_all fs n = return n'" "distinct (map fst fs)"
  shows "get_prop n' x = normal_value (map_of fs x) (get_prop n x)"
  using assms
proof (induction fs arbitrary: n)
  case (Cons kf fs)
  obtain k f where kf: "kf = (k, f)" by (cases kf)
  obtain m where m: "normalize_prop k f n = return m" "normalize_all fs m = return n'" using Cons.prems(1) kf by auto
  have k: "map_of fs k = None" using Cons.prems(2) kf by (simp add: map_of_eq_None_iff)
  have "get_prop m x = (if x = k then normal_value (Some f) (get_prop n k) else get_prop n x)"
    using m(1) by (auto simp: normalize_prop_def normal_value_def split: if_splits)
  then show ?case using Cons.IH[OF m(2)] Cons.prems(2) kf k by (auto simp: normal_value_def)
qed (simp add: normal_value_def)

lemma normalize_all_returns:
  assumes "distinct (map fst fs)"
  shows "is_return (normalize_all fs n) \<longleftrightarrow> (\<forall>(k, f)\<in>set fs. truthy (get_prop n k) \<longrightarrow> is_return (f (get_prop n k)))"
  using assms
proof (induction fs arbitrary: n)
  case (Cons kf fs)
  obtain k f where kf: "kf = (k, f)" by (cases kf)
  show ?case
  proof (cases "truthy (get_prop n k)")
    case True
    show ?thesis
    proof (cases "f (get_prop n k)")
      case (Inr v)
      have "(\<forall>(x, g)\<in>set fs. truthy (get_prop (obj_set n k v) x) \<longrightarrow> is_return (g (get_prop (obj_set n k v) x)))
          \<longleftrightarrow> (\<forall>(x, g)\<in>set fs. truthy (get_prop n x) \<longrightarrow> is_return (g (get_prop n x)))"
        using Cons.prems kf by (intro ball_cong) (auto simp: image_iff)
      then show ?thesis using Cons kf True Inr by (auto simp: normalize_prop_def)
    qed (use kf True in \<open>simp add: normalize_prop_def\<close>)
  qed (use Cons kf in \<open>simp add: normalize_prop_def\<close>)
qed simp

lemma ssl_steps_all:
  "truthy v \<Longrightarrow> normalizeSslOptions cs v =
     rbind (normalize_all (ssl_steps cs) (enumerable v)) (\<lambda>n.
        if truthy (get_prop n ''cert'') \<noteq> truthy (get_prop n ''key'') then
          throw (ArgumentError ''Both cert and key must be provided together in sslOptions.'')
        else if truthy (get_prop n ''pfx'') \<and> truthy (get_prop n ''cert'') then
          throw (ArgumentError ''Only one of (pfx) or (cert with key) must be provided in sslOptions.'')
        else return (JObject n))"
  by (simp add: normalizeSslOptions_def ssl_steps_def rbind_assoc)

text \<open>A key or a certificate is a text or a buffer, and missing when it is empty.\<close>

fun key_text :: "jsval \<Rightarrow> string option" where
  "key_text (JString s) = Some s"
| "key_text (JInstance c bytes) = (if c = ''Buffer'' then Some (map (\<lambda>(_, b). char_of (nat (the_number b))) bytes) else None)"
| "key_text v = None"

definition given :: "jsval \<Rightarrow> bool" where
  "given v \<longleftrightarrow> key_text v \<noteq> None \<and> key_text v \<noteq> Some []"

lemma normalizeKey_text: "normalizeKey v name = (case key_text v of Some s \<Rightarrow> return (JString s)
    | None \<Rightarrow> throw (TypeError (''Unexpected type for '' @ name @ ''. Expected to be string or buffer'')))"
  by (cases v) auto

definition tls_names :: "(string \<times> string) list" where
  "tls_names = [(''TLSV1'', ''Tlsv1''), (''TLSV1.1'', ''Tlsv1_1''), (''TLSV1.2'', ''Tlsv1_2''), (''TLSV1.3'', ''Tlsv1_3'')]"

definition tls_name :: "jsval \<Rightarrow> string option" where
  "tls_name v = (if is_string v then map_of tls_names (map to_upper (the_string v)) else None)"

lemma convertTlsVersion_name: "convertTlsVersion cs v = (case tls_name v of Some t \<Rightarrow> return (TlsVersion cs t)
    | None \<Rightarrow> throw (TypeError (if is_string v then ''Invalid TLS version. Expected one of: TLSv1, TLSv1.1, TLSv1.2, TLSv1.3.'' else ''TLS version must be a string'')))"
proof (cases "is_string v")
  case True
  define u where "u = map to_upper (the_string v)"
  show ?thesis unfolding convertTlsVersion_def tls_name_def tls_names_def Let_def u_def[symmetric] using True by simp
qed (simp add: convertTlsVersion_def tls_name_def)

definition ca_texts :: "jsval \<Rightarrow> string option list" where
  "ca_texts v = map key_text (case array_items v of Some xs \<Rightarrow> xs | None \<Rightarrow> [v])"

lemma rmap_keys: "rmap (\<lambda>e. normalizeKey e name) xs =
    (if None \<in> set (map key_text xs) then throw (TypeError (''Unexpected type for '' @ name @ ''. Expected to be string or buffer''))
     else return (map (JString \<circ> the \<circ> key_text) xs))"
  by (induction xs) (auto simp: normalizeKey_text split: option.splits)

lemma normalize_ca_texts: "normalize_ca v =
    (if None \<in> set (ca_texts v) then throw (TypeError ''Unexpected type for ca. Expected to be string or buffer'')
     else return (JArray (map (JString \<circ> the) (ca_texts v))))"
proof -
  have "normalize_ca v = rbind (rmap (\<lambda>e. normalizeKey e ''ca'') (case array_items v of Some xs \<Rightarrow> xs | None \<Rightarrow> [v])) (\<lambda>ys. return (JArray ys))"
    by (cases v) simp_all
  then show ?thesis by (simp add: rmap_keys ca_texts_def comp_assoc)
qed

text \<open>What SSL options have to be: each of its type, and fitting together.\<close>

definition ssl_types :: "classes \<Rightarrow> (string \<times> jsval) list \<Rightarrow> bool" where
  "ssl_types cs n \<longleftrightarrow>
     (\<forall>k\<in>{''cert'', ''dhparam'', ''key'', ''pfx''}. truthy (get_prop n k) \<longrightarrow> key_text (get_prop n k) \<noteq> None)
     \<and> (truthy (get_prop n ''ca'') \<longrightarrow> None \<notin> set (ca_texts (get_prop n ''ca'')))
     \<and> (\<forall>k\<in>{''minVersion'', ''maxVersion''}. truthy (get_prop n k) \<longrightarrow> tls_name (get_prop n k) \<noteq> None)
     \<and> (truthy (get_prop n ''secureOptions'') \<longrightarrow> is_return (to_BigInt cs (get_prop n ''secureOptions'')))"

definition ssl_valid :: "classes \<Rightarrow> (string \<times> jsval) list \<Rightarrow> bool" where
  "ssl_valid cs n \<longleftrightarrow> ssl_types cs n
     \<and> (given (get_prop n ''cert'') \<longleftrightarrow> given (get_prop n ''key''))
     \<and> \<not> (given (get_prop n ''pfx'') \<and> given (get_prop n ''cert''))"

lemma given_truthy: "given v \<Longrightarrow> truthy v"
  by (cases v) (auto simp: given_def)

lemma truthy_normal: "(truthy v \<longrightarrow> key_text v \<noteq> None) \<Longrightarrow> truthy (normal_value (Some (\<lambda>v. normalizeKey v name)) v) \<longleftrightarrow> given v"
  by (cases v) (auto simp: normal_value_def given_def)

lemma distinct_steps [simp]: "distinct (map fst (ssl_steps cs))"
  by (simp add: ssl_steps_def)

lemma ssl_steps_return:
  "is_return (normalize_all (ssl_steps cs) n) \<longleftrightarrow> ssl_types cs n"
proof -
  have k: "is_return (normalizeKey v name) \<longleftrightarrow> key_text v \<noteq> None" for v name by (simp add: normalizeKey_text split: option.splits)
  have c: "is_return (normalize_ca v) \<longleftrightarrow> None \<notin> set (ca_texts v)" for v by (simp add: normalize_ca_texts)
  have t: "is_return (convertTlsVersion cs v) \<longleftrightarrow> tls_name v \<noteq> None" for v by (simp add: convertTlsVersion_name split: option.splits)
  show ?thesis unfolding normalize_all_returns[OF distinct_steps, of cs n]
    unfolding ssl_types_def ssl_steps_def list.set ball_simps prod.case k c t by blast
qed


lemma ssl_outcome:
  assumes "truthy v"
  shows "let o' = get_prop (enumerable v) in
    if ssl_valid cs (enumerable v)
    then \<exists>n. normalizeSslOptions cs v = return (JObject n)
      \<and> (\<forall>k\<in>{''cert'', ''dhparam'', ''key'', ''pfx''}. truthy (o' k) \<longrightarrow> get_prop n k = JString (the (key_text (o' k))))
      \<and> (truthy (o' ''ca'') \<longrightarrow> get_prop n ''ca'' = JArray (map (JString \<circ> the) (ca_texts (o' ''ca''))))
      \<and> (\<forall>k\<in>{''minVersion'', ''maxVersion''}. truthy (o' k) \<longrightarrow> get_prop n k = TlsVersion cs (the (tls_name (o' k))))
      \<and> (truthy (get_prop n ''cert'') \<longleftrightarrow> truthy (get_prop n ''key'')) \<and> \<not> (truthy (get_prop n ''pfx'') \<and> truthy (get_prop n ''cert''))
      \<and> (\<forall>k. k \<notin> fst ` set (ssl_steps cs) \<or> \<not> truthy (o' k) \<longrightarrow> get_prop n k = o' k)
    else \<exists>e. normalizeSslOptions cs v = throw e"
proof (cases "normalize_all (ssl_steps cs) (enumerable v)")
  case (Inl e)
  then have "\<not> ssl_valid cs (enumerable v)" using ssl_steps_return[of cs "enumerable v"] unfolding ssl_valid_def by simp
  then show ?thesis using ssl_steps_all[OF assms, of cs] Inl by simp
next
  case (Inr n)
  let ?o = "get_prop (enumerable v)"
  note get = normalize_all_get[OF Inr distinct_steps]
  have ok: "\<forall>k\<in>{''cert'', ''dhparam'', ''key'', ''pfx''}. truthy (?o k) \<longrightarrow> key_text (?o k) \<noteq> None"
    "truthy (?o ''ca'') \<longrightarrow> None \<notin> set (ca_texts (?o ''ca''))"
    "\<forall>k\<in>{''minVersion'', ''maxVersion''}. truthy (?o k) \<longrightarrow> tls_name (?o k) \<noteq> None"
    "truthy (?o ''secureOptions'') \<longrightarrow> is_return (to_BigInt cs (?o ''secureOptions''))"
    using ssl_steps_return[of cs "enumerable v"] Inr unfolding ssl_types_def by simp_all
  have step: "map_of (ssl_steps cs) k = Some (\<lambda>v. normalizeKey v k)" if "k \<in> {''cert'', ''dhparam'', ''key'', ''pfx''}" for k
    using that by (auto simp: ssl_steps_def)
  have given: "truthy (get_prop n k) \<longleftrightarrow> given (?o k)" if "k \<in> {''cert'', ''dhparam'', ''key'', ''pfx''}" for k
    using that ok(1) truthy_normal[of "?o k" k] unfolding get step[OF that] by blast
  have valid: "ssl_valid cs (enumerable v) \<longleftrightarrow> (truthy (get_prop n ''cert'') \<longleftrightarrow> truthy (get_prop n ''key''))
      \<and> \<not> (truthy (get_prop n ''pfx'') \<and> truthy (get_prop n ''cert''))"
    using ssl_steps_return[of cs "enumerable v"] Inr given by (simp add: ssl_valid_def)
  have keys: "\<forall>k\<in>{''cert'', ''dhparam'', ''key'', ''pfx''}. truthy (?o k) \<longrightarrow> get_prop n k = JString (the (key_text (?o k)))"
  proof (intro ballI impI)
    fix k assume k: "k \<in> {''cert'', ''dhparam'', ''key'', ''pfx''}" and t: "truthy (?o k)"
    then obtain s where "key_text (?o k) = Some s" using ok(1) by blast
    then show "get_prop n k = JString (the (key_text (?o k)))" using t unfolding get step[OF k] by (simp add: normal_value_def normalizeKey_text)
  qed
  have ca: "truthy (?o ''ca'') \<longrightarrow> get_prop n ''ca'' = JArray (map (JString \<circ> the) (ca_texts (?o ''ca'')))"
    using ok(2) by (simp add: get ssl_steps_def normal_value_def normalize_ca_texts)
  have versions: "\<forall>k\<in>{''minVersion'', ''maxVersion''}. truthy (?o k) \<longrightarrow> get_prop n k = TlsVersion cs (the (tls_name (?o k)))"
    using ok(3) by (auto simp: get ssl_steps_def normal_value_def convertTlsVersion_name)
  have others: "\<forall>k. k \<notin> fst ` set (ssl_steps cs) \<or> \<not> truthy (?o k) \<longrightarrow> get_prop n k = ?o k"
    by (auto simp: get normal_value_def map_of_eq_None_iff[symmetric] split: option.splits)
  show ?thesis
  proof (cases "ssl_valid cs (enumerable v)")
    case True
    then have "normalizeSslOptions cs v = return (JObject n)" using ssl_steps_all[OF assms, of cs] Inr valid by auto
    moreover have "truthy (get_prop n ''cert'') \<longleftrightarrow> truthy (get_prop n ''key'')" "\<not> (truthy (get_prop n ''pfx'') \<and> truthy (get_prop n ''cert''))"
      using True valid by auto
    ultimately show ?thesis unfolding Let_def if_P[OF True] using keys ca versions others by (intro exI[of _ n] conjI) assumption+
  next
    case False
    then have "\<exists>e. normalizeSslOptions cs v = throw e" using ssl_steps_all[OF assms, of cs] Inr valid by auto
    then show ?thesis using False by simp
  qed
qed

text \<open>C25: SSL options are accepted exactly when every key and certificate is a text or a buffer, the versions are known,
  the bit flags are a number, and a certificate that is not empty comes with such a key and without such a \<open>pfx\<close>.
  The native driver is then given the texts of the keys and certificates, a list of authorities, the versions as its own, and
  every other option as it is.\<close>

theorem ssl_options_checked:
  assumes "truthy v"
  shows "let o' = get_prop (enumerable v) in
    if ssl_valid cs (enumerable v)
    then \<exists>n. normalizeSslOptions cs v = return (JObject n)
      \<and> (\<forall>k\<in>{''cert'', ''dhparam'', ''key'', ''pfx''}. truthy (o' k) \<longrightarrow> get_prop n k = JString (the (key_text (o' k))))
      \<and> (truthy (o' ''ca'') \<longrightarrow> get_prop n ''ca'' = JArray (map (JString \<circ> the) (ca_texts (o' ''ca''))))
      \<and> (\<forall>k\<in>{''minVersion'', ''maxVersion''}. truthy (o' k) \<longrightarrow> get_prop n k = TlsVersion cs (the (tls_name (o' k))))
      \<and> (truthy (get_prop n ''cert'') \<longleftrightarrow> truthy (get_prop n ''key'')) \<and> \<not> (truthy (get_prop n ''pfx'') \<and> truthy (get_prop n ''cert''))
      \<and> (\<forall>k. k \<notin> fst ` set (ssl_steps cs) \<or> \<not> truthy (o' k) \<longrightarrow> get_prop n k = o' k)
    else \<exists>e. normalizeSslOptions cs v = throw e"
  using assms by (rule ssl_outcome)

lemma ssl_options_checked_witness:
  "\<exists>n. normalizeSslOptions \<lparr>ancestors = \<lambda>_. [], prototype = \<lambda>_. None, rust_configuration = \<lambda>_. return JNull, TlsVersion = JString, text_BigInt = \<lambda>_. None\<rparr>
      (JObject [(''cert'', JString ''c''), (''key'', JInstance ''Buffer'' [(''0'', JNum 107)]), (''minVersion'', JString ''tlsv1.2'')]) = return (JObject n)
    \<and> get_prop n ''key'' = JString ''k'' \<and> get_prop n ''minVersion'' = JString ''Tlsv1_2''"
proof -
  let ?cs = "\<lparr>ancestors = \<lambda>_. [], prototype = \<lambda>_. None, rust_configuration = \<lambda>_. return JNull, TlsVersion = JString, text_BigInt = \<lambda>_. None\<rparr>"
  let ?v = "JObject [(''cert'', JString ''c''), (''key'', JInstance ''Buffer'' [(''0'', JNum 107)]), (''minVersion'', JString ''tlsv1.2'')]"
  have t: "tls_name (JString ''tlsv1.2'') = Some ''Tlsv1_2''" by code_simp
  have "key_text (JInstance ''Buffer'' [(''0'', JNum 107)]) = Some ''k''" by code_simp
  moreover have "ssl_valid ?cs (enumerable ?v)" using t by (simp add: ssl_valid_def ssl_types_def given_def)
  ultimately show ?thesis using ssl_options_checked[of ?v ?cs] t by (simp add: Let_def) blast
qed


section \<open>From the options of the user to those of the session\<close>

text \<open>The value of an option after the defaults, for an option that neither the defaults nor the constructor set.\<close>

abbreviation checked_options :: "jsval \<Rightarrow> jsval \<Rightarrow> jsval \<Rightarrow> (string \<times> jsval) list" where
  "checked_options emit random user \<equiv> deepExtend [(''logEmitter'', emit), (''id'', random)] [JObject defaultOptions, user]"

lemma distinct_defaults: "distinct (map fst defaultOptions)"
  by (simp add: defaultOptions_def)

lemma with_defaults_get:
  assumes "distinct (map fst (enumerable user))"
  shows "obj_get (checked_options emit random user) k =
    (let d = obj_get (deepExtend_source [(''logEmitter'', emit), (''id'', random)] (JObject defaultOptions)) k
     in case obj_get (enumerable user) k of None \<Rightarrow> d | Some v \<Rightarrow> Some (deep_merge d v))"
  using deepExtend_source_get[OF assms] by (simp add: deepExtend_def Let_def)

lemma default_get: "obj_get (deepExtend_source [(''logEmitter'', emit), (''id'', random)] (JObject defaultOptions)) k =
    (case obj_get defaultOptions k of None \<Rightarrow> obj_get [(''logEmitter'', emit), (''id'', random)] k
     | Some v \<Rightarrow> Some (deep_merge (obj_get [(''logEmitter'', emit), (''id'', random)] k) v))"
  using deepExtend_source_get[of "JObject defaultOptions"] distinct_defaults by simp

lemma user_option:
  assumes "distinct (map fst (enumerable user))" "k \<in> {''contactPoints'', ''keyspace'', ''credentials'', ''sslOptions'', ''applicationName'', ''applicationVersion''}"
  shows "get_prop (checked_options emit random user) k = get_prop (enumerable user) k"
proof -
  have "\<forall>k\<in>{''contactPoints'', ''keyspace'', ''credentials'', ''sslOptions'', ''applicationName'', ''applicationVersion''}. obj_get defaultOptions k = None"
    by (simp add: defaultOptions_def)
  then have "obj_get defaultOptions k = None" using assms(2) by (rule bspec)
  moreover have "obj_get [(''logEmitter'', emit), (''id'', random)] k = None" using assms(2) by auto
  ultimately show ?thesis unfolding get_prop_def with_defaults_get[OF assms(1)] default_get by (simp add: Let_def deep_merge_def split: option.splits)
qed

lemma user_policy:
  assumes "distinct (map fst (enumerable user))" "distinct (map fst (enumerable (get_prop (enumerable user) ''policies'')))"
  shows "js_prop (get_prop (checked_options emit random user) ''policies'') k =
    (case obj_get (enumerable (get_prop (enumerable user) ''policies'')) k of
       None \<Rightarrow> get_prop default_policies k
     | Some p \<Rightarrow> deep_merge (obj_get default_policies k) p)"
proof -
  have d: "obj_get (deepExtend_source [(''logEmitter'', emit), (''id'', random)] (JObject defaultOptions)) ''policies'' = Some (JObject default_policies)"
    unfolding default_get by (simp add: defaultOptions_def deep_merge_def)
  show ?thesis
  proof (cases "obj_get (enumerable user) ''policies''")
    case None
    then show ?thesis using d unfolding get_prop_def with_defaults_get[OF assms(1)] by (simp add: Let_def get_prop_def)
  next
    case (Some p)
    then have "distinct (map fst (enumerable p))" using assms(2) by (simp add: get_prop_def)
    from deepExtend_source_get[OF this, of default_policies k]
    show ?thesis using Some d unfolding get_prop_def with_defaults_get[OF assms(1)]
      by (simp add: Let_def deep_merge_def get_prop_def split: option.splits)
  qed
qed

text \<open>The options that \<open>extend\<close> changes after the defaults are laid under.\<close>

lemma extend_options_checks:
  assumes "extend_options cs base user = return opts"
  obtains o1 o2 where "\<And>k. k \<notin> {''sni'', ''logEmitter''} \<Longrightarrow> get_prop o1 k = get_prop (deepExtend base [JObject defaultOptions, user]) k"
    "contact_points (get_prop (deepExtend base [JObject defaultOptions, user]) ''contactPoints'') = return ()"
    "validatePoliciesOptions cs (get_prop o1 ''policies'') = return ()"
    "validateAuthenticationOptions cs o1 = return o2"
    "opts = obj_set o2 ''encoding'' (if truthy (get_prop o2 ''encoding'') then get_prop o2 ''encoding'' else JObject [])"
    "validateApplicationInfo cs opts = return ()"
proof -
  let ?d = "deepExtend base [JObject defaultOptions, user]"
  let ?e = "obj_set ?d ''sni'' JUndefined"
  define o1 where "o1 = (if truthy (get_prop ?e ''logEmitter'') then ?e else obj_set ?e ''logEmitter'' (JFunction []))"
  have "get_prop o1 k = get_prop ?d k" if "k \<notin> {''sni'', ''logEmitter''}" for k using that by (auto simp: o1_def)
  moreover have "contact_points (get_prop ?d ''contactPoints'') = return ()" "validatePoliciesOptions cs (get_prop o1 ''policies'') = return ()"
    "\<exists>o2. validateAuthenticationOptions cs o1 = return o2
       \<and> opts = obj_set o2 ''encoding'' (if truthy (get_prop o2 ''encoding'') then get_prop o2 ''encoding'' else JObject [])
       \<and> validateApplicationInfo cs opts = return ()"
    using assms unfolding extend_options_def Let_def o1_def[symmetric] rbind_eq_Inr by (auto simp del: get_prop_set split: if_splits)
  ultimately show thesis using that by blast
qed

lemma validateAuthenticationOptions_get:
  assumes "validateAuthenticationOptions cs opts = return opts'"
  shows "k \<noteq> ''authProvider'' \<Longrightarrow> get_prop opts' k = get_prop opts k"
    and "truthy (get_prop opts' ''authProvider'') \<Longrightarrow> instance_of cs (get_prop opts' ''authProvider'') ''AuthProvider''"
    and "\<not> truthy (get_prop opts' ''authProvider'') \<Longrightarrow> truthy (get_prop opts ''credentials'')
      \<and> is_string (js_prop (get_prop opts ''credentials'') ''username'') \<and> is_string (js_prop (get_prop opts ''credentials'') ''password'')"
  using assms by (auto simp: validateAuthenticationOptions_def driver_classes_def Let_def split: if_splits)

lemma contact_points_given: "contact_points v = return u \<Longrightarrow> \<exists>hosts. v = JArray hosts \<and> hosts \<noteq> [] \<and> list_all truthy hosts"
  by (cases v) (auto simp: contact_points_def split: if_splits)


lemma instance_truthy: "instance_of cs v d \<Longrightarrow> truthy v"
  by (cases v) auto

text \<open>What the credentials of the session are: those among the options, or those of a provider of plain texts.\<close>

definition session_credentials :: "classes \<Rightarrow> (string \<times> jsval) list \<Rightarrow> jsval option" where
  "session_credentials cs opts =
     (if truthy (get_prop opts ''credentials'') then Some (get_prop opts ''credentials'')
      else if instance_of cs (get_prop opts ''authProvider'') ''PlainTextAuthProvider'' then Some (get_prop opts ''authProvider'')
      else None)"

lemma rust_credentials_added:
  "rust_credentials cs opts r = return r' \<Longrightarrow>
     r' = r @ (case session_credentials cs opts of None \<Rightarrow> [] | Some c \<Rightarrow> [(''credentialsUsername'', js_prop c ''username''), (''credentialsPassword'', js_prop c ''password'')])"
  by (auto simp: rust_credentials_def session_credentials_def Let_def dest: instance_truthy split: if_splits)

definition address_config :: "jsval \<Rightarrow> jsval" where
  "address_config p = (if constructor_name p = ''AddressTranslator'' then JUndefined else JObject [(''addressMapping'', Mapping_getRustConfiguration p)])"

lemma rust_policies_added:
  assumes "rust_policies cs policies r = return r'" "validatePoliciesOptions cs policies = return ()"
  obtains lb rp where "rust_configuration cs (js_prop policies ''loadBalancing'') = return lb" "rust_configuration cs (js_prop policies ''retry'') = return rp"
    "constructor_name (js_prop policies ''addressResolution'') \<in> {''AddressTranslator'', ''MappingAddressTranslator''}"
    "r' = r @ [(''loadBalancingConfig'', lb), (''retryPolicy'', rp), (''addressTranslatorConfig'', address_config (js_prop policies ''addressResolution''))]"
proof -
  have t: "truthy policies" "truthy (js_prop policies ''loadBalancing'')" "truthy (js_prop policies ''retry'')" "truthy (js_prop policies ''addressResolution'')"
    using assms(2) by (auto simp: validatePoliciesOptions_def dest: instance_truthy split: if_splits)
  then obtain lb rp where c: "rust_configuration cs (js_prop policies ''loadBalancing'') = return lb" "rust_configuration cs (js_prop policies ''retry'') = return rp"
    using assms(1) by (auto simp: rust_policies_def rust_policy_def split: sum.splits)
  with t assms(1) have "rust_address (js_prop policies ''addressResolution'') (r @ [(''loadBalancingConfig'', lb), (''retryPolicy'', rp)]) = return r'"
    by (simp add: rust_policies_def rust_policy_def)
  then have "constructor_name (js_prop policies ''addressResolution'') \<in> {''AddressTranslator'', ''MappingAddressTranslator''}"
    "r' = r @ [(''loadBalancingConfig'', lb), (''retryPolicy'', rp), (''addressTranslatorConfig'', address_config (js_prop policies ''addressResolution''))]"
    using t(4) by (auto simp: rust_address_def address_config_def split: if_splits)
  then show thesis using that c by blast
qed

definition with_id_text :: "classes \<Rightarrow> (string \<times> jsval) list \<Rightarrow> (string \<times> jsval) list" where
  "with_id_text cs opts = (if instance_of cs (get_prop opts ''id'') ''Uuid'' then obj_set opts ''id'' (JString (uuid_text (get_prop opts ''id''))) else opts)"

definition session_props :: "(string \<times> jsval) list \<Rightarrow> jsval \<Rightarrow> jsval option \<Rightarrow> jsval \<Rightarrow> jsval \<Rightarrow> jsval \<Rightarrow> jsval option \<Rightarrow> (string \<times> jsval) list" where
  "session_props opts cid creds lb rp ac ssl =
     [(''connectPoints'', get_prop opts ''contactPoints''), (''applicationName'', get_prop opts ''applicationName''),
      (''applicationVersion'', get_prop opts ''applicationVersion''), (''clientId'', cid), (''keyspace'', get_prop opts ''keyspace'')]
     @ (if truthy (get_prop opts ''maxPrepared'') then [(''cacheSize'', get_prop opts ''maxPrepared'')] else [])
     @ (case creds of None \<Rightarrow> [] | Some c \<Rightarrow> [(''credentialsUsername'', js_prop c ''username''), (''credentialsPassword'', js_prop c ''password'')])
     @ [(''loadBalancingConfig'', lb), (''retryPolicy'', rp), (''addressTranslatorConfig'', ac)]
     @ (case ssl of None \<Rightarrow> [] | Some v \<Rightarrow> [(''sslOptions'', v)])"

lemma session_props_get:
  "get_prop (session_props opts cid creds lb rp ac ssl) ''connectPoints'' = get_prop opts ''contactPoints''"
  "get_prop (session_props opts cid creds lb rp ac ssl) ''keyspace'' = get_prop opts ''keyspace''"
  "get_prop (session_props opts cid creds lb rp ac ssl) ''clientId'' = cid"
  "get_prop (session_props opts cid (Some c) lb rp ac ssl) ''credentialsUsername'' = js_prop c ''username''"
  "get_prop (session_props opts cid (Some c) lb rp ac ssl) ''credentialsPassword'' = js_prop c ''password''"
  "get_prop (session_props opts cid creds lb rp ac ssl) ''loadBalancingConfig'' = lb"
  "get_prop (session_props opts cid creds lb rp ac ssl) ''retryPolicy'' = rp"
  "get_prop (session_props opts cid creds lb rp ac (Some v)) ''sslOptions'' = v"
  by (simp_all add: session_props_def get_prop_def obj_get_append split: option.splits)

lemma setRustOptions_parts:
  assumes "setRustOptions cs opts = return (r, opts')" "validatePoliciesOptions cs (get_prop opts ''policies'') = return ()"
  obtains lb rp where "opts' = with_id_text cs opts"
    "rust_configuration cs (js_prop (get_prop opts ''policies'') ''loadBalancing'') = return lb"
    "rust_configuration cs (js_prop (get_prop opts ''policies'') ''retry'') = return rp"
    "truthy (get_prop opts ''sslOptions'') \<Longrightarrow> is_return (normalizeSslOptions cs (get_prop opts ''sslOptions''))"
    "r = session_props opts (get_prop opts' ''id'') (session_credentials cs opts) lb rp (address_config (js_prop (get_prop opts ''policies'') ''addressResolution''))
       (if truthy (get_prop opts ''sslOptions'') then Some (projr (normalizeSslOptions cs (get_prop opts ''sslOptions''))) else None)"
proof -
  let ?o = "with_id_text cs opts"
  have o: "get_prop ?o k = get_prop opts k" if "k \<noteq> ''id''" for k using that by (simp add: with_id_text_def)
  have sc: "session_credentials cs ?o = session_credentials cs opts" by (simp add: session_credentials_def o)
  let ?r = "[(''connectPoints'', get_prop opts ''contactPoints''), (''applicationName'', get_prop opts ''applicationName''),
          (''applicationVersion'', get_prop opts ''applicationVersion''), (''clientId'', get_prop ?o ''id''), (''keyspace'', get_prop opts ''keyspace'')]
       @ (if truthy (get_prop opts ''maxPrepared'') then [(''cacheSize'', get_prop opts ''maxPrepared'')] else [])"
  have rest: "\<exists>r1 r2. rust_credentials cs ?o ?r = return r1 \<and> rust_policies cs (get_prop opts ''policies'') r1 = return r2 \<and> opts' = ?o
      \<and> (truthy (get_prop opts ''sslOptions'') \<longrightarrow> (\<exists>v. normalizeSslOptions cs (get_prop opts ''sslOptions'') = return v \<and> r = r2 @ [(''sslOptions'', v)]))
      \<and> (\<not> truthy (get_prop opts ''sslOptions'') \<longrightarrow> r = r2)"
    using assms(1) unfolding setRustOptions_def Let_def with_id_text_def[symmetric] by (auto simp: o split: if_splits)
  then obtain r1 r2 where r: "rust_credentials cs ?o ?r = return r1" "rust_policies cs (get_prop opts ''policies'') r1 = return r2" "opts' = ?o"
    "truthy (get_prop opts ''sslOptions'') \<longrightarrow> (\<exists>v. normalizeSslOptions cs (get_prop opts ''sslOptions'') = return v \<and> r = r2 @ [(''sslOptions'', v)])"
    "\<not> truthy (get_prop opts ''sslOptions'') \<longrightarrow> r = r2" by blast
  from rust_policies_added[OF r(2) assms(2)] obtain lb rp where p:
    "rust_configuration cs (js_prop (get_prop opts ''policies'') ''loadBalancing'') = return lb"
    "rust_configuration cs (js_prop (get_prop opts ''policies'') ''retry'') = return rp"
    "r2 = r1 @ [(''loadBalancingConfig'', lb), (''retryPolicy'', rp), (''addressTranslatorConfig'', address_config (js_prop (get_prop opts ''policies'') ''addressResolution''))]"
    by blast
  show thesis
    by (rule that[OF r(3) p(1,2)]) (use r p(3) rust_credentials_added[OF r(1)] sc in \<open>auto simp: session_props_def\<close>)
qed


text \<open>The policy that a client uses.\<close>

definition policy_of :: "jsval \<Rightarrow> string \<Rightarrow> jsval" where
  "policy_of user k = (case obj_get (enumerable (get_prop (enumerable user) ''policies'')) k of None \<Rightarrow> get_prop default_policies k | Some p \<Rightarrow> p)"

lemma user_policy_replaces:
  assumes "distinct (map fst (enumerable user))" "distinct (map fst (enumerable (get_prop (enumerable user) ''policies'')))"
  shows "js_prop (get_prop (checked_options emit random user) ''policies'') k = policy_of user k"
proof -
  have "deep_merge (obj_get default_policies k) p = p" for p by (simp add: default_policies_def deep_merge_def)
  then show ?thesis unfolding user_policy[OF assms] policy_of_def by (simp split: option.splits)
qed

lemma id_checked:
  "validateApplicationInfo cs opts = return () \<Longrightarrow> get_prop (with_id_text cs opts) ''id'' \<in> {JNull, JUndefined} \<or> is_string (get_prop (with_id_text cs opts) ''id'')"
  by (auto simp: validateApplicationInfo_def with_id_text_def Let_def split: if_splits)

lemma ssl_accepted: "truthy v \<Longrightarrow> is_return (normalizeSslOptions cs v) \<Longrightarrow> ssl_valid cs (enumerable v)"
  using ssl_outcome[of v cs] by (auto simp: Let_def split: if_splits)

lemma client_options_parts:
  assumes "client_options cs emit random user = return (r, opts)"
    "distinct (map fst (enumerable user))" "distinct (map fst (enumerable (get_prop (enumerable user) ''policies'')))"
  obtains o3 where "\<And>k. k \<in> {''contactPoints'', ''keyspace'', ''credentials'', ''sslOptions''} \<Longrightarrow> get_prop o3 k = get_prop (enumerable user) k"
    "contact_points (get_prop (enumerable user) ''contactPoints'') = return ()" "validatePoliciesOptions cs (get_prop o3 ''policies'') = return ()"
    "\<And>k. js_prop (get_prop o3 ''policies'') k = policy_of user k"
    "\<not> truthy (get_prop o3 ''authProvider'') \<Longrightarrow> truthy (get_prop (enumerable user) ''credentials'')
      \<and> is_string (js_prop (get_prop (enumerable user) ''credentials'') ''username'') \<and> is_string (js_prop (get_prop (enumerable user) ''credentials'') ''password'')"
    "validateApplicationInfo cs o3 = return ()" "setRustOptions cs o3 = return (r, opts)"
proof -
  let ?u = "get_prop (enumerable user)" and ?d = "checked_options emit random user"
  obtain o3 where e: "extend_options cs [(''logEmitter'', emit), (''id'', random)] user = return o3" and s: "setRustOptions cs o3 = return (r, opts)"
    using assms(1) by (auto simp: client_options_def)
  from extend_options_checks[OF e] obtain o1 o2 where
    o1: "\<And>k. k \<notin> {''sni'', ''logEmitter''} \<Longrightarrow> get_prop o1 k = get_prop ?d k"
    and cp: "contact_points (get_prop ?d ''contactPoints'') = return ()"
    and vp: "validatePoliciesOptions cs (get_prop o1 ''policies'') = return ()"
    and o2: "validateAuthenticationOptions cs o1 = return o2"
    and o3: "o3 = obj_set o2 ''encoding'' (if truthy (get_prop o2 ''encoding'') then get_prop o2 ''encoding'' else JObject [])"
    and info: "validateApplicationInfo cs o3 = return ()" by metis
  have o: "get_prop o3 k = get_prop ?d k" "get_prop o1 k = get_prop ?d k"
    if "k \<in> {''contactPoints'', ''keyspace'', ''credentials'', ''sslOptions'', ''policies''}" for k
  proof -
    have "k \<noteq> ''sni'' \<and> k \<noteq> ''logEmitter'' \<and> k \<noteq> ''authProvider'' \<and> k \<noteq> ''encoding''" using that by auto
    then show "get_prop o3 k = get_prop ?d k" "get_prop o1 k = get_prop ?d k"
      using o1[of k] validateAuthenticationOptions_get(1)[OF o2, of k] by (auto simp: o3)
  qed
  have u: "get_prop ?d k = ?u k" if "k \<in> {''contactPoints'', ''keyspace'', ''credentials'', ''sslOptions''}" for k
    using that user_option[OF assms(2), of k emit random] by blast
  show thesis
  proof (rule that[of o3])
    show "js_prop (get_prop o3 ''policies'') k = policy_of user k" for k
      using o(1)[of "''policies''"] user_policy_replaces[OF assms(2,3)] by simp
    show "truthy (?u ''credentials'') \<and> is_string (js_prop (?u ''credentials'') ''username'') \<and> is_string (js_prop (?u ''credentials'') ''password'')"
      if "\<not> truthy (get_prop o3 ''authProvider'')"
      using that validateAuthenticationOptions_get(3)[OF o2] o(2)[of "''credentials''"] u[of "''credentials''"] by (simp add: o3)
    show "get_prop o3 k = ?u k" if "k \<in> {''contactPoints'', ''keyspace'', ''credentials'', ''sslOptions''}" for k
    proof -
      have "k \<in> {''contactPoints'', ''keyspace'', ''credentials'', ''sslOptions'', ''policies''}" using that by auto
      from o(1)[OF this] u[OF that] show ?thesis by simp
    qed
  qed (use cp u[of "''contactPoints''"] vp o(1,2)[of "''policies''"] info s in simp_all)
qed

text \<open>Options of a user, with classes of no user.\<close>

definition plain_classes :: classes where
  "plain_classes = \<lparr>ancestors = \<lambda>_. [], prototype = \<lambda>_. None, rust_configuration = (\<lambda>p. return (JString (constructor_name p))),
     TlsVersion = JString, text_BigInt = \<lambda>_. None\<rparr>"

definition plain_user :: jsval where
  "plain_user = JObject [(''contactPoints'', JArray [JString ''127.0.0.1'']), (''keyspace'', JString ''ks''),
     (''credentials'', JObject [(''username'', JString ''u''), (''password'', JString ''p'')])]"



text \<open>Credentials that are no texts are not refused when there is a provider, and are handed to the native driver.\<close>

lemma credentials_unchecked:
  "(case client_options plain_classes (JFunction ''emit'') (JInstance ''Uuid'' [])
      (JObject [(''contactPoints'', JArray [JString ''127.0.0.1'']), (''authProvider'', JInstance ''NoAuthProvider'' []),
        (''credentials'', JObject [(''username'', JNum 5)])]) of
      Inl e \<Rightarrow> False | Inr (r, opts) \<Rightarrow> get_prop r ''credentialsUsername'' = JNum 5 \<and> get_prop r ''credentialsPassword'' = JUndefined)"
  by code_simp

end
