(* ===== verification/Result_Set.thy ===== *)
theory Result_Set
  imports Client_Execution Codec_Roundtrip
begin

text \<open>
  The result of a query: \<open>getRowsFromResultsWrapper\<close> (\<open>lib/types/results-wrapper.js\<close>), \<open>Row\<close> (\<open>lib/types/row.js\<close>) and \<open>ResultSet\<close> with its
  iterators (\<open>lib/types/result-set.js\<close>). The native result is a record of its answers, and the native call that
  fetches the next page a parameter.
\<close>

section \<open>Rows\<close>

text \<open>What the native result answers: the bytes and the number of the rows, unless there are none, and the columns.\<close>

record query_result =
  qr_rows :: "(buffer \<times> nat) option"
  qr_columnsNames :: "js_text list"
  qr_columnsTypes :: "complex_type list"

text \<open>A row: its own properties, and the names of the columns it was created with.\<close>

record row =
  row_columns :: "js_text list"
  row_properties :: "(js_text \<times> js_value) list"

definition getRowsFromResultsWrapper :: "runtime \<Rightarrow> encoder \<Rightarrow> query_result \<Rightarrow> row list option result" where
  "getRowsFromResultsWrapper rt e result =
     (case qr_rows result of
        None \<Rightarrow> return None
      | Some (rawPage, rowLength) \<Rightarrow>
          rbind (decodeRows rt e rawPage rowLength (qr_columnsNames result) (map convertComplexType (qr_columnsTypes result))) (\<lambda>rows.
            return (Some (map (\<lambda>ps. \<lparr>row_columns = qr_columnsNames result, row_properties = ps\<rparr>) rows))))"

text \<open>\<open>Row.get\<close> with a name or with an index, which must be that of a column.\<close>

datatype column_arg = Column_name js_text | Column_index nat

definition own_value :: "row \<Rightarrow> js_text \<Rightarrow> js_value" where
  "own_value r name = (case map_of (row_properties r) name of Some v \<Rightarrow> v | None \<Rightarrow> V_undefined)"

definition Row_get :: "row \<Rightarrow> column_arg \<Rightarrow> js_value result" where
  "Row_get r columnName =
     (case columnName of
        Column_name n \<Rightarrow> return (own_value r n)
      | Column_index i \<Rightarrow>
          if i < length (row_columns r) then return (own_value r (row_columns r ! i))
          else throw (TypeError ''Cannot read properties of undefined''))"

definition Row_forEach :: "row \<Rightarrow> (js_value \<times> js_text) list" where
  "Row_forEach r = map (\<lambda>(k, v). (v, k)) (row_properties r)"

definition Row_values :: "row \<Rightarrow> js_value list" where
  "Row_values r = map fst (Row_forEach r)"

definition Row_keys :: "row \<Rightarrow> js_text list" where
  "Row_keys r = map snd (Row_forEach r)"

section \<open>Result sets\<close>

text \<open>A page state is known by its wrapper, its bytes and their hexadecimal text. \<open>rs_rawNextPageAsync\<close> answers the
  wrapper of the page after the next one and the native result of the next page.\<close>

record 'w result_set =
  rs_rows :: "row list option"
  rs_rowLength :: nat
  rs_innerPageState :: "'w option"
  rs_pageState :: "string option"
  rs_rawPageState :: "buffer option"
  rs_rawNextPageAsync :: "(buffer \<Rightarrow> ('w option \<times> query_result) result) option"

definition new_ResultSet :: "runtime \<Rightarrow> encoder \<Rightarrow> ('w \<Rightarrow> buffer) \<Rightarrow> query_result \<Rightarrow> 'w option \<Rightarrow> 'w result_set result" where
  "new_ResultSet rt e getRawPageState result pagingState =
     rbind (getRowsFromResultsWrapper rt e result) (\<lambda>rows.
       return
         \<lparr>rs_rows = rows, rs_rowLength = (case rows of Some r \<Rightarrow> length r | None \<Rightarrow> 0), rs_innerPageState = pagingState,
          rs_pageState = map_option (\<lambda>w. bytes_to_hex (getRawPageState w)) pagingState,
          rs_rawPageState = map_option getRawPageState pagingState, rs_rawNextPageAsync = None\<rparr>)"

text \<open>What \<open>rustyExecute\<close> makes of an answer of the native driver; \<open>fetchNextPage\<close> is a method of the answer's executor.\<close>

definition execute_result :: "runtime \<Rightarrow> encoder \<Rightarrow> ('w \<Rightarrow> buffer) \<Rightarrow> (buffer \<Rightarrow> 'w) \<Rightarrow> ('w \<Rightarrow> ('w option \<times> query_result) result)
    \<Rightarrow> 'w option \<times> query_result \<Rightarrow> 'w result_set result" where
  "execute_result rt e getRawPageState fromBuffer fetchNextPage answer =
     rbind (new_ResultSet rt e getRawPageState (snd answer) (fst answer)) (\<lambda>resultSet.
       return (if fst answer \<noteq> None then resultSet\<lparr>rs_rawNextPageAsync := Some (\<lambda>pageState. fetchNextPage (fromBuffer pageState))\<rparr>
               else resultSet))"

definition ResultSet_first :: "'w result_set \<Rightarrow> row option" where
  "ResultSet_first rs = (case rs_rows rs of Some (r # rows) \<Rightarrow> Some r | _ \<Rightarrow> None)"

definition wasApplied :: "'w result_set \<Rightarrow> bool" where
  "wasApplied rs =
     (case rs_rows rs of
        Some (firstRow # rows) \<Rightarrow> (case own_value firstRow (text_of ''[applied]'') of V_bool applied \<Rightarrow> applied | _ \<Rightarrow> True)
      | _ \<Rightarrow> True)"

definition ResultSet_iterator :: "'w result_set \<Rightarrow> row list" where
  "ResultSet_iterator rs = (case rs_rows rs of None \<Rightarrow> [] | Some rows \<Rightarrow> rows)"

definition ResultSet_isPaged :: "'w result_set \<Rightarrow> bool" where
  "ResultSet_isPaged rs \<longleftrightarrow> rs_rawPageState rs \<noteq> None"

section \<open>The asynchronous iterator\<close>

text \<open>Its variables; it is done from the start when the first page has no row.\<close>

record async_iterator =
  it_done :: bool
  it_index :: nat
  it_pageState :: "buffer option"
  it_rows :: "row list option"

definition asyncIterator :: "'w result_set \<Rightarrow> async_iterator" where
  "asyncIterator rs =
     \<lparr>it_done = (rs_rows rs = None \<or> rs_rows rs = Some []), it_index = 0, it_pageState = rs_rawPageState rs, it_rows = rs_rows rs\<rparr>"

text \<open>The part of \<open>next\<close> that fetches a page: the new variables, or the error and the variables it leaves.\<close>

definition fetch_page :: "runtime \<Rightarrow> encoder \<Rightarrow> ('w \<Rightarrow> buffer) \<Rightarrow> 'w result_set \<Rightarrow> buffer \<Rightarrow> async_iterator \<Rightarrow> async_iterator result" where
  "fetch_page rt e getRawPageState rs pageState it =
     (case rs_rawNextPageAsync rs of
        None \<Rightarrow> throw (DriverInternalError ''Property rawNextPageAsync should be set when pageState is defined'')
      | Some fetch \<Rightarrow>
          rbind (fetch pageState) (\<lambda>(state, result).
          rbind (getRowsFromResultsWrapper rt e result) (\<lambda>rows.
            return (it\<lparr>it_rows := rows, it_pageState := map_option getRawPageState state, it_index := 0\<rparr>))))"

definition next_row :: "async_iterator \<Rightarrow> row option result \<times> async_iterator" where
  "next_row it =
     (case it_rows it of
        None \<Rightarrow> (throw (TypeError ''Cannot read properties of undefined''), it)
      | Some rows \<Rightarrow>
          if it_index it < length rows then (return (Some (rows ! it_index it)), it\<lparr>it_index := Suc (it_index it)\<rparr>)
          else (return None, it))"

definition iterator_next :: "runtime \<Rightarrow> encoder \<Rightarrow> ('w \<Rightarrow> buffer) \<Rightarrow> 'w result_set \<Rightarrow> async_iterator \<Rightarrow> row option result \<times> async_iterator" where
  "iterator_next rt e getRawPageState rs it =
     (if it_done it then (return None, it)
      else case it_rows it of
             None \<Rightarrow> (throw (TypeError ''Cannot read properties of undefined''), it)
           | Some rows \<Rightarrow>
               (case (if it_index it \<ge> length rows then it_pageState it else None) of
                  None \<Rightarrow> next_row it
                | Some pageState \<Rightarrow>
                    (case fetch_page rt e getRawPageState rs pageState it of Inl err \<Rightarrow> (Inl err, it) | Inr it' \<Rightarrow> next_row it')))"

text \<open>A \<open>for await\<close> loop over the iterator: the rows it sees and the error that ends it.\<close>

partial_function (option) for_await :: "runtime \<Rightarrow> encoder \<Rightarrow> ('w \<Rightarrow> buffer) \<Rightarrow> 'w result_set \<Rightarrow> async_iterator \<Rightarrow> (row list \<times> js_error option) option" where
  "for_await rt e getRawPageState rs it =
     (case iterator_next rt e getRawPageState rs it of
        (Inl err, it') \<Rightarrow> Some ([], Some err)
      | (Inr None, it') \<Rightarrow> Some ([], None)
      | (Inr (Some r), it') \<Rightarrow> Option.bind (for_await rt e getRawPageState rs it') (\<lambda>(rows, err). Some (r # rows, err)))"

section \<open>What the loop sees\<close>

text \<open>The pages as the loop reads them from a page state on: a page without rows ends them, whatever follows it.\<close>

definition page_at :: "runtime \<Rightarrow> encoder \<Rightarrow> ('w \<Rightarrow> buffer) \<Rightarrow> 'w result_set \<Rightarrow> buffer \<Rightarrow> (row list \<times> buffer option) result" where
  "page_at rt e raw rs pageState =
     (case rs_rawNextPageAsync rs of
        None \<Rightarrow> throw (DriverInternalError ''Property rawNextPageAsync should be set when pageState is defined'')
      | Some fetch \<Rightarrow>
          rbind (fetch pageState) (\<lambda>(state, result). rbind (getRowsFromResultsWrapper rt e result) (\<lambda>rows.
            case rows of
              None \<Rightarrow> throw (TypeError ''Cannot read properties of undefined'')
            | Some rows \<Rightarrow> return (rows, map_option raw state))))"

inductive rows_run :: "(buffer \<Rightarrow> (row list \<times> buffer option) result) \<Rightarrow> buffer option \<Rightarrow> row list list \<Rightarrow> js_error option \<Rightarrow> bool" for pg where
  run_ends: "rows_run pg None [] None"
| run_fails: "pg st = Inl err \<Longrightarrow> rows_run pg (Some st) [] (Some err)"
| run_empty: "pg st = Inr ([], st') \<Longrightarrow> rows_run pg (Some st) [] None"
| run_more: "pg st = Inr (rows, st') \<Longrightarrow> rows \<noteq> [] \<Longrightarrow> rows_run pg st' pages err \<Longrightarrow> rows_run pg (Some st) (rows # pages) err"

inductive_cases rows_run_NoneE: "rows_run pg None pages err"
inductive_cases rows_run_SomeE: "rows_run pg (Some st) pages err"

lemma rows_run_unique: "rows_run pg st pages err \<Longrightarrow> rows_run pg st pages' err' \<Longrightarrow> pages' = pages \<and> err' = err"
proof (induction arbitrary: pages' err' rule: rows_run.induct)
  case run_ends
  then show ?case by (auto elim: rows_run_NoneE)
next
  case (run_fails st err)
  from run_fails(2,1) show ?case by cases auto
next
  case (run_empty st st')
  from run_empty(2,1) show ?case by cases auto
next
  case (run_more st rows st' pages err)
  have "\<exists>more. pages' = rows # more \<and> rows_run pg st' more err'" using run_more.prems run_more.hyps(1,2) by cases simp_all
  then show ?case using run_more.IH by blast
qed

text \<open>Within a page the loop sees the rows that are left.\<close>

lemma for_await_rest:
  assumes "\<not> it_done it" "it_rows it = Some rows" "it_index it \<le> length rows"
  shows "for_await rt e raw rs it =
    Option.bind (for_await rt e raw rs (it\<lparr>it_index := length rows\<rparr>)) (\<lambda>(rs, err). Some (drop (it_index it) rows @ rs, err))"
  using assms
proof (induction "length rows - it_index it" arbitrary: it)
  case 0
  then have "it_index it = length rows" by simp
  then have eq: "it\<lparr>it_index := length rows\<rparr> = it" by simp
  show ?case unfolding eq using \<open>it_index it = length rows\<close> by (cases "for_await rt e raw rs it") auto
next
  case (Suc n)
  let ?it = "it\<lparr>it_index := Suc (it_index it)\<rparr>"
  have l: "it_index it < length rows" using Suc(2) by simp
  have "for_await rt e raw rs it = Option.bind (for_await rt e raw rs ?it) (\<lambda>(rs, err). Some (rows ! it_index it # rs, err))"
    using Suc(3,4) l by (subst for_await.simps) (simp add: iterator_next_def next_row_def)
  also have "for_await rt e raw rs ?it
      = Option.bind (for_await rt e raw rs (it\<lparr>it_index := length rows\<rparr>)) (\<lambda>(rs, err). Some (drop (Suc (it_index it)) rows @ rs, err))"
    using Suc(1)[of ?it] Suc(2-4) l by simp
  finally show ?case using l by (simp add: Cons_nth_drop_Suc[OF l, symmetric] bind_assoc case_prod_beta' del: Cons_nth_drop_Suc)
qed

text \<open>At the end of a page the loop goes on as the next page says.\<close>

lemma next_page:
  assumes "\<not> it_done it" "it_rows it = Some rows" "it_index it = length rows" "it_pageState it = Some st"
  shows "page_at rt e raw rs st = Inl err \<Longrightarrow> fst (iterator_next rt e raw rs it) = Inl err"
    "page_at rt e raw rs st = Inr (rows', st') \<Longrightarrow>
      iterator_next rt e raw rs it = next_row (it\<lparr>it_rows := Some rows', it_pageState := st', it_index := 0\<rparr>)"
proof -
  have it: "iterator_next rt e raw rs it = (case fetch_page rt e raw rs st it of Inl err \<Rightarrow> (Inl err, it) | Inr it' \<Rightarrow> next_row it')"
    using assms by (simp add: iterator_next_def)
  show "fst (iterator_next rt e raw rs it) = Inl err" if "page_at rt e raw rs st = Inl err"
    using that unfolding it by (auto simp: page_at_def fetch_page_def next_row_def split: option.splits)
  show "iterator_next rt e raw rs it = next_row (it\<lparr>it_rows := Some rows', it_pageState := st', it_index := 0\<rparr>)"
    if pg: "page_at rt e raw rs st = Inr (rows', st')"
  proof -
    obtain fetch state result where "rs_rawNextPageAsync rs = Some fetch" "fetch st = Inr (state, result)"
        "getRowsFromResultsWrapper rt e result = Inr (Some rows')" "st' = map_option raw state"
      using pg by (auto simp: page_at_def split: option.splits)
    then have "fetch_page rt e raw rs st it = Inr (it\<lparr>it_rows := Some rows', it_pageState := st', it_index := 0\<rparr>)" by (simp add: fetch_page_def)
    then show ?thesis by (simp only: it sum.case)
  qed
qed

lemma for_await_done: "fst (iterator_next rt e raw rs it) = Inl err \<Longrightarrow> for_await rt e raw rs it = Some ([], Some err)"
    "fst (iterator_next rt e raw rs it) = Inr None \<Longrightarrow> for_await rt e raw rs it = Some ([], None)"
  by (subst for_await.simps, cases "iterator_next rt e raw rs it", simp)+

lemma for_await_page:
  assumes "\<not> it_done it" "it_rows it = Some rows" "it_index it = length rows"
  shows "for_await rt e raw rs it =
    (case it_pageState it of
       None \<Rightarrow> Some ([], None)
     | Some st \<Rightarrow>
         (case page_at rt e raw rs st of
            Inl err \<Rightarrow> Some ([], Some err)
          | Inr (rows', st') \<Rightarrow>
              if rows' = [] then Some ([], None)
              else Option.bind (for_await rt e raw rs (it\<lparr>it_rows := Some rows', it_pageState := st', it_index := length rows'\<rparr>))
                     (\<lambda>(rs, err). Some (rows' @ rs, err))))"
proof (cases "it_pageState it")
  case None
  then show ?thesis using assms by (simp add: for_await_done(2) iterator_next_def next_row_def)
next
  case (Some st)
  note page = next_page[OF assms Some, of rt e raw rs]
  consider err where "page_at rt e raw rs st = Inl err" | st' where "page_at rt e raw rs st = Inr ([], st')"
    | r rows' st' where "page_at rt e raw rs st = Inr (r # rows', st')"
    by (metis sum.exhaust prod.exhaust list.exhaust)
  then show ?thesis
  proof cases
    case (3 r rows' st')
    let ?at = "\<lambda>i. it\<lparr>it_rows := Some (r # rows'), it_pageState := st', it_index := i\<rparr>"
    have "for_await rt e raw rs it = Option.bind (for_await rt e raw rs (?at (Suc 0))) (\<lambda>(rs, err). Some (r # rs, err))"
    proof -
      have "?at (Suc 0) = (?at 0)\<lparr>it_index := Suc 0\<rparr>" by simp
      then have "iterator_next rt e raw rs it = (return (Some r), ?at (Suc 0))" unfolding page(2)[OF 3] by (simp only: next_row_def) simp
      then show ?thesis by (subst for_await.simps) (simp only: prod.case sum.case option.case)
    qed
    also have "for_await rt e raw rs (?at (Suc 0)) = Option.bind (for_await rt e raw rs (?at (length (r # rows')))) (\<lambda>(rs, err). Some (rows' @ rs, err))"
      using for_await_rest[of "?at (Suc 0)" "r # rows'" rt e raw rs] assms(1) by simp
    finally show ?thesis using Some 3 by (simp add: bind_assoc case_prod_beta')
  next
    case 1
    then show ?thesis using Some by (simp add: for_await_done(1) page(1))
  next
    case 2
    then show ?thesis using Some by (simp add: for_await_done(2) page(2) next_row_def)
  qed
qed

lemma run_for_await:
  assumes "rows_run (page_at rt e raw rs) st pages err" "\<not> it_done it" "it_rows it = Some rows" "it_index it = length rows" "it_pageState it = st"
  shows "for_await rt e raw rs it = Some (concat pages, err)"
  using assms
proof (induction arbitrary: it rows rule: rows_run.induct)
  case (run_more st rows' st' pages err)
  let ?it = "it\<lparr>it_rows := Some rows', it_pageState := st', it_index := length rows'\<rparr>"
  have "for_await rt e raw rs ?it = Some (concat pages, err)" using run_more.IH[of ?it rows'] run_more.prems by simp
  then show ?case using run_more.hyps run_more.prems by (simp add: for_await_page[OF run_more.prems(1-3)])
qed (simp_all add: for_await_page)

lemma for_await_run:
  assumes "for_await rt e raw rs it = Some x"
  shows "\<not> it_done it \<longrightarrow> (\<exists>rows. it_rows it = Some rows \<and> it_index it \<le> length rows) \<longrightarrow> (\<exists>pages err. rows_run (page_at rt e raw rs) (it_pageState it) pages err)"
proof (rule for_await.raw_induct[where P = "\<lambda>rt e raw rs it x. \<not> it_done it \<longrightarrow> (\<exists>rows. it_rows it = Some rows \<and> it_index it \<le> length rows)
    \<longrightarrow> (\<exists>pages err. rows_run (page_at rt e raw rs) (it_pageState it) pages err)", OF _ assms], goal_cases)
  case (1 loop rt e raw rs it x)
  show ?case
  proof (intro impI, elim exE conjE)
    fix rows assume it: "\<not> it_done it" "it_rows it = Some rows" "it_index it \<le> length rows"
    have ih: "\<exists>pages err. rows_run (page_at rt e raw rs) (it_pageState it') pages err"
      if "iterator_next rt e raw rs it = (Inr (Some r), it')" "\<not> it_done it'" "it_rows it' = Some rows'" "it_index it' \<le> length rows'" for r it' rows'
    proof -
      have "\<exists>y. loop rt e raw rs it' = Some y" using 1(2) that(1) by (auto simp: bind_eq_Some_conv)
      then show ?thesis using 1(1)[of rt e raw rs it'] that by blast
    qed
    show "\<exists>pages err. rows_run (page_at rt e raw rs) (it_pageState it) pages err"
    proof (cases "it_index it < length rows")
      case True
      then show ?thesis using ih[of "rows ! it_index it" "it\<lparr>it_index := Suc (it_index it)\<rparr>" rows] it by (simp add: iterator_next_def next_row_def)
    next
      case False
      then have idx: "it_index it = length rows" using it(3) by simp
      show ?thesis
      proof (cases "it_pageState it")
        case None
        then show ?thesis by (auto intro: run_ends)
      next
        case (Some st)
        note page = next_page(2)[OF it(1,2) idx Some, of rt e raw rs]
        consider err where "page_at rt e raw rs st = Inl err" | st' where "page_at rt e raw rs st = Inr ([], st')"
          | r rows' st' where "page_at rt e raw rs st = Inr (r # rows', st')"
          by (metis sum.exhaust prod.exhaust list.exhaust)
        then show ?thesis
        proof cases
          case (3 r rows' st')
          let ?it = "it\<lparr>it_rows := Some (r # rows'), it_pageState := st', it_index := Suc 0\<rparr>"
          have "iterator_next rt e raw rs it = (Inr (Some r), ?it)" by (simp add: page[OF 3] next_row_def)
          from ih[OF this, of "r # rows'"] it(1) obtain pages err where "rows_run (page_at rt e raw rs) st' pages err" by auto
          then show ?thesis using Some 3 by (auto intro: run_more)
        qed (use Some in \<open>auto intro: run_fails run_empty\<close>)
      qed
    qed
  qed
qed

text \<open>C12: A \<open>for await\<close> loop over the result of a query returns exactly when the pages it reads end, and sees the rows of the
  first page and of the following ones in order, up to the first page without rows or the error that ends them.\<close>

theorem async_iterator_reads:
  assumes "rs_rows rs = Some (r # first)"
  shows "for_await rt e raw rs (asyncIterator rs) = Some (rows, err) \<longleftrightarrow>
    (\<exists>pages. rows_run (page_at rt e raw rs) (rs_rawPageState rs) pages err \<and> rows = r # first @ concat pages)"
proof -
  let ?it = "asyncIterator rs"
  have it: "\<not> it_done ?it" "it_rows ?it = Some (r # first)" "it_index ?it = 0" "it_pageState ?it = rs_rawPageState rs"
    using assms by (simp_all add: asyncIterator_def)
  have run: "for_await rt e raw rs ?it = Some (r # first @ concat pages, err)" if "rows_run (page_at rt e raw rs) (rs_rawPageState rs) pages err" for pages err
    using for_await_rest[of ?it "r # first" rt e raw rs] run_for_await[OF that, of "?it\<lparr>it_index := length (r # first)\<rparr>" "r # first"] it by simp
  show ?thesis
  proof
    assume *: "for_await rt e raw rs ?it = Some (rows, err)"
    then obtain pages err' where "rows_run (page_at rt e raw rs) (rs_rawPageState rs) pages err'" using for_await_run[OF *] it by auto
    then show "\<exists>pages. rows_run (page_at rt e raw rs) (rs_rawPageState rs) pages err \<and> rows = r # first @ concat pages" using run * by auto
  qed (auto simp: run)
qed

text \<open>A page of rows without columns, and a result whose second page is empty and whose third one is not.\<close>

definition bare_page :: "nat \<Rightarrow> query_result" where
  "bare_page n = \<lparr>qr_rows = Some ([], n), qr_columnsNames = [], qr_columnsTypes = []\<rparr>"

definition gap_fetch :: "buffer \<Rightarrow> (buffer option \<times> query_result) result" where
  "gap_fetch st = (if st = [1] then return (Some [2], bare_page 0) else return (None, bare_page 2))"

lemma async_iterator_reads_witness:
  "\<exists>rs r. execute_result plain_runtime plain_encoder id id gap_fetch (Some [1], bare_page 1) = return rs
    \<and> for_await plain_runtime plain_encoder id rs (asyncIterator rs) = Some ([r], None)
    \<and> page_at plain_runtime plain_encoder id rs [1] = return ([], Some [2]) \<and> page_at plain_runtime plain_encoder id rs [2] = return ([r, r], None)"
proof -
  define r where "r = \<lparr>row_columns = [], row_properties = []\<rparr>"
  obtain rs where rs: "execute_result plain_runtime plain_encoder id id gap_fetch (Some [1], bare_page 1) = return rs" "rs_rows rs = Some [r]"
      "rs_rawPageState rs = Some [1]" "rs_rawNextPageAsync rs = Some gap_fetch"
    by (simp add: execute_result_def new_ResultSet_def getRowsFromResultsWrapper_def bare_page_def decodeRows_def r_def)
  then have pg: "page_at plain_runtime plain_encoder id rs [1] = return ([], Some [2])" "page_at plain_runtime plain_encoder id rs [2] = return ([r, r], None)"
    by (simp_all add: page_at_def gap_fetch_def getRowsFromResultsWrapper_def bare_page_def decodeRows_def r_def eval_nat_numeral)
  have "rows_run (page_at plain_runtime plain_encoder id rs) (rs_rawPageState rs) [] None" unfolding rs(3) by (rule run_empty[of "page_at plain_runtime plain_encoder id rs", OF pg(1)])
  then have "for_await plain_runtime plain_encoder id rs (asyncIterator rs) = Some ([r], None)"
    using async_iterator_reads[of rs r "[]" plain_runtime plain_encoder id "[r]" None] rs(2) by auto
  then show ?thesis using rs(1) pg by blast
qed

text \<open>The text of a page state, given back in the options of the next query, names the same page.\<close>

lemma pageState_resumes:
  assumes "new_ResultSet rt e raw result (Some w) = return rs" "rs_pageState rs = Some t" "eo_pageState opts = Text_state t" "fromBuffer (raw w) = w"
  shows "normalizePagingState fromBuffer Page_null opts = return (Some w)"
  using assms by (auto simp: new_ResultSet_def normalizePagingState_def hex_to_bytes_to_hex)

end
