(* ===== verification/Concurrent.thy ===== *)
theory Concurrent
  imports Client_Execution
begin

text \<open>
  The concurrent execution of statements (\<open>lib/concurrent/index.js\<close>): \<open>executeConcurrent\<close> over an array, with a number of lanes
  that execute one item after the other, or over a stream, and the group of their results. A handler runs
  without interruption up to its next \<open>await\<close>; what the native driver and the stream do are events of their own.
\<close>

section \<open>The group of results\<close>

text \<open>The array \<open>resultItems\<close> may have holes, so it is a map; an error is stored like a result.\<close>

record 'r result_group =
  rg_collectResults :: bool
  rg_maxErrors :: nat
  rg_totalExecuted :: nat
  rg_errors :: "js_error list"
  rg_resultItems :: "nat \<rightharpoonup> 'r result"

text \<open>The options of the user; a level or a number of errors that is missing or zero is 100.\<close>

record concurrent_options =
  co_raiseOnFirstError :: "bool option"
  co_concurrencyLevel :: "nat option"
  co_collectResults :: bool
  co_maxErrors :: "nat option"

definition or_hundred :: "nat option \<Rightarrow> nat" where
  "or_hundred n = (case n of Some (Suc m) \<Rightarrow> Suc m | _ \<Rightarrow> 100)"

definition new_ResultSetGroup :: "concurrent_options \<Rightarrow> 'r result_group" where
  "new_ResultSetGroup opts =
     \<lparr>rg_collectResults = co_collectResults opts, rg_maxErrors = or_hundred (co_maxErrors opts), rg_totalExecuted = 0, rg_errors = [],
      rg_resultItems = Map.empty\<rparr>"

definition setResultItem :: "nat \<Rightarrow> 'r \<Rightarrow> 'r result_group \<Rightarrow> 'r result_group" where
  "setResultItem index rs g =
     (let g = g\<lparr>rg_totalExecuted := Suc (rg_totalExecuted g)\<rparr>
      in if rg_collectResults g then g\<lparr>rg_resultItems := (rg_resultItems g)(index \<mapsto> return rs)\<rparr> else g)"

definition group_setError :: "nat \<Rightarrow> js_error \<Rightarrow> 'r result_group \<Rightarrow> 'r result_group" where
  "group_setError index err g =
     (let g = g\<lparr>rg_totalExecuted := Suc (rg_totalExecuted g)\<rparr>;
          g = (if length (rg_errors g) < rg_maxErrors g then g\<lparr>rg_errors := rg_errors g @ [err]\<rparr> else g)
      in if rg_collectResults g then g\<lparr>rg_resultItems := (rg_resultItems g)(index \<mapsto> throw err)\<rparr> else g)"

definition resultItems :: "'r result_group \<Rightarrow> (nat \<rightharpoonup> 'r result) result" where
  "resultItems g =
     (if rg_collectResults g then return (rg_resultItems g)
      else throw (GenericError ''Property resultItems can not be accessed when collectResults is set to false''))"

text \<open>The promise of the caller.\<close>

datatype group_outcome = Group_pending | Group_resolved | Group_rejected js_error

section \<open>Execution of an array\<close>

text \<open>One statement with the parameters of each item, or a statement for each item.\<close>

datatype work = One_query string "params option list" | Each_query "(string \<times> params option) list"

definition work_length :: "work \<Rightarrow> nat" where
  "work_length w = (case w of One_query q ps \<Rightarrow> length ps | Each_query qs \<Rightarrow> length qs)"

definition or_no_params :: "params option \<Rightarrow> params" where
  "or_no_params p = (case p of Some ps \<Rightarrow> ps | None \<Rightarrow> Positional [])"

definition work_item :: "work \<Rightarrow> nat \<Rightarrow> string \<times> params" where
  "work_item w index =
     (case w of
        One_query q ps \<Rightarrow> (q, or_no_params (ps ! index))
      | Each_query qs \<Rightarrow> (fst (qs ! index), or_no_params (snd (qs ! index))))"

text \<open>Where a lane is: in the \<open>await\<close> of \<open>prepareStatement\<close> or of \<open>rustyExecute\<close> of its \<open>k\<close>-th item, about to begin its \<open>k\<close>-th item,
  with its promise being fulfilled or rejected, or settled.\<close>

datatype lane = Preparing nat | Executing nat | Continuing nat | Returning | Thrown js_error | Lane_fulfilled | Lane_rejected js_error

text \<open>The calls made of the client.\<close>

datatype client_call = Prepare_call string | Execute_call nat prepared_info params

record 'r array_executor =
  ax_parameters :: work
  ax_raiseOnFirstError :: bool
  ax_concurrencyLevel :: nat
  ax_result :: "'r result_group"
  ax_stop :: bool
  ax_cache :: "prepared_info jsobj"
  ax_lanes :: "lane list"
  ax_calls :: "client_call list"
  ax_outcome :: group_outcome

definition new_ArrayBasedExecutor :: "work \<Rightarrow> concurrent_options \<Rightarrow> 'r array_executor" where
  "new_ArrayBasedExecutor w opts =
     (let level = min (or_hundred (co_concurrencyLevel opts)) (work_length w)
      in \<lparr>ax_parameters = w, ax_raiseOnFirstError = (co_raiseOnFirstError opts \<noteq> Some False), ax_concurrencyLevel = level,
          ax_result = new_ResultSetGroup opts, ax_stop = False, ax_cache = [], ax_lanes = replicate level (Continuing 0), ax_calls = [],
          ax_outcome = Group_pending\<rparr>)"

definition set_lane :: "nat \<Rightarrow> lane \<Rightarrow> 'r array_executor \<Rightarrow> 'r array_executor" where
  "set_lane i l x = x\<lparr>ax_lanes := (ax_lanes x)[i := l]\<rparr>"

definition lane_index :: "'r array_executor \<Rightarrow> nat \<Rightarrow> nat \<Rightarrow> nat" where
  "lane_index x initialIndex iteration = initialIndex + ax_concurrencyLevel x * iteration"

text \<open>The call of \<open>rustyExecute\<close>.\<close>

definition execute_prepared :: "nat \<Rightarrow> nat \<Rightarrow> prepared_info \<Rightarrow> 'r array_executor \<Rightarrow> 'r array_executor" where
  "execute_prepared i k prepared x =
     (let index = lane_index x i k
      in set_lane i (Executing k) (x\<lparr>ax_calls := ax_calls x @ [Execute_call index prepared (snd (work_item (ax_parameters x) index))]\<rparr>))"

definition executeOneAtATime :: "nat \<Rightarrow> nat \<Rightarrow> 'r array_executor \<Rightarrow> 'r array_executor" where
  "executeOneAtATime i k x =
     (let index = lane_index x i k
      in if index \<ge> work_length (ax_parameters x) \<or> ax_stop x then set_lane i Returning x
         else let query = fst (work_item (ax_parameters x) index)
              in case obj_get (ax_cache x) query of
                   Some prepared \<Rightarrow> execute_prepared i k prepared x
                 | None \<Rightarrow> set_lane i (Preparing k) (x\<lparr>ax_calls := ax_calls x @ [Prepare_call query]\<rparr>))"

text \<open>The \<open>catch\<close> block with \<open>#setError\<close>, and what follows it.\<close>

definition array_setError :: "nat \<Rightarrow> nat \<Rightarrow> js_error \<Rightarrow> 'r array_executor \<Rightarrow> 'r array_executor" where
  "array_setError i k err x =
     (let x = x\<lparr>ax_result := group_setError (lane_index x i k) err (ax_result x)\<rparr>
      in if ax_raiseOnFirstError x then set_lane i (Thrown err) (x\<lparr>ax_stop := True\<rparr>) else executeOneAtATime i (Suc k) x)"

definition array_execute :: "'r array_executor \<Rightarrow> 'r array_executor" where
  "array_execute x =
     (let x = fold (\<lambda>i. executeOneAtATime i 0) [0..<ax_concurrencyLevel x] x
      in if ax_concurrencyLevel x = 0 then x\<lparr>ax_outcome := Group_resolved\<rparr> else x)"

text \<open>The events of a lane: its preparation or its execution is settled, it goes on after a result, and its promise is
  settled, which settles \<open>Promise.all\<close> when it is rejected or the last one.\<close>

definition lane_prepared :: "nat \<Rightarrow> nat \<Rightarrow> prepared_info result \<Rightarrow> 'r array_executor \<Rightarrow> 'r array_executor" where
  "lane_prepared i k r x =
     (case r of
        Inl err \<Rightarrow> array_setError i k err x
      | Inr prepared \<Rightarrow>
          execute_prepared i k prepared (x\<lparr>ax_cache := obj_set (ax_cache x) (fst (work_item (ax_parameters x) (lane_index x i k))) prepared\<rparr>))"

definition lane_executed :: "nat \<Rightarrow> nat \<Rightarrow> 'r result \<Rightarrow> 'r array_executor \<Rightarrow> 'r array_executor" where
  "lane_executed i k r x =
     (case r of
        Inl err \<Rightarrow> array_setError i k err x
      | Inr rs \<Rightarrow> set_lane i (Continuing (Suc k)) (x\<lparr>ax_result := setResultItem (lane_index x i k) rs (ax_result x)\<rparr>))"

definition lane_settled :: "nat \<Rightarrow> 'r array_executor \<Rightarrow> 'r array_executor" where
  "lane_settled i x =
     (case ax_lanes x ! i of
        Thrown err \<Rightarrow>
          (let x = set_lane i (Lane_rejected err) x in if ax_outcome x = Group_pending then x\<lparr>ax_outcome := Group_rejected err\<rparr> else x)
      | _ \<Rightarrow>
          (let x = set_lane i Lane_fulfilled x
           in if ax_outcome x = Group_pending \<and> list_all (\<lambda>l. l = Lane_fulfilled) (ax_lanes x) then x\<lparr>ax_outcome := Group_resolved\<rparr> else x))"

text \<open>The steps, with the items that they settle. \<open>prep\<close> tells what the native driver may answer to a preparation.\<close>

inductive array_step :: "(string \<Rightarrow> prepared_info \<Rightarrow> bool) \<Rightarrow> 'r array_executor \<Rightarrow> (nat \<times> 'r result) list \<Rightarrow> 'r array_executor \<Rightarrow> bool" for prep x where
  step_prepared: "i < length (ax_lanes x) \<Longrightarrow> ax_lanes x ! i = Preparing k \<Longrightarrow> prep (fst (work_item (ax_parameters x) (lane_index x i k))) p
    \<Longrightarrow> array_step prep x [] (lane_prepared i k (Inr p) x)"
| step_unprepared: "i < length (ax_lanes x) \<Longrightarrow> ax_lanes x ! i = Preparing k \<Longrightarrow> array_step prep x [(lane_index x i k, Inl err)] (lane_prepared i k (Inl err) x)"
| step_executed: "i < length (ax_lanes x) \<Longrightarrow> ax_lanes x ! i = Executing k \<Longrightarrow> array_step prep x [(lane_index x i k, r)] (lane_executed i k r x)"
| step_continued: "i < length (ax_lanes x) \<Longrightarrow> ax_lanes x ! i = Continuing k \<Longrightarrow> array_step prep x [] (executeOneAtATime i k x)"
| step_settled: "i < length (ax_lanes x) \<Longrightarrow> ax_lanes x ! i = Returning \<or> ax_lanes x ! i = Thrown err \<Longrightarrow> array_step prep x [] (lane_settled i x)"

inductive array_run :: "(string \<Rightarrow> prepared_info \<Rightarrow> bool) \<Rightarrow> 'r array_executor \<Rightarrow> (nat \<times> 'r result) list \<Rightarrow> 'r array_executor \<Rightarrow> bool" for prep x0 where
  run_start: "array_run prep x0 [] (array_execute x0)"
| run_step: "array_run prep x0 ds x \<Longrightarrow> array_step prep x ds' x' \<Longrightarrow> array_run prep x0 (ds @ ds') x'"

section \<open>Execution of a stream\<close>

text \<open>Beside its fields: whether the stream is paused, the items that are being executed, the number of completions whose
  last handler is still to run, and the executions asked for.\<close>

record 'r stream_executor =
  sx_raiseOnFirstError :: bool
  sx_concurrencyLevel :: nat
  sx_inFlight :: nat
  sx_index :: nat
  sx_result :: "'r result_group"
  sx_readEnded :: bool
  sx_outcome :: group_outcome
  sx_paused :: bool
  sx_pending :: "nat list"
  sx_handlers :: nat
  sx_calls :: "(nat \<times> js_value list) list"

definition new_StreamBasedExecutor :: "concurrent_options \<Rightarrow> 'r stream_executor" where
  "new_StreamBasedExecutor opts =
     \<lparr>sx_raiseOnFirstError = (co_raiseOnFirstError opts \<noteq> Some False), sx_concurrencyLevel = or_hundred (co_concurrencyLevel opts), sx_inFlight = 0,
      sx_index = 0, sx_result = new_ResultSetGroup opts, sx_readEnded = False, sx_outcome = Group_pending, sx_paused = False, sx_pending = [],
      sx_handlers = 0, sx_calls = []\<rparr>"

text \<open>A promise is settled once.\<close>

definition settle :: "group_outcome \<Rightarrow> 'r stream_executor \<Rightarrow> 'r stream_executor" where
  "settle out x = (if sx_outcome x = Group_pending then x\<lparr>sx_outcome := out\<rparr> else x)"

definition setReadEnded :: "js_error option \<Rightarrow> 'r stream_executor \<Rightarrow> 'r stream_executor" where
  "setReadEnded err x =
     (if sx_readEnded x then x
      else let x = x\<lparr>sx_readEnded := True\<rparr>
           in case err of
                Some e \<Rightarrow> settle (Group_rejected e) x
              | None \<Rightarrow> if sx_inFlight x = 0 then settle Group_resolved x else x)"

definition stream_setError :: "nat \<Rightarrow> js_error \<Rightarrow> 'r stream_executor \<Rightarrow> 'r stream_executor" where
  "stream_setError index err x =
     (let x = x\<lparr>sx_result := group_setError index err (sx_result x)\<rparr>
      in if sx_raiseOnFirstError x then settle (Group_rejected err) (x\<lparr>sx_readEnded := True\<rparr>) else x)"

text \<open>\<open>#executeOne\<close> on what the stream emits, \<^const>\<open>None\<close> when it is no array.\<close>

definition not_array :: js_error where
  "not_array = TypeError ''Stream should be in objectMode and should emit Array instances''"

definition executeOne :: "js_value list option \<Rightarrow> 'r stream_executor \<Rightarrow> 'r stream_executor" where
  "executeOne data x =
     (case data of
        None \<Rightarrow> setReadEnded (Some not_array) x
      | Some ps \<Rightarrow>
          if sx_readEnded x then x
          else let index = sx_index x;
                   x = x\<lparr>sx_inFlight := Suc (sx_inFlight x), sx_index := Suc index, sx_pending := sx_pending x @ [index], sx_calls := sx_calls x @ [(index, ps)]\<rparr>
               in if sx_inFlight x \<ge> sx_concurrencyLevel x then x\<lparr>sx_paused := True\<rparr> else x)"

text \<open>The handlers of a completion, and the last one, which resumes the stream.\<close>

definition stream_executed :: "nat \<Rightarrow> 'r result \<Rightarrow> 'r stream_executor \<Rightarrow> 'r stream_executor" where
  "stream_executed index r x =
     (let x = x\<lparr>sx_pending := remove1 index (sx_pending x), sx_handlers := Suc (sx_handlers x)\<rparr>
      in case r of
           Inr rs \<Rightarrow> x\<lparr>sx_result := setResultItem index rs (sx_result x), sx_inFlight := sx_inFlight x - 1\<rparr>
         | Inl err \<Rightarrow> stream_setError index err (x\<lparr>sx_inFlight := sx_inFlight x - 1\<rparr>))"

definition stream_handled :: "'r stream_executor \<Rightarrow> 'r stream_executor" where
  "stream_handled x =
     (let x = x\<lparr>sx_handlers := sx_handlers x - 1, sx_paused := False\<rparr>
      in if sx_readEnded x \<and> sx_inFlight x = 0 then settle Group_resolved x else x)"

text \<open>The runs, with the items settled, and the errors of the stream: it emits data while it is neither paused nor over, and ends or
  fails once. When \<open>drained\<close>, it emits nothing between the handlers of a completion.\<close>

datatype stream_end = Open | Ended | Failed js_error

inductive stream_run :: "bool \<Rightarrow> 'r stream_executor \<Rightarrow> (nat \<times> 'r result) list \<Rightarrow> stream_end \<Rightarrow> 'r stream_executor \<Rightarrow> bool" for drained x0 where
  stream_start: "stream_run drained x0 [] Open x0"
| stream_data: "stream_run drained x0 ds Open x \<Longrightarrow> \<not> sx_paused x \<Longrightarrow> (drained \<Longrightarrow> sx_handlers x = 0) \<Longrightarrow> stream_run drained x0 ds Open (executeOne data x)"
| stream_end: "stream_run drained x0 ds Open x \<Longrightarrow> stream_run drained x0 ds Ended (setReadEnded None x)"
| stream_error: "stream_run drained x0 ds Open x \<Longrightarrow> stream_run drained x0 ds (Failed err) (setReadEnded (Some err) x)"
| stream_executed: "stream_run drained x0 ds st x \<Longrightarrow> i \<in> set (sx_pending x) \<Longrightarrow> stream_run drained x0 (ds @ [(i, r)]) st (stream_executed i r x)"
| stream_handled: "stream_run drained x0 ds st x \<Longrightarrow> 0 < sx_handlers x \<Longrightarrow> stream_run drained x0 ds st (stream_handled x)"

section \<open>The entry point\<close>

datatype concurrent_query = Text_query string | Array_query "(string \<times> params option) list" | Other_concurrent_query

datatype concurrent_params = Array_params "params option list" | Stream_params | Other_concurrent_params

text \<open>The executor that \<open>executeConcurrent\<close> makes; the options are those for the kind of query.\<close>

definition executeConcurrent :: "bool \<Rightarrow> concurrent_query \<Rightarrow> concurrent_params \<Rightarrow> concurrent_options \<Rightarrow> ('r array_executor + 'r stream_executor) result" where
  "executeConcurrent client query parameters opts =
     (if \<not> client then throw (TypeError ''Client instance is not defined'')
      else case query of
             Text_query q \<Rightarrow>
               (case parameters of
                  Array_params ps \<Rightarrow> return (Inl (array_execute (new_ArrayBasedExecutor (One_query q ps) opts)))
                | Stream_params \<Rightarrow> return (Inr (new_StreamBasedExecutor opts))
                | Other_concurrent_params \<Rightarrow> throw (TypeError ''parameters should be an Array or a Stream instance''))
           | Array_query qs \<Rightarrow> return (Inl (array_execute (new_ArrayBasedExecutor (Each_query qs) opts)))
           | Other_concurrent_query \<Rightarrow> throw (TypeError ''A string query or query and parameters array should be provided''))"

end
