(* ===== verification/Concurrent_Correct.thy ===== *)
theory Concurrent_Correct
  imports Concurrent Utils_Correct
begin

text \<open>
  Whatever the order in which the native driver answers, the lanes of \<open>executeConcurrent\<close> settle every item once, at its own
  index, and the promise of the caller is settled as the items say.
\<close>

section \<open>The group of results\<close>

text \<open>The items settled so far, in order, determine the group.\<close>

definition deliver :: "nat \<times> 'r result \<Rightarrow> 'r result_group \<Rightarrow> 'r result_group" where
  "deliver d g = (case snd d of Inl err \<Rightarrow> group_setError (fst d) err g | Inr rs \<Rightarrow> setResultItem (fst d) rs g)"

definition errors_of :: "(nat \<times> 'r result) list \<Rightarrow> js_error list" where
  "errors_of ds = concat (map (\<lambda>d. case snd d of Inl err \<Rightarrow> [err] | Inr rs \<Rightarrow> []) ds)"

lemma errors_of_simps [simp]:
  "errors_of [] = []" "errors_of (ds @ ds') = errors_of ds @ errors_of ds'" "errors_of [(i, Inl err)] = [err]" "errors_of [(i, Inr rs)] = []"
  by (simp_all add: errors_of_def)

lemma errors_of_mem: "e \<in> set (errors_of ds) \<longleftrightarrow> (\<exists>i. (i, Inl e) \<in> set ds)"
  by (force simp: errors_of_def split: sum.splits)

lemma deliver_fields:
  "rg_collectResults (deliver d g) = rg_collectResults g" "rg_maxErrors (deliver d g) = rg_maxErrors g"
  "rg_totalExecuted (deliver d g) = Suc (rg_totalExecuted g)"
  "rg_errors (deliver d g) = rg_errors g @ take (rg_maxErrors g - length (rg_errors g)) (errors_of [d])"
  "rg_collectResults g \<Longrightarrow> rg_resultItems (deliver d g) = (rg_resultItems g)(fst d \<mapsto> snd d)"
  by (cases d; cases "snd d"; simp add: deliver_def group_setError_def setResultItem_def Let_def)+

lemma group_of:
  "rg_collectResults (fold deliver ds (new_ResultSetGroup opts)) = co_collectResults opts"
  "rg_maxErrors (fold deliver ds (new_ResultSetGroup opts)) = or_hundred (co_maxErrors opts)"
  "rg_totalExecuted (fold deliver ds (new_ResultSetGroup opts)) = length ds"
proof -
  show a: "rg_collectResults (fold deliver ds (new_ResultSetGroup opts)) = co_collectResults opts"
    by (induction ds rule: rev_induct) (simp_all add: deliver_fields new_ResultSetGroup_def)
  show b: "rg_maxErrors (fold deliver ds (new_ResultSetGroup opts)) = or_hundred (co_maxErrors opts)"
    by (induction ds rule: rev_induct) (simp_all add: deliver_fields new_ResultSetGroup_def)
  show "rg_totalExecuted (fold deliver ds (new_ResultSetGroup opts)) = length ds"
    by (induction ds rule: rev_induct) (simp_all add: deliver_fields new_ResultSetGroup_def)
qed

lemma group_errors: "rg_errors (fold deliver ds (new_ResultSetGroup opts)) = take (or_hundred (co_maxErrors opts)) (errors_of ds)"
  by (induction ds rule: rev_induct) (simp_all add: deliver_fields group_of min_def, simp add: new_ResultSetGroup_def)

lemma group_items: "co_collectResults opts \<Longrightarrow> rg_resultItems (fold deliver ds (new_ResultSetGroup opts)) = map_of (rev ds)"
  by (induction ds rule: rev_induct) (simp_all add: deliver_fields group_of, simp add: new_ResultSetGroup_def)

lemma map_of_rev_distinct:
  assumes "distinct (map fst ds)" shows "map_of (rev ds) = map_of ds"
proof
  fix i
  have "map_of (rev ds) i = Some r \<longleftrightarrow> map_of ds i = Some r" for r using assms by (simp add: map_of_eq_Some_iff rev_map[symmetric])
  then show "map_of (rev ds) i = map_of ds i" by (metis option.exhaust)
qed

section \<open>Lanes\<close>

text \<open>The items a lane has settled are its first ones.\<close>

definition lane_part :: "nat \<Rightarrow> (nat \<times> 'r result) list \<Rightarrow> nat \<Rightarrow> nat list" where
  "lane_part c ds i = map fst (filter (\<lambda>d. fst d mod c = i) ds)"

definition is_thrown :: "lane \<Rightarrow> bool" where
  "is_thrown l \<longleftrightarrow> (\<exists>e. l = Thrown e \<or> l = Lane_rejected e)"

definition lane_ok :: "nat \<Rightarrow> nat \<Rightarrow> bool \<Rightarrow> (nat \<times> 'r result) list \<Rightarrow> nat \<Rightarrow> lane \<Rightarrow> bool" where
  "lane_ok n c stop ds i l \<longleftrightarrow>
     lane_part c ds i = map (\<lambda>j. i + c * j) [0..<length (lane_part c ds i)]
     \<and> (case l of
          Preparing k \<Rightarrow> k = length (lane_part c ds i) \<and> i + c * k < n
        | Executing k \<Rightarrow> k = length (lane_part c ds i) \<and> i + c * k < n
        | Continuing k \<Rightarrow> k = length (lane_part c ds i)
        | Thrown e \<Rightarrow> stop \<and> e \<in> set (errors_of ds)
        | Lane_rejected e \<Rightarrow> stop \<and> e \<in> set (errors_of ds)
        | _ \<Rightarrow> stop \<or> n \<le> i + c * length (lane_part c ds i))"

definition lanes_ok :: "nat \<Rightarrow> nat \<Rightarrow> bool \<Rightarrow> bool \<Rightarrow> lane list \<Rightarrow> (nat \<times> 'r result) list \<Rightarrow> bool" where
  "lanes_ok n c raise stop lanes ds \<longleftrightarrow>
     length lanes = c \<and> (\<forall>d \<in> set ds. fst d < n) \<and> (\<forall>i < c. lane_ok n c stop ds i (lanes ! i))
     \<and> (stop \<longleftrightarrow> raise \<and> errors_of ds \<noteq> []) \<and> (stop \<longrightarrow> (\<exists>l \<in> set lanes. is_thrown l))"

lemma lane_part_append [simp]: "lane_part c (ds @ ds') i = lane_part c ds i @ lane_part c ds' i"
  by (simp add: lane_part_def)

lemma lane_part_Nil [simp]: "lane_part c [] i = []"
  by (simp add: lane_part_def)

lemma lane_part_own: "i < c \<Longrightarrow> lane_part c [(i + c * k, r)] j = (if j = i then [i + c * k] else [])"
  by (auto simp: lane_part_def)

lemma lane_ok_mono: "lane_ok n c stop ds i l \<Longrightarrow> (stop \<Longrightarrow> stop') \<Longrightarrow> lane_part c ds' i = [] \<Longrightarrow> lane_ok n c stop' (ds @ ds') i l"
  by (auto simp: lane_ok_def split: lane.splits)

text \<open>A lane moves, and settles nothing or its current item.\<close>

lemma lanes_ok_move:
  assumes "lanes_ok n c raise stop lanes ds" "i < c" "ds' = [] \<or> (\<exists>k r. ds' = [(i + c * k, r)] \<and> i + c * k < n)"
    "lane_ok n c stop' (ds @ ds') i l" "stop' \<longleftrightarrow> raise \<and> errors_of (ds @ ds') \<noteq> []"
    "stop \<Longrightarrow> is_thrown (lanes ! i) \<Longrightarrow> is_thrown l" "stop' \<Longrightarrow> \<not> stop \<Longrightarrow> is_thrown l"
  shows "lanes_ok n c raise stop' (lanes[i := l]) (ds @ ds')"
proof -
  have len: "length lanes = c" and stop: "stop \<longleftrightarrow> raise \<and> errors_of ds \<noteq> []" "stop \<Longrightarrow> \<exists>l \<in> set lanes. is_thrown l"
    using assms(1) by (simp_all add: lanes_ok_def)
  have part: "lane_part c ds' j = []" if "j \<noteq> i" for j using assms(2,3) that by (auto simp: lane_part_own)
  have "lane_ok n c stop' (ds @ ds') j (lanes[i := l] ! j)" if "j < c" for j
  proof (cases "j = i")
    case False
    have "lane_ok n c stop ds j (lanes ! j)" using assms(1) that unfolding lanes_ok_def by blast
    from lane_ok_mono[OF this _ part[OF False], of stop'] show ?thesis using False stop(1) assms(5) by simp
  qed (use assms(2,4) len in simp)
  moreover have "\<exists>l' \<in> set (lanes[i := l]). is_thrown l'" if "stop'"
  proof (cases "stop \<and> \<not> is_thrown (lanes ! i)")
    case True
    then obtain j where "j < c" "is_thrown (lanes ! j)" "j \<noteq> i" using stop(2) len by (metis in_set_conv_nth)
    then have "lanes ! j \<in> set (lanes[i := l])" using len by (metis length_list_update nth_list_update_neq nth_mem)
    then show ?thesis using \<open>is_thrown (lanes ! j)\<close> by blast
  next
    case False
    then have "is_thrown l" using that assms(6,7) by blast
    then show ?thesis using assms(2) len by (auto intro: bexI[of _ l] set_update_memI)
  qed
  ultimately show ?thesis using assms(1,3,5) by (auto simp: lanes_ok_def)
qed

text \<open>The outcome follows the lanes.\<close>

definition active :: "lane \<Rightarrow> bool" where
  "active l \<longleftrightarrow> l \<noteq> Lane_fulfilled \<and> (\<forall>e. l \<noteq> Lane_rejected e)"

definition outcome_ok :: "lane list \<Rightarrow> group_outcome \<Rightarrow> bool" where
  "outcome_ok lanes out =
     (case out of
        Group_pending \<Rightarrow> (\<exists>l \<in> set lanes. active l) \<and> (\<forall>e. Lane_rejected e \<notin> set lanes)
      | Group_resolved \<Rightarrow> (\<forall>l \<in> set lanes. l = Lane_fulfilled)
      | Group_rejected e \<Rightarrow> Lane_rejected e \<in> set lanes)"

lemma outcome_ok_move:
  assumes "outcome_ok lanes out" "i < length lanes" "active (lanes ! i)" "active l"
  shows "outcome_ok (lanes[i := l]) out"
proof (cases out)
  case Group_pending
  have "l \<in> set (lanes[i := l])" using assms(2) by (rule set_update_memI)
  moreover have "Lane_rejected e \<notin> set (lanes[i := l])" for e
    using assms Group_pending set_update_subset_insert[of lanes i l] by (auto simp: outcome_ok_def active_def)
  ultimately show ?thesis using Group_pending assms(4) by (auto simp: outcome_ok_def)
next
  case Group_resolved
  then have "lanes ! i = Lane_fulfilled" using assms(1,2) by (simp add: outcome_ok_def)
  then show ?thesis using assms(3) by (simp add: active_def)
next
  case (Group_rejected e)
  then obtain j where "j < length lanes" "lanes ! j = Lane_rejected e" using assms(1) by (auto simp: outcome_ok_def in_set_conv_nth)
  moreover from this have "j \<noteq> i" using assms(3) by (auto simp: active_def)
  ultimately have "lanes[i := l] ! j = Lane_rejected e" by simp
  then show ?thesis using \<open>j < length lanes\<close> Group_rejected by (auto simp: outcome_ok_def in_set_conv_nth intro!: exI[of _ j])
qed

section \<open>The invariant\<close>

abbreviation "items x \<equiv> work_length (ax_parameters x)"
abbreviation "level \<equiv> ax_concurrencyLevel"

definition same_settings :: "'r array_executor \<Rightarrow> 'r array_executor \<Rightarrow> bool" where
  "same_settings x x' \<longleftrightarrow> ax_parameters x' = ax_parameters x \<and> ax_raiseOnFirstError x' = ax_raiseOnFirstError x \<and> level x' = level x"

definition executor_ok :: "(nat \<times> 'r result) list \<Rightarrow> 'r array_executor \<Rightarrow> bool" where
  "executor_ok ds x \<longleftrightarrow> lanes_ok (items x) (level x) (ax_raiseOnFirstError x) (ax_stop x) (ax_lanes x) ds \<and> outcome_ok (ax_lanes x) (ax_outcome x)"

lemma executor_okD:
  assumes "executor_ok ds x"
  shows "length (ax_lanes x) = level x" "i < level x \<Longrightarrow> lane_ok (items x) (level x) (ax_stop x) ds i (ax_lanes x ! i)"
    "ax_stop x \<longleftrightarrow> ax_raiseOnFirstError x \<and> errors_of ds \<noteq> []" "d \<in> set ds \<Longrightarrow> fst d < items x" "ax_stop x \<Longrightarrow> \<exists>l \<in> set (ax_lanes x). is_thrown l"
  using assms unfolding executor_ok_def lanes_ok_def by blast+

lemma set_lane_fields [simp]:
  "ax_parameters (set_lane i l x) = ax_parameters x" "ax_raiseOnFirstError (set_lane i l x) = ax_raiseOnFirstError x" "level (set_lane i l x) = level x"
  "ax_result (set_lane i l x) = ax_result x" "ax_stop (set_lane i l x) = ax_stop x" "ax_cache (set_lane i l x) = ax_cache x"
  "ax_lanes (set_lane i l x) = (ax_lanes x)[i := l]" "ax_calls (set_lane i l x) = ax_calls x" "ax_outcome (set_lane i l x) = ax_outcome x"
  by (simp_all add: set_lane_def)

text \<open>The beginning of an item.\<close>

lemma begin_item:
  obtains (over) "items x \<le> lane_index x i k \<or> ax_stop x" "executeOneAtATime i k x = set_lane i Returning x"
  | (prepare) "lane_index x i k < items x" "\<not> ax_stop x"
      "executeOneAtATime i k x = set_lane i (Preparing k) (x\<lparr>ax_calls := ax_calls x @ [Prepare_call (fst (work_item (ax_parameters x) (lane_index x i k)))]\<rparr>)"
  | (execute) p where "lane_index x i k < items x" "\<not> ax_stop x" "obj_get (ax_cache x) (fst (work_item (ax_parameters x) (lane_index x i k))) = Some p"
      "executeOneAtATime i k x = execute_prepared i k p x"
  by (cases "items x \<le> lane_index x i k \<or> ax_stop x"; cases "obj_get (ax_cache x) (fst (work_item (ax_parameters x) (lane_index x i k)))")
    (auto simp: executeOneAtATime_def Let_def not_le)

lemma begin_item_fields:
  "same_settings x (executeOneAtATime i k x)" "ax_result (executeOneAtATime i k x) = ax_result x" "ax_stop (executeOneAtATime i k x) = ax_stop x"
  "ax_outcome (executeOneAtATime i k x) = ax_outcome x" "ax_cache (executeOneAtATime i k x) = ax_cache x"
  by (cases rule: begin_item[of x i k]; simp add: same_settings_def execute_prepared_def Let_def)+

lemma begin_item_lane:
  "\<exists>l. ax_lanes (executeOneAtATime i k x) = (ax_lanes x)[i := l] \<and> active l \<and> \<not> is_thrown l
    \<and> (lane_part (level x) ds i = map (\<lambda>j. i + level x * j) [0..<k] \<longrightarrow> lane_ok (items x) (level x) (ax_stop x) ds i l)"
  by (cases rule: begin_item[of x i k]) (auto simp: execute_prepared_def Let_def lane_ok_def lane_index_def active_def is_thrown_def)

text \<open>A lane goes on, having settled nothing or an item without stopping the others.\<close>

lemma begin_item_ok:
  assumes "executor_ok ds x" "i < level x" "active (ax_lanes x ! i)" "\<not> is_thrown (ax_lanes x ! i)"
    "ds' = [] \<or> (\<exists>k r. ds' = [(i + level x * k, r)] \<and> i + level x * k < items x)" "errors_of ds' = [] \<or> \<not> ax_raiseOnFirstError x"
    "lane_part (level x) (ds @ ds') i = map (\<lambda>j. i + level x * j) [0..<k]"
  shows "executor_ok (ds @ ds') (executeOneAtATime i k (x\<lparr>ax_result := g\<rparr>))"
proof -
  let ?x = "x\<lparr>ax_result := g\<rparr>"
  obtain l where l: "ax_lanes (executeOneAtATime i k ?x) = (ax_lanes x)[i := l]" "active l" "lane_ok (items x) (level x) (ax_stop x) (ds @ ds') i l"
    using begin_item_lane[where i = i and k = k and x = ?x and ds = "ds @ ds'"] assms(7) by auto
  have ok: "lanes_ok (items x) (level x) (ax_raiseOnFirstError x) (ax_stop x) (ax_lanes x) ds" "outcome_ok (ax_lanes x) (ax_outcome x)"
    using assms(1) by (simp_all add: executor_ok_def)
  have "lanes_ok (items x) (level x) (ax_raiseOnFirstError x) (ax_stop x) ((ax_lanes x)[i := l]) (ds @ ds')"
    using ok(1) assms(4,6) by (intro lanes_ok_move[OF ok(1) assms(2,5) l(3)]) (auto simp: lanes_ok_def)
  moreover have "outcome_ok ((ax_lanes x)[i := l]) (ax_outcome x)"
    using ok assms(2,3) l(2) by (intro outcome_ok_move) (simp_all add: lanes_ok_def)
  ultimately show ?thesis using l(1) begin_item_fields[where x = ?x and i = i and k = k] by (simp add: executor_ok_def same_settings_def)
qed

text \<open>The current item of a lane, and the items of the lane when it has been settled.\<close>

lemma current_item:
  assumes "executor_ok ds x" "i < level x" "ax_lanes x ! i = Preparing k \<or> ax_lanes x ! i = Executing k"
  shows "i + level x * k < items x" "lane_part (level x) ds i = map (\<lambda>j. i + level x * j) [0..<k]"
    "lane_part (level x) (ds @ [(lane_index x i k, r)]) i = map (\<lambda>j. i + level x * j) [0..<Suc k]" "active (ax_lanes x ! i)" "\<not> is_thrown (ax_lanes x ! i)"
proof -
  have ok: "lane_ok (items x) (level x) (ax_stop x) ds i (ax_lanes x ! i)" using assms(1,2) by (rule executor_okD)
  show "i + level x * k < items x" using ok assms(3) by (auto simp: lane_ok_def)
  show part: "lane_part (level x) ds i = map (\<lambda>j. i + level x * j) [0..<k]" using ok assms(3) by (auto simp: lane_ok_def)
  show "lane_part (level x) (ds @ [(lane_index x i k, r)]) i = map (\<lambda>j. i + level x * j) [0..<Suc k]"
    using assms(2) by (simp add: part lane_part_own lane_index_def)
  show "active (ax_lanes x ! i)" "\<not> is_thrown (ax_lanes x ! i)" using assms(3) by (auto simp: active_def is_thrown_def)
qed

lemma setError_ok:
  assumes "executor_ok ds x" "i < level x" "ax_lanes x ! i = Preparing k \<or> ax_lanes x ! i = Executing k"
  shows "executor_ok (ds @ [(lane_index x i k, Inl err)]) (array_setError i k err x)"
proof (cases "ax_raiseOnFirstError x")
  case False
  show ?thesis
    using begin_item_ok[OF assms(1,2) current_item(4,5)[OF assms] _ _ current_item(3)[OF assms, of "Inl err"]] False current_item(1)[OF assms]
    by (auto simp: array_setError_def lane_index_def)
next
  case True
  let ?d = "(lane_index x i k, Inl err)"
  have ok: "lanes_ok (items x) (level x) (ax_raiseOnFirstError x) (ax_stop x) (ax_lanes x) ds" "outcome_ok (ax_lanes x) (ax_outcome x)"
    using assms(1) by (simp_all add: executor_ok_def)
  have "lane_ok (items x) (level x) True (ds @ [?d]) i (Thrown err)" using current_item(3)[OF assms, of "Inl err"] by (simp add: lane_ok_def)
  then have "lanes_ok (items x) (level x) (ax_raiseOnFirstError x) True ((ax_lanes x)[i := Thrown err]) (ds @ [?d])"
    using True current_item(1)[OF assms] by (intro lanes_ok_move[OF ok(1) assms(2)]) (auto simp: is_thrown_def lane_index_def)
  moreover have "outcome_ok ((ax_lanes x)[i := Thrown err]) (ax_outcome x)"
    using ok assms(2) current_item(4)[OF assms] by (intro outcome_ok_move) (simp_all add: lanes_ok_def active_def)
  ultimately show ?thesis using True by (simp add: array_setError_def executor_ok_def)
qed

text \<open>The other moves of a lane keep the settled items, or add the current one.\<close>

lemma executor_ok_move:
  assumes "executor_ok ds x" "i < level x" "active (ax_lanes x ! i)" "\<not> is_thrown (ax_lanes x ! i)"
    "ds' = [] \<or> (\<exists>k r. ds' = [(i + level x * k, r)] \<and> i + level x * k < items x)" "errors_of ds' = []" "active l" "lane_ok (items x) (level x) (ax_stop x) (ds @ ds') i l"
    "same_settings x x'" "ax_stop x' = ax_stop x" "ax_outcome x' = ax_outcome x" "ax_lanes x' = (ax_lanes x)[i := l]"
  shows "executor_ok (ds @ ds') x'"
proof -
  have ok: "lanes_ok (items x) (level x) (ax_raiseOnFirstError x) (ax_stop x) (ax_lanes x) ds" "outcome_ok (ax_lanes x) (ax_outcome x)"
    using assms(1) by (simp_all add: executor_ok_def)
  have "lanes_ok (items x) (level x) (ax_raiseOnFirstError x) (ax_stop x) ((ax_lanes x)[i := l]) (ds @ ds')"
    using ok(1) assms(4,6) by (intro lanes_ok_move[OF ok(1) assms(2,5,8)]) (auto simp: lanes_ok_def)
  moreover have "outcome_ok ((ax_lanes x)[i := l]) (ax_outcome x)"
    using ok assms(2,3,7) by (intro outcome_ok_move) (simp_all add: lanes_ok_def)
  ultimately show ?thesis using assms(9-12) by (simp add: executor_ok_def same_settings_def)
qed

lemma settled_ok:
  assumes "executor_ok ds x" "i < level x" "ax_lanes x ! i = Returning \<or> ax_lanes x ! i = Thrown err"
  shows "executor_ok ds (lane_settled i x)"
proof -
  let ?l = "if ax_lanes x ! i = Returning then Lane_fulfilled else Lane_rejected err"
  have ok: "lanes_ok (items x) (level x) (ax_raiseOnFirstError x) (ax_stop x) (ax_lanes x) ds" "outcome_ok (ax_lanes x) (ax_outcome x)" "i < length (ax_lanes x)"
    using assms(1,2) executor_okD(1)[OF assms(1)] by (simp_all add: executor_ok_def)
  have "lane_ok (items x) (level x) (ax_stop x) ds i (ax_lanes x ! i)" using ok(1) assms(2) unfolding lanes_ok_def by blast
  then have "lane_ok (items x) (level x) (ax_stop x) (ds @ []) i ?l" using assms(3) by (auto simp: lane_ok_def)
  then have "lanes_ok (items x) (level x) (ax_raiseOnFirstError x) (ax_stop x) ((ax_lanes x)[i := ?l]) (ds @ [])"
    using ok(1) assms(3) by (intro lanes_ok_move[OF ok(1) assms(2)]) (auto simp: is_thrown_def lanes_ok_def)
  then have lanes: "lanes_ok (items x) (level x) (ax_raiseOnFirstError x) (ax_stop x) ((ax_lanes x)[i := ?l]) ds" by simp
  have sub: "set ((ax_lanes x)[i := ?l]) \<subseteq> insert ?l (set (ax_lanes x))" by (rule set_update_subset_insert)
  have mem: "?l \<in> set ((ax_lanes x)[i := ?l])" using ok(3) by (rule set_update_memI)
  have keep: "l \<in> set ((ax_lanes x)[i := ?l])" if "l \<in> set (ax_lanes x)" "l \<noteq> ax_lanes x ! i" for l
    using that ok(3) by (metis in_set_conv_nth length_list_update nth_list_update_neq)
  have "outcome_ok (ax_lanes (lane_settled i x)) (ax_outcome (lane_settled i x))"
    using assms(3)
  proof
    assume r: "ax_lanes x ! i = Returning"
    then have "ax_outcome x \<noteq> Group_resolved" using ok(2) nth_mem[OF ok(3)] by (auto simp: outcome_ok_def)
    then show ?thesis using r ok(2) sub keep by (cases "ax_outcome x") (auto simp: lane_settled_def outcome_ok_def active_def list_all_iff Let_def)
  next
    assume t: "ax_lanes x ! i = Thrown err"
    then have "ax_outcome x \<noteq> Group_resolved" using ok(2) nth_mem[OF ok(3)] by (auto simp: outcome_ok_def)
    then show ?thesis using t ok(2) mem keep by (cases "ax_outcome x") (auto simp: lane_settled_def outcome_ok_def Let_def)
  qed
  then show ?thesis using lanes assms(3) by (auto simp: executor_ok_def lane_settled_def Let_def split: if_splits)
qed

section \<open>Runs\<close>

lemma lane_part_distinct:
  assumes "\<forall>i < c. lane_part c ds i = map (\<lambda>j. i + c * j) [0..<length (lane_part c ds i)]" "0 < c"
  shows "distinct (map fst ds)"
proof (rule ccontr)
  assume "\<not> distinct (map fst ds)"
  then obtain xs ys zs a where a: "map fst ds = xs @ [a] @ ys @ [a] @ zs" by (blast dest: not_distinct_decomp)
  have "lane_part c ds (a mod c) = filter (\<lambda>b. b mod c = a mod c) (map fst ds)" by (simp add: lane_part_def filter_map comp_def)
  then have "\<not> distinct (lane_part c ds (a mod c))" by (simp add: a)
  moreover obtain m where "lane_part c ds (a mod c) = map (\<lambda>j. a mod c + c * j) [0..<m]" using assms by (meson mod_less_divisor)
  ultimately show False using assms(2) by (simp add: distinct_map inj_on_def)
qed

lemma setError_fields:
  "same_settings x (array_setError i k err x)" "ax_result (array_setError i k err x) = group_setError (lane_index x i k) err (ax_result x)"
  "ax_outcome (array_setError i k err x) = ax_outcome x" "ax_cache (array_setError i k err x) = ax_cache x"
  using begin_item_fields[where i = i and k = "Suc k" and x = "x\<lparr>ax_result := group_setError (lane_index x i k) err (ax_result x)\<rparr>"]
  by (simp_all add: array_setError_def same_settings_def Let_def)

lemma settled_fields:
  "same_settings x (lane_settled i x)" "ax_result (lane_settled i x) = ax_result x" "ax_cache (lane_settled i x) = ax_cache x" "ax_calls (lane_settled i x) = ax_calls x"
  "\<exists>l. ax_lanes (lane_settled i x) = (ax_lanes x)[i := l]"
  by (auto simp: lane_settled_def same_settings_def Let_def split: lane.split)

lemma array_step_ok:
  assumes "array_step prep x ds' x'" "executor_ok ds x"
  shows "executor_ok (ds @ ds') x' \<and> same_settings x x' \<and> ax_result x' = fold deliver ds' (ax_result x)"
  using assms(1)
proof cases
  case (step_prepared i k p)
  have i: "i < level x" using step_prepared executor_okD(1)[OF assms(2)] by simp
  have lane: "ax_lanes x ! i = Preparing k \<or> ax_lanes x ! i = Executing k" using step_prepared by simp
  have "lane_ok (items x) (level x) (ax_stop x) (ds @ []) i (Executing k)" using executor_okD(2)[OF assms(2) i] step_prepared by (auto simp: lane_ok_def)
  moreover have "same_settings x x'" "ax_stop x' = ax_stop x" "ax_outcome x' = ax_outcome x" "ax_lanes x' = (ax_lanes x)[i := Executing k]" "ax_result x' = ax_result x"
    using step_prepared by (simp_all add: lane_prepared_def execute_prepared_def Let_def same_settings_def)
  ultimately show ?thesis
    using executor_ok_move[OF assms(2) i current_item(4,5)[OF assms(2) i lane], of "[]" "Executing k" x'] step_prepared(1) by (simp add: active_def)
next
  case (step_unprepared i k err)
  have i: "i < level x" using step_unprepared executor_okD(1)[OF assms(2)] by simp
  show ?thesis
    using setError_ok[OF assms(2) i, of k err] step_unprepared setError_fields[where x = x and i = i and k = k and err = err] by (simp add: lane_prepared_def deliver_def)
next
  case (step_executed i k r)
  have i: "i < level x" using step_executed executor_okD(1)[OF assms(2)] by simp
  have lane: "ax_lanes x ! i = Preparing k \<or> ax_lanes x ! i = Executing k" using step_executed by simp
  show ?thesis
  proof (cases r)
    case (Inl err)
    then show ?thesis
      using setError_ok[OF assms(2) i lane, of err] step_executed setError_fields[where x = x and i = i and k = k and err = err] by (simp add: lane_executed_def deliver_def)
  next
    case (Inr rs)
    have "lane_ok (items x) (level x) (ax_stop x) (ds @ ds') i (Continuing (Suc k))"
      using current_item(3)[OF assms(2) i lane, of r] step_executed(1) by (simp add: lane_ok_def)
    moreover have "same_settings x x'" "ax_stop x' = ax_stop x" "ax_outcome x' = ax_outcome x" "ax_lanes x' = (ax_lanes x)[i := Continuing (Suc k)]"
        "ax_result x' = fold deliver ds' (ax_result x)"
      using step_executed Inr by (simp_all add: lane_executed_def same_settings_def deliver_def)
    ultimately show ?thesis
      using executor_ok_move[OF assms(2) i current_item(4,5)[OF assms(2) i lane], of ds' "Continuing (Suc k)" x'] step_executed(1) Inr current_item(1)[OF assms(2) i lane]
      by (auto simp: active_def lane_index_def)
  qed
next
  case (step_continued i k)
  have i: "i < level x" using step_continued executor_okD(1)[OF assms(2)] by simp
  have "active (ax_lanes x ! i)" "\<not> is_thrown (ax_lanes x ! i)" "lane_part (level x) (ds @ []) i = map (\<lambda>j. i + level x * j) [0..<k]"
    using executor_okD(2)[OF assms(2) i] step_continued by (auto simp: lane_ok_def active_def is_thrown_def)
  from begin_item_ok[OF assms(2) i this(1,2) _ _ this(3), of "ax_result x"] show ?thesis
    using step_continued begin_item_fields[where i = i and k = k and x = x] by simp
next
  case (step_settled i err)
  have i: "i < level x" using step_settled executor_okD(1)[OF assms(2)] by simp
  show ?thesis using settled_ok[OF assms(2) i step_settled(4)] step_settled(1,2) settled_fields[where x = x and i = i] by simp
qed

lemma begin_all:
  assumes "set is \<subseteq> {..<level x}" "executor_ok [] x" "\<forall>l \<in> set (ax_lanes x). active l \<and> \<not> is_thrown l"
  shows "executor_ok [] (fold (\<lambda>i. executeOneAtATime i 0) is x) \<and> same_settings x (fold (\<lambda>i. executeOneAtATime i 0) is x)
    \<and> ax_result (fold (\<lambda>i. executeOneAtATime i 0) is x) = ax_result x"
  using assms
proof (induction "is" arbitrary: x)
  case (Cons i "is")
  let ?x = "executeOneAtATime i 0 x"
  have i: "i < level x" "i < length (ax_lanes x)" using Cons.prems executor_okD(1)[OF Cons.prems(2)] by auto
  then have "active (ax_lanes x ! i)" "\<not> is_thrown (ax_lanes x ! i)" using Cons.prems(3) by simp_all
  from begin_item_ok[OF Cons.prems(2) i(1) this, of "[]" 0 "ax_result x"] have ok: "executor_ok [] ?x" by simp
  obtain l where "ax_lanes ?x = (ax_lanes x)[i := l]" "active l" "\<not> is_thrown l" using begin_item_lane[where i = i and k = 0 and x = x and ds = "[]"] by auto
  then have "\<forall>l \<in> set (ax_lanes ?x). active l \<and> \<not> is_thrown l" using Cons.prems(3) set_update_subset_insert[of "ax_lanes x" i l] by auto
  from Cons.IH[OF _ ok this] show ?case
    using Cons.prems(1) begin_item_fields[where i = i and k = 0 and x = x] by (simp add: same_settings_def)
qed (simp add: same_settings_def)

lemma new_executor_ok: "level (new_ArrayBasedExecutor w opts) > 0 \<Longrightarrow> executor_ok [] (new_ArrayBasedExecutor w opts)"
  by (auto simp: new_ArrayBasedExecutor_def Let_def executor_ok_def lanes_ok_def lane_ok_def outcome_ok_def active_def)

lemma start_ok:
  fixes w opts defines "x \<equiv> new_ArrayBasedExecutor w opts"
  shows "executor_ok [] (array_execute x) \<and> same_settings x (array_execute x) \<and> ax_result (array_execute x) = new_ResultSetGroup opts"
proof (cases "level x = 0")
  case True
  then show ?thesis
    by (simp add: array_execute_def x_def new_ArrayBasedExecutor_def Let_def executor_ok_def lanes_ok_def outcome_ok_def same_settings_def)
next
  case False
  have r: "ax_result x = new_ResultSetGroup opts" and l: "\<forall>l \<in> set (ax_lanes x). active l \<and> \<not> is_thrown l"
    by (simp_all add: x_def new_ArrayBasedExecutor_def Let_def active_def is_thrown_def)
  have "executor_ok [] x" using False new_executor_ok[of w opts] by (simp add: x_def)
  moreover have "set [0..<level x] \<subseteq> {..<level x}" by auto
  ultimately show ?thesis using begin_all[OF _ _ l] r False by (auto simp: array_execute_def Let_def same_settings_def)
qed

lemma start_level: "x = new_ArrayBasedExecutor w opts \<Longrightarrow> level (array_execute x) = level x"
  by (metis start_ok same_settings_def)

lemma array_run_ok:
  assumes "array_run prep (new_ArrayBasedExecutor w opts) ds x"
  shows "executor_ok ds x \<and> same_settings (new_ArrayBasedExecutor w opts) x \<and> ax_result x = fold deliver ds (new_ResultSetGroup opts)"
  using assms
proof induction
  case run_start
  then show ?case using start_ok by simp
next
  case (run_step ds x ds' x')
  then show ?case using array_step_ok[OF run_step.hyps(2), of ds] by (auto simp: same_settings_def)
qed

section \<open>The calls of the client\<close>

text \<open>Every execution is that of its item, with an answer of the native driver to the preparation of its statement; each
  item is executed at most once, and an execution that is not settled is awaited by a lane, other than \<open>i\<close>.\<close>

definition executions :: "client_call list \<Rightarrow> nat list" where
  "executions cs = concat (map (\<lambda>c. case c of Execute_call i p ps \<Rightarrow> [i] | Prepare_call q \<Rightarrow> []) cs)"

definition calls_ok :: "(string \<Rightarrow> prepared_info \<Rightarrow> bool) \<Rightarrow> (nat \<times> 'r result) list \<Rightarrow> nat \<Rightarrow> 'r array_executor \<Rightarrow> bool" where
  "calls_ok prep ds i x \<longleftrightarrow>
     (\<forall>q p. obj_get (ax_cache x) q = Some p \<longrightarrow> prep q p)
     \<and> (\<forall>a p ps. Execute_call a p ps \<in> set (ax_calls x) \<longrightarrow> a < items x \<and> prep (fst (work_item (ax_parameters x) a)) p \<and> ps = snd (work_item (ax_parameters x) a))
     \<and> distinct (executions (ax_calls x))
     \<and> (\<forall>a \<in> set (executions (ax_calls x)). a \<in> fst ` set ds \<or> (\<exists>j < level x. j \<noteq> i \<and> (\<exists>k. ax_lanes x ! j = Executing k \<and> a = j + level x * k)))"

lemma executions_simps [simp]: "executions [] = []" "executions (cs @ [Execute_call i p ps]) = executions cs @ [i]" "executions (cs @ [Prepare_call q]) = executions cs"
  by (simp_all add: executions_def)

lemma new_calls:
  "ax_parameters (x\<lparr>ax_calls := cs\<rparr>) = ax_parameters x" "level (x\<lparr>ax_calls := cs\<rparr>) = level x" "ax_cache (x\<lparr>ax_calls := cs\<rparr>) = ax_cache x"
  "ax_lanes (x\<lparr>ax_calls := cs\<rparr>) = ax_lanes x" "ax_calls (x\<lparr>ax_calls := cs\<rparr>) = cs"
  by simp_all

lemma calls_ok_leave:
  assumes "calls_ok prep ds (level x) x" "set ds \<subseteq> set ds'" "\<And>k. ax_lanes x ! i = Executing k \<Longrightarrow> i + level x * k \<in> fst ` set ds'"
  shows "calls_ok prep ds' i x"
proof -
  have "a \<in> fst ` set ds' \<or> (\<exists>j < level x. j \<noteq> i \<and> (\<exists>k. ax_lanes x ! j = Executing k \<and> a = j + level x * k))" if a: "a \<in> set (executions (ax_calls x))" for a
  proof -
    consider "a \<in> fst ` set ds" | j k where "j < level x" "ax_lanes x ! j = Executing k" "a = j + level x * k"
      using assms(1) a unfolding calls_ok_def by blast
    then show ?thesis
    proof cases
      case (2 j k)
      then show ?thesis using assms(3)[of k] by (cases "j = i") auto
    qed (use assms(2) in blast)
  qed
  then show ?thesis using assms(1) unfolding calls_ok_def by blast
qed

lemma awaited_elsewhere:
  assumes "calls_ok prep ds i x" "a \<in> set (executions (ax_calls x))"
  shows "a \<in> fst ` set ds \<or> (\<exists>j < level x. j \<noteq> i \<and> (\<exists>k. (ax_lanes x)[i := l] ! j = Executing k \<and> a = j + level x * k))"
proof -
  consider "a \<in> fst ` set ds" | j k where "j < level x" "j \<noteq> i" "ax_lanes x ! j = Executing k" "a = j + level x * k"
    using assms unfolding calls_ok_def by blast
  then show ?thesis
  proof cases
    case (2 j k)
    then have "(ax_lanes x)[i := l] ! j = Executing k" by simp
    then show ?thesis using 2 by blast
  qed simp
qed

lemma calls_ok_enter:
  assumes "calls_ok prep ds i x"
  shows "calls_ok prep ds (level x) (set_lane i l x)"
proof -
  have "a \<in> fst ` set ds \<or> (\<exists>j < level x. j \<noteq> level x \<and> (\<exists>k. (ax_lanes x)[i := l] ! j = Executing k \<and> a = j + level x * k))"
    if "a \<in> set (executions (ax_calls x))" for a
    using awaited_elsewhere[OF assms that, of l] by blast
  then show ?thesis using assms unfolding calls_ok_def set_lane_fields by blast
qed

lemma calls_ok_execute:
  assumes "calls_ok prep ds i x" "i < level x" "length (ax_lanes x) = level x" "i + level x * k \<notin> fst ` set ds" "i + level x * k < items x"
    "prep (fst (work_item (ax_parameters x) (i + level x * k))) p"
  shows "calls_ok prep ds (level x) (execute_prepared i k p x)"
proof -
  let ?a = "i + level x * k"
  have fresh: "?a \<notin> set (executions (ax_calls x))"
  proof
    assume "?a \<in> set (executions (ax_calls x))"
    then obtain j k' where "j < level x" "j \<noteq> i" "?a = j + level x * k'" using assms(1,4) unfolding calls_ok_def by blast
    then have "i mod level x = j mod level x" by (metis mod_mult_self2)
    then show False using \<open>j < level x\<close> \<open>j \<noteq> i\<close> assms(2) by simp
  qed
  have here: "i < level x \<and> i \<noteq> level x \<and> (\<exists>k'. (ax_lanes x)[i := Executing k] ! i = Executing k' \<and> ?a = i + level x * k')" using assms(2,3) by simp
  have "a \<in> fst ` set ds \<or> (\<exists>j < level x. j \<noteq> level x \<and> (\<exists>k'. (ax_lanes x)[i := Executing k] ! j = Executing k' \<and> a = j + level x * k'))"
    if "a \<in> set (executions (ax_calls x) @ [?a])" for a
  proof (cases "a = ?a")
    case False
    then show ?thesis using awaited_elsewhere[OF assms(1), of a "Executing k"] that by auto
  qed (use here in blast)
  moreover have "a < items x \<and> prep (fst (work_item (ax_parameters x) a)) q \<and> ps = snd (work_item (ax_parameters x) a)"
    if "Execute_call a q ps \<in> set (ax_calls x @ [Execute_call ?a p (snd (work_item (ax_parameters x) ?a))])" for a q ps
    using that assms(1,5,6) unfolding calls_ok_def by auto
  moreover have "distinct (executions (ax_calls x) @ [?a])" "\<forall>q p. obj_get (ax_cache x) q = Some p \<longrightarrow> prep q p"
    using assms(1) fresh by (simp_all add: calls_ok_def)
  moreover have "execute_prepared i k p x = set_lane i (Executing k) (x\<lparr>ax_calls := ax_calls x @ [Execute_call ?a p (snd (work_item (ax_parameters x) ?a))]\<rparr>)"
    by (simp add: execute_prepared_def lane_index_def Let_def)
  ultimately show ?thesis unfolding calls_ok_def by (simp only: set_lane_fields new_calls executions_simps) blast
qed

lemma part_fresh: "lane_part c ds i = map (\<lambda>j. i + c * j) [0..<k] \<Longrightarrow> i < c \<Longrightarrow> i + c * k \<notin> fst ` set ds"
proof
  assume p: "lane_part c ds i = map (\<lambda>j. i + c * j) [0..<k]" "i < c" and "i + c * k \<in> fst ` set ds"
  then obtain d where d: "d \<in> set ds" "fst d = i + c * k" by auto
  then have "fst d mod c = i" using p(2) by simp
  then have "i + c * k \<in> set (lane_part c ds i)" unfolding d(2)[symmetric] using d(1) by (auto simp: lane_part_def)
  then show False using p by auto
qed

lemma calls_ok_begin:
  assumes "calls_ok prep ds i x" "i < level x" "length (ax_lanes x) = level x" "lane_part (level x) ds i = map (\<lambda>j. i + level x * j) [0..<k]"
  shows "calls_ok prep ds (level x) (executeOneAtATime i k x)"
proof (cases rule: begin_item[of x i k])
  case (execute p)
  then show ?thesis
    using calls_ok_execute[OF assms(1-3) part_fresh[OF assms(4,2)], of p] assms(1) by (simp add: lane_index_def calls_ok_def)
next
  case prepare
  let ?x = "x\<lparr>ax_calls := ax_calls x @ [Prepare_call (fst (work_item (ax_parameters x) (lane_index x i k)))]\<rparr>"
  have "calls_ok prep ds i ?x" using assms(1) by (simp add: calls_ok_def)
  from calls_ok_enter[OF this] show ?thesis by (simp add: prepare(3))
qed (simp add: calls_ok_enter[OF assms(1)])

lemma calls_ok_other [simp]:
  "calls_ok prep ds i (x\<lparr>ax_result := g\<rparr>) = calls_ok prep ds i x" "calls_ok prep ds i (x\<lparr>ax_stop := b\<rparr>) = calls_ok prep ds i x"
  "calls_ok prep ds i (x\<lparr>ax_outcome := out\<rparr>) = calls_ok prep ds i x"
  by (simp_all add: calls_ok_def)

lemma setError_calls:
  assumes "executor_ok ds x" "calls_ok prep ds (level x) x" "i < level x" "ax_lanes x ! i = Preparing k \<or> ax_lanes x ! i = Executing k"
  shows "calls_ok prep (ds @ [(lane_index x i k, Inl err)]) (level x) (array_setError i k err x)"
proof -
  let ?ds = "ds @ [(lane_index x i k, Inl err)]" and ?x = "x\<lparr>ax_result := group_setError (lane_index x i k) err (ax_result x)\<rparr>"
  have ok: "calls_ok prep ?ds i ?x" using assms(4) by (simp, intro calls_ok_leave[OF assms(2)]) (auto simp: lane_index_def)
  show ?thesis
  proof (cases "ax_raiseOnFirstError x")
    case True
    have "calls_ok prep ?ds i (?x\<lparr>ax_stop := True\<rparr>)" using ok by simp
    from calls_ok_enter[OF this, of "Thrown err"] show ?thesis using True by (simp add: array_setError_def)
  next
    case False
    have "calls_ok prep ?ds (level ?x) (executeOneAtATime i (Suc k) ?x)"
      using assms(3) executor_okD(1)[OF assms(1)] current_item(3)[OF assms(1,3,4), of "Inl err"] by (intro calls_ok_begin[OF ok]) simp_all
    then show ?thesis using False by (simp add: array_setError_def)
  qed
qed

lemma array_step_calls:
  assumes "array_step prep x ds' x'" "executor_ok ds x" "calls_ok prep ds (level x) x"
  shows "calls_ok prep (ds @ ds') (level x') x'"
proof -
  have level: "level x' = level x" using array_step_ok[OF assms(1,2)] by (simp add: same_settings_def)
  note len = executor_okD(1)[OF assms(2)]
  have "calls_ok prep (ds @ ds') (level x) x'" using assms(1)
  proof cases
    case (step_prepared i k p)
    let ?q = "fst (work_item (ax_parameters x) (lane_index x i k))"
    let ?x = "x\<lparr>ax_cache := obj_set (ax_cache x) ?q p\<rparr>"
    have i: "i < level x" and lane: "ax_lanes x ! i = Preparing k \<or> ax_lanes x ! i = Executing k" using step_prepared len by simp_all
    have "calls_ok prep ds i x" using step_prepared(4) by (intro calls_ok_leave[OF assms(3)]) simp_all
    then have "calls_ok prep ds i ?x" using step_prepared(5) by (simp add: calls_ok_def obj_get_set)
    from calls_ok_execute[OF this, of k p] show ?thesis
      using step_prepared i len current_item(1,2)[OF assms(2) i lane] part_fresh[OF current_item(2)[OF assms(2) i lane] i]
      by (simp add: lane_prepared_def lane_index_def)
  next
    case (step_unprepared i k err)
    then show ?thesis using setError_calls[OF assms(2,3), of i k err] len by (simp add: lane_prepared_def)
  next
    case (step_executed i k r)
    show ?thesis
    proof (cases r)
      case (Inl err)
      then show ?thesis using step_executed setError_calls[OF assms(2,3), of i k err] len by (simp add: lane_executed_def)
    next
      case (Inr rs)
      let ?x = "x\<lparr>ax_result := setResultItem (lane_index x i k) rs (ax_result x)\<rparr>"
      have "calls_ok prep (ds @ ds') i ?x" using step_executed by (simp, intro calls_ok_leave[OF assms(3)]) (auto simp: lane_index_def)
      from calls_ok_enter[OF this] show ?thesis using step_executed Inr by (simp add: lane_executed_def)
    qed
  next
    case (step_continued i k)
    have i: "i < level x" using step_continued len by simp
    have "calls_ok prep ds i x" using step_continued by (intro calls_ok_leave[OF assms(3)]) simp_all
    from calls_ok_begin[OF this i len] show ?thesis
      using step_continued executor_okD(2)[OF assms(2) i] by (auto simp: lane_ok_def)
  next
    case (step_settled i err)
    have "calls_ok prep ds i x" using step_settled by (intro calls_ok_leave[OF assms(3)]) auto
    from calls_ok_enter[OF this] show ?thesis using step_settled(1,2) by (auto simp: lane_settled_def Let_def split: lane.split)
  qed
  then show ?thesis by (simp only: level)
qed

lemma begin_all_calls:
  assumes "set is \<subseteq> {..<level x}" "executor_ok [] x" "\<forall>l \<in> set (ax_lanes x). active l \<and> \<not> is_thrown l" "calls_ok prep [] (level x) x" "distinct is"
    "\<forall>i \<in> set is. ax_lanes x ! i = Continuing 0"
  shows "calls_ok prep [] (level x) (fold (\<lambda>i. executeOneAtATime i 0) is x)"
  using assms
proof (induction "is" arbitrary: x)
  case (Cons i "is")
  let ?x = "executeOneAtATime i 0 x"
  have i: "i < level x" "length (ax_lanes x) = level x" using Cons.prems executor_okD(1)[OF Cons.prems(2)] by auto
  then have a: "active (ax_lanes x ! i)" "\<not> is_thrown (ax_lanes x ! i)" using Cons.prems(3) by simp_all
  from begin_item_ok[OF Cons.prems(2) i(1) a, of "[]" 0 "ax_result x"] have ok: "executor_ok [] ?x" by simp
  obtain l where l: "ax_lanes ?x = (ax_lanes x)[i := l]" "active l" "\<not> is_thrown l" using begin_item_lane[where i = i and k = 0 and x = x and ds = "[]"] by auto
  then have act: "\<forall>l \<in> set (ax_lanes ?x). active l \<and> \<not> is_thrown l" using Cons.prems(3) set_update_subset_insert[of "ax_lanes x" i l] by auto
  have level: "level ?x = level x" using begin_item_fields(1)[of x i 0] by (simp add: same_settings_def)
  have "calls_ok prep [] i x" using Cons.prems(6) by (intro calls_ok_leave[OF Cons.prems(4)]) simp_all
  from calls_ok_begin[OF this i, of 0] have "calls_ok prep [] (level ?x) ?x" by (simp add: level)
  moreover have "\<forall>j \<in> set is. ax_lanes ?x ! j = Continuing 0" 
  proof
    fix j assume "j \<in> set is"
    then show "ax_lanes ?x ! j = Continuing 0" using Cons.prems(5,6) l(1) by (cases "i = j") auto
  qed
  ultimately show ?case using Cons.IH[OF _ ok act] Cons.prems(1,5) by (simp add: level)
qed simp

lemma start_calls:
  assumes "x = new_ArrayBasedExecutor w opts"
  shows "calls_ok prep [] (level x) (array_execute x)"
proof (cases "level x = 0")
  case True
  then show ?thesis using assms by (simp add: array_execute_def new_ArrayBasedExecutor_def Let_def calls_ok_def)
next
  case False
  have "executor_ok [] x" using False new_executor_ok[of w opts] assms by simp
  then have "calls_ok prep [] (level x) (fold (\<lambda>i. executeOneAtATime i 0) [0..<level x] x)"
    using assms by (intro begin_all_calls) (auto simp: new_ArrayBasedExecutor_def Let_def calls_ok_def active_def is_thrown_def)
  then show ?thesis by (simp add: array_execute_def Let_def)
qed

lemma array_run_calls:
  assumes "array_run prep (new_ArrayBasedExecutor w opts) ds x"
  shows "calls_ok prep ds (level x) x"
  using assms
proof induction
  case run_start
  show ?case using start_calls[OF refl] by (simp only: start_level[OF refl])
next
  case (run_step ds x ds' x')
  then show ?case using array_step_calls[OF run_step.hyps(2)] array_run_ok[OF run_step.hyps(1)] by blast
qed

section \<open>The promise of the caller\<close>

lemma settled_lane:
  assumes "executor_ok ds x" "\<not> ax_stop x" "\<forall>l \<in> set (ax_lanes x). l = Lane_fulfilled" "a < items x" "0 < level x"
  shows "a \<in> fst ` set ds"
proof -
  let ?i = "a mod level x" and ?c = "level x"
  have i: "?i < ?c" using assms(5) by simp
  then have "ax_lanes x ! ?i = Lane_fulfilled" using assms(3) executor_okD(1)[OF assms(1)] by simp
  then have part: "lane_part ?c ds ?i = map (\<lambda>j. ?i + ?c * j) [0..<length (lane_part ?c ds ?i)]" "items x \<le> ?i + ?c * length (lane_part ?c ds ?i)"
    using executor_okD(2)[OF assms(1) i] assms(2) by (simp_all add: lane_ok_def)
  have "a div ?c < length (lane_part ?c ds ?i)"
  proof (rule ccontr)
    assume "\<not> a div ?c < length (lane_part ?c ds ?i)"
    then have "?c * length (lane_part ?c ds ?i) \<le> ?c * (a div ?c)" by simp
    then have "items x \<le> ?i + ?c * (a div ?c)" using part(2) by linarith
    then show False using assms(4) by simp
  qed
  then have "a div ?c \<in> set [0..<length (lane_part ?c ds ?i)]" by simp
  then have "?i + ?c * (a div ?c) \<in> set (map (\<lambda>j. ?i + ?c * j) [0..<length (lane_part ?c ds ?i)])" unfolding set_map by (rule imageI)
  then have "a \<in> set (lane_part ?c ds ?i)" by (subst part(1)) simp
  then show ?thesis by (auto simp: lane_part_def)
qed

text \<open>C9: However the preparations and executions of a concurrent execution over an array are settled, every item is
  executed at most once, with its own statement and parameters and an answer to the preparation of that
  statement; the group of results counts the settled items, has the first errors and every result at its index.
  When the promise is fulfilled, every item has been settled, without an error if errors are raised; when it is
  rejected, errors are raised and it is with one of them.\<close>

theorem array_executor_safe:
  assumes "array_run prep (new_ArrayBasedExecutor w opts) ds x"
  shows "distinct (map fst ds) \<and> (\<forall>d \<in> set ds. fst d < work_length w) \<and> rg_totalExecuted (ax_result x) = length ds
    \<and> rg_errors (ax_result x) = take (or_hundred (co_maxErrors opts)) (errors_of ds)
    \<and> (co_collectResults opts \<longrightarrow> resultItems (ax_result x) = return (map_of ds))
    \<and> distinct (executions (ax_calls x))
    \<and> (\<forall>a p ps. Execute_call a p ps \<in> set (ax_calls x) \<longrightarrow> a < work_length w \<and> prep (fst (work_item w a)) p \<and> ps = snd (work_item w a))
    \<and> (ax_outcome x = Group_resolved \<longrightarrow> set (map fst ds) = {..<work_length w} \<and> (errors_of ds = [] \<or> co_raiseOnFirstError opts = Some False))
    \<and> (\<forall>e. ax_outcome x = Group_rejected e \<longrightarrow> co_raiseOnFirstError opts \<noteq> Some False \<and> e \<in> set (errors_of ds))"
proof -
  note run = array_run_ok[OF assms]
  have ok: "executor_ok ds x" and res: "ax_result x = fold deliver ds (new_ResultSetGroup opts)" using run by blast+
  have set: "items x = work_length w" "ax_parameters x = w" "ax_raiseOnFirstError x = (co_raiseOnFirstError opts \<noteq> Some False)"
      "level x = min (or_hundred (co_concurrencyLevel opts)) (work_length w)"
    using run by (simp_all add: same_settings_def new_ArrayBasedExecutor_def Let_def)
  have pos: "0 < level x \<longleftrightarrow> 0 < work_length w" by (simp add: set or_hundred_def split: option.splits nat.splits)
  have "\<forall>i < level x. lane_part (level x) ds i = map (\<lambda>j. i + level x * j) [0..<length (lane_part (level x) ds i)]"
    using executor_okD(2)[OF ok] unfolding lane_ok_def by blast
  moreover have less: "\<forall>d \<in> set ds. fst d < work_length w" using executor_okD(4)[OF ok] set by simp
  ultimately have dist: "distinct (map fst ds)" using pos lane_part_distinct[of "level x" ds] by (cases "ds = []") (auto dest: hd_in_set)
  then have items: "co_collectResults opts \<longrightarrow> resultItems (ax_result x) = return (map_of ds)"
    using group_items[of opts ds] by (simp add: resultItems_def res group_of map_of_rev_distinct)
  have "ax_outcome x = Group_resolved \<longrightarrow> set (map fst ds) = {..<work_length w} \<and> (errors_of ds = [] \<or> co_raiseOnFirstError opts = Some False)"
  proof
    assume "ax_outcome x = Group_resolved"
    then have all: "\<forall>l \<in> set (ax_lanes x). l = Lane_fulfilled" using ok by (simp add: executor_ok_def outcome_ok_def)
    then have ns: "\<not> ax_stop x" using executor_okD(5)[OF ok] by (auto simp: is_thrown_def)
    then have "a \<in> fst ` set ds" if "a < work_length w" for a using settled_lane[OF ok ns all, of a] that pos set by auto
    then show "set (map fst ds) = {..<work_length w} \<and> (errors_of ds = [] \<or> co_raiseOnFirstError opts = Some False)"
      using less ns executor_okD(3)[OF ok] set(3) by auto
  qed
  moreover have "\<forall>e. ax_outcome x = Group_rejected e \<longrightarrow> co_raiseOnFirstError opts \<noteq> Some False \<and> e \<in> set (errors_of ds)"
  proof (intro allI impI)
    fix e assume "ax_outcome x = Group_rejected e"
    then obtain i where "i < level x" "ax_lanes x ! i = Lane_rejected e"
      using ok executor_okD(1)[OF ok] by (auto simp: executor_ok_def outcome_ok_def in_set_conv_nth)
    then show "co_raiseOnFirstError opts \<noteq> Some False \<and> e \<in> set (errors_of ds)"
      using executor_okD(2)[OF ok, of i] executor_okD(3)[OF ok] set(3) by (simp add: lane_ok_def)
  qed
  moreover have "distinct (executions (ax_calls x))"
      "\<forall>a p ps. Execute_call a p ps \<in> set (ax_calls x) \<longrightarrow> a < work_length w \<and> prep (fst (work_item w a)) p \<and> ps = snd (work_item w a)"
    using array_run_calls[OF assms] unfolding calls_ok_def set(1,2) by blast+
  ultimately show ?thesis using dist less items by (simp only: res group_of group_errors)
qed

definition sample_work :: work where
  "sample_work = One_query ''INSERT'' [None]"

definition sample_concurrent :: concurrent_options where
  "sample_concurrent = \<lparr>co_raiseOnFirstError = None, co_concurrencyLevel = None, co_collectResults = True, co_maxErrors = None\<rparr>"

definition sample_prepared :: prepared_info where
  "sample_prepared = \<lparr>pr_types = [], pr_statement = ''INSERT'', pr_boundParamNames = []\<rparr>"

text \<open>The states of a run over one item: prepared, executed, continued and settled.\<close>

definition sample_run :: "nat \<Rightarrow> nat array_executor" where
  "sample_run n =
     (let x = array_execute (new_ArrayBasedExecutor sample_work sample_concurrent);
          x = (if n < 1 then x else lane_prepared 0 0 (Inr sample_prepared) x);
          x = (if n < 2 then x else lane_executed 0 0 (Inr 7) x);
          x = (if n < 3 then x else executeOneAtATime 0 1 x)
      in if n < 4 then x else lane_settled 0 x)"

lemma sample_array_run: "array_run (\<lambda>q p. pr_statement p = q) (new_ArrayBasedExecutor sample_work sample_concurrent) [(0, Inr 7)] (sample_run 4)"
proof -
  let ?x = "new_ArrayBasedExecutor sample_work sample_concurrent" and ?prep = "\<lambda>q p. pr_statement p = q"
  have st: "length (ax_lanes (sample_run 0)) = 1" "ax_lanes (sample_run 0) ! 0 = Preparing 0" "length (ax_lanes (sample_run 1)) = 1" "ax_lanes (sample_run 1) ! 0 = Executing 0"
    "length (ax_lanes (sample_run 2)) = 1" "ax_lanes (sample_run 2) ! 0 = Continuing 1" "length (ax_lanes (sample_run 3)) = 1" "ax_lanes (sample_run 3) ! 0 = Returning"
    "lane_index (sample_run 1) 0 0 = 0" "fst (work_item (ax_parameters (sample_run 0)) (lane_index (sample_run 0) 0 0)) = ''INSERT''"
    by code_simp+
  have run: "sample_run 1 = lane_prepared 0 0 (Inr sample_prepared) (sample_run 0)" "sample_run 2 = lane_executed 0 0 (Inr 7) (sample_run 1)"
    "sample_run 3 = executeOneAtATime 0 1 (sample_run 2)" "sample_run 4 = lane_settled 0 (sample_run 3)"
    by (simp_all add: sample_run_def Let_def)
  have "array_run ?prep ?x [] (sample_run 0)" using run_start[of ?prep ?x] by (simp add: sample_run_def Let_def)
  moreover have "array_step ?prep (sample_run 0) [] (sample_run 1)" unfolding run by (rule step_prepared) (simp_all add: st sample_prepared_def)
  moreover have "array_step ?prep (sample_run 1) [(0, Inr 7)] (sample_run 2)" 
    using step_executed[of 0 "sample_run 1" 0 ?prep "Inr 7"] by (simp only: st run(2) zero_less_one simp_thms)
  moreover have "array_step ?prep (sample_run 2) [] (sample_run 3)" unfolding run(3) by (rule step_continued) (simp_all add: st)
  moreover have "array_step ?prep (sample_run 3) [] (sample_run 4)" unfolding run(4) by (rule step_settled) (simp_all add: st)
  ultimately show ?thesis by (metis run_step append_Nil append_Nil2)
qed

lemma array_executor_safe_witness:
  "ax_outcome (sample_run 4) = Group_resolved \<and> resultItems (ax_result (sample_run 4)) = return (map_of [(0, Inr 7)])
    \<and> rg_totalExecuted (ax_result (sample_run 4)) = 1 \<and> executions (ax_calls (sample_run 4)) = [0]"
proof -
  have "ax_outcome (sample_run 4) = Group_resolved" "executions (ax_calls (sample_run 4)) = [0]" by code_simp+
  then show ?thesis using array_executor_safe[OF sample_array_run] by (simp add: sample_concurrent_def)
qed

section \<open>Progress\<close>

text \<open>What is left for a lane, and for all of them.\<close>

definition lane_left :: "nat \<Rightarrow> lane \<Rightarrow> nat" where
  "lane_left n l =
     (case l of
        Continuing k \<Rightarrow> 4 * (n - k) + 4
      | Preparing k \<Rightarrow> 4 * (n - k) + 3
      | Executing k \<Rightarrow> 4 * (n - k) + 2
      | Returning \<Rightarrow> 2
      | Thrown e \<Rightarrow> 2
      | _ \<Rightarrow> 0)"

definition steps_left :: "'r array_executor \<Rightarrow> nat" where
  "steps_left x = sum_list (map (lane_left (items x)) (ax_lanes x))"

lemma steps_left_less:
  assumes "i < length (ax_lanes x)" "ax_lanes x' = (ax_lanes x)[i := l]" "ax_parameters x' = ax_parameters x" "lane_left (items x) l < lane_left (items x) (ax_lanes x ! i)"
  shows "steps_left x' < steps_left x"
proof -
  have "lane_left (items x) (ax_lanes x ! i) \<le> steps_left x" unfolding steps_left_def using assms(1) by (intro member_le_sum_list) simp_all
  then show ?thesis using assms by (simp add: steps_left_def map_update sum_list_update)
qed

lemma steps_left_le: "steps_left x \<le> length (ax_lanes x) * (4 * items x + 4)"
proof -
  have "lane_left (items x) l \<le> 4 * items x + 4" for l by (auto simp: lane_left_def split: lane.split)
  then have "sum_list (map (lane_left (items x)) ls) \<le> length ls * (4 * items x + 4)" for ls
    by (induction ls) (simp, metis add_mono length_Cons list.simps(9) mult_Suc sum_list.Cons)
  then show ?thesis by (simp only: steps_left_def)
qed

lemma begin_item_left: "\<exists>l. ax_lanes (executeOneAtATime i k x) = (ax_lanes x)[i := l] \<and> lane_left (items x) l \<le> 4 * (items x - k) + 3"
  by (cases rule: begin_item[of x i k]) (auto simp: execute_prepared_def Let_def lane_left_def)

lemma setError_left:
  assumes "lane_index x i k < items x" "0 < level x"
  shows "\<exists>l. ax_lanes (array_setError i k err x) = (ax_lanes x)[i := l] \<and> lane_left (items x) l < 4 * (items x - k) + 2"
proof -
  have "k < items x" using assms by (cases "level x") (auto simp: lane_index_def)
  then have n: "4 * (items x - Suc k) + 3 < 4 * (items x - k) + 2" by simp
  let ?x = "x\<lparr>ax_result := group_setError (lane_index x i k) err (ax_result x)\<rparr>"
  show ?thesis
  proof (cases "ax_raiseOnFirstError x")
    case True
    then show ?thesis using n by (auto simp: array_setError_def lane_left_def)
  next
    case False
    obtain l where "ax_lanes (executeOneAtATime i (Suc k) ?x) = (ax_lanes x)[i := l]" "lane_left (items x) l \<le> 4 * (items x - Suc k) + 3"
      using begin_item_left[of i "Suc k" ?x] by auto
    then show ?thesis using False n by (auto simp: array_setError_def)
  qed
qed

lemma array_step_less:
  assumes "array_step prep x ds' x'" "executor_ok ds x"
  shows "steps_left x' < steps_left x"
proof -
  note len = executor_okD(1)[OF assms(2)]
  have params: "ax_parameters x' = ax_parameters x" using array_step_ok[OF assms] by (simp add: same_settings_def)
  have move: ?thesis if "i < length (ax_lanes x)" "\<exists>l. ax_lanes x' = (ax_lanes x)[i := l] \<and> lane_left (items x) l < lane_left (items x) (ax_lanes x ! i)" for i
    using that steps_left_less[OF that(1) _ params] by blast
  have bound: "lane_index x i k < items x" "0 < level x" if "i < length (ax_lanes x)" "ax_lanes x ! i = Preparing k \<or> ax_lanes x ! i = Executing k" for i k
    using current_item(1)[OF assms(2), of i k] that len by (auto simp: lane_index_def)
  show ?thesis
    using assms(1)
  proof cases
    case (step_prepared i k p)
    then show ?thesis by (intro move[of i]) (auto simp: lane_prepared_def execute_prepared_def Let_def lane_left_def)
  next
    case (step_unprepared i k err)
    then show ?thesis using setError_left[where x = x and i = i and k = k and err = err] bound[of i k] by (intro move[of i]) (auto simp: lane_prepared_def lane_left_def)
  next
    case (step_executed i k r)
    have "k < items x" using bound[of i k] step_executed by (cases "level x") (auto simp: lane_index_def)
    then show ?thesis
      using step_executed setError_left[where x = x and i = i and k = k] bound[of i k] by (intro move[of i]) (auto simp: lane_executed_def lane_left_def split: sum.splits)
  next
    case (step_continued i k)
    then show ?thesis using begin_item_left[where i = i and k = k and x = x] by (intro move[of i]) (auto simp: lane_left_def)
  next
    case (step_settled i err)
    then show ?thesis by (intro move[of i]) (auto simp: lane_settled_def Let_def lane_left_def)
  qed
qed

text \<open>C10: A concurrent execution over an array always ends: until its promise is settled some lane awaits an answer or goes
  on, and no run has more steps than four for every item and lane and four more for every lane.\<close>

theorem array_executor_settles:
  assumes "array_run prep (new_ArrayBasedExecutor w opts) ds x"
  shows "(ax_outcome x = Group_pending \<longrightarrow> (\<exists>ds' x'. array_step prep x ds' x'))
    \<and> (\<forall>ds' x'. array_step prep x ds' x' \<longrightarrow> steps_left x' < steps_left x)
    \<and> steps_left x \<le> min (or_hundred (co_concurrencyLevel opts)) (work_length w) * (4 * work_length w + 4)"
proof (intro conjI impI allI)
  have ok: "executor_ok ds x" using array_run_ok[OF assms] by blast
  show "steps_left x' < steps_left x" if "array_step prep x ds' x'" for ds' x' by (rule array_step_less[OF that ok])
  have "level x = min (or_hundred (co_concurrencyLevel opts)) (work_length w)" "items x = work_length w"
    using array_run_ok[OF assms] by (simp_all add: same_settings_def new_ArrayBasedExecutor_def Let_def)
  then show "steps_left x \<le> min (or_hundred (co_concurrencyLevel opts)) (work_length w) * (4 * work_length w + 4)"
    using steps_left_le[of x] executor_okD(1)[OF ok] by simp
  assume "ax_outcome x = Group_pending"
  then obtain i where "i < length (ax_lanes x)" "active (ax_lanes x ! i)" using ok by (auto simp: executor_ok_def outcome_ok_def in_set_conv_nth)
  then show "\<exists>ds' x'. array_step prep x ds' x'"
    by (cases "ax_lanes x ! i") (auto simp: active_def intro: array_step.intros)
qed

lemma array_executor_settles_witness:
  "(\<exists>ds' x'. array_step (\<lambda>q p. pr_statement p = q) (sample_run 0) ds' x') \<and> steps_left (sample_run 0) \<le> 8"
proof -
  have "array_run (\<lambda>q p. pr_statement p = q) (new_ArrayBasedExecutor sample_work sample_concurrent) [] (sample_run 0)"
    using run_start[of _ "new_ArrayBasedExecutor sample_work sample_concurrent"] by (simp add: sample_run_def Let_def)
  moreover have "ax_outcome (sample_run 0) = Group_pending" "min (or_hundred (co_concurrencyLevel sample_concurrent)) (work_length sample_work) * (4 * work_length sample_work + 4) = 8"
    by code_simp+
  ultimately show ?thesis using array_executor_settles by metis
qed

end
