(* ===== verification/Concurrent_Stream.thy ===== *)
theory Concurrent_Stream
  imports Concurrent_Correct
begin

text \<open>
  A concurrent execution over a stream settles its promise once, when the stream is over and every item is settled, or with
  an error; while the stream respects its handlers, no more items are in flight than the level of concurrency.
\<close>

section \<open>The invariant\<close>

text \<open>Where an error of the promise may come from.\<close>

definition error_source :: "concurrent_options \<Rightarrow> (nat \<times> 'r result) list \<Rightarrow> stream_end \<Rightarrow> js_error \<Rightarrow> bool" where
  "error_source opts ds st e \<longleftrightarrow> e = not_array \<or> st = Failed e \<or> (co_raiseOnFirstError opts \<noteq> Some False \<and> e \<in> set (errors_of ds))"

text \<open>Of the items: each one that the stream emitted is in flight or settled.\<close>

definition items_ok :: "(nat \<times> 'r result) list \<Rightarrow> 'r stream_executor \<Rightarrow> bool" where
  "items_ok ds x \<longleftrightarrow>
     distinct (map fst ds @ sx_pending x) \<and> set (map fst ds @ sx_pending x) = {..<sx_index x}
     \<and> sx_inFlight x = length (sx_pending x) \<and> map fst (sx_calls x) = [0..<sx_index x]"

definition promise_ok :: "concurrent_options \<Rightarrow> (nat \<times> 'r result) list \<Rightarrow> stream_end \<Rightarrow> 'r stream_executor \<Rightarrow> bool" where
  "promise_ok opts ds st x \<longleftrightarrow>
     (st \<noteq> Open \<longrightarrow> sx_readEnded x)
     \<and> (case sx_outcome x of
          Group_pending \<Rightarrow> (sx_readEnded x \<longrightarrow> st = Ended \<and> (sx_pending x \<noteq> [] \<or> 0 < sx_handlers x)) \<and> (sx_raiseOnFirstError x \<longrightarrow> errors_of ds = [])
        | Group_resolved \<Rightarrow> sx_readEnded x \<and> st = Ended \<and> sx_pending x = [] \<and> (sx_raiseOnFirstError x \<longrightarrow> errors_of ds = [])
        | Group_rejected e \<Rightarrow> sx_readEnded x \<and> error_source opts ds st e)"

definition stream_ok :: "concurrent_options \<Rightarrow> (nat \<times> 'r result) list \<Rightarrow> stream_end \<Rightarrow> 'r stream_executor \<Rightarrow> bool" where
  "stream_ok opts ds st x \<longleftrightarrow>
     items_ok ds x \<and> promise_ok opts ds st x \<and> sx_result x = fold deliver ds (new_ResultSetGroup opts)
     \<and> sx_raiseOnFirstError x = (co_raiseOnFirstError opts \<noteq> Some False) \<and> sx_concurrencyLevel x = or_hundred (co_concurrencyLevel opts)"

lemmas stream_defs = settle_def setReadEnded_def stream_setError_def executeOne_def stream_executed_def stream_handled_def Let_def

lemma start_stream_ok: "stream_ok opts [] Open (new_StreamBasedExecutor opts)"
  by (simp add: stream_ok_def items_ok_def promise_ok_def new_StreamBasedExecutor_def)

lemma executeOne_ok:
  assumes "stream_ok opts ds Open x" shows "stream_ok opts ds Open (executeOne data x)"
proof (cases data)
  case None
  then show ?thesis using assms
    by (cases "sx_outcome x") (auto simp: stream_ok_def items_ok_def promise_ok_def stream_defs error_source_def)
next
  case (Some ps)
  then show ?thesis using assms
    by (cases "sx_outcome x") (auto simp: stream_ok_def items_ok_def promise_ok_def stream_defs lessThan_Suc)
qed

lemma readEnded_ok:
  assumes "stream_ok opts ds Open x"
  shows "stream_ok opts ds Ended (setReadEnded None x)" "stream_ok opts ds (Failed err) (setReadEnded (Some err) x)"
  using assms by (cases "sx_outcome x"; auto simp: stream_ok_def items_ok_def promise_ok_def stream_defs error_source_def)+

lemma handled_ok:
  assumes "stream_ok opts ds st x" "0 < sx_handlers x"
  shows "stream_ok opts ds st (stream_handled x)"
  using assms by (cases "sx_outcome x") (auto simp: stream_ok_def items_ok_def promise_ok_def stream_defs)

lemma items_ok_settle:
  assumes "items_ok ds x" "i \<in> set (sx_pending x)" "sx_pending x' = remove1 i (sx_pending x)" "sx_inFlight x' = sx_inFlight x - 1" "sx_index x' = sx_index x" "sx_calls x' = sx_calls x"
  shows "items_ok (ds @ [(i, r)]) x'"
  using assms by (auto simp: items_ok_def length_remove1 distinct_remove1 set_remove1_eq)

lemma executed_ok:
  assumes "stream_ok opts ds st x" "i \<in> set (sx_pending x)"
  shows "stream_ok opts (ds @ [(i, r)]) st (stream_executed i r x)"
proof -
  have "items_ok ds x" using assms(1) by (simp add: stream_ok_def)
  then have "items_ok (ds @ [(i, r)]) (stream_executed i r x)"
    by (rule items_ok_settle[OF _ assms(2)]) (simp_all add: stream_defs split: sum.split)
  moreover have "promise_ok opts (ds @ [(i, r)]) st (stream_executed i r x)"
    using assms by (cases "sx_outcome x"; cases r) (auto simp: stream_ok_def promise_ok_def stream_defs error_source_def)
  moreover have "sx_result (stream_executed i r x) = fold deliver (ds @ [(i, r)]) (new_ResultSetGroup opts)"
    using assms by (cases r) (simp_all add: stream_ok_def stream_defs deliver_def)
  moreover have "sx_raiseOnFirstError (stream_executed i r x) = sx_raiseOnFirstError x" "sx_concurrencyLevel (stream_executed i r x) = sx_concurrencyLevel x"
    by (cases r; simp add: stream_defs)+
  ultimately show ?thesis using assms(1) by (simp add: stream_ok_def)
qed

lemma stream_run_ok: "stream_run drained (new_StreamBasedExecutor opts) ds st x \<Longrightarrow> stream_ok opts ds st x"
  by (induction rule: stream_run.induct) (simp_all add: start_stream_ok executeOne_ok readEnded_ok executed_ok handled_ok)

section \<open>The level of concurrency\<close>

definition level_ok :: "'r stream_executor \<Rightarrow> bool" where
  "level_ok x \<longleftrightarrow> 0 < sx_concurrencyLevel x \<and> sx_inFlight x \<le> sx_concurrencyLevel x \<and> (sx_inFlight x = sx_concurrencyLevel x \<longrightarrow> sx_paused x)
     \<and> (0 < sx_handlers x \<longrightarrow> sx_inFlight x < sx_concurrencyLevel x)"

lemma readEnded_level [simp]: "level_ok (setReadEnded err x) = level_ok x"
  by (simp add: level_ok_def stream_defs split: option.split)

lemma stream_run_level:
  assumes "stream_run drained (new_StreamBasedExecutor opts) ds st x" drained
  shows "level_ok x"
  using assms
proof (induction rule: stream_run.induct)
  case stream_start
  then show ?case by (simp add: level_ok_def new_StreamBasedExecutor_def or_hundred_def split: option.split nat.split)
next
  case (stream_data ds x data)
  then show ?case by (cases data) (auto simp: level_ok_def stream_defs)
next
  case (stream_executed ds st x i r)
  then show ?case by (cases r) (auto simp: level_ok_def stream_defs)
next
  case (stream_handled ds st x)
  then show ?case by (auto simp: level_ok_def stream_defs)
qed simp_all


definition two_at_once :: concurrent_options where
  "two_at_once = \<lparr>co_raiseOnFirstError = Some False, co_concurrencyLevel = Some 2, co_collectResults = True, co_maxErrors = None\<rparr>"

text \<open>One item that fails, and the end of the stream before it does.\<close>

definition failing_stream :: "nat stream_executor" where
  "failing_stream = stream_handled (stream_executed 0 (Inl not_array) (setReadEnded None (executeOne (Some []) (new_StreamBasedExecutor two_at_once))))"


text \<open>A stream that emits between the handlers of two completions has more items in flight.\<close>

lemma level_exceeded: "\<exists>ds (x :: nat stream_executor). stream_run False (new_StreamBasedExecutor two_at_once) ds Open x \<and> sx_inFlight x = 3"
proof -
  let ?more = "executeOne (Some [])" and ?ok = "\<lambda>i. stream_executed i (Inr 0)"
  define s :: "nat stream_executor" where "s = new_StreamBasedExecutor two_at_once"
  define a where "a = ?ok 1 (?ok 0 (?more (?more s)))"
  have "stream_run False s (([] @ [(0, Inr 0)]) @ [(1, Inr 0)]) Open a"
    unfolding a_def s_def by (intro stream_run.intros) (simp_all add: stream_defs new_StreamBasedExecutor_def two_at_once_def or_hundred_def)
  then have "stream_run False s (([] @ [(0, Inr 0)]) @ [(1, Inr 0)]) Open (?more (stream_handled (?more (?more (stream_handled a)))))"
    unfolding a_def s_def by (intro stream_run.stream_data stream_run.stream_handled)
      (simp_all add: stream_defs new_StreamBasedExecutor_def two_at_once_def or_hundred_def)
  moreover have "sx_inFlight (?more (stream_handled (?more (?more (stream_handled a))))) = 3" unfolding a_def s_def by code_simp
  ultimately show ?thesis unfolding s_def by blast
qed

end
