(* ===== verification/Mapper_Result.thy ===== *)
theory Mapper_Result
  imports Mapper_Params Utils_Correct
begin

text \<open>
  What the mapper makes of a result: the row adapters (\<open>lib/mapping/result-mapper.js\<close>), as what their generated scripts do, and
  \<open>Result\<close> (\<open>lib/mapping/result.js\<close>). A property name without quotes, in a row and in a script, names itself.
\<close>

section \<open>Row adapters\<close>

text \<open>A row is its values by column; a result has its columns with their type codes, unless it is void, and its rows,
  unless it has none.\<close>

type_synonym 'v mapped_row = "'v param jsobj"

record 'v mapped_rows =
  mr_columns :: "(string \<times> nat) list option"
  mr_rows :: "'v mapped_row list option"
  mr_rowLength :: nat

definition row_value :: "'v mapped_row \<Rightarrow> string \<Rightarrow> 'v param" where
  "row_value row name = (case obj_get row name of Some v \<Rightarrow> v | None \<Rightarrow> Object Undefined)"

datatype adapter = Noop | Select_adapter "string list" | Conditional_adapter "string list"

text \<open>The adapter applied to a row; a no-op returns \<open>undefined\<close>.\<close>

definition run_adapter :: "'v ModelMappingInfo \<Rightarrow> adapter \<Rightarrow> 'v mapped_row \<Rightarrow> 'v param jsobj option" where
  "run_adapter info a row =
     (case a of
        Noop \<Rightarrow> None
      | Select_adapter columns \<Rightarrow>
          Some (foldl (\<lambda>item c. obj_set item (getPropertyName info c)
            (case getToModelFn info c of None \<Rightarrow> row_value row c | Some f \<Rightarrow> f (row_value row c))) [] columns)
      | Conditional_adapter columns \<Rightarrow>
          Some (foldl (\<lambda>item c. obj_set item (getPropertyName info c) (row_value row c)) [] (tl columns)))"

definition getSelectAdapter :: "'v mapped_rows \<Rightarrow> adapter result" where
  "getSelectAdapter rs =
     (case mr_columns rs of
        None \<Rightarrow> throw (GenericError ''Expected ROWS result obtained VOID'')
      | Some columns \<Rightarrow> return (Select_adapter (map fst columns)))"

definition is_applied :: "string \<times> nat \<Rightarrow> bool" where
  "is_applied c \<longleftrightarrow> c = (''[applied]'', 0x04)"

definition getMutationAdapter :: "'v mapped_rows \<Rightarrow> adapter" where
  "getMutationAdapter rs =
     (case mr_columns rs of
        None \<Rightarrow> Noop
      | Some columns \<Rightarrow> if length columns = 1 \<and> is_applied (hd columns) then Noop else Conditional_adapter (map fst columns))"

text \<open>The adapter of a query of the user, and whether it may be cached.\<close>

definition getCustomQueryAdapter :: "'v mapped_rows \<Rightarrow> (bool \<times> adapter) result" where
  "getCustomQueryAdapter rs =
     (case mr_columns rs of
        None \<Rightarrow> return (True, Noop)
      | Some [] \<Rightarrow> return (True, Noop)
      | Some (c # cs) \<Rightarrow>
          if is_applied c then return (False, Conditional_adapter (map fst (c # cs)))
          else rbind (getSelectAdapter rs) (\<lambda>a. return (True, a)))"

section \<open>Results\<close>

definition isEmptyLwt :: "'v mapped_rows \<Rightarrow> bool" where
  "isEmptyLwt rs \<longleftrightarrow>
     (case mr_columns rs of Some [c] \<Rightarrow> mr_rowLength rs = 1 \<and> fst c = ''[applied]'' | _ \<Rightarrow> False)"

definition Result_length :: "'v mapped_rows \<Rightarrow> nat" where
  "Result_length rs = (if isEmptyLwt rs then 0 else mr_rowLength rs)"

definition Result_first :: "'v ModelMappingInfo \<Rightarrow> adapter \<Rightarrow> 'v mapped_rows \<Rightarrow> 'v param jsobj option" where
  "Result_first info a rs =
     (if mr_rowLength rs = 0 \<or> isEmptyLwt rs then None
      else case mr_rows rs of Some (r # rows) \<Rightarrow> run_adapter info a r | _ \<Rightarrow> None)"

definition Result_iterator :: "'v ModelMappingInfo \<Rightarrow> adapter \<Rightarrow> 'v mapped_rows \<Rightarrow> 'v param jsobj option list result" where
  "Result_iterator info a rs =
     (if isEmptyLwt rs then return []
      else case mr_rows rs of
             None \<Rightarrow> throw (TypeError ''Cannot read properties of undefined'')
           | Some rows \<Rightarrow> return (map (run_adapter info a) rows))"

definition Result_toArray :: "'v ModelMappingInfo \<Rightarrow> adapter \<Rightarrow> 'v mapped_rows \<Rightarrow> 'v param jsobj option list" where
  "Result_toArray info a rs =
     (if isEmptyLwt rs then [] else case mr_rows rs of None \<Rightarrow> [] | Some rows \<Rightarrow> map (run_adapter info a) rows)"

text \<open>\<open>forEach\<close>: the calls of the callback with a document and its index.\<close>

definition Result_forEach :: "'v ModelMappingInfo \<Rightarrow> adapter \<Rightarrow> 'v mapped_rows \<Rightarrow> ('v param jsobj option \<times> nat) list result" where
  "Result_forEach info a rs = rbind (Result_iterator info a rs) (\<lambda>docs. return (zip docs [0..<length docs]))"

text \<open>The iterator agrees with \<open>toArray\<close> but for a void result, on which it fails.\<close>

lemma iterator_toArray: "mr_rows rs \<noteq> None \<Longrightarrow> Result_iterator info a rs = return (Result_toArray info a rs)"
  "mr_rows rs = None \<Longrightarrow> \<not> isEmptyLwt rs \<Longrightarrow> \<not> is_return (Result_iterator info a rs) \<and> Result_toArray info a rs = []"
  by (auto simp: Result_iterator_def Result_toArray_def)

section \<open>Reading what was inserted\<close>

lemma set_new: "k \<notin> fst ` set ob \<Longrightarrow> obj_set ob k v = ob @ [(k, v)]"
  by (induction ob k v rule: obj_set.induct) auto

lemma foldl_obj_set_row:
  "distinct (map k cs) \<Longrightarrow> fst ` set ob \<inter> k ` set cs = {} \<Longrightarrow> foldl (\<lambda>item c. obj_set item (k c) (f c)) ob cs = ob @ map (\<lambda>c. (k c, f c)) cs"
proof (induction cs arbitrary: ob)
  case (Cons c cs)
  then have "foldl (\<lambda>item c. obj_set item (k c) (f c)) (ob @ [(k c, f c)]) cs = (ob @ [(k c, f c)]) @ map (\<lambda>c. (k c, f c)) cs"
    by (intro Cons.IH) auto
  then show ?case using Cons.prems by (simp add: set_new)
qed simp

text \<open>The mapping of a property and its column is faithful for a value.\<close>

definition mapping_ok :: "'v ModelMappingInfo \<Rightarrow> string \<times> 'v \<Rightarrow> bool" where
  "mapping_ok info p \<longleftrightarrow>
     getPropertyName info (getColumnName info (fst p)) = fst p
     \<and> call_fn (getToModelFn info (getColumnName info (fst p))) (call_fn (getFromModelFn info (fst p)) (Value (snd p))) = Value (snd p)"

definition plain_doc :: "(string \<times> 'v) list \<Rightarrow> 'v doc" where
  "plain_doc d = map (\<lambda>(n, x). (n, Plain x)) d"

lemma plain_doc_get: "distinct (map fst d) \<Longrightarrow> (n, x) \<in> set d \<Longrightarrow> doc_get (plain_doc d) n = Plain x"
  by (induction d) (auto simp: plain_doc_def doc_get_def image_iff)

lemma plain_params:
  assumes "distinct (map fst d)" "ps = getPropertiesInfo (map fst (plain_doc d)) [] (plain_doc d) info"
  shows "params_of ps = map (\<lambda>(n, x). call_fn (getFromModelFn info n) (Value x)) d"
    "map pi_columnName ps = map (getColumnName info) (map fst d)"
proof -
  have ps: "ps = map (\<lambda>p. \<lparr>pi_propertyName = fst p, pi_columnName = getColumnName info (fst p), pi_value = Plain (snd p), pi_fromModel = getFromModelFn info (fst p)\<rparr>) d"
    using assms plain_doc_get[OF assms(1)] by (auto simp: getPropertiesInfo_def plain_doc_def comp_def)
  show "params_of ps = map (\<lambda>(n, x). call_fn (getFromModelFn info n) (Value x)) d"
    unfolding ps params_of_def by (induction d) (auto simp: value_of_def)
  show "map pi_columnName ps = map (getColumnName info) (map fst d)" by (simp add: ps comp_def)
qed

text \<open>C27: A document that the mapper inserts and reads back is the same: the parameters of the INSERT, put into the columns it
  names, are turned by the row adapter of a SELECT of these columns into the properties and values of the document,
  if the names and the mapping functions of the model are inverse to each other on it.\<close>

theorem insert_select_round_trip:
  assumes "distinct (map fst d)" "\<forall>p \<in> set d. mapping_ok info p" "ps = getPropertiesInfo (map fst (plain_doc d)) [] (plain_doc d) info"
    "run_getter info (insertParamsGetter ps False) (plain_doc d) di = return params"
    "getSelectAdapter \<lparr>mr_columns = Some (map (\<lambda>p. (pi_columnName p, code p)) ps), mr_rows = Some [zip (map pi_columnName ps) params], mr_rowLength = 1\<rparr> = return a"
  shows "run_adapter info a (zip (map pi_columnName ps) params) = Some (map (\<lambda>(n, x). (n, Value x)) d)"
proof -
  let ?cs = "map (getColumnName info) (map fst d)"
  let ?row = "zip ?cs params"
  define to where "to = (\<lambda>c. case getToModelFn info c of None \<Rightarrow> row_value ?row c | Some f \<Rightarrow> f (row_value ?row c))"
  note pl = plain_params[OF assms(1,3)]
  have "drawn_from info (plain_doc d) ps" unfolding assms(3) by (rule drawn_getPropertiesInfo)
  then have par: "params = map (\<lambda>(n, x). call_fn (getFromModelFn info n) (Value x)) d"
    using assms(4) eval_doc_getters[of info "plain_doc d" ps di] pl(1)
    by (simp add: insertParamsGetter_def valueGetterExpression_seq run_getter_seq)
  have a: "a = Select_adapter ?cs" using assms(5) pl(2) by (auto simp: getSelectAdapter_def comp_def)
  have names: "map (getPropertyName info) ?cs = map fst d" using assms(2) by (simp add: mapping_ok_def)
  then have dist: "distinct (map (getPropertyName info) ?cs)" using assms(1) by (simp only:)
  then have dc: "distinct ?cs" using distinct_map[of "getPropertyName info" ?cs] by blast
  have val: "to (getColumnName info n) = Value x" if "(n, x) \<in> set d" for n x
  proof -
    have "(getColumnName info n, call_fn (getFromModelFn info n) (Value x)) \<in> set ?row" using that by (force simp: par in_set_zip in_set_conv_nth)
    moreover have dr: "distinct (map fst ?row)" using dc by (simp add: par)
    ultimately have "obj_get ?row (getColumnName info n) = Some (call_fn (getFromModelFn info n) (Value x))" by (simp only: obj_get_Some[OF dr])
    then have "row_value ?row (getColumnName info n) = call_fn (getFromModelFn info n) (Value x)" by (simp add: row_value_def)
    then show ?thesis using assms(2) that by (auto simp: to_def mapping_ok_def call_fn_def split: option.splits)
  qed
  have "run_adapter info a ?row = Some (foldl (\<lambda>item c. obj_set item (getPropertyName info c) (to c)) [] ?cs)" by (simp only: run_adapter_def a adapter.case to_def)
  also have "\<dots> = Some (map (\<lambda>c. (getPropertyName info c, to c)) ?cs)" using foldl_obj_set_row[OF dist, of "[]" to] by simp
  also have "map (\<lambda>c. (getPropertyName info c, to c)) ?cs = map (\<lambda>(n, x). (n, Value x)) d" using names val by auto
  finally show ?thesis by (simp only: pl(2))
qed

definition negated :: "int model_fn" where
  "negated p = (case p of Value x \<Rightarrow> Value (- x) | _ \<Rightarrow> p)"

definition negating_info :: "int ModelMappingInfo" where
  "negating_info = \<lparr>mi_keyspace = ''ks'', mi_tables = [(''t'', False)], mi_mappings = UnderscoreCqlToCamelCaseMappings,
     mi_columns = [(''n'', \<lparr>mc_columnName = ''n'', mc_propertyName = ''number'', mc_toModel = Some negated, mc_fromModel = Some negated\<rparr>)]\<rparr>"

definition no_info :: "int doc_info" where
  "no_info = \<lparr>di_fields = [], di_limit = None, di_orderBy = None, di_ttl = None, di_ifNotExists = Falsy, di_ifExists = Falsy, di_deleteOnlyColumns = Falsy, di_when = None\<rparr>"

lemma insert_select_round_trip_witness:
  "\<exists>a. getSelectAdapter \<lparr>mr_columns = Some [(''n'', 9), (''user_id'', 9)], mr_rows = Some [[(''n'', Value (- 5 :: int)), (''user_id'', Value 7)]], mr_rowLength = 1\<rparr> = return a
    \<and> run_adapter negating_info a [(''n'', Value (- 5)), (''user_id'', Value 7)] = Some [(''number'', Value 5), (''userId'', Value 7)]"
proof -
  let ?d = "[(''number'', 5), (''userId'', 7)] :: (string \<times> int) list"
  define ps where "ps = getPropertiesInfo (map fst (plain_doc ?d)) [] (plain_doc ?d) negating_info"
  have "distinct (map fst ?d)" by simp
  moreover have "\<forall>p \<in> set ?d. mapping_ok negating_info p" by code_simp
  moreover have c: "map pi_columnName ps = [''n'', ''user_id'']" unfolding ps_def by code_simp
  moreover have "run_getter negating_info (insertParamsGetter ps False) (plain_doc ?d) no_info = return [Value (- 5), Value 7]" unfolding ps_def by code_simp
  moreover obtain a where a: "getSelectAdapter \<lparr>mr_columns = Some (map (\<lambda>p. (pi_columnName p, 9)) ps), mr_rows = Some [zip (map pi_columnName ps) [Value (- 5), Value (7 :: int)]], mr_rowLength = 1\<rparr> = return a"
    by (simp add: getSelectAdapter_def)
  moreover have "map (\<lambda>p. (pi_columnName p, 9)) ps = map (\<lambda>c. (c, 9 :: nat)) (map pi_columnName ps)" by simp
  ultimately show ?thesis using insert_select_round_trip[of ?d negating_info ps no_info "[Value (- 5), Value 7]" "\<lambda>p. 9" a] ps_def by (simp add: c)
qed

end
