(* ===== verification/Mapper_Batch.thy ===== *)
theory Mapper_Batch
  imports Mapper_Cache_Correct Mapper_Result
begin

text \<open>
  Batches of the mapper (\<open>lib/mapping/model-batch-mapper.js\<close>, \<open>model-batch-item.js\<close>, \<open>Mapper.batch\<close> of \<open>mapper.js\<close>): the items of a
  batch keep the promises of their statements in caches of their own, so that a failure is kept too. The items of a
  batch are started in order, and settled in any order, which is an argument. Models are numbered; the metadata
  and the mapping information of each are arguments.
\<close>

section \<open>Items and caches\<close>

datatype batch_kind = Insert_item | Update_item | Remove_item

record 'v model_item =
  bi_model :: nat
  bi_kind :: batch_kind
  bi_doc :: "'v doc"
  bi_docInfo :: "'v doc_info"

text \<open>A tree of references to items \<open>{queries: null}\<close>, whose promise is given by how it is settled.\<close>

type_synonym promise_cache = "statement list result cache_state"

record batch_caches =
  bm_insert :: promise_cache
  bm_update :: promise_cache
  bm_remove :: promise_cache

definition new_ModelBatchMapper :: batch_caches where
  "new_ModelBatchMapper = \<lparr>bm_insert = new_cache, bm_update = new_cache, bm_remove = new_cache\<rparr>"

definition ModelBatchMapper_insert :: "nat \<Rightarrow> 'v doc \<Rightarrow> 'v doc_info \<Rightarrow> 'v model_item" where
  "ModelBatchMapper_insert model doc di = \<lparr>bi_model = model, bi_kind = Insert_item, bi_doc = doc, bi_docInfo = di\<rparr>"

definition ModelBatchMapper_update :: "nat \<Rightarrow> 'v doc \<Rightarrow> 'v doc_info \<Rightarrow> 'v model_item" where
  "ModelBatchMapper_update model doc di = \<lparr>bi_model = model, bi_kind = Update_item, bi_doc = doc, bi_docInfo = di\<rparr>"

definition ModelBatchMapper_remove :: "nat \<Rightarrow> 'v doc \<Rightarrow> 'v doc_info \<Rightarrow> 'v model_item" where
  "ModelBatchMapper_remove model doc di = \<lparr>bi_model = model, bi_kind = Remove_item, bi_doc = doc, bi_docInfo = di\<rparr>"

text \<open>The cache an item is created with; \<open>remove\<close> passes that of the updates.\<close>

fun item_cache :: "batch_kind \<Rightarrow> batch_caches \<Rightarrow> promise_cache" where
  "item_cache Insert_item c = bm_insert c"
| "item_cache Update_item c = bm_update c"
| "item_cache Remove_item c = bm_update c"

fun set_item_cache :: "batch_kind \<Rightarrow> promise_cache \<Rightarrow> batch_caches \<Rightarrow> batch_caches" where
  "set_item_cache Insert_item p c = c\<lparr>bm_insert := p\<rparr>"
| "set_item_cache Update_item p c = c\<lparr>bm_update := p\<rparr>"
| "set_item_cache Remove_item p c = c\<lparr>bm_update := p\<rparr>"

definition getCacheKey :: "'v model_item \<Rightarrow> key_part list" where
  "getCacheKey item =
     (let docKeys = map fst (bi_doc item)
      in case bi_kind item of
           Insert_item \<Rightarrow> getInsertKey docKeys (bi_docInfo item)
         | Update_item \<Rightarrow> getUpdateKey docKeys (bi_doc item) (bi_docInfo item)
         | Remove_item \<Rightarrow> getRemoveKey docKeys (bi_doc item) (bi_docInfo item))"

text \<open>\<open>createQueries\<close> throws for contradicting conditions, and otherwise returns a promise.\<close>

definition createQueries :: "(string \<Rightarrow> bool \<Rightarrow> table option) \<Rightarrow> 'v ModelMappingInfo \<Rightarrow> 'v model_item \<Rightarrow> statement list result result" where
  "createQueries metadata info item =
     (let doc = bi_doc item; di = bi_docInfo item
      in if bi_kind item = Insert_item then return (createInsertQueries metadata info doc di)
         else if when_info info di \<noteq> [] \<and> di_ifExists di \<noteq> Falsy
         then throw (GenericError ''Both when and ifExists conditions can not be applied to the same statement'')
         else return (if bi_kind item = Update_item then createUpdateQueries metadata info doc di else createDeleteQueries metadata info doc di))"

text \<open>\<open>getQueries\<close> keeps the promise, however it is settled, as the handler keeps an executor.\<close>

definition getQueries :: "promise_cache \<Rightarrow> key_part list \<Rightarrow> statement list result result \<Rightarrow> statement list result result \<times> promise_cache" where
  "getQueries c key create = cached_executor c key create"

section \<open>A batch\<close>

text \<open>The statements of an item with their parameters, whether they are all idempotent, and whether the last one is a
  counter mutation.\<close>

type_synonym 'v pushed = "(string \<times> 'v param list) list \<times> bool \<times> bool option"

definition pushQueries :: "'v ModelMappingInfo \<Rightarrow> 'v model_item \<Rightarrow> statement list \<Rightarrow> 'v pushed result" where
  "pushQueries info item queries =
     rbind (rmap (\<lambda>q. rbind (run_getter info (st_params q) (bi_doc item) (bi_docInfo item)) (\<lambda>ps. return (st_query q, ps))) queries) (\<lambda>rs.
       return (rs, list_all st_isIdempotent queries, if queries = [] then None else st_isCounter (last queries)))"

text \<open>What the items ask of the models before the first promise is settled; an error that is thrown ends it.\<close>

fun start_items :: "(nat \<Rightarrow> string \<Rightarrow> bool \<Rightarrow> table option) \<Rightarrow> (nat \<Rightarrow> 'v ModelMappingInfo) \<Rightarrow> (nat \<Rightarrow> batch_caches) \<Rightarrow> 'v model_item list
    \<Rightarrow> statement list result list result \<times> (nat \<Rightarrow> batch_caches)" where
  "start_items metadata infos caches [] = (return [], caches)"
| "start_items metadata infos caches (item # items) =
     (let m = bi_model item; k = bi_kind item
      in case getQueries (item_cache k (caches m)) (getCacheKey item) (createQueries (metadata m) (infos m) item) of
           (r, p) \<Rightarrow>
             (let caches = caches(m := set_item_cache k p (caches m))
              in case r of
                   Inl e \<Rightarrow> (Inl e, caches)
                 | Inr promise \<Rightarrow>
                     (case start_items metadata infos caches items of
                        (r, caches) \<Rightarrow> (rbind r (\<lambda>ps. return (promise # ps)), caches))))"

text \<open>The promises are settled in the given order, which names the items; the first that fails rejects the batch.\<close>

definition settle_items :: "(nat \<Rightarrow> 'v ModelMappingInfo) \<Rightarrow> 'v model_item list \<Rightarrow> statement list result list \<Rightarrow> nat list \<Rightarrow> 'v execution_option \<Rightarrow> 'v request result" where
  "settle_items infos items promises order opts =
     rbind (rmap (\<lambda>i. rbind (promises ! i) (pushQueries (infos (bi_model (items ! i))) (items ! i))) order) (\<lambda>rs.
       return (Execute_batch (concat (map fst rs))
         (adaptBatchOptions opts (list_all (fst \<circ> snd) rs) (if rs = [] then None else snd (snd (last rs))))))"

definition Mapper_batch :: "(nat \<Rightarrow> string \<Rightarrow> bool \<Rightarrow> table option) \<Rightarrow> (nat \<Rightarrow> 'v ModelMappingInfo) \<Rightarrow> (nat \<Rightarrow> batch_caches) \<Rightarrow> 'v model_item list
    \<Rightarrow> nat list \<Rightarrow> 'v execution_option \<Rightarrow> 'v request result \<times> (nat \<Rightarrow> batch_caches)" where
  "Mapper_batch metadata infos caches items order opts =
     (if items = [] then
        (throw (ArgumentError ''First parameter items should be an Array with 1 or more ModelBatchItem instances''), caches)
      else case start_items metadata infos caches items of
             (r, caches) \<Rightarrow> (rbind r (\<lambda>promises. settle_items infos items promises order opts), caches))"

text \<open>The result of the batch is read with the mapping information of the first item.\<close>

definition batch_result :: "(nat \<Rightarrow> 'v ModelMappingInfo) \<Rightarrow> 'v model_item list \<Rightarrow> 'v mapped_rows \<Rightarrow> 'v ModelMappingInfo \<times> adapter" where
  "batch_result infos items rs = (infos (bi_model (hd items)), getMutationAdapter rs)"

section \<open>Custom queries\<close>

text \<open>\<open>getExecutorFromQuery\<close>: the adapter for the result of a query of the user, the adapters kept by query, and whether the
  warning of the full cache is logged.\<close>

definition cacheHighWaterMark :: nat where
  "cacheHighWaterMark = 100"

definition queryMapped_adapter :: "adapter jsobj \<Rightarrow> string \<Rightarrow> 'v mapped_rows \<Rightarrow> (adapter \<times> adapter jsobj \<times> bool) result" where
  "queryMapped_adapter customQueries query rs =
     (case obj_get customQueries query of
        Some a \<Rightarrow> return (a, customQueries, False)
      | None \<Rightarrow>
          rbind (getCustomQueryAdapter rs) (\<lambda>(canCache, fn).
            if canCache
            then (let qs = obj_set customQueries query fn in return (fn, qs, length qs = cacheHighWaterMark))
            else return (fn, customQueries, False)))"


section \<open>Inserts\<close>

lemma set_executor_inj: "set_executor a = set_executor b \<Longrightarrow> a = b"
  by (cases a; cases "tl a"; cases b; cases "tl b") (auto simp: set_executor_def)

interpretation batched: memoised insert_ok "\<lambda>r. getInsertKey (map fst (fst r)) (snd r)" "\<lambda>r. return (createInsertQueries metadata info (fst r) (snd r))"
  for metadata and info :: "'v ModelMappingInfo"
proof
  fix r s :: "'v doc \<times> 'v doc_info"
  assume ok: "insert_ok r" "insert_ok s" "getInsertKey (map fst (fst r)) (snd r) = getInsertKey (map fst (fst s)) (snd s)"
  then show "(return (createInsertQueries metadata info (fst r) (snd r)) :: statement list result result) = return (createInsertQueries metadata info (fst s) (snd s))"
    using insert.determined[OF ok, of metadata info] set_executor_inj
    by (cases "createInsertQueries metadata info (fst r) (snd r)"; cases "createInsertQueries metadata info (fst s) (snd s)") auto
qed (rule insert.key_not_empty)

text \<open>What is generated for an item, and what an item adds to the batch then.\<close>

definition insert_queries :: "(nat \<Rightarrow> string \<Rightarrow> bool \<Rightarrow> table option) \<Rightarrow> (nat \<Rightarrow> 'v ModelMappingInfo) \<Rightarrow> 'v model_item \<Rightarrow> statement list result" where
  "insert_queries metadata infos item = createInsertQueries (metadata (bi_model item)) (infos (bi_model item)) (bi_doc item) (bi_docInfo item)"

definition fresh_part :: "(nat \<Rightarrow> string \<Rightarrow> bool \<Rightarrow> table option) \<Rightarrow> (nat \<Rightarrow> 'v ModelMappingInfo) \<Rightarrow> 'v model_item \<Rightarrow> 'v pushed result" where
  "fresh_part metadata infos item = rbind (insert_queries metadata infos item) (pushQueries (infos (bi_model item)) item)"

definition item_ok :: "'v model_item \<Rightarrow> bool" where
  "item_ok item \<longleftrightarrow> (bi_kind item = Insert_item \<longrightarrow> insert_ok (bi_doc item, bi_docInfo item))"

definition faithful :: "(nat \<Rightarrow> string \<Rightarrow> bool \<Rightarrow> table option) \<Rightarrow> (nat \<Rightarrow> 'v ModelMappingInfo) \<Rightarrow> (nat \<Rightarrow> batch_caches) \<Rightarrow> bool" where
  "faithful metadata infos caches \<longleftrightarrow> (\<forall>m. cache_ok (bm_insert (caches m))
     \<and> (\<forall>r e. insert_ok r \<longrightarrow> cached (bm_insert (caches m)) (getInsertKey (map fst (fst r)) (snd r)) = Some e
          \<longrightarrow> createInsertQueries (metadata m) (infos m) (fst r) (snd r) = e))"

lemma faithful_insert:
  assumes "faithful metadata infos caches" "bi_kind item = Insert_item" "insert_ok (bi_doc item, bi_docInfo item)"
  shows "fst (getQueries (bm_insert (caches (bi_model item))) (getCacheKey item) (createQueries (metadata (bi_model item)) (infos (bi_model item)) item))
      = return (insert_queries metadata infos item)"
    and "faithful metadata infos (caches(bi_model item := caches (bi_model item)\<lparr>bm_insert :=
      snd (getQueries (bm_insert (caches (bi_model item))) (getCacheKey item) (createQueries (metadata (bi_model item)) (infos (bi_model item)) item))\<rparr>))"
proof -
  let ?m = "bi_model item" and ?r = "(bi_doc item, bi_docInfo item)"
  let ?c = "bm_insert (caches ?m)"
  have c: "cache_ok ?c" "\<And>r e. insert_ok r \<Longrightarrow> cached ?c (getInsertKey (map fst (fst r)) (snd r)) = Some e
      \<Longrightarrow> return (createInsertQueries (metadata ?m) (infos ?m) (fst r) (snd r)) = (Inr e :: statement list result result)"
    using assms(1) by (auto simp: faithful_def)
  have g: "getQueries ?c (getCacheKey item) (createQueries (metadata ?m) (infos ?m) item)
      = cached_executor ?c (getInsertKey (map fst (fst ?r)) (snd ?r)) (return (createInsertQueries (metadata ?m) (infos ?m) (fst ?r) (snd ?r)))"
    using assms(2) by (simp add: getQueries_def getCacheKey_def createQueries_def Let_def)
  note step = batched.answers_step[OF assms(3) c]
  show "fst (getQueries ?c (getCacheKey item) (createQueries (metadata ?m) (infos ?m) item)) = return (insert_queries metadata infos item)"
    unfolding g using step(1) by (simp add: insert_queries_def)
  show "faithful metadata infos (caches(?m := caches ?m\<lparr>bm_insert := snd (getQueries ?c (getCacheKey item) (createQueries (metadata ?m) (infos ?m) item))\<rparr>))"
    unfolding g using assms(1) step(2,3) by (auto simp: faithful_def)
qed

lemma start_items_faithful:
  assumes "faithful metadata infos caches" "list_all item_ok items"
  shows "faithful metadata infos (snd (start_items metadata infos caches items))"
    and "list_all (\<lambda>item. bi_kind item = Insert_item) items \<Longrightarrow> fst (start_items metadata infos caches items) = return (map (insert_queries metadata infos) items)"
proof -
  have "faithful metadata infos (snd (start_items metadata infos caches items))
    \<and> (list_all (\<lambda>item. bi_kind item = Insert_item) items \<longrightarrow> fst (start_items metadata infos caches items) = return (map (insert_queries metadata infos) items))"
    using assms
  proof (induction items arbitrary: caches)
    case (Cons item items)
    let ?m = "bi_model item"
    obtain r p where g: "getQueries (item_cache (bi_kind item) (caches ?m)) (getCacheKey item) (createQueries (metadata ?m) (infos ?m) item) = (r, p)" by fastforce
    let ?c = "caches(?m := set_item_cache (bi_kind item) p (caches ?m))"
    have f: "faithful metadata infos ?c" and r: "bi_kind item = Insert_item \<Longrightarrow> r = return (insert_queries metadata infos item)"
      using faithful_insert[OF Cons.prems(1), of item] Cons.prems g by (cases "bi_kind item"; auto simp: item_ok_def faithful_def)+
    obtain ps cs where s: "start_items metadata infos ?c items = (ps, cs)" by fastforce
    have "list_all item_ok items" using Cons.prems(2) by simp
    note IH = Cons.IH[OF f this, unfolded s fst_conv snd_conv]
    show ?case unfolding start_items.simps Let_def g prod.case s using IH f f[unfolded fun_upd_def] r by (cases r) auto
  qed simp
  then show "faithful metadata infos (snd (start_items metadata infos caches items))"
    "list_all (\<lambda>item. bi_kind item = Insert_item) items \<Longrightarrow> fst (start_items metadata infos caches items) = return (map (insert_queries metadata infos) items)" by blast+
qed

lemma Mapper_batch_faithful:
  "faithful metadata infos caches \<Longrightarrow> list_all item_ok items \<Longrightarrow> faithful metadata infos (snd (Mapper_batch metadata infos caches items order opts))"
  using start_items_faithful(1)[of metadata infos caches items] by (cases "start_items metadata infos caches items") (simp add: Mapper_batch_def)

definition after_batches :: "(nat \<Rightarrow> string \<Rightarrow> bool \<Rightarrow> table option) \<Rightarrow> (nat \<Rightarrow> 'v ModelMappingInfo) \<Rightarrow> ('v model_item list \<times> nat list \<times> 'v execution_option) list \<Rightarrow> nat \<Rightarrow> batch_caches" where
  "after_batches metadata infos bs = foldl (\<lambda>caches (items, order, opts). snd (Mapper_batch metadata infos caches items order opts)) (\<lambda>_. new_ModelBatchMapper) bs"

lemma after_batches_faithful: "list_all (\<lambda>b. list_all item_ok (fst b)) bs \<Longrightarrow> faithful metadata infos (after_batches metadata infos bs)"
proof (induction bs rule: rev_induct)
  case Nil
  then show ?case by (simp add: after_batches_def faithful_def new_ModelBatchMapper_def new_cache_ok)
next
  case (snoc b bs)
  then show ?case using Mapper_batch_faithful by (cases b) (auto simp: after_batches_def)
qed


lemma rmap_first_error: "\<not> list_all (\<lambda>x. is_return (f x)) xs \<Longrightarrow> \<exists>x\<in>set xs. \<exists>e. f x = throw e \<and> rmap f xs = throw e"
proof (induction xs)
  case (Cons x xs)
  then show ?case by (cases "f x") auto
qed simp

lemma rmap_all_return: "list_all (\<lambda>x. is_return (f x)) xs \<Longrightarrow> rmap f xs = return (map (projr \<circ> f) xs)"
proof (induction xs)
  case (Cons x xs)
  then show ?case by (cases "f x") auto
qed simp

lemma settle_fresh:
  assumes "set order \<subseteq> {..<length items}"
  shows "settle_items infos items (map (insert_queries metadata infos) items) order opts =
    rbind (rmap (\<lambda>i. fresh_part metadata infos (items ! i)) order) (\<lambda>rs.
      return (Execute_batch (concat (map fst rs)) (adaptBatchOptions opts (list_all (fst \<circ> snd) rs) (if rs = [] then None else snd (snd (last rs))))))"
proof -
  have "rmap (\<lambda>i. rbind (map (insert_queries metadata infos) items ! i) (pushQueries (infos (bi_model (items ! i))) (items ! i))) order
      = rmap (\<lambda>i. fresh_part metadata infos (items ! i)) order"
    using assms by (intro rmap_cong) (auto simp: fresh_part_def)
  then show ?thesis unfolding settle_items_def by (rule arg_cong)
qed

lemma mset_concat_perm: "mset order = mset [0..<length items] \<Longrightarrow> mset (concat (map (\<lambda>i. f (items ! i)) order)) = mset (concat (map f items))"
proof -
  assume o: "mset order = mset [0..<length items]"
  have "mset (concat (map (\<lambda>i. f (items ! i)) order)) = sum_mset (image_mset (\<lambda>i. mset (f (items ! i))) (mset order))"
    by (simp add: mset_concat sum_mset_sum_list[symmetric] comp_def)
  also have "\<dots> = sum_mset (image_mset (\<lambda>i. mset (f (items ! i))) (mset [0..<length items]))" by (simp only: o)
  also have "\<dots> = mset (concat (map f (map ((!) items) [0..<length items])))"
    by (simp add: mset_concat sum_mset_sum_list[symmetric] comp_def del: map_nth)
  finally show ?thesis by (simp only: map_nth)
qed

text \<open>C14: Whatever batches came before, with updates and removals among them, a batch of inserts is executed with what would be
  generated for its items without the caches: in whatever order the promises of the items are settled, the batch has
  exactly the statements of all items, each with its parameters, and is idempotent when all of them are; when some
  item fails, the batch fails with the error of one of them.\<close>

theorem batch_statements:
  assumes "list_all (\<lambda>b. list_all item_ok (fst b)) earlier" "list_all (\<lambda>item. bi_kind item = Insert_item \<and> item_ok item) items" "items \<noteq> []"
    "mset order = mset [0..<length items]"
  shows "let outcome = fst (Mapper_batch metadata infos (after_batches metadata infos earlier) items order opts); part = fresh_part metadata infos in
    if list_all (\<lambda>item. is_return (part item)) items
    then \<exists>qs counter. outcome = return (Execute_batch qs (adaptBatchOptions opts (list_all (\<lambda>item. fst (snd (projr (part item)))) items) counter))
      \<and> mset qs = mset (concat (map (\<lambda>item. fst (projr (part item))) items))
      \<and> counter \<in> (\<lambda>item. snd (snd (projr (part item)))) ` set items
    else \<exists>item\<in>set items. \<exists>e. part item = throw e \<and> outcome = throw e"
proof -
  let ?part = "fresh_part metadata infos" and ?c = "after_batches metadata infos earlier"
  let ?rs = "map (projr \<circ> (\<lambda>i. ?part (items ! i))) order"
  have set: "set order = {..<length items}" using assms(4) by (metis atLeast0LessThan set_mset_mset set_upt)
  then have items: "(!) items ` set order = set items" by (auto simp: set_conv_nth)
  then have order: "order \<noteq> []" using assms(3) by auto
  have "list_all item_ok items" "list_all (\<lambda>item. bi_kind item = Insert_item) items" using assms(2) by (auto simp: list_all_iff)
  then have start: "fst (start_items metadata infos ?c items) = return (map (insert_queries metadata infos) items)"
    using start_items_faithful(2)[OF after_batches_faithful[OF assms(1)]] by blast
  then have outcome: "fst (Mapper_batch metadata infos ?c items order opts) =
      rbind (rmap (\<lambda>i. ?part (items ! i)) order) (\<lambda>rs.
        return (Execute_batch (concat (map fst rs)) (adaptBatchOptions opts (list_all (fst \<circ> snd) rs) (if rs = [] then None else snd (snd (last rs))))))"
    using assms(3) set settle_fresh[of order items infos metadata opts] by (cases "start_items metadata infos ?c items") (simp add: Mapper_batch_def)
  have all: "list_all (\<lambda>i. P (items ! i)) order \<longleftrightarrow> list_all P items" for P
    unfolding list_all_iff items[symmetric] by simp
  show ?thesis
  proof (cases "list_all (\<lambda>item. is_return (?part item)) items")
    case True
    then have "list_all (\<lambda>i. is_return (?part (items ! i))) order" unfolding all[of "\<lambda>item. is_return (?part item)"] .
    then have "rmap (\<lambda>i. ?part (items ! i)) order = return ?rs" by (rule rmap_all_return)
    moreover have "mset (concat (map fst ?rs)) = mset (concat (map (\<lambda>item. fst (projr (?part item))) items))"
      using mset_concat_perm[OF assms(4), of "\<lambda>item. fst (projr (?part item))"] by (simp add: comp_def)
    moreover have "list_all (fst \<circ> snd) ?rs \<longleftrightarrow> list_all (\<lambda>item. fst (snd (projr (?part item)))) items"
      using all[of "\<lambda>item. fst (snd (projr (?part item)))"] by (simp add: list_all_length)
    moreover have "snd (snd (last ?rs)) \<in> (\<lambda>item. snd (snd (projr (?part item)))) ` set items"
      using order items by (simp add: last_map) (metis image_eqI last_in_set)
    ultimately show ?thesis unfolding Let_def if_P[OF True] outcome using order by (intro exI[of _ "concat (map fst ?rs)"] exI[of _ "snd (snd (last ?rs))"]) simp
  next
    case False
    then have "\<not> list_all (\<lambda>i. is_return (?part (items ! i))) order" unfolding all[of "\<lambda>item. is_return (?part item)"] .
    from rmap_first_error[OF this] obtain i e where "i \<in> set order" "?part (items ! i) = throw e" "rmap (\<lambda>i. ?part (items ! i)) order = throw e"
      by blast
    then show ?thesis unfolding Let_def if_not_P[OF False] outcome using set by (intro bexI[of _ "items ! i"]) auto
  qed
qed


definition sample_inserts :: "int model_item list" where
  "sample_inserts = [ModelBatchMapper_insert 0 sample_doc no_doc_info, ModelBatchMapper_insert 0 [(''id'', Plain 5), (''name'', Plain 6)] no_doc_info]"

lemma batch_statements_witness:
  "\<exists>qs counter. fst (Mapper_batch (\<lambda>_. sample_metadata) (\<lambda>_. sample_info)
       (after_batches (\<lambda>_. sample_metadata) (\<lambda>_. sample_info) [([ModelBatchMapper_remove 0 sample_doc no_doc_info], [0], No_execution_options)]) sample_inserts [1, 0] No_execution_options)
      = return (Execute_batch qs (adaptBatchOptions No_execution_options True counter))
    \<and> mset qs = {#(''INSERT INTO ks.videos (\"id\", \"name\") VALUES (?, ?)'', [Value 1, Value 2]), (''INSERT INTO ks.videos (\"id\", \"name\") VALUES (?, ?)'', [Value 5, Value 6])#}"
proof -
  let ?part = "fresh_part (\<lambda>_. sample_metadata) (\<lambda>_. sample_info)" and ?e = "[([ModelBatchMapper_remove 0 sample_doc no_doc_info], [0], No_execution_options)]"
  have ok: "list_all (\<lambda>b. list_all item_ok (fst b)) ?e" "list_all (\<lambda>item. bi_kind item = Insert_item \<and> item_ok item) sample_inserts" "sample_inserts \<noteq> []"
    "list_all (\<lambda>item. is_return (?part item)) sample_inserts" "list_all (\<lambda>item. fst (snd (projr (?part item)))) sample_inserts" by code_simp+
  have qs: "concat (map (\<lambda>item. fst (projr (?part item))) sample_inserts)
      = [(''INSERT INTO ks.videos (\"id\", \"name\") VALUES (?, ?)'', [Value 1, Value 2]), (''INSERT INTO ks.videos (\"id\", \"name\") VALUES (?, ?)'', [Value 5, Value 6])]"
    by code_simp
  have len: "mset [1, 0] = mset [0..<length sample_inserts]" by (simp add: sample_inserts_def add_mset_commute)
  show ?thesis
    using batch_statements[OF ok(1,2,3) len, of "\<lambda>_. sample_metadata" "\<lambda>_. sample_info" No_execution_options]
    unfolding Let_def if_P[OF ok(4)] qs using ok(5) by auto
qed

section \<open>Updates and removals\<close>


end
