(* ===== verification/Request_Logger.thy ===== *)
theory Request_Logger
  imports JS_String
begin

text \<open>
  The request logger (\<open>lib/tracker/request-logger.js\<close>): which event it emits for a request and what the message has of the
  statement. A latency is its seconds and nanoseconds, small enough for the milliseconds to be exact.
\<close>

section \<open>Statements\<close>

text \<open>A parameter as its text, and the parameters of a statement: an array, an object or none.\<close>

datatype log_param = Log_undefined | Log_null | Log_value string

datatype log_params = No_log_params | Log_array "log_param list" | Log_object "(string \<times> log_param) list"

text \<open>\<open>s.substr(0, n)\<close>.\<close>

definition substr_from :: "string \<Rightarrow> int \<Rightarrow> string" where
  "substr_from s n = take (nat n) s"

definition formatParam :: "log_param \<Rightarrow> int \<Rightarrow> string" where
  "formatParam v maxLength = (case v of Log_undefined \<Rightarrow> ''undefined'' | Log_null \<Rightarrow> ''null'' | Log_value s \<Rightarrow> substr_from s maxLength)"

definition stringify_property :: "string \<times> log_param \<Rightarrow> int \<Rightarrow> string" where
  "stringify_property p len =
     (let result = substr_from (fst p) len; rem = len - int (length result) - 1
      in if rem \<le> 0 then result else result @ '':'' @ formatParam (snd p) rem)"

definition stringifiers :: "log_params \<Rightarrow> (int \<Rightarrow> string) list" where
  "stringifiers ps = (case ps of No_log_params \<Rightarrow> [] | Log_array vs \<Rightarrow> map formatParam vs | Log_object o' \<Rightarrow> map stringify_property o')"

text \<open>The loop over the parameters: the text, and whether some are left out.\<close>

fun params_loop :: "int \<Rightarrow> bool \<Rightarrow> (int \<Rightarrow> string) list \<Rightarrow> int \<Rightarrow> string \<times> bool" where
  "params_loop maxLen first [] remaining = ([], False)"
| "params_loop maxLen first (f # fs) remaining =
     (if remaining > 0 then
        let sep = (if first then [] else '','');
            remaining = remaining - int (length sep);
            paramString = f (min maxLen remaining);
            (rest, left) = params_loop maxLen False fs (remaining - int (length paramString))
        in (sep @ paramString @ rest, left)
      else ([], True))"

definition getParametersInfo :: "log_params \<Rightarrow> int \<Rightarrow> int \<Rightarrow> string" where
  "getParametersInfo ps remaining maxParameterLength =
     (if remaining \<le> 3 then '' [...]''
      else if ps = No_log_params then '' []''
      else let (message, left) = params_loop maxParameterLength True (stringifiers ps) remaining
           in '' ['' @ message @ (if left then ''...'' else []) @ '']'')"

text \<open>The loop over the statements of a batch: the text, and whether it ended before the last one.\<close>

fun batch_info_loop :: "int \<Rightarrow> bool \<Rightarrow> (string \<times> log_params) list \<Rightarrow> int \<Rightarrow> string \<times> bool" where
  "batch_info_loop maxParam first [] remaining = ([], False)"
| "batch_info_loop maxParam first ((q, ps) # qs) remaining =
     (if remaining > 0 then
        let sep = (if first then [] else '','');
            remaining = remaining - int (length sep);
            queryLength = min remaining (int (length q));
            remaining = remaining - queryLength
        in if remaining \<le> 0 then (sep @ substr_from q queryLength, True)
           else let parameters = getParametersInfo ps remaining maxParam;
                    (rest, left) = batch_info_loop maxParam False qs (remaining - int (length parameters))
                in (sep @ substr_from q queryLength @ parameters @ rest, left)
      else ([], True))"

definition getBatchStatementInfo :: "(string \<times> log_params) list \<Rightarrow> bool \<Rightarrow> bool \<Rightarrow> int \<Rightarrow> int \<Rightarrow> string" where
  "getBatchStatementInfo queries logged prepared maxQueryLength maxParameterLength =
     (let (message, left) = batch_info_loop maxParameterLength True queries maxQueryLength
      in (if logged then ''LOGGED '' else []) @ ''BATCH w/ '' @ show_nat (length queries) @ (if prepared then [] else '' not prepared'') @ '' queries (''
         @ message @ (if left then '',...)'' else '')''))"

text \<open>The options; a limit that is missing or zero is the default, and a threshold that is missing is never exceeded.\<close>

record log_options =
  lo_slowThreshold :: int
  lo_requestSizeThreshold :: int
  lo_logNormalRequests :: bool
  lo_logErroredRequests :: bool
  lo_messageMaxQueryLength :: nat
  lo_messageMaxParameterValueLength :: nat
  lo_messageMaxErrorStackTraceLength :: nat

definition or_default :: "nat \<Rightarrow> nat \<Rightarrow> nat" where
  "or_default n d = (if n = 0 then d else n)"

datatype log_query = Log_query string log_params | Log_batch "(string \<times> log_params) list"

text \<open>What the logger asks of the execution options: \<open>isBatchLogged\<close> and \<open>isPrepared\<close>.\<close>

definition getStatementInfo :: "log_query \<Rightarrow> bool \<Rightarrow> bool \<Rightarrow> log_options \<Rightarrow> string" where
  "getStatementInfo query logged prepared opts =
     (let maxQueryLength = int (or_default (lo_messageMaxQueryLength opts) 500);
          maxParameterLength = int (or_default (lo_messageMaxParameterValueLength opts) 50)
      in case query of
           Log_batch queries \<Rightarrow> getBatchStatementInfo queries logged prepared maxQueryLength maxParameterLength
         | Log_query q ps \<Rightarrow>
             let message = substr_from q maxQueryLength;
                 remaining = maxQueryLength - int (length message) - 1
             in message @ getParametersInfo ps remaining maxParameterLength @ (if prepared then [] else '' (not prepared)''))"

section \<open>Events\<close>

definition latency_nanos :: "nat \<times> nat \<Rightarrow> int" where
  "latency_nanos latency = int (fst latency) * 1000000000 + int (snd latency)"

definition toMillis :: "nat \<times> nat \<Rightarrow> int" where
  "toMillis latency = latency_nanos latency div 1000000"

definition formatSize :: "nat \<Rightarrow> string" where
  "formatSize len = (if len > 1000 then show_nat ((2 * len + 1024) div 2048) @ '' KB'' else show_nat len @ '' bytes'')"

definition getPayloadSizes :: "nat \<Rightarrow> nat option \<Rightarrow> string" where
  "getPayloadSizes requestLength responseLength =
     ''request size '' @ formatSize requestLength
     @ (case responseLength of None \<Rightarrow> [] | Some n \<Rightarrow> '' / response size '' @ formatSize n)"

text \<open>The event and its message, if one is emitted.\<close>

definition logSlow :: "string \<Rightarrow> string \<Rightarrow> string \<Rightarrow> string \<Rightarrow> string \<times> string" where
  "logSlow host millis sizes statement_text = (''slow'', ''['' @ host @ ''] Slow request, took '' @ millis @ '' ms ('' @ sizes @ ''): '' @ statement_text)"

definition logLargeRequest :: "string \<Rightarrow> string \<Rightarrow> string \<Rightarrow> string \<Rightarrow> string \<times> string" where
  "logLargeRequest host millis sizes statement_text =
     (''large'', ''['' @ host @ ''] Request exceeded length, '' @ sizes @ '' (took '' @ millis @ '' ms): '' @ statement_text)"

definition logNormalRequest :: "string \<Rightarrow> string \<Rightarrow> string \<Rightarrow> string \<Rightarrow> string \<times> string" where
  "logNormalRequest host millis sizes statement_text =
     (''normal'', ''['' @ host @ ''] Request completed normally, took '' @ millis @ '' ms ('' @ sizes @ ''): '' @ statement_text)"

definition onSuccess :: "log_options \<Rightarrow> string \<Rightarrow> log_query \<Rightarrow> bool \<Rightarrow> bool \<Rightarrow> nat \<Rightarrow> nat \<Rightarrow> nat \<times> nat \<Rightarrow> (string \<times> string) option" where
  "onSuccess opts host query logged prepared requestLength responseLength latency =
     (let millis = show_int (toMillis latency);
          sizes = getPayloadSizes requestLength (Some responseLength);
          statement_text = getStatementInfo query logged prepared opts
      in if lo_slowThreshold opts > 0 \<and> latency_nanos latency > lo_slowThreshold opts * 1000000 then Some (logSlow host millis sizes statement_text)
         else if lo_requestSizeThreshold opts > 0 \<and> int requestLength > lo_requestSizeThreshold opts
              then Some (logLargeRequest host millis sizes statement_text)
         else if lo_logNormalRequests opts then Some (logNormalRequest host millis sizes statement_text)
         else None)"

definition logLargeErrorRequest :: "string \<Rightarrow> string \<Rightarrow> string \<Rightarrow> string \<Rightarrow> string \<Rightarrow> string \<times> string" where
  "logLargeErrorRequest host millis sizes statement_text stack =
     (''large'', ''['' @ host @ ''] Request exceeded length and execution failed, '' @ sizes @ '' (took '' @ millis @ '' ms): '' @ statement_text @ ''; error: '' @ stack)"

definition logErrorRequest :: "string \<Rightarrow> string \<Rightarrow> string \<Rightarrow> string \<Rightarrow> string \<Rightarrow> string \<times> string" where
  "logErrorRequest host millis sizes statement_text stack =
     (''failure'', ''['' @ host @ ''] Request execution failed, took '' @ millis @ '' ms ('' @ sizes @ ''): '' @ statement_text @ ''; error: '' @ stack)"

definition onError :: "log_options \<Rightarrow> string \<Rightarrow> log_query \<Rightarrow> bool \<Rightarrow> bool \<Rightarrow> nat \<Rightarrow> string \<Rightarrow> nat \<times> nat \<Rightarrow> (string \<times> string) option" where
  "onError opts host query logged prepared requestLength stack latency =
     (let millis = show_int (toMillis latency);
          sizes = getPayloadSizes requestLength None;
          statement_text = getStatementInfo query logged prepared opts;
          stack = substr_from stack (int (or_default (lo_messageMaxErrorStackTraceLength opts) 200))
      in if lo_requestSizeThreshold opts > 0 \<and> int requestLength > lo_requestSizeThreshold opts
         then Some (logLargeErrorRequest host millis sizes statement_text stack)
         else if lo_logErroredRequests opts then Some (logErrorRequest host millis sizes statement_text stack)
         else None)"

section \<open>Messages are bounded\<close>

definition bounded_text :: "(int \<Rightarrow> string) \<Rightarrow> bool" where
  "bounded_text f \<longleftrightarrow> (\<forall>n. int (length (f n)) \<le> max 0 n + 9)"

lemma length_substr: "int (length (substr_from s n)) \<le> max 0 n" "int (length (substr_from s n)) \<le> int (length s)"
  by (auto simp: substr_from_def)

lemma formatParam_bounded: "bounded_text (formatParam v)"
proof -
  have "int (length (substr_from s n)) \<le> max 0 n + 9" for s n using length_substr(1)[of s n] by linarith
  then show ?thesis by (auto simp: bounded_text_def formatParam_def split: log_param.split)
qed

lemma stringify_bounded: "bounded_text (stringify_property p)"
  unfolding bounded_text_def
proof
  fix n
  let ?l = "int (length (substr_from (fst p) n))"
  have "?l \<le> max 0 n" by (rule length_substr)
  moreover have "int (length (formatParam (snd p) (n - ?l - 1))) \<le> max 0 (n - ?l - 1) + 9" using formatParam_bounded by (simp add: bounded_text_def)
  ultimately show "int (length (stringify_property p n)) \<le> max 0 n + 9"
    by (cases "n - ?l - 1 \<le> 0") (simp_all add: stringify_property_def Let_def)
qed

lemma params_loop_bounded:
  "list_all bounded_text fs \<Longrightarrow> int (length (fst (params_loop maxLen first fs remaining))) \<le> max 0 remaining + 9"
proof (induction maxLen first fs remaining rule: params_loop.induct)
  case (2 maxLen first f fs remaining)
  show ?case
  proof (cases "remaining > 0")
    case True
    let ?sep = "if first then [] else '',''"
    let ?r = "remaining - int (length ?sep)"
    let ?p = "f (min maxLen ?r)"
    have r: "0 \<le> ?r" "int (length ?sep) \<le> remaining" using True by auto
    have "int (length (f m)) \<le> max 0 m + 9" for m using 2(2) by (simp add: bounded_text_def)
    then have "int (length ?p) \<le> max 0 (min maxLen ?r) + 9" .
    then have p: "int (length ?p) \<le> max 0 ?r + 9" by linarith
    have rest: "int (length (fst (params_loop maxLen False fs (?r - int (length ?p))))) \<le> max 0 (?r - int (length ?p)) + 9" using 2(1)[OF True refl refl refl] 2(2) by simp
    have zero: "params_loop maxLen False fs m = ([], fs \<noteq> [])" if "m \<le> 0" for m using that by (cases fs) simp_all
    have "int (length (fst (params_loop maxLen first (f # fs) remaining)))
        = int (length ?sep) + int (length ?p) + int (length (fst (params_loop maxLen False fs (?r - int (length ?p)))))"
      using True by (simp add: Let_def case_prod_beta del: length_Cons)
    then show ?thesis using rest p r zero[of "?r - int (length ?p)"] True by (cases "?r - int (length ?p) \<le> 0") auto
  qed simp
qed simp

lemma getParametersInfo_bounded: "int (length (getParametersInfo ps remaining maxLen)) \<le> max 6 (remaining + 15)"
proof -
  have "list_all bounded_text (stringifiers ps)"
    by (auto simp: stringifiers_def list_all_iff formatParam_bounded stringify_bounded split: log_params.split)
  from params_loop_bounded[OF this, of maxLen True remaining] show ?thesis by (auto simp: getParametersInfo_def Let_def case_prod_beta)
qed

lemma batch_loop_bounded: "int (length (fst (batch_info_loop maxParam first qs remaining))) \<le> max 0 remaining + 15"
proof (induction maxParam first qs remaining rule: batch_info_loop.induct)
  case (2 maxParam first q ps qs remaining)
  show ?case
  proof (cases "remaining > 0")
    case True
    let ?sep = "if first then [] else '',''"
    let ?r = "remaining - int (length ?sep)"
    let ?q = "substr_from q (min ?r (int (length q)))"
    let ?s = "?r - min ?r (int (length q))"
    let ?p = "getParametersInfo ps ?s maxParam"
    have r: "0 \<le> ?r" "int (length ?sep) \<le> remaining" using True by auto
    have q: "int (length ?q) = min ?r (int (length q))" using r by (auto simp: substr_from_def)
    show ?thesis
    proof (cases "?s \<le> 0")
      case True
      then show ?thesis using \<open>remaining > 0\<close> q r by (simp add: Let_def)
    next
      case False
      have p: "int (length ?p) \<le> ?s + 15" using getParametersInfo_bounded[of ps ?s maxParam] False by simp
      have rest: "int (length (fst (batch_info_loop maxParam False qs (?s - int (length ?p))))) \<le> max 0 (?s - int (length ?p)) + 15"
        using 2[OF True refl refl refl refl False refl] by simp
      have zero: "fst (batch_info_loop maxParam False qs m) = []" if "m \<le> 0" for m using that by (cases qs) auto
      have "int (length (fst (batch_info_loop maxParam first ((q, ps) # qs) remaining)))
          = int (length ?sep) + int (length ?q) + int (length ?p) + int (length (fst (batch_info_loop maxParam False qs (?s - int (length ?p)))))"
        using True False by (simp add: Let_def case_prod_beta)
      then show ?thesis using rest p q zero[of "?s - int (length ?p)"] by (cases "?s - int (length ?p) \<le> 0") auto
    qed
  qed simp
qed simp


end
