(* ===== verification/Spec2Isabelle.thy ===== *)
theory Spec2Isabelle
  imports VInt_Coding Big_Integer_Mul Duration_Correct Token_Ring Utils_Correct Async_Flow_Correct Type_Names_Correct Cql_Scalars_Correct Codec_Roundtrip Routing_Key Mapper_Cache_Correct Mapper_Names Load_Balancing Policies Timestamps Time_Uuid Client_Connection Client_Correct Options_Correct Client_Options_Correct Protocol_Version Result_Set Concurrent_Stream Mapper_Batch Request_Logger
begin

text \<open>
  The ScyllaDB Node.js driver is a layer of JavaScript and TypeScript (\<open>src/lib\<close>) over a native driver in Rust. This
  layer turns the values of an application into the bytes of the CQL protocol and back, finds the types of
  values, maps documents to statements, keeps the policies and options, and drives the asynchronous calls of the
  native part. The development models the layer component by component.

  \<^bold>\<open>Conventions.\<close> An integer-valued \<open>Number\<close> or a \<open>BigInt\<close> is an \<^typ>\<open>int\<close>, with the 32-bit operators of the
  language written out in \<open>Prelude\<close>; a number that need not be integral is a \<open>js_number\<close> with its IEEE fields
  (\<open>JS_Number\<close>). A \<open>Buffer\<close> is a list of bytes (\<open>JS_Buffer\<close>), a text a list of characters, or of code points where
  UTF-8 matters (\<open>JS_String\<close>, \<open>JS_Text\<close>). What throws returns \<open>'a result\<close>, with the error on the left. An object is a
  record, or an association list where its properties are data. A method is named after its class and its name;
  a private method or a loop of a function has a definition of its own when a lemma is about it. A theory of
  definitions has a companion \<open>_Correct\<close>, \<open>_Bytes\<close>, \<open>_Mul\<close> or \<open>_Roundtrip\<close> with the lemmas where they are long.

  \<^bold>\<open>Numbers and scalars.\<close>
  \<^item> \<open>VInt_Coding\<close>: the variable-length integers of \<open>lib/utils.js\<close> (\<open>VIntCoding\<close>) and of vectors; what is written is read
    back, in the shortest form, and the two encoders agree.
  \<^item> \<open>Big_Integer\<close>, \<open>Big_Integer_Correct\<close>, \<open>Big_Integer_Bytes\<close>, \<open>Big_Integer_Mul\<close>: \<open>Integer\<close> of \<open>lib/types/integer.js\<close>, refined
    to the mathematical integers; its product loses a carry on large factors.
  \<^item> \<open>Duration\<close>, \<open>Duration_Correct\<close>: \<open>lib/types/duration.js\<close> with its byte form, its four text formats and the builder.
  \<^item> \<open>Cql_Scalars\<close>, \<open>Cql_Scalars_Correct\<close>: \<open>Uuid\<close>, \<open>InetAddress\<close>, \<open>LocalTime\<close>, \<open>LocalDate\<close> and \<open>BigDecimal\<close> of \<open>lib/types\<close>.
  \<^item> \<open>Time_Uuid\<close>: \<open>lib/types/time-uuid.js\<close> with its counters of ticks; the clock and the random bytes are parameters. What is
    generated is read back, and \<open>min\<close> and \<open>max\<close> bound every identifier of their date.
  \<^item> \<open>Token_Ring\<close>: tokens and token ranges of \<open>lib/token.js\<close>. The tokenizer is a parameter.

  \<^bold>\<open>Types and the codec.\<close>
  \<^item> \<open>Type_Names\<close>, \<open>Type_Names_Correct\<close>: the parsers of type names in \<open>lib/encoder.js\<close> and the printers of \<open>lib/types\<close>.
  \<^item> \<open>Codec_Values\<close>, \<open>Codec_Encode\<close>, \<open>Codec_Decode\<close>: values of the language as far as the codec tells them apart, and
    \<open>encode\<close> and \<open>decode\<close> of \<open>lib/encoder.js\<close> for every CQL type, with \<open>decodeRows\<close> and \<open>lib/reader.js\<close>. What the codec asks
    of the \<open>Long\<close> library and of the conversions of the runtime are fields of a record of functions, with their
    documented behaviour as the named hypotheses of the properties.
  \<^item> \<open>Cql_Wire\<close>, \<open>Codec_Correct\<close>, \<open>Codec_Roundtrip\<close>, \<open>Varint_Correct\<close>: the wire format as a relation; \<open>encode\<close> refines it,
    \<open>decode\<close> inverts it, nested to any depth.
  \<^item> \<open>Routing_Key\<close>: the routing key of a statement; composite keys are injective.

  \<^bold>\<open>Helpers.\<close>
  \<^item> \<open>Ordering\<close>, \<open>Utils\<close>, \<open>Utils_Correct\<close>: the synchronous helpers of \<open>lib/utils.js\<close>. \<open>binarySearch\<close> runs on fuel, which is the
    length of the array and one; it is proved to be enough for every array.
  \<^item> \<open>Async_Flow\<close>, \<open>Async_Flow_Correct\<close>: the callback combinators of \<open>lib/utils.js\<close> as closures that every order of
    completions drives.

  \<^bold>\<open>The mapper\<close> (\<open>lib/mapping\<close>).
  \<^item> \<open>Mapper_Tree\<close>: the radix tree of the caches, refined to a map.
  \<^item> \<open>Mapper_Query\<close>, \<open>Mapper_Params\<close>, \<open>Mapper_Names\<close>: models, documents and generated statements; the parameters of a
    statement match its placeholders, and column names are recovered from property names.
  \<^item> \<open>Mapper_Handler\<close>, \<open>Mapper_Cache_Correct\<close>: the cache keys, the choice of tables and the executors; a cached
    executor is the one that would be made anew, but for the collisions that are exhibited. Calls of the mapper
    are modelled one after the other.
  \<^item> \<open>Mapper_Result\<close>: \<open>result-mapper.js\<close> and \<open>result.js\<close>, the documents made from rows; the adapter of a select is what its generated
    script does. What an insert writes a select reads back, through the functions of the model.
  \<^item> \<open>Mapper_Batch\<close>: \<open>model-batch-mapper.js\<close>, \<open>model-batch-item.js\<close> and \<open>Mapper.batch\<close>. The items of a batch are settled in any order; a batch of
    inserts has the statements its items would have without caches, and the defects of the caches are exhibited.

  \<^bold>\<open>Policies\<close> (\<open>lib/policies\<close>).
  \<^item> \<open>Load_Balancing\<close>: the query plans of \<open>LegacyDefaultLoadBalancingPolicy\<close>. Hosts, replicas, the clock and the dice are
    parameters; a plan is consumed before the next one is made.
  \<^item> \<open>Policies\<close>: the configurations handed to the native driver, in a store because wrappers change them in place.
  \<^item> \<open>Timestamps\<close>: the monotonic timestamp generator.

  \<^bold>\<open>The client\<close> (\<open>lib/client.ts\<close>).
  \<^item> \<open>Client_Connection\<close>: \<open>connect\<close> and \<open>shutdown\<close> as the steps of a relation that every interleaving of callers and completions
    of the native driver drives; an invariant by rule induction, and that pending calls are settled.
  \<^item> \<open>Client_Execution\<close>, \<open>Client_Correct\<close>: the execution of statements and batches with the real codec, and \<open>eachRow\<close> with
    automatic paging. The native driver is a parameter; \<open>eachRow\<close> is a partial function, proved to return exactly when
    the pages end.
  \<^item> \<open>Execution_Options\<close>, \<open>Options_Correct\<close>: \<open>lib/execution-options.js\<close>, \<open>lib/query-options.js\<close> and \<open>lib/execution-profile.ts\<close>, with
    the profiles in a store because clients change them; profiles are complete, and some options never take effect.
  \<^item> \<open>Client_Options\<close>, \<open>Client_Options_Correct\<close>: \<open>lib/client-options.js\<close>, from the options of the user to those of the session.
    Which SSL options are accepted, and that what the native driver is given was checked. The classes of the user and what
    their policies answer are parameters.
  \<^item> \<open>Protocol_Version\<close>: version numbers (\<open>lib/types/version-number.ts\<close>) and the choice of the protocol version
    (\<open>lib/types/protocol-version.js\<close>). Versions are ordered, printed ones are read back, and the version chosen is determined.
  \<^item> \<open>Request_Logger\<close>: the events of \<open>lib/tracker/request-logger.js\<close> and their messages, whose length is bounded.
  \<^item> \<open>Result_Set\<close>: \<open>lib/types/result-set.js\<close>, \<open>row.js\<close> and \<open>results-wrapper.js\<close>. A \<open>for await\<close> loop is a partial function, proved to return
    exactly when the pages it reads end; it stops at the first page without rows.
  \<^item> \<open>Concurrent\<close>, \<open>Concurrent_Correct\<close>, \<open>Concurrent_Stream\<close>: \<open>lib/concurrent/index.js\<close>, with the lanes of an array and the events of a stream
    as step relations; every item is executed once, the results are at their indices, and the promise is settled
    once, after a bounded number of steps for an array.

  \<^bold>\<open>Interfaces.\<close> Each contract between components is a locale that the model's own definitions interpret: a
  self-delimiting codec (\<open>prefix_codec\<close>, in \<open>JS_Buffer\<close>), orders on values (\<open>Ordering\<close>), a cache and a memoised function
  (\<open>Mapper_Tree\<close>, \<open>Mapper_Cache_Correct\<close>), and those of the theories named above.

  \<^bold>\<open>Not modelled.\<close> Quotients, the text form and the parsing of \<open>Integer\<close>, the jitter of reconnection delays and the
  conversions between doubles and text estimate or print in floating point. Names of properties are Latin-1
  texts, and members inherited from \<open>Object.prototype\<close> are not seen by the mapper. \<open>ResultStream\<close> extends a stream of the
  runtime, and the methods of a model mapper forward to the handler. Metadata, metrics, authentication and
  geometry carry data or forward calls to the native driver.
\<close>

end
